(* ===== verification/Overdub_Prelude.thy ===== *)
theory Overdub_Prelude
  imports Main "HOL-Library.Word"
begin

text \<open>
  The vocabulary shared by every component: bytes and byte strings, Go's truncated integer
  division, the little- and big-endian encodings of \<open>encoding/binary\<close>, and the two interfaces
  most components meet: a state machine with an invariant (\<open>machine\<close>) and a byte codec whose
  decoder returns the bytes it did not use (\<open>codec\<close>).
  A Go \<open>string\<close> is a sequence of bytes and is modelled as \<open>string\<close>; a \<open>[]byte\<close> as a list of
  \<open>8 word\<close>; \<open>str_bytes\<close> and \<open>bytes_str\<close> are the conversions \<open>[]byte(s)\<close> and \<open>string(b)\<close>.
  Times and durations are nanoseconds in \<open>int\<close>; the zero \<open>time.Time\<close> is \<open>None\<close>.
\<close>

unbundle bit_operations_syntax

named_theorems step_inv \<open>operations preserve their component's invariant\<close>
named_theorems len_simps \<open>lengths of encodings\<close>

type_synonym byte = "8 word"
type_synonym bytes = "byte list"
type_synonym time = int
type_synonym duration = int

section \<open>Durations\<close>

abbreviation (input) nanosecond :: duration where "nanosecond \<equiv> 1"
abbreviation (input) microsecond :: duration where "microsecond \<equiv> 1000"
abbreviation (input) millisecond :: duration where "millisecond \<equiv> 1000000"
abbreviation (input) second :: duration where "second \<equiv> 1000000000"
abbreviation (input) minute :: duration where "minute \<equiv> 60000000000"

section \<open>Go's integer division\<close>

text \<open>Go truncates towards zero, \<open>div\<close> rounds down.\<close>

definition go_div :: "int \<Rightarrow> int \<Rightarrow> int" where
  "go_div a b = sgn a * sgn b * (\<bar>a\<bar> div \<bar>b\<bar>)"

definition go_mod :: "int \<Rightarrow> int \<Rightarrow> int" where
  "go_mod a b = a - b * go_div a b"

lemma go_div_nonneg [simp]: "0 \<le> a \<Longrightarrow> 0 < b \<Longrightarrow> go_div a b = a div b"
  by (cases "a = 0") (auto simp: go_div_def)

lemma go_mod_nonneg [simp]: "0 \<le> a \<Longrightarrow> 0 < b \<Longrightarrow> go_mod a b = a mod b"
  by (simp add: go_mod_def minus_mult_div_eq_mod)

lemma go_div_neg: "a \<le> 0 \<Longrightarrow> 0 < b \<Longrightarrow> go_div a b = - ((- a) div b)"
  by (cases "a = 0") (auto simp: go_div_def)

lemma go_div_uminus: "go_div (- a) b = - go_div a b"
  by (simp add: go_div_def sgn_minus)

lemma go_div_le_self: "0 < b \<Longrightarrow> \<bar>go_div a b\<bar> \<le> \<bar>a\<bar>"
  using zdiv_mono2 [of "\<bar>a\<bar>" 1 b]
  by (cases "a = 0") (auto simp: go_div_def abs_mult pos_imp_zdiv_nonneg_iff)

lemma go_div_shrinks: "1 < b \<Longrightarrow> a \<noteq> 0 \<Longrightarrow> \<bar>go_div a b\<bar> < \<bar>a\<bar>"
  using int_div_less_self [of "\<bar>a\<bar>" b]
  by (auto simp: go_div_def abs_mult pos_imp_zdiv_nonneg_iff)

section \<open>Bytes and strings\<close>

definition str_bytes :: "string \<Rightarrow> bytes" where
  "str_bytes s = map (\<lambda>c. of_char c) s"

definition bytes_str :: "bytes \<Rightarrow> string" where
  "bytes_str bs = map (\<lambda>b. char_of (unat b)) bs"

lemma length_str_bytes [simp, len_simps]: "length (str_bytes s) = length s"
  by (simp add: str_bytes_def)

lemma length_bytes_str [simp, len_simps]: "length (bytes_str b) = length b"
  by (simp add: bytes_str_def)

lemma unat_of_char [simp]: "unat (of_char c :: byte) = of_char c"
proof -
  have "(of_char c :: byte) = of_nat (of_char c)"
    by (simp add: of_nat_of_char)
  moreover have "of_char c < (256 :: nat)" by (rule nat_of_char_less_256)
  ultimately show ?thesis by (simp add: unat_of_nat)
qed

lemma bytes_str_str_bytes [simp]: "bytes_str (str_bytes s) = s"
  by (induction s) (simp_all add: bytes_str_def str_bytes_def)

lemma str_bytes_bytes_str [simp]: "str_bytes (bytes_str b) = b"
proof (induction b)
  case (Cons x xs)
  have "unat x < 256" using unsigned_less [of x, where ?'a = nat] by simp
  then have "(of_nat (of_char (char_of (unat x)) :: nat) :: byte) = x"
    by simp
  then have "of_char (char_of (unat x)) = x"
    by (simp only: of_nat_of_char)
  then show ?case using Cons by (simp add: bytes_str_def str_bytes_def)
qed (simp add: bytes_str_def str_bytes_def)

lemma str_bytes_append [simp]: "str_bytes (a @ b) = str_bytes a @ str_bytes b"
  by (simp add: str_bytes_def)

lemma str_bytes_inj [simp]: "str_bytes a = str_bytes b \<longleftrightarrow> a = b"
  by (metis bytes_str_str_bytes)

text \<open>Two bytes are equal when their eight bits are.\<close>

lemma byte_eqI:
  fixes a b :: byte
  assumes "bit a 0 = bit b 0" "bit a 1 = bit b 1" "bit a 2 = bit b 2" "bit a 3 = bit b 3"
    "bit a 4 = bit b 4" "bit a 5 = bit b 5" "bit a 6 = bit b 6" "bit a 7 = bit b 7"
  shows "a = b"
proof (rule bit_word_eqI)
  fix n assume "n < LENGTH(8)"
  then have "n = 0 \<or> n = 1 \<or> n = 2 \<or> n = 3 \<or> n = 4 \<or> n = 5 \<or> n = 6 \<or> n = 7" by auto
  then show "bit a n \<longleftrightarrow> bit b n" using assms by (elim disjE) (simp_all only:)
qed

lemma bit_byte_ge [simp]: "8 \<le> n \<Longrightarrow> \<not> bit (b :: byte) n"
  by (auto dest: bit_imp_le_length)

section \<open>Little and big endian\<close>

text \<open>
  \<open>put_le n w\<close> is the \<open>n\<close> low bytes of \<open>w\<close>, least significant first
  (\<open>binary.LittleEndian.PutUintN\<close>), \<open>get_le\<close> reads them back; \<open>put_be\<close> and \<open>get_be\<close> are the
  big-endian pair.
\<close>

fun put_le :: "nat \<Rightarrow> 'a::len word \<Rightarrow> bytes" where
  "put_le 0 w = []"
| "put_le (Suc n) w = ucast w # put_le n (drop_bit 8 w)"

fun get_le :: "bytes \<Rightarrow> 'a::len word" where
  "get_le [] = 0"
| "get_le (b # bs) = ucast b OR push_bit 8 (get_le bs)"

definition put_be :: "nat \<Rightarrow> 'a::len word \<Rightarrow> bytes" where
  "put_be n w = rev (put_le n w)"

definition get_be :: "bytes \<Rightarrow> 'a::len word" where
  "get_be bs = get_le (rev bs)"

lemma length_put_le [simp, len_simps]: "length (put_le n w) = n"
  by (induction n arbitrary: w) auto

lemma length_put_be [simp, len_simps]: "length (put_be n w) = n"
  by (simp add: put_be_def)

lemma get_le_put_le: "get_le (put_le n w) = take_bit (8 * n) (w :: 'a::len word)"
proof (induction n arbitrary: w)
  case (Suc n)
  show ?case
    by (rule bit_word_eqI)
      (auto simp: Suc bit_or_iff bit_ucast_iff bit_push_bit_iff bit_take_bit_iff bit_drop_bit_eq
        dest: bit_imp_le_length)
qed simp

lemma bit_get_le: "bit (get_le bs :: 'a::len word) n \<Longrightarrow> n < 8 * length bs"
proof (induction bs arbitrary: n)
  case (Cons c cs)
  show ?case
  proof (cases "n < 8")
    case False
    with Cons.prems have "bit (get_le cs :: 'a word) (n - 8)"
      by (auto simp: bit_simps dest: bit_imp_le_length)
    from Cons.IH [OF this] show ?thesis by simp
  qed simp
qed simp

lemma put_le_get_le:
  "8 * length bs \<le> LENGTH('a) \<Longrightarrow> put_le (length bs) (get_le bs :: 'a::len word) = bs"
proof (induction bs)
  case (Cons b bs)
  have len: "LENGTH('a) \<ge> 8" using Cons.prems by simp
  have b: "ucast (ucast b OR push_bit 8 (get_le bs) :: 'a word) = b"
    by (rule bit_word_eqI) (use len in \<open>auto simp: bit_simps\<close>)
  have "drop_bit 8 (ucast b OR push_bit 8 (get_le bs) :: 'a word) = get_le bs"
    using Cons.prems
    by (intro bit_word_eqI) (auto simp: bit_simps dest: bit_get_le bit_imp_le_length)
  with b Cons show ?case by simp
qed simp

lemma get_be_put_be: "get_be (put_be n w) = take_bit (8 * n) (w :: 'a::len word)"
  by (simp add: put_be_def get_be_def get_le_put_le)

lemma put_be_get_be:
  "8 * length bs \<le> LENGTH('a) \<Longrightarrow> put_be (length bs) (get_be bs :: 'a::len word) = bs"
  using put_le_get_le [of "rev bs", where ?'a = 'a] by (simp add: put_be_def get_be_def)

lemma get_le_put_le_full [simp]: "LENGTH('a) \<le> 8 * n \<Longrightarrow> get_le (put_le n w) = (w :: 'a::len word)"
  by (simp add: get_le_put_le take_bit_word_eq_self)

lemma get_be_put_be_full [simp]: "LENGTH('a) \<le> 8 * n \<Longrightarrow> get_be (put_be n w) = (w :: 'a::len word)"
  by (simp add: get_be_put_be take_bit_word_eq_self)

section \<open>State machines\<close>

text \<open>
  A component whose operations are functions on its state is a \<open>machine\<close>: every operation keeps
  the invariant, so every run does. An \<open>emitter\<close> also hands values out (calls, log lines, frames)
  and every one of them satisfies \<open>good\<close> in the state it is handed out from.
\<close>

locale machine =
  fixes step :: "'s \<Rightarrow> 'e \<Rightarrow> 's"
    and inv :: "'s \<Rightarrow> bool"
  assumes step_keeps: "inv s \<Longrightarrow> inv (step s e)"
begin

lemma run_keeps: "inv s \<Longrightarrow> inv (foldl step s es)"
  by (induction es arbitrary: s) (auto intro: step_keeps)

lemma run_keeps_take: "inv s \<Longrightarrow> inv (foldl step s (take n es))"
  by (rule run_keeps)

end

fun run_out :: "('s \<Rightarrow> 'e \<Rightarrow> 's \<times> 'o list) \<Rightarrow> 's \<Rightarrow> 'e list \<Rightarrow> 's \<times> 'o list" where
  "run_out f s [] = (s, [])"
| "run_out f s (e # es) =
     (case f s e of (s1, o1) \<Rightarrow> case run_out f s1 es of (s2, o2) \<Rightarrow> (s2, o1 @ o2))"

lemma run_out_append:
  "run_out f s (xs @ ys) =
     (case run_out f s xs of (s1, o1) \<Rightarrow> case run_out f s1 ys of (s2, o2) \<Rightarrow> (s2, o1 @ o2))"
  by (induction xs arbitrary: s) (auto split: prod.splits)

locale emitter =
  fixes step :: "'s \<Rightarrow> 'e \<Rightarrow> 's \<times> 'o list"
    and inv :: "'s \<Rightarrow> bool"
    and good :: "'o \<Rightarrow> bool"
  assumes step_keeps: "inv s \<Longrightarrow> inv (fst (step s e))"
    and step_good: "inv s \<Longrightarrow> x \<in> set (snd (step s e)) \<Longrightarrow> good x"
begin

lemma run_keeps: "inv s \<Longrightarrow> inv (fst (run_out step s es))"
proof (induction es arbitrary: s)
  case (Cons e es)
  show ?case
    using step_keeps [OF Cons.prems, of e] Cons.IH
    by (simp split: prod.splits) (metis fst_conv)
qed simp

lemma run_good: "inv s \<Longrightarrow> x \<in> set (snd (run_out step s es)) \<Longrightarrow> good x"
proof (induction es arbitrary: s)
  case (Cons e es)
  obtain s1 o1 where 1: "step s e = (s1, o1)" by fastforce
  obtain s2 o2 where 2: "run_out step s1 es = (s2, o2)" by fastforce
  have "inv s1" using step_keeps [OF Cons.prems(1), of e] 1 by simp
  then show ?case
    using Cons.prems Cons.IH [of s1] step_good [OF Cons.prems(1), of x e] 1 2 by auto
qed simp

end

sublocale emitter \<subseteq> m: machine "\<lambda>s e. fst (step s e)" inv
  by unfold_locales (rule step_keeps)

section \<open>Byte codecs\<close>

text \<open>
  A decoder takes one value off the front of its input and returns the rest. On a \<open>codec\<close> a
  sequence of encoded values is read back in order, with the rest untouched: the framing property
  every wire format of the program needs.
\<close>

fun read_n :: "('b \<Rightarrow> ('a \<times> 'b) option) \<Rightarrow> nat \<Rightarrow> 'b \<Rightarrow> ('a list \<times> 'b) option" where
  "read_n dec 0 bs = Some ([], bs)"
| "read_n dec (Suc n) bs =
     (case dec bs of
        None \<Rightarrow> None
      | Some (x, r) \<Rightarrow> (case read_n dec n r of None \<Rightarrow> None | Some (xs, r') \<Rightarrow> Some (x # xs, r')))"

locale codec =
  fixes enc :: "'a \<Rightarrow> bytes"
    and dec :: "bytes \<Rightarrow> ('a \<times> bytes) option"
    and ok :: "'a \<Rightarrow> bool"
  assumes dec_enc: "ok x \<Longrightarrow> dec (enc x @ r) = Some (x, r)"
begin

lemma read_n_enc: "list_all ok xs \<Longrightarrow> read_n dec (length xs) (concat (map enc xs) @ r) = Some (xs, r)"
  by (induction xs) (simp_all add: dec_enc)

lemma enc_prefix_free: "ok x \<Longrightarrow> ok y \<Longrightarrow> enc x @ r = enc y @ r' \<Longrightarrow> x = y \<and> r = r'"
  by (metis dec_enc option.inject prod.inject)

lemma enc_inj: "ok x \<Longrightarrow> ok y \<Longrightarrow> enc x = enc y \<Longrightarrow> x = y"
  using enc_prefix_free [of x y "[]" "[]"] by simp

end

end
