(* ===== verification/Window_Limiter.thy ===== *)
theory Window_Limiter
  imports Overdub_Prelude
begin

text \<open>
  The interface of a fixed-window rate limiter: a call at time \<open>now\<close> is granted or refused, a
  window opens at the first call after the last one ended, and at most \<open>burst\<close> calls are granted
  in a window. The peer log and the unicast answers of the mDNS responder are both one.
\<close>

text \<open>\<open>now.After(end)\<close>; the zero \<open>time.Time\<close>, before which nothing is, is \<open>None\<close>.\<close>

definition after_time :: "time \<Rightarrow> time option \<Rightarrow> bool" where
  "after_time now e = (case e of None \<Rightarrow> True | Some t \<Rightarrow> t < now)"

fun grants :: "('s \<Rightarrow> time \<Rightarrow> 's \<times> bool) \<Rightarrow> 's \<Rightarrow> time list \<Rightarrow> nat" where
  "grants f s [] = 0"
| "grants f s (t # ts) = (case f s t of (s', g) \<Rightarrow> (if g then 1 else 0) + grants f s' ts)"

locale window_limiter =
  fixes f :: "'s \<Rightarrow> time \<Rightarrow> 's \<times> bool"
    and ends :: "'s \<Rightarrow> time option"
    and taken :: "'s \<Rightarrow> nat"
    and burst :: nat
    and width :: duration
  assumes burst_pos: "0 < burst"
    and width_pos: "0 < width"
    and refused_keeps:
      "f s now = (s', False) \<Longrightarrow> (ends s' = ends s \<and> taken s' = taken s)
         \<or> (after_time now (ends s) \<and> ends s' = Some (now + width) \<and> taken s' = 0)"
    and granted_fresh:
      "f s now = (s', True) \<Longrightarrow> after_time now (ends s) \<Longrightarrow>
         ends s' = Some (now + width) \<and> taken s' = 1"
    and granted_open:
      "f s now = (s', True) \<Longrightarrow> \<not> after_time now (ends s) \<Longrightarrow>
         ends s' = ends s \<and> taken s' = Suc (taken s) \<and> taken s < burst"
begin

lemma grants_open_window:
  assumes "ends s = Some e" "\<forall>t\<in>set ts. t \<le> e" "taken s \<le> burst"
  shows "grants f s ts \<le> burst - taken s"
  using assms
proof (induction ts arbitrary: s)
  case (Cons t ts)
  obtain s' g where fs: "f s t = (s', g)" by fastforce
  have closed: "\<not> after_time t (ends s)"
    using Cons.prems by (auto simp: after_time_def)
  show ?case
  proof (cases g)
    case True
    with granted_open fs closed have "ends s' = ends s" "taken s' = Suc (taken s)" "taken s < burst"
      by auto
    with Cons.IH [of s'] Cons.prems fs True show ?thesis by simp
  next
    case False
    with refused_keeps fs closed have "ends s' = ends s" "taken s' = taken s" by auto
    with Cons.IH [of s'] Cons.prems fs False show ?thesis by simp
  qed
qed simp

text \<open>An interval no longer than one window meets at most two of them.\<close>

lemma grants_interval:
  assumes "\<forall>t\<in>set ts. a \<le> t \<and> t \<le> a + width" "taken s \<le> burst"
  shows "grants f s ts \<le> (burst - taken s) + burst"
  using assms
proof (induction ts arbitrary: s)
  case (Cons t ts)
  obtain s' g where fs: "f s t = (s', g)" by fastforce
  have later: "\<forall>u\<in>set ts. u \<le> t + width" using Cons.prems(1) by auto
  show ?case
  proof (cases "after_time t (ends s)")
    case True
    show ?thesis
    proof (cases g)
      case True
      with granted_fresh fs \<open>after_time t (ends s)\<close>
      have "ends s' = Some (t + width)" "taken s' = 1" by auto
      with grants_open_window [of s' "t + width" ts] later burst_pos
      have "grants f s' ts \<le> burst - 1" by simp
      with fs True show ?thesis using burst_pos by simp
    next
      case False
      with fs have "f s t = (s', False)" by simp
      from refused_keeps [OF this] consider "ends s' = ends s" "taken s' = taken s"
        | "ends s' = Some (t + width)" "taken s' = 0"
        by auto
      then show ?thesis
      proof cases
        case 1
        with Cons.IH [of s'] Cons.prems fs False show ?thesis by simp
      next
        case 2
        with grants_open_window [of s' "t + width" ts] later
        have "grants f s' ts \<le> burst" by simp
        with fs False show ?thesis by simp
      qed
    qed
  next
    case closed: False
    show ?thesis
    proof (cases g)
      case True
      with granted_open fs closed have "taken s' = Suc (taken s)" "taken s < burst" by auto
      with Cons.IH [of s'] Cons.prems fs True show ?thesis by simp
    next
      case False
      with refused_keeps fs closed have "taken s' = taken s" by auto
      with Cons.IH [of s'] Cons.prems fs False show ?thesis by simp
    qed
  qed
qed simp

end

end
