(* ===== verification/Go_Strings.thy ===== *)
theory Go_Strings
  imports Overdub_Prelude
begin

text \<open>
  The functions of Go's \<open>strings\<close> and \<open>strconv\<close> packages the program uses, on byte strings.
  \<open>TrimSpace\<close> and \<open>Fields\<close> are exact: a Unicode space is recognised by its UTF-8 encoding, which
  is never part of another rune. \<open>ToLower\<close> and \<open>EqualFold\<close> map the ASCII letters and the runes
  outside ASCII that fold onto one of them (the Kelvin sign, the dotted capital I, the long s), so
  a comparison in which one side is ASCII is exact; case pairs that lie wholly outside ASCII are
  left as they are. The target is ARMv7, where \<open>int\<close> has 32 bits, and \<open>Atoi\<close> refuses a number
  outside that range.
\<close>

section \<open>Prefixes, suffixes, searching\<close>

definition has_prefix :: "string \<Rightarrow> string \<Rightarrow> bool" where
  "has_prefix s p = (take (length p) s = p)"

definition has_suffix :: "string \<Rightarrow> string \<Rightarrow> bool" where
  "has_suffix s p = has_prefix (rev s) (rev p)"

definition cut_prefix :: "string \<Rightarrow> string \<Rightarrow> string option" where
  "cut_prefix s p = (if has_prefix s p then Some (drop (length p) s) else None)"

definition trim_prefix :: "string \<Rightarrow> string \<Rightarrow> string" where
  "trim_prefix s p = (if has_prefix s p then drop (length p) s else s)"

definition trim_suffix :: "string \<Rightarrow> string \<Rightarrow> string" where
  "trim_suffix s p = (if has_suffix s p then take (length s - length p) s else s)"

fun index_of :: "string \<Rightarrow> string \<Rightarrow> nat option" where
  "index_of [] sub = (if sub = [] then Some 0 else None)"
| "index_of (c # s) sub =
     (if has_prefix (c # s) sub then Some 0 else map_option Suc (index_of s sub))"

fun last_index_of :: "string \<Rightarrow> string \<Rightarrow> nat option" where
  "last_index_of [] sub = (if sub = [] then Some 0 else None)"
| "last_index_of (c # s) sub =
     (case last_index_of s sub of
        Some i \<Rightarrow> Some (Suc i)
      | None \<Rightarrow> if has_prefix (c # s) sub then Some 0 else None)"

definition contains_str :: "string \<Rightarrow> string \<Rightarrow> bool" where
  "contains_str s sub = (index_of s sub \<noteq> None)"

text \<open>\<open>strings.Cut\<close>: the text around the first separator, \<open>None\<close> when there is none.\<close>

definition cut_at :: "string \<Rightarrow> string \<Rightarrow> (string \<times> string) option" where
  "cut_at s sep =
     (case index_of s sep of
        None \<Rightarrow> None
      | Some i \<Rightarrow> Some (take i s, drop (i + length sep) s))"

text \<open>\<open>strings.Split\<close> with a separator of one byte.\<close>

fun split_on :: "char \<Rightarrow> string \<Rightarrow> string list" where
  "split_on sep [] = [[]]"
| "split_on sep (c # s) =
     (if c = sep then [] # split_on sep s
      else (case split_on sep s of [] \<Rightarrow> [[c]] | f # fs \<Rightarrow> (c # f) # fs))"

abbreviation (input) split_lines :: "string \<Rightarrow> string list" where
  "split_lines \<equiv> split_on (CHR 0x0A)"

lemma has_prefix_append [simp]: "has_prefix (p @ s) p"
  by (simp add: has_prefix_def)

lemma has_prefix_Nil [simp]: "has_prefix s []"
  by (simp add: has_prefix_def)

lemma has_prefix_iff: "has_prefix s p \<longleftrightarrow> (\<exists>r. s = p @ r)"
  by (metis append_eq_conv_conj append_take_drop_id has_prefix_def)

lemma has_suffix_iff: "has_suffix s p \<longleftrightarrow> (\<exists>r. s = r @ p)"
  by (metis has_prefix_iff has_suffix_def rev_append rev_rev_ident)

lemma cut_prefix_Some: "cut_prefix s p = Some r \<longleftrightarrow> s = p @ r"
  by (auto simp: cut_prefix_def has_prefix_iff)

lemma index_of_Some: "index_of s sub = Some i \<Longrightarrow> \<exists>a r. s = a @ sub @ r \<and> length a = i"
proof (induction s arbitrary: i)
  case (Cons c s)
  show ?case
  proof (cases "has_prefix (c # s) sub")
    case True
    with Cons.prems show ?thesis by (auto simp: has_prefix_iff)
  next
    case False
    with Cons.prems obtain j where "index_of s sub = Some j" "i = Suc j" by auto
    with Cons.IH obtain a r where "s = a @ sub @ r" "length a = j" by blast
    with \<open>i = Suc j\<close> have "c # s = (c # a) @ sub @ r \<and> length (c # a) = i" by simp
    then show ?thesis by blast
  qed
qed (auto split: if_splits)

lemma cut_at_Some: "cut_at s sep = Some (a, b) \<Longrightarrow> s = a @ sep @ b"
  by (auto simp: cut_at_def split: option.splits dest!: index_of_Some)

lemma split_on_nonempty [simp]: "split_on c s \<noteq> []"
  by (cases s) (auto split: list.splits)

lemma split_on_no_sep: "f \<in> set (split_on c s) \<Longrightarrow> c \<notin> set f"
  by (induction s arbitrary: f) (auto split: if_splits list.splits)

text \<open>Joining the pieces with the separator gives the string back.\<close>

fun join_on :: "char \<Rightarrow> string list \<Rightarrow> string" where
  "join_on sep [] = []"
| "join_on sep [f] = f"
| "join_on sep (f # g # fs) = f @ sep # join_on sep (g # fs)"

lemma join_on_Cons: "fs \<noteq> [] \<Longrightarrow> join_on c (f # fs) = f @ c # join_on c fs"
  by (cases fs) auto

lemma join_split: "join_on c (split_on c s) = s"
proof (induction s)
  case (Cons x s)
  obtain f fs where f: "split_on c s = f # fs" by (cases "split_on c s") auto
  show ?case
    using Cons f by (cases fs) (auto simp: join_on_Cons)
qed simp

section \<open>Unicode space\<close>

definition space_seqs :: "string list" where
  "space_seqs =
     map (\<lambda>c. [c]) [CHR 0x09, CHR 0x0A, CHR 0x0B, CHR 0x0C, CHR 0x0D, CHR 0x20]
     @ [[CHR 0xC2, CHR 0x85], [CHR 0xC2, CHR 0xA0], [CHR 0xE1, CHR 0x9A, CHR 0x80]]
     @ map (\<lambda>c. [CHR 0xE2, CHR 0x80, c])
         [CHR 0x80, CHR 0x81, CHR 0x82, CHR 0x83, CHR 0x84, CHR 0x85, CHR 0x86, CHR 0x87,
          CHR 0x88, CHR 0x89, CHR 0x8A, CHR 0xA8, CHR 0xA9, CHR 0xAF]
     @ [[CHR 0xE2, CHR 0x81, CHR 0x9F], [CHR 0xE3, CHR 0x80, CHR 0x80]]"

definition lead_seq :: "string list \<Rightarrow> string \<Rightarrow> string option" where
  "lead_seq qs s = find (\<lambda>q. q \<noteq> [] \<and> has_prefix s q) qs"

lemma lead_seq_Some: "lead_seq qs s = Some q \<Longrightarrow> q \<noteq> [] \<and> q \<in> set qs \<and> (\<exists>r. s = q @ r)"
  by (auto simp: lead_seq_def find_Some_iff has_prefix_iff)

lemma lead_seq_shrinks: "lead_seq qs s = Some q \<Longrightarrow> length s - length q < length s"
  by (drule lead_seq_Some) auto

function trim_seqs :: "string list \<Rightarrow> string \<Rightarrow> string" where
  "trim_seqs qs s =
     (case lead_seq qs s of None \<Rightarrow> s | Some q \<Rightarrow> trim_seqs qs (drop (length q) s))"
  by pat_completeness auto
termination
  by (relation "measure (\<lambda>(qs, s). length s)") (auto dest: lead_seq_shrinks)

declare trim_seqs.simps [simp del]

definition trim_left_space :: "string \<Rightarrow> string" where
  "trim_left_space s = trim_seqs space_seqs s"

definition trim_right_space :: "string \<Rightarrow> string" where
  "trim_right_space s = rev (trim_seqs (map rev space_seqs) (rev s))"

definition trim_space :: "string \<Rightarrow> string" where
  "trim_space s = trim_right_space (trim_left_space s)"

definition flush_field :: "string \<Rightarrow> string list" where
  "flush_field acc = (if acc = [] then [] else [rev acc])"

function fields_acc :: "string \<Rightarrow> string \<Rightarrow> string list" where
  "fields_acc acc s =
     (case lead_seq space_seqs s of
        Some q \<Rightarrow> flush_field acc @ fields_acc [] (drop (length q) s)
      | None \<Rightarrow> (case s of [] \<Rightarrow> flush_field acc | c # cs \<Rightarrow> fields_acc (c # acc) cs))"
  by pat_completeness auto
termination
  by (relation "measure (\<lambda>(acc, s). length s)") (auto dest: lead_seq_shrinks)

declare fields_acc.simps [simp del]

definition str_fields :: "string \<Rightarrow> string list" where
  "str_fields s = fields_acc [] s"

lemma trim_seqs_suffix: "\<exists>r. s = r @ trim_seqs qs s"
proof (induction qs s rule: trim_seqs.induct)
  case (1 qs s)
  show ?case
  proof (cases "lead_seq qs s")
    case (Some q)
    with 1 obtain r where "drop (length q) s = r @ trim_seqs qs (drop (length q) s)" by blast
    with Some show ?thesis
      by (metis append.assoc append_take_drop_id option.simps(5) trim_seqs.simps)
  qed (simp add: trim_seqs.simps)
qed

lemma length_trim_seqs: "length (trim_seqs qs s) \<le> length s"
  using trim_seqs_suffix [of s qs] by (metis length_append le_add2)

lemma lead_seq_trim_seqs [simp]: "lead_seq qs (trim_seqs qs s) = None"
proof (induction qs s rule: trim_seqs.induct)
  case (1 qs s)
  then show ?case
    by (cases "lead_seq qs s") (simp_all add: trim_seqs.simps [of qs s])
qed

lemma trim_seqs_idem [simp]: "trim_seqs qs (trim_seqs qs s) = trim_seqs qs s"
  by (subst trim_seqs.simps) simp

lemma length_trim_space: "length (trim_space s) \<le> length s"
  using length_trim_seqs [of space_seqs s]
    length_trim_seqs [of "map rev space_seqs" "rev (trim_seqs space_seqs s)"]
  by (simp add: trim_space_def trim_left_space_def trim_right_space_def)

lemma fields_acc_nonempty: "f \<in> set (fields_acc acc s) \<Longrightarrow> f \<noteq> []"
proof (induction acc s rule: fields_acc.induct)
  case (1 acc s)
  then show ?case
    by (subst (asm) (2) fields_acc.simps)
      (auto simp: flush_field_def split: option.splits list.splits if_splits)
qed

section \<open>Case folding\<close>

abbreviation chr_code :: "char \<Rightarrow> nat" where
  "chr_code c \<equiv> of_char c"

definition lower_char :: "char \<Rightarrow> char" where
  "lower_char c = (if 65 \<le> chr_code c \<and> chr_code c \<le> 90 then char_of (chr_code c + 32) else c)"

definition upper_char :: "char \<Rightarrow> char" where
  "upper_char c = (if 97 \<le> chr_code c \<and> chr_code c \<le> 122 then char_of (chr_code c - 32) else c)"

fun to_lower :: "string \<Rightarrow> string" where
  "to_lower [] = []"
| "to_lower (c # s) =
     (if has_prefix (c # s) [CHR 0xE2, CHR 0x84, CHR 0xAA] then CHR ''k'' # to_lower (drop 2 s)
      else if has_prefix (c # s) [CHR 0xC4, CHR 0xB0] then CHR ''i'' # to_lower (drop 1 s)
      else lower_char c # to_lower s)"

fun to_upper :: "string \<Rightarrow> string" where
  "to_upper [] = []"
| "to_upper (c # s) =
     (if has_prefix (c # s) [CHR 0xC5, CHR 0xBF] then CHR ''S'' # to_upper (drop 1 s)
      else if has_prefix (c # s) [CHR 0xC4, CHR 0xB1] then CHR ''I'' # to_upper (drop 1 s)
      else upper_char c # to_upper s)"

fun fold_case :: "string \<Rightarrow> string" where
  "fold_case [] = []"
| "fold_case (c # s) =
     (if has_prefix (c # s) [CHR 0xE2, CHR 0x84, CHR 0xAA] then CHR ''k'' # fold_case (drop 2 s)
      else if has_prefix (c # s) [CHR 0xC5, CHR 0xBF] then CHR ''s'' # fold_case (drop 1 s)
      else lower_char c # fold_case s)"

definition equal_fold :: "string \<Rightarrow> string \<Rightarrow> bool" where
  "equal_fold a b = (fold_case a = fold_case b)"

definition ascii_str :: "string \<Rightarrow> bool" where
  "ascii_str s = list_all (\<lambda>c. chr_code c < 128) s"

lemma equal_fold_refl [simp]: "equal_fold s s"
  by (simp add: equal_fold_def)

lemma equal_fold_sym: "equal_fold a b = equal_fold b a"
  by (auto simp: equal_fold_def)

lemma equal_fold_trans: "equal_fold a b \<Longrightarrow> equal_fold b c \<Longrightarrow> equal_fold a c"
  by (simp add: equal_fold_def)

lemma lower_char_idem [simp]: "lower_char (lower_char c) = lower_char c"
  by (auto simp: lower_char_def)

lemma to_lower_ascii: "ascii_str s \<Longrightarrow> to_lower s = map lower_char s"
  by (induction s) (auto simp: ascii_str_def has_prefix_def)

lemma fold_case_ascii: "ascii_str s \<Longrightarrow> fold_case s = map lower_char s"
  by (induction s) (auto simp: ascii_str_def has_prefix_def)

section \<open>Numbers\<close>

definition max_int :: int where "max_int = 2 ^ 31 - 1"
definition min_int :: int where "min_int = - (2 ^ 31)"

fun digits_val :: "nat \<Rightarrow> string \<Rightarrow> nat option" where
  "digits_val acc [] = Some acc"
| "digits_val acc (c # s) =
     (if 48 \<le> chr_code c \<and> chr_code c \<le> 57 then digits_val (10 * acc + (chr_code c - 48)) s else None)"

text \<open>\<open>strconv.ParseInt(s, 10, bits)\<close>; \<open>Atoi\<close> is the 32-bit case.\<close>

definition parse_int :: "nat \<Rightarrow> string \<Rightarrow> int option" where
  "parse_int bits s =
     (case s of
        [] \<Rightarrow> None
      | c # r \<Rightarrow>
          let neg = (c = CHR ''-'');
              ds = (if c = CHR ''-'' \<or> c = CHR ''+'' then r else s)
          in if ds = [] then None
             else (case digits_val 0 ds of
                     None \<Rightarrow> None
                   | Some n \<Rightarrow>
                       let v = (if neg then - int n else int n)
                       in if - (2 ^ (bits - 1)) \<le> v \<and> v < 2 ^ (bits - 1) then Some v else None))"

definition atoi :: "string \<Rightarrow> int option" where
  "atoi s = parse_int 32 s"

fun nat_str :: "nat \<Rightarrow> string" where
  "nat_str n = (if n < 10 then [char_of (48 + n)] else nat_str (n div 10) @ [char_of (48 + n mod 10)])"

declare nat_str.simps [simp del]

definition int_str :: "int \<Rightarrow> string" where
  "int_str i = (if i < 0 then CHR ''-'' # nat_str (nat (- i)) else nat_str (nat i))"

lemma digits_val_append:
  "digits_val a (s @ t) = (case digits_val a s of None \<Rightarrow> None | Some b \<Rightarrow> digits_val b t)"
  by (induction s arbitrary: a) auto

lemma digits_val_nat_str: "digits_val 0 (nat_str n) = Some n"
proof (induction n rule: nat_str.induct)
  case (1 n)
  show ?case
  proof (cases "n < 10")
    case False
    with 1 have "digits_val 0 (nat_str (n div 10)) = Some (n div 10)" by simp
    moreover have "chr_code (char_of (48 + n mod 10)) = 48 + n mod 10"
      by simp
    ultimately show ?thesis
      using False by (subst nat_str.simps) (simp add: digits_val_append)
  qed (simp add: nat_str.simps)
qed

lemma nat_str_nonempty [simp]: "nat_str n \<noteq> []"
  by (subst nat_str.simps) simp

lemma nat_str_digit: "c \<in> set (nat_str n) \<Longrightarrow> 48 \<le> chr_code c \<and> chr_code c \<le> 57"
proof (induction n rule: nat_str.induct)
  case (1 n)
  have "chr_code (char_of (48 + n mod 10)) = 48 + n mod 10" by simp
  with 1 show ?case by (subst (asm) (2) nat_str.simps) (auto split: if_splits)
qed

lemma hd_nat_str: "hd (nat_str n) \<noteq> CHR ''-'' \<and> hd (nat_str n) \<noteq> CHR ''+''"
  using nat_str_digit [of "hd (nat_str n)" n] by auto

lemma parse_int_int_str:
  assumes "- (2 ^ (bits - 1)) \<le> i" "i < 2 ^ (bits - 1)"
  shows "parse_int bits (int_str i) = Some i"
proof (cases "i < 0")
  case True
  then show ?thesis
    using assms by (simp add: int_str_def parse_int_def digits_val_nat_str)
next
  case False
  obtain c r where c: "nat_str (nat i) = c # r" by (cases "nat_str (nat i)") auto
  with hd_nat_str [of "nat i"] have "c \<noteq> CHR ''-''" "c \<noteq> CHR ''+''" by auto
  then show ?thesis
    using assms False c digits_val_nat_str [of "nat i"]
    by (simp add: int_str_def parse_int_def)
qed

lemma atoi_int_str: "min_int \<le> i \<Longrightarrow> i \<le> max_int \<Longrightarrow> atoi (int_str i) = Some i"
  unfolding atoi_def by (rule parse_int_int_str) (simp_all add: min_int_def max_int_def)

end
