(* ===== verification/Untrusted_Log.thy ===== *)
theory Untrusted_Log
  imports Window_Limiter Go_Strings
begin

text \<open>
  \<open>internal/untrustedlog\<close>: the log that bounds what a remote party can make the daemon write.
  The clock is an argument of every operation that reads it, and the formatted message is the
  argument \<open>msg\<close> (\<open>fmt.Sprintf\<close> of the caller's format). What is written is the list of lines.
\<close>

definition log_burst :: nat where "log_burst = 20"
definition log_total :: nat where "log_total = 5000"
definition log_window :: duration where "log_window = minute"
definition max_string :: nat where "max_string = 64"
definition max_line :: nat where "max_line = 512"

definition Cut :: "string \<Rightarrow> string" where
  "Cut s = (if max_string < length s then take max_string s @ ''...'' else s)"

definition cutLine :: "string \<Rightarrow> string" where
  "cutLine s = (if max_line < length s then take max_line s @ ''...'' else s)"

record peer_log =
  subject :: string
  windowEnd :: "time option"
  lines :: nat
  dropped :: nat
  written :: nat

definition new_log :: "string \<Rightarrow> peer_log" where
  "new_log subj = \<lparr>subject = subj, windowEnd = None, lines = 0, dropped = 0, written = 0\<rparr>"

definition log_prefix :: "peer_log \<Rightarrow> string" where
  "log_prefix l = (if subject l = [] then [] else subject l @ '': '')"

text \<open>\<open>allow\<close> returns the suppressed count to report, whether the line may be written, and whether
  it is the last one of the run.\<close>

definition log_roll :: "peer_log \<Rightarrow> time \<Rightarrow> nat \<times> peer_log" where
  "log_roll l now =
     (if after_time now (windowEnd l)
      then (dropped l, l\<lparr>windowEnd := Some (now + log_window), lines := 0, dropped := 0\<rparr>)
      else (0, l))"

definition log_allow :: "peer_log \<Rightarrow> time \<Rightarrow> peer_log \<times> nat \<times> bool \<times> bool" where
  "log_allow l now =
     (if log_total \<le> written l then (l, 0, False, False)
      else (case log_roll l now of (d, l') \<Rightarrow>
        if log_burst \<le> lines l' then (l'\<lparr>dropped := dropped l' + 1\<rparr>, d, False, False)
        else (l'\<lparr>lines := lines l' + 1, written := written l' + 1\<rparr>, d, True,
              written l' + 1 = log_total)))"

definition log_printf :: "peer_log \<Rightarrow> time \<times> string \<Rightarrow> peer_log \<times> string list" where
  "log_printf l call =
     (case call of (now, msg) \<Rightarrow> case log_allow l now of (l', d, ok, final) \<Rightarrow>
       (l',
        (if 0 < d then [cutLine (log_prefix l @ nat_str d @ '' lines suppressed'')] else [])
        @ (if ok then [cutLine msg] else [])
        @ (if final
           then [cutLine (log_prefix l @ nat_str log_total
                 @ '' lines this run; nothing a peer does is logged again until a restart'')]
           else [])))"

definition Written :: "peer_log \<Rightarrow> nat" where
  "Written l = written l"

section \<open>Lines are short\<close>

lemma length_cutLine: "length (cutLine s) \<le> max_line + 3"
  by (auto simp: cutLine_def max_line_def)

lemma length_Cut: "length (Cut s) \<le> max_string + 3"
  by (auto simp: Cut_def max_string_def)

lemma Cut_short: "length s \<le> max_string \<Longrightarrow> Cut s = s"
  by (simp add: Cut_def)

section \<open>The limiter\<close>

definition log_grant :: "peer_log \<Rightarrow> time \<Rightarrow> peer_log \<times> bool" where
  "log_grant l now = (case log_allow l now of (l', d, ok, final) \<Rightarrow> (l', ok))"

lemmas log_defs = log_allow_def log_roll_def log_burst_def log_total_def log_window_def

definition log_inv :: "peer_log \<Rightarrow> bool" where
  "log_inv l \<longleftrightarrow> written l \<le> log_total \<and> lines l \<le> log_burst \<and> lines l \<le> written l
     \<and> (0 < dropped l \<longrightarrow> lines l = log_burst)"

lemma log_inv_new [simp]: "log_inv (new_log s)"
  by (simp add: log_inv_def new_log_def)

lemma log_inv_allow [step_inv]: "log_inv l \<Longrightarrow> log_inv (fst (log_allow l now))"
  by (auto simp: log_inv_def log_defs)

interpretation peer_log: window_limiter log_grant windowEnd lines log_burst log_window
  by unfold_locales (auto simp: log_grant_def log_defs split: if_splits)

interpretation log_emitter: emitter log_printf log_inv "\<lambda>s. length s \<le> max_line + 3"
proof unfold_locales
  fix l call
  assume "log_inv l"
  then show "log_inv (fst (log_printf l call))"
    using log_inv_allow [of l "fst call"] by (auto simp: log_printf_def split: prod.splits)
next
  fix l call x
  assume "x \<in> set (snd (log_printf l call))"
  then show "length x \<le> max_line + 3"
    by (auto simp: log_printf_def length_cutLine split: prod.splits if_splits)
qed

section \<open>Bounds over a whole run\<close>

text \<open>The line that reports a suppressed count is always followed by an allowed line.\<close>

lemma report_then_allowed:
  "log_inv l \<Longrightarrow> log_allow l now = (l', d, ok, final) \<Longrightarrow> 0 < d \<Longrightarrow> ok"
  by (auto simp: log_inv_def log_defs split: if_splits)

lemma printf_lines_written:
  assumes "log_inv l" "log_printf l call = (l', out)"
  shows "length out + 2 * written l + (if written l = log_total then 1 else 0)
         \<le> 2 * written l' + (if written l' = log_total then 1 else 0)"
proof -
  obtain now msg where c: "call = (now, msg)" by fastforce
  obtain l1 d ok final where al: "log_allow l now = (l1, d, ok, final)" by (cases "log_allow l now")
  have "0 < d \<Longrightarrow> ok" using report_then_allowed assms(1) al by blast
  then show ?thesis
    using assms al c by (auto simp: log_printf_def log_defs log_inv_def split: if_splits)
qed

lemma run_lines_written:
  "log_inv l \<Longrightarrow> run_out log_printf l calls = (l', out) \<Longrightarrow>
     length out + 2 * written l + (if written l = log_total then 1 else 0)
       \<le> 2 * written l' + (if written l' = log_total then 1 else 0)"
proof (induction calls arbitrary: l out)
  case (Cons c cs)
  obtain l1 o1 where 1: "log_printf l c = (l1, o1)" by fastforce
  obtain o2 where 2: "run_out log_printf l1 cs = (l', o2)" "out = o1 @ o2"
    using Cons.prems(2) 1 by (auto split: prod.splits)
  have "log_inv l1" using log_emitter.step_keeps [OF Cons.prems(1), of c] 1 by simp
  from Cons.IH [OF this 2(1)] printf_lines_written [OF Cons.prems(1) 1] 2(2)
  show ?case by simp
qed simp

text \<open>The calls that were granted, reported as suppressed and still to be reported.\<close>

fun reported :: "peer_log \<Rightarrow> time list \<Rightarrow> nat" where
  "reported l [] = 0"
| "reported l (t # ts) = (case log_allow l t of (l', d, _) \<Rightarrow> d + reported l' ts)"

definition log_after :: "peer_log \<Rightarrow> time list \<Rightarrow> peer_log" where
  "log_after l ts = foldl (\<lambda>s t. fst (log_grant s t)) l ts"

lemma log_after_Nil [simp]: "log_after l [] = l"
  by (simp add: log_after_def)

lemma log_after_Cons: "log_after l (t # ts) = log_after (fst (log_grant l t)) ts"
  by (simp add: log_after_def)

lemma written_mono: "written l \<le> written (log_after l ts)"
proof (induction ts arbitrary: l)
  case (Cons t ts)
  have "written l \<le> written (fst (log_grant l t))"
    by (auto simp: log_grant_def log_defs)
  with Cons [of "fst (log_grant l t)"] show ?case by (simp add: log_after_Cons)
qed simp

lemma log_step_account:
  "written (fst (log_grant l t)) < log_total \<Longrightarrow> log_allow l t = (l', d, ok, final) \<Longrightarrow>
     Suc (dropped l) = (if ok then 1 else 0) + d + dropped l'
       \<and> log_grant l t = (l', ok) \<and> written l' = written l + (if ok then 1 else 0)"
  by (auto simp: log_grant_def log_defs split: if_splits)

lemma log_account:
  "written (log_after l ts) < log_total \<Longrightarrow>
     length ts + dropped l = grants log_grant l ts + reported l ts + dropped (log_after l ts)"
proof (induction ts arbitrary: l)
  case (Cons t ts)
  obtain l' d ok final where al: "log_allow l t = (l', d, ok, final)" by (cases "log_allow l t")
  have "written (fst (log_grant l t)) < log_total"
    using Cons.prems written_mono [of "fst (log_grant l t)" ts] by (simp add: log_after_Cons)
  from log_step_account [OF this al] Cons.IH [of l'] Cons.prems al show ?case
    by (simp add: log_after_Cons)
qed simp

section \<open>Properties\<close>

text \<open>
  C4. However often a peer makes the daemon log, one run writes at most two lines per counted line
  and the closing line: 2 * 5000 + 1 lines, each of at most 515 bytes.
\<close>

theorem log_run_bounded:
  "length (snd (run_out log_printf (new_log s) calls)) \<le> 2 * log_total + 1
   \<and> list_all (\<lambda>line. length line \<le> max_line + 3) (snd (run_out log_printf (new_log s) calls))"
proof -
  obtain l' out where r: "run_out log_printf (new_log s) calls = (l', out)" by fastforce
  have "log_inv l'" using log_emitter.run_keeps [of "new_log s" calls] r by simp
  then have "written l' \<le> log_total" by (simp add: log_inv_def)
  with run_lines_written [OF log_inv_new r] have "length out \<le> 2 * log_total + 1"
    by (simp add: new_log_def split: if_splits)
  then show ?thesis
    using log_emitter.run_good [of "new_log s" _ calls] r by (simp add: list_all_iff)
qed

text \<open>
  Within any interval of one window a peer gets at most twice the burst of lines written,
  whatever the state of the log.
\<close>

theorem log_burst_per_window:
  assumes "log_inv l" "\<forall>t\<in>set ts. a \<le> t \<and> t \<le> a + log_window"
  shows "grants log_grant l ts \<le> 2 * log_burst"
proof -
  have "lines l \<le> log_burst" using assms(1) by (simp add: log_inv_def)
  from peer_log.grants_interval [OF assms(2) this] show ?thesis by simp
qed

theorem log_burst_per_window_witness:
  "log_inv (new_log ''api'') \<and> grants log_grant (new_log ''api'') [5, 6, 7] \<le> 2 * log_burst"
  using log_burst_per_window [of "new_log ''api''" "[5, 6, 7]" 5]
  by (simp add: log_window_def)

text \<open>
  No suppressed line is lost to the count: until the run's total is reached, every call is
  either written, or reported as suppressed, or still waiting to be reported.
\<close>

theorem log_accounts_for_every_call:
  assumes "written (log_after (new_log s) ts) < log_total"
  shows "length ts = grants log_grant (new_log s) ts + reported (new_log s) ts
           + dropped (log_after (new_log s) ts)"
  using log_account [OF assms] by (simp add: new_log_def)

theorem log_accounts_for_every_call_witness:
  "length [5, 6 :: time] = grants log_grant (new_log []) [5, 6] + reported (new_log []) [5, 6]
     + dropped (log_after (new_log []) [5, 6])"
  by (rule log_accounts_for_every_call)
    (simp add: log_after_def log_grant_def log_defs new_log_def after_time_def)

end
