(* ===== verification/Alexa_Watch.thy ===== *)
theory Alexa_Watch
  imports Go_Strings "HOL-Library.AList"
begin

text \<open>
  \<open>internal/alexa/focus.go\<close>, \<open>playback.go\<close> and \<open>logcat.go\<close>: what the daemon learns of Alexa from the lines of
  logcat. A watcher is a state machine over lines, the clock and its client's calls, and its callbacks are what a
  step returns. The map of focus holders is an association list with one entry per client.
\<close>

section \<open>Following logcat\<close>

definition watchRetry :: duration where "watchRetry = 10 * second"
definition playingFor :: duration where "playingFor = 15 * 60 * second"

text \<open>Whether a failure is logged, and whether one has been since the last run of a decent length.\<close>

definition shouldSay :: "bool \<Rightarrow> duration \<Rightarrow> bool \<Rightarrow> bool \<times> bool" where
  "shouldSay said ranFor failed =
     (let said1 = (if watchRetry \<le> ranFor then False else said)
      in if \<not> failed then (False, said1) else if said1 then (False, True) else (True, True))"

section \<open>Audio focus\<close>

definition duckPercent :: int where "duckPercent = 20"
definition deepDuckPercent :: int where "deepDuckPercent = 10"
definition fullPercent :: int where "fullPercent = 100"
definition focusHoldFor :: duration where "focusHoldFor = 15 * 60 * second"
definition requestMark :: string where "requestMark = ''requestAudioFocus() from ''"
definition reqMark :: string where "reqMark = '' req=''"
definition abandonMark :: string where "abandonMark = ''abandonAudioFocus() from ''"
definition removeMark :: string where "removeMark = ''removeFocusStackEntry(): removing entry for ''"

record focus_holder =
  fh_req :: nat
  fh_until :: time

record focus_watcher =
  fw_requested :: string
  fw_holders :: "(string \<times> focus_holder) list"
  fw_level :: int

definition new_focus :: focus_watcher where
  "new_focus = \<lparr>fw_requested = '''', fw_holders = [], fw_level = 0\<rparr>"

definition percentFor :: "nat \<Rightarrow> int" where
  "percentFor req = (if req = 3 then duckPercent else if req = 2 \<or> req = 4 then deepDuckPercent else fullPercent)"

definition focus_level :: "(string \<times> focus_holder) list \<Rightarrow> int" where
  "focus_level hs = foldl (\<lambda>l (c, h). min l (percentFor (fh_req h))) fullPercent hs"

definition focus_change :: "(string \<times> focus_holder) list \<Rightarrow> focus_watcher \<Rightarrow> focus_watcher \<times> int list" where
  "focus_change hs w =
     (let level = focus_level hs; was = (if fw_level w = 0 then fullPercent else fw_level w)
      in (w\<lparr>fw_holders := hs, fw_level := level\<rparr>, if level \<noteq> was then [level] else []))"

definition focus_request :: "time \<Rightarrow> string \<Rightarrow> nat \<Rightarrow> focus_watcher \<Rightarrow> focus_watcher \<times> int list" where
  "focus_request now client req w =
     (if client = '''' then (w, [])
      else focus_change (AList.update client \<lparr>fh_req = req, fh_until = now + focusHoldFor\<rparr> (fw_holders w)) w)"

definition focus_release :: "string \<Rightarrow> focus_watcher \<Rightarrow> focus_watcher \<times> int list" where
  "focus_release client w =
     (if client = '''' then (w, []) else focus_change (AList.delete client (fw_holders w)) w)"

definition focus_expire :: "time \<Rightarrow> focus_watcher \<Rightarrow> focus_watcher \<times> int list" where
  "focus_expire now w = focus_change (filter (\<lambda>(c, h). \<not> fh_until h < now) (fw_holders w)) w"

definition focus_reset :: "focus_watcher \<Rightarrow> focus_watcher \<times> int list" where
  "focus_reset w = focus_change [] (w\<lparr>fw_requested := ''''\<rparr>)"

definition is_digit :: "char \<Rightarrow> bool" where
  "is_digit c \<longleftrightarrow> 48 \<le> chr_code c \<and> chr_code c \<le> 57"

definition leadingInt :: "string \<Rightarrow> nat option" where
  "leadingInt s = (let ds = takeWhile is_digit (take 9 s) in if ds = [] then None else digits_val 0 ds)"

definition focus_line :: "time \<Rightarrow> string \<Rightarrow> focus_watcher \<Rightarrow> focus_watcher \<times> int list" where
  "focus_line now line w =
     (case index_of line requestMark of
        Some i \<Rightarrow>
          (let rest = drop (i + length requestMark) line
           in (case last_index_of rest reqMark of
                 None \<Rightarrow> (w, [])
               | Some j \<Rightarrow> (case leadingInt (drop (j + length reqMark) rest) of
                     None \<Rightarrow> (w, [])
                   | Some req \<Rightarrow>
                       (let client = trim_space (take j rest)
                        in (case focus_request now client req w of (w1, out) \<Rightarrow> (w1\<lparr>fw_requested := client\<rparr>, out))))))
      | None \<Rightarrow>
          (case index_of line abandonMark of
             Some i \<Rightarrow> focus_release (trim_space (drop (i + length abandonMark) line)) (w\<lparr>fw_requested := ''''\<rparr>)
           | None \<Rightarrow>
               (case index_of line removeMark of
                  None \<Rightarrow> (w, [])
                | Some i \<Rightarrow>
                    (let client = trim_space (drop (i + length removeMark) line); w1 = w\<lparr>fw_requested := ''''\<rparr>
                     in if client = fw_requested w then (w1, []) else focus_release client w1))))"

datatype focus_event = FocusLine time string | FocusSweep time | FocusEnded

fun focus_step :: "focus_watcher \<Rightarrow> focus_event \<Rightarrow> focus_watcher \<times> int list" where
  "focus_step w (FocusLine now line) = focus_line now line w"
| "focus_step w (FocusSweep now) = focus_expire now w"
| "focus_step w FocusEnded = focus_reset w"

lemma focus_level_cases:
  "focus_level hs = (if list_ex (\<lambda>(c, h). fh_req h = 2 \<or> fh_req h = 4) hs then deepDuckPercent
     else if list_ex (\<lambda>(c, h). fh_req h = 3) hs then duckPercent else fullPercent)"
proof -
  have "foldl (\<lambda>l (c, h). min l (percentFor (fh_req h))) l hs =
      (if list_ex (\<lambda>(c, h). fh_req h = 2 \<or> fh_req h = 4) hs then min l deepDuckPercent
       else if list_ex (\<lambda>(c, h). fh_req h = 3) hs then min l duckPercent else min l fullPercent)"
    if "l \<le> fullPercent" for l
    using that
  proof (induction hs arbitrary: l)
    case (Cons x hs)
    obtain c h where x: "x = (c, h)" by fastforce
    have "min l (percentFor (fh_req h)) \<le> fullPercent" using Cons.prems by simp
    from Cons.IH [OF this] show ?case
      by (auto simp: x percentFor_def duckPercent_def deepDuckPercent_def fullPercent_def min_def)
  qed (simp add: min_def)
  from this [of fullPercent] show ?thesis
    by (simp add: focus_level_def duckPercent_def deepDuckPercent_def fullPercent_def)
qed

definition level_in_force :: "focus_watcher \<Rightarrow> int" where
  "level_in_force w = (if fw_level w = 0 then fullPercent else fw_level w)"

definition focus_inv :: "focus_watcher \<Rightarrow> bool" where
  "focus_inv w \<longleftrightarrow> level_in_force w = focus_level (fw_holders w) \<and> distinct (map fst (fw_holders w))"

lemma focus_level_pos: "focus_level hs \<noteq> 0"
  by (simp add: focus_level_cases duckPercent_def deepDuckPercent_def fullPercent_def)

lemma focus_change_result:
  "distinct (map fst hs) \<Longrightarrow>
     focus_inv (fst (focus_change hs w)) \<and> fw_holders (fst (focus_change hs w)) = hs
     \<and> snd (focus_change hs w) = (if focus_level hs = level_in_force w then [] else [focus_level hs])"
  using focus_level_pos [of hs] by (simp add: focus_change_def Let_def focus_inv_def level_in_force_def)

text \<open>What a step hands out is what brings the level told to the level the holders ask for.\<close>

definition focus_good :: "focus_watcher \<Rightarrow> focus_watcher \<times> int list \<Rightarrow> bool" where
  "focus_good w r \<longleftrightarrow> focus_inv (fst r)
     \<and> snd r = (if level_in_force (fst r) = level_in_force w then [] else [level_in_force (fst r)])"

lemma focus_good_change: "distinct (map fst hs) \<Longrightarrow> focus_good w (focus_change hs w)"
  using focus_change_result [of hs w] by (auto simp: focus_good_def focus_inv_def)

lemma focus_good_requested:
  "focus_good (w\<lparr>fw_requested := c\<rparr>) r \<longleftrightarrow> focus_good w r" "focus_inv (w\<lparr>fw_requested := c\<rparr>) = focus_inv w"
  "focus_good w (w1\<lparr>fw_requested := c\<rparr>, out) \<longleftrightarrow> focus_good w (w1, out)"
  by (simp_all add: focus_good_def level_in_force_def focus_inv_def)

lemma focus_good_same: "focus_inv w \<Longrightarrow> focus_good w (w, [])"
  by (simp add: focus_good_def)

lemma focus_good_request: "focus_inv w \<Longrightarrow> focus_good w (focus_request now client req w)"
  by (auto simp: focus_request_def focus_inv_def focus_good_same [unfolded focus_inv_def] distinct_update
      intro!: focus_good_change)

lemma focus_good_release: "focus_inv w \<Longrightarrow> focus_good w (focus_release client w)"
  by (auto simp: focus_release_def focus_inv_def focus_good_same [unfolded focus_inv_def] distinct_delete
      intro!: focus_good_change)

lemma focus_good_line: "focus_inv w \<Longrightarrow> focus_good w (focus_line now line w)"
proof -
  assume a: "focus_inv w"
  have rel: "focus_good w (focus_release c (w\<lparr>fw_requested := ''''\<rparr>))" for c
    using focus_good_release [of "w\<lparr>fw_requested := ''''\<rparr>" c] a by (simp add: focus_good_requested)
  have req: "focus_good w (case focus_request now c r w of (w1, out) \<Rightarrow> (w1\<lparr>fw_requested := d\<rparr>, out))" for c r d
    using focus_good_request [OF a, of now c r] by (cases "focus_request now c r w") (simp add: focus_good_requested)
  have same: "focus_good w (w, [])" "focus_good w (w\<lparr>fw_requested := ''''\<rparr>, [])"
    using a by (simp_all add: focus_good_same focus_good_requested)
  show ?thesis
    using rel req same by (simp add: focus_line_def Let_def split: option.splits)
qed

lemma focus_good_step: "focus_inv w \<Longrightarrow> focus_good w (focus_step w e)"
proof (cases e)
  case (FocusSweep now)
  assume "focus_inv w"
  then have "distinct (map fst (filter (\<lambda>(c, h). \<not> fh_until h < now) (fw_holders w)))"
    by (simp add: focus_inv_def distinct_map_filter)
  then show ?thesis using FocusSweep by (simp add: focus_expire_def focus_good_change)
next
  case FocusEnded
  have "focus_good (w\<lparr>fw_requested := ''''\<rparr>) (focus_change [] (w\<lparr>fw_requested := ''''\<rparr>))" by (rule focus_good_change) simp
  then show ?thesis using FocusEnded by (simp add: focus_reset_def focus_good_requested)
qed (simp add: focus_good_line)

lemma focus_run:
  "focus_inv w \<Longrightarrow> (case run_out focus_step w es of (w', out) \<Rightarrow>
     focus_inv w' \<and> level_in_force w' = (if out = [] then level_in_force w else last out)
     \<and> distinct_adj (level_in_force w # out))"
proof (induction es arbitrary: w)
  case (Cons e es)
  obtain w1 o1 where s: "focus_step w e = (w1, o1)" by fastforce
  have g: "focus_inv w1" "o1 = (if level_in_force w1 = level_in_force w then [] else [level_in_force w1])"
    using focus_good_step [OF Cons.prems, of e] unfolding focus_good_def s fst_conv snd_conv by blast+
  obtain w2 o2 where r: "run_out focus_step w1 es = (w2, o2)" by fastforce
  have "focus_inv w2" "level_in_force w2 = (if o2 = [] then level_in_force w1 else last o2)"
    "distinct_adj (level_in_force w1 # o2)"
    using Cons.IH [OF g(1)] r by simp_all
  then show ?case using s r g(2) by (auto simp: distinct_adj_Cons split: list.splits)
qed simp

text \<open>
  The level the stream is told follows the focus holders: at every moment the last one told, full at first, is
  the lowest any holder asks for, and no level is told twice running.
\<close>

theorem focus_level_told:
  "case run_out focus_step new_focus es of
     (w, out) \<Rightarrow> last (fullPercent # out) =
         (if list_ex (\<lambda>(c, h). fh_req h = 2 \<or> fh_req h = 4) (fw_holders w) then deepDuckPercent
          else if list_ex (\<lambda>(c, h). fh_req h = 3) (fw_holders w) then duckPercent else fullPercent)
       \<and> distinct_adj (fullPercent # out)"
proof -
  obtain w out where r: "run_out focus_step new_focus es = (w, out)" by fastforce
  have "focus_inv new_focus" "level_in_force new_focus = fullPercent"
    by (simp_all add: focus_inv_def new_focus_def level_in_force_def focus_level_def)
  with focus_run [of new_focus es] r show ?thesis
    by (auto simp: focus_inv_def focus_level_cases)
qed

text \<open>A hold that is never abandoned is dropped by the first sweep after its fifteen minutes.\<close>

lemma focus_expired_gone: "list_all (\<lambda>(c, h). now \<le> fh_until h) (fw_holders (fst (focus_expire now w)))"
  by (auto simp: focus_expire_def focus_change_def Let_def list_all_iff)

section \<open>Playback\<close>

record playback_watcher =
  pw_expecting :: bool
  pw_lastError :: string
  pw_deadline :: time

definition new_playback :: playback_watcher where
  "new_playback = \<lparr>pw_expecting = False, pw_lastError = '''', pw_deadline = 0\<rparr>"

datatype playback_call = OnStart | OnEnd bool string

definition Expect :: "time \<Rightarrow> duration \<Rightarrow> playback_watcher \<Rightarrow> playback_watcher" where
  "Expect now timeout w = w\<lparr>pw_expecting := True, pw_lastError := '''', pw_deadline := now + timeout\<rparr>"

definition Extend :: "time \<Rightarrow> duration \<Rightarrow> playback_watcher \<Rightarrow> playback_watcher" where
  "Extend now timeout w = (if \<not> pw_expecting w then w else w\<lparr>pw_deadline := now + timeout\<rparr>)"

definition Cancel :: "playback_watcher \<Rightarrow> playback_watcher" where
  "Cancel w = w\<lparr>pw_expecting := False\<rparr>"

definition timed_out :: string where
  "timed_out = ''timed out waiting for Alexa to report playback''"

definition playback_expire :: "time \<Rightarrow> playback_watcher \<Rightarrow> playback_watcher \<times> playback_call list" where
  "playback_expire now w =
     (if pw_expecting w \<and> pw_deadline w < now then (w\<lparr>pw_expecting := False\<rparr>, [OnEnd False timed_out]) else (w, []))"

definition playback_line :: "time \<Rightarrow> string \<Rightarrow> playback_watcher \<Rightarrow> playback_watcher \<times> playback_call list" where
  "playback_line now line w =
     (if \<not> pw_expecting w then (w, [])
      else (let w1 = (if contains_str line ''cannot estimate length'' \<or> contains_str line ''Exception''
                      then w\<lparr>pw_lastError := trim_space line\<rparr> else w)
        in if contains_str line ''Playback started:'' \<and> contains_str line ''SpeechSynthesizer''
           then (w1\<lparr>pw_deadline := now + playingFor\<rparr>, [OnStart])
           else if contains_str line ''Playback ended:'' \<and> contains_str line ''SpeechSynthesizer''
           then (w1\<lparr>pw_expecting := False\<rparr>, [OnEnd (contains_str line ''SUCCESS'') (pw_lastError w1)])
           else (w1, [])))"

datatype playback_event = PExpect time duration | PExtend time duration | PCancel | PSweep time | PLine time string

fun playback_step :: "playback_watcher \<Rightarrow> playback_event \<Rightarrow> playback_watcher \<times> playback_call list" where
  "playback_step w (PExpect now d) = (Expect now d w, [])"
| "playback_step w (PExtend now d) = (Extend now d w, [])"
| "playback_step w PCancel = (Cancel w, [])"
| "playback_step w (PSweep now) = playback_expire now w"
| "playback_step w (PLine now line) = playback_line now line w"

text \<open>What becomes of expectations that no end is reported for.\<close>

fun given_up :: "playback_watcher \<Rightarrow> playback_event list \<Rightarrow> nat" where
  "given_up w [] = 0"
| "given_up w (e # es) =
     (case e of
        PExpect now d \<Rightarrow> (if pw_expecting w then 1 else 0)
      | PCancel \<Rightarrow> (if pw_expecting w then 1 else 0)
      | _ \<Rightarrow> 0) + given_up (fst (playback_step w e)) es"

definition is_expect :: "playback_event \<Rightarrow> bool" where
  "is_expect e = (case e of PExpect now d \<Rightarrow> True | _ \<Rightarrow> False)"

definition is_end :: "playback_call \<Rightarrow> bool" where
  "is_end c = (case c of OnEnd ok d \<Rightarrow> True | OnStart \<Rightarrow> False)"

definition waiting_on :: "playback_watcher \<Rightarrow> nat" where
  "waiting_on w = (if pw_expecting w then 1 else 0)"

lemma playback_run:
  "case run_out playback_step w es of (w', out) \<Rightarrow>
     waiting_on w + length (filter is_expect es) = length (filter is_end out) + given_up w es + waiting_on w'"
proof (induction es arbitrary: w)
  case (Cons e es)
  obtain w1 o1 where s: "playback_step w e = (w1, o1)" by fastforce
  obtain w2 o2 where r: "run_out playback_step w1 es = (w2, o2)" by fastforce
  have ih: "waiting_on w1 + length (filter is_expect es) = length (filter is_end o2) + given_up w1 es + waiting_on w2"
    using Cons.IH [of w1] r by simp
  have "waiting_on w + length (filter is_expect [e]) = length (filter is_end o1)
      + (given_up w [e]) + waiting_on w1"
    using s by (cases e)
      (auto simp: waiting_on_def is_expect_def is_end_def Expect_def Extend_def Cancel_def playback_expire_def
        playback_line_def Let_def split: if_splits)
  then show ?case using ih s r by (cases e) auto
qed simp

text \<open>
  Every playback that is expected ends once: its end is reported, by Alexa or by the deadline, or it is cancelled
  or replaced by another, or it is still waited for. And a playback is only ever waited for up to its deadline:
  the first sweep after it reports the end.
\<close>

theorem playback_accounted:
  "(case run_out playback_step new_playback es of (w, out) \<Rightarrow>
      length (filter is_expect es) = length (filter is_end out) + given_up new_playback es + waiting_on w)
   \<and> (case run_out playback_step new_playback (es @ [PSweep now]) of (w, out) \<Rightarrow>
      (if waiting_on w = 1 then now \<le> pw_deadline w else waiting_on w = 0))"
proof
  show "case run_out playback_step new_playback es of (w, out) \<Rightarrow>
      length (filter is_expect es) = length (filter is_end out) + given_up new_playback es + waiting_on w"
    using playback_run [of new_playback es] by (simp add: new_playback_def waiting_on_def)
  show "case run_out playback_step new_playback (es @ [PSweep now]) of (w, out) \<Rightarrow>
      (if waiting_on w = 1 then now \<le> pw_deadline w else waiting_on w = 0)"
    by (auto simp: run_out_append waiting_on_def playback_expire_def split: prod.splits)
qed

end
