(* ===== verification/Alexa_Follow.thy ===== *)
theory Alexa_Follow
  imports Alexa_Watch
begin

text \<open>
  \<open>internal/alexa/logcat.go\<close> and the \<open>Run\<close> of the two watchers: a \<open>logcat\<close> that is started again whenever it ends, its
  output cut into lines the way \<open>bufio.Scanner\<close> cuts them, and a sweep every two seconds beside it. What a process
  does (whether it starts, what it writes, how long it runs) is a parameter of the run.
\<close>

section \<open>Lines\<close>

definition maxScanToken :: nat where "maxScanToken = 64 * 1024"

definition drop_cr :: "string \<Rightarrow> string" where
  "drop_cr l = (if l \<noteq> [] \<and> last l = CHR 0x0D then butlast l else l)"

text \<open>The lines, and whether one did not fit the scanner's buffer, which ends the scan.\<close>

function scan_lines :: "string \<Rightarrow> string list \<times> bool" where
  "scan_lines s =
     (if s = [] then ([], False)
      else (let l = takeWhile (\<lambda>c. c \<noteq> CHR 0x0A) s
            in if maxScanToken \<le> length l then ([], True)
               else (case scan_lines (drop (Suc (length l)) s) of (ls, long) \<Rightarrow> (drop_cr l # ls, long))))"
  by pat_completeness auto
termination
  by (relation "measure length") auto

declare scan_lines.simps [simp del]

section \<open>Following a program\<close>

record follow_run =
  fr_piped :: bool
  fr_started :: bool
  fr_output :: string
  fr_broken :: bool
  fr_ran :: duration

datatype follow_call = ProcStart | Lined string | ProcKill | ProcWait | EndedCall | SaidFailing | Slept duration

definition readLines :: "follow_run \<Rightarrow> string list \<times> bool" where
  "readLines r = (case scan_lines (fr_output r) of (ls, long) \<Rightarrow> (ls, long \<or> fr_broken r))"

definition follow :: "follow_run \<Rightarrow> follow_call list \<times> bool" where
  "follow r =
     (if \<not> fr_piped r then ([], True)
      else if \<not> fr_started r then ([], True)
      else (case readLines r of (ls, err) \<Rightarrow> (ProcStart # map Lined ls @ [ProcKill, ProcWait], err)))"

definition follow_turn :: "bool \<Rightarrow> bool \<Rightarrow> follow_run \<Rightarrow> follow_call list \<times> bool" where
  "follow_turn with_ended said r =
     (case follow r of (calls, err) \<Rightarrow>
       (case shouldSay said (fr_ran r) err of (say, said') \<Rightarrow>
         (calls @ (if with_ended then [EndedCall] else []) @ (if say then [SaidFailing] else []) @ [Slept watchRetry], said')))"

fun keepFollowing :: "bool \<Rightarrow> bool \<Rightarrow> follow_run list \<Rightarrow> follow_call list" where
  "keepFollowing with_ended said [] = []"
| "keepFollowing with_ended said (r # rs) =
     (case follow_turn with_ended said r of (calls, said') \<Rightarrow> calls @ keepFollowing with_ended said' rs)"

definition logcat_argv :: "string list \<Rightarrow> string list" where
  "logcat_argv tags = [''/system/bin/logcat'', ''-T'', ''1'', ''-v'', ''brief'', ''-s''] @ tags"

definition watchArgv :: "string list" where "watchArgv = logcat_argv [''tts-Server'', ''tts-Playback'']"
definition focusArgv :: "string list" where "focusArgv = logcat_argv [''MediaFocusControl'']"
definition sweepEvery :: duration where "sweepEvery = 2 * second"

section \<open>The watchers' runs\<close>

text \<open>
  What a watcher takes of its program: its lines, each at a moment of its own, and the end of it. The sweep's ticks
  come between them, as many as there are.
\<close>

fun focus_takes :: "(nat \<Rightarrow> time) \<Rightarrow> (nat \<Rightarrow> time list) \<Rightarrow> nat \<Rightarrow> follow_call list \<Rightarrow> focus_event list" where
  "focus_takes clock ticks n [] = map FocusSweep (ticks n)"
| "focus_takes clock ticks n (c # cs) =
     map FocusSweep (ticks n)
     @ (case c of Lined l \<Rightarrow> [FocusLine (clock n) l] | EndedCall \<Rightarrow> [FocusEnded] | _ \<Rightarrow> [])
     @ focus_takes clock ticks (Suc n) cs"

fun playback_takes :: "(nat \<Rightarrow> time) \<Rightarrow> (nat \<Rightarrow> time list) \<Rightarrow> nat \<Rightarrow> follow_call list \<Rightarrow> playback_event list" where
  "playback_takes clock ticks n [] = map PSweep (ticks n)"
| "playback_takes clock ticks n (c # cs) =
     map PSweep (ticks n) @ (case c of Lined l \<Rightarrow> [PLine (clock n) l] | _ \<Rightarrow> []) @ playback_takes clock ticks (Suc n) cs"

definition focus_Run :: "(nat \<Rightarrow> time) \<Rightarrow> (nat \<Rightarrow> time list) \<Rightarrow> follow_run list \<Rightarrow> focus_watcher \<times> int list" where
  "focus_Run clock ticks rs = run_out focus_step new_focus (focus_takes clock ticks 0 (keepFollowing True False rs))"

definition playback_Run :: "(nat \<Rightarrow> time) \<Rightarrow> (nat \<Rightarrow> time list) \<Rightarrow> follow_run list \<Rightarrow> playback_watcher \<Rightarrow> playback_watcher \<times> playback_call list" where
  "playback_Run clock ticks rs w = run_out playback_step w (playback_takes clock ticks 0 (keepFollowing False False rs))"

section \<open>What the lines are\<close>

lemma scan_line:
  assumes "CHR 0x0A \<notin> set l" "length l < maxScanToken"
  shows "scan_lines (l @ CHR 0x0A # s) = (case scan_lines s of (ls, long) \<Rightarrow> (drop_cr l # ls, long))"
proof -
  have "takeWhile (\<lambda>c. c \<noteq> CHR 0x0A) (l @ CHR 0x0A # s) = l" using assms(1) by (subst takeWhile_append2) auto
  then show ?thesis using assms(2) by (simp add: scan_lines.simps [of "l @ CHR 0x0A # s"])
qed

lemma drop_cr_whole: "CHR 0x0D \<notin> set l \<Longrightarrow> drop_cr l = l"
  using last_in_set by (fastforce simp: drop_cr_def)

text \<open>A program's lines are read back one by one, as long as each fits.\<close>

lemma scan_lines_written:
  "\<forall>l \<in> set ls. CHR 0x0A \<notin> set l \<and> CHR 0x0D \<notin> set l \<and> length l < maxScanToken \<Longrightarrow>
     scan_lines (concat (map (\<lambda>l. l @ [CHR 0x0A]) ls)) = (ls, False)"
  by (induction ls) (simp_all add: scan_line drop_cr_whole scan_lines.simps [of "[]"])

lemma scan_lines_short: "l \<in> set (fst (scan_lines s)) \<Longrightarrow> length l < maxScanToken \<and> CHR 0x0A \<notin> set l"
proof (induction s rule: scan_lines.induct)
  case (1 s)
  show ?case
  proof (cases "s = [] \<or> maxScanToken \<le> length (takeWhile (\<lambda>c. c \<noteq> CHR 0x0A) s)")
    case True
    then have "fst (scan_lines s) = []" by (auto simp: scan_lines.simps [of s] Let_def)
    then show ?thesis using "1.prems" by simp
  next
    case False
    define t where "t = takeWhile (\<lambda>c. c \<noteq> CHR 0x0A) s"
    have t: "length t < maxScanToken" "CHR 0x0A \<notin> set t" using False set_takeWhileD by (auto simp: t_def) fastforce
    have "length (drop_cr t) \<le> length t" "set (drop_cr t) \<subseteq> set t" by (auto simp: drop_cr_def dest: in_set_butlastD)
    moreover have "l = drop_cr t \<or> l \<in> set (fst (scan_lines (drop (Suc (length t)) s)))"
      using "1.prems" False by (simp add: scan_lines.simps [of s] t_def Let_def split: prod.splits)
    ultimately show ?thesis using t "1.IH" [OF _ t_def] False by (auto simp: t_def)
  qed
qed

section \<open>What following does\<close>

text \<open>How many programs run after some calls, and that there is never a second, nor a pause while one runs.\<close>

fun one_program :: "bool \<Rightarrow> follow_call list \<Rightarrow> bool" where
  "one_program up [] = (\<not> up)"
| "one_program up (ProcStart # cs) = (\<not> up \<and> one_program True cs)"
| "one_program up (ProcWait # cs) = (up \<and> one_program False cs)"
| "one_program up (Slept d # cs) = (\<not> up \<and> one_program up cs)"
| "one_program up (c # cs) = one_program up cs"

lemma one_program_lines: "one_program up (map Lined ls @ cs) = one_program up cs"
  by (induction ls) simp_all

lemma one_program_turn: "follow_turn e said r = (calls, said') \<Longrightarrow> one_program False (calls @ cs) = one_program False cs"
  by (auto simp: follow_turn_def follow_def one_program_lines split: prod.splits if_splits)

text \<open>One program runs at a time; it is killed and waited for before the pause that every start is followed by.\<close>

theorem one_program_at_a_time: "one_program False (keepFollowing e said rs)"
proof (induction rs arbitrary: said)
  case (Cons r rs)
  obtain calls said' where t: "follow_turn e said r = (calls, said')" by fastforce
  then show ?case using Cons one_program_turn [OF t] by simp
qed simp

text \<open>A failure is said once, until the program has run for as long as the pause.\<close>

fun saids :: "follow_call list \<Rightarrow> nat" where
  "saids [] = 0"
| "saids (c # cs) = (if c = SaidFailing then 1 else 0) + saids cs"

lemma saids_append [simp]: "saids (a @ b) = saids a + saids b"
  by (induction a) simp_all

lemma saids_lines [simp]: "saids (map Lined ls) = 0"
  by (induction ls) simp_all

lemma follow_saids: "follow r = (calls, err) \<Longrightarrow> saids calls = 0"
  by (auto simp: follow_def split: if_splits prod.splits)

lemma said_turn:
  "follow_turn e said r = (calls, said') \<Longrightarrow>
     saids calls + (if said then 1 else 0) \<le> (if said' then 1 else 0) + (if watchRetry \<le> fr_ran r then 1 else 0)"
  by (auto simp: follow_turn_def shouldSay_def Let_def follow_saids split: prod.splits if_splits)

theorem failing_said_once:
  "saids (keepFollowing e False rs) \<le> Suc (length (filter (\<lambda>r. watchRetry \<le> fr_ran r) rs))"
proof -
  have "saids (keepFollowing e said rs) + (if said then 1 else 0) \<le> Suc (length (filter (\<lambda>r. watchRetry \<le> fr_ran r) rs))" for said
  proof (induction rs arbitrary: said)
    case (Cons r rs)
    obtain calls said' where t: "follow_turn e said r = (calls, said')" by fastforce
    show ?case using said_turn [OF t] Cons [of said'] t by (auto split: if_splits)
  qed simp
  from this [of False] show ?thesis by simp
qed

text \<open>
  Whenever the program that names the focus holders has ended, and whatever the sweeps do in the pause, the level in
  force is the full one: a logcat that dies does not leave the stream ducked.
\<close>

lemma run_out_snoc_fst: "fst (run_out st s (es @ fs)) = fst (run_out st (fst (run_out st s es)) fs)"
  by (simp add: run_out_append split: prod.splits)

lemma sweeps_full:
  "fw_holders w = [] \<Longrightarrow> level_in_force w = fullPercent \<Longrightarrow> level_in_force (fst (run_out focus_step w (map FocusSweep ts))) = fullPercent"
proof (induction ts arbitrary: w)
  case (Cons t ts)
  have "fw_holders (fst (focus_step w (FocusSweep t))) = []" "level_in_force (fst (focus_step w (FocusSweep t))) = fullPercent"
    using Cons.prems by (simp_all add: focus_expire_def focus_change_def Let_def level_in_force_def focus_level_def)
  from Cons.IH [OF this] show ?case by (simp add: split_beta)
qed simp

lemma takes_append:
  "\<exists>es. focus_takes clock ticks n (as @ bs) = es @ focus_takes clock ticks (n + length as) bs"
proof (induction as arbitrary: n)
  case Nil
  then show ?case by simp
next
  case (Cons a as)
  then obtain es where "focus_takes clock ticks (Suc n) (as @ bs) = es @ focus_takes clock ticks (Suc n + length as) bs" by blast
  then show ?case by simp
qed

lemma turn_tail: "\<exists>cs ds. fst (follow_turn True said r) = cs @ EndedCall # ds \<and> (\<forall>d \<in> set ds. d = SaidFailing \<or> d = Slept watchRetry)"
  by (force simp: follow_turn_def split: prod.splits)

lemma takes_quiet:
  "\<forall>d \<in> set ds. d = SaidFailing \<or> d = Slept watchRetry \<Longrightarrow> \<exists>ts. focus_takes clock ticks n ds = map FocusSweep ts"
proof (induction ds arbitrary: n)
  case (Cons d ds)
  then obtain ts where "focus_takes clock ticks (Suc n) ds = map FocusSweep ts" by auto
  then have "focus_takes clock ticks n (d # ds) = map FocusSweep (ticks n @ ts)" using Cons.prems by auto
  then show ?case by blast
qed auto

lemma keepFollowing_snoc: "\<exists>as said'. keepFollowing e said (rs @ [r]) = as @ fst (follow_turn e said' r)"
proof (induction rs arbitrary: said)
  case (Cons a rs)
  obtain calls s' where t: "follow_turn e said a = (calls, s')" by fastforce
  from Cons [of s'] obtain as said' where "keepFollowing e s' (rs @ [r]) = as @ fst (follow_turn e said' r)" by blast
  then have "keepFollowing e said ((a # rs) @ [r]) = (calls @ as) @ fst (follow_turn e said' r)" by (simp add: t)
  then show ?case by blast
next
  case Nil
  have "keepFollowing e said ([] @ [r]) = [] @ fst (follow_turn e said r)" by (simp split: prod.splits)
  then show ?case by blast
qed

theorem focus_lifted_with_logcat: "level_in_force (fst (focus_Run clock ticks (rs @ [r]))) = fullPercent"
proof -
  obtain as said' where 1: "keepFollowing True False (rs @ [r]) = as @ fst (follow_turn True said' r)"
    using keepFollowing_snoc by blast
  obtain cs ds where 2: "fst (follow_turn True said' r) = cs @ EndedCall # ds" "\<forall>d \<in> set ds. d = SaidFailing \<or> d = Slept watchRetry"
    using turn_tail by blast
  obtain es where 3: "focus_takes clock ticks 0 ((as @ cs) @ EndedCall # ds)
      = es @ focus_takes clock ticks (0 + length (as @ cs)) (EndedCall # ds)" using takes_append by blast
  obtain ts where 4: "focus_takes clock ticks (Suc (length (as @ cs))) ds = map FocusSweep ts" using takes_quiet [OF 2(2)] by blast
  define pre where "pre = es @ map FocusSweep (ticks (length (as @ cs)))"
  have "focus_takes clock ticks 0 (keepFollowing True False (rs @ [r])) = (pre @ [FocusEnded]) @ map FocusSweep ts"
    using 3 4 by (simp add: 1 2(1) pre_def)
  moreover have "fw_holders (fst (run_out focus_step w (pre @ [FocusEnded]))) = []"
    "level_in_force (fst (run_out focus_step w (pre @ [FocusEnded]))) = fullPercent" for w
    by (simp_all add: run_out_snoc_fst focus_reset_def focus_change_def Let_def level_in_force_def focus_level_def)
  ultimately show ?thesis unfolding focus_Run_def by (simp only: run_out_snoc_fst [of _ _ "pre @ [FocusEnded]"] sweeps_full)
qed

end
