(* ===== verification/Go_Utf8.thy ===== *)
theory Go_Utf8
  imports Go_Strings
begin

text \<open>
  What the program uses of \<open>unicode/utf8\<close>: the width of the first rune of a byte string (an invalid byte is one
  rune of its own) and the number of runes.
\<close>

definition cont :: "char \<Rightarrow> bool" where
  "cont c \<longleftrightarrow> 0x80 \<le> chr_code c \<and> chr_code c \<le> 0xBF"

definition code_in :: "nat \<Rightarrow> nat \<Rightarrow> char \<Rightarrow> bool" where
  "code_in a b c \<longleftrightarrow> a \<le> chr_code c \<and> chr_code c \<le> b"

definition second_ok :: "char \<Rightarrow> char \<Rightarrow> bool" where
  "second_ok a b \<longleftrightarrow>
     (if chr_code a = 0xE0 then code_in 0xA0 0xBF b
      else if chr_code a = 0xED then code_in 0x80 0x9F b
      else if chr_code a = 0xF0 then code_in 0x90 0xBF b
      else if chr_code a = 0xF4 then code_in 0x80 0x8F b
      else cont b)"

definition rune_len :: "string \<Rightarrow> nat" where
  "rune_len s =
     (case s of
        a # b # r \<Rightarrow>
          if code_in 0xC2 0xDF a \<and> cont b then 2
          else if code_in 0xE0 0xEF a \<and> second_ok a b \<and> r \<noteq> [] \<and> cont (hd r) then 3
          else if code_in 0xF0 0xF4 a \<and> second_ok a b \<and> 1 < length r \<and> cont (r ! 0) \<and> cont (r ! 1) then 4
          else 1
      | _ \<Rightarrow> 1)"

lemma rune_len_pos: "0 < rune_len s"
  by (simp add: rune_len_def split: list.splits)

function rune_count :: "string \<Rightarrow> nat" where
  "rune_count s = (if s = [] then 0 else Suc (rune_count (drop (rune_len s) s)))"
  by pat_completeness auto
termination
  by (relation "measure length") (auto simp: rune_len_pos)

declare rune_count.simps [simp del]

lemma rune_count_Nil [simp]: "rune_count [] = 0"
  by (simp add: rune_count.simps)

lemma rune_count_le: "rune_count s \<le> length s"
proof (induction s rule: rune_count.induct)
  case (1 s)
  show ?case
  proof (cases "s = []")
    case False
    then have "rune_count (drop (rune_len s) s) \<le> length s - rune_len s" using 1 by simp
    moreover have "length s - rune_len s < length s" using False rune_len_pos [of s] by simp
    ultimately show ?thesis using False by (simp add: rune_count.simps [of s])
  qed simp
qed

lemma rune_len_ascii: "chr_code a < 0x80 \<Longrightarrow> rune_len (a # s) = 1"
  by (simp add: rune_len_def code_in_def split: list.splits)

lemma rune_count_ascii: "ascii_str s \<Longrightarrow> rune_count s = length s"
proof (induction s)
  case (Cons a s)
  then have "chr_code a < 0x80" by (simp add: ascii_str_def)
  then show ?case using Cons by (simp add: rune_count.simps [of "a # s"] rune_len_ascii ascii_str_def)
qed simp

end
