(* ===== verification/Alexa_Command.thy ===== *)
theory Alexa_Command
  imports Go_Utf8
begin

text \<open>
  \<open>internal/alexa/speak.go\<close> and \<open>command.go\<close>: handing Alexa's synthesizer a URL, and sending her a command over the
  account's web API. The programs the daemon runs and the servers answer through arguments, and so do \<open>encoding/json\<close>
  and the cookie jar; what is modelled is every decision the code takes on the answers, and what it asks in which
  order.
\<close>

section \<open>Strings\<close>

definition quote_char :: char where "quote_char = CHR 0x22"
definition backslash_char :: char where "backslash_char = CHR 0x5C"

text \<open>\<open>strings.ReplaceAll\<close> with something to replace, and \<open>strings.Trim\<close> of one character.\<close>

function replace_all :: "string \<Rightarrow> string \<Rightarrow> string \<Rightarrow> string" where
  "replace_all old new s =
     (case s of [] \<Rightarrow> []
      | c # r \<Rightarrow> if old \<noteq> [] \<and> has_prefix s old then new @ replace_all old new (drop (length old) s)
                 else c # replace_all old new r)"
  by pat_completeness auto
termination
  by (relation "measure (\<lambda>(old, new, s). length s)") auto

declare replace_all.simps [simp del]

definition trim_char :: "char \<Rightarrow> string \<Rightarrow> string" where
  "trim_char c s = rev (dropWhile (\<lambda>x. x = c) (rev (dropWhile (\<lambda>x. x = c) s)))"

definition RuneStart :: "char \<Rightarrow> bool" where
  "RuneStart c \<longleftrightarrow> \<not> cont c"

fun rune_back :: "string \<Rightarrow> nat \<Rightarrow> nat" where
  "rune_back s 0 = 0"
| "rune_back s (Suc i) = (if RuneStart (s ! Suc i) then Suc i else rune_back s i)"

definition alexa_clip :: "string \<Rightarrow> string" where
  "alexa_clip b = (let s = trim_space b in if 300 < length s then take (rune_back s 300) s @ ''...'' else s)"

section \<open>Speaking\<close>

definition maxLoggedURL :: nat where "maxLoggedURL = 64"

definition speak_cut :: "string \<Rightarrow> string" where
  "speak_cut s = (if maxLoggedURL < length s then take maxLoggedURL s @ ''...'' else s)"

datatype url_error = NotHttp string | BadCharacter string

definition CheckURL :: "string \<Rightarrow> url_error option" where
  "CheckURL url =
     (if \<not> has_prefix url ''http://'' then Some (NotHttp (speak_cut url))
      else if list_ex (\<lambda>c. c \<in> {quote_char, CHR '','', backslash_char}) url then Some (BadCharacter (speak_cut url))
      else None)"

definition speak_payload :: "string \<Rightarrow> string" where
  "speak_payload url =
     [CHR ''{'', quote_char] @ ''url'' @ [quote_char, CHR '':'', quote_char] @ url @ [quote_char, CHR ''}'']"

definition speakArgs :: "string \<Rightarrow> string \<Rightarrow> string \<Rightarrow> string list" where
  "speakArgs url ident sq =
     [''-a'', ''com.amazon.speech.SpeechSynthesizer_Speak'',
      ''-n'', ''amazon.speech.sim/amazon.speech.agent.speechsynthesizer.SpeechSynthesizerAgent'',
      ''--es'', ''directiveId'', ident, ''--es'', ''sequenceId'', sq,
      ''--es'', ''namespace'', ''SpeechSynthesizer'', ''--es'', ''name'', ''Speak'',
      ''--es'', ''payloadVersion'', ''1'', ''--es'', ''payload'', speak_payload url,
      ''--esa'', ''namespaces'', ''SpeechSynthesizer'', ''--esa'', ''names'', ''Speak'',
      ''--esa'', ''payloadVersions'', ''1'', ''--esa'', ''payloads'', speak_payload url]"

definition amError :: "string \<Rightarrow> string" where
  "amError out =
     (case find (\<lambda>l. has_prefix l ''Error:'') (map trim_space (split_on (CHR 0x0A) out)) of None \<Rightarrow> '''' | Some l \<Rightarrow> l)"

datatype speak_error = UrlRefused url_error | AmFailed string | AmSaid string

text \<open>The answer of \<open>am\<close> is its output and whether it failed; \<open>n\<close> is the next number of the directive sequence.\<close>

definition Speak :: "nat \<Rightarrow> nat \<Rightarrow> (string list \<Rightarrow> string \<times> bool) \<Rightarrow> string \<Rightarrow> speak_error option \<times> nat \<times> string list list" where
  "Speak pid n am url =
     (case CheckURL url of
        Some e \<Rightarrow> (Some (UrlRefused e), n, [])
      | None \<Rightarrow>
          (let m = Suc n; tail' = nat_str pid @ ''-'' @ nat_str m;
               args = speakArgs url (''dir'' @ tail') (''seq'' @ tail')
           in (case am args of (out, failed) \<Rightarrow>
             (if failed then Some (AmFailed (speak_cut (trim_space out)))
              else if amError out \<noteq> '''' then Some (AmSaid (speak_cut (amError out)))
              else None, m, [args]))))"

definition alexa_installed :: "string option \<Rightarrow> bool" where
  "alexa_installed out = (case out of None \<Rightarrow> False | Some s \<Rightarrow> has_prefix (trim_space s) ''package:'')"

lemma cut_at_char: "c \<notin> set a \<Longrightarrow> cut_at (a @ c # b) [c] = Some (a, b)"
proof -
  assume "c \<notin> set a"
  then have "index_of (a @ c # b) [c] = Some (length a)"
    by (induction a) (auto simp: has_prefix_def)
  then show ?thesis by (simp add: cut_at_def)
qed

lemma split_on_none: "c \<notin> set s \<Longrightarrow> split_on c s = [s]"
  by (induction s) auto

text \<open>
  A URL that is spoken reaches the synthesizer whole: the array holds one payload, and the payload is the JSON object
  whose only member, a string with nothing to escape, is the URL. A URL that would break either is refused, and
  nothing is run.
\<close>

theorem speak_payload_whole:
  "case Speak pid n am url of
     (Some (UrlRefused e), n', runs) \<Rightarrow> runs = [] \<and> n' = n \<and> CheckURL url = Some e
   | (r, n', runs) \<Rightarrow> length runs = 1 \<and> n' = Suc n
       \<and> last (hd runs) = speak_payload url
       \<and> split_on (CHR '','') (speak_payload url) = [speak_payload url]
       \<and> backslash_char \<notin> set (speak_payload url)
       \<and> cut_at (drop 8 (speak_payload url)) [quote_char] = Some (url, ''}'')"
proof (cases "CheckURL url")
  case None
  then have u: "quote_char \<notin> set url" "CHR '','' \<notin> set url" "backslash_char \<notin> set url"
    by (auto simp: CheckURL_def list_ex_iff split: if_splits)
  have "split_on (CHR '','') (speak_payload url) = [speak_payload url]"
    by (rule split_on_none) (use u in \<open>simp add: speak_payload_def quote_char_def\<close>)
  moreover have "backslash_char \<notin> set (speak_payload url)"
    using u by (simp add: speak_payload_def quote_char_def backslash_char_def)
  moreover have "cut_at (drop 8 (speak_payload url)) [quote_char] = Some (url, ''}'')"
    using cut_at_char [OF u(1), of "''}''"] by (simp add: speak_payload_def)
  moreover have "last (speakArgs url i q) = speak_payload url" for i q by (simp add: speakArgs_def)
  ultimately show ?thesis
    using None by (auto simp: Speak_def Let_def split: prod.splits option.splits speak_error.splits)
qed (simp add: Speak_def)

section \<open>The credential\<close>

definition minToken :: nat where "minToken = 16"
definition maxToken :: nat where "maxToken = 4096"

definition has_space :: "string \<Rightarrow> bool" where
  "has_space s \<longleftrightarrow> list_ex (\<lambda>i. lead_seq space_seqs (drop i s) \<noteq> None) [0..<length s]"

definition tokenShaped :: "string \<Rightarrow> bool" where
  "tokenShaped v \<longleftrightarrow> minToken \<le> length v \<and> length v \<le> maxToken \<and> \<not> has_space v"

datatype extract_error = MapDumpFailed string | MapDumpSilent string | NotAToken nat string

record extract_answer =
  xa_ok :: bool
  xa_out :: string
  xa_diag :: string

definition extractToken :: "extract_answer \<Rightarrow> extract_error + string" where
  "extractToken a =
     (if \<not> xa_ok a then Inl (MapDumpFailed (alexa_clip (xa_diag a)))
      else (let v = trim_space (xa_out a)
        in if v = '''' then Inl (MapDumpSilent (alexa_clip (xa_diag a)))
           else if \<not> tokenShaped v then Inl (NotAToken (length v) (alexa_clip (xa_diag a)))
           else Inr v))"

definition suPaths :: "string list" where
  "suPaths = [''/sbin/su'', ''/system/xbin/su'', ''/system/bin/su'']"

definition suPath :: "(string \<Rightarrow> bool) \<Rightarrow> string" where
  "suPath exists = (case find exists suPaths of None \<Rightarrow> ''su'' | Some p \<Rightarrow> p)"

section \<open>The account's API\<close>

record alexa_device =
  DeviceType :: string
  SerialNumber :: string
  CustomerID :: string

type_synonym cookie = "string \<times> string"

text \<open>What \<open>encoding/json\<close> makes of a body: the two error fields, the cookies, the devices; \<open>None\<close> is an error.\<close>

record alexa_json =
  js_error :: "string \<Rightarrow> (string \<times> string) option"
  js_cookies :: "string \<Rightarrow> cookie list option"
  js_devices :: "string \<Rightarrow> alexa_device list option"

datatype http_answer = HttpFailed | HttpAnswer nat string

datatype alexa_error = NoToken extract_error | RequestFailed | ExchangeRefused nat string | ExchangeHTTP nat string
  | ExchangeParse | NoCookies | ListRefused nat | ListHTTP nat string | ListParse | NoDevices | NoSuchDevice string
  | NoCsrf | PostRefused nat | PostHTTP nat string | InFlight | RefusedTwice alexa_error

fun isAuthFailure :: "alexa_error \<Rightarrow> bool" where
  "isAuthFailure (ExchangeRefused s d) = True"
| "isAuthFailure NoCookies = True"
| "isAuthFailure (ListRefused s) = True"
| "isAuthFailure ListParse = True"
| "isAuthFailure NoDevices = True"
| "isAuthFailure NoCsrf = True"
| "isAuthFailure (PostRefused s) = True"
| "isAuthFailure (RefusedTwice e) = isAuthFailure e"
| "isAuthFailure e = False"

definition withheld_note :: string where
  "withheld_note = ''(no error field; the body is withheld, it can carry the token)''"

definition withhold :: "string \<Rightarrow> string \<Rightarrow> string" where
  "withhold token s = alexa_clip (if token \<noteq> '''' then replace_all token ''<token>'' s else s)"

definition oauthError :: "alexa_json \<Rightarrow> string \<Rightarrow> string \<Rightarrow> string" where
  "oauthError J body token =
     (case js_error J body of
        None \<Rightarrow> withheld_note
      | Some (e, d) \<Rightarrow>
          if e = '''' then withheld_note
          else if d = '''' then withhold token e
          else withhold token (e @ '': '' @ d))"

definition exchangeCookies :: "alexa_json \<Rightarrow> http_answer \<Rightarrow> string \<Rightarrow> alexa_error + cookie list" where
  "exchangeCookies J a token =
     (case a of
        HttpFailed \<Rightarrow> Inl RequestFailed
      | HttpAnswer status body \<Rightarrow>
          if status = 400 \<or> status = 401 \<or> status = 403 then Inl (ExchangeRefused status (oauthError J body token))
          else if status \<noteq> 200 then Inl (ExchangeHTTP status (oauthError J body token))
          else (case js_cookies J body of
              None \<Rightarrow> Inl ExchangeParse
            | Some cs \<Rightarrow> if cs = [] then Inl NoCookies else Inr (map (\<lambda>(n, v). (n, trim_char quote_char v)) cs)))"


definition listDevices :: "alexa_json \<Rightarrow> http_answer \<Rightarrow> alexa_error + alexa_device list" where
  "listDevices J a =
     (case a of
        HttpFailed \<Rightarrow> Inl RequestFailed
      | HttpAnswer status body \<Rightarrow>
          if status = 401 \<or> status = 403 then Inl (ListRefused status)
          else if status \<noteq> 200 then Inl (ListHTTP status (alexa_clip body))
          else (case js_devices J body of
              None \<Rightarrow> Inl ListParse
            | Some ds \<Rightarrow> if ds = [] then Inl NoDevices else Inr ds))"

definition alexa_pick :: "string \<Rightarrow> alexa_device list \<Rightarrow> alexa_error + alexa_device" where
  "alexa_pick prop ds =
     (let serial = trim_space prop
      in (case find (\<lambda>d. serial \<noteq> '''' \<and> equal_fold (SerialNumber d) serial) ds of
            None \<Rightarrow> Inl (NoSuchDevice serial)
          | Some d \<Rightarrow> Inr d))"

definition in_jar :: "cookie list \<Rightarrow> string" where
  "in_jar cs = (case find (\<lambda>(n, v). n = ''csrf'') cs of None \<Rightarrow> '''' | Some (n, v) \<Rightarrow> v)"

text \<open>\<open>jar\<close> is what the cookie jar holds for the host; the page, when it loads, leaves it at what \<open>language\<close> gives.\<close>

definition csrfToken :: "cookie list \<Rightarrow> cookie list option \<Rightarrow> (alexa_error + string) \<times> bool" where
  "csrfToken jar language =
     (if in_jar jar \<noteq> '''' then (Inr (in_jar jar), False)
      else (case language of
          None \<Rightarrow> (Inl RequestFailed, True)
        | Some jar' \<Rightarrow> (if in_jar jar' \<noteq> '''' then Inr (in_jar jar') else Inl NoCsrf, True)))"

definition sendText :: "http_answer \<Rightarrow> alexa_error option" where
  "sendText a =
     (case a of
        HttpFailed \<Rightarrow> Some RequestFailed
      | HttpAnswer status body \<Rightarrow>
          if status = 401 \<or> status = 403 then Some (PostRefused status)
          else if status div 100 \<noteq> 2 then Some (PostHTTP status (alexa_clip body))
          else None)"

definition exchangePath :: string where "exchangePath = ''/ap/exchangetoken/cookies''"

datatype redirect_error = LeavesExchange | TooManyRedirects

definition check_redirect :: "string list \<Rightarrow> redirect_error option" where
  "check_redirect via =
     (if (case via of [] \<Rightarrow> False | p # ps \<Rightarrow> p = exchangePath) then Some LeavesExchange
      else if 10 \<le> length via then Some TooManyRedirects else None)"

section \<open>Sending\<close>

record alexa_env =
  ae_json :: alexa_json
  ae_extract :: extract_answer
  ae_exchange :: http_answer
  ae_list :: http_answer
  ae_serial :: string
  ae_jar :: "cookie list \<Rightarrow> cookie list"
  ae_language :: "cookie list option"
  ae_post :: http_answer

datatype alexa_call = CallExtract | CallExchange string | CallList | CallLanguage | CallPost string alexa_device string

definition get_token :: "alexa_env \<Rightarrow> string \<Rightarrow> (extract_error + string) \<times> alexa_call list" where
  "get_token E token = (if token = '''' then (extractToken (ae_extract E), [CallExtract]) else (Inr token, []))"

definition attempt_post :: "alexa_env \<Rightarrow> string \<Rightarrow> cookie list \<Rightarrow> alexa_device \<Rightarrow> alexa_error option \<times> alexa_call list" where
  "attempt_post E text cs d =
     (case csrfToken (ae_jar E cs) (ae_language E) of (r, loaded) \<Rightarrow>
       let lang = (if loaded then [CallLanguage] else [])
       in (case r of Inl e \<Rightarrow> (Some e, lang)
           | Inr csrf \<Rightarrow> (sendText (ae_post E), lang @ [CallPost csrf d text])))"

definition attempt :: "alexa_env \<Rightarrow> string \<Rightarrow> string \<Rightarrow> alexa_error option \<times> string \<times> alexa_call list" where
  "attempt E text token =
     (case get_token E token of
        (Inl e, c0) \<Rightarrow> (Some (NoToken e), token, c0)
      | (Inr tok, c0) \<Rightarrow>
          (case exchangeCookies (ae_json E) (ae_exchange E) tok of
             Inl e \<Rightarrow> (Some e, tok, c0 @ [CallExchange tok])
           | Inr cs \<Rightarrow>
               (case listDevices (ae_json E) (ae_list E) of
                  Inl e \<Rightarrow> (Some e, tok, c0 @ [CallExchange tok, CallList])
                | Inr ds \<Rightarrow>
                    (case alexa_pick (ae_serial E) ds of
                       Inl e \<Rightarrow> (Some e, tok, c0 @ [CallExchange tok, CallList])
                     | Inr d \<Rightarrow> (case attempt_post E text cs d of
                         (e, c1) \<Rightarrow> (e, tok, c0 @ [CallExchange tok, CallList] @ c1))))))"

text \<open>The second attempt meets the world as it is then.\<close>

definition alexa_send :: "alexa_env \<Rightarrow> alexa_env \<Rightarrow> bool \<Rightarrow> string \<Rightarrow> string \<Rightarrow> alexa_error option \<times> string \<times> alexa_call list" where
  "alexa_send E1 E2 busy text token =
     (if busy then (Some InFlight, token, [])
      else (case attempt E1 text token of
          (None, tok, calls) \<Rightarrow> (None, tok, calls)
        | (Some e, tok, calls) \<Rightarrow>
            if \<not> isAuthFailure e then (Some e, tok, calls)
            else (case attempt E2 text '''' of
                (None, tok2, calls2) \<Rightarrow> (None, tok2, calls @ calls2)
              | (Some e2, tok2, calls2) \<Rightarrow> (Some (RefusedTwice e2), tok2, calls @ calls2))))"


definition posts :: "alexa_call list \<Rightarrow> nat" where
  "posts cs = length (filter (\<lambda>c. case c of CallPost k d t \<Rightarrow> True | _ \<Rightarrow> False) cs)"

text \<open>A post carries the text asked for, and names a device whose serial is the Dot's own.\<close>

definition post_fits :: "string \<Rightarrow> string \<Rightarrow> alexa_call \<Rightarrow> bool" where
  "post_fits prop text c =
     (case c of
        CallPost csrf d t \<Rightarrow> t = text \<and> csrf \<noteq> '''' \<and> trim_space prop \<noteq> '''' \<and> equal_fold (SerialNumber d) (trim_space prop)
      | _ \<Rightarrow> True)"

definition post_taken :: "http_answer \<Rightarrow> bool" where
  "post_taken a = (case a of HttpFailed \<Rightarrow> False | HttpAnswer status body \<Rightarrow> status div 100 = 2)"

lemma posts_simps [simp]:
  "posts [] = 0" "posts (a @ b) = posts a + posts b" "posts (CallPost k d t # cs) = Suc (posts cs)"
  "posts (CallExtract # cs) = posts cs" "posts (CallExchange x # cs) = posts cs" "posts (CallList # cs) = posts cs"
  "posts (CallLanguage # cs) = posts cs"
  by (simp_all add: posts_def)

lemma post_fits_simps [simp]:
  "post_fits p t CallExtract" "post_fits p t (CallExchange x)" "post_fits p t CallList" "post_fits p t CallLanguage"
  by (simp_all add: post_fits_def)

lemma attempt_post_result:
  assumes "attempt_post E text cs d = (e, calls)"
    "trim_space prop \<noteq> ''''" "equal_fold (SerialNumber d) (trim_space prop)"
  shows "posts calls \<le> 1 \<and> list_all (post_fits prop text) calls
    \<and> (e = None \<longrightarrow> posts calls = 1 \<and> post_taken (ae_post E))
    \<and> (posts calls = 1 \<longrightarrow> e = sendText (ae_post E))"
  using assms
  by (auto simp: attempt_post_def csrfToken_def Let_def post_fits_def sendText_def post_taken_def
      split: sum.splits prod.splits if_splits option.splits http_answer.splits)

lemma pick_own: "alexa_pick prop ds = Inr d \<Longrightarrow>
    d \<in> set ds \<and> trim_space prop \<noteq> '''' \<and> equal_fold (SerialNumber d) (trim_space prop)"
  by (auto simp: alexa_pick_def Let_def find_Some_iff split: option.splits)

lemma get_token_posts: "get_token E token = (r, c) \<Longrightarrow> posts c = 0 \<and> list_all (post_fits p t) c"
  by (auto simp: get_token_def split: if_splits)

lemma attempt_result:
  assumes "attempt E text token = (e, tok, calls)"
  shows "posts calls \<le> 1 \<and> list_all (post_fits (ae_serial E) text) calls
    \<and> (e = None \<longrightarrow> posts calls = 1 \<and> post_taken (ae_post E))
    \<and> (posts calls = 1 \<longrightarrow> e = sendText (ae_post E))"
proof -
  obtain r c0 where g: "get_token E token = (r, c0)" by fastforce
  have c0: "posts c0 = 0" "list_all (post_fits (ae_serial E) text) c0" using get_token_posts [OF g] by simp_all
  consider (early) "posts calls = 0" "list_all (post_fits (ae_serial E) text) calls" "e \<noteq> None"
    | (posted) tk cs ds d c1 where "calls = c0 @ [CallExchange tk, CallList] @ c1" "attempt_post E text cs d = (e, c1)"
        "alexa_pick (ae_serial E) ds = Inr d"
    using assms g c0 by (auto simp: attempt_def split: sum.splits prod.splits)
  then show ?thesis
  proof cases
    case early
    then show ?thesis by simp
  next
    case posted
    then show ?thesis using attempt_post_result [OF posted(2), of "ae_serial E"] pick_own [OF posted(3)] c0 by simp
  qed
qed

text \<open>
  C22. A command is posted to the Dot's own device on the account and to no other, with the text that was asked for; it
  is posted a second time only when the first was refused as unauthenticated; and sending succeeds only when a
  post was taken.
\<close>

theorem command_sent_once:
  "case alexa_send E1 E2 busy text token of
     (e, tok, calls) \<Rightarrow>
       list_all (\<lambda>c. post_fits (ae_serial E1) text c \<or> post_fits (ae_serial E2) text c) calls
       \<and> (if posts calls \<le> 1 then True
          else posts calls = 2 \<and> (case sendText (ae_post E1) of Some (PostRefused s) \<Rightarrow> True | _ \<Rightarrow> False))
       \<and> (if e = None then 0 < posts calls \<and> (post_taken (ae_post E1) \<or> post_taken (ae_post E2)) else True)"
proof (cases busy)
  case False
  obtain e1 tok1 c1 where a1: "attempt E1 text token = (e1, tok1, c1)" by (cases "attempt E1 text token")
  obtain e2 tok2 c2 where a2: "attempt E2 text '''' = (e2, tok2, c2)" by (cases "attempt E2 text ''''")
  note r1 = attempt_result [OF a1] and r2 = attempt_result [OF a2]
  have fits: "list_all (\<lambda>c. post_fits p text c \<or> Q c) xs" "list_all (\<lambda>c. Q c \<or> post_fits p text c) xs"
    if "list_all (post_fits p text) xs" for p Q xs
    using that by (auto simp: list_all_iff)
  have refused: "(case sendText (ae_post E1) of Some (PostRefused s) \<Rightarrow> True | _ \<Rightarrow> False)"
    if "sendText (ae_post E1) = Some x" "isAuthFailure x" for x
    using that by (auto simp: sendText_def split: http_answer.splits if_splits)
  have two: "posts (c1 @ c2) \<le> 1 \<or> posts (c1 @ c2) = 2 \<and> posts c1 = 1" using r1 r2 by auto
  show ?thesis
  proof (cases e1)
    case None
    then show ?thesis using r1 fits a1 False by (simp add: alexa_send_def)
  next
    case (Some x)
    show ?thesis
    proof (cases "isAuthFailure x")
      case True
      have r: "alexa_send E1 E2 busy text token
          = (case e2 of None \<Rightarrow> None | Some y \<Rightarrow> Some (RefusedTwice y), tok2, c1 @ c2)"
        using a1 a2 Some True False by (simp add: alexa_send_def split: option.splits)
      have p: "if posts (c1 @ c2) \<le> 1 then True
          else posts (c1 @ c2) = 2 \<and> (case sendText (ae_post E1) of Some (PostRefused s) \<Rightarrow> True | _ \<Rightarrow> False)"
      proof (cases "posts (c1 @ c2) \<le> 1")
        case False
        then have "posts (c1 @ c2) = 2" "posts c1 = 1" using two by auto
        moreover have "sendText (ae_post E1) = Some x" using r1 Some \<open>posts c1 = 1\<close> by simp
        ultimately show ?thesis using refused [of x] True by simp
      qed simp
      show ?thesis unfolding r using p r1 r2 fits by (cases e2) auto
    next
      case other: False
      then show ?thesis using r1 fits a1 Some False by (simp add: alexa_send_def)
    qed
  qed
qed (simp add: alexa_send_def)


section \<open>The credential is withheld\<close>























end
