(* ===== verification/Go_Encode.thy ===== *)
theory Go_Encode
  imports Go_Utf8
begin

text \<open>
  What the program's requests to Amazon use of \<open>net/url\<close> and \<open>encoding/json\<close>: \<open>url.Values.Encode\<close> and
  \<open>json.Marshal\<close> of strings and of maps from strings to strings, and readers of both, which give back what was written:
  no value can end the field or the literal it is put in.
\<close>

section \<open>Hexadecimal\<close>

definition hex_digit :: "nat \<Rightarrow> nat \<Rightarrow> char" where
  "hex_digit base n = char_of (if n < 10 then 48 + n else base + n - 10)"

definition unhex :: "char \<Rightarrow> nat option" where
  "unhex c =
     (let n = chr_code c
      in if 48 \<le> n \<and> n \<le> 57 then Some (n - 48)
         else if 65 \<le> n \<and> n \<le> 70 then Some (n - 55)
         else if 97 \<le> n \<and> n \<le> 102 then Some (n - 87) else None)"

lemma unhex_digit: "n < 16 \<Longrightarrow> base = 65 \<or> base = 97 \<Longrightarrow> unhex (hex_digit base n) = Some n"
  by (auto simp: unhex_def hex_digit_def Let_def of_char_of)

lemma hex_digit_code: "n < 16 \<Longrightarrow> base = 65 \<or> base = 97 \<Longrightarrow>
    48 \<le> chr_code (hex_digit base n) \<and> chr_code (hex_digit base n) \<le> 102 \<and> chr_code (hex_digit base n) \<noteq> 61
    \<and> chr_code (hex_digit base n) \<noteq> 92"
  by (auto simp: hex_digit_def of_char_of)

definition hex2 :: "nat \<Rightarrow> char \<Rightarrow> string" where
  "hex2 base c = [hex_digit base (chr_code c div 16), hex_digit base (chr_code c mod 16)]"

lemma chr_code_less: "chr_code c < 256"
  using of_char_of [of "chr_code c"] by (metis mod_less_divisor of_char_mod_256 zero_less_numeral)

lemma nibbles: "chr_code c div 16 < 16" "chr_code c mod 16 < 16"
  using chr_code_less [of c] by (simp_all add: less_mult_imp_div_less)

lemma char_of_code: "char_of (16 * (chr_code c div 16) + chr_code c mod 16) = c"
  by simp

section \<open>A query\<close>

definition unreserved :: "char \<Rightarrow> bool" where
  "unreserved c \<longleftrightarrow>
     code_in 48 57 c \<or> code_in 65 90 c \<or> code_in 97 122 c \<or> c = CHR ''-'' \<or> c = CHR ''_'' \<or> c = CHR ''.'' \<or> c = CHR ''~''"

definition query_char :: "char \<Rightarrow> string" where
  "query_char c = (if c = CHR '' '' then ''+'' else if unreserved c then [c] else CHR ''%'' # hex2 65 c)"

definition query_escape :: "string \<Rightarrow> string" where
  "query_escape s = concat (map query_char s)"

fun query_unescape :: "string \<Rightarrow> string option" where
  "query_unescape [] = Some []"
| "query_unescape (c # s) =
     (if c = CHR ''+'' then map_option ((#) (CHR '' '')) (query_unescape s)
      else if c = CHR ''%'' then
        (case s of
           a # b # r \<Rightarrow>
             (case (unhex a, unhex b) of
                (Some x, Some y) \<Rightarrow> map_option ((#) (char_of (16 * x + y))) (query_unescape r)
              | _ \<Rightarrow> None)
         | _ \<Rightarrow> None)
      else map_option ((#) c) (query_unescape s))"

lemma unreserved_not: "\<not> unreserved (CHR ''+'')" "\<not> unreserved (CHR ''%'')" "\<not> unreserved (CHR ''&'')"
  "\<not> unreserved (CHR ''='')"
  by (simp_all add: unreserved_def code_in_def)

lemma query_unescape_char: "query_unescape (query_char c @ r) = map_option ((#) c) (query_unescape r)"
proof -
  have "unhex (hex_digit 65 (chr_code c div 16)) = Some (chr_code c div 16)"
    "unhex (hex_digit 65 (chr_code c mod 16)) = Some (chr_code c mod 16)"
    using nibbles by (simp_all add: unhex_digit)
  then show ?thesis using unreserved_not by (auto simp: query_char_def hex2_def)
qed

lemma query_roundtrip: "query_unescape (query_escape s) = Some s"
  by (induction s) (simp_all add: query_escape_def query_unescape_char)

lemma query_char_plain: "x \<in> set (query_char c) \<Longrightarrow> x \<noteq> CHR ''&'' \<and> x \<noteq> CHR ''=''"
proof -
  assume x: "x \<in> set (query_char c)"
  have "hex_digit 65 (chr_code c div 16) \<noteq> CHR ''&''" "hex_digit 65 (chr_code c mod 16) \<noteq> CHR ''&''"
    "hex_digit 65 (chr_code c div 16) \<noteq> CHR ''=''" "hex_digit 65 (chr_code c mod 16) \<noteq> CHR ''=''"
    using hex_digit_code [OF nibbles(1), of 65 c] hex_digit_code [OF nibbles(2), of 65 c] by auto
  then show ?thesis using x unreserved_not by (auto simp: query_char_def hex2_def split: if_splits)
qed

lemma query_escape_plain: "CHR ''&'' \<notin> set (query_escape s)" "CHR ''='' \<notin> set (query_escape s)"
  using query_char_plain by (auto simp: query_escape_def)

text \<open>\<open>Encode\<close> of values given in the order of their keys.\<close>

definition form_field :: "string \<times> string \<Rightarrow> string" where
  "form_field kv = query_escape (fst kv) @ CHR ''='' # query_escape (snd kv)"

definition form_encode :: "(string \<times> string) list \<Rightarrow> string" where
  "form_encode kvs = join_on (CHR ''&'') (map form_field kvs)"

definition read_field :: "string \<Rightarrow> (string \<times> string) option" where
  "read_field f =
     (let k = takeWhile (\<lambda>c. c \<noteq> CHR ''='') f; v = drop (Suc (length k)) f
      in case (query_unescape k, query_unescape v) of (Some a, Some b) \<Rightarrow> Some (a, b) | _ \<Rightarrow> None)"

definition form_decode :: "string \<Rightarrow> (string \<times> string) option list" where
  "form_decode s = map read_field (split_on (CHR ''&'') s)"

lemma read_form_field: "read_field (form_field kv) = Some kv"
proof -
  have "takeWhile (\<lambda>c. c \<noteq> CHR ''='') (form_field kv) = query_escape (fst kv)"
    using query_escape_plain(2) [of "fst kv"] unfolding form_field_def
    by (subst takeWhile_append2) auto
  then show ?thesis by (simp add: read_field_def Let_def query_roundtrip form_field_def)
qed

lemma split_join: "fs \<noteq> [] \<Longrightarrow> \<forall>f \<in> set fs. c \<notin> set f \<Longrightarrow> split_on c (join_on c fs) = fs"
proof (induction fs)
  case (Cons f fs)
  have 1: "c \<notin> set f \<Longrightarrow> split_on c f = [f]" by (induction f) auto
  have 2: "c \<notin> set f \<Longrightarrow> split_on c (f @ c # r) = f # split_on c r" for r by (induction f) auto
  show ?case
  proof (cases "fs = []")
    case True
    then show ?thesis using Cons.prems 1 by simp
  next
    case False
    then show ?thesis using Cons 2 by (simp add: join_on_Cons)
  qed
qed simp

lemma form_roundtrip: "kvs \<noteq> [] \<Longrightarrow> form_decode (form_encode kvs) = map Some kvs"
proof -
  assume "kvs \<noteq> []"
  moreover have "CHR ''&'' \<notin> set (form_field kv)" for kv
    using query_escape_plain(1) by (auto simp: form_field_def)
  ultimately have "split_on (CHR ''&'') (form_encode kvs) = map form_field kvs"
    unfolding form_encode_def by (intro split_join) auto
  then show ?thesis by (simp add: form_decode_def read_form_field)
qed


section \<open>A string in JSON\<close>

abbreviation (input) json_quote :: char where "json_quote \<equiv> CHR 0x22"
abbreviation (input) json_escape :: char where "json_escape \<equiv> CHR 0x5C"

definition short_escapes :: "(char \<times> char) list" where
  "short_escapes =
     [(json_quote, json_quote), (json_escape, json_escape), (CHR 0x08, CHR ''b''), (CHR 0x0C, CHR ''f''), (CHR 0x0A, CHR ''n''),
      (CHR 0x0D, CHR ''r''), (CHR 0x09, CHR ''t'')]"

definition json_ascii :: "char \<Rightarrow> string" where
  "json_ascii c =
     (case map_of short_escapes c of
        Some e \<Rightarrow> [json_escape, e]
      | None \<Rightarrow>
          if chr_code c < 0x20 \<or> c = CHR ''<'' \<or> c = CHR ''>'' \<or> c = CHR ''&''
          then [json_escape, CHR ''u'', CHR ''0'', CHR ''0''] @ hex2 97 c else [c])"

text \<open>The line separators, escaped; a byte that is no rune is replaced.\<close>

definition line_sep :: "string \<Rightarrow> char option" where
  "line_sep s =
     (if take 3 s = [CHR 0xE2, CHR 0x80, CHR 0xA8] then Some (CHR ''8'')
      else if take 3 s = [CHR 0xE2, CHR 0x80, CHR 0xA9] then Some (CHR ''9'') else None)"

definition replacement :: string where "replacement = [CHR 0xEF, CHR 0xBF, CHR 0xBD]"

function json_text :: "string \<Rightarrow> string" where
  "json_text [] = []"
| "json_text (c # s) =
     (if chr_code c < 0x80 then json_ascii c @ json_text s
      else if rune_len (c # s) = 1 then json_escape # ''ufffd'' @ json_text s
      else (case line_sep (c # s) of
          Some d \<Rightarrow> json_escape # ''u202'' @ d # json_text (drop (rune_len (c # s)) (c # s))
        | None \<Rightarrow> take (rune_len (c # s)) (c # s) @ json_text (drop (rune_len (c # s)) (c # s))))"
  by pat_completeness auto
termination
  by (relation "measure length") (auto simp: rune_len_pos)

function repaired :: "string \<Rightarrow> string" where
  "repaired [] = []"
| "repaired (c # s) =
     (if chr_code c < 0x80 then c # repaired s
      else if rune_len (c # s) = 1 then replacement @ repaired s
      else take (rune_len (c # s)) (c # s) @ repaired (drop (rune_len (c # s)) (c # s)))"
  by pat_completeness auto
termination
  by (relation "measure length") (auto simp: rune_len_pos)

declare json_text.simps [simp del] repaired.simps [simp del]

definition json_str :: "string \<Rightarrow> string" where
  "json_str s = json_quote # json_text s @ [json_quote]"

text \<open>Reading a literal up to its closing quote.\<close>

definition utf8_of :: "nat \<Rightarrow> string" where
  "utf8_of n =
     (if n < 0x80 then [char_of n]
      else if n < 0x800 then [char_of (0xC0 + n div 64), char_of (0x80 + n mod 64)]
      else if n < 0x10000 then [char_of (0xE0 + n div 4096), char_of (0x80 + n div 64 mod 64), char_of (0x80 + n mod 64)]
      else [char_of (0xF0 + n div 262144), char_of (0x80 + n div 4096 mod 64), char_of (0x80 + n div 64 mod 64),
            char_of (0x80 + n mod 64)])"

definition hex4 :: "char \<Rightarrow> char \<Rightarrow> char \<Rightarrow> char \<Rightarrow> nat option" where
  "hex4 a b c d =
     (case (unhex a, unhex b, unhex c, unhex d) of
        (Some w, Some x, Some y, Some z) \<Rightarrow> Some (4096 * w + 256 * x + 16 * y + z) | _ \<Rightarrow> None)"

text \<open>
  The escape of a code unit, read after its \<open>u\<close>: two that are a surrogate pair are one rune, half a pair is no rune, and is
  replaced.
\<close>

definition low_half :: "string \<Rightarrow> nat option" where
  "low_half s =
     (case s of
        e # u # a # b # c # d # t \<Rightarrow>
          if e = json_escape \<and> u = CHR ''u'' then
            (case hex4 a b c d of None \<Rightarrow> None | Some n \<Rightarrow> if 0xDC00 \<le> n \<and> n < 0xE000 then Some n else None)
          else None
      | _ \<Rightarrow> None)"

definition read_unit :: "string \<Rightarrow> (string \<times> string) option" where
  "read_unit s =
     (case s of
        a # b # c # d # t \<Rightarrow>
          (case hex4 a b c d of
             None \<Rightarrow> None
           | Some n \<Rightarrow>
               if 0xD800 \<le> n \<and> n < 0xE000 then
                 (case (if n < 0xDC00 then low_half t else None) of
                    Some l \<Rightarrow> Some (utf8_of ((n - 0xD800) * 1024 + (l - 0xDC00) + 0x10000), drop 6 t)
                  | None \<Rightarrow> Some (replacement, t))
               else Some (utf8_of n, t))
      | _ \<Rightarrow> None)"

lemma read_unit_shrinks: "read_unit s = Some (p, t) \<Longrightarrow> length t < length s"
  by (auto simp: read_unit_def split: list.splits option.splits if_splits)

definition scan_push :: "string \<Rightarrow> (string \<times> string) option \<Rightarrow> (string \<times> string) option" where
  "scan_push p x = (case x of None \<Rightarrow> None | Some (a, r) \<Rightarrow> Some (p @ a, r))"

definition read_escape :: "char \<Rightarrow> char option" where
  "read_escape e = (if e = CHR ''/'' then Some e else map_of (map (\<lambda>(x, y). (y, x)) short_escapes) e)"

function json_scan :: "string \<Rightarrow> (string \<times> string) option" where
  "json_scan [] = None"
| "json_scan (c # s) =
     (if c = json_quote then Some ([], s)
      else if c = json_escape then
        (case s of
           [] \<Rightarrow> None
         | e # r \<Rightarrow>
             if e = CHR ''u'' then (case read_unit r of None \<Rightarrow> None | Some (p, t) \<Rightarrow> scan_push p (json_scan t))
             else (case read_escape e of None \<Rightarrow> None | Some x \<Rightarrow> scan_push [x] (json_scan r)))
      else if chr_code c < 0x20 then None
      else if chr_code c < 0x80 then scan_push [c] (json_scan s)
      else if rune_len (c # s) = 1 then scan_push replacement (json_scan s)
      else scan_push (take (rune_len (c # s)) (c # s)) (json_scan (drop (rune_len (c # s)) (c # s))))"
  by pat_completeness auto
termination
  by (relation "measure length") (auto simp: rune_len_pos dest!: read_unit_shrinks)

declare json_scan.simps [simp del]

lemma json_scan_plain:
  "c \<noteq> json_quote \<Longrightarrow> c \<noteq> json_escape \<Longrightarrow> \<not> chr_code c < 0x20 \<Longrightarrow> chr_code c < 0x80 \<Longrightarrow>
     json_scan (c # s) = scan_push [c] (json_scan s)"
  by (simp add: json_scan.simps)

lemma scan_push_push: "scan_push p (scan_push q x) = scan_push (p @ q) x"
  by (simp add: scan_push_def split: option.splits prod.splits)

lemma json_scan_u: 
  assumes "hex4 a b d f = Some n" "n < 0xD800 \<or> 0xE000 \<le> n"
  shows "json_scan (json_escape # CHR ''u'' # a # b # d # f # t) = scan_push (utf8_of n) (json_scan t)"
  using assms by (auto simp: json_scan.simps(2) [of json_escape] read_unit_def)

lemma json_scan_ascii:
  assumes "chr_code c < 0x80"
  shows "json_scan (json_ascii c @ r) = scan_push [c] (json_scan r)"
proof (cases "map_of short_escapes c")
  case (Some e)
  then show ?thesis
    by (auto simp: json_ascii_def json_scan.simps(2) [of json_escape] read_escape_def short_escapes_def split: if_splits)
next
  case None
  then have n: "c \<noteq> json_quote" "c \<noteq> json_escape" by (auto simp: short_escapes_def split: if_splits)
  have "unhex (hex_digit 97 (chr_code c div 16)) = Some (chr_code c div 16)"
    "unhex (hex_digit 97 (chr_code c mod 16)) = Some (chr_code c mod 16)" "unhex (CHR ''0'') = Some 0"
    using nibbles by (simp_all add: unhex_digit) (simp add: unhex_def)
  then have "hex4 (CHR ''0'') (CHR ''0'') (hex_digit 97 (chr_code c div 16)) (hex_digit 97 (chr_code c mod 16)) = Some (chr_code c)"
    by (simp add: hex4_def)
  moreover have "utf8_of (chr_code c) = [c]" using assms by (simp add: utf8_of_def)
  ultimately show ?thesis using None n
    using assms by (auto simp: json_ascii_def hex2_def json_scan_u json_scan_plain)
qed

lemma rune_split:
  assumes "1 < rune_len s"
  obtains (two) a b t where "s = a # b # t" "rune_len s = 2" "code_in 0xC2 0xDF a" "cont b"
    | (three) a b c t where "s = a # b # c # t" "rune_len s = 3" "code_in 0xE0 0xEF a" "second_ok a b" "cont c"
    | (four) a b c d t where "s = a # b # c # d # t" "rune_len s = 4" "code_in 0xF0 0xF4 a" "second_ok a b" "cont c" "cont d"
proof -
  obtain a b r where s: "s = a # b # r" using assms by (auto simp: rune_len_def split: list.splits)
  show thesis
  proof (cases r)
    case Nil
    then show ?thesis using assms two by (simp add: s rune_len_def split: if_splits)
  next
    case (Cons c t)
    then show ?thesis using assms two three four by (cases t) (auto simp: s rune_len_def split: if_splits)
  qed
qed

lemma rune_high:
  assumes "1 < rune_len s" and x: "x \<in> set (take (rune_len s) s)"
  shows "0x80 \<le> chr_code x"
proof -
  have "code_in 0xC2 0xDF y \<or> code_in 0xE0 0xEF y \<or> code_in 0xF0 0xF4 y \<or> second_ok a y \<or> cont y \<Longrightarrow> 0x80 \<le> chr_code y"
    for a y by (auto simp: code_in_def second_ok_def cont_def split: if_splits)
  then show ?thesis using x by (cases rule: rune_split [OF assms(1)]) auto
qed

lemma rune_alone:
  assumes "1 < rune_len s"
  shows "rune_len (take (rune_len s) s @ t) = rune_len s" "length (take (rune_len s) s) = rune_len s"
proof -
  have "\<not> code_in 0xC2 0xDF a" if "code_in 0xE0 0xEF a \<or> code_in 0xF0 0xF4 a" for a
    using that by (auto simp: code_in_def)
  moreover have "\<not> code_in 0xE0 0xEF a" if "code_in 0xF0 0xF4 a" for a using that by (simp add: code_in_def)
  ultimately show "rune_len (take (rune_len s) s @ t) = rune_len s"
    by (cases rule: rune_split [OF assms]) (simp_all add: rune_len_def)
  show "length (take (rune_len s) s) = rune_len s" by (cases rule: rune_split [OF assms]) simp_all
qed

lemma json_scan_rune:
  assumes "1 < rune_len s"
  shows "json_scan (take (rune_len s) s @ t) = scan_push (take (rune_len s) s) (json_scan t)"
proof -
  obtain c u where cu: "take (rune_len s) s = c # u" using rune_alone(2) [OF assms] assms by (cases "take (rune_len s) s") auto
  have c: "0x80 \<le> chr_code c" using rune_high [OF assms, of c] cu by simp
  have n: "rune_len (c # u @ t) = rune_len s" "Suc (length u) = rune_len s"
    using rune_alone(1) [OF assms, of t] rune_alone(2) [OF assms] cu by simp_all
  have "c \<noteq> json_quote" "c \<noteq> json_escape" "\<not> chr_code c < 0x20" "\<not> chr_code c < 0x80" using c by auto
  then show ?thesis using assms n by (simp add: cu json_scan.simps(2) take_Cons' drop_Cons')
qed

lemma line_sep_len: "line_sep (c # s) = Some d \<Longrightarrow> rune_len (c # s) = 3"
proof -
  assume "line_sep (c # s) = Some d"
  then have "take 3 (c # s) = [CHR 0xE2, CHR 0x80, CHR 0xA8] \<or> take 3 (c # s) = [CHR 0xE2, CHR 0x80, CHR 0xA9]"
    by (simp add: line_sep_def split: if_splits)
  then obtain x t where "c # s = CHR 0xE2 # CHR 0x80 # x # t" "x = CHR 0xA8 \<or> x = CHR 0xA9"
    by (cases s rule: remdups_adj.cases) (auto simp: numeral_3_eq_3 take_Suc split: list.splits)
  then show ?thesis by (auto simp: rune_len_def code_in_def second_ok_def cont_def)
qed

lemma line_sep_code:
  assumes "line_sep (c # s) = Some d"
  shows "hex4 (CHR ''2'') (CHR ''0'') (CHR ''2'') d = Some (0x2020 + (if d = CHR ''8'' then 8 else 9))"
    "utf8_of (0x2020 + (if d = CHR ''8'' then 8 else 9)) = take 3 (c # s)"
  using assms by (auto simp: line_sep_def hex4_def unhex_def utf8_of_def Let_def char_of_def bit_0 split: if_splits)

lemma json_scan_text: "json_scan (json_text s @ json_quote # r) = Some (repaired s, r)"
proof (induction s rule: json_text.induct)
  case 1
  then show ?case by (simp add: json_text.simps repaired.simps json_scan.simps)
next
  case (2 c s)
  consider (low) "chr_code c < 0x80" | (bad) "\<not> chr_code c < 0x80" "rune_len (c # s) = 1"
    | (sep) d where "\<not> chr_code c < 0x80" "rune_len (c # s) \<noteq> 1" "line_sep (c # s) = Some d"
    | (rune) "\<not> chr_code c < 0x80" "rune_len (c # s) \<noteq> 1" "line_sep (c # s) = None" by (cases "line_sep (c # s)") auto
  then show ?case
  proof cases
    case low
    then show ?thesis using 2 by (simp add: json_text.simps(2) repaired.simps(2) json_scan_ascii scan_push_def)
  next
    case bad
    have "hex4 (CHR ''f'') (CHR ''f'') (CHR ''f'') (CHR ''d'') = Some 0xFFFD" by (simp add: hex4_def unhex_def Let_def)
    moreover have "utf8_of 0xFFFD = replacement" by (simp add: utf8_of_def replacement_def char_of_def bit_0)
    ultimately show ?thesis using 2 bad by (simp add: json_text.simps(2) repaired.simps(2) json_scan_u scan_push_def)
  next
    case sep
    then show ?thesis using 2 line_sep_code [OF sep(3)] line_sep_len [OF sep(3)]
      by (simp add: json_text.simps(2) repaired.simps(2) json_scan_u scan_push_def)
  next
    case rune
    then have "1 < rune_len (c # s)" using rune_len_pos [of "c # s"] by linarith
    from json_scan_rune [OF this] show ?thesis using 2 rune by (simp add: json_text.simps(2) repaired.simps(2) scan_push_def)
  qed
qed

lemma repaired_ascii: "\<forall>x \<in> set p. chr_code x < 0x80 \<Longrightarrow> repaired (p @ t) = p @ repaired t"
  by (induction p) (auto simp: repaired.simps(2))

lemma repaired_rune: "1 < rune_len s \<Longrightarrow> repaired (take (rune_len s) s @ t) = take (rune_len s) s @ repaired t"
proof -
  assume l: "1 < rune_len s"
  obtain c u where cu: "take (rune_len s) s = c # u" using rune_alone(2) [OF l] l by (cases "take (rune_len s) s") auto
  have "0x80 \<le> chr_code c" using rune_high [OF l, of c] cu by simp
  moreover have "rune_len (c # u @ t) = rune_len s" "Suc (length u) = rune_len s"
    using rune_alone(1) [OF l, of t] rune_alone(2) [OF l] cu by simp_all
  ultimately show ?thesis using l by (simp add: cu repaired.simps(2) take_Cons' drop_Cons')
qed

lemma repaired_replacement: "repaired (replacement @ t) = replacement @ repaired t"
proof -
  have "rune_len replacement = 3" by (simp add: replacement_def rune_len_def code_in_def second_ok_def cont_def)
  moreover have "take 3 replacement = replacement" by (simp add: replacement_def)
  ultimately show ?thesis using repaired_rune [of replacement t] by (metis one_less_numeral_iff semiring_norm(77))
qed

lemma hex_digit_low: "n < 16 \<Longrightarrow> chr_code (hex_digit 97 n) < 0x80"
  using hex_digit_code [of n 97] by simp

lemma json_ascii_low: 
  assumes "chr_code c < 0x80" "x \<in> set (json_ascii c)" 
  shows "chr_code x < 0x80"
proof (cases "map_of short_escapes c")
  case (Some e)
  have "\<forall>p \<in> set short_escapes. chr_code (snd p) < 0x80" by (simp add: short_escapes_def)
  then have "chr_code e < 0x80" using map_of_SomeD [OF Some] by force
  then show ?thesis using assms Some by (auto simp: json_ascii_def)
next
  case None
  have "\<forall>y \<in> set [json_escape, CHR ''u'', CHR ''0'']. chr_code y < 0x80" by simp
  then show ?thesis using assms None hex_digit_low [OF nibbles(1), of c] hex_digit_low [OF nibbles(2), of c]
    by (auto simp: json_ascii_def hex2_def split: if_splits)
qed

text \<open>What is written is well formed, whatever the text; a text that is itself is read back as it is.\<close>

lemma repaired_text: "repaired (json_text s @ t) = json_text s @ repaired t"
proof (induction s rule: json_text.induct)
  case (2 c s)
  consider (low) "chr_code c < 0x80" | (bad) "\<not> chr_code c < 0x80" "rune_len (c # s) = 1"
    | (sep) d where "\<not> chr_code c < 0x80" "rune_len (c # s) \<noteq> 1" "line_sep (c # s) = Some d"
    | (rune) "\<not> chr_code c < 0x80" "rune_len (c # s) \<noteq> 1" "line_sep (c # s) = None" by (cases "line_sep (c # s)") auto
  then show ?case
  proof cases
    case low
    then show ?thesis using 2 repaired_ascii json_ascii_low [OF low] by (simp add: json_text.simps(2))
  next
    case bad
    then show ?thesis using 2 repaired_ascii [of "json_escape # ''ufffd''"] by (simp add: json_text.simps(2))
  next
    case sep
    then have "d = CHR ''8'' \<or> d = CHR ''9''" by (simp add: line_sep_def split: if_splits)
    then show ?thesis using 2 sep repaired_ascii [of "json_escape # ''u202'' @ [d]"] by (auto simp: json_text.simps(2))
  next
    case rune
    then have "1 < rune_len (c # s)" using rune_len_pos [of "c # s"] by linarith
    from repaired_rune [OF this] show ?thesis using 2 rune by (simp add: json_text.simps(2))
  qed
qed (simp add: json_text.simps)

lemma repaired_repaired: "repaired (repaired s @ t) = repaired s @ repaired t"
proof (induction s rule: repaired.induct)
  case (2 c s)
  consider (low) "chr_code c < 0x80" | (bad) "\<not> chr_code c < 0x80" "rune_len (c # s) = 1"
    | (rune) "\<not> chr_code c < 0x80" "rune_len (c # s) \<noteq> 1" by auto
  then show ?case
  proof cases
    case low
    then show ?thesis using 2 by (simp add: repaired.simps(2))
  next
    case bad
    then show ?thesis using 2 repaired_replacement by (simp add: repaired.simps(2) [of c])
  next
    case rune
    then have "1 < rune_len (c # s)" using rune_len_pos [of "c # s"] by linarith
    from repaired_rune [OF this] show ?thesis using 2 rune by (simp add: repaired.simps(2) [of c])
  qed
qed (simp add: repaired.simps)

end
