(* ===== verification/Go_Json.thy ===== *)
theory Go_Json
  imports Go_Encode
begin

text \<open>
  \<open>encoding/json\<close>: values, \<open>Marshal\<close> of the values the program writes, and the reader of \<open>Unmarshal\<close>, which takes white
  space, every escape and every number and gives up at its depth. How a field of a structure is found in an object (by
  its name in any case, the last one counting, \<open>null\<close> leaving it alone) is here too. What is written is read back, with
  what is not UTF-8 repaired.
\<close>

section \<open>Values\<close>

datatype json = JNull | JBool bool | JNum string | JStr string | JArr "json list" | JObj "(string \<times> json) list"

fun json_write :: "json \<Rightarrow> string" where
  "json_write JNull = ''null''"
| "json_write (JBool b) = (if b then ''true'' else ''false'')"
| "json_write (JNum n) = n"
| "json_write (JStr s) = json_str s"
| "json_write (JArr vs) = CHR ''['' # join_on (CHR '','') (map json_write vs) @ '']''"
| "json_write (JObj m) =
     CHR 0x7B # join_on (CHR '','') (map (\<lambda>(k, v). json_str k @ CHR '':'' # json_write v) m) @ [CHR 0x7D]"

fun json_repaired :: "json \<Rightarrow> json" where
  "json_repaired (JStr s) = JStr (repaired s)"
| "json_repaired (JArr vs) = JArr (map json_repaired vs)"
| "json_repaired (JObj m) = JObj (map (\<lambda>(k, v). (repaired k, json_repaired v)) m)"
| "json_repaired v = v"

section \<open>Reading\<close>

definition json_space :: "char \<Rightarrow> bool" where
  "json_space c \<longleftrightarrow> c = CHR '' '' \<or> c = CHR 0x09 \<or> c = CHR 0x0A \<or> c = CHR 0x0D"

definition skip_space :: "string \<Rightarrow> string" where
  "skip_space s = dropWhile json_space s"

definition json_digit :: "char \<Rightarrow> bool" where
  "json_digit c = code_in 48 57 c"

text \<open>A number: its parts, taken greedily; what cannot follow it is left for the reader to refuse.\<close>

definition read_digits :: "string \<Rightarrow> (string \<times> string) option" where
  "read_digits s = (let ds = takeWhile json_digit s in if ds = [] then None else Some (ds, drop (length ds) s))"

definition read_whole :: "string \<Rightarrow> (string \<times> string) option" where
  "read_whole s = (case s of [] \<Rightarrow> None | c # r \<Rightarrow> if c = CHR ''0'' then Some ([c], r) else read_digits s)"

definition read_fraction :: "string \<Rightarrow> (string \<times> string) option" where
  "read_fraction s =
     (case s of c # r \<Rightarrow> if c = CHR ''.'' then scan_push [c] (read_digits r) else Some ([], s) | [] \<Rightarrow> Some ([], s))"

definition read_exponent :: "string \<Rightarrow> (string \<times> string) option" where
  "read_exponent s =
     (case s of
        c # r \<Rightarrow>
          if c = CHR ''e'' \<or> c = CHR ''E'' then
            (case r of
               d # t \<Rightarrow> if d = CHR ''+'' \<or> d = CHR ''-'' then scan_push [c, d] (read_digits t) else scan_push [c] (read_digits r)
             | [] \<Rightarrow> None)
          else Some ([], s)
      | [] \<Rightarrow> Some ([], s))"

definition then_read :: "(string \<times> string) option \<Rightarrow> (string \<Rightarrow> (string \<times> string) option) \<Rightarrow> (string \<times> string) option" where
  "then_read x f = (case x of None \<Rightarrow> None | Some (a, s) \<Rightarrow> scan_push a (f s))"

definition read_number :: "string \<Rightarrow> (string \<times> string) option" where
  "read_number s =
     then_read (then_read
       (case s of c # r \<Rightarrow> if c = CHR ''-'' then scan_push [c] (read_whole r) else read_whole s | [] \<Rightarrow> None)
       read_fraction) read_exponent"

definition read_literal :: "string \<Rightarrow> json \<Rightarrow> string \<Rightarrow> (json \<times> string) option" where
  "read_literal w v s = (case cut_prefix s w of None \<Rightarrow> None | Some r \<Rightarrow> Some (v, r))"

fun read_value :: "nat \<Rightarrow> nat \<Rightarrow> string \<Rightarrow> (json \<times> string) option"
  and read_elems :: "nat \<Rightarrow> nat \<Rightarrow> string \<Rightarrow> (json list \<times> string) option"
  and read_members :: "nat \<Rightarrow> nat \<Rightarrow> string \<Rightarrow> ((string \<times> json) list \<times> string) option" where
  "read_value 0 d s = None"
| "read_value (Suc n) d s =
     (case skip_space s of
        [] \<Rightarrow> None
      | c # r \<Rightarrow>
          if c = json_quote then map_option (\<lambda>(a, t). (JStr a, t)) (json_scan r)
          else if c = CHR 0x7B then
            (if d = 0 then None
             else case skip_space r of
               x # t \<Rightarrow> if x = CHR 0x7D then Some (JObj [], t)
                       else map_option (\<lambda>(m, u). (JObj m, u)) (read_members n (d - 1) r)
             | [] \<Rightarrow> None)
          else if c = CHR ''['' then
            (if d = 0 then None
             else case skip_space r of
               x # t \<Rightarrow> if x = CHR '']'' then Some (JArr [], t)
                       else map_option (\<lambda>(m, u). (JArr m, u)) (read_elems n (d - 1) r)
             | [] \<Rightarrow> None)
          else if c = CHR ''t'' then read_literal ''true'' (JBool True) (c # r)
          else if c = CHR ''f'' then read_literal ''false'' (JBool False) (c # r)
          else if c = CHR ''n'' then read_literal ''null'' JNull (c # r)
          else map_option (\<lambda>(a, t). (JNum a, t)) (read_number (c # r)))"
| "read_elems 0 d s = None"
| "read_elems (Suc n) d s =
     (case read_value n d s of
        None \<Rightarrow> None
      | Some (v, t) \<Rightarrow>
          (case skip_space t of
             x # u \<Rightarrow>
               if x = CHR '','' then map_option (\<lambda>(vs, w). (v # vs, w)) (read_elems n d u)
               else if x = CHR '']'' then Some ([v], u) else None
           | [] \<Rightarrow> None))"
| "read_members 0 d s = None"
| "read_members (Suc n) d s =
     (case skip_space s of
        q # r \<Rightarrow>
          if q \<noteq> json_quote then None
          else (case json_scan r of
            None \<Rightarrow> None
          | Some (k, t) \<Rightarrow>
              (case skip_space t of
                 x # u \<Rightarrow>
                   if x \<noteq> CHR '':'' then None
                   else (case read_value n d u of
                     None \<Rightarrow> None
                   | Some (v, w) \<Rightarrow>
                       (case skip_space w of
                          y # z \<Rightarrow>
                            if y = CHR '','' then map_option (\<lambda>(m, e). ((k, v) # m, e)) (read_members n d z)
                            else if y = CHR 0x7D then Some ([(k, v)], z) else None
                        | [] \<Rightarrow> None))
               | [] \<Rightarrow> None))
      | [] \<Rightarrow> None)"

definition maxNestingDepth :: nat where "maxNestingDepth = 10000"

definition json_read :: "string \<Rightarrow> json option" where
  "json_read s =
     (case read_value (Suc (2 * length s)) maxNestingDepth s of
        Some (v, r) \<Rightarrow> if skip_space r = [] then Some v else None
      | None \<Rightarrow> None)"

section \<open>What is written is read\<close>

lemma skip_space_simps [simp]:
  "skip_space [] = []" "skip_space (c # s) = (if json_space c then skip_space s else c # s)"
  by (simp_all add: skip_space_def)

lemma not_space [simp]:
  "\<not> json_space json_quote" "\<not> json_space (CHR 0x7B)" "\<not> json_space (CHR 0x7D)" "\<not> json_space (CHR ''['')"
  "\<not> json_space (CHR '']'')" "\<not> json_space (CHR '','')" "\<not> json_space (CHR '':'')" "\<not> json_space (CHR ''t'')"
  "\<not> json_space (CHR ''f'')" "\<not> json_space (CHR ''n'')" "\<not> json_space (CHR ''-'')"
  by (simp_all add: json_space_def)

text \<open>What may follow a value.\<close>

definition stops :: "string \<Rightarrow> bool" where
  "stops r \<longleftrightarrow> r = [] \<or> hd r = CHR '','' \<or> hd r = CHR '']'' \<or> hd r = CHR 0x7D"

lemma stops_simps [simp]: "stops []" "stops (CHR '','' # r)" "stops (CHR '']'' # r)" "stops (CHR 0x7D # r)"
  by (simp_all add: stops_def)

lemma digits_stop: "ds \<noteq> [] \<Longrightarrow> \<forall>c \<in> set ds. json_digit c \<Longrightarrow> stops r \<Longrightarrow> read_digits (ds @ r) = Some (ds, r)"
proof -
  assume a: "ds \<noteq> []" "\<forall>c \<in> set ds. json_digit c" "stops r"
  have "takeWhile json_digit r = []"
    using a(3) by (cases r) (auto simp: stops_def json_digit_def code_in_def)
  then have "takeWhile json_digit (ds @ r) = ds" using a(2) by (subst takeWhile_append2) auto
  then show ?thesis using a(1) by (simp add: read_digits_def Let_def)
qed

lemma nat_str_lead: "0 < n \<Longrightarrow> hd (nat_str n) \<noteq> CHR ''0''"
proof (induction n rule: nat_str.induct)
  case (1 n)
  show ?case
  proof (cases "n < 10")
    case True
    have "chr_code (char_of (48 + n)) \<noteq> chr_code (CHR ''0'')" using True 1 by (simp add: of_char_of)
    then have "char_of (48 + n) \<noteq> CHR ''0''" by metis
    then show ?thesis using True by (simp add: nat_str.simps [of n])
  next
    case False
    then show ?thesis using 1 by (simp add: nat_str.simps [of n])
  qed
qed

lemma nat_str_zero: "nat_str 0 = ''0''"
  by (simp add: nat_str.simps char_of_def bit_0)

lemma read_whole_nat: "stops r \<Longrightarrow> read_whole (nat_str n @ r) = Some (nat_str n, r)"
proof -
  assume r: "stops r"
  obtain c s where cs: "nat_str n = c # s" by (cases "nat_str n") auto
  have d: "\<forall>c \<in> set (nat_str n). json_digit c" using nat_str_digit by (auto simp: json_digit_def code_in_def)
  show ?thesis
  proof (cases "n = 0")
    case True
    then show ?thesis by (simp add: read_whole_def nat_str_zero)
  next
    case False
    then have "c \<noteq> CHR ''0''" using nat_str_lead [of n] cs by simp
    then show ?thesis using digits_stop [OF _ d r] cs by (simp add: read_whole_def)
  qed
qed

lemma no_fraction: "stops r \<Longrightarrow> read_fraction r = Some ([], r) \<and> read_exponent r = Some ([], r)"
  by (cases r) (auto simp: read_fraction_def read_exponent_def stops_def)

lemma read_number_int: "stops r \<Longrightarrow> read_number (int_str i @ r) = Some (int_str i, r)"
proof -
  assume r: "stops r"
  obtain c s where cs: "nat_str (nat i) = c # s" by (cases "nat_str (nat i)") auto
  then have "c \<noteq> CHR ''-''" using hd_nat_str [of "nat i"] by simp
  moreover have "read_whole (c # s @ r) = Some (c # s, r)" using read_whole_nat [OF r, of "nat i"] cs by simp
  ultimately show ?thesis using read_whole_nat [OF r, of "nat (- i)"] no_fraction [OF r] cs
    by (simp add: read_number_def int_str_def then_read_def scan_push_def)
qed

text \<open>The values the program writes: their numbers are integers.\<close>

fun json_ok :: "json \<Rightarrow> bool" where
  "json_ok (JNum n) =
     (case digits_val 0 (if n \<noteq> [] \<and> hd n = CHR ''-'' then tl n else n) of
        None \<Rightarrow> False | Some k \<Rightarrow> n = int_str (int k) \<or> n = int_str (- int k))"
| "json_ok (JArr vs) = list_all json_ok vs"
| "json_ok (JObj m) = list_all (\<lambda>(k, v). json_ok v) m"
| "json_ok v = True"

fun json_depth :: "json \<Rightarrow> nat" where
  "json_depth (JArr vs) = Suc (foldr max (map json_depth vs) 0)"
| "json_depth (JObj m) = Suc (foldr max (map (\<lambda>(k, v). json_depth v) m) 0)"
| "json_depth v = 0"

text \<open>Reading with fuel enough.\<close>

definition reads :: "(nat \<Rightarrow> 'a option) \<Rightarrow> 'a \<Rightarrow> bool" where
  "reads f x \<longleftrightarrow> (\<exists>N. \<forall>n \<ge> N. f n = Some x)"

lemma reads_mono: "reads f x \<Longrightarrow> (\<And>n. f n = Some x \<Longrightarrow> g (Suc n) = Some y) \<Longrightarrow> reads g y"
proof -
  assume a: "reads f x" "\<And>n. f n = Some x \<Longrightarrow> g (Suc n) = Some y"
  then obtain N where N: "\<forall>n \<ge> N. f n = Some x" by (auto simp: reads_def)
  have "g n = Some y" if "Suc N \<le> n" for n using a(2) [of "n - 1"] N that by (cases n) auto
  then show ?thesis by (auto simp: reads_def)
qed

lemma reads_both: "reads f x \<Longrightarrow> reads g y \<Longrightarrow> (\<And>n. f n = Some x \<Longrightarrow> g n = Some y \<Longrightarrow> h (Suc n) = Some z) \<Longrightarrow> reads h z"
proof -
  assume a: "reads f x" "reads g y" "\<And>n. f n = Some x \<Longrightarrow> g n = Some y \<Longrightarrow> h (Suc n) = Some z"
  then obtain N M where N: "\<forall>n \<ge> N. f n = Some x" "\<forall>n \<ge> M. g n = Some y" by (auto simp: reads_def)
  have "h n = Some z" if "Suc (max N M) \<le> n" for n using a(3) [of "n - 1"] N that by (cases n) auto
  then show ?thesis by (auto simp: reads_def)
qed

lemma reads_at_once: "(\<And>n. f (Suc n) = Some x) \<Longrightarrow> reads f x"
  unfolding reads_def by (metis Suc_le_D)

lemma int_str_chars: "x \<in> set (int_str i) \<Longrightarrow> x = CHR ''-'' \<or> json_digit x"
  using nat_str_digit [of x "nat i"] nat_str_digit [of x "nat (- i)"]
  by (auto simp: int_str_def json_digit_def code_in_def split: if_splits)

lemma number_starts:
  assumes "c = CHR ''-'' \<or> json_digit c"
  shows "\<not> json_space c" "c \<noteq> json_quote" "c \<noteq> CHR 0x7B" "c \<noteq> CHR ''[''" "c \<noteq> CHR ''t''" "c \<noteq> CHR ''f''" "c \<noteq> CHR ''n''"
    "c \<noteq> CHR 0x7D" "c \<noteq> CHR '']''"
proof -
  have "chr_code c = 45 \<or> 48 \<le> chr_code c \<and> chr_code c \<le> 57"
    using assms by (auto simp: json_digit_def code_in_def)
  then show "\<not> json_space c" "c \<noteq> json_quote" "c \<noteq> CHR 0x7B" "c \<noteq> CHR ''[''" "c \<noteq> CHR ''t''" "c \<noteq> CHR ''f''" "c \<noteq> CHR ''n''"
    "c \<noteq> CHR 0x7D" "c \<noteq> CHR '']''"
    by (auto simp: json_space_def)
qed

lemma int_str_starts: "\<exists>c t. int_str i = c # t \<and> (c = CHR ''-'' \<or> json_digit c)"
proof -
  obtain c t where "int_str i = c # t" by (cases "int_str i") (auto simp: int_str_def split: if_splits)
  then show ?thesis using int_str_chars [of c i] by simp
qed

lemma write_starts:
  "json_ok v \<Longrightarrow> \<exists>c t. json_write v = c # t \<and> \<not> json_space c \<and> c \<noteq> CHR 0x7D \<and> c \<noteq> CHR '']''"
proof (cases v)
  case (JNum n)
  assume "json_ok v"
  then obtain i where n: "n = int_str i" by (auto simp: JNum split: option.splits)
  obtain c t where "int_str i = c # t" "c = CHR ''-'' \<or> json_digit c" using int_str_starts by blast
  then show ?thesis using n JNum number_starts [of c] by simp
qed (auto simp: json_str_def json_space_def)

lemma int_str_ok: "json_ok (JNum (int_str i))"
  using hd_nat_str [of "nat i"] by (simp add: digits_val_nat_str int_str_def)

lemma read_int_value: "stops r \<Longrightarrow> read_value (Suc n) d (int_str i @ r) = Some (JNum (int_str i), r)"
proof -
  assume r: "stops r"
  obtain c t where ct: "int_str i = c # t" "c = CHR ''-'' \<or> json_digit c" using int_str_starts by blast
  then show ?thesis using read_number_int [OF r, of i] number_starts [OF ct(2)] by simp
qed

lemma read_elems_written:
  assumes "\<And>v r. v \<in> set vs \<Longrightarrow> stops r \<Longrightarrow> reads (\<lambda>n. read_value n d (json_write v @ r)) (json_repaired v, r)" "vs \<noteq> []"
  shows "reads (\<lambda>n. read_elems n d (join_on (CHR '','') (map json_write vs) @ CHR '']'' # r)) (map json_repaired vs, r)"
  using assms
proof (induction vs)
  case (Cons v vs)
  show ?case
  proof (cases "vs = []")
    case True
    have "reads (\<lambda>n. read_value n d (json_write v @ CHR '']'' # r)) (json_repaired v, CHR '']'' # r)"
      using Cons.prems(1) [of v "CHR '']'' # r"] by simp
    then show ?thesis by (rule reads_mono) (simp add: True)
  next
    case False
    define u where "u = join_on (CHR '','') (map json_write vs) @ CHR '']'' # r"
    have "reads (\<lambda>n. read_value n d (json_write v @ CHR '','' # u)) (json_repaired v, CHR '','' # u)"
      using Cons.prems(1) [of v "CHR '','' # u"] by simp
    moreover have "reads (\<lambda>n. read_elems n d u) (map json_repaired vs, r)"
      unfolding u_def using Cons.IH Cons.prems(1) False by simp
    ultimately show ?thesis by (rule reads_both) (simp add: False join_on_Cons u_def)
  qed
qed simp

lemma read_members_written:
  assumes "\<And>k v r. (k, v) \<in> set m \<Longrightarrow> stops r \<Longrightarrow> reads (\<lambda>n. read_value n d (json_write v @ r)) (json_repaired v, r)" "m \<noteq> []"
  shows "reads (\<lambda>n. read_members n d (join_on (CHR '','') (map (\<lambda>(k, v). json_str k @ CHR '':'' # json_write v) m) @ CHR 0x7D # r))
    (map (\<lambda>(k, v). (repaired k, json_repaired v)) m, r)"
  using assms
proof (induction m)
  case (Cons x m)
  obtain k v where x: "x = (k, v)" by fastforce
  show ?case
  proof (cases "m = []")
    case True
    have "reads (\<lambda>n. read_value n d (json_write v @ CHR 0x7D # r)) (json_repaired v, CHR 0x7D # r)"
      using Cons.prems(1) [of k v "CHR 0x7D # r"] x by simp
    then show ?thesis by (rule reads_mono) (simp add: True x json_str_def json_scan_text)
  next
    case False
    define u where "u = join_on (CHR '','') (map (\<lambda>(k, v). json_str k @ CHR '':'' # json_write v) m) @ CHR 0x7D # r"
    have "reads (\<lambda>n. read_value n d (json_write v @ CHR '','' # u)) (json_repaired v, CHR '','' # u)"
      using Cons.prems(1) [of k v "CHR '','' # u"] x by simp
    moreover have "reads (\<lambda>n. read_members n d u) (map (\<lambda>(k, v). (repaired k, json_repaired v)) m, r)"
      unfolding u_def by (rule Cons.IH [OF Cons.prems(1) False]) auto
    ultimately show ?thesis by (rule reads_both) (simp add: False x join_on_Cons u_def json_str_def json_scan_text)
  qed
qed simp

lemma foldr_max: "x \<in> set xs \<Longrightarrow> x \<le> foldr max xs (0::nat)"
  by (induction xs) auto

lemma read_written:
  "json_ok v \<Longrightarrow> json_depth v \<le> d \<Longrightarrow> stops r \<Longrightarrow> reads (\<lambda>n. read_value n d (json_write v @ r)) (json_repaired v, r)"
proof (induction v arbitrary: d r)
  case JNull
  show ?case by (rule reads_at_once) (simp add: read_literal_def cut_prefix_def has_prefix_def)
next
  case (JBool b)
  show ?case by (rule reads_at_once) (simp add: read_literal_def cut_prefix_def has_prefix_def)
next
  case (JNum n)
  then obtain i where "n = int_str i" by (auto split: option.splits)
  then show ?case using read_int_value [OF JNum.prems(3)] by (intro reads_at_once) simp
next
  case (JStr s)
  show ?case by (rule reads_at_once) (simp add: json_str_def json_scan_text)
next
  case (JArr vs)
  then obtain d' where d: "d = Suc d'" by (cases d) auto
  show ?case
  proof (cases "vs = []")
    case True
    then show ?thesis by (intro reads_at_once) (simp add: d)
  next
    case False
    have "json_ok v \<and> json_depth v \<le> d'" if "v \<in> set vs" for v
      using JArr.prems that foldr_max [of "json_depth v" "map json_depth vs"] d by (auto simp: list_all_iff)
    then have *: "reads (\<lambda>n. read_elems n d' (join_on (CHR '','') (map json_write vs) @ CHR '']'' # r)) (map json_repaired vs, r)"
      using JArr.IH False by (intro read_elems_written) blast+
    obtain v ws where vs: "vs = v # ws" using False by (cases vs) auto
    obtain c t where "json_write v = c # t" "\<not> json_space c" "c \<noteq> CHR '']''"
      using write_starts [of v] JArr.prems(1) vs by auto
    then have "\<exists>u. skip_space (join_on (CHR '','') (map json_write vs) @ CHR '']'' # r) = c # u"
      by (cases ws) (simp_all add: vs)
    then show ?thesis using \<open>c \<noteq> CHR '']''\<close> by (intro reads_mono [OF *]) (auto simp: d)
  qed
next
  case (JObj m)
  then obtain d' where d: "d = Suc d'" by (cases d) auto
  show ?case
  proof (cases "m = []")
    case True
    then show ?thesis by (intro reads_at_once) (simp add: d)
  next
    case False
    have ok: "json_ok v \<and> json_depth v \<le> d'" if "(k, v) \<in> set m" for k v
      using JObj.prems that foldr_max [of "json_depth v" "map (\<lambda>(k, v). json_depth v) m"] d
      by (force simp: list_all_iff image_iff)
    then have *: "reads (\<lambda>n. read_members n d' (join_on (CHR '','') (map (\<lambda>(k, v). json_str k @ CHR '':'' # json_write v) m)
        @ CHR 0x7D # r)) (map (\<lambda>(k, v). (repaired k, json_repaired v)) m, r)"
      using JObj.IH False by (intro read_members_written) (auto simp: ok)
    obtain k v ws where "m = (k, v) # ws" using False by (cases m) auto
    then have "\<exists>u. skip_space (join_on (CHR '','') (map (\<lambda>(k, v). json_str k @ CHR '':'' # json_write v) m) @ CHR 0x7D # r)
        = json_quote # u"
      by (cases ws) (simp_all add: json_str_def)
    then show ?thesis by (intro reads_mono [OF *]) (auto simp: d)
  qed
qed

text \<open>What is written is well formed, whatever the strings in it.\<close>

lemma repaired_ascii_all: "\<forall>x \<in> set p. chr_code x < 0x80 \<Longrightarrow> repaired p = p"
  using repaired_ascii [of p "[]"] by (simp add: repaired.simps)

lemma int_str_ascii: "x \<in> set (int_str i) \<Longrightarrow> chr_code x < 0x80"
  using int_str_chars [of x i] by (auto simp: json_digit_def code_in_def)

lemma repaired_join:
  "(\<And>x t. x \<in> set xs \<Longrightarrow> repaired (f x @ t) = f x @ repaired t) \<Longrightarrow>
     repaired (join_on (CHR '','') (map f xs) @ t) = join_on (CHR '','') (map f xs) @ repaired t"
proof (induction xs arbitrary: t)
  case (Cons x xs)
  then show ?case by (cases "xs = []") (simp_all add: join_on_Cons repaired.simps(2))
qed simp

lemma repaired_written: "json_ok v \<Longrightarrow> repaired (json_write v @ t) = json_write v @ repaired t"
proof (induction v arbitrary: t)
  case (JNum n)
  then obtain i where "n = int_str i" by (auto split: option.splits)
  then show ?case using repaired_ascii [of "int_str i" t] int_str_ascii by simp
next
  case (JArr vs)
  have "repaired (json_write v @ u) = json_write v @ repaired u" if "v \<in> set vs" for v u
    using JArr.IH [OF that, of u] JArr.prems that by (simp add: list_all_iff)
  then show ?case using repaired_join [of vs json_write] by (simp add: repaired.simps(2))
next
  case (JObj m)
  define f where "f = (\<lambda>(k, v). json_str k @ CHR '':'' # json_write v)"
  have "repaired (f x @ u) = f x @ repaired u" if x: "x \<in> set m" for x u
  proof -
    obtain k v where kv: "x = (k, v)" by fastforce
    have "json_ok v" using JObj.prems x kv by (auto simp: list_all_iff)
    then have "repaired (json_write v @ u) = json_write v @ repaired u" using JObj.IH [OF x, of v u] kv by simp
    then show ?thesis by (simp add: f_def kv json_str_def repaired_text repaired.simps(2))
  qed
  then have "repaired (join_on (CHR '','') (map f m) @ u) = join_on (CHR '','') (map f m) @ repaired u" for u
    by (rule repaired_join)
  then show ?case by (simp add: f_def repaired.simps(2))
qed (simp_all add: json_str_def repaired_text repaired.simps(2))

lemma repaired_json: "json_ok v \<Longrightarrow> repaired (json_write v) = json_write v"
  using repaired_written [of v "[]"] by (simp add: repaired.simps)

section \<open>Fuel\<close>

text \<open>Every reader takes at least a byte, so fuel of twice the text and one is all that is ever used.\<close>

lemma scan_push_Some: "scan_push p x = Some (a, t) \<longleftrightarrow> (\<exists>b. x = Some (b, t) \<and> a = p @ b)"
  by (auto simp: scan_push_def split: option.splits)

lemma json_scan_shrinks: "json_scan s = Some (a, t) \<Longrightarrow> length t < length s"
proof (induction s arbitrary: a t rule: json_scan.induct)
  case (2 c s)
  show ?case
  proof (cases "c = json_escape")
    case True
    then obtain e r where s: "s = e # r" using "2.prems" by (cases s) (auto simp: json_scan.simps(2))
    show ?thesis
    proof (cases "e = CHR ''u''")
      case u: True
      then obtain p q b where q: "read_unit r = Some (p, q)" "json_scan q = Some (b, t)"
        using "2.prems" True s by (auto simp: json_scan.simps(2) scan_push_Some split: option.splits)
      have "length t < length q" using "2.IH"(1) True s u q by simp
      then show ?thesis using read_unit_shrinks [OF q(1)] s by simp
    next
      case False
      then obtain x b where "read_escape e = Some x" "json_scan r = Some (b, t)"
        using "2.prems" True s by (auto simp: json_scan.simps(2) scan_push_Some split: option.splits)
      then show ?thesis using "2.IH"(2) [of e r x] True s False by fastforce
    qed
  next
    case False
    have "length (drop (rune_len (c # s)) (c # s)) < length (c # s)" using rune_len_pos [of "c # s"] by simp
    then show ?thesis using "2.prems" "2.IH"(3-5) False
      by (fastforce simp: json_scan.simps(2) scan_push_Some split: if_splits)
  qed
qed (simp add: json_scan.simps)

lemma skip_space_le: "length (skip_space s) \<le> length s"
  by (simp add: skip_space_def length_dropWhile_le)

lemma read_digits_shrinks: "read_digits s = Some (a, t) \<Longrightarrow> length t < length s"
proof -
  assume a: "read_digits s = Some (a, t)"
  then have "takeWhile json_digit s \<noteq> []" "t = drop (length (takeWhile json_digit s)) s"
    by (auto simp: read_digits_def Let_def split: if_splits)
  then show ?thesis by (cases s) auto
qed

lemma read_whole_shrinks: "read_whole s = Some (a, t) \<Longrightarrow> length t < length s"
  by (auto simp: read_whole_def dest: read_digits_shrinks split: list.splits if_splits)

lemma read_tail_le:
  "read_fraction s = Some (a, t) \<Longrightarrow> length t \<le> length s"
  "read_exponent s = Some (a, t) \<Longrightarrow> length t \<le> length s"
  by (auto simp: read_fraction_def read_exponent_def scan_push_Some dest!: read_digits_shrinks split: list.splits if_splits)

lemma read_number_shrinks: "read_number s = Some (a, t) \<Longrightarrow> length t < length s"
proof -
  assume "read_number s = Some (a, t)"
  then obtain b u c w where 1: "(case s of c # r \<Rightarrow> if c = CHR ''-'' then scan_push [c] (read_whole r) else read_whole s
      | [] \<Rightarrow> None) = Some (b, u)" "read_fraction u = Some (c, w)" "\<exists>e. read_exponent w = Some (e, t)"
    by (auto simp: read_number_def then_read_def scan_push_Some split: option.splits)
  then have "length u < length s"
    by (auto simp: scan_push_Some dest!: read_whole_shrinks split: list.splits if_splits)
  then show ?thesis using 1 read_tail_le by fastforce
qed

lemma read_literal_shrinks: "w \<noteq> [] \<Longrightarrow> read_literal w v s = Some (x, t) \<Longrightarrow> length t < length s"
  by (auto simp: read_literal_def cut_prefix_Some split: option.splits)

lemma read_shrinks:
  "read_value n d s = Some (v, t) \<Longrightarrow> length t < length s"
  "read_elems n d s = Some (vs, t) \<Longrightarrow> length t < length s"
  "read_members n d s = Some (m, t) \<Longrightarrow> length t < length s"
proof (induction n d s and n d s and n d s arbitrary: v t and vs t and m t rule: read_value_read_elems_read_members.induct)
  case (2 n d s)
  obtain c r where cr: "skip_space s = c # r" using "2.prems" by (cases "skip_space s") auto
  have le: "length (c # r) \<le> length s" using skip_space_le [of s] cr by simp
  show ?case
  proof (cases "c = CHR 0x7B \<or> c = CHR ''[''")
    case True
    then obtain x q where xq: "skip_space r = x # q" using "2.prems" cr by (cases "skip_space r") (auto split: if_splits)
    have "length (x # q) \<le> length r" using skip_space_le [of r] xq by simp
    then show ?thesis using True "2.prems" "2.IH" cr xq le
      by (fastforce split: if_splits)
  next
    case False
    then show ?thesis using "2.prems" cr le
      by (auto dest!: json_scan_shrinks read_number_shrinks read_literal_shrinks [rotated] split: if_splits)
  qed
next
  case (4 n d s)
  then obtain v t' x u where 1: "read_value n d s = Some (v, t')" "skip_space t' = x # u"
    by (auto split: option.splits list.splits)
  have "length t' < length s" using "4.IH"(1) 1 by simp
  then have "length u < length s" using skip_space_le [of t'] 1 by simp
  then show ?case using "4.prems" "4.IH"(2) 1 by (fastforce split: if_splits)
next
  case (6 n d s)
  then obtain q r k t' x u v w y z where 1: "skip_space s = q # r" "json_scan r = Some (k, t')" "skip_space t' = x # u"
    "read_value n d u = Some (v, w)" "skip_space w = y # z" "q = json_quote" "x = CHR '':''"
    by (auto split: option.splits list.splits if_splits)
  have "length w < length u" using "6.IH"(1) 1 by simp
  then have "length z < length s"
    using skip_space_le [of s] skip_space_le [of t'] skip_space_le [of w] json_scan_shrinks [OF 1(2)] 1 by simp
  then show ?case using "6.prems" "6.IH"(2) 1 by (fastforce split: if_splits)
qed simp_all

lemma read_fuel_all:
  "(\<forall>d s k. 2 * length s < n \<and> 2 * length s < k \<longrightarrow> read_value n d s = read_value k d s)
   \<and> (\<forall>d s k. 2 * length s + 1 < n \<and> 2 * length s + 1 < k \<longrightarrow> read_elems n d s = read_elems k d s)
   \<and> (\<forall>d s k. 2 * length s + 1 < n \<and> 2 * length s + 1 < k \<longrightarrow> read_members n d s = read_members k d s)"
proof (induction n)
  case (Suc n)
  have v: "read_value n d s = read_value k d s" if "2 * length s < n" "2 * length s < k" for d s k using Suc that by blast
  have e: "read_elems n d s = read_elems k d s" if "2 * length s + 1 < n" "2 * length s + 1 < k" for d s k
    using Suc that by blast
  have m: "read_members n d s = read_members k d s" if "2 * length s + 1 < n" "2 * length s + 1 < k" for d s k
    using Suc that by blast
  have vals: "read_value (Suc n) d s = read_value (Suc k) d s" if l: "2 * length s < Suc n" "2 * length s < Suc k" for d s k
  proof (cases "skip_space s")
    case (Cons c r)
    then have "length r < length s" using skip_space_le [of s] by simp
    then have "2 * length r + 1 < n" "2 * length r + 1 < k" using l by simp_all
    then have eq: "read_elems n (d - 1) r = read_elems k (d - 1) r" "read_members n (d - 1) r = read_members k (d - 1) r"
      by (rule e, rule m)
    show ?thesis unfolding read_value.simps Cons list.case eq ..
  qed simp
  have elems: "read_elems (Suc n) d s = read_elems (Suc k) d s" if l: "2 * length s + 1 < Suc n" "2 * length s + 1 < Suc k" for d s k
  proof -
    have eq: "read_value n d s = read_value k d s" by (rule v) (use l in simp_all)
    show ?thesis
    proof (cases "read_value k d s")
      case (Some p)
      obtain x t where p: "p = (x, t)" by fastforce
      have "length t < length s" using read_shrinks(1) Some p by blast
      show ?thesis
      proof (cases "skip_space t")
        case (Cons c u)
        then have "length u < length s" using skip_space_le [of t] \<open>length t < length s\<close> by simp
        then show ?thesis using e [of u k d] l Some p Cons eq by simp
      qed (simp add: eq Some p)
    qed (simp add: eq)
  qed
  have members: "read_members (Suc n) d s = read_members (Suc k) d s" if l: "2 * length s + 1 < Suc n" "2 * length s + 1 < Suc k" for d s k
  proof -
    have step: "read_members (Suc i) d s = read_members (Suc j) d s"
      if "\<And>u. length u < length s \<Longrightarrow> read_value i d u = read_value j d u"
        "\<And>u. length u < length s \<Longrightarrow> read_members i d u = read_members j d u" for i j
    proof (cases "\<exists>r key t u. skip_space s = json_quote # r \<and> json_scan r = Some (key, t) \<and> skip_space t = CHR '':'' # u")
      case True
      then obtain r key t u where 1: "skip_space s = json_quote # r" "json_scan r = Some (key, t)" "skip_space t = CHR '':'' # u"
        by blast
      have u: "length u < length s"
        using skip_space_le [of s] skip_space_le [of t] json_scan_shrinks [OF 1(2)] 1 by simp
      show ?thesis
      proof (cases "read_value j d u")
        case (Some p)
        obtain x w where p: "p = (x, w)" by fastforce
        have "length z < length s" if "skip_space w = y # z" for y z
          using read_shrinks(1) [of j d u x w] Some p u skip_space_le [of w] that by simp
        then show ?thesis using that(1) [OF u] that(2) 1 Some p by (simp split: list.splits)
      qed (use that(1) [OF u] 1 in simp)
    qed (auto split: list.splits option.splits)
    show ?thesis using l by (intro step v m) simp_all
  qed
  have "\<exists>j. k = Suc j" if "a < k" for a k :: nat using that by (cases k) auto
  then show ?case using vals elems members by metis
qed simp

lemma json_roundtrip:
  assumes "json_ok v" "json_depth v \<le> maxNestingDepth"
  shows "json_read (json_write v) = Some (json_repaired v)"
proof -
  obtain N where N: "\<forall>n \<ge> N. read_value n maxNestingDepth (json_write v) = Some (json_repaired v, [])"
    using read_written [OF assms, of "[]"] by (auto simp: reads_def)
  define k where "k = max N (Suc (2 * length (json_write v)))"
  have "read_value (Suc (2 * length (json_write v))) maxNestingDepth (json_write v) = read_value k maxNestingDepth (json_write v)"
    using read_fuel_all [of "Suc (2 * length (json_write v))"] unfolding k_def by (metis lessI max.strict_coboundedI2)
  also have "\<dots> = Some (json_repaired v, [])" using N by (simp add: k_def)
  finally show ?thesis by (simp add: json_read_def)
qed

section \<open>Into a structure\<close>

text \<open>
  A field's values are the members that carry its name, in any case, in their order.  One of the wrong type makes the
  whole an error, even when another follows it.
\<close>

type_synonym members = "(string \<times> json) list"

definition field_vals :: "string \<Rightarrow> members \<Rightarrow> json list" where
  "field_vals f m = map snd (filter (\<lambda>(k, v). equal_fold k f) m)"

definition wrong_type :: "(json \<Rightarrow> 'a option) \<Rightarrow> json \<Rightarrow> bool" where
  "wrong_type conv v \<longleftrightarrow> v \<noteq> JNull \<and> conv v = None"

text \<open>A plain field keeps its zero at \<open>null\<close>; a pointer is set to nil by it.\<close>

definition plain_field :: "'a \<Rightarrow> (json \<Rightarrow> 'a option) \<Rightarrow> string \<Rightarrow> members \<Rightarrow> 'a option" where
  "plain_field z conv f m =
     (let vs = field_vals f m; ws = filter (\<lambda>v. v \<noteq> JNull) vs
      in if list_ex (wrong_type conv) vs then None else if ws = [] then Some z else conv (last ws))"

definition pointer_field :: "(json \<Rightarrow> 'a option) \<Rightarrow> string \<Rightarrow> members \<Rightarrow> 'a option option" where
  "pointer_field conv f m =
     (let vs = field_vals f m
      in if list_ex (wrong_type conv) vs then None
         else if vs = [] \<or> last vs = JNull then Some None else map_option Some (conv (last vs)))"

text \<open>A structure behind a pointer, given more than once, is filled in again; \<open>null\<close> forgets what was there.\<close>

fun members_of :: "json \<Rightarrow> members option" where
  "members_of (JObj m) = Some m"
| "members_of v = None"

definition struct_field :: "(members \<Rightarrow> 'a option) \<Rightarrow> string \<Rightarrow> members \<Rightarrow> 'a option option" where
  "struct_field conv f m =
     (let vs = field_vals f m; ws = rev (takeWhile (\<lambda>v. v \<noteq> JNull) (rev vs))
      in if list_ex (wrong_type (\<lambda>v. Option.bind (members_of v) conv)) vs then None
         else if ws = [] then Some None
         else map_option Some (conv (concat (map (\<lambda>v. case members_of v of None \<Rightarrow> [] | Some x \<Rightarrow> x) ws))))"

definition as_string :: "json \<Rightarrow> string option" where
  "as_string v = (case v of JStr s \<Rightarrow> Some s | _ \<Rightarrow> None)"

definition as_bool :: "json \<Rightarrow> bool option" where
  "as_bool v = (case v of JBool b \<Rightarrow> Some b | _ \<Rightarrow> None)"

definition as_int :: "nat \<Rightarrow> json \<Rightarrow> int option" where
  "as_int bits v = (case v of JNum n \<Rightarrow> parse_int bits n | _ \<Rightarrow> None)"

definition as_strings :: "json \<Rightarrow> string list option" where
  "as_strings v =
     (case v of
        JArr vs \<Rightarrow>
          (if list_ex (wrong_type as_string) vs then None
           else Some (map (\<lambda>x. case x of JStr s \<Rightarrow> s | _ \<Rightarrow> '''') vs))
      | _ \<Rightarrow> None)"

text \<open>\<open>Unmarshal\<close> into a structure; the bytes may be a member kept raw, which is nothing when it is absent.\<close>

definition into_struct :: "(members \<Rightarrow> 'a option) \<Rightarrow> json option \<Rightarrow> 'a option" where
  "into_struct conv p =
     (case p of None \<Rightarrow> None | Some v \<Rightarrow> (case v of JNull \<Rightarrow> conv [] | JObj m \<Rightarrow> conv m | _ \<Rightarrow> None))"

definition raw_field :: "string \<Rightarrow> members \<Rightarrow> json option" where
  "raw_field f m = (let vs = field_vals f m in if vs = [] then None else Some (last vs))"

lemma field_vals_simps [simp]:
  "field_vals f [] = []"
  "field_vals f ((k, v) # m) = (if equal_fold k f then v # field_vals f m else field_vals f m)"
  "field_vals f (m @ n) = field_vals f m @ field_vals f n"
  by (simp_all add: field_vals_def)

lemma as_simps [simp]:
  "as_string (JStr s) = Some s" "as_bool (JBool b) = Some b" "as_int bits (JNum n) = parse_int bits n"
  "as_strings (JArr (map JStr ss)) = Some ss"
  by (simp_all add: as_string_def as_bool_def as_int_def as_strings_def wrong_type_def list_ex_iff comp_def)

text \<open>Names in ASCII are compared by the codes of their letters.\<close>

definition lower_code :: "char \<Rightarrow> nat" where
  "lower_code c = (if 65 \<le> chr_code c \<and> chr_code c \<le> 90 then chr_code c + 32 else chr_code c)"

lemma lower_code_char: "chr_code c < 0x80 \<Longrightarrow> chr_code (lower_char c) = lower_code c"
  by (auto simp: lower_code_def lower_char_def code_in_def)

lemma equal_fold_codes:
  assumes "ascii_str a" "ascii_str b"
  shows "equal_fold a b \<longleftrightarrow> map lower_code a = map lower_code b"
proof -
  have "map lower_code s = map chr_code (map lower_char s)" if "ascii_str s" for s
    using that by (simp add: ascii_str_def list_all_iff lower_code_char)
  moreover have "map chr_code x = map chr_code y \<longleftrightarrow> x = y" for x y
    by (rule inj_map_eq_map) (simp add: inj_def)
  ultimately show ?thesis using assms by (simp only: equal_fold_def fold_case_ascii)
qed

lemmas name_simps = equal_fold_codes ascii_str_def lower_code_def

lemma one_field:
  assumes "field_vals f m = [v]" "v \<noteq> JNull"
  shows "plain_field z conv f m = conv v" "pointer_field conv f m = map_option Some (conv v)"
    "struct_field sconv f m = map_option Some (Option.bind (members_of v) sconv)"
  using assms by (auto simp: plain_field_def pointer_field_def struct_field_def Let_def wrong_type_def split: option.splits)

lemma no_field:
  assumes "field_vals f m = []"
  shows "plain_field z conv f m = Some z" "pointer_field conv f m = Some None" "struct_field sconv f m = Some None"
  using assms by (simp_all add: plain_field_def pointer_field_def struct_field_def)

text \<open>A structure inside a structure: \<open>null\<close> leaves it, and one given again is filled in again. The elements of a list.\<close>

definition inner_struct :: "(members \<Rightarrow> 'a option) \<Rightarrow> string \<Rightarrow> members \<Rightarrow> 'a option" where
  "inner_struct conv f m =
     (let ws = filter (\<lambda>v. v \<noteq> JNull) (field_vals f m)
      in if list_ex (wrong_type (\<lambda>v. Option.bind (members_of v) conv)) ws then None
         else conv (concat (map (\<lambda>v. case members_of v of None \<Rightarrow> [] | Some x \<Rightarrow> x) ws)))"

fun all_some :: "'a option list \<Rightarrow> 'a list option" where
  "all_some [] = Some []"
| "all_some (x # xs) = (case (x, all_some xs) of (Some a, Some as) \<Rightarrow> Some (a # as) | _ \<Rightarrow> None)"

definition as_list :: "(json \<Rightarrow> 'a option) \<Rightarrow> json \<Rightarrow> 'a list option" where
  "as_list conv v = (case v of JArr vs \<Rightarrow> all_some (map conv vs) | _ \<Rightarrow> None)"

lemma inner_one: "field_vals f m = [JObj x] \<Longrightarrow> inner_struct conv f m = conv x"
  by (auto simp: inner_struct_def Let_def wrong_type_def)

end
