(* ===== verification/Alexa_Request.thy ===== *)
theory Alexa_Request
  imports Alexa_Command Go_Json "HOL-Library.AList"
begin

text \<open>
  What \<open>internal/alexa/command.go\<close> puts on the wire and hands the programs it runs: the constants, the five requests with
  their headers and bodies, the command that extracts the token, and the resolver its HTTP client is given. A request is
  made from the call of \<^theory_text>\<open>Alexa_Command\<close> it belongs to, so that what is proved of the calls of a send is proved of
  what leaves the Dot.
\<close>

section \<open>Names\<close>

definition mapUID :: string where "mapUID = ''32051''"
definition mapDir :: string where "mapDir = ''/data/local/map''"
definition mapJar :: string where "mapJar = mapDir @ ''/mapdump.jar''"
definition mapKey :: string where "mapKey = ''com.amazon.dcp.sso.token.oauth.amazon.refresh_token''"
definition mapMain :: string where "mapMain = ''MapDump''"
definition uaMAP :: string where "uaMAP = ''AmazonWebView/MAPClientLib/130050002/Android/5.1.1/AEOBC''"
definition uaAlexa :: string where "uaAlexa = ''AmazonWebView/AmazonAlexa/2.2.223830.0/Android/5.1.1/AEOBC''"
definition alexaDomain :: string where "alexaDomain = ''amazon.com''"

definition JarInstalled :: "(string \<Rightarrow> bool) \<Rightarrow> bool" where
  "JarInstalled stat = stat mapJar"

text \<open>The argument vector of the extraction: \<open>su\<close> to the user that owns the account, and a shell line with four words in it.\<close>

definition extract_argv :: "(string \<Rightarrow> bool) \<Rightarrow> string list" where
  "extract_argv exists =
     [suPath exists, mapUID, ''-c'',
      ''CLASSPATH='' @ mapJar @ '' app_process '' @ mapDir @ '' '' @ mapMain @ '' '' @ mapKey]"

section \<open>The client\<close>

record alexa_http = ah_jar :: "cookie list"

record alexa_client =
  cl_busy :: bool
  cl_token :: string
  cl_http :: "alexa_http option"

definition NewClient :: alexa_client where
  "NewClient = \<lparr>cl_busy = False, cl_token = '''', cl_http = None\<rparr>"

text \<open>One client for every request, made when it is first needed; a jar of its own for every attempt.\<close>

definition httpClient :: "alexa_client \<Rightarrow> alexa_http \<times> alexa_client" where
  "httpClient a =
     (let h = (case cl_http a of None \<Rightarrow> \<lparr>ah_jar = []\<rparr> | Some h \<Rightarrow> h\<lparr>ah_jar := []\<rparr>)
      in (h, a\<lparr>cl_http := Some h\<rparr>))"

text \<open>\<open>net.JoinHostPort\<close>, and the servers the device's properties name.\<close>

definition JoinHostPort :: "string \<Rightarrow> string \<Rightarrow> string" where
  "JoinHostPort h p =
     (if CHR '':'' \<in> set h \<or> CHR ''%'' \<in> set h then CHR ''['' # h @ '']:'' @ p else h @ CHR '':'' # p)"

definition dns_servers :: "(string \<Rightarrow> string) \<Rightarrow> string list" where
  "dns_servers Getprop =
     concat (map (\<lambda>prop. let s = trim_space (Getprop prop) in if s \<noteq> '''' then [JoinHostPort s ''53''] else [])
       [''net.dns1'', ''net.dns2''])"

datatype dns_error = NoServers | DialFailed string

fun dial_each :: "(string \<Rightarrow> bool) \<Rightarrow> string list \<Rightarrow> dns_error \<Rightarrow> dns_error + string" where
  "dial_each answers [] e = Inl e"
| "dial_each answers (s # ss) e = (if answers s then Inr s else dial_each answers ss (DialFailed s))"

definition dns_dial :: "(string \<Rightarrow> string) \<Rightarrow> (string \<Rightarrow> bool) \<Rightarrow> dns_error + string" where
  "dns_dial Getprop answers =
     (let ss = dns_servers Getprop in if ss = [] then Inl NoServers else dial_each answers ss NoServers)"

section \<open>The requests\<close>

record http_request =
  rq_method :: string
  rq_url :: string
  rq_header :: "(string \<times> string) list"
  rq_body :: "string option"

definition header_set :: "string \<Rightarrow> string \<Rightarrow> http_request \<Rightarrow> http_request" where
  "header_set k v r = r\<lparr>rq_header := AList.update k v (rq_header r)\<rparr>"

definition new_request :: "string \<Rightarrow> string \<Rightarrow> string option \<Rightarrow> http_request" where
  "new_request m u b = \<lparr>rq_method = m, rq_url = u, rq_header = [], rq_body = b\<rparr>"

text \<open>\<open>Encode\<close> writes the form's fields in the order of their keys.\<close>

definition exchange_form :: "string \<Rightarrow> string \<Rightarrow> (string \<times> string) list" where
  "exchange_form token domain =
     [(''app_name'', ''Amazon Alexa''), (''di.os.name'', ''FireOS''), (''domain'', CHR ''.'' # domain),
      (''requested_token_type'', ''auth_cookies''), (''source_token'', token), (''source_token_type'', ''refresh_token'')]"

definition exchange_request :: "string \<Rightarrow> string \<Rightarrow> http_request" where
  "exchange_request token domain =
     header_set ''Accept'' ''*/*'' (header_set ''User-Agent'' uaMAP
       (header_set ''X-Amzn-Identity-Auth-Domain'' ''api.amazon.com''
         (header_set ''Content-Type'' ''application/x-www-form-urlencoded''
           (new_request ''POST'' (''https://api.amazon.com'' @ exchangePath) (Some (form_encode (exchange_form token domain)))))))"

definition alexaRequest :: "string \<Rightarrow> string \<Rightarrow> string option \<Rightarrow> http_request" where
  "alexaRequest m u b =
     header_set ''Connection'' ''keep-alive'' (header_set ''Dnt'' ''1'' (header_set ''Accept-Language'' ''en-US,en;q=0.9''
       (header_set ''Accept'' ''application/json, text/plain, */*'' (header_set ''User-Agent'' uaAlexa (new_request m u b)))))"







definition preview_path :: string where "preview_path = ''/api/behaviors/preview''"


definition alexa_base :: string where "alexa_base = ''https://alexa.'' @ alexaDomain"



section \<open>What a server reads\<close>














lemmas request_defs = new_request_def header_set_def alexaRequest_def alexa_base_def preview_path_def alexaDomain_def exchangePath_def




text \<open>The form of an exchange, read back: its fields and nothing else, whatever is in the token.\<close>

theorem exchange_form_read:
  "case rq_body (exchange_request token domain) of None \<Rightarrow> False
     | Some b \<Rightarrow> form_decode b = map Some (exchange_form token domain)"
  by (simp add: exchange_request_def request_defs form_roundtrip exchange_form_def)

text \<open>The resolver asks only a server a property names, and gives one up only when it did not answer.\<close>

lemma dial_each_answers:
  "case dial_each answers ss e of
     Inr s \<Rightarrow> s \<in> set ss \<and> answers s
   | Inl x \<Rightarrow> \<not> list_ex answers ss \<and> (x = (if ss = [] then e else DialFailed (last ss)))"
proof (induction ss arbitrary: e)
  case (Cons s ss)
  show ?case using Cons [of "DialFailed s"] by (simp split: sum.splits)
qed simp

lemma httpClient_jar: "httpClient a = (h, b) \<Longrightarrow> ah_jar h = [] \<and> cl_http b = Some h \<and> cl_token b = cl_token a"
  by (auto simp: httpClient_def Let_def split: option.splits)

section \<open>What the account's site answers\<close>

text \<open>
  The three bodies the code reads, as \<open>json.Unmarshal\<close> reads them into its structures. The lists of cookies are those of the
  last member of each name; Go leaves their order open.
\<close>

definition read_oauth :: "members \<Rightarrow> (string \<times> string) option" where
  "read_oauth m =
     (case (plain_field '''' as_string ''error'' m, plain_field '''' as_string ''error_description'' m) of
        (Some e, Some d) \<Rightarrow> Some (e, d) | _ \<Rightarrow> None)"

definition read_device :: "members \<Rightarrow> alexa_device option" where
  "read_device m =
     (case (plain_field '''' as_string ''deviceType'' m, plain_field '''' as_string ''serialNumber'' m,
            plain_field '''' as_string ''deviceOwnerCustomerId'' m) of
        (Some t, Some s, Some c) \<Rightarrow> Some \<lparr>DeviceType = t, SerialNumber = s, CustomerID = c\<rparr> | _ \<Rightarrow> None)"

definition read_devices :: "members \<Rightarrow> alexa_device list option" where
  "read_devices m = plain_field [] (as_list (\<lambda>v. into_struct read_device (Some v))) ''devices'' m"

definition read_cookie :: "members \<Rightarrow> cookie option" where
  "read_cookie m =
     (case (plain_field '''' as_string ''Name'' m, plain_field '''' as_string ''Value'' m) of
        (Some n, Some v) \<Rightarrow> Some (n, v) | _ \<Rightarrow> None)"

definition read_cookie_lists :: "members \<Rightarrow> cookie list option" where
  "read_cookie_lists m =
     (case all_some (map (\<lambda>(k, v). if v = JNull then Some [] else as_list (\<lambda>x. into_struct read_cookie (Some x)) v) m) of
        None \<Rightarrow> None
      | Some ls \<Rightarrow> Some (concat (map snd (AList.clearjunk (rev (zip (map fst m) ls))))))"

definition read_exchange :: "members \<Rightarrow> cookie list option" where
  "read_exchange = inner_struct (inner_struct (inner_struct read_cookie_lists ''cookies'') ''tokens'') ''response''"

definition read_body :: "(members \<Rightarrow> 'a option) \<Rightarrow> string \<Rightarrow> 'a option" where
  "read_body conv body = Option.bind (json_read body) (\<lambda>v. into_struct conv (Some v))"

definition alexa_bodies :: alexa_json where
  "alexa_bodies =
     \<lparr>js_error = read_body read_oauth, js_cookies = read_body read_exchange, js_devices = read_body read_devices\<rparr>"

text \<open>The list of devices, written and read back: the fields a device is picked and named by are the ones of the list.\<close>

definition device_json :: "alexa_device \<Rightarrow> json" where
  "device_json d =
     JObj [(''deviceType'', JStr (DeviceType d)), (''serialNumber'', JStr (SerialNumber d)),
           (''deviceOwnerCustomerId'', JStr (CustomerID d))]"

definition device_repaired :: "alexa_device \<Rightarrow> alexa_device" where
  "device_repaired d =
     \<lparr>DeviceType = repaired (DeviceType d), SerialNumber = repaired (SerialNumber d), CustomerID = repaired (CustomerID d)\<rparr>"

lemma repaired_names [simp]:
  "repaired ''deviceType'' = ''deviceType''" "repaired ''serialNumber'' = ''serialNumber''"
  "repaired ''deviceOwnerCustomerId'' = ''deviceOwnerCustomerId''" "repaired ''devices'' = ''devices''"
  by (simp_all add: repaired_ascii_all)

lemma device_back: "into_struct read_device (Some (json_repaired (device_json d))) = Some (device_repaired d)"
proof -
  define m where "m = [(''deviceType'', JStr (repaired (DeviceType d))), (''serialNumber'', JStr (repaired (SerialNumber d))),
           (''deviceOwnerCustomerId'', JStr (repaired (CustomerID d)))]"
  have "field_vals ''deviceType'' m = [JStr (repaired (DeviceType d))]"
    "field_vals ''serialNumber'' m = [JStr (repaired (SerialNumber d))]"
    "field_vals ''deviceOwnerCustomerId'' m = [JStr (repaired (CustomerID d))]"
    by (simp_all add: m_def name_simps)
  then have "read_device m = Some (device_repaired d)" by (simp add: read_device_def one_field device_repaired_def)
  then show ?thesis by (simp add: device_json_def into_struct_def m_def)
qed

theorem devices_read:
  "js_devices alexa_bodies (json_write (JObj [(''devices'', JArr (map device_json ds))])) = Some (map device_repaired ds)"
proof -
  let ?v = "JObj [(''devices'', JArr (map device_json ds))]"
  have "list_all json_ok (map device_json ds)" "foldr max (map json_depth (map device_json ds)) 0 \<le> 1"
    by (induction ds) (simp_all add: device_json_def)
  then have r: "json_read (json_write ?v) = Some (json_repaired ?v)"
    by (intro json_roundtrip) (simp_all add: maxNestingDepth_def del: map_map)
  have a: "all_some (map (\<lambda>v. into_struct read_device (Some v)) (map json_repaired (map device_json ds))) = Some (map device_repaired ds)"
    by (induction ds) (simp_all add: device_back)
  show ?thesis
    using a by (simp add: alexa_bodies_def read_body_def r into_struct_def [of read_devices] read_devices_def one_field as_list_def
        del: json_write.simps)
qed

end
