(* ===== verification/Audio_Pcm.thy ===== *)
theory Audio_Pcm
  imports Go_Strings
begin

text \<open>
  \<open>internal/audio\<close>: samples and their bytes, the loop that pushes a block into the player (\<open>mixer.go\<close>), and what
  the kernel says of the output (\<open>alsa.go\<close>). A sample is a 16-bit word. The player's answers are functions of the
  number of the call; the lines of a proc file and whether reading it failed are arguments.
\<close>

type_synonym sample = "16 word"

definition ChimeRate :: int where "ChimeRate = 48000"
definition ChimeChannels :: nat where "ChimeChannels = 2"
definition BluetoothRate :: int where "BluetoothRate = 44100"
definition BlockFrames :: nat where "BlockFrames = 480"
definition BlockSamples :: nat where "BlockSamples = BlockFrames * ChimeChannels"
definition BlockBytes :: nat where "BlockBytes = BlockSamples * 2"
definition frameBytes :: nat where "frameBytes = ChimeChannels * 2"

definition Rates :: "int list" where "Rates = [ChimeRate, BluetoothRate]"

section \<open>Samples\<close>

definition sum16 :: "sample \<Rightarrow> sample \<Rightarrow> sample" where
  "sum16 a b =
     (let s = sint a + sint b
      in if 32767 < s then word_of_int 32767 else if s < -32768 then word_of_int (-32768) else word_of_int s)"

definition encode_pcm :: "sample list \<Rightarrow> bytes" where
  "encode_pcm block = concat (map (put_le 2) block)"

fun decode_pcm :: "bytes \<Rightarrow> sample list" where
  "decode_pcm (a # b # r) = get_le [a, b] # decode_pcm r"
| "decode_pcm r = []"

lemma sint_sample: "- 32768 \<le> sint (a :: sample)" "sint (a :: sample) \<le> 32767"
  using sint_greater_eq [of a] sint_less [of a] by simp_all

lemma sint_of_sample: "- 32768 \<le> i \<Longrightarrow> i \<le> 32767 \<Longrightarrow> sint (word_of_int i :: sample) = i"
  by (simp add: sint_sbintrunc' signed_take_bit_int_eq_self)

lemma sint_sum16: "sint (sum16 a b) = max (-32768) (min 32767 (sint a + sint b))"
proof -
  define s where "s = sint a + sint b"
  have "sint (if 32767 < s then word_of_int 32767 else if s < -32768 then word_of_int (-32768) else word_of_int s :: sample)
      = max (-32768) (min 32767 s)"
    by (auto simp: sint_of_sample)
  then show ?thesis by (simp only: sum16_def Let_def s_def)
qed

lemma length_encode_pcm [simp]: "length (encode_pcm b) = 2 * length b"
  by (induction b) (simp_all add: encode_pcm_def)

lemma length_decode_pcm [simp]: "length (decode_pcm b) = length b div 2"
  by (induction b rule: decode_pcm.induct) simp_all

lemma decode_encode [simp]: "decode_pcm (encode_pcm b) = b"
proof (induction b)
  case (Cons a b)
  have two: "put_le 2 a = [ucast a, ucast (drop_bit 8 a)]" by (simp add: numeral_2_eq_2)
  have "get_le (put_le 2 a) = a" by simp
  then show ?case using Cons two by (simp add: encode_pcm_def)
qed (simp add: encode_pcm_def)

section \<open>Pushing a block\<close>

definition stuckWaits :: nat where "stuckWaits = 500"

datatype audio_error = WriteRefused | TookTooMuch int nat | QueueStuck nat | ErrStopping

datatype write_answer = Took int | WriteError

text \<open>
  \<open>w k\<close> is the player's answer to call \<open>k\<close> and \<open>go k\<close> whether the writer goes on after the wait that follows it. The
  result is what the player took, the error if any and the number of the next call.
\<close>

function write_all ::
  "(nat \<Rightarrow> write_answer) \<Rightarrow> (nat \<Rightarrow> bool) \<Rightarrow> nat \<Rightarrow> nat \<Rightarrow> bytes \<Rightarrow> bytes \<times> audio_error option \<times> nat" where
  "write_all w go k refused buf =
     (if buf = [] then ([], None, k)
      else (case w k of
          WriteError \<Rightarrow> ([], Some WriteRefused, Suc k)
        | Took n \<Rightarrow>
            if n < 0 \<or> int (length buf) < n then ([], Some (TookTooMuch n (length buf)), Suc k)
            else if n = 0 then
              (if stuckWaits < Suc refused then ([], Some (QueueStuck (Suc refused)), Suc k)
               else if \<not> go k then ([], Some ErrStopping, Suc k)
               else write_all w go (Suc k) (Suc refused) buf)
            else (case write_all w go (Suc k) 0 (drop (nat n) buf) of
                (out, e, k') \<Rightarrow> (take (nat n) buf @ out, e, k'))))"
  by pat_completeness auto
termination
proof (relation "measure (\<lambda>(w, go, k, r, buf). length buf * (stuckWaits + 2) + (stuckWaits + 1 - r))", goal_cases)
  case (3 w go k r buf n)
  then have "length (drop (nat n) buf) + 1 \<le> length buf" by (cases buf) auto
  then have "(length (drop (nat n) buf) + 1) * (stuckWaits + 2) \<le> length buf * (stuckWaits + 2)"
    by (rule mult_le_mono1)
  then show ?case by simp
qed auto

declare write_all.simps [simp del]

lemma write_all_calls:
  "r \<le> stuckWaits \<Longrightarrow> write_all w go k r buf = (out, e, k') \<Longrightarrow>
     k' \<le> k + length buf * (stuckWaits + 1) + (if buf = [] then 0 else stuckWaits + 1 - r)"
proof (induction w go k r buf arbitrary: out e k' rule: write_all.induct)
  case (1 w go k r buf)
  show ?case
  proof (cases "\<exists>n. buf \<noteq> [] \<and> w k = Took n \<and> 0 \<le> n \<and> n \<le> int (length buf) \<and> (n = 0 \<longrightarrow> r < stuckWaits \<and> go k)")
    case False
    then have "k' \<le> Suc k \<and> (buf = [] \<longrightarrow> k' = k)"
      using "1.prems"(2) by (subst (asm) write_all.simps) (auto split: write_answer.splits if_splits)
    then show ?thesis using "1.prems"(1) by (cases buf) auto
  next
    case True
    then obtain n where n: "buf \<noteq> []" "w k = Took n" "0 \<le> n" "n \<le> int (length buf)" "n = 0 \<longrightarrow> r < stuckWaits \<and> go k"
      by blast
    show ?thesis
    proof (cases "n = 0")
      case zero: True
      then have "write_all w go (Suc k) (Suc r) buf = (out, e, k')"
        using n "1.prems"(2) by (subst (asm) write_all.simps) simp
      then show ?thesis using "1.IH"(1) [OF n(1,2) _ zero, of out e k'] n zero by simp linarith
    next
      case False
      let ?d = "drop (nat n) buf"
      obtain o1 e1 where rec: "write_all w go (Suc k) 0 ?d = (o1, e1, k')"
        using n False "1.prems"(2) by (subst (asm) write_all.simps) (auto split: prod.splits)
      have le: "k' \<le> Suc k + length ?d * (stuckWaits + 1) + (stuckWaits + 1)"
        using "1.IH"(2) [OF n(1,2) _ False _ rec] n by (auto split: if_splits)
      have "length ?d + 1 \<le> length buf" using n False by (cases buf) auto
      then have "(length ?d + 1) * (stuckWaits + 1) \<le> length buf * (stuckWaits + 1)" by (rule mult_le_mono1)
      then show ?thesis using le n "1.prems"(1) by simp
    qed
  qed
qed

lemma write_all_taken:
  "write_all w go k r buf = (out, e, k') \<Longrightarrow> (if e = None then out = buf else \<exists>rest. rest \<noteq> [] \<and> buf = out @ rest)"
proof (induction w go k r buf arbitrary: out e k' rule: write_all.induct)
  case (1 w go k r buf)
  show ?case
  proof (cases "\<exists>n. buf \<noteq> [] \<and> w k = Took n \<and> 0 \<le> n \<and> n \<le> int (length buf) \<and> (n = 0 \<longrightarrow> r < stuckWaits \<and> go k)")
    case False
    then show ?thesis
      using "1.prems" by (subst (asm) (1) write_all.simps) (auto split: write_answer.splits if_splits)
  next
    case True
    then obtain n where n: "buf \<noteq> []" "w k = Took n" "0 \<le> n" "n \<le> int (length buf)" "n = 0 \<longrightarrow> r < stuckWaits \<and> go k"
      by blast
    show ?thesis
    proof (cases "n = 0")
      case zero: True
      then have "write_all w go (Suc k) (Suc r) buf = (out, e, k')"
        using n "1.prems" by (subst (asm) write_all.simps) simp
      then show ?thesis using "1.IH"(1) [OF n(1,2) _ zero, of out e k'] n zero by simp
    next
      case False
      let ?d = "drop (nat n) buf"
      obtain o1 where rec: "write_all w go (Suc k) 0 ?d = (o1, e, k')" and o: "out = take (nat n) buf @ o1"
        using n False "1.prems" by (subst (asm) write_all.simps) (auto split: prod.splits)
      have ih: "if e = None then o1 = ?d else \<exists>rest. rest \<noteq> [] \<and> ?d = o1 @ rest"
        using "1.IH"(2) [OF n(1,2) _ False rec] n by auto
      show ?thesis
      proof (cases "e = None")
        case True
        then show ?thesis using ih o by simp
      next
        case False
        then obtain rest where "rest \<noteq> []" "?d = o1 @ rest" using ih by auto
        then have "buf = out @ rest" using o append_take_drop_id [of "nat n" buf] by simp
        then show ?thesis using \<open>rest \<noteq> []\<close> False by auto
      qed
    qed
  qed
qed

text \<open>
  Pushing a block ends after a bounded number of calls, whatever the player answers: with the whole block taken,
  or with an error and a proper prefix of it taken.
\<close>

theorem write_all_ends:
  "case write_all w go 0 0 buf of (out, e, calls) \<Rightarrow>
     calls \<le> (length buf + 1) * (stuckWaits + 1)
     \<and> (if e = None then out = buf else \<exists>rest. 0 < length rest \<and> buf = out @ rest)"
proof -
  obtain out e calls where r: "write_all w go 0 0 buf = (out, e, calls)" by (cases "write_all w go 0 0 buf")
  show ?thesis using write_all_calls [OF _ r] write_all_taken [OF r] r by (auto split: if_splits)
qed

section \<open>What the output holds\<close>

record pcm_status =
  State :: string
  HwDelay :: int
  bursty :: bool

definition pcm_running :: "pcm_status \<Rightarrow> bool" where
  "pcm_running s \<longleftrightarrow> State s = ''RUNNING''"

datatype status_error = BadDelay string | ScanFailed | NoState | NoDelay

fun status_lines :: "string list \<Rightarrow> string option \<Rightarrow> int option \<Rightarrow> status_error + (string option \<times> int option)" where
  "status_lines [] st d = Inr (st, d)"
| "status_lines (l # ls) st d =
     (case cut_at l '':'' of
        None \<Rightarrow> status_lines ls st d
      | Some (n, v) \<Rightarrow>
          (let name = trim_space n; value = trim_space v
           in if name = ''state'' then status_lines ls (Some value) d
              else if name = ''delay'' then
                (case parse_int 64 value of None \<Rightarrow> Inl (BadDelay value) | Some k \<Rightarrow> status_lines ls st (Some k))
              else status_lines ls st d))"

definition parseStatus :: "string list \<Rightarrow> bool \<Rightarrow> status_error + pcm_status" where
  "parseStatus ls scanFailed =
     (case status_lines ls None None of
        Inl e \<Rightarrow> Inl e
      | Inr (st, d) \<Rightarrow>
          if scanFailed then Inl ScanFailed
          else (case st of None \<Rightarrow> Inl NoState
            | Some s \<Rightarrow> (case d of None \<Rightarrow> Inl NoDelay
                | Some k \<Rightarrow> Inr \<lparr>State = s, HwDelay = k, bursty = False\<rparr>)))"

definition a2dpDataSocket :: string where "a2dpDataSocket = ''@/data/misc/bluedroid/.a2dp_data''"
definition socketLinked :: string where "socketLinked = ''03''"
definition a2dpDelay :: int where "a2dpDelay = go_div (407 * ChimeRate) 1000"

definition overBluetooth :: "string list option \<Rightarrow> bool" where
  "overBluetooth file =
     (case file of None \<Rightarrow> False
      | Some ls \<Rightarrow> list_ex (\<lambda>l. let f = str_fields l
                              in length f = 8 \<and> f ! 7 = a2dpDataSocket \<and> f ! 5 = socketLinked) ls)"

definition outputRate :: "string list option \<Rightarrow> int" where
  "outputRate sockets = (if overBluetooth sockets then BluetoothRate else ChimeRate)"

definition outputStatus ::
  "string list option \<Rightarrow> (status_error + pcm_status) \<Rightarrow> status_error + pcm_status" where
  "outputStatus sockets status =
     (if overBluetooth sockets then Inr \<lparr>State = ''RUNNING'', HwDelay = a2dpDelay, bursty = True\<rparr> else status)"

definition aheadCeiling :: int where "aheadCeiling = ChimeRate"

record point =
  Ahead :: int
  At :: time
  Bursty :: bool

datatype point_error = NoPending | NotRunning string | NegativeDelay int | NotAMeasurement int int

definition point_of :: "int \<Rightarrow> pcm_status \<Rightarrow> time \<Rightarrow> int \<Rightarrow> point_error + point" where
  "point_of pending st at rate =
     (if pending < 0 then Inl NoPending
      else if \<not> pcm_running st then Inl (NotRunning (State st))
      else if HwDelay st < 0 then Inl (NegativeDelay (HwDelay st))
      else (let ahead = pending + go_div (HwDelay st * rate) ChimeRate
        in if HwDelay st \<le> aheadCeiling \<and> 0 \<le> ahead \<and> ahead \<le> go_div (rate * aheadCeiling) ChimeRate
           then Inr \<lparr>Ahead = ahead, At = at, Bursty = bursty st\<rparr>
           else Inl (NotAMeasurement pending (HwDelay st))))"

lemma point_bounds:
  assumes "point_of pending st at rate = Inr p" "0 < rate"
  shows "0 \<le> Ahead p \<and> Ahead p \<le> rate \<and> At p = at \<and> pcm_running st
    \<and> Ahead p = pending + HwDelay st * rate div ChimeRate"
  using assms by (auto simp: point_of_def Let_def aheadCeiling_def ChimeRate_def split: if_splits)

end
