(* ===== verification/Go_Float.thy ===== *)
theory Go_Float
  imports Overdub_Prelude
begin

text \<open>
  What the program uses of \<open>float32\<close> and \<open>float64\<close>: a \<open>float32\<close> is its bit pattern, a number is a dyadic
  \<open>m * 2^e\<close>, and an operation is the exact quotient of two integers rounded to the precision of the format,
  to the nearest and to even on a tie. \<open>fl p n d\<close> is \<open>n / d\<close> rounded to \<open>p\<close> bits; \<open>emin\<close> is the least
  exponent of the format, so that subnormal numbers lose precision as they do.
\<close>

type_synonym f32 = "32 word"

fun bits_of :: "nat \<Rightarrow> nat" where
  "bits_of n = (if n = 0 then 0 else Suc (bits_of (n div 2)))"

declare bits_of.simps [simp del]

definition scaled :: "nat \<Rightarrow> nat \<Rightarrow> int \<Rightarrow> nat \<times> nat" where
  "scaled n d e = (n * 2 ^ nat (- e), d * 2 ^ nat e)"

definition round_even :: "nat \<Rightarrow> nat \<Rightarrow> nat" where
  "round_even n d =
     (let q = n div d; r = n mod d
      in if d < 2 * r \<or> (2 * r = d \<and> odd q) then q + 1 else q)"

definition fl_exp :: "nat \<Rightarrow> int \<Rightarrow> nat \<Rightarrow> nat \<Rightarrow> int" where
  "fl_exp p emin n d =
     (let e0 = int (bits_of n) - int (bits_of d) - int p;
          e1 = (case scaled n d e0 of (n', d') \<Rightarrow> if d' * 2 ^ p \<le> n' then e0 + 1 else e0)
      in max emin e1)"

definition fl :: "nat \<Rightarrow> int \<Rightarrow> nat \<Rightarrow> nat \<Rightarrow> nat \<times> int" where
  "fl p emin n d =
     (let e = fl_exp p emin n d in (case scaled n d e of (n', d') \<Rightarrow> (round_even n' d', e)))"

section \<open>float32\<close>

definition f32_nan :: "f32 \<Rightarrow> bool" where
  "f32_nan b \<longleftrightarrow> b AND 0x7f800000 = 0x7f800000 \<and> b AND 0x7fffff \<noteq> 0"

definition isFinite :: "f32 \<Rightarrow> bool" where
  "isFinite b \<longleftrightarrow> b AND 0x7f800000 \<noteq> 0x7f800000"

text \<open>Go's \<open>==\<close>: NaN is not itself, and the two zeros are one.\<close>

definition f32_eq :: "f32 \<Rightarrow> f32 \<Rightarrow> bool" where
  "f32_eq a b \<longleftrightarrow> \<not> f32_nan a \<and> (a = b \<or> (a AND 0x7fffffff = 0 \<and> b AND 0x7fffffff = 0))"

text \<open>The value of a finite pattern: its sign, and the magnitude \<open>m * 2^e\<close>.\<close>

definition f32_val :: "f32 \<Rightarrow> bool \<times> nat \<times> int" where
  "f32_val b =
     (let ex = unat (drop_bit 23 b AND 0xff); fr = unat (b AND 0x7fffff)
      in (bit b 31, if ex = 0 then fr else fr + 2 ^ 23, if ex = 0 then -149 else int ex - 150))"

definition f32_bits :: "bool \<Rightarrow> nat \<times> int \<Rightarrow> f32" where
  "f32_bits neg x =
     (case x of (m0, e0) \<Rightarrow>
       let m = (if m0 = 2 ^ 24 then 2 ^ 23 else m0); e = (if m0 = 2 ^ 24 then e0 + 1 else e0);
           s = (if neg then 0x80000000 else 0)
       in if m < 2 ^ 23 then s OR of_nat m
          else if 255 \<le> e + 150 then s OR 0x7f800000
          else s OR push_bit 23 (of_nat (nat (e + 150))) OR of_nat (m - 2 ^ 23))"

definition f32_ratio :: "int \<Rightarrow> nat \<Rightarrow> f32" where
  "f32_ratio n d = (if n = 0 then 0 else f32_bits (n < 0) (fl 24 (-149) (nat \<bar>n\<bar>) d))"

text \<open>\<open>float32(n)\<close>, and the quotient of two of them when both are exact.\<close>

definition f32_of_int :: "int \<Rightarrow> f32" where
  "f32_of_int n = f32_ratio n 1"

definition dyadic :: "bool \<Rightarrow> nat \<Rightarrow> int \<Rightarrow> int \<times> nat" where
  "dyadic neg m e = ((if neg then -1 else 1) * int (m * 2 ^ nat e), 2 ^ nat (- e))"

definition f32_div :: "f32 \<Rightarrow> f32 \<Rightarrow> f32" where
  "f32_div a b =
     (case (f32_val a, f32_val b) of ((sa, ma, ea), (sb, mb, eb)) \<Rightarrow>
       (case dyadic (sa \<noteq> sb) ma (ea - eb) of (n, d) \<Rightarrow> f32_ratio n (d * mb)))"

section \<open>Rounding to an integer\<close>

text \<open>\<open>math.Round\<close>: half away from zero, of \<open>n / d\<close>.\<close>

definition round_half :: "int \<Rightarrow> nat \<Rightarrow> int" where
  "round_half n d = sgn n * ((2 * \<bar>n\<bar> + int d) div (2 * int d))"

definition f32_round :: "f32 \<Rightarrow> int" where
  "f32_round b = (case f32_val b of (s, m, e) \<Rightarrow> case dyadic s m e of (n, d) \<Rightarrow> round_half n d)"

text \<open>\<open>math.Round\<close> of a \<open>float64\<close> product or quotient given exactly.\<close>

definition f64_round :: "int \<Rightarrow> nat \<Rightarrow> int" where
  "f64_round n d =
     (if n = 0 then 0
      else (case fl 53 (-1074) (nat \<bar>n\<bar>) d of
          (m, e) \<Rightarrow> case dyadic (n < 0) m e of (n', d') \<Rightarrow> round_half n' d'))"

text \<open>
  \<open>int(f)\<close> for a 32-bit \<open>int\<close>: what does not fit is left to the implementation, and ARMv7, which the program is
  built for, saturates. Sums of \<open>int\<close>s wrap.
\<close>

definition to_go_int :: "int \<Rightarrow> int" where
  "to_go_int i = max (- (2 ^ 31)) (min i (2 ^ 31 - 1))"

definition go_int32 :: "int \<Rightarrow> int" where
  "go_int32 i = (i + 2 ^ 31) mod 2 ^ 32 - 2 ^ 31"

lemma go_int32_id: "- (2 ^ 31) \<le> i \<Longrightarrow> i < 2 ^ 31 \<Longrightarrow> go_int32 i = i"
  by (simp add: go_int32_def)

section \<open>Small integers are exact\<close>

lemma round_even_exact: "0 < d \<Longrightarrow> round_even (k * d) d = k"
  by (simp add: round_even_def)

lemma round_half_int: "round_half n 1 = n"
proof -
  have "(2 * \<bar>n\<bar> + 1) div 2 = \<bar>n\<bar>" by presburger
  then show ?thesis by (simp add: round_half_def sgn_mult_abs)
qed

lemma round_half_mult:
  assumes "0 < d"
  shows "round_half (n * int d) d = n"
proof -
  have "2 * \<bar>n * int d\<bar> + int d = \<bar>n\<bar> * (2 * int d) + int d" by (simp add: abs_mult)
  also have "\<dots> div (2 * int d) = \<bar>n\<bar>" using assms by simp
  finally show ?thesis using assms by (simp add: round_half_def sgn_mult sgn_mult_abs)
qed

end
