(* ===== verification/Audio_Stream.thy ===== *)
theory Audio_Stream
  imports Complex_Main Audio_Pcm Go_Float
begin

text \<open>
  \<open>internal/audio/stream.go\<close>: a stream of timed audio placed on the frame the player says it belongs on. The
  state is the fields of \<open>Stream\<close>; an operation that reads the clock takes the time. A \<open>float64\<close> gain is the
  rational it stands for, rounded to the format after every operation.
\<close>

section \<open>Frames and durations\<close>

definition frameTime :: "int \<Rightarrow> int \<Rightarrow> duration" where
  "frameTime r n = go_div n r * second + go_div (go_mod n r * second) r"

definition frameCount :: "int \<Rightarrow> duration \<Rightarrow> int" where
  "frameCount r d = go_div d second * r + go_div (go_mod d second * r) second"

definition streamAhead :: duration where "streamAhead = 30 * second"
definition streamHold :: duration where "streamHold = 30 * second"
definition streamChunks :: nat where "streamChunks = 3000"
definition anchorSettle :: duration where "anchorSettle = 100 * millisecond"
definition anchorTake :: nat where "anchorTake = 5"
definition anchorSlip :: duration where "anchorSlip = 50 * millisecond"
definition slipRuns :: nat where "slipRuns = 3"
definition burstyFirst :: nat where "burstyFirst = 20"
definition burstyOver :: int where "burstyOver = 128"
definition burstyBand :: duration where "burstyBand = 4 * millisecond"
definition burstySlip :: duration where "burstySlip = 150 * millisecond"
definition deadBand :: duration where "deadBand = 5 * millisecond"
definition softStep :: duration where "softStep = 21000"
definition easeApart :: int where "easeApart = 200"
definition snapAbove :: duration where "snapAbove = 50 * millisecond"
definition smoothOver :: int where "smoothOver = 50"
definition observeEvery :: int where "observeEvery = 10"
definition blindAfter :: nat where "blindAfter = 100"
definition duckDownFor :: duration where "duckDownFor = 50 * millisecond"
definition duckUpFor :: duration where "duckUpFor = 300 * millisecond"

section \<open>State\<close>

record queued =
  q_at :: time
  q_pcm :: "sample list"
  q_off :: nat
  q_eased :: bool
  q_soft :: bool
  q_seam :: bool
  q_place :: int

record stream =
  st_rate :: int
  st_queue :: "queued list"
  st_held :: int
  st_index :: int
  st_blocks :: int
  st_first :: "time option"
  st_done :: bool
  st_ended :: int
  st_spent :: bool
  st_closed :: bool
  st_anchored :: bool
  st_origin :: time
  st_originIndex :: int
  st_ref :: int
  st_candidates :: "time list"
  st_bursty :: bool
  st_slipMean :: duration
  st_firstSum :: duration
  st_firstTaken :: nat
  st_jump :: bool
  st_asked :: int
  st_unread :: nat
  st_outside :: nat
  st_saidBlind :: bool
  st_placed :: int
  st_silence :: int
  st_late :: int
  st_eased :: int
  st_slips :: int
  st_began :: bool
  st_lastOut :: "sample list"
  st_smooth :: int
  st_easedAt :: int
  st_cut :: rat
  st_cutTo :: rat

definition no_frame :: "sample list" where
  "no_frame = replicate ChimeChannels 0"

definition new_stream :: "int \<Rightarrow> rat \<Rightarrow> stream" where
  "new_stream rate level =
     \<lparr>st_rate = rate, st_queue = [], st_held = 0, st_index = 0, st_blocks = 0, st_first = None, st_done = False,
      st_ended = 0, st_spent = False, st_closed = False, st_anchored = False, st_origin = 0, st_originIndex = 0,
      st_ref = 0, st_candidates = [], st_bursty = False, st_slipMean = 0, st_firstSum = 0, st_firstTaken = 0,
      st_jump = False, st_asked = 0, st_unread = 0, st_outside = 0, st_saidBlind = False, st_placed = 0,
      st_silence = 0, st_late = 0, st_eased = 0, st_slips = 0, st_began = False, st_lastOut = no_frame,
      st_smooth = 0, st_easedAt = 0, st_cut = level, st_cutTo = level\<rparr>"

definition q_frames :: "queued \<Rightarrow> nat" where
  "q_frames c = length (q_pcm c) div ChimeChannels"

definition q_frame :: "queued \<Rightarrow> nat \<Rightarrow> sample list" where
  "q_frame c i = take ChimeChannels (drop (i * ChimeChannels) (q_pcm c))"

section \<open>Writing\<close>

datatype stream_error = PartFrame nat | StreamClosed | StreamDone | TooFarOff duration | HeldTooMuch int
  | TooManyChunks nat

definition insert_at :: "time \<Rightarrow> queued list \<Rightarrow> nat" where
  "insert_at t q = length q - length (takeWhile (\<lambda>c. t < q_at c \<and> q_off c = 0) (rev q))"

definition fresh_chunk :: "time \<Rightarrow> bytes \<Rightarrow> queued" where
  "fresh_chunk t pcm =
     \<lparr>q_at = t, q_pcm = decode_pcm pcm, q_off = 0, q_eased = False, q_soft = False, q_seam = False, q_place = 0\<rparr>"

definition insert_chunk :: "queued \<Rightarrow> queued list \<Rightarrow> queued list" where
  "insert_chunk c q =
     (let i = insert_at (q_at c) q
      in take i q @ [c] @ (case drop i q of [] \<Rightarrow> [] | d # ds \<Rightarrow> d\<lparr>q_eased := False\<rparr> # ds))"

definition stream_write :: "time \<Rightarrow> time \<Rightarrow> bytes \<Rightarrow> stream \<Rightarrow> stream_error option \<times> stream" where
  "stream_write now t pcm s =
     (let due = t - now; frames = int (length pcm div frameBytes)
      in if length pcm mod frameBytes \<noteq> 0 then (Some (PartFrame (length pcm)), s)
         else if st_closed s \<or> st_spent s then (Some StreamClosed, s)
         else if st_done s then (Some StreamDone, s)
         else if streamAhead < due \<or> due < - streamAhead then (Some (TooFarOff due), s)
         else if frameCount (st_rate s) streamHold < st_held s + frames then (Some (HeldTooMuch (st_held s)), s)
         else if streamChunks \<le> length (st_queue s) then (Some (TooManyChunks (length (st_queue s))), s)
         else (None, s\<lparr>st_queue := insert_chunk (fresh_chunk t pcm) (st_queue s), st_held := st_held s + frames\<rparr>))"

definition stream_discard :: "stream \<Rightarrow> int \<times> stream" where
  "stream_discard s =
     (st_held s, s\<lparr>st_queue := [], st_held := 0, st_began := False, st_smooth := 0, st_easedAt := 0\<rparr>)"

definition Finish :: "stream \<Rightarrow> stream" where
  "Finish s =
     (if st_closed s \<or> st_spent s \<or> st_done s then s
      else (case stream_discard (s\<lparr>st_done := True\<rparr>) of (h, s1) \<Rightarrow> s1\<lparr>st_ended := st_ended s1 + h\<rparr>))"

definition Resume :: "stream \<Rightarrow> bool \<times> stream" where
  "Resume s = (if st_closed s \<or> st_spent s then (False, s) else (True, s\<lparr>st_done := False\<rparr>))"

definition Placed :: "stream \<Rightarrow> duration \<times> duration" where
  "Placed s = (frameTime (st_rate s) (st_placed s), frameTime (st_rate s) (st_silence s))"

definition Spent :: "stream \<Rightarrow> bool" where
  "Spent s \<longleftrightarrow> st_spent s \<or> st_closed s"

definition stream_clear :: "stream \<Rightarrow> stream" where
  "stream_clear s = snd (stream_discard s)"

datatype stream_end = PlacedReport duration duration duration duration duration int | NeverAnchored duration duration

definition stream_close :: "stream \<Rightarrow> stream_end option \<times> stream" where
  "stream_close s =
     (if st_closed s then (None, s)
      else (Some (if st_anchored s
               then PlacedReport (frameTime (st_rate s) (st_placed s)) (frameTime (st_rate s) (st_silence s))
                      (frameTime (st_rate s) (st_late s)) (frameTime (st_rate s) (st_ended s))
                      (frameTime (st_rate s) (st_eased s)) (st_slips s)
               else NeverAnchored (frameTime (st_rate s) (st_silence s))
                      (frameTime (st_rate s) (st_held s + st_ended s))),
            s\<lparr>st_closed := True\<rparr>))"

section \<open>Placing chunks\<close>

definition frameAt :: "time \<Rightarrow> stream \<Rightarrow> int" where
  "frameAt t s = st_originIndex s + frameCount (st_rate s) (t - st_origin s)"

definition smoothed :: "int \<Rightarrow> stream \<Rightarrow> int \<times> stream" where
  "smoothed err s =
     (let v = st_smooth s + go_div (err * 2 ^ 10 - st_smooth s) smoothOver
      in (v div 2 ^ 10, s\<lparr>st_smooth := v\<rparr>))"

definition ease :: "int \<Rightarrow> stream \<Rightarrow> int" where
  "ease err s =
     (let band = frameCount (st_rate s) deadBand; step = max 1 (frameCount (st_rate s) softStep)
      in if band \<le> err then min err step else if err \<le> - band then max err (- step) else 0)"

definition ease_head :: "int \<Rightarrow> stream \<Rightarrow> queued \<Rightarrow> stream \<times> queued" where
  "ease_head want s c =
     (if q_eased c then (s, c)
      else (let err = frameAt (q_at c) s - want; snap = frameCount (st_rate s) snapAbove;
                (h, s1) = smoothed err s;
                step0 = (if easeApart \<le> st_index s1 - st_easedAt s1 then ease h s1 else 0);
                s2 = (if step0 \<noteq> 0 then s1\<lparr>st_easedAt := st_index s1\<rparr> else s1);
                hard = (\<not> st_began s2 \<or> st_jump s2 \<or> snap < err \<or> err < - snap);
                step = (if hard then err else step0);
                s3 = (if hard then s2\<lparr>st_smooth := 0, st_jump := (st_jump s2 \<and> err \<le> - int (q_frames c))\<rparr> else s2)
            in (s3, c\<lparr>q_eased := True, q_soft := (step \<noteq> err), q_place := want + step\<rparr>)))"

text \<open>\<open>n\<close> frames from one to another: each channel steps toward the target.\<close>

definition blend :: "nat \<Rightarrow> sample list \<Rightarrow> sample list \<Rightarrow> sample list" where
  "blend n from' to' =
     concat (map (\<lambda>i. map (\<lambda>ch. word_of_int (sint (from' ! ch)
              + go_div ((sint (to' ! ch) - sint (from' ! ch)) * (int i + 1)) (int n + 1))) [0..<ChimeChannels])
       [0..<n])"

definition paste :: "nat \<Rightarrow> sample list \<Rightarrow> sample list \<Rightarrow> sample list" where
  "paste k xs block = take k block @ xs @ drop (k + length xs) block"

record filling =
  f_pos :: nat
  f_block :: "sample list"
  f_filled :: nat
  f_blended :: nat
  f_trimmed :: nat

definition fill_wait :: "nat \<Rightarrow> int \<Rightarrow> queued \<Rightarrow> queued list \<Rightarrow> stream \<Rightarrow> filling \<Rightarrow> stream \<times> filling" where
  "fill_wait frames gap c cs s a =
     (let n = nat (min gap (int frames - int (f_pos a)));
          s1 = s\<lparr>st_queue := c # cs\<rparr>; a1 = a\<lparr>f_pos := f_pos a + n\<rparr>
      in if q_soft c
         then (s1, a1\<lparr>f_block := paste (f_pos a * ChimeChannels) (blend n (st_lastOut s) (q_frame c (q_off c))) (f_block a),
                     f_blended := f_blended a + n\<rparr>)
         else (s1, a1))"

definition seam_frame :: "sample list \<Rightarrow> sample list \<Rightarrow> sample list" where
  "seam_frame last' xs =
     map (\<lambda>ch. word_of_int (go_div (sint (last' ! ch) + sint (xs ! ch)) 2)) [0..<ChimeChannels] @ drop ChimeChannels xs"

definition fill_copy :: "nat \<Rightarrow> queued \<Rightarrow> queued list \<Rightarrow> stream \<Rightarrow> filling \<Rightarrow> stream \<times> filling" where
  "fill_copy frames c cs s a =
     (let n = min (frames - f_pos a) (q_frames c - q_off c);
          xs = take (n * ChimeChannels) (drop (q_off c * ChimeChannels) (q_pcm c));
          smooths = (q_soft c \<and> q_seam c \<and> 0 < n);
          ys = (if smooths then seam_frame (st_lastOut s) xs else xs);
          c1 = c\<lparr>q_seam := (if smooths then False else q_seam c), q_off := q_off c + n\<rparr>
      in (s\<lparr>st_lastOut := drop ((n - 1) * ChimeChannels) ys, st_began := True, st_held := st_held s - int n,
            st_queue := (if q_off c1 = q_frames c then cs else c1 # cs)\<rparr>,
          a\<lparr>f_block := paste (f_pos a * ChimeChannels) ys (f_block a), f_pos := f_pos a + n,
            f_filled := f_filled a + n\<rparr>))"

text \<open>What has fallen behind at the front: a whole chunk, or the part of it that is late, told or not.\<close>

definition stream_drop :: "int \<Rightarrow> queued list \<Rightarrow> stream \<Rightarrow> stream" where
  [simp]: "stream_drop n cs s = s\<lparr>st_late := st_late s + n, st_held := st_held s - n, st_queue := cs\<rparr>"

definition stream_trim :: "int \<Rightarrow> queued \<Rightarrow> queued list \<Rightarrow> stream \<Rightarrow> stream" where
  [simp]: "stream_trim n c cs s = s\<lparr>st_held := st_held s - n, st_queue := c\<lparr>q_off := q_off c + nat n\<rparr> # cs\<rparr>"

definition stream_skip :: "int \<Rightarrow> queued \<Rightarrow> queued list \<Rightarrow> stream \<Rightarrow> stream" where
  [simp]: "stream_skip n c cs s =
     s\<lparr>st_held := st_held s - n, st_late := st_late s + n, st_queue := c\<lparr>q_off := q_off c + nat n\<rparr> # cs\<rparr>"

definition fill_turn :: "nat \<Rightarrow> queued \<Rightarrow> queued list \<Rightarrow> stream \<Rightarrow> filling \<Rightarrow> stream \<times> filling" where
  "fill_turn frames c0 cs s0 a =
     (let want = st_index s0 + int (f_pos a);
          (s, c) = ease_head want s0 c0;
          start' = q_place c + int (q_off c);
          left = int (q_frames c) - int (q_off c)
      in if start' + left \<le> want then
           (stream_drop left cs s, a)
         else if start' < want then
           (let d = want - start'; c1 = c\<lparr>q_seam := True\<rparr>
            in if q_soft c then (stream_trim d c1 cs s, a\<lparr>f_trimmed := f_trimmed a + nat d\<rparr>)
               else (stream_skip d c1 cs s, a))
         else if want < start' then fill_wait frames (start' - want) c cs s a
         else fill_copy frames c cs s a)"

definition chunk_left :: "queued \<Rightarrow> nat" where
  "chunk_left c = q_frames c - q_off c"

definition fill_size :: "nat \<Rightarrow> stream \<Rightarrow> filling \<Rightarrow> nat" where
  "fill_size frames s a = (frames - f_pos a) + sum_list (map (\<lambda>c. Suc (chunk_left c)) (st_queue s))"

lemma ease_head_keeps:
  assumes "ease_head want s c = (s', c')"
  shows "q_off c' = q_off c" "q_frames c' = q_frames c" "q_pcm c' = q_pcm c" "st_queue s' = st_queue s"
    "st_held s' = st_held s" "st_late s' = st_late s" "st_index s' = st_index s" "st_lastOut s' = st_lastOut s"
    "q_at c' = q_at c" "st_rate s' = st_rate s" "st_began s' = st_began s" "q_eased c'"
  using assms by (auto simp: ease_head_def smoothed_def q_frames_def Let_def split: if_splits)

lemma fill_turn_smaller:
  assumes "f_pos a < frames" "st_queue s = c # cs" "fill_turn frames c cs s a = (s', a')"
  shows "fill_size frames s' a' < fill_size frames s a"
proof -
  obtain s1 c1 where e: "ease_head (st_index s + int (f_pos a)) s c = (s1, c1)" by fastforce
  note k = ease_head_keeps [OF e]
  let ?w = "st_index s + int (f_pos a)" and ?st = "q_place c1 + int (q_off c1)"
  consider (drop) "?st + (int (q_frames c1) - int (q_off c1)) \<le> ?w"
    | (skip) "?w < ?st + (int (q_frames c1) - int (q_off c1))" "?st < ?w"
    | (wait) "?w < ?st + (int (q_frames c1) - int (q_off c1))" "?w < ?st"
    | (copy) "?w < ?st + (int (q_frames c1) - int (q_off c1))" "?w = ?st"
    by linarith
  then show ?thesis
  proof cases
    case drop
    then show ?thesis using assms e by (auto simp: fill_turn_def fill_size_def Let_def)
  next
    case skip
    have "q_frames c1 - (q_off c1 + nat (?w - ?st)) < q_frames c1 - q_off c1" using skip by linarith
    moreover have "q_frames (c1\<lparr>q_seam := b, q_off := m\<rparr>) = q_frames c1" for b m by (simp add: q_frames_def)
    ultimately show ?thesis
      using skip assms e k by (auto simp: fill_turn_def fill_size_def chunk_left_def Let_def split: if_splits)
  next
    case wait
    have "0 < nat (min (?st - ?w) (int frames - int (f_pos a)))" using wait assms(1) by simp
    then show ?thesis using wait assms e k
      by (auto simp: fill_turn_def fill_size_def chunk_left_def fill_wait_def Let_def split: if_splits)
  next
    case copy
    have f: "q_frames (c1\<lparr>q_seam := b, q_off := m\<rparr>) = q_frames c1" for b m by (simp add: q_frames_def)
    define n where "n = min (frames - f_pos a) (q_frames c1 - q_off c1)"
    have n: "0 < n" "n \<le> frames - f_pos a" "n \<le> q_frames c1 - q_off c1" using copy assms(1) by (simp_all add: n_def)
    have r: "fill_copy frames c1 cs s1 a = (s', a')" using copy assms(3) e by (simp add: fill_turn_def)
    have "f_pos a' = f_pos a + n" using r by (auto simp: fill_copy_def Let_def n_def)
    moreover have "st_queue s' = cs \<or> (\<exists>d. st_queue s' = d # cs \<and> q_off d = q_off c1 + n \<and> q_frames d = q_frames c1)"
      using r unfolding fill_copy_def Let_def n_def [symmetric] by (auto simp: q_frames_def split: if_splits)
    then have "sum_list (map (\<lambda>c. Suc (chunk_left c)) (st_queue s')) \<le> sum_list (map (\<lambda>c. Suc (chunk_left c)) (st_queue s))"
      using k assms(2) by (auto simp: chunk_left_def)
    ultimately show ?thesis using n assms(1) by (simp add: fill_size_def)
  qed
qed

function fill_loop :: "nat \<Rightarrow> stream \<Rightarrow> filling \<Rightarrow> stream \<times> filling" where
  "fill_loop frames s a =
     (if frames \<le> f_pos a then (s, a)
      else (case st_queue s of
          [] \<Rightarrow> (s, a)
        | c # cs \<Rightarrow>
            if q_pcm c = [] then fill_loop frames (s\<lparr>st_queue := cs\<rparr>) a
            else (case fill_turn frames c cs s a of (s', a') \<Rightarrow> fill_loop frames s' a')))"
  by pat_completeness auto
termination
proof (relation "measure (\<lambda>(frames, s, a). fill_size frames s a)", goal_cases)
  case (2 frames s a c cs)
  then show ?case by (simp add: fill_size_def)
next
  case (3 frames s a c cs s' a')
  then have t: "fill_turn frames c cs s a = (s', a')" by simp
  show ?case using fill_turn_smaller [OF _ _ t] 3 by (simp add: t)
qed simp

declare fill_loop.simps [simp del]

definition fill :: "nat \<Rightarrow> stream \<Rightarrow> stream \<times> filling" where
  "fill frames s =
     (case fill_loop frames s \<lparr>f_pos = 0, f_block = replicate (frames * ChimeChannels) 0, f_filled = 0, f_blended = 0,
              f_trimmed = 0\<rparr> of
        (s1, a) \<Rightarrow> (if f_pos a < frames then s1\<lparr>st_lastOut := no_frame\<rparr> else s1, a))"


section \<open>Ducking\<close>

text \<open>The \<open>float64\<close> nearest to a number, and \<open>math.Round\<close> of one.\<close>

definition f64_of :: "rat \<Rightarrow> rat" where
  "f64_of q =
     (case quotient_of q of (n, d) \<Rightarrow>
       if n = 0 then 0
       else (case fl 53 (-1074) (nat \<bar>n\<bar>) (nat d) of (m, e) \<Rightarrow>
         of_int (sgn n) * (if 0 \<le> e then of_nat (m * 2 ^ nat e) else of_nat m / of_nat (2 ^ nat (- e)))))"

definition rat_round :: "rat \<Rightarrow> int" where
  "rat_round q = (case quotient_of q of (n, d) \<Rightarrow> round_half n (nat d))"

definition duckCut :: "int \<Rightarrow> rat" where
  "duckCut percent = f64_of (of_int (100 - min (max percent 0) 100) / 100)"

definition stream_duck :: "rat \<Rightarrow> stream \<Rightarrow> stream" where
  "stream_duck level s = s\<lparr>st_cutTo := min (max level 0) 1\<rparr>"

definition attenuate :: "sample \<Rightarrow> rat \<Rightarrow> sample" where
  "attenuate v gain = word_of_int (min (max (rat_round (f64_of (of_int (sint v) * gain))) (-32768)) 32767)"

definition cut_step :: "rat \<Rightarrow> rat \<Rightarrow> rat \<Rightarrow> rat \<Rightarrow> rat" where
  "cut_step down up level target' =
     (if level < target' then min (f64_of (level + down)) target'
      else if target' < level then max (f64_of (level - up)) target'
      else level)"

fun scale_frames :: "rat \<Rightarrow> rat \<Rightarrow> rat \<Rightarrow> rat \<Rightarrow> sample list \<Rightarrow> sample list \<times> rat" where
  "scale_frames down up target' level (l # r # xs) =
     (let v = cut_step down up level target'; gain = f64_of (1 - v)
      in (case scale_frames down up target' v xs of (ys, w) \<Rightarrow> (attenuate l gain # attenuate r gain # ys, w)))"
| "scale_frames down up target' level xs = (xs, level)"

definition scale_block :: "sample list \<Rightarrow> stream \<Rightarrow> sample list \<times> stream" where
  "scale_block block s =
     (if st_cut s = 0 \<and> st_cutTo s = 0 then (block, s)
      else (case scale_frames (f64_of (1 / of_int (max 1 (frameCount (st_rate s) duckDownFor))))
                   (f64_of (1 / of_int (max 1 (frameCount (st_rate s) duckUpFor)))) (st_cutTo s) (st_cut s) block of
          (ys, level) \<Rightarrow> (ys, s\<lparr>st_cut := level\<rparr>)))"

section \<open>Reading\<close>

text \<open>A block of \<open>frames\<close> frames, or that the stream is over.\<close>

definition stream_read :: "time \<Rightarrow> nat \<Rightarrow> stream \<Rightarrow> sample list option \<times> stream" where
  "stream_read now frames s =
     (if st_closed s \<or> st_spent s then (None, s)
      else if st_done s then (None, s\<lparr>st_spent := True\<rparr>)
      else (let s0 = (if st_first s = None then s\<lparr>st_first := Some now\<rparr> else s);
                (s1, block, filled, blended, trimmed) =
                  (if st_anchored s0
                   then (case fill frames s0 of (t, a) \<Rightarrow> (t, f_block a, f_filled a, f_blended a, f_trimmed a))
                   else (s0, replicate (frames * ChimeChannels) 0, 0, 0, 0));
                s2 = s1\<lparr>st_placed := st_placed s1 + int filled,
                        st_silence := st_silence s1 + (int frames - int filled - int blended),
                        st_eased := st_eased s1 + (int blended + int trimmed),
                        st_index := st_index s1 + int frames, st_blocks := st_blocks s1 + 1\<rparr>;
                (out, s3) = scale_block block s2
            in (Some out, s3)))"

section \<open>Where the player has reached\<close>

definition stream_wants :: "time \<Rightarrow> stream \<Rightarrow> bool" where
  "stream_wants now s =
     (if st_closed s then False
      else (case st_first s of None \<Rightarrow> False
        | Some t \<Rightarrow> if now - t < anchorSettle then False
                    else \<not> st_anchored s \<or> observeEvery \<le> st_blocks s - st_asked s))"

definition stream_blind :: "stream \<Rightarrow> bool \<times> stream" where
  "stream_blind s =
     (let n = Suc (st_unread s); say = (n = blindAfter \<and> \<not> st_saidBlind s)
      in (say, s\<lparr>st_asked := st_blocks s, st_unread := n, st_saidBlind := (st_saidBlind s \<or> say)\<rparr>))"

definition unease :: "stream \<Rightarrow> stream" where
  "unease s = s\<lparr>st_queue := map (\<lambda>c. if q_off c = 0 then c\<lparr>q_eased := False\<rparr> else c) (st_queue s)\<rparr>"

type_synonym placement = "duration \<times> duration \<times> bool"

definition follow :: "duration \<Rightarrow> stream \<Rightarrow> placement \<times> stream" where
  "follow slip s =
     (if burstySlip < slip \<or> slip < - burstySlip then
        (let s1 = s\<lparr>st_outside := Suc (st_outside s)\<rparr>
         in if st_outside s1 < slipRuns then ((0, 0, False), s1)
            else ((0, slip, True),
                  unease (s1\<lparr>st_origin := st_origin s1 + slip, st_firstSum := 0, st_firstTaken := 0, st_slipMean := 0,
                             st_outside := 0, st_jump := True, st_slips := st_slips s1 + 1\<rparr>)))
      else (let s1 = s\<lparr>st_outside := 0\<rparr>
        in if st_firstTaken s1 < burstyFirst then
             (let s2 = s1\<lparr>st_firstSum := st_firstSum s1 + slip, st_firstTaken := Suc (st_firstTaken s1)\<rparr>
              in if st_firstTaken s2 < burstyFirst then ((0, 0, False), s2)
                 else (let moved = go_div (st_firstSum s2) (int burstyFirst)
                   in ((0, 0, False), unease (s2\<lparr>st_origin := st_origin s2 + moved, st_jump := True\<rparr>))))
           else (let mean = st_slipMean s1 + go_div (slip - st_slipMean s1) burstyOver
             in if mean \<le> burstyBand \<and> - burstyBand \<le> mean then ((0, 0, False), s1\<lparr>st_slipMean := mean\<rparr>)
                else ((0, 0, False), unease (s1\<lparr>st_slipMean := 0, st_origin := st_origin s1 + mean\<rparr>)))))"

definition stream_place :: "point \<Rightarrow> stream \<Rightarrow> placement \<times> stream" where
  "stream_place p s =
     (let due = At p + frameTime (st_rate s) (Ahead p);
          s1 = s\<lparr>st_asked := st_blocks s, st_unread := 0\<rparr>;
          s2 = (if Bursty p \<noteq> st_bursty s1
                then unease (s1\<lparr>st_anchored := False, st_candidates := [], st_outside := 0\<rparr>) else s1);
          s3 = s2\<lparr>st_bursty := Bursty p\<rparr>
      in if \<not> st_anchored s3 then
           (let s4 = (if st_candidates s3 = [] then s3\<lparr>st_ref := st_index s3\<rparr> else s3);
                cands = st_candidates s4 @ [due - frameTime (st_rate s4) (st_index s4 - st_ref s4)]
            in if length cands < anchorTake then ((0, 0, False), s4\<lparr>st_candidates := cands\<rparr>)
               else ((due - At p, 0, False),
                     s4\<lparr>st_origin := sort cands ! (length cands div 2), st_originIndex := st_ref s4,
                        st_candidates := [], st_anchored := True, st_slipMean := 0, st_firstSum := 0,
                        st_firstTaken := 0\<rparr>))
         else (let slip = due - (st_origin s3 + frameTime (st_rate s3) (st_index s3 - st_originIndex s3))
           in if Bursty p then follow slip s3
              else if slip \<le> anchorSlip \<and> - anchorSlip \<le> slip then ((0, 0, False), s3\<lparr>st_outside := 0\<rparr>)
              else if Suc (st_outside s3) < slipRuns then ((0, 0, False), s3\<lparr>st_outside := Suc (st_outside s3)\<rparr>)
              else ((0, slip, True),
                    (unease (s3\<lparr>st_origin := due, st_originIndex := st_index s3\<rparr>))
                      \<lparr>st_outside := 0, st_slips := st_slips s3 + 1\<rparr>)))"

datatype observed = AnchoredAhead duration | PlacedAgain duration

definition stream_observe :: "point \<Rightarrow> stream \<Rightarrow> observed option \<times> stream" where
  "stream_observe p s =
     (case stream_place p s of ((depth, slip, again), s') \<Rightarrow>
       (if 0 < depth then Some (AnchoredAhead depth) else if again then Some (PlacedAgain slip) else None, s'))"


section \<open>What becomes of the frames\<close>

definition held_by :: "queued list \<Rightarrow> int" where
  "held_by q = sum_list (map (\<lambda>c. int (q_frames c) - int (q_off c)) q)"

definition queue_ok :: "stream \<Rightarrow> bool" where
  "queue_ok s \<longleftrightarrow> st_held s = held_by (st_queue s)
     \<and> (\<forall>c \<in> set (st_queue s). q_off c \<le> q_frames c \<and> even (length (q_pcm c)))"

definition marks :: "stream \<Rightarrow> (int \<times> int \<times> int \<times> int \<times> int) \<times> (bool \<times> bool \<times> bool \<times> bool) \<times> int" where
  "marks s = ((st_placed s, st_silence s, st_eased s, st_index s, st_ended s),
     (st_closed s, st_spent s, st_done s, st_anchored s), st_rate s)"

definition fill_inv :: "nat \<Rightarrow> stream \<Rightarrow> stream \<Rightarrow> filling \<Rightarrow> bool" where
  "fill_inv frames s0 s a \<longleftrightarrow> queue_ok s \<and> marks s = marks s0
     \<and> st_held s + st_late s + int (f_filled a) + int (f_trimmed a) = st_held s0 + st_late s0
     \<and> st_held s \<le> st_held s0 \<and> st_late s0 \<le> st_late s \<and> length (st_queue s) \<le> length (st_queue s0)
     \<and> f_pos a \<le> frames \<and> f_filled a + f_blended a \<le> f_pos a \<and> length (f_block a) = frames * ChimeChannels"

lemma ease_head_marks: "ease_head want s c = (s', c') \<Longrightarrow> marks s' = marks s"
  by (auto simp: ease_head_def smoothed_def marks_def Let_def split: if_splits)

lemma length_blend [simp]: "length (blend n f t) = n * ChimeChannels"
  by (simp add: blend_def length_concat o_def sum_list_triv)

lemma length_paste: "k + length xs \<le> length block \<Longrightarrow> length (paste k xs block) = length block"
  by (simp add: paste_def)

lemma length_seam_frame: "ChimeChannels \<le> length xs \<Longrightarrow> length (seam_frame l xs) = length xs"
  by (simp add: seam_frame_def)

lemma even_frames: "even (length (q_pcm c)) \<Longrightarrow> length (q_pcm c) = q_frames c * ChimeChannels"
  by (simp add: q_frames_def ChimeChannels_def)

lemma q_frames_upd [simp]: "q_frames (c\<lparr>q_seam := b\<rparr>) = q_frames c" "q_frames (c\<lparr>q_off := m\<rparr>) = q_frames c"
  by (simp_all add: q_frames_def)

lemma fill_wait_inv:
  assumes "fill_inv frames s0 (s\<lparr>st_queue := c # cs\<rparr>) a" "0 < gap" "fill_wait frames gap c cs s a = (s', a')"
  shows "fill_inv frames s0 s' a'"
proof -
  define n where "n = nat (min gap (int frames - int (f_pos a)))"
  have n: "f_pos a + n \<le> frames" using assms(1,2) by (auto simp: n_def fill_inv_def)
  have "f_pos a * ChimeChannels + n * ChimeChannels \<le> frames * ChimeChannels"
    using mult_le_mono1 [OF n, of ChimeChannels] by (simp add: add_mult_distrib)
  then have "length (paste (f_pos a * ChimeChannels) (blend n l t) (f_block a)) = frames * ChimeChannels" for l t
    using assms(1) length_paste [of "f_pos a * ChimeChannels" "blend n l t" "f_block a"] by (simp add: fill_inv_def)
  then show ?thesis
    using assms n unfolding fill_wait_def Let_def n_def [symmetric] by (auto simp: fill_inv_def split: if_splits)
qed

lemma fill_copy_inv:
  assumes "fill_inv frames s0 (s\<lparr>st_queue := c # cs\<rparr>) a" "f_pos a < frames" "q_off c < q_frames c"
    "fill_copy frames c cs s a = (s', a')"
  shows "fill_inv frames s0 s' a'"
proof -
  define n where "n = min (frames - f_pos a) (q_frames c - q_off c)"
  define xs where "xs = take (n * ChimeChannels) (drop (q_off c * ChimeChannels) (q_pcm c))"
  define smooths where "smooths \<longleftrightarrow> q_soft c \<and> q_seam c \<and> 0 < n"
  define ys where "ys = (if smooths then seam_frame (st_lastOut s) xs else xs)"
  have ok: "even (length (q_pcm c))" using assms(1) by (simp add: fill_inv_def queue_ok_def)
  have n: "0 < n" "f_pos a + n \<le> frames" "q_off c + n \<le> q_frames c" using assms(2,3) by (simp_all add: n_def)
  have "n * ChimeChannels \<le> (q_frames c - q_off c) * ChimeChannels" using n(3) by (intro mult_le_mono1) simp
  then have "length xs = n * ChimeChannels"
    using even_frames [OF ok] by (simp add: xs_def diff_mult_distrib)
  then have ys: "length ys = n * ChimeChannels"
    using n(1) by (simp add: ys_def length_seam_frame)
  have "f_pos a * ChimeChannels + n * ChimeChannels \<le> frames * ChimeChannels"
    using mult_le_mono1 [OF n(2), of ChimeChannels] by (simp add: add_mult_distrib)
  then have blk: "length (paste (f_pos a * ChimeChannels) ys (f_block a)) = frames * ChimeChannels"
    using assms(1) ys length_paste [of "f_pos a * ChimeChannels" ys "f_block a"] by (simp add: fill_inv_def)
  have "s' = s\<lparr>st_lastOut := drop ((n - 1) * ChimeChannels) ys, st_began := True, st_held := st_held s - int n,
        st_queue := (if q_off c + n = q_frames c then cs
          else c\<lparr>q_seam := (if smooths then False else q_seam c), q_off := q_off c + n\<rparr> # cs)\<rparr>"
    "a' = a\<lparr>f_block := paste (f_pos a * ChimeChannels) ys (f_block a), f_pos := f_pos a + n, f_filled := f_filled a + n\<rparr>"
    using assms(4) unfolding fill_copy_def Let_def n_def [symmetric] xs_def [symmetric] smooths_def [symmetric]
      ys_def [symmetric] by auto
  then have f: "st_held s' = st_held s - int n" "st_late s' = st_late s" "marks s' = marks s"
    "st_queue s' = (if q_off c + n = q_frames c then cs
          else c\<lparr>q_seam := (if smooths then False else q_seam c), q_off := q_off c + n\<rparr> # cs)"
    "f_pos a' = f_pos a + n" "f_filled a' = f_filled a + n" "f_trimmed a' = f_trimmed a" "f_blended a' = f_blended a"
    "f_block a' = paste (f_pos a * ChimeChannels) ys (f_block a)"
    by (simp_all add: marks_def)
  have one: "marks s = marks s0" "st_held s = int (q_frames c) - int (q_off c) + held_by cs"
    "\<forall>c \<in> set cs. q_off c \<le> q_frames c \<and> even (length (q_pcm c))"
    "st_held s + st_late s + int (f_filled a) + int (f_trimmed a) = st_held s0 + st_late s0"
    "st_held s \<le> st_held s0" "st_late s0 \<le> st_late s" "Suc (length cs) \<le> length (st_queue s0)"
    "f_filled a + f_blended a \<le> f_pos a"
    using assms(1) by (simp_all add: fill_inv_def queue_ok_def held_by_def marks_def)
  show ?thesis
    unfolding fill_inv_def queue_ok_def f using one n ok blk by (auto simp: held_by_def)
qed

lemma fill_turn_inv:
  assumes "fill_inv frames s0 s a" "f_pos a < frames" "st_queue s = c # cs" "fill_turn frames c cs s a = (s', a')"
  shows "fill_inv frames s0 s' a'"
proof -
  obtain s1 c1 where e: "ease_head (st_index s + int (f_pos a)) s c = (s1, c1)" by fastforce
  note k = ease_head_keeps [OF e] and m = ease_head_marks [OF e]
  have one: "fill_inv frames s0 (s1\<lparr>st_queue := c1 # cs\<rparr>) a"
    using assms(1,3) k m by (auto simp: fill_inv_def queue_ok_def held_by_def marks_def)
  have head: "marks s1 = marks s0" "st_held s1 = int (q_frames c1) - int (q_off c1) + held_by cs"
    "\<forall>c \<in> set cs. q_off c \<le> q_frames c \<and> even (length (q_pcm c))"
    "st_held s1 + st_late s1 + int (f_filled a) + int (f_trimmed a) = st_held s0 + st_late s0"
    "st_held s1 \<le> st_held s0" "st_late s0 \<le> st_late s1" "Suc (length cs) \<le> length (st_queue s0)"
    "f_filled a + f_blended a \<le> f_pos a" "f_pos a \<le> frames" "length (f_block a) = frames * ChimeChannels"
    and ok: "q_off c1 \<le> q_frames c1" "even (length (q_pcm c1))"
    using one by (simp_all add: fill_inv_def queue_ok_def held_by_def marks_def)
  let ?w = "st_index s + int (f_pos a)" and ?st = "q_place c1 + int (q_off c1)"
  consider (drop) "?st + (int (q_frames c1) - int (q_off c1)) \<le> ?w"
    | (skip) "?w < ?st + (int (q_frames c1) - int (q_off c1))" "?st < ?w"
    | (wait) "?w < ?st + (int (q_frames c1) - int (q_off c1))" "?w < ?st"
    | (copy) "?w < ?st + (int (q_frames c1) - int (q_off c1))" "?w = ?st"
    by linarith
  then show ?thesis
  proof cases
    case drop
    define left where "left = int (q_frames c1) - int (q_off c1)"
    have "s' = s1\<lparr>st_late := st_late s1 + left, st_held := st_held s1 - left, st_queue := cs\<rparr>" "a' = a"
      using drop assms(4) e by (simp_all add: fill_turn_def Let_def left_def)
    then have f: "st_late s' = st_late s1 + left" "st_held s' = st_held s1 - left" "st_queue s' = cs" "marks s' = marks s1"
      "a' = a"
      by (simp_all add: marks_def)
    show ?thesis unfolding fill_inv_def queue_ok_def f using head ok left_def by auto
  next
    case skip
    define d where "d = ?w - ?st"
    have d: "0 < d" "d < int (q_frames c1) - int (q_off c1)" using skip by (simp_all add: d_def)
    let ?c = "c1\<lparr>q_seam := True, q_off := q_off c1 + nat d\<rparr>"
    have f: "st_queue s' = ?c # cs" "st_held s' = st_held s1 - d" "marks s' = marks s1"
      "st_late s' + int (f_trimmed a') = st_late s1 + d + int (f_trimmed a)" "st_late s1 \<le> st_late s'"
      "f_pos a' = f_pos a" "f_filled a' = f_filled a" "f_blended a' = f_blended a" "f_block a' = f_block a"
      using skip assms(4) e d_def d(1) by (auto simp: fill_turn_def Let_def marks_def split: if_splits)
    show ?thesis
      unfolding fill_inv_def queue_ok_def f(1-3,6-) using head ok d f(4,5) by (auto simp: held_by_def)
  next
    case wait
    then have w: "fill_wait frames (?st - ?w) c1 cs s1 a = (s', a')" using assms(4) e by (simp add: fill_turn_def)
    show ?thesis by (rule fill_wait_inv [OF one _ w]) (use wait in simp)
  next
    case copy
    then have "fill_copy frames c1 cs s1 a = (s', a')" using assms(4) e by (simp add: fill_turn_def)
    then show ?thesis using fill_copy_inv [OF one assms(2)] copy by simp
  qed
qed

lemma fill_loop_inv: "fill_inv frames s0 s a \<Longrightarrow> fill_loop frames s a = (s', a') \<Longrightarrow> fill_inv frames s0 s' a'"
proof (induction frames s a rule: fill_loop.induct)
  case (1 frames s a)
  show ?case
  proof (cases "frames \<le> f_pos a \<or> st_queue s = []")
    case True
    then show ?thesis using "1.prems" by (subst (asm) fill_loop.simps) (auto split: list.splits)
  next
    case False
    then obtain c cs where q: "st_queue s = c # cs" by (cases "st_queue s") auto
    show ?thesis
    proof (cases "q_pcm c = []")
      case True
      then have "fill_loop frames (s\<lparr>st_queue := cs\<rparr>) a = (s', a')"
        using "1.prems"(2) False q by (subst (asm) fill_loop.simps) simp
      moreover have "q_frames c = 0" using True by (simp add: q_frames_def)
      then have "fill_inv frames s0 (s\<lparr>st_queue := cs\<rparr>) a"
        using "1.prems"(1) q by (auto simp: fill_inv_def queue_ok_def held_by_def marks_def)
      ultimately show ?thesis using "1.IH"(1) False q True by simp
    next
      case some: False
      obtain s2 a2 where t: "fill_turn frames c cs s a = (s2, a2)" by fastforce
      then have "fill_loop frames s2 a2 = (s', a')"
        using "1.prems"(2) False q some by (subst (asm) fill_loop.simps) simp
      moreover have "fill_inv frames s0 s2 a2" using fill_turn_inv [OF "1.prems"(1) _ q t] False by simp
      ultimately show ?thesis using "1.IH"(2) [OF _ q some t [symmetric]] False by simp
    qed
  qed
qed


lemma fill_counts:
  assumes "queue_ok s" "fill frames s = (s', a)"
  shows "fill_inv frames s s' a"
proof -
  let ?a = "\<lparr>f_pos = 0, f_block = replicate (frames * ChimeChannels) 0, f_filled = 0, f_blended = 0, f_trimmed = 0\<rparr>"
  obtain s1 where r: "fill_loop frames s ?a = (s1, a)" and s': "s' = (if f_pos a < frames then s1\<lparr>st_lastOut := no_frame\<rparr> else s1)"
    using assms(2) by (auto simp: fill_def split: prod.splits)
  have "fill_inv frames s s ?a" using assms(1) by (simp add: fill_inv_def)
  from fill_loop_inv [OF this r] show ?thesis by (simp add: s' fill_inv_def queue_ok_def marks_def)
qed

text \<open>Every operation on a stream, with the clock where the code reads it.\<close>

datatype stream_event = SWrite time time bytes | SRead time nat | SFinish | SResume | SClear | SClose | SDuck rat
  | SBlind | SObserve point

fun stream_step :: "stream \<Rightarrow> stream_event \<Rightarrow> stream" where
  "stream_step s (SWrite now t pcm) = snd (stream_write now t pcm s)"
| "stream_step s (SRead now frames) = snd (stream_read now frames s)"
| "stream_step s SFinish = Finish s"
| "stream_step s SResume = snd (Resume s)"
| "stream_step s SClear = stream_clear s"
| "stream_step s SClose = snd (stream_close s)"
| "stream_step s (SDuck v) = stream_duck v s"
| "stream_step s SBlind = snd (stream_blind s)"
| "stream_step s (SObserve p) = snd (stream_observe p s)"

text \<open>What a step takes in, and what a clear throws away.\<close>

fun accepted :: "stream \<Rightarrow> stream_event \<Rightarrow> int" where
  "accepted s (SWrite now t pcm) =
     (if fst (stream_write now t pcm s) = None then int (length pcm div frameBytes) else 0)"
| "accepted s e = 0"

fun cleared :: "stream \<Rightarrow> stream_event \<Rightarrow> int" where
  "cleared s SClear = st_held s"
| "cleared s e = 0"

fun over_run :: "(stream \<Rightarrow> stream_event \<Rightarrow> int) \<Rightarrow> stream \<Rightarrow> stream_event list \<Rightarrow> int" where
  "over_run f s [] = 0"
| "over_run f s (e # es) = f s e + over_run f (stream_step s e) es"

text \<open>
  \<open>trimmed\<close> frames were passed over to ease onto the clock, \<open>blended\<close> ones were made up for it; \<open>eased\<close> counts both.
\<close>

definition books :: "int \<Rightarrow> int \<Rightarrow> stream \<Rightarrow> bool" where
  "books took gone s \<longleftrightarrow> (\<exists>trimmed blended. 0 \<le> trimmed \<and> 0 \<le> blended \<and> st_eased s = trimmed + blended
     \<and> took = st_placed s + st_late s + trimmed + st_ended s + gone + st_held s
     \<and> st_index s = st_placed s + st_silence s + blended)"

definition stream_inv :: "int \<Rightarrow> stream \<Rightarrow> bool" where
  "stream_inv rate s \<longleftrightarrow> queue_ok s \<and> st_rate s = rate \<and> 0 \<le> frameCount rate streamHold \<and> st_held s \<le> frameCount rate streamHold
     \<and> length (st_queue s) \<le> streamChunks"


lemma insert_chunk_split:
  "\<exists>u v w. q = u @ v \<and> insert_chunk c q = u @ [c] @ w \<and> map q_off w = map q_off v \<and> map q_pcm w = map q_pcm v"
proof -
  let ?i = "insert_at (q_at c) q"
  let ?w = "case drop ?i q of [] \<Rightarrow> [] | d # ds \<Rightarrow> d\<lparr>q_eased := False\<rparr> # ds"
  have "map q_off ?w = map q_off (drop ?i q) \<and> map q_pcm ?w = map q_pcm (drop ?i q)" by (cases "drop ?i q") simp_all
  then show ?thesis
    by - (rule exI [of _ "take ?i q"], rule exI [of _ "drop ?i q"], rule exI [of _ ?w], simp add: insert_chunk_def Let_def)
qed

lemma held_by_map: "held_by q = sum_list (map (\<lambda>(p, k). int (length p div ChimeChannels) - int k) (zip (map q_pcm q) (map q_off q)))"
  by (induction q) (simp_all add: held_by_def q_frames_def)

lemma held_by_same: "map q_off w = map q_off v \<Longrightarrow> map q_pcm w = map q_pcm v \<Longrightarrow> held_by w = held_by v"
  by (simp add: held_by_map)

lemma held_by_append [simp]: "held_by (u @ v) = held_by u + held_by v" "held_by [] = 0"
  "held_by (c # v) = int (q_frames c) - int (q_off c) + held_by v"
  by (simp_all add: held_by_def)

definition chunk_ok :: "queued \<Rightarrow> bool" where
  "chunk_ok c \<longleftrightarrow> q_off c \<le> q_frames c \<and> even (length (q_pcm c))"

lemma chunks_same:
  "map q_off w = map q_off v \<Longrightarrow> map q_pcm w = map q_pcm v \<Longrightarrow> list_all chunk_ok v \<Longrightarrow> list_all chunk_ok w"
proof (induction w arbitrary: v)
  case (Cons a w)
  then obtain b u where "v = b # u" by (cases v) auto
  then show ?case using Cons by (auto simp: chunk_ok_def q_frames_def)
qed simp

lemma queue_ok_alt: "queue_ok s \<longleftrightarrow> st_held s = held_by (st_queue s) \<and> list_all chunk_ok (st_queue s)"
  by (auto simp: queue_ok_def list_all_iff chunk_ok_def)

lemma insert_chunk_ok:
  assumes "list_all chunk_ok q" "chunk_ok c"
  shows "held_by (insert_chunk c q) = held_by q + held_by [c]" "list_all chunk_ok (insert_chunk c q)"
    "length (insert_chunk c q) = Suc (length q)"
proof -
  obtain u v w where q: "q = u @ v" "insert_chunk c q = u @ [c] @ w" "map q_off w = map q_off v" "map q_pcm w = map q_pcm v"
    using insert_chunk_split [of q c] by blast
  then show "held_by (insert_chunk c q) = held_by q + held_by [c]" using held_by_same [of w v] by simp
  show "list_all chunk_ok (insert_chunk c q)" using chunks_same [OF q(3,4)] q(1,2) assms by simp
  show "length (insert_chunk c q) = Suc (length q)" using q map_eq_imp_length_eq [OF q(3)] by simp
qed

lemma fresh_chunk_ok:
  "length pcm mod frameBytes = 0 \<Longrightarrow>
     chunk_ok (fresh_chunk t pcm) \<and> held_by [fresh_chunk t pcm] = int (length pcm div frameBytes)"
  by (auto simp: chunk_ok_def fresh_chunk_def q_frames_def held_by_def frameBytes_def ChimeChannels_def
      div_mult2_eq [of _ 2 2, simplified] mod_mult2_eq [of _ 2 2, simplified])

text \<open>What the books and the bounds depend on.\<close>

definition ledger :: "stream \<Rightarrow> (int \<times> int \<times> int \<times> int) \<times> int \<times> int \<times> int" where
  "ledger s = ((st_placed s, st_silence s, st_late s, st_eased s), st_index s, st_ended s, st_rate s)"

lemma books_same: "ledger s' = ledger s \<Longrightarrow> st_held s' = st_held s \<Longrightarrow> books t g s \<Longrightarrow> books t g s'"
  by (simp add: books_def ledger_def)

lemma queue_same:
  assumes "map q_off (st_queue s') = map q_off (st_queue s)" "map q_pcm (st_queue s') = map q_pcm (st_queue s)"
    "st_held s' = st_held s" "st_rate s' = st_rate s" "stream_inv rate s"
  shows "stream_inv rate s'"
  using assms held_by_same [OF assms(1,2)] chunks_same [OF assms(1,2)] map_eq_imp_length_eq [OF assms(1)]
  by (simp add: stream_inv_def queue_ok_alt)

lemma unease_keeps [simp]: "map q_off (st_queue (unease s)) = map q_off (st_queue s)"
  "map q_pcm (st_queue (unease s)) = map q_pcm (st_queue s)" "st_held (unease s) = st_held s" "ledger (unease s) = ledger s"
  "st_rate (unease s) = st_rate s"
  by (auto simp: unease_def ledger_def)

definition kept :: "stream \<Rightarrow> stream \<Rightarrow> bool" where
  "kept s s' \<longleftrightarrow> map q_off (st_queue s') = map q_off (st_queue s) \<and> map q_pcm (st_queue s') = map q_pcm (st_queue s)
     \<and> st_held s' = st_held s \<and> ledger s' = ledger s"

lemma keptD: "kept s s' \<Longrightarrow> stream_inv rate s \<Longrightarrow> stream_inv rate s'" "kept s s' \<Longrightarrow> books t g s \<Longrightarrow> books t g s'"
  using queue_same [of s' s rate] books_same [of s' s] by (auto simp: kept_def ledger_def)

lemma kept_trans: "kept a b \<Longrightarrow> kept b c \<Longrightarrow> kept a c"
  by (simp add: kept_def)

lemma kept_unease [simp]: "kept s (unease t) \<longleftrightarrow> kept s t"
  by (simp add: kept_def)

lemma kept_unease_outside [simp]:
  "kept s (unease t\<lparr>st_outside := a, st_slips := b\<rparr>) \<longleftrightarrow> kept s t"
  by (simp add: kept_def ledger_def unease_def o_def if_distrib cong: if_cong)

lemma kept_same: "st_queue s' = st_queue s \<Longrightarrow> st_held s' = st_held s \<Longrightarrow> ledger s' = ledger s \<Longrightarrow> kept s s'"
  by (simp add: kept_def)

lemma kept_follow: "kept s (snd (follow slip s))"
  by (auto simp: follow_def Let_def intro!: kept_same) (auto simp: ledger_def)


lemma kept_place: "kept s (snd (stream_place p s))"
proof -
  define s3 where "s3 = (let s1 = s\<lparr>st_asked := st_blocks s, st_unread := 0\<rparr>
      in (if Bursty p \<noteq> st_bursty s1
          then unease (s1\<lparr>st_anchored := False, st_candidates := [], st_outside := 0\<rparr>) else s1)\<lparr>st_bursty := Bursty p\<rparr>)"
  have s3: "kept s s3" by (auto simp: s3_def Let_def kept_def ledger_def unease_def)
  have "kept s3 (snd (stream_place p s))"
    unfolding stream_place_def Let_def s3_def [unfolded Let_def, symmetric]
    by (auto intro!: kept_follow kept_same simp: ledger_def)
  then show ?thesis by (rule kept_trans [OF s3])
qed

lemma kept_simple:
  "kept s (snd (Resume s))" "kept s (snd (stream_close s))" "kept s (stream_duck v s)" "kept s (snd (stream_blind s))"
  by (auto simp: Resume_def stream_close_def stream_duck_def stream_blind_def Let_def ledger_def intro!: kept_same)

lemma kept_observe: "kept s (snd (stream_observe p s))"
proof -
  have "snd (stream_observe p s) = snd (stream_place p s)" by (simp add: stream_observe_def split: prod.splits)
  then show ?thesis using kept_place [of s p] by simp
qed

lemma kept_scale: "scale_block b s = (out, s') \<Longrightarrow> kept s s'"
  by (auto simp: scale_block_def ledger_def intro!: kept_same split: if_splits prod.splits)


text \<open>What a read takes off the queue is what it fills and trims, and is entered into the ledger as it is.\<close>

lemma taken_counts:
  assumes "stream_inv rate s0"
    and "(if st_anchored s0
          then (case fill frames s0 of (u, a) \<Rightarrow> (u, f_block a, f_filled a, f_blended a, f_trimmed a))
          else (s0, replicate (frames * ChimeChannels) 0, 0, 0, 0)) = (s1, block, filled, blended, trimmed)"
  shows "queue_ok s1 \<and> marks s1 = marks s0 \<and> st_held s1 + st_late s1 + int filled + int trimmed = st_held s0 + st_late s0
      \<and> st_held s1 \<le> st_held s0 \<and> length (st_queue s1) \<le> length (st_queue s0)"
proof (cases "st_anchored s0")
  case True
  obtain u a where "fill frames s0 = (u, a)" by fastforce
  then show ?thesis using fill_counts [of s0 frames u a] assms True by (auto simp: fill_inv_def stream_inv_def)
next
  case False
  then show ?thesis using assms by (auto simp: stream_inv_def)
qed

definition entered :: "nat \<Rightarrow> nat \<Rightarrow> nat \<Rightarrow> nat \<Rightarrow> stream \<Rightarrow> stream" where
  "entered frames filled blended trimmed s =
     s\<lparr>st_placed := st_placed s + int filled, st_silence := st_silence s + (int frames - int filled - int blended),
       st_eased := st_eased s + (int blended + int trimmed),
       st_index := st_index s + int frames, st_blocks := st_blocks s + 1\<rparr>"

lemma entered_accounts:
  assumes "stream_inv rate s0" "books t g s0" "queue_ok s1" "marks s1 = marks s0"
    and "st_held s1 + st_late s1 + int filled + int trimmed = st_held s0 + st_late s0"
    and "st_held s1 \<le> st_held s0" "length (st_queue s1) \<le> length (st_queue s0)"
  shows "stream_inv rate (entered frames filled blended trimmed s1) \<and> books t g (entered frames filled blended trimmed s1)"
proof -
  have m: "st_placed s1 = st_placed s0" "st_silence s1 = st_silence s0" "st_eased s1 = st_eased s0"
    "st_index s1 = st_index s0" "st_ended s1 = st_ended s0" "st_rate s1 = st_rate s0"
    using assms(4) by (simp_all add: marks_def)
  obtain tr bl where "0 \<le> tr" "0 \<le> bl" "st_eased s0 = tr + bl"
    "t = st_placed s0 + st_late s0 + tr + st_ended s0 + g + st_held s0" "st_index s0 = st_placed s0 + st_silence s0 + bl"
    using assms(2) by (auto simp: books_def)
  then have "books t g (entered frames filled blended trimmed s1)"
    unfolding books_def using assms(5) m
    by (intro exI [of _ "tr + int trimmed"] exI [of _ "bl + int blended"]) (simp add: entered_def)
  then show ?thesis using assms m by (simp add: entered_def stream_inv_def queue_ok_def)
qed

lemma read_accounts:
  assumes "stream_inv rate s" "books t g s"
  shows "stream_inv rate (snd (stream_read now frames s)) \<and> books t g (snd (stream_read now frames s))"
proof -
  consider (over) "st_closed s \<or> st_spent s" | (fin) "\<not> (st_closed s \<or> st_spent s)" "st_done s"
    | (goes) "\<not> (st_closed s \<or> st_spent s)" "\<not> st_done s"
    by blast
  then show ?thesis
  proof cases
    case over
    then show ?thesis using assms by (simp add: stream_read_def)
  next
    case fin
    then have "kept s (snd (stream_read now frames s))"
      by (auto simp: stream_read_def ledger_def intro!: kept_same)
    then show ?thesis using keptD assms by blast
  next
    case goes
    define s0 where "s0 = (if st_first s = None then s\<lparr>st_first := Some now\<rparr> else s)"
    have "kept s s0" by (auto simp: s0_def ledger_def intro!: kept_same)
    then have s0: "stream_inv rate s0" "books t g s0" using keptD assms by blast+
    obtain s1 block filled blended trimmed where f:
      "(if st_anchored s0
        then (case fill frames s0 of (u, a) \<Rightarrow> (u, f_block a, f_filled a, f_blended a, f_trimmed a))
        else (s0, replicate (frames * ChimeChannels) 0, 0, 0, 0)) = (s1, block, filled, blended, trimmed)"
      by (cases "if st_anchored s0
        then (case fill frames s0 of (u, a) \<Rightarrow> (u, f_block a, f_filled a, f_blended a, f_trimmed a))
        else (s0, replicate (frames * ChimeChannels) 0, 0, 0, 0)")
    obtain out s3 where sc: "scale_block block (entered frames filled blended trimmed s1) = (out, s3)" by fastforce
    have r: "snd (stream_read now frames s) = s3"
      using goes sc f unfolding stream_read_def Let_def s0_def [symmetric] by (simp add: entered_def)
    have "stream_inv rate (entered frames filled blended trimmed s1) \<and> books t g (entered frames filled blended trimmed s1)"
      using taken_counts [OF s0(1) f] by (intro entered_accounts [OF s0]) simp_all
    then show ?thesis using keptD [OF kept_scale [OF sc]] r by simp
  qed
qed

lemma write_accounts:
  assumes "stream_inv rate s" "books t g s"
  shows "stream_inv rate (snd (stream_write now at' pcm s))
    \<and> books (t + accepted s (SWrite now at' pcm)) g (snd (stream_write now at' pcm s))"
proof (cases "fst (stream_write now at' pcm s) = None")
  case False
  then have "snd (stream_write now at' pcm s) = s" by (auto simp: stream_write_def Let_def split: if_splits)
  moreover have "accepted s (SWrite now at' pcm) = 0" using False by auto
  ultimately show ?thesis using assms by (simp del: accepted.simps)
next
  case True
  define k where "k = int (length pcm div frameBytes)"
  let ?c = "fresh_chunk at' pcm"
  have w: "length pcm mod frameBytes = 0" "st_held s + k \<le> frameCount (st_rate s) streamHold"
    "length (st_queue s) < streamChunks"
    "snd (stream_write now at' pcm s) = s\<lparr>st_queue := insert_chunk ?c (st_queue s), st_held := st_held s + k\<rparr>"
    using True by (auto simp: stream_write_def Let_def k_def split: if_splits)
  have c: "chunk_ok ?c" "held_by [?c] = k" using fresh_chunk_ok [OF w(1)] by (simp_all add: k_def)
  have q: "list_all chunk_ok (st_queue s)" "st_held s = held_by (st_queue s)"
    using assms(1) by (simp_all add: stream_inv_def queue_ok_alt)
  note ins = insert_chunk_ok [OF q(1) c(1)]
  have "stream_inv rate (snd (stream_write now at' pcm s))"
    using assms(1) w ins c q by (simp add: stream_inv_def queue_ok_alt)
  moreover have "books (t + k) g (snd (stream_write now at' pcm s))"
    using assms(2) unfolding w(4) books_def by auto
  ultimately show ?thesis using True by (simp add: k_def)
qed

lemma discard_accounts:
  assumes "stream_inv rate s" "books t g s"
  shows "stream_inv rate (Finish s) \<and> books t g (Finish s)"
    "stream_inv rate (stream_clear s) \<and> books t (g + st_held s) (stream_clear s)"
  using assms
  by (auto simp: Finish_def stream_clear_def stream_discard_def stream_inv_def queue_ok_alt books_def)


lemma step_accounts:
  assumes "stream_inv rate s" "books t g s"
  shows "stream_inv rate (stream_step s e) \<and> books (t + accepted s e) (g + cleared s e) (stream_step s e)"
proof (cases e)
  case (SWrite now at' pcm)
  then show ?thesis using write_accounts [OF assms, of now at' pcm] by simp
next
  case (SRead now frames)
  then show ?thesis using read_accounts [OF assms] by simp
next
  case SFinish
  then show ?thesis using discard_accounts(1) [OF assms] by simp
next
  case SClear
  then show ?thesis using discard_accounts(2) [OF assms] by simp
qed (use keptD(1) [OF _ assms(1)] keptD(2) [OF _ assms(2)] kept_simple kept_observe in auto)

lemma run_accounts:
  "stream_inv rate s \<Longrightarrow> books t g s \<Longrightarrow>
     stream_inv rate (foldl stream_step s es)
     \<and> books (t + over_run accepted s es) (g + over_run cleared s es) (foldl stream_step s es)"
proof (induction es arbitrary: s t g)
  case (Cons e es)
  note st = step_accounts [OF Cons.prems, of e]
  show ?case using Cons.IH [OF conjunct1 [OF st] conjunct2 [OF st]]
    by (simp add: add.assoc del: stream_step.simps accepted.simps cleared.simps)
qed simp

text \<open>
  C19. A stream accounts for every frame it accepts, whatever is written, read, observed and ended in whatever order:
  each is placed, dropped as late, trimmed to ease onto the clock, discarded by the server's end or by a clear, or
  still held; and every frame read is one that was placed, silence, or made up for the easing. It never holds
  more than its bounds.
\<close>

theorem stream_accounts:
  "let s0 = new_stream (int r) level; s = foldl stream_step s0 es
   in books (over_run accepted s0 es) (over_run cleared s0 es) s
      \<and> st_held s \<le> frameCount (int r) streamHold \<and> length (st_queue s) \<le> streamChunks \<and> queue_ok s"
proof -
  let ?s = "new_stream (int r) level"
  have "0 \<le> frameCount (int r) streamHold" by (simp add: frameCount_def streamHold_def)
  then have "stream_inv (int r) ?s" "books 0 0 ?s"
    by (simp_all add: stream_inv_def queue_ok_def new_stream_def books_def)
  from run_accounts [OF this, of es] show ?thesis by (simp add: Let_def stream_inv_def)
qed

section \<open>Where a chunk lands\<close>

text \<open>
  C21. A chunk is placed within fifty milliseconds and a step of where the server's clock puts it, and exactly there
  when it is the first, when the stream has just been moved, or when it is further off than that.
\<close>

theorem chunk_placed_near:
  assumes "0 \<le> st_rate s"
  shows "case ease_head want s (c\<lparr>q_eased := False\<rparr>) of
     (s', c') \<Rightarrow> q_eased c'
       \<and> \<bar>q_place c' - frameAt (q_at c) s\<bar>
           \<le> (if \<not> st_began s \<or> st_jump s \<or> frameCount (st_rate s) snapAbove < \<bar>frameAt (q_at c) s - want\<bar> then 0
              else frameCount (st_rate s) snapAbove + max 1 (frameCount (st_rate s) softStep))"
proof -
  have e: "\<bar>ease h t\<bar> \<le> max 1 (frameCount (st_rate t) softStep)" if "0 \<le> st_rate t" for h t
  proof -
    have "0 \<le> frameCount (st_rate t) deadBand" using that by (simp add: frameCount_def deadBand_def)
    then show ?thesis by (auto simp: ease_def Let_def)
  qed
  have sm: "st_rate (snd (smoothed err s)) = st_rate s" "st_began (snd (smoothed err s)) = st_began s"
    "st_jump (snd (smoothed err s)) = st_jump s" for err
    by (simp_all add: smoothed_def Let_def)
  obtain h s1 where s1: "smoothed (frameAt (q_at c) s - want) s = (h, s1)" by fastforce
  have "st_rate s1 = st_rate s" "st_began s1 = st_began s" "st_jump s1 = st_jump s"
    using sm [of "frameAt (q_at c) s - want"] s1 by simp_all
  then show ?thesis using e [of s1 h] assms by (auto simp: ease_head_def s1 Let_def)
qed

theorem chunk_placed_near_witness:
  "\<bar>q_place (snd (ease_head 0 (new_stream 48000 0) (fresh_chunk 1000000 []))) - 48\<bar> \<le> 0"
proof -
  let ?s = "new_stream 48000 0"
  have "0 \<le> st_rate ?s" by (simp add: new_stream_def)
  moreover have "frameAt 1000000 ?s = 48"
    by (simp add: frameAt_def new_stream_def frameCount_def go_div_def go_mod_def)
  moreover have "(fresh_chunk 1000000 [])\<lparr>q_eased := False\<rparr> = fresh_chunk 1000000 []" by (simp add: fresh_chunk_def)
  moreover have "q_at (fresh_chunk 1000000 []) = 1000000" "\<not> st_began ?s" by (simp_all add: fresh_chunk_def new_stream_def)
  ultimately show ?thesis using chunk_placed_near [of ?s "fresh_chunk 1000000 []" 0] by (simp split: prod.splits)
qed

end
