(* ===== verification/Audio_Player.thy ===== *)
theory Audio_Player
  imports Audio_Stream
begin

text \<open>
  The mixer of \<open>internal/audio/mixer.go\<close> and the player of \<open>chime_android.go\<close>: a chime and at most one stream
  share an output that opens at one rate at a time. The sources the code reaches through pointers are names into
  a store; the C calls that open and feed OpenSL ES answer through arguments, and a chime's samples are given.
\<close>

datatype src = SrcClip int | SrcStream nat

record clip =
  cl_pcm :: "sample list"
  cl_at :: nat

definition clip_read :: "nat \<Rightarrow> clip \<Rightarrow> sample list \<times> bool \<times> clip" where
  "clip_read samples c =
     (let xs = take samples (drop (cl_at c) (cl_pcm c)); k = cl_at c + length xs
      in (xs, k < length (cl_pcm c), c\<lparr>cl_at := k\<rparr>))"

record player =
  pl_srcs :: "src list"
  pl_woke :: bool
  pl_clips :: "int \<Rightarrow> clip"
  pl_streams :: "nat \<Rightarrow> stream"
  pl_next :: nat
  pl_live :: "nat option"
  pl_rate :: int
  pl_cut :: rat
  pl_closed :: bool

section \<open>The mixer\<close>

definition mix_add :: "src \<Rightarrow> player \<Rightarrow> player" where
  "mix_add x p = p\<lparr>pl_srcs := (if x \<in> set (pl_srcs p) then pl_srcs p else pl_srcs p @ [x]), pl_woke := True\<rparr>"

definition mix_start :: "int \<Rightarrow> player \<Rightarrow> player" where
  "mix_start r p = mix_add (SrcClip r) (p\<lparr>pl_clips := (pl_clips p)(r := (pl_clips p r)\<lparr>cl_at := 0\<rparr>)\<rparr>)"

definition mix_remove :: "src \<Rightarrow> player \<Rightarrow> player" where
  "mix_remove x p = p\<lparr>pl_srcs := filter (\<lambda>y. y \<noteq> x) (pl_srcs p)\<rparr>"

definition sounding :: "player \<Rightarrow> bool" where
  "sounding p \<longleftrightarrow> pl_srcs p \<noteq> []"

definition mix_in :: "sample list \<Rightarrow> sample list \<Rightarrow> sample list" where
  "mix_in block xs = map2 sum16 block xs @ drop (length xs) block"

definition read_src :: "time \<Rightarrow> nat \<Rightarrow> src \<Rightarrow> player \<Rightarrow> sample list \<times> bool \<times> player" where
  "read_src now frames x p =
     (case x of
        SrcClip r \<Rightarrow> (case clip_read (frames * ChimeChannels) (pl_clips p r) of
            (xs, more', c) \<Rightarrow> (xs, more', p\<lparr>pl_clips := (pl_clips p)(r := c)\<rparr>))
      | SrcStream i \<Rightarrow> (case stream_read now frames (pl_streams p i) of
            (None, s) \<Rightarrow> ([], False, p\<lparr>pl_streams := (pl_streams p)(i := s)\<rparr>)
          | (Some xs, s) \<Rightarrow> (xs, True, p\<lparr>pl_streams := (pl_streams p)(i := s)\<rparr>)))"

fun mix_srcs :: "time \<Rightarrow> nat \<Rightarrow> src list \<Rightarrow> sample list \<Rightarrow> player \<Rightarrow> src list \<times> sample list \<times> player" where
  "mix_srcs now frames [] block p = ([], block, p)"
| "mix_srcs now frames (x # xs) block p =
     (case read_src now frames x p of (ys, more', p1) \<Rightarrow>
       case mix_srcs now frames xs (mix_in block ys) p1 of (keep, out, p2) \<Rightarrow>
         ((if more' then [x] else []) @ keep, out, p2))"

definition mix_next :: "time \<Rightarrow> nat \<Rightarrow> player \<Rightarrow> sample list option \<times> player" where
  "mix_next now frames p =
     (if pl_srcs p = [] then (None, p)
      else (case mix_srcs now frames (pl_srcs p) (replicate (frames * ChimeChannels) 0) p of
          (keep, out, p1) \<Rightarrow> (Some out, p1\<lparr>pl_srcs := keep\<rparr>)))"

section \<open>The player\<close>

datatype player_error = AlreadyOpen | NoOutput | PlayAfterClose | StreamAfterClose | NoSuchRate int | StreamHeld
  | AskedAfterClose | NothingPlaying | OutputUnread status_error | NoPoint point_error

text \<open>\<open>NewChime\<close>: \<open>held\<close> is whether the process holds a player already, and the two flags what the C calls answer.\<close>

definition NewChime :: "bool \<Rightarrow> bool \<Rightarrow> bool \<Rightarrow> (int \<Rightarrow> sample list) \<Rightarrow> player_error + player" where
  "NewChime held opens starts pcm =
     (if held then Inl AlreadyOpen
      else if \<not> opens then Inl NoOutput
      else if \<not> starts then Inl NoOutput
      else Inr \<lparr>pl_srcs = [], pl_woke = False, pl_clips = (\<lambda>r. \<lparr>cl_pcm = pcm r, cl_at = 0\<rparr>),
                pl_streams = (\<lambda>_. new_stream 0 0), pl_next = 0, pl_live = None, pl_rate = ChimeRate, pl_cut = 0,
                pl_closed = False\<rparr>)"

definition PlayChime :: "player \<Rightarrow> player_error option \<times> player" where
  "PlayChime p = (if pl_closed p then (Some PlayAfterClose, p) else (None, mix_start (pl_rate p) p))"

text \<open>Closing a stream tells its player, which drops it if it is the one it holds.\<close>

definition close_stream :: "nat \<Rightarrow> player \<Rightarrow> player" where
  "close_stream i p =
     (case stream_close (pl_streams p i) of
        (None, s) \<Rightarrow> p
      | (Some e, s) \<Rightarrow> p\<lparr>pl_streams := (pl_streams p)(i := s),
                           pl_live := (if pl_live p = Some i then None else pl_live p)\<rparr>)"

definition open_new :: "int \<Rightarrow> player \<Rightarrow> player" where
  "open_new rate p =
     (let i = pl_next p;
          p1 = p\<lparr>pl_streams := (pl_streams p)(i := new_stream rate (pl_cut p)), pl_next := Suc i, pl_live := Some i\<rparr>
      in if rate = pl_rate p1 then mix_add (SrcStream i) p1 else p1\<lparr>pl_woke := True\<rparr>)"

definition OpenStream :: "int \<Rightarrow> player \<Rightarrow> (player_error + nat) \<times> player" where
  "OpenStream rate p =
     (if pl_closed p then (Inl StreamAfterClose, p)
      else if rate \<notin> set Rates then (Inl (NoSuchRate rate), p)
      else (case pl_live p of
          None \<Rightarrow> (Inr (pl_next p), open_new rate p)
        | Some i \<Rightarrow>
            if \<not> Spent (pl_streams p i) then (Inl StreamHeld, p)
            else (Inr (pl_next p), open_new rate ((close_stream i p)\<lparr>pl_live := None\<rparr>))))"

definition Duck :: "int \<Rightarrow> player \<Rightarrow> player" where
  "Duck percent p =
     (let level = duckCut percent; p1 = p\<lparr>pl_cut := level\<rparr>
      in (case pl_live p1 of None \<Rightarrow> p1
          | Some i \<Rightarrow> p1\<lparr>pl_streams := (pl_streams p1)(i := stream_duck level (pl_streams p1 i))\<rparr>))"

text \<open>\<open>opens\<close> is whether the output opens again at the stream's rate; the writer stops when it does not.\<close>

definition retune :: "bool \<Rightarrow> player \<Rightarrow> bool \<times> player" where
  "retune opens p =
     (case pl_live p of
        None \<Rightarrow> (True, p)
      | Some i \<Rightarrow>
          if pl_closed p \<or> st_rate (pl_streams p i) = pl_rate p \<or> Spent (pl_streams p i) then (True, p)
          else (let p1 = mix_remove (SrcClip (pl_rate p)) p
            in if \<not> opens then (False, p1)
               else (True, mix_add (SrcStream i) (p1\<lparr>pl_rate := st_rate (pl_streams p1 i)\<rparr>))))"

definition chime_ahead :: "time \<Rightarrow> (status_error + pcm_status) \<Rightarrow> int \<Rightarrow> player \<Rightarrow> player_error + point" where
  "chime_ahead now status pending p =
     (if pl_closed p then Inl AskedAfterClose
      else if \<not> sounding p then Inl NothingPlaying
      else (case status of
          Inl e \<Rightarrow> Inl (OutputUnread e)
        | Inr st \<Rightarrow> (case point_of pending st now (pl_rate p) of Inl e \<Rightarrow> Inl (NoPoint e) | Inr q \<Rightarrow> Inr q)))"

definition look :: "time \<Rightarrow> (status_error + pcm_status) \<Rightarrow> int \<Rightarrow> player \<Rightarrow> player" where
  "look now status pending p =
     (case pl_live p of
        None \<Rightarrow> p
      | Some i \<Rightarrow>
          if Spent (pl_streams p i) then close_stream i p
          else if \<not> stream_wants now (pl_streams p i) then p
          else (case chime_ahead now status pending p of
              Inl e \<Rightarrow> p\<lparr>pl_streams := (pl_streams p)(i := snd (stream_blind (pl_streams p i)))\<rparr>
            | Inr q \<Rightarrow> p\<lparr>pl_streams := (pl_streams p)(i := snd (stream_observe q (pl_streams p i)))\<rparr>))"

text \<open>
  One turn of the writer: \<open>None\<close> when it goes on to wait, and otherwise what it pushes to the output. What the
  device answers is the same for the two looks a turn may take.
\<close>

record write_env =
  w_now :: time
  w_status :: "status_error + pcm_status"
  w_pending :: int
  w_opens :: bool

datatype write_does = WriterStops | WriterWaits | Pushes bytes

definition write_turn :: "write_env \<Rightarrow> player \<Rightarrow> write_does \<times> player" where
  "write_turn E p =
     (let p1 = look (w_now E) (w_status E) (w_pending E) p
      in (case retune (w_opens E) p1 of
          (False, p2) \<Rightarrow> (WriterStops, p2)
        | (True, p2) \<Rightarrow>
            (case mix_next (w_now E) BlockFrames p2 of
               (None, p3) \<Rightarrow> (WriterWaits, look (w_now E) (w_status E) (w_pending E) p3)
             | (Some block, p3) \<Rightarrow> (Pushes (encode_pcm block), p3))))"

definition begin_close :: "player \<Rightarrow> player" where
  "begin_close p = p\<lparr>pl_closed := True\<rparr>"

definition end_close :: "player \<Rightarrow> player" where
  "end_close p = (case pl_live p of None \<Rightarrow> p | Some i \<Rightarrow> close_stream i p)"

section \<open>One stream is heard at a time\<close>

datatype player_event = PPlay | POpen int | PDuck int | PTurn write_env | PBeginClose | PEndClose
  | PStream nat stream_event

text \<open>The client works on the stream it opened; a stream's own close reaches the player.\<close>

definition on_stream :: "nat \<Rightarrow> stream_event \<Rightarrow> player \<Rightarrow> player" where
  "on_stream i e p =
     (case e of
        SClose \<Rightarrow> close_stream i p
      | SRead now frames \<Rightarrow> p
      | _ \<Rightarrow> p\<lparr>pl_streams := (pl_streams p)(i := stream_step (pl_streams p i) e)\<rparr>)"

fun player_step :: "player \<Rightarrow> player_event \<Rightarrow> player" where
  "player_step p PPlay = snd (PlayChime p)"
| "player_step p (POpen r) = snd (OpenStream r p)"
| "player_step p (PDuck k) = Duck k p"
| "player_step p (PTurn E) = snd (write_turn E p)"
| "player_step p PBeginClose = begin_close p"
| "player_step p PEndClose = end_close p"
| "player_step p (PStream i e) = (if i < pl_next p then on_stream i e p else p)"

definition player_inv :: "player \<Rightarrow> bool" where
  "player_inv p \<longleftrightarrow> distinct (pl_srcs p)
     \<and> (\<forall>i. i < pl_next p \<longrightarrow> Spent (pl_streams p i) \<or> pl_live p = Some i)
     \<and> (\<forall>i. pl_live p = Some i \<longrightarrow> i < pl_next p)
     \<and> (\<forall>i. SrcStream i \<in> set (pl_srcs p) \<longrightarrow> i < pl_next p
            \<and> (Spent (pl_streams p i) \<or> st_rate (pl_streams p i) = pl_rate p))"


lemma fill_wait_marks: "fill_wait frames gap c cs s a = (s', a') \<Longrightarrow> marks s' = marks s"
  by (auto simp: fill_wait_def marks_def Let_def split: if_splits)

lemma fill_copy_marks: "fill_copy frames c cs s a = (s', a') \<Longrightarrow> marks s' = marks s"
  by (auto simp: fill_copy_def marks_def Let_def)

lemma fill_turn_marks:
  assumes "fill_turn frames c cs s a = (s', a')"
  shows "marks s' = marks s"
proof -
  obtain s1 c1 where e: "ease_head (st_index s + int (f_pos a)) s c = (s1, c1)" by fastforce
  have m: "marks s1 = marks s" by (rule ease_head_marks [OF e])
  have "marks s' = marks s1"
    using assms e by (auto simp: fill_turn_def Let_def split: if_splits dest: fill_wait_marks fill_copy_marks)
      (auto simp: marks_def)
  then show ?thesis using m by simp
qed

lemma fill_loop_marks: "marks (fst (fill_loop frames s a)) = marks s"
proof (induction frames s a rule: fill_loop.induct)
  case (1 frames s a)
  show ?case
  proof (cases "frames \<le> f_pos a \<or> st_queue s = []")
    case True
    then show ?thesis by (subst fill_loop.simps) (auto split: list.splits)
  next
    case False
    then obtain c cs where q: "st_queue s = c # cs" by (cases "st_queue s") auto
    obtain s2 a2 where t: "fill_turn frames c cs s a = (s2, a2)" by fastforce
    show ?thesis
    proof (cases "q_pcm c = []")
      case True
      have "marks (s\<lparr>st_queue := cs\<rparr>) = marks s" by (simp add: marks_def)
      then show ?thesis using "1.IH"(1) [OF _ q True] False q True by (subst fill_loop.simps) simp
    next
      case some: False
      then show ?thesis using "1.IH"(2) [OF _ q some t [symmetric]] fill_turn_marks [OF t] False q t
        by (subst fill_loop.simps) simp
    qed
  qed
qed

lemma marks_lastOut [simp]: "marks (s\<lparr>st_lastOut := l\<rparr>) = marks s"
  by (simp add: marks_def)

lemma fill_marks: "marks (fst (fill frames s)) = marks s"
proof -
  let ?a = "\<lparr>f_pos = 0, f_block = replicate (frames * ChimeChannels) 0, f_filled = 0, f_blended = 0, f_trimmed = 0\<rparr>"
  obtain s1 a where r: "fill_loop frames s ?a = (s1, a)" by fastforce
  have "marks s1 = marks s" using fill_loop_marks [of frames s ?a] r by simp
  then show ?thesis using r by (simp add: fill_def)
qed

text \<open>No operation changes a stream's rate, and none revives one that is over.\<close>

definition onward :: "stream \<Rightarrow> stream \<Rightarrow> bool" where
  "onward s s' \<longleftrightarrow> st_rate s' = st_rate s \<and> (Spent s \<longrightarrow> Spent s')"

lemma onward_refl [simp]: "onward s s"
  by (simp add: onward_def)

lemma onward_trans: "onward a b \<Longrightarrow> onward b c \<Longrightarrow> onward a c"
  by (simp add: onward_def)

lemma onward_read: "onward s (snd (stream_read now frames s))"
proof (cases "st_closed s \<or> st_spent s \<or> st_done s")
  case True
  then show ?thesis by (auto simp: stream_read_def onward_def Spent_def)
next
  case False
  define s0 where "s0 = (if st_first s = None then s\<lparr>st_first := Some now\<rparr> else s)"
  have "marks (fst (fill frames s0)) = marks s0" by (rule fill_marks)
  then have "st_rate (fst (fill frames s0)) = st_rate s" by (auto simp: marks_def s0_def)
  then have "st_rate (snd (stream_read now frames s)) = st_rate s"
    using False unfolding stream_read_def Let_def s0_def [symmetric]
    by (auto simp: scale_block_def s0_def split: prod.splits if_splits)
  then show ?thesis using False by (simp add: onward_def Spent_def)
qed

lemma onward_unease [simp]: "onward s (unease t) \<longleftrightarrow> onward s t"
  by (simp add: onward_def unease_def Spent_def)

lemma onward_fields:
  "st_rate s' = st_rate s \<Longrightarrow> st_closed s' = st_closed s \<Longrightarrow> st_spent s' = st_spent s \<Longrightarrow> onward s s'"
  by (simp add: onward_def Spent_def)

lemma onward_follow: "onward s (snd (follow slip s))"
  by (auto simp: follow_def Let_def intro: onward_fields)

lemma onward_observe: "onward s (snd (stream_observe p s))"
proof -
  define s3 where "s3 = (let s1 = s\<lparr>st_asked := st_blocks s, st_unread := 0\<rparr>
      in (if Bursty p \<noteq> st_bursty s1
          then unease (s1\<lparr>st_anchored := False, st_candidates := [], st_outside := 0\<rparr>) else s1)\<lparr>st_bursty := Bursty p\<rparr>)"
  have s3: "onward s s3" by (simp add: s3_def Let_def onward_def unease_def Spent_def)
  have "onward s3 (snd (stream_place p s))"
    unfolding stream_place_def Let_def s3_def [unfolded Let_def, symmetric]
    by (auto intro!: onward_follow) (simp_all add: onward_def unease_def Spent_def)
  then have "onward s (snd (stream_place p s))" by (rule onward_trans [OF s3])
  moreover have "snd (stream_observe p s) = snd (stream_place p s)" by (simp add: stream_observe_def split: prod.splits)
  ultimately show ?thesis by simp
qed

lemma onward_step: "onward s (stream_step s e)"
proof (cases e)
  case (SRead now frames)
  then show ?thesis using onward_read by simp
next
  case (SObserve p)
  then show ?thesis using onward_observe by simp
qed (auto simp: onward_def Spent_def stream_write_def Finish_def stream_discard_def Resume_def stream_clear_def
    stream_close_def stream_duck_def stream_blind_def Let_def)


lemma player_mono:
  assumes "player_inv p" "distinct (pl_srcs p')" "set (pl_srcs p') \<subseteq> set (pl_srcs p)" "pl_live p' = pl_live p"
    "pl_next p' = pl_next p" "pl_rate p' = pl_rate p" "\<And>i. onward (pl_streams p i) (pl_streams p' i)"
  shows "player_inv p'"
proof -
  have o: "Spent (pl_streams p i) \<Longrightarrow> Spent (pl_streams p' i)" "st_rate (pl_streams p' i) = st_rate (pl_streams p i)" for i
    using assms(7) [of i] by (simp_all add: onward_def)
  show ?thesis using assms(1-6) o unfolding player_inv_def by auto
qed

lemma player_upd:
  "player_inv p \<Longrightarrow> onward (pl_streams p i) s \<Longrightarrow> player_inv (p\<lparr>pl_streams := (pl_streams p)(i := s)\<rparr>)"
  by (rule player_mono) (auto simp: player_inv_def)

lemma close_stream_inv: "player_inv p \<Longrightarrow> player_inv (close_stream i p)"
proof (cases "st_closed (pl_streams p i)")
  case True
  assume "player_inv p"
  then show ?thesis using True by (simp add: close_stream_def stream_close_def)
next
  case False
  assume a: "player_inv p"
  have s: "Spent (pl_streams (close_stream i p) i)" "pl_streams (close_stream i p) j = pl_streams p j \<or> j = i"
    "st_rate (pl_streams (close_stream i p) j) = st_rate (pl_streams p j)"
    "pl_live (close_stream i p) = (if pl_live p = Some i then None else pl_live p)"
    "pl_next (close_stream i p) = pl_next p" "pl_srcs (close_stream i p) = pl_srcs p" "pl_rate (close_stream i p) = pl_rate p"
    for j
    using False by (simp_all add: close_stream_def stream_close_def Spent_def)
  show ?thesis unfolding player_inv_def s(3-)
  proof (intro conjI allI impI)
    show "distinct (pl_srcs p)" using a by (simp add: player_inv_def)
    show "Spent (pl_streams (close_stream i p) j) \<or> (if pl_live p = Some i then None else pl_live p) = Some j"
      if "j < pl_next p" for j
    proof (cases "j = i")
      case True
      then show ?thesis using s(1) by simp
    next
      case False
      then have "pl_streams (close_stream i p) j = pl_streams p j" using s(2) by blast
      moreover have "Spent (pl_streams p j) \<or> pl_live p = Some j" using a that by (simp add: player_inv_def)
      ultimately show ?thesis using False by auto
    qed
    show "j < pl_next p" if "(if pl_live p = Some i then None else pl_live p) = Some j" for j
      using a that by (auto simp: player_inv_def split: if_splits)
    show "j < pl_next p" if "SrcStream j \<in> set (pl_srcs p)" for j
      using a that by (simp add: player_inv_def)
    show "Spent (pl_streams (close_stream i p) j) \<or> st_rate (pl_streams p j) = pl_rate p"
      if "SrcStream j \<in> set (pl_srcs p)" for j
      using a that s(1) s(2) [of j] unfolding player_inv_def by metis
  qed
qed

lemma add_clip_inv: "player_inv p \<Longrightarrow> player_inv (mix_add (SrcClip r) p)"
  by (auto simp: player_inv_def mix_add_def)

lemma play_inv: "player_inv p \<Longrightarrow> player_inv (snd (PlayChime p))"
proof -
  assume a: "player_inv p"
  have "player_inv (p\<lparr>pl_clips := cs\<rparr>)" for cs using a by (simp add: player_inv_def)
  then show ?thesis using a add_clip_inv by (simp add: PlayChime_def mix_start_def)
qed

lemma close_none: "pl_live (close_stream i p) = (if pl_live p = Some i \<and> \<not> st_closed (pl_streams p i) then None else pl_live p)"
  by (simp add: close_stream_def stream_close_def)

lemma live_none_inv:
  "player_inv q \<Longrightarrow> (\<And>i. pl_live q = Some i \<Longrightarrow> Spent (pl_streams q i)) \<Longrightarrow> player_inv (q\<lparr>pl_live := None\<rparr>)"
  unfolding player_inv_def by auto

lemma open_new_inv:
  assumes "player_inv q" "pl_live q = None"
  shows "player_inv (open_new rate q)"
proof -
  have s: "Spent (pl_streams q j)" if "j < pl_next q" for j using assms that by (simp add: player_inv_def)
  have n: "SrcStream (pl_next q) \<notin> set (pl_srcs q)" using assms by (auto simp: player_inv_def)
  have "st_rate (new_stream rate (pl_cut q)) = rate" by (simp add: new_stream_def)
  then show ?thesis
    using assms(1) s n unfolding open_new_def Let_def player_inv_def mix_add_def by (auto simp: less_Suc_eq)
qed

lemma close_spent: "Spent (pl_streams (close_stream i p) i) \<longleftrightarrow> True"
  by (simp add: close_stream_def stream_close_def Spent_def)

lemma open_inv:
  assumes "player_inv p"
  shows "player_inv (snd (OpenStream rate p))"
proof (cases "pl_live p")
  case None
  then show ?thesis using assms open_new_inv by (simp add: OpenStream_def)
next
  case (Some i)
  have "player_inv ((close_stream i p)\<lparr>pl_live := None\<rparr>)"
    by (rule live_none_inv [OF close_stream_inv [OF assms]]) (use Some in \<open>auto simp: close_none close_spent split: if_splits\<close>)
  then show ?thesis using Some assms open_new_inv by (simp add: OpenStream_def)
qed

lemma duck_inv: "player_inv p \<Longrightarrow> player_inv (Duck k p)"
proof -
  assume a: "player_inv p"
  then have c: "player_inv (p\<lparr>pl_cut := duckCut k\<rparr>)" by (simp add: player_inv_def)
  have o: "onward s (stream_duck v s)" for v s by (simp add: onward_def stream_duck_def Spent_def)
  show ?thesis
    using c player_upd [OF c, of _ "stream_duck (duckCut k) (pl_streams p _)"] o
    by (cases "pl_live p") (simp_all add: Duck_def Let_def)
qed

lemma retune_inv: "player_inv p \<Longrightarrow> player_inv (snd (retune opens p))"
proof (cases "pl_live p")
  case (Some i)
  assume a: "player_inv p"
  let ?p1 = "mix_remove (SrcClip (pl_rate p)) p"
  have one: "player_inv ?p1" using a by (auto simp: player_inv_def mix_remove_def)
  show ?thesis
  proof (cases "pl_closed p \<or> st_rate (pl_streams p i) = pl_rate p \<or> Spent (pl_streams p i) \<or> \<not> opens")
    case True
    then show ?thesis using a one Some by (auto simp: retune_def Let_def)
  next
    case False
    have others: "Spent (pl_streams p j)" if "SrcStream j \<in> set (pl_srcs ?p1)" "j \<noteq> i" for j
      using a that Some by (auto simp: player_inv_def mix_remove_def)
    have "snd (retune opens p) = mix_add (SrcStream i) (?p1\<lparr>pl_rate := st_rate (pl_streams p i)\<rparr>)"
      using False Some by (simp add: retune_def Let_def mix_remove_def)
    moreover have "pl_streams ?p1 = pl_streams p" "pl_live ?p1 = Some i" using Some by (simp_all add: mix_remove_def)
    ultimately show ?thesis using one others unfolding player_inv_def mix_add_def by auto
  qed
qed (simp add: retune_def)

lemma look_inv: "player_inv p \<Longrightarrow> player_inv (look now st pend p)"
proof (cases "pl_live p")
  case (Some i)
  assume a: "player_inv p"
  have "onward s (snd (stream_blind s))" for s by (simp add: onward_def stream_blind_def Let_def Spent_def)
  then show ?thesis using Some close_stream_inv [OF a] player_upd [OF a] onward_observe a
    by (auto simp: look_def split: sum.splits)
qed (simp add: look_def)

lemma mix_srcs_mono:
  "mix_srcs now frames xs block p = (keep, out, p') \<Longrightarrow>
     set keep \<subseteq> set xs \<and> (distinct xs \<longrightarrow> distinct keep) \<and> pl_live p' = pl_live p \<and> pl_next p' = pl_next p
     \<and> pl_rate p' = pl_rate p \<and> (\<forall>i. onward (pl_streams p i) (pl_streams p' i))"
proof (induction xs arbitrary: block p keep out p')
  case (Cons x xs)
  obtain ys more' p1 where r: "read_src now frames x p = (ys, more', p1)" by (cases "read_src now frames x p")
  obtain k o1 p2 where m: "mix_srcs now frames xs (mix_in block ys) p1 = (k, o1, p2)"
    by (cases "mix_srcs now frames xs (mix_in block ys) p1")
  have res: "keep = (if more' then [x] else []) @ k" "p' = p2" using Cons.prems r m by auto
  have one: "pl_live p1 = pl_live p \<and> pl_next p1 = pl_next p \<and> pl_rate p1 = pl_rate p
      \<and> (\<forall>i. onward (pl_streams p i) (pl_streams p1 i))"
  proof (cases x)
    case (SrcClip q)
    then show ?thesis using r by (auto simp: read_src_def split: prod.splits)
  next
    case (SrcStream j)
    then have "p1 = p\<lparr>pl_streams := (pl_streams p)(j := snd (stream_read now frames (pl_streams p j)))\<rparr>"
      using r by (auto simp: read_src_def split: prod.splits option.splits)
    then show ?thesis by (simp add: onward_read)
  qed
  from Cons.IH [OF m] one res show ?case by (auto intro: onward_trans)
qed simp

lemma next_inv: "player_inv p \<Longrightarrow> player_inv (snd (mix_next now frames p))"
proof (cases "pl_srcs p = []")
  case False
  assume a: "player_inv p"
  obtain keep out p1 where m: "mix_srcs now frames (pl_srcs p) (replicate (frames * ChimeChannels) 0) p = (keep, out, p1)"
    by (cases "mix_srcs now frames (pl_srcs p) (replicate (frames * ChimeChannels) 0) p")
  have "player_inv (p1\<lparr>pl_srcs := keep\<rparr>)"
    using mix_srcs_mono [OF m] a by (intro player_mono [OF a]) (auto simp: player_inv_def)
  then show ?thesis using False m by (simp add: mix_next_def)
qed (simp add: mix_next_def)

lemma turn_inv: "player_inv p \<Longrightarrow> player_inv (snd (write_turn E p))"
proof -
  assume a: "player_inv p"
  let ?p1 = "look (w_now E) (w_status E) (w_pending E) p"
  obtain ok p2 where r: "retune (w_opens E) ?p1 = (ok, p2)" by fastforce
  have p2: "player_inv p2" using retune_inv [OF look_inv [OF a], of "w_opens E"] r by (metis snd_conv)
  obtain b p3 where n: "mix_next (w_now E) BlockFrames p2 = (b, p3)" by fastforce
  have "player_inv p3" using next_inv [OF p2, of "w_now E" BlockFrames] n by simp
  then show ?thesis using r n p2 look_inv
    by (auto simp: write_turn_def Let_def split: bool.splits option.splits)
qed

lemma on_stream_inv: "player_inv p \<Longrightarrow> player_inv (on_stream i e p)"
  by (cases e) (simp_all add: on_stream_def close_stream_inv player_upd onward_step del: stream_step.simps)

interpretation player_machine: machine player_step player_inv
proof unfold_locales
  fix p e assume a: "player_inv p"
  have "player_inv (begin_close p)" using a by (simp add: begin_close_def player_inv_def)
  moreover have "player_inv (end_close p)" using a close_stream_inv by (auto simp: end_close_def split: option.splits)
  ultimately show "player_inv (player_step p e)"
    using a by (cases e) (auto intro: play_inv open_inv duck_inv turn_inv on_stream_inv)
qed

definition src_fit :: "player \<Rightarrow> src \<Rightarrow> bool" where
  "src_fit p x =
     (case x of SrcClip r \<Rightarrow> True
      | SrcStream i \<Rightarrow> if Spent (pl_streams p i) then True
                       else pl_live p = Some i \<and> st_rate (pl_streams p i) = pl_rate p)"

text \<open>
  C20. Whatever is opened, ended and written, and however often the output changes its rate, the mixer holds no
  source twice, and a stream it sounds is the one the player holds and is at the rate the output is open at.
\<close>

theorem one_stream_heard:
  "case NewChime held opens starts pcm of
     Inl e \<Rightarrow> True
   | Inr p0 \<Rightarrow> (let p = foldl player_step p0 es
      in distinct (pl_srcs p) \<and> list_all (src_fit p) (pl_srcs p))"
proof (cases "NewChime held opens starts pcm")
  case (Inr p0)
  then have "player_inv p0" by (auto simp: NewChime_def player_inv_def split: if_splits)
  from player_machine.run_keeps [OF this, of es] show ?thesis
    using Inr by (auto simp: Let_def player_inv_def list_all_iff src_fit_def split: src.splits)
qed simp

section \<open>Mixing\<close>

text \<open>A block is, sample by sample, the sources' samples summed in order, held at the ends of the range.\<close>

lemma sum16_zero [simp]: "sum16 0 x = x"
  using sint_sample [of x] by (auto simp: sum16_def Let_def)

lemma mix_one: "length xs = n \<Longrightarrow> mix_in (replicate n 0) xs = xs"
  by (induction xs arbitrary: n) (auto simp: mix_in_def)

lemma mix_never_wraps:
  "i < length xs \<Longrightarrow> i < length block \<Longrightarrow>
     sint (mix_in block xs ! i) = max (-32768) (min 32767 (sint (block ! i) + sint (xs ! i)))"
  by (simp add: mix_in_def nth_append sint_sum16)

end
