(* ===== verification/Go_Float64.thy ===== *)
theory Go_Float64
  imports Go_Float
begin

text \<open>
  \<open>float64\<close> as the time filter uses it: a number is \<open>m * 2^e\<close>, and each operation is the exact result rounded once to 53
  bits, to the nearest and to even on a tie, with overflow to the infinities and NaN where IEEE 754 has it.  The two
  zeros are one here: nothing in the filter divides by a zero or looks at a sign.  The target has no fused
  multiply-add that the compiler would use for these expressions, so each operation rounds on its own.
\<close>

datatype f64 = NaN | Inf bool | Fin int int

definition f64_ratio :: "int \<Rightarrow> nat \<Rightarrow> f64" where
  "f64_ratio n d =
     (if n = 0 then Fin 0 0
      else (case fl 53 (-1074) (nat \<bar>n\<bar>) d of (m, e) \<Rightarrow>
        if 1024 < int (bits_of m) + e then Inf (n < 0) else Fin (sgn n * int m) e))"

text \<open>The rounding of \<open>n * 2^e\<close>, and \<open>float64(n)\<close> of an integer.\<close>

definition f64_dyadic :: "int \<Rightarrow> int \<Rightarrow> f64" where
  "f64_dyadic n e = f64_ratio (n * 2 ^ nat e) (2 ^ nat (- e))"

definition f64_of_int :: "int \<Rightarrow> f64" where
  "f64_of_int n = f64_dyadic n 0"

fun f64_neg :: "f64 \<Rightarrow> f64" where
  "f64_neg NaN = NaN"
| "f64_neg (Inf s) = Inf (\<not> s)"
| "f64_neg (Fin m e) = Fin (- m) e"

fun f64_add :: "f64 \<Rightarrow> f64 \<Rightarrow> f64" where
  "f64_add NaN b = NaN"
| "f64_add (Inf s) b = (case b of NaN \<Rightarrow> NaN | Inf t \<Rightarrow> if s = t then Inf s else NaN | Fin m e \<Rightarrow> Inf s)"
| "f64_add (Fin m e) b =
     (case b of NaN \<Rightarrow> NaN | Inf t \<Rightarrow> Inf t
      | Fin n f \<Rightarrow> (let g = min e f in f64_dyadic (m * 2 ^ nat (e - g) + n * 2 ^ nat (f - g)) g))"

definition f64_sub :: "f64 \<Rightarrow> f64 \<Rightarrow> f64" where
  "f64_sub a b = f64_add a (f64_neg b)"

fun f64_mul :: "f64 \<Rightarrow> f64 \<Rightarrow> f64" where
  "f64_mul NaN b = NaN"
| "f64_mul (Inf s) b =
     (case b of NaN \<Rightarrow> NaN | Inf t \<Rightarrow> Inf (s \<noteq> t) | Fin n f \<Rightarrow> if n = 0 then NaN else Inf (s \<noteq> (n < 0)))"
| "f64_mul (Fin m e) b =
     (case b of NaN \<Rightarrow> NaN | Inf t \<Rightarrow> if m = 0 then NaN else Inf ((m < 0) \<noteq> t) | Fin n f \<Rightarrow> f64_dyadic (m * n) (e + f))"

text \<open>A quotient by zero is left as NaN or an infinity of the dividend's sign.\<close>

fun f64_div :: "f64 \<Rightarrow> f64 \<Rightarrow> f64" where
  "f64_div NaN b = NaN"
| "f64_div (Inf s) b = (case b of NaN \<Rightarrow> NaN | Inf t \<Rightarrow> NaN | Fin n f \<Rightarrow> Inf (s \<noteq> (n < 0)))"
| "f64_div (Fin m e) b =
     (case b of NaN \<Rightarrow> NaN | Inf t \<Rightarrow> Fin 0 0
      | Fin n f \<Rightarrow>
          if n = 0 then (if m = 0 then NaN else Inf (m < 0))
          else f64_ratio (m * sgn n * 2 ^ nat (e - f)) (nat \<bar>n\<bar> * 2 ^ nat (f - e)))"

fun f64_less :: "f64 \<Rightarrow> f64 \<Rightarrow> bool" where
  "f64_less NaN b = False"
| "f64_less (Inf s) b = (case b of NaN \<Rightarrow> False | Inf t \<Rightarrow> s \<and> \<not> t | Fin n f \<Rightarrow> s)"
| "f64_less (Fin m e) b =
     (case b of NaN \<Rightarrow> False | Inf t \<Rightarrow> \<not> t
      | Fin n f \<Rightarrow> (let g = min e f in m * 2 ^ nat (e - g) < n * 2 ^ nat (f - g)))"

definition f64_le :: "f64 \<Rightarrow> f64 \<Rightarrow> bool" where
  "f64_le a b \<longleftrightarrow> a \<noteq> NaN \<and> b \<noteq> NaN \<and> \<not> f64_less b a"

fun f64_abs :: "f64 \<Rightarrow> f64" where
  "f64_abs NaN = NaN"
| "f64_abs (Inf s) = Inf False"
| "f64_abs (Fin m e) = Fin \<bar>m\<bar> e"

text \<open>The operators a program writes; what they are written in is proved of the functions above.\<close>

instantiation f64 :: "{plus, minus, uminus, inverse, times, ord, abs, zero, one}"
begin

definition zero_f64 :: f64 where "0 = f64_of_int 0"
definition one_f64 :: f64 where "1 = f64_of_int 1"
definition plus_f64 :: "f64 \<Rightarrow> f64 \<Rightarrow> f64" where "a + b = f64_add a b"
definition minus_f64 :: "f64 \<Rightarrow> f64 \<Rightarrow> f64" where "a - b = f64_sub a b"
definition uminus_f64 :: "f64 \<Rightarrow> f64" where "- a = f64_neg a"
definition times_f64 :: "f64 \<Rightarrow> f64 \<Rightarrow> f64" where "a * b = f64_mul a b"
definition divide_f64 :: "f64 \<Rightarrow> f64 \<Rightarrow> f64" where "a div b = f64_div a b"
definition inverse_f64 :: "f64 \<Rightarrow> f64" where "inverse a = f64_div (f64_of_int 1) a"
definition less_f64 :: "f64 \<Rightarrow> f64 \<Rightarrow> bool" where "a < b \<longleftrightarrow> f64_less a b"
definition less_eq_f64 :: "f64 \<Rightarrow> f64 \<Rightarrow> bool" where "a \<le> b \<longleftrightarrow> f64_le a b"
definition abs_f64 :: "f64 \<Rightarrow> f64" where "\<bar>a\<bar> = f64_abs a"

instance ..

end

lemmas f64_ops [simp] =
  zero_f64_def one_f64_def plus_f64_def minus_f64_def uminus_f64_def times_f64_def divide_f64_def inverse_f64_def
  less_f64_def less_eq_f64_def abs_f64_def

definition f64_max :: "f64 \<Rightarrow> f64 \<Rightarrow> f64" where
  "f64_max a b =
     (if a = Inf False \<or> b = Inf False then Inf False
      else if a = NaN \<or> b = NaN then NaN
      else if f64_less a b then b else a)"

text \<open>\<open>math.Round\<close>: the nearest integer, half away from zero.\<close>

fun f64_nearest :: "f64 \<Rightarrow> f64" where
  "f64_nearest NaN = NaN"
| "f64_nearest (Inf s) = Inf s"
| "f64_nearest (Fin m e) = Fin (round_half (m * 2 ^ nat e) (2 ^ nat (- e))) 0"

text \<open>
  \<open>int64(x)\<close>: what is not in range is the implementation's, \<open>big\<close>; within it the fraction is dropped.
\<close>

definition f64_int64 :: "(f64 \<Rightarrow> int) \<Rightarrow> f64 \<Rightarrow> int" where
  "f64_int64 big x =
     (case x of
        NaN \<Rightarrow> big x | Inf s \<Rightarrow> big x
      | Fin m e \<Rightarrow>
          (let t = go_div (m * 2 ^ nat e) (2 ^ nat (- e))
           in if - (2 ^ 63) \<le> t \<and> t < 2 ^ 63 then t else big x))"

fun isqrt :: "nat \<Rightarrow> nat" where
  "isqrt n = (if n = 0 then 0 else (let r = 2 * isqrt (n div 4) in if (r + 1) * (r + 1) \<le> n then r + 1 else r))"

declare isqrt.simps [simp del]

text \<open>
  \<open>math.Sqrt\<close>: the root of the number scaled to more than twice the precision, with a last bit for what is cut off.
\<close>

definition f64_sqrt :: "f64 \<Rightarrow> f64" where
  "f64_sqrt x =
     (case x of
        NaN \<Rightarrow> NaN | Inf s \<Rightarrow> if s then NaN else Inf False
      | Fin m e \<Rightarrow>
          if m < 0 then NaN
          else (let k = (if even e then 120 else 121); n = nat m * 2 ^ k; r = isqrt n
                in f64_dyadic (int (2 * r + (if r * r = n then 0 else 1))) ((e - int k) div 2 - 1)))"

section \<open>Integers are exact\<close>

text \<open>A number that is the integer \<open>k\<close>.\<close>

definition is_int :: "f64 \<Rightarrow> int \<Rightarrow> bool" where
  "is_int x k \<longleftrightarrow> (case x of NaN \<Rightarrow> False | Inf s \<Rightarrow> False | Fin m e \<Rightarrow> m * 2 ^ nat e = k * 2 ^ nat (- e))"

lemma bits_of_le: "n < 2 ^ k \<Longrightarrow> bits_of n \<le> k"
proof (induction k arbitrary: n)
  case 0
  then show ?case by (simp add: bits_of.simps)
next
  case (Suc k)
  then have "n div 2 < 2 ^ k" by simp
  then have "bits_of (n div 2) \<le> k" by (rule Suc.IH)
  then show ?case by (subst bits_of.simps) simp
qed

lemma bits_of_less: "n < 2 ^ bits_of n"
proof (induction n rule: bits_of.induct)
  case (1 n)
  show ?case
  proof (cases "n = 0")
    case False
    with 1 have "n div 2 < 2 ^ bits_of (n div 2)" by blast
    then have "n < 2 * 2 ^ bits_of (n div 2)" by linarith
    with False show ?thesis by (subst bits_of.simps) simp
  qed (simp add: bits_of.simps)
qed

lemma bits_of_ge: "0 < n \<Longrightarrow> 2 ^ (bits_of n - 1) \<le> n"
proof (induction n rule: bits_of.induct)
  case (1 n)
  show ?case
  proof (cases "n div 2 = 0")
    case True
    then have "n = 1" using 1(2) by linarith
    then show ?thesis by (simp add: bits_of.simps)
  next
    case False
    with 1 have ih: "2 ^ (bits_of (n div 2) - 1) \<le> n div 2" by simp
    have "0 < bits_of (n div 2)" using False by (subst bits_of.simps) simp
    then have "2 ^ bits_of (n div 2) = (2 :: nat) * 2 ^ (bits_of (n div 2) - 1)"
      by (metis Suc_diff_1 power_Suc)
    with ih have "2 ^ bits_of (n div 2) \<le> n" by linarith
    with 1(2) show ?thesis by (subst bits_of.simps) simp
  qed
qed

lemma bits_of_mult: "bits_of (k * d) \<le> bits_of k + bits_of d"
  by (rule bits_of_le) (use mult_strict_mono' [OF bits_of_less bits_of_less, of k d] in \<open>simp add: power_add\<close>)


section \<open>Operations on integers are exact while the result has 53 bits\<close>

lemma bits_of_2: "bits_of (2 ^ j) \<le> Suc j"
  by (rule bits_of_le) simp

lemma fl_exp_int:
  assumes "k < 2 ^ 53" "0 < d"
  shows "fl_exp 53 (-1074) (k * d) d \<le> 0"
proof -
  let ?e0 = "int (bits_of (k * d)) - int (bits_of d) - 53"
  have le: "?e0 \<le> 0" using bits_of_mult [of k d] bits_of_le [OF assms(1)] by linarith
  show ?thesis
  proof (cases "?e0 = 0")
    case True
    have "\<not> d * 2 ^ 53 \<le> k * d" using assms by (simp add: mult.commute)
    with True show ?thesis by (simp add: fl_exp_def scaled_def)
  next
    case False
    with le have "?e0 + 1 \<le> 0" by linarith
    with le show ?thesis by (auto simp: fl_exp_def Let_def split: prod.splits)
  qed
qed

lemma is_int_ratio:
  assumes "n = k * int d" "\<bar>k\<bar> < 2 ^ 53" "0 < d"
  shows "is_int (f64_ratio n d) k"
proof (cases "k = 0")
  case True
  with assms show ?thesis by (simp add: f64_ratio_def is_int_def)
next
  case False
  define a where "a = nat \<bar>k\<bar>"
  define e where "e = fl_exp 53 (-1074) (a * d) d"
  have a: "a < 2 ^ 53" "int a = \<bar>k\<bar>" using assms(2) by (simp_all add: a_def)
  have e: "e \<le> 0" unfolding e_def by (rule fl_exp_int [OF a(1) assms(3)])
  have n: "n \<noteq> 0" "sgn n = sgn k" "nat \<bar>n\<bar> = a * d"
    using False assms(1,3) by (simp_all add: sgn_mult a_def abs_mult nat_mult_distrib)
  have "round_even (a * d * 2 ^ nat (- e)) d = a * 2 ^ nat (- e)"
    using round_even_exact [OF assms(3), of "a * 2 ^ nat (- e)"] by (simp add: mult_ac)
  then have fl: "fl 53 (-1074) (nat \<bar>n\<bar>) d = (a * 2 ^ nat (- e), e)"
    using e by (simp add: fl_def n(3) Let_def scaled_def flip: e_def)
  have "bits_of (a * 2 ^ nat (- e)) \<le> 53 + Suc (nat (- e))"
    using bits_of_mult [of a "2 ^ nat (- e)"] bits_of_le [OF a(1)] bits_of_2 [of "nat (- e)"] by linarith
  then have "int (bits_of (a * 2 ^ nat (- e))) + e \<le> 54" using e by linarith
  then have r: "f64_ratio n d = Fin (sgn n * int (a * 2 ^ nat (- e))) e"
    using n(1) by (simp add: f64_ratio_def fl)
  have "sgn k * int (a * 2 ^ nat (- e)) = k * 2 ^ nat (- e)"
    using a(2) by (simp add: sgn_mult_abs mult.assoc flip: mult.assoc [of "sgn k"])
  then show ?thesis using e by (simp add: is_int_def r n(2))
qed

lemma is_int_dyadic:
  assumes "n * 2 ^ nat e = k * 2 ^ nat (- e)" "\<bar>k\<bar> < 2 ^ 53"
  shows "is_int (f64_dyadic n e) k"
  unfolding f64_dyadic_def by (rule is_int_ratio) (use assms in simp_all)

lemma is_int_of_int: "\<bar>k\<bar> < 2 ^ 53 \<Longrightarrow> is_int (f64_of_int k) k"
  unfolding f64_of_int_def by (rule is_int_dyadic) simp_all

lemma is_int_Fin:
  assumes "is_int x k"
  obtains m e where "x = Fin m e" "m * 2 ^ nat e = k * 2 ^ nat (- e)"
  using assms by (cases x) (auto simp: is_int_def)

lemma at_exponent:
  assumes m: "m * 2 ^ nat e = k * 2 ^ nat (- e)" and g: "g \<le> e"
  shows "m * 2 ^ nat (e - g) * 2 ^ nat g = k * (2 :: int) ^ nat (- g)"
proof (cases "0 \<le> e")
  case True
  have "m * 2 ^ nat e = k" using m True by simp
  moreover have "(2 :: int) ^ nat (e - g) * 2 ^ nat g = 2 ^ nat e * 2 ^ nat (- g)"
    using True g by (simp flip: power_add add: nat_add_distrib [symmetric])
  ultimately show ?thesis by (metis mult.assoc)
next
  case False
  then have "m = k * 2 ^ nat (- e)" using m by simp
  moreover have "(2 :: int) ^ nat (- e) * 2 ^ nat (e - g) = 2 ^ nat (- g)"
    using False g by (simp flip: power_add nat_add_distrib)
  ultimately show ?thesis using False g by (simp add: mult.assoc)
qed

lemma is_int_add:
  assumes "is_int x j" "is_int y k" "\<bar>j + k\<bar> < 2 ^ 53"
  shows "is_int (f64_add x y) (j + k)"
proof -
  obtain m e where x: "x = Fin m e" "m * 2 ^ nat e = j * 2 ^ nat (- e)" using assms(1) by (rule is_int_Fin)
  obtain n f where y: "y = Fin n f" "n * 2 ^ nat f = k * 2 ^ nat (- f)" using assms(2) by (rule is_int_Fin)
  show ?thesis
    unfolding x(1) y(1) f64_add.simps f64.case Let_def
    by (rule is_int_dyadic) (use at_exponent [OF x(2), of "min e f"] at_exponent [OF y(2), of "min e f"] assms(3)
      in \<open>simp_all add: distrib_right\<close>)
qed

lemma is_int_neg: "is_int x k \<Longrightarrow> is_int (f64_neg x) (- k)"
  by (cases x) (auto simp: is_int_def)

lemma is_int_sub: "is_int x j \<Longrightarrow> is_int y k \<Longrightarrow> \<bar>j - k\<bar> < 2 ^ 53 \<Longrightarrow> is_int (f64_sub x y) (j - k)"
  using is_int_add [OF _ is_int_neg, of x j y k] by (simp add: f64_sub_def)

lemma is_int_mul_0:
  assumes "is_int x 0" "is_int y k"
  shows "is_int (f64_mul x y) 0"
proof -
  obtain m e where x: "x = Fin m e" "m * 2 ^ nat e = 0 * 2 ^ nat (- e)" using assms(1) by (rule is_int_Fin)
  obtain n f where y: "y = Fin n f" using assms(2) by (rule is_int_Fin)
  have "m = 0" using x(2) by simp
  then show ?thesis unfolding x(1) y f64_mul.simps f64.case by (intro is_int_dyadic) simp_all
qed

lemma is_int_div_1:
  assumes "is_int x k" "is_int y 1" "\<bar>k\<bar> < 2 ^ 53"
  shows "is_int (f64_div x y) k"
proof -
  obtain m e where x: "x = Fin m e" "m * 2 ^ nat e = k * 2 ^ nat (- e)" using assms(1) by (rule is_int_Fin)
  obtain n f where y: "y = Fin n f" "n * 2 ^ nat f = 1 * 2 ^ nat (- f)" using assms(2) by (rule is_int_Fin)
  have f: "f \<le> 0"
  proof (rule ccontr)
    assume "\<not> f \<le> 0"
    then have "n * 2 ^ nat f = 1" "even ((2 :: int) ^ nat f)" using y(2) by simp_all
    then show False by (metis even_mult_iff odd_one)
  qed
  then have n: "n = 2 ^ nat (- f)" using y(2) by simp
  have "m * 2 ^ nat (e - f) = k * (2 ^ nat (- f) * 2 ^ nat (f - e))"
  proof (cases "f \<le> e")
    case True
    then show ?thesis using at_exponent [OF x(2), of f] f by simp
  next
    case False
    then have "(2 :: int) ^ nat (- f) * 2 ^ nat (f - e) = 2 ^ nat (- e)"
      using f by (simp flip: power_add nat_add_distrib)
    then show ?thesis using False f x(2) by simp
  qed
  moreover have "n \<noteq> 0" "sgn n = 1" "nat \<bar>n\<bar> = 2 ^ nat (- f)" unfolding n by (simp_all add: nat_power_eq)
  ultimately show ?thesis using assms(3) by (simp add: x(1) y(1)) (rule is_int_ratio; simp)
qed

lemma nearest_int: "is_int x k \<Longrightarrow> f64_nearest x = Fin k 0"
  by (erule is_int_Fin) (use round_half_mult [of "2 ^ nat (- e)" k for e] in simp)

lemma is_int_less:
  assumes "is_int x j" "is_int y k"
  shows "f64_less x y \<longleftrightarrow> j < k"
proof -
  obtain m e where x: "x = Fin m e" "m * 2 ^ nat e = j * 2 ^ nat (- e)" using assms(1) by (rule is_int_Fin)
  obtain n f where y: "y = Fin n f" "n * 2 ^ nat f = k * 2 ^ nat (- f)" using assms(2) by (rule is_int_Fin)
  define g where "g = min e f"
  have "m * 2 ^ nat (e - g) < n * 2 ^ nat (f - g)
        \<longleftrightarrow> m * 2 ^ nat (e - g) * 2 ^ nat g < n * 2 ^ nat (f - g) * 2 ^ nat g" by simp
  also have "\<dots> \<longleftrightarrow> j * 2 ^ nat (- g) < k * 2 ^ nat (- g)"
    using at_exponent [OF x(2), of g] at_exponent [OF y(2), of g] by (simp add: g_def)
  also have "\<dots> \<longleftrightarrow> j < k" by simp
  finally show ?thesis by (simp add: x(1) y(1) Let_def g_def)
qed

lemma is_int_le: "is_int x j \<Longrightarrow> is_int y k \<Longrightarrow> f64_le x y \<longleftrightarrow> j \<le> k"
  using is_int_less [of y k x j] by (auto simp: f64_le_def is_int_def split: f64.splits)

lemma is_int_Fin_0: "is_int (Fin k 0) k"
  by (simp add: is_int_def)

lemma nearest_cases: "f64_nearest x = NaN \<or> (\<exists>s. f64_nearest x = Inf s) \<or> (\<exists>k. f64_nearest x = Fin k 0)"
  by (cases x) auto

lemma int64_int: "- (2 ^ 63) \<le> k \<Longrightarrow> k < 2 ^ 63 \<Longrightarrow> f64_int64 big (Fin k 0) = k"
  by (simp add: f64_int64_def go_div_def sgn_mult_abs)


section \<open>What stays in range\<close>

lemma fl_exp_le: "fl_exp 53 (-1074) n d \<le> max (-1074) (int (bits_of n) - int (bits_of d) - 52)"
  by (auto simp: fl_exp_def Let_def split: prod.splits)

lemma fl_exp_ge: "int (bits_of n) - int (bits_of d) - 53 \<le> fl_exp 53 (-1074) n d"
  by (auto simp: fl_exp_def Let_def split: prod.splits)

lemma fl_bits:
  assumes "0 < d" "fl 53 (-1074) n d = (m, e)"
  shows "bits_of m \<le> 55"
proof -
  have e: "e = fl_exp 53 (-1074) n d" and m: "m = round_even (n * 2 ^ nat (- e)) (d * 2 ^ nat e)"
    using assms(2) by (auto simp: fl_def scaled_def Let_def)
  have ge: "int (bits_of n) - int (bits_of d) - 53 \<le> e" unfolding e by (rule fl_exp_ge)
  have b: "0 < bits_of d" using assms(1) by (subst bits_of.simps) simp
  define x where "x = bits_of n + nat (- e)"
  define y where "y = bits_of d - 1 + nat e"
  have xy: "x \<le> y + 54" using ge b unfolding x_def y_def by linarith
  have "n * 2 ^ nat (- e) < 2 ^ x" using bits_of_less [of n] by (simp add: x_def power_add)
  also have "(2 :: nat) ^ x \<le> 2 ^ (y + 54)" using xy by (rule power_increasing) simp
  also have "\<dots> = 2 ^ y * 2 ^ 54" by (simp add: power_add)
  also have "2 ^ y \<le> d * 2 ^ nat e" using bits_of_ge [OF assms(1)] by (simp add: y_def power_add)
  finally have "n * 2 ^ nat (- e) < 2 ^ 54 * (d * 2 ^ nat e)" by (simp add: mult.commute)
  then have "n * 2 ^ nat (- e) div (d * 2 ^ nat e) < 2 ^ 54" by (rule less_mult_imp_div_less)
  then have "m < 2 ^ 55" by (auto simp: m round_even_def Let_def)
  then show ?thesis by (rule bits_of_le)
qed

text \<open>A finite number whose exponent is at most \<open>k\<close>.\<close>

definition within_exp :: "nat \<Rightarrow> f64 \<Rightarrow> bool" where
  "within_exp k x \<longleftrightarrow> (case x of NaN \<Rightarrow> False | Inf s \<Rightarrow> False | Fin m e \<Rightarrow> bits_of (nat \<bar>m\<bar>) \<le> 55 \<and> e \<le> int k)"

lemma within_exp_ratio:
  assumes "0 < d" "bits_of (nat \<bar>n\<bar>) \<le> bits_of d + k" "k \<le> 900"
  shows "within_exp k (f64_ratio n d)"
proof (cases "n = 0")
  case False
  obtain m e where f: "fl 53 (-1074) (nat \<bar>n\<bar>) d = (m, e)" by fastforce
  have b: "bits_of m \<le> 55" by (rule fl_bits [OF assms(1) f])
  have "e = fl_exp 53 (-1074) (nat \<bar>n\<bar>) d" using f by (auto simp: fl_def Let_def scaled_def)
  then have "e \<le> max (-1074) (int k - 52)" using fl_exp_le [of "nat \<bar>n\<bar>" d] assms(2) by linarith
  then have e: "e \<le> int k" "int (bits_of m) + e \<le> 1024" using b assms(3) by linarith+
  then have "f64_ratio n d = Fin (sgn n * int m) e" using False by (simp add: f64_ratio_def f)
  moreover have "nat \<bar>sgn n * int m\<bar> = m" using False by (simp add: abs_mult)
  ultimately show ?thesis using b e(1) by (simp add: within_exp_def)
qed (simp add: f64_ratio_def within_exp_def bits_of.simps)

lemma within_exp_dyadic:
  assumes "bits_of (nat \<bar>n\<bar>) + nat e + 1 \<le> k" "k \<le> 900"
  shows "within_exp k (f64_dyadic n e)"
proof -
  have "nat \<bar>n * 2 ^ nat e\<bar> = nat \<bar>n\<bar> * 2 ^ nat e" by (simp add: abs_mult nat_mult_distrib nat_power_eq)
  then have "bits_of (nat \<bar>n * 2 ^ nat e\<bar>) \<le> k"
    using bits_of_mult [of "nat \<bar>n\<bar>" "2 ^ nat e"] bits_of_2 [of "nat e"] assms(1) by simp
  then show ?thesis unfolding f64_dyadic_def using assms(2) by (intro within_exp_ratio) simp_all
qed

lemma within_exp_mul:
  assumes "within_exp j x" "within_exp k y" "j + k \<le> 700"
  shows "within_exp (j + k + 120) (f64_mul x y)"
proof -
  obtain m e where x: "x = Fin m e" "bits_of (nat \<bar>m\<bar>) \<le> 55" "e \<le> int j"
    using assms(1) by (cases x) (auto simp: within_exp_def)
  obtain n f where y: "y = Fin n f" "bits_of (nat \<bar>n\<bar>) \<le> 55" "f \<le> int k"
    using assms(2) by (cases y) (auto simp: within_exp_def)
  have "nat \<bar>m * n\<bar> = nat \<bar>m\<bar> * nat \<bar>n\<bar>" by (simp add: abs_mult nat_mult_distrib)
  then have "bits_of (nat \<bar>m * n\<bar>) \<le> 110" using bits_of_mult [of "nat \<bar>m\<bar>" "nat \<bar>n\<bar>"] x(2) y(2) by simp
  moreover have "nat (e + f) \<le> j + k" using x(3) y(3) by linarith
  ultimately have "bits_of (nat \<bar>m * n\<bar>) + nat (e + f) + 1 \<le> j + k + 120" by linarith
  then show ?thesis unfolding x(1) y(1) f64_mul.simps f64.case
    by (rule within_exp_dyadic) (use assms(3) in simp)
qed

lemma within_exp_of_int: "\<bar>n\<bar> < 2 ^ 63 \<Longrightarrow> within_exp 64 (f64_of_int n)"
  unfolding f64_of_int_def by (rule within_exp_dyadic) (use bits_of_le [of "nat \<bar>n\<bar>" 63] in auto)

end
