(* ===== verification/Go_Base64.thy ===== *)
theory Go_Base64
  imports Go_Strings
begin

text \<open>
  \<open>encoding/base64\<close>'s \<open>StdEncoding\<close>, as the upgrade and the pre-shared keys use it: encoding with
  padding, and the decoder, which skips line ends and does not insist on zero padding bits.
\<close>

definition b64_char :: "byte \<Rightarrow> char" where
  "b64_char v =
     (let k = unat v
      in char_of (if k < 26 then k + 65 else if k < 52 then k + 71 else if k < 62 then k - 4
                  else if k = 62 then 43 else 47))"

definition b64_val :: "char \<Rightarrow> byte option" where
  "b64_val c =
     (let k = chr_code c
      in if 65 \<le> k \<and> k \<le> 90 then Some (of_nat (k - 65))
         else if 97 \<le> k \<and> k \<le> 122 then Some (of_nat (k - 71))
         else if 48 \<le> k \<and> k \<le> 57 then Some (of_nat (k + 4))
         else if k = 43 then Some 62 else if k = 47 then Some 63 else None)"

fun b64_encode :: "bytes \<Rightarrow> string" where
  "b64_encode [] = ''''"
| "b64_encode [a] =
     [b64_char (drop_bit 2 a), b64_char (push_bit 4 (take_bit 2 a)), CHR ''='', CHR ''='']"
| "b64_encode [a, b] =
     [b64_char (drop_bit 2 a), b64_char (push_bit 4 (take_bit 2 a) OR drop_bit 4 b),
      b64_char (push_bit 2 (take_bit 4 b)), CHR ''='']"
| "b64_encode (a # b # c # r) =
     b64_char (drop_bit 2 a) # b64_char (push_bit 4 (take_bit 2 a) OR drop_bit 4 b)
     # b64_char (push_bit 2 (take_bit 4 b) OR drop_bit 6 c) # b64_char (take_bit 6 c) # b64_encode r"

text \<open>Four sextets make three bytes; the last group may end in one or two \<open>=\<close>.\<close>

definition sextets2 :: "byte \<Rightarrow> byte \<Rightarrow> byte" where
  "sextets2 p q = push_bit 2 p OR drop_bit 4 q"
definition sextets3 :: "byte \<Rightarrow> byte \<Rightarrow> byte" where
  "sextets3 q r = push_bit 4 q OR drop_bit 2 r"
definition sextets4 :: "byte \<Rightarrow> byte \<Rightarrow> byte" where
  "sextets4 r s = push_bit 6 r OR s"

fun b64_quads :: "string \<Rightarrow> bytes option" where
  "b64_quads [] = Some []"
| "b64_quads (a # b # c # d # rest) =
     (case (b64_val a, b64_val b) of
        (Some p, Some q) \<Rightarrow>
          (if c = CHR ''='' then (if d = CHR ''='' \<and> rest = [] then Some [sextets2 p q] else None)
           else (case b64_val c of
             None \<Rightarrow> None
           | Some r \<Rightarrow>
               if d = CHR ''='' then (if rest = [] then Some [sextets2 p q, sextets3 q r] else None)
               else (case (b64_val d, b64_quads rest) of
                       (Some s, Some bs) \<Rightarrow> Some (sextets2 p q # sextets3 q r # sextets4 r s # bs)
                     | _ \<Rightarrow> None)))
      | _ \<Rightarrow> None)"
| "b64_quads _ = None"

definition b64_decode :: "string \<Rightarrow> bytes option" where
  "b64_decode s = b64_quads (filter (\<lambda>c. c \<noteq> CHR 0x0a \<and> c \<noteq> CHR 0x0d) s)"

lemma sextet_less: "take_bit 6 v = v \<Longrightarrow> unat (v :: byte) < 64"
proof -
  assume "take_bit 6 v = v"
  then have "take_bit 6 (unat v) = unat v" by (metis unsigned_take_bit_eq)
  with take_bit_nat_less_exp [of 6 "unat v"] show ?thesis by simp
qed

lemma chr_code_char_of: "k < 128 \<Longrightarrow> chr_code (char_of k) = k"
  by (simp add: take_bit_nat_eq_self)

lemma b64_char_code:
  "unat v < 64 \<Longrightarrow> chr_code (b64_char v) =
     (if unat v < 26 then unat v + 65 else if unat v < 52 then unat v + 71
      else if unat v < 62 then unat v - 4 else if unat v = 62 then 43 else 47)"
  unfolding b64_char_def Let_def by (subst chr_code_char_of) auto

lemma b64_char_val:
  assumes "unat v < 64"
  shows "b64_val (b64_char v) = Some v" "b64_char v \<noteq> CHR ''=''"
    "b64_char v \<noteq> CHR 0x0a" "b64_char v \<noteq> CHR 0x0d"
proof -
  have "v = of_nat (unat v)" by simp
  moreover have "unat v = 62 \<or> unat v = 63 \<or> unat v < 26 \<or> (26 \<le> unat v \<and> unat v < 52)
      \<or> (52 \<le> unat v \<and> unat v < 62)" using assms by linarith
  ultimately show "b64_val (b64_char v) = Some v"
    unfolding b64_val_def Let_def b64_char_code [OF assms] by (elim disjE) (auto simp: word_unat_eq_iff)
  show "b64_char v \<noteq> CHR ''=''" "b64_char v \<noteq> CHR 0x0a" "b64_char v \<noteq> CHR 0x0d"
    using b64_char_code [OF assms] assms by (auto split: if_splits)
qed

lemma sextets [simp]:
  "unat (drop_bit 2 a :: byte) < 64" "unat (push_bit 4 (take_bit 2 a) OR drop_bit 4 b :: byte) < 64"
  "unat (push_bit 2 (take_bit 4 b) OR drop_bit 6 c :: byte) < 64" "unat (take_bit 6 c :: byte) < 64"
  "unat (push_bit 4 (take_bit 2 a) :: byte) < 64" "unat (push_bit 2 (take_bit 4 b) :: byte) < 64"
  by (rule sextet_less, rule byte_eqI; simp add: bit_simps)+

lemma sextets_back [simp]:
  "sextets2 (drop_bit 2 a) (push_bit 4 (take_bit 2 a) OR drop_bit 4 b) = a"
  "sextets2 (drop_bit 2 a) (push_bit 4 (take_bit 2 a)) = a"
  "sextets3 (push_bit 4 (take_bit 2 a) OR drop_bit 4 b) (push_bit 2 (take_bit 4 b) OR drop_bit 6 c) = b"
  "sextets3 (push_bit 4 (take_bit 2 a) OR drop_bit 4 b) (push_bit 2 (take_bit 4 b)) = b"
  "sextets4 (push_bit 2 (take_bit 4 b) OR drop_bit 6 c) (take_bit 6 c) = c"
  unfolding sextets2_def sextets3_def sextets4_def
  by (rule byte_eqI; simp add: bit_simps)+

lemma b64_quads_encode: "b64_quads (b64_encode bs) = Some bs"
  by (induction bs rule: b64_encode.induct) (simp_all add: b64_char_val)

lemma b64_encode_clean: "list_all (\<lambda>c. c \<noteq> CHR 0x0a \<and> c \<noteq> CHR 0x0d) (b64_encode bs)"
  by (induction bs rule: b64_encode.induct) (simp_all add: b64_char_val)

lemma b64_decode_encode [simp]: "b64_decode (b64_encode bs) = Some bs"
proof -
  have "filter (\<lambda>c. c \<noteq> CHR 0x0a \<and> c \<noteq> CHR 0x0d) (b64_encode bs) = b64_encode bs"
    using b64_encode_clean [of bs] by (simp add: list_all_iff filter_id_conv)
  then show ?thesis by (simp add: b64_decode_def b64_quads_encode)
qed

section \<open>Without padding, for URLs\<close>

text \<open>
  \<open>RawURLEncoding\<close>: \<open>-\<close> and \<open>_\<close> in the place of \<open>+\<close> and \<open>/\<close>, and no padding. The two encodings
  differ in nothing else, so this one is the other one with its characters exchanged.
\<close>

definition to_url :: "char \<Rightarrow> char" where
  "to_url c = (if c = CHR ''+'' then CHR ''-'' else if c = CHR ''/'' then CHR ''_'' else c)"

definition from_url :: "char \<Rightarrow> char" where
  "from_url c = (if c = CHR ''-'' then CHR ''+'' else if c = CHR ''_'' then CHR ''/'' else c)"

definition url_encode :: "bytes \<Rightarrow> string" where
  "url_encode bs = map to_url (filter (\<lambda>c. c \<noteq> CHR ''='') (b64_encode bs))"

definition url_padding :: "nat \<Rightarrow> string" where
  "url_padding n = (if n mod 4 = 2 then ''=='' else if n mod 4 = 3 then ''='' else '''')"

definition url_decode :: "string \<Rightarrow> bytes option" where
  "url_decode s =
     (let t = filter (\<lambda>c. c \<noteq> CHR 0x0a \<and> c \<noteq> CHR 0x0d) s
      in if list_ex (\<lambda>c. c = CHR ''+'' \<or> c = CHR ''/'' \<or> c = CHR ''='') t then None
         else b64_quads (map from_url t @ url_padding (length t)))"

lemma from_to_url: "c \<noteq> CHR ''-'' \<Longrightarrow> c \<noteq> CHR ''_'' \<Longrightarrow> from_url (to_url c) = c"
  by (simp add: from_url_def to_url_def)

lemma b64_char_url:
  assumes "unat v < 64"
  shows "b64_char v \<noteq> CHR ''-''" "b64_char v \<noteq> CHR ''_''"
  using b64_char_code [OF assms] assms by (auto split: if_splits)

lemma b64_encode_url: "list_all (\<lambda>c. c \<noteq> CHR ''-'' \<and> c \<noteq> CHR ''_'') (b64_encode bs)"
  by (induction bs rule: b64_encode.induct) (simp_all add: b64_char_url)

lemma url_padding_simps [simp]:
  "url_padding (Suc (Suc (Suc (Suc n)))) = url_padding n"
  "url_padding 0 = ''''" "url_padding (Suc (Suc 0)) = ''==''" "url_padding (Suc (Suc (Suc 0))) = ''=''"
proof -
  have "Suc (Suc (Suc (Suc n))) mod 4 = n mod 4"
    by presburger
  then show "url_padding (Suc (Suc (Suc (Suc n)))) = url_padding n" by (simp add: url_padding_def)
qed (simp_all add: url_padding_def)

lemma pad_back:
  "filter (\<lambda>c. c \<noteq> CHR ''='') (b64_encode bs)
     @ url_padding (length (filter (\<lambda>c. c \<noteq> CHR ''='') (b64_encode bs))) = b64_encode bs"
proof (induction bs rule: b64_encode.induct)
  case (4 a b c r)
  have "b64_char (drop_bit 2 a) \<noteq> CHR ''=''"
    "b64_char (push_bit 4 (take_bit 2 a) OR drop_bit 4 b) \<noteq> CHR ''=''"
    "b64_char (push_bit 2 (take_bit 4 b) OR drop_bit 6 c) \<noteq> CHR ''=''"
    "b64_char (take_bit 6 c) \<noteq> CHR ''=''"
    by (rule b64_char_val, rule sextets)+
  with 4 show ?case by (simp only: b64_encode.simps filter.simps if_True not_False_eq_True list.size
        append_Cons add_Suc_right add_0_right url_padding_simps(1) simp_thms)
qed (simp_all only: b64_encode.simps filter.simps b64_char_val sextets if_True simp_thms list.size
    append_Cons append_Nil add_Suc_right add_0_right url_padding_simps if_False One_nat_def)

lemma to_url_clean:
  "c \<noteq> CHR ''='' \<Longrightarrow> to_url c \<noteq> CHR ''+'' \<and> to_url c \<noteq> CHR ''/'' \<and> to_url c \<noteq> CHR ''=''"
  "c \<noteq> CHR 0x0a \<Longrightarrow> c \<noteq> CHR 0x0d \<Longrightarrow> to_url c \<noteq> CHR 0x0a \<and> to_url c \<noteq> CHR 0x0d"
  by (auto simp: to_url_def)

lemma url_clean:
  assumes "\<forall>c \<in> set e. c \<noteq> CHR ''-'' \<and> c \<noteq> CHR ''_'' \<and> c \<noteq> CHR 0x0a \<and> c \<noteq> CHR 0x0d \<and> c \<noteq> CHR ''=''"
  shows "map from_url (map to_url e) = e"
    and "filter (\<lambda>c. c \<noteq> CHR 0x0a \<and> c \<noteq> CHR 0x0d) (map to_url e) = map to_url e"
    and "\<not> list_ex (\<lambda>c. c = CHR ''+'' \<or> c = CHR ''/'' \<or> c = CHR ''='') (map to_url e)"
proof -
  have "map from_url (map to_url e) = map (\<lambda>c. c) e"
    using assms from_to_url unfolding map_map by (intro map_cong refl) (metis comp_apply)
  then show "map from_url (map to_url e) = e" by simp
  show "filter (\<lambda>c. c \<noteq> CHR 0x0a \<and> c \<noteq> CHR 0x0d) (map to_url e) = map to_url e"
  proof (rule filter_True, rule ballI)
    fix d assume "d \<in> set (map to_url e)"
    then obtain c where c: "c \<in> set e" "d = to_url c" by (auto simp only: set_map)
    note b = bspec [OF assms c(1)]
    show "d \<noteq> CHR 0x0a \<and> d \<noteq> CHR 0x0d"
      unfolding c(2) by (rule to_url_clean(2)) (rule b [THEN conjunct2, THEN conjunct2, THEN conjunct1],
        rule b [THEN conjunct2, THEN conjunct2, THEN conjunct2, THEN conjunct1])
  qed
  show "\<not> list_ex (\<lambda>c. c = CHR ''+'' \<or> c = CHR ''/'' \<or> c = CHR ''='') (map to_url e)"
    unfolding list_ex_iff set_map
  proof (rule notI, elim bexE imageE)
    fix d c assume c: "c \<in> set e" "d = to_url c" and "d = CHR ''+'' \<or> d = CHR ''/'' \<or> d = CHR ''=''"
    moreover note to_url_clean(1) [OF bspec [OF assms c(1), THEN conjunct2, THEN conjunct2,
        THEN conjunct2, THEN conjunct2]]
    ultimately show False by (elim disjE conjE) (simp_all only: simp_thms)
  qed
qed

lemma url_decode_encode [simp]: "url_decode (url_encode bs) = Some bs"
proof -
  define e where "e = filter (\<lambda>c. c \<noteq> CHR ''='') (b64_encode bs)"
  have c: "\<forall>c \<in> set e. c \<noteq> CHR ''-'' \<and> c \<noteq> CHR ''_'' \<and> c \<noteq> CHR 0x0a \<and> c \<noteq> CHR 0x0d \<and> c \<noteq> CHR ''=''"
    using b64_encode_url [of bs] b64_encode_clean [of bs] unfolding e_def list_all_iff set_filter by blast
  have u: "url_encode bs = map to_url e" and p: "e @ url_padding (length e) = b64_encode bs"
    using pad_back [of bs] by (simp_all add: url_encode_def e_def)
  show ?thesis
    unfolding u url_decode_def Let_def url_clean(2) [OF c]
    using url_clean(1,3) [OF c] p b64_quads_encode [of bs]
    by (simp only: if_False length_map)
qed

end
