(* ===== verification/Sp_Ws.thy ===== *)
theory Sp_Ws
  imports Go_Base64
begin

text \<open>
  \<open>internal/sendspin/ws.go\<close>: the server side of a websocket. What the peer sends is the byte list
  the connection still has to read, its end being an I/O error (the peer closed it or a deadline
  passed); what the server writes is the list of the writes it made. \<open>wr_ok n\<close> says whether the
  \<open>n\<close>-th write reaches the socket. SHA-1 is the parameter \<open>sha1\<close>.
\<close>

definition opContinuation :: byte where "opContinuation = 0x0"
definition opText :: byte where "opText = 0x1"
definition opBinary :: byte where "opBinary = 0x2"
definition opClose :: byte where "opClose = 0x8"
definition opPing :: byte where "opPing = 0x9"
definition opPong :: byte where "opPong = 0xa"

lemmas op_defs = opContinuation_def opText_def opBinary_def opClose_def opPing_def opPong_def

definition maxWSFrames :: nat where "maxWSFrames = 4096"
definition closeNoStatus :: nat where "closeNoStatus = 1005"
definition maxControlPayload :: nat where "maxControlPayload = 125"
definition maxMessage :: nat where "maxMessage = 65535"
definition maxRequestBytes :: nat where "maxRequestBytes = 8192"
definition maxRequestLines :: nat where "maxRequestLines = 64"
definition wsKeyLen :: nat where "wsKeyLen = 16"

datatype ws_error = WsIO | ReservedBits | NotMinimal nat | HighBit | FragmentedControl
  | ControlTooLong nat | Unmasked | FrameTooBig nat | MessageTooBig nat | TooManyFrames nat
  | BeganInFlight byte | NothingInFlight | UnknownOpcode byte | CloseOneByte
  | CloseError nat string

record ws_conn =
  rx :: bytes
  tx :: "bytes list"
  wr_ok :: "nat \<Rightarrow> bool"
  dl_ok :: bool
  rlimit :: nat
  idle :: duration
  shut :: bool

definition setReadLimit :: "nat \<Rightarrow> ws_conn \<Rightarrow> ws_conn" where
  "setReadLimit n c = c\<lparr>rlimit := n\<rparr>"

definition setIdle :: "duration \<Rightarrow> ws_conn \<Rightarrow> ws_conn" where
  "setIdle d c = c\<lparr>idle := d\<rparr>"

text \<open>\<open>io.ReadFull\<close>.\<close>

definition read_full :: "nat \<Rightarrow> bytes \<Rightarrow> (bytes \<times> bytes) option" where
  "read_full n s = (if length s < n then None else Some (take n s, drop n s))"

lemma read_full_append [simp]: "length p = n \<Longrightarrow> read_full n (p @ r) = Some (p, r)"
  by (simp add: read_full_def)

lemma read_full_Some: "read_full n s = Some (p, r) \<longleftrightarrow> s = p @ r \<and> length p = n"
  by (auto simp: read_full_def)

section \<open>Frame headers\<close>

record frame_header =
  fin :: bool
  opc :: byte
  flen :: nat
  mask_key :: bytes

definition isControl :: "byte \<Rightarrow> bool" where
  "isControl o' = (opClose \<le> o')"

text \<open>The length: seven bits, or the two escapes to sixteen and sixty-four.\<close>

definition read_length :: "byte \<Rightarrow> bytes \<Rightarrow> ws_error + (nat \<times> bytes)" where
  "read_length b1 s =
     (let n = b1 AND 0x7f in
      if n = 126 then
        (case read_full 2 s of None \<Rightarrow> Inl WsIO
         | Some (e, r) \<Rightarrow>
             let l = unat (get_be e :: 16 word)
             in if l < 126 then Inl (NotMinimal l) else Inr (l, r))
      else if n = 127 then
        (case read_full 8 s of None \<Rightarrow> Inl WsIO
         | Some (e, r) \<Rightarrow>
             let w = get_be e :: 64 word; l = unat w
             in if w AND push_bit 63 1 \<noteq> 0 then Inl HighBit
                else if l \<le> 0xffff then Inl (NotMinimal l) else Inr (l, r))
      else Inr (unat n, s))"

definition read_header :: "bytes \<Rightarrow> ws_error + (frame_header \<times> bytes)" where
  "read_header s =
     (case read_full 2 s of None \<Rightarrow> Inl WsIO
      | Some (b, r) \<Rightarrow>
          let b0 = b ! 0; b1 = b ! 1; fi = (b0 AND 0x80 \<noteq> 0); o' = b0 AND 0x0f
          in if b0 AND 0x70 \<noteq> 0 then Inl ReservedBits
             else (case read_length b1 r of
                 Inl e \<Rightarrow> Inl e
               | Inr (l, r1) \<Rightarrow>
                   if isControl o' \<and> \<not> fi then Inl FragmentedControl
                   else if isControl o' \<and> maxControlPayload < l then Inl (ControlTooLong l)
                   else if b1 AND 0x80 = 0 then Inl Unmasked
                   else (case read_full 4 r1 of None \<Rightarrow> Inl WsIO
                     | Some (m, r2) \<Rightarrow>
                         Inr (\<lparr>fin = fi, opc = o', flen = l, mask_key = m\<rparr>, r2))))"

definition readHeader :: "ws_conn \<Rightarrow> ws_error + (frame_header \<times> ws_conn)" where
  "readHeader c =
     (if 0 < idle c \<and> \<not> dl_ok c then Inl WsIO
      else (case read_header (rx c) of
          Inl e \<Rightarrow> Inl e
        | Inr (h, r) \<Rightarrow> Inr (h, c\<lparr>rx := r\<rparr>)))"

definition unmask :: "bytes \<Rightarrow> bytes \<Rightarrow> bytes" where
  "unmask m p = map (\<lambda>i. p ! i XOR m ! (i mod 4)) [0 ..< length p]"

definition readPayload :: "ws_conn \<Rightarrow> frame_header \<Rightarrow> ws_error + (bytes \<times> ws_conn)" where
  "readPayload c h =
     (if rlimit c < flen h then Inl (FrameTooBig (flen h))
      else (case read_full (flen h) (rx c) of
          None \<Rightarrow> Inl WsIO
        | Some (p, r) \<Rightarrow> Inr (unmask (mask_key h) p, c\<lparr>rx := r\<rparr>)))"

section \<open>Writing\<close>

definition length_code :: "nat \<Rightarrow> byte" where
  "length_code n = (if n \<le> maxControlPayload then of_nat n else if n \<le> 0xffff then 126 else 127)"

definition length_ext :: "nat \<Rightarrow> bytes" where
  "length_ext n =
     (if n \<le> maxControlPayload then []
      else if n \<le> 0xffff then put_be 2 (of_nat n :: 16 word)
      else put_be 8 (of_nat n :: 64 word))"

definition ws_frame :: "byte \<Rightarrow> bytes \<Rightarrow> bytes" where
  "ws_frame o' payload =
     (o' OR 0x80) # length_code (length payload) # length_ext (length payload) @ payload"

definition ws_write :: "byte \<Rightarrow> bytes \<Rightarrow> ws_conn \<Rightarrow> bool \<times> ws_conn" where
  "ws_write o' payload c =
     (if 0 < idle c \<and> \<not> dl_ok c then (False, c)
      else (wr_ok c (length (tx c)), c\<lparr>tx := tx c @ [ws_frame o' payload]\<rparr>))"

definition WriteText :: "bytes \<Rightarrow> ws_conn \<Rightarrow> bool \<times> ws_conn" where
  "WriteText = ws_write opText"

definition WriteBinary :: "bytes \<Rightarrow> ws_conn \<Rightarrow> bool \<times> ws_conn" where
  "WriteBinary = ws_write opBinary"

definition Ping :: "ws_conn \<Rightarrow> bool \<times> ws_conn" where
  "Ping = ws_write opPing []"

definition close_payload :: "nat \<Rightarrow> string \<Rightarrow> bytes" where
  "close_payload code reason = put_be 2 (of_nat code :: 16 word) @ str_bytes reason"

definition ws_close :: "nat \<Rightarrow> string \<Rightarrow> ws_conn \<Rightarrow> bool \<times> ws_conn" where
  "ws_close code reason c =
     (case ws_write opClose (close_payload code reason) c of (ok, c') \<Rightarrow> (ok, c'\<lparr>shut := True\<rparr>))"

section \<open>Reading a message\<close>

definition parseClose :: "bytes \<Rightarrow> ws_error + (nat \<times> string)" where
  "parseClose p =
     (case p of
        [] \<Rightarrow> Inr (closeNoStatus, '''')
      | [_] \<Rightarrow> Inl CloseOneByte
      | _ \<Rightarrow> Inr (unat (get_be (take 2 p) :: 16 word), bytes_str (drop 2 p)))"

text \<open>
  One turn of the loop of \<open>Read\<close>: the message is over with an error or a value, or the loop goes
  on with what is in flight (\<open>None\<close> when nothing is). \<open>asm\<close> is \<open>kind\<close> and \<open>msg\<close>.
\<close>

type_synonym in_flight = "(byte \<times> bytes) option"

datatype turn = Failed ws_error | Message bool bytes | GoOn in_flight

definition data_turn :: "nat \<Rightarrow> bool \<Rightarrow> byte \<Rightarrow> bytes \<Rightarrow> turn" where
  "data_turn lim fi kind msg =
     (if lim < length msg then Failed (MessageTooBig (length msg))
      else if fi then Message (kind = opBinary) msg
      else GoOn (Some (kind, msg)))"

definition ws_turn :: "in_flight \<Rightarrow> ws_conn \<Rightarrow> turn \<times> ws_conn" where
  "ws_turn asm c =
     (case readHeader c of
        Inl e \<Rightarrow> (Failed e, c)
      | Inr (h, c1) \<Rightarrow>
          (case readPayload c1 h of
             Inl e \<Rightarrow> (Failed e, c1)
           | Inr (payload, c2) \<Rightarrow>
               if opc h = opPing then
                 (case ws_write opPong payload c2 of
                    (ok, c3) \<Rightarrow> (if ok then GoOn asm else Failed WsIO, c3))
               else if opc h = opPong then (GoOn asm, c2)
               else if opc h = opClose then
                 (case parseClose payload of
                    Inl e \<Rightarrow> (Failed e, c2)
                  | Inr (code, reason) \<Rightarrow>
                      (Failed (CloseError code reason), snd (ws_write opClose payload c2)))
               else if opc h = opText \<or> opc h = opBinary then
                 (case asm of
                    Some _ \<Rightarrow> (Failed (BeganInFlight (opc h)), c2)
                  | None \<Rightarrow> (data_turn (rlimit c2) (fin h) (opc h) payload, c2))
               else if opc h = opContinuation then
                 (case asm of
                    None \<Rightarrow> (Failed NothingInFlight, c2)
                  | Some (kind, msg) \<Rightarrow> (data_turn (rlimit c2) (fin h) kind (msg @ payload), c2))
               else (Failed (UnknownOpcode (opc h)), c2)))"

fun ws_loop :: "nat \<Rightarrow> in_flight \<Rightarrow> ws_conn \<Rightarrow> (ws_error + (bool \<times> bytes)) \<times> ws_conn" where
  "ws_loop 0 asm c = (Inl (TooManyFrames (maxWSFrames + 1)), c)"
| "ws_loop (Suc k) asm c =
     (case ws_turn asm c of
        (Failed e, c') \<Rightarrow> (Inl e, c')
      | (Message b m, c') \<Rightarrow> (Inr (b, m), c')
      | (GoOn asm', c') \<Rightarrow> ws_loop k asm' c')"

definition ws_read :: "ws_conn \<Rightarrow> (ws_error + (bool \<times> bytes)) \<times> ws_conn" where
  "ws_read = ws_loop maxWSFrames None"

section \<open>The headers that are accepted\<close>

definition enc_header :: "frame_header \<Rightarrow> bytes" where
  "enc_header h =
     ((if fin h then 0x80 else 0) OR opc h) # (0x80 OR length_code (flen h))
     # length_ext (flen h) @ mask_key h"

definition header_ok :: "frame_header \<Rightarrow> bool" where
  "header_ok h \<longleftrightarrow> opc h < 16 \<and> length (mask_key h) = 4 \<and> flen h < 2 ^ 63
     \<and> (isControl (opc h) \<longrightarrow> fin h \<and> flen h \<le> maxControlPayload)"

lemma and_top_bit: "((w :: 64 word) AND push_bit 63 1 \<noteq> 0) \<longleftrightarrow> 2 ^ 63 \<le> unat w"
proof -
  have "w AND push_bit 63 1 \<noteq> 0 \<longleftrightarrow> bit w 63"
    by (metis and_exp_eq_0_iff_not_bit push_bit_of_1)
  also have "\<dots> \<longleftrightarrow> odd (unat w div 2 ^ 63)" by (metis bit_iff_odd bit_unsigned_iff bit_imp_le_length
        linorder_not_le possible_bit_nat)
  also have "\<dots> \<longleftrightarrow> 2 ^ 63 \<le> unat w"
  proof -
    have "unat w < 2 ^ 64" using unsigned_less [of w, where ?'a = nat] by simp
    then have "unat w div 2 ^ 63 < 2" by (simp add: less_mult_imp_div_less)
    then have "unat w div 2 ^ 63 = 0 \<or> unat w div 2 ^ 63 = 1" by auto
    moreover have "unat w div 2 ^ 63 = 0 \<longleftrightarrow> unat w < 2 ^ 63" by (simp add: div_eq_0_iff)
    ultimately show ?thesis by auto
  qed
  finally show ?thesis .
qed

lemma length_code_cases:
  "length_code l = 126 \<longleftrightarrow> maxControlPayload < l \<and> l \<le> 0xffff"
  "length_code l = 127 \<longleftrightarrow> 0xffff < l"
  "l \<le> maxControlPayload \<Longrightarrow> unat (length_code l) = l"
  by (auto simp: length_code_def maxControlPayload_def word_unat_eq_iff unat_of_nat)

lemma and_7f_less: "unat (b AND 0x7f :: byte) < 128"
proof -
  have "b AND 0x7f = take_bit 7 b" by (simp add: take_bit_eq_mask mask_eq_decr_exp)
  then show ?thesis
    using take_bit_nat_less_exp [of 7 "unat b"] by (simp add: unsigned_take_bit_eq)
qed

lemma put_be_2_get: "length e = 2 \<Longrightarrow> put_be 2 (get_be e :: 16 word) = e"
  using put_be_get_be [of e, where ?'a = 16] by simp

lemma put_be_8_get: "length e = 8 \<Longrightarrow> put_be 8 (get_be e :: 64 word) = e"
  using put_be_get_be [of e, where ?'a = 64] by simp

lemma read_length_forward:
  assumes "read_length b1 s = Inr (l, r)"
  shows "l < 2 ^ 63 \<and> b1 AND 0x7f = length_code l \<and> s = length_ext l @ r"
proof -
  consider (a) "b1 AND 0x7f = 126" | (b) "b1 AND 0x7f = 127"
    | (c) "b1 AND 0x7f \<noteq> 126" "b1 AND 0x7f \<noteq> 127" by blast
  then show ?thesis
  proof cases
    case a
    then obtain e where e: "s = e @ r" "length e = 2" "l = unat (get_be e :: 16 word)" "126 \<le> l"
      using assms
      by (auto simp: read_length_def Let_def read_full_Some split: option.splits if_splits)
    then have "l < 65536" using unsigned_less [of "get_be e :: 16 word", where ?'a = nat] by simp
    with a e show ?thesis
      by (simp add: length_code_def length_ext_def maxControlPayload_def put_be_2_get)
  next
    case b
    then obtain e where e: "s = e @ r" "length e = 8" "l = unat (get_be e :: 64 word)" "65535 < l"
        "\<not> 2 ^ 63 \<le> l"
      using assms and_top_bit
      by (auto simp: read_length_def Let_def read_full_Some split: option.splits if_splits)
    with b show ?thesis
      by (simp add: length_code_def length_ext_def maxControlPayload_def put_be_8_get)
  next
    case c
    then have l: "l = unat (b1 AND 0x7f)" "r = s"
      using assms by (auto simp: read_length_def)
    have "l \<noteq> 126" "l \<noteq> 127" using c l(1) by (auto simp: word_unat_eq_iff)
    with l and_7f_less [of b1] have "l \<le> 125" by simp
    with l show ?thesis by (simp add: length_code_def length_ext_def maxControlPayload_def)
  qed
qed

lemma read_length_backward:
  assumes "l < 2 ^ 63" "b1 AND 0x7f = length_code l"
  shows "read_length b1 (length_ext l @ r) = Inr (l, r)"
proof -
  consider (a) "l \<le> maxControlPayload" | (b) "maxControlPayload < l" "l \<le> 0xffff" | (c) "0xffff < l"
    by linarith
  then show ?thesis
  proof cases
    case a
    then have "length_code l \<noteq> 126" "length_code l \<noteq> 127" "unat (length_code l) = l" "length_ext l = []"
      using length_code_cases by (auto simp: maxControlPayload_def length_ext_def)
    with assms(2) show ?thesis by (simp add: read_length_def)
  next
    case b
    then have "length_code l = 126" "length_ext l = put_be 2 (of_nat l :: 16 word)"
        "unat (of_nat l :: 16 word) = l"
      by (simp_all add: length_code_cases length_ext_def unat_of_nat)
    with assms(2) b(1) show ?thesis by (simp add: read_length_def maxControlPayload_def)
  next
    case c
    then have "length_code l = 127" "length_ext l = put_be 8 (of_nat l :: 64 word)"
        and u: "unat (of_nat l :: 64 word) = l"
      using assms(1) by (simp_all add: length_code_cases length_ext_def maxControlPayload_def unat_of_nat)
    moreover have "\<not> (of_nat l :: 64 word) AND push_bit 63 1 \<noteq> 0"
      using and_top_bit [of "of_nat l"] u assms(1) by simp
    ultimately show ?thesis using assms(2) c by (simp add: read_length_def Let_def)
  qed
qed

lemma and_80: "(b :: byte) AND 0x80 = 0 \<longleftrightarrow> \<not> bit b 7"
proof
  assume z: "b AND 0x80 = 0"
  have "bit (b AND 0x80) 7 = bit b 7" by (simp add: bit_simps)
  with z show "\<not> bit b 7" by simp
qed (rule byte_eqI; simp add: bit_simps)

lemma low_nibble: "unat (o' :: byte) < 16 \<Longrightarrow> 4 \<le> n \<Longrightarrow> \<not> bit o' n"
proof -
  assume "unat o' < 16" "4 \<le> n"
  then have "take_bit 4 o' = o'"
    by (simp add: word_unat_eq_iff unsigned_take_bit_eq take_bit_nat_eq_self)
  with \<open>4 \<le> n\<close> show ?thesis by (metis bit_take_bit_iff linorder_not_le)
qed

lemma head_byte:
  assumes "unat o' < 16"
  shows "((if f then 0x80 else 0) OR o') AND 0x70 = (0 :: byte)"
    and "((if f then 0x80 else 0) OR o') AND 0x0f = (o' :: byte)"
    and "((if f then 0x80 else 0) OR o') AND 0x80 = (0 :: byte) \<longleftrightarrow> \<not> f"
  using low_nibble [OF assms]
  by (auto simp: bit_simps and_80 intro!: byte_eqI)

lemma head_byte_back:
  assumes "b AND 0x70 = (0 :: byte)"
  shows "(if b AND 0x80 = 0 then 0 else 0x80) OR (b AND 0x0f) = b"
proof -
  have "bit (b AND 0x70) 4 = bit b 4" "bit (b AND 0x70) 5 = bit b 5" "bit (b AND 0x70) 6 = bit b 6"
    by (simp_all add: bit_simps)
  with assms have "\<not> bit b 4" "\<not> bit b 5" "\<not> bit b 6" by simp_all
  then show ?thesis by (auto simp: bit_simps and_80 intro!: byte_eqI)
qed

lemma nibble_less: "unat (b AND 0x0f :: byte) < 16"
proof -
  have "b AND 0x0f = take_bit 4 b" by (simp add: take_bit_eq_mask mask_eq_decr_exp)
  then show ?thesis
    using take_bit_nat_less_exp [of 4 "unat b"] by (simp add: unsigned_take_bit_eq)
qed

lemma mask_byte: "(0x80 OR length_code l) AND 0x7f = length_code l" "(0x80 OR length_code l) AND 0x80 \<noteq> 0"
proof -
  have "unat (length_code l) < 128"
    by (auto simp: length_code_def maxControlPayload_def unat_of_nat)
  then have "take_bit 7 (length_code l) = length_code l"
    by (simp add: word_unat_eq_iff unsigned_take_bit_eq take_bit_nat_eq_self)
  then have "\<not> bit (length_code l) 7" by (metis bit_take_bit_iff less_irrefl)
  then show "(0x80 OR length_code l) AND 0x7f = length_code l" "(0x80 OR length_code l) AND 0x80 \<noteq> 0"
    by (auto simp: bit_simps and_80 intro!: byte_eqI)
qed

lemma mask_byte_back: "b AND 0x80 \<noteq> 0 \<Longrightarrow> 0x80 OR (b AND 0x7f) = (b :: byte)"
  by (auto simp: bit_simps and_80 intro!: byte_eqI)

lemma read_header_forward:
  assumes "read_header s = Inr (h, r)"
  shows "header_ok h \<and> s = enc_header h @ r"
proof -
  obtain b0 b1 r0 where s: "s = b0 # b1 # r0"
    using assms by (cases s; cases "tl s") (auto simp: read_header_def read_full_def)
  obtain l r1 m where
      z: "b0 AND 0x70 = 0" and l: "read_length b1 r0 = Inr (l, r1)" and u: "b1 AND 0x80 \<noteq> 0"
      and m: "read_full 4 r1 = Some (m, r)"
      and h: "h = \<lparr>fin = b0 AND 0x80 \<noteq> 0, opc = b0 AND 0x0f, flen = l, mask_key = m\<rparr>"
      and k: "isControl (b0 AND 0x0f) \<longrightarrow> b0 AND 0x80 \<noteq> 0 \<and> l \<le> maxControlPayload"
    using assms unfolding s
    by (auto simp: read_header_def read_full_def [of 2] Let_def split: if_splits sum.splits option.splits)
  from read_length_forward [OF l] have
    l': "l < 2 ^ 63" "b1 AND 0x7f = length_code l" "r0 = length_ext l @ r1" by auto
  have "b1 = 0x80 OR length_code l" using mask_byte_back [OF u] l'(2) by simp
  moreover have "b0 = (if b0 AND 0x80 = 0 then 0 else 0x80) OR (b0 AND 0x0f)"
    using head_byte_back [OF z] by simp
  ultimately show ?thesis
    using m k l' h s nibble_less [of b0]
    by (auto simp: header_ok_def enc_header_def read_full_Some word_less_nat_alt)
qed

lemma read_header_backward:
  assumes "header_ok h"
  shows "read_header (enc_header h @ r) = Inr (h, r)"
proof -
  have "unat (opc h) < 16" using assms by (simp add: header_ok_def word_less_nat_alt)
  note hb = head_byte [OF this, of "fin h"]
  have "read_length (0x80 OR length_code (flen h)) (length_ext (flen h) @ mask_key h @ r)
      = Inr (flen h, mask_key h @ r)"
    using assms by (intro read_length_backward) (auto simp: header_ok_def mask_byte)
  then show ?thesis
    using assms hb mask_byte(2) [of "flen h"]
    by (auto simp: read_header_def enc_header_def header_ok_def read_full_def [of 2] Let_def)
qed

definition dec_header :: "bytes \<Rightarrow> (frame_header \<times> bytes) option" where
  "dec_header s = (case read_header s of Inl _ \<Rightarrow> None | Inr x \<Rightarrow> Some x)"

interpretation header_codec: codec enc_header dec_header header_ok
  by unfold_locales (simp add: dec_header_def read_header_backward)

section \<open>What one call of Read can do\<close>

lemma length_unmask [simp, len_simps]: "length (unmask m p) = length p"
  by (simp add: unmask_def)

lemma unmask_unmask [simp]: "unmask m (unmask m p) = p"
  by (auto simp: unmask_def intro!: nth_equalityI simp flip: xor.assoc)
    (simp add: xor.assoc)

text \<open>The answers \<open>Read\<close> itself writes are control frames.\<close>

definition reply_ok :: "bytes \<Rightarrow> bool" where
  "reply_ok f \<longleftrightarrow> length f \<le> maxControlPayload + 2"

definition turn_ok :: "nat \<Rightarrow> turn \<Rightarrow> bool" where
  "turn_ok lim t =
     (case t of Failed e \<Rightarrow> True | Message b m \<Rightarrow> length m \<le> lim
      | GoOn None \<Rightarrow> True | GoOn (Some (k, m)) \<Rightarrow> length m \<le> lim)"

definition conn_after :: "ws_conn \<Rightarrow> ws_conn \<Rightarrow> bool" where
  "conn_after c c' \<longleftrightarrow> (\<exists>used. rx c = used @ rx c') \<and> rlimit c' = rlimit c
     \<and> (\<exists>out. tx c' = tx c @ out \<and> length out \<le> 1 \<and> list_all reply_ok out)"

lemma readHeader_after:
  "readHeader c = Inr (h, c1) \<Longrightarrow>
     header_ok h \<and> rx c = enc_header h @ rx c1 \<and> c1 = c\<lparr>rx := rx c1\<rparr>"
  using read_header_forward by (fastforce simp: readHeader_def split: if_splits sum.splits)

lemma readPayload_after:
  "readPayload c h = Inr (p, c1) \<Longrightarrow>
     length p = flen h \<and> flen h \<le> rlimit c \<and> (\<exists>q. rx c = q @ rx c1) \<and> c1 = c\<lparr>rx := rx c1\<rparr>"
  by (auto simp: readPayload_def read_full_Some split: if_splits option.splits)

lemma ws_write_after:
  "ws_write o' p c = (ok, c') \<Longrightarrow>
     c' = c\<lparr>tx := tx c'\<rparr> \<and> (tx c' = tx c \<or> tx c' = tx c @ [ws_frame o' p])"
  by (auto simp: ws_write_def split: if_splits)

lemma reply_ok_frame: "length p \<le> maxControlPayload \<Longrightarrow> reply_ok (ws_frame o' p)"
  by (simp add: reply_ok_def ws_frame_def length_ext_def)

lemma control_short:
  "header_ok h \<Longrightarrow> opc h = opPing \<or> opc h = opClose \<Longrightarrow> flen h \<le> maxControlPayload"
  by (auto simp: header_ok_def isControl_def op_defs)

lemma turn_ok_Failed [simp]: "turn_ok lim (Failed e)"
  by (simp add: turn_ok_def)

lemma data_turn_ok [simp]: "turn_ok lim (data_turn lim fi kind msg)"
  by (simp add: turn_ok_def data_turn_def)

lemma reply_after:
  assumes "ws_write o' p c2 = (ok, c3)" "length p \<le> maxControlPayload"
    and "\<exists>used. rx c = used @ rx c2" "rlimit c2 = rlimit c" "tx c2 = tx c"
  shows "conn_after c c3"
proof -
  from ws_write_after [OF assms(1)] have
    c3: "c3 = c2\<lparr>tx := tx c3\<rparr>" "tx c3 = tx c2 \<or> tx c3 = tx c2 @ [ws_frame o' p]" by auto
  then have "rx c3 = rx c2" "rlimit c3 = rlimit c2" by (metis ws_conn.select_convs ws_conn.surjective
        ws_conn.update_convs(2))+
  moreover have "\<exists>out. tx c3 = tx c2 @ out \<and> length out \<le> 1 \<and> list_all reply_ok out"
    using c3(2) reply_ok_frame [OF assms(2)] by (elim disjE) auto
  ultimately show ?thesis using assms(3-5) by (simp add: conn_after_def)
qed

lemma only_rx: "c2 = c\<lparr>rx := r\<rparr> \<Longrightarrow> rlimit c2 = rlimit c \<and> tx c2 = tx c"
  by simp

lemma ws_turn_ok:
  assumes "ws_turn asm c = (t, c')" "turn_ok (rlimit c) (GoOn asm)"
  shows "turn_ok (rlimit c) t \<and> conn_after c c'"
proof (cases "readHeader c")
  case (Inl e)
  then show ?thesis using assms by (auto simp: ws_turn_def turn_ok_def conn_after_def)
next
  case (Inr hc)
  obtain h c1 where h: "readHeader c = Inr (h, c1)" using Inr by (cases hc) auto
  note hh = readHeader_after [OF h]
  then obtain r1 where c1: "c1 = c\<lparr>rx := r1\<rparr>" and r1: "rx c = enc_header h @ r1" by (metis ws_conn.select_convs(1)
        ws_conn.surjective ws_conn.update_convs(1))
  show ?thesis
  proof (cases "readPayload c1 h")
    case (Inl e)
    then show ?thesis using assms h c1 r1 by (auto simp: ws_turn_def turn_ok_def conn_after_def)
  next
    case (Inr pc)
    obtain p c2 where p: "readPayload c1 h = Inr (p, c2)" using Inr by (cases pc) auto
    note pp = readPayload_after [OF p]
    have "c2 = c\<lparr>rx := rx c2\<rparr>" using pp c1 by simp
    from only_rx [OF this] have c2: "\<exists>used. rx c = used @ rx c2" "rlimit c2 = rlimit c" "tx c2 = tx c"
      using pp c1 r1 by auto
    then have same: "conn_after c c2" by (simp add: conn_after_def)
    consider (reply) "opc h = opPing \<or> opc h = opClose" | (data) "opc h \<noteq> opPing" "opc h \<noteq> opClose" by blast
    then show ?thesis
    proof cases
      case reply
      then have short: "length p \<le> maxControlPayload" using control_short hh pp by metis
      obtain ok1 c3 where w1: "ws_write opPong p c2 = (ok1, c3)" by fastforce
      obtain ok2 c4 where w2: "ws_write opClose p c2 = (ok2, c4)" by fastforce
      from reply_after [OF w1 short c2] reply_after [OF w2 short c2] same
      show ?thesis using assms h p reply w1 w2
        by (auto simp: ws_turn_def turn_ok_def op_defs split: if_splits sum.splits)
    next
      case data
      with same show ?thesis using assms h p c2(2)
        by (auto simp: ws_turn_def op_defs split: if_splits option.splits)
    qed
  qed
qed

lemma ws_loop_ok:
  "turn_ok (rlimit c) (GoOn asm) \<Longrightarrow> ws_loop k asm c = (res, c') \<Longrightarrow>
     (case res of Inl e \<Rightarrow> True | Inr (b, m) \<Rightarrow> length m \<le> rlimit c)
     \<and> (\<exists>used. rx c = used @ rx c')
     \<and> (\<exists>out. tx c' = tx c @ out \<and> length out \<le> k \<and> list_all reply_ok out)
     \<and> rlimit c' = rlimit c"
proof (induction k arbitrary: asm c)
  case (Suc k)
  obtain t c1 where t: "ws_turn asm c = (t, c1)" by fastforce
  from ws_turn_ok [OF t Suc.prems(1)] have ok: "turn_ok (rlimit c) t" "conn_after c c1" by auto
  obtain used out where c1: "rx c = used @ rx c1" "rlimit c1 = rlimit c" "tx c1 = tx c @ out"
      "length out \<le> 1" "list_all reply_ok out"
    using ok(2) by (auto simp: conn_after_def)
  show ?case
  proof (cases t)
    case (GoOn asm')
    then have l: "ws_loop k asm' c1 = (res, c')" using Suc.prems(2) t by simp
    have "turn_ok (rlimit c1) (GoOn asm')" using ok(1) GoOn c1(2) by simp
    from Suc.IH [OF this l] obtain used2 out2 where
      "(case res of Inl e \<Rightarrow> True | Inr (b, m) \<Rightarrow> length m \<le> rlimit c1)"
      "rx c1 = used2 @ rx c'" "tx c' = tx c1 @ out2" "length out2 \<le> k" "list_all reply_ok out2"
      "rlimit c' = rlimit c1" by auto
    with c1 show ?thesis by (intro conjI exI [of _ "used @ used2"] exI [of _ "out @ out2"])
        (auto split: sum.splits)
  qed (use Suc.prems t ok c1 in \<open>auto simp: turn_ok_def\<close>)
qed auto

text \<open>
  Whatever a peer sends, one \<open>Read\<close> is bounded: a message it returns is no longer than the read
  limit, it makes at most 4096 writes, each a control frame of at most 127 bytes, and what it leaves
  unread is a suffix of what was there.
\<close>

theorem ws_read_bounded:
  "case ws_read c of (res, c') \<Rightarrow>
     (case res of Inl e \<Rightarrow> True | Inr (b, m) \<Rightarrow> length m \<le> rlimit c)
     \<and> (\<exists>used. rx c = used @ rx c')
     \<and> (\<exists>out. tx c' = tx c @ out \<and> length out \<le> maxWSFrames \<and> list_all reply_ok out)"
proof -
  have "turn_ok (rlimit c) (GoOn None)" by (simp add: turn_ok_def)
  moreover obtain res c' where r: "ws_loop maxWSFrames None c = (res, c')" by fastforce
  ultimately show ?thesis using ws_loop_ok [of c None maxWSFrames res c'] by (simp add: ws_read_def)
qed

lemma ws_read_keeps_limit: "ws_read c = (res, c') \<Longrightarrow> rlimit c' = rlimit c"
  using ws_loop_ok [of c None maxWSFrames res c'] by (simp add: turn_ok_def ws_read_def)

lemma ws_read_message: "ws_read c = (Inr (b, m), c') \<Longrightarrow> length m \<le> rlimit c"
  using ws_loop_ok [of c None maxWSFrames "Inr (b, m)" c'] by (simp add: turn_ok_def ws_read_def)

section \<open>A fragmented message is put together\<close>

text \<open>What a client sends: a masked frame.\<close>

definition client_frame :: "bool \<Rightarrow> byte \<Rightarrow> bytes \<Rightarrow> bytes \<Rightarrow> bytes" where
  "client_frame fi o' m p =
     enc_header \<lparr>fin = fi, opc = o', flen = length p, mask_key = m\<rparr> @ unmask m p"

text \<open>A ping (or a pong) with its mask and payload, and a part of a message after the control
  frames sent before it.\<close>

type_synonym ctl = "bool \<times> bytes \<times> bytes"
type_synonym part = "ctl list \<times> bytes \<times> bytes"

definition ctl_wire :: "ctl \<Rightarrow> bytes" where
  "ctl_wire k = (case k of (ping, m, p) \<Rightarrow> client_frame True (if ping then opPing else opPong) m p)"

fun message_wire :: "byte \<Rightarrow> part list \<Rightarrow> bytes" where
  "message_wire o' [] = []"
| "message_wire o' ((ks, m, p) # ps) =
     concat (map ctl_wire ks) @ client_frame (ps = []) o' m p @ message_wire opContinuation ps"

definition pongs :: "ctl list \<Rightarrow> bytes list" where
  "pongs ks = map (\<lambda>(ping, m, p). ws_frame opPong p) (filter fst ks)"

definition ctl_ok :: "ctl \<Rightarrow> bool" where
  "ctl_ok k = (case k of (ping, m, p) \<Rightarrow> length m = 4 \<and> length p \<le> maxControlPayload)"

definition part_ok :: "part \<Rightarrow> bool" where
  "part_ok q = (case q of (ks, m, p) \<Rightarrow> list_all ctl_ok ks \<and> length m = 4)"

definition frames_in :: "part list \<Rightarrow> nat" where
  "frames_in ps = sum_list (map (\<lambda>(ks, m, p). length ks + 1) ps)"

definition payloads :: "part list \<Rightarrow> bytes" where
  "payloads ps = concat (map (\<lambda>(ks, m, p). p) ps)"

definition healthy :: "ws_conn \<Rightarrow> bool" where
  "healthy c \<longleftrightarrow> dl_ok c \<and> (\<forall>n. wr_ok c n) \<and> rlimit c < 2 ^ 63 \<and> maxControlPayload \<le> rlimit c"

lemma read_frame:
  assumes "healthy c" "length m = 4" "length p \<le> rlimit c" "o' < 16"
    and "isControl o' \<longrightarrow> fi \<and> length p \<le> maxControlPayload"
    and "rx c = client_frame fi o' m p @ r"
  shows "readHeader c = Inr (\<lparr>fin = fi, opc = o', flen = length p, mask_key = m\<rparr>, c\<lparr>rx := unmask m p @ r\<rparr>)"
    and "readPayload (c\<lparr>rx := unmask m p @ r\<rparr>) \<lparr>fin = fi, opc = o', flen = length p, mask_key = m\<rparr>
         = Inr (p, c\<lparr>rx := r\<rparr>)"
  using assms
  by (auto simp: readHeader_def client_frame_def read_header_backward header_ok_def healthy_def readPayload_def)

lemma ctl_turn:
  assumes "healthy c" "ctl_ok k" "rx c = ctl_wire k @ r"
  shows "ws_turn asm c = (GoOn asm, c\<lparr>rx := r, tx := tx c @ pongs [k]\<rparr>)"
proof -
  obtain ping m p where k: "k = (ping, m, p)" by (cases k)
  have ok: "length m = 4" "length p \<le> maxControlPayload" "length p \<le> rlimit c"
    using assms(1,2) by (auto simp: k ctl_ok_def healthy_def)
  let ?o = "if ping then opPing else opPong"
  have o16: "?o < 16" "isControl ?o \<longrightarrow> True \<and> length p \<le> maxControlPayload"
    using ok by (auto simp: op_defs)
  have w: "rx c = client_frame True ?o m p @ r" using assms(3) by (simp add: k ctl_wire_def)
  note rd = read_frame [OF assms(1) ok(1,3) o16 w]
  show ?thesis
    using rd assms(1) by (auto simp: ws_turn_def k pongs_def ws_write_def healthy_def op_defs)
qed

lemma ctls_loop:
  assumes "healthy c" "list_all ctl_ok ks" "rx c = concat (map ctl_wire ks) @ r"
  shows "ws_loop (length ks + n) asm c = ws_loop n asm (c\<lparr>rx := r, tx := tx c @ pongs ks\<rparr>)"
  using assms
proof (induction ks arbitrary: c)
  case Nil
  then have "r = rx c" by simp
  then show ?case by (simp add: pongs_def)
next
  case (Cons k ks)
  have 1: "ws_turn asm c = (GoOn asm, c\<lparr>rx := concat (map ctl_wire ks) @ r, tx := tx c @ pongs [k]\<rparr>)"
    using Cons.prems by (intro ctl_turn) auto
  have "healthy (c\<lparr>rx := concat (map ctl_wire ks) @ r, tx := tx c @ pongs [k]\<rparr>)"
    using Cons.prems(1) by (simp add: healthy_def)
  from Cons.IH [OF this] Cons.prems(2) 1 show ?case by (simp add: pongs_def)
qed

lemma data_turn_frame:
  assumes "healthy c" "length m = 4" "rx c = client_frame fi o' m p @ r"
    and "(asm = None \<and> (o' = opText \<or> o' = opBinary) \<and> kind = o' \<and> msg = p)
         \<or> (\<exists>q. asm = Some (kind, q) \<and> o' = opContinuation \<and> msg = q @ p)"
    and "length msg \<le> rlimit c"
  shows "ws_turn asm c =
     (if fi then Message (kind = opBinary) msg else GoOn (Some (kind, msg)), c\<lparr>rx := r\<rparr>)"
proof -
  have o': "o' < 16" "isControl o' \<longrightarrow> fi \<and> length p \<le> maxControlPayload"
    using assms(4) by (auto simp: op_defs isControl_def word_le_nat_alt)
  have p: "length p \<le> rlimit c" using assms(4,5) by auto
  note rd = read_frame [OF assms(1,2) p o' assms(3)]
  show ?thesis
    using rd assms(4,5) by (auto simp: ws_turn_def data_turn_def op_defs)
qed

text \<open>One part: the control frames before it are answered, and its frame ends the message or carries it on.\<close>

lemma part_loop:
  assumes "healthy c" "list_all ctl_ok ks" "length m = 4"
    and "rx c = concat (map ctl_wire ks) @ client_frame fi o' m p @ r"
    and "(asm = None \<and> (o' = opText \<or> o' = opBinary) \<and> kind = o' \<and> pre = [])
         \<or> (asm = Some (kind, pre) \<and> o' = opContinuation)"
    and "length pre + length p \<le> rlimit c"
  shows "ws_loop (length ks + Suc n) asm c =
     (if fi then (Inr (kind = opBinary, pre @ p), c\<lparr>rx := r, tx := tx c @ pongs ks\<rparr>)
      else ws_loop n (Some (kind, pre @ p)) (c\<lparr>rx := r, tx := tx c @ pongs ks\<rparr>))"
proof -
  let ?c = "c\<lparr>rx := client_frame fi o' m p @ r, tx := tx c @ pongs ks\<rparr>"
  have l: "ws_loop (length ks + Suc n) asm c = ws_loop (Suc n) asm ?c"
    using assms(1,2,4) by (intro ctls_loop) simp_all
  have "healthy ?c" using assms(1) by (simp add: healthy_def)
  then have t: "ws_turn asm ?c =
      (if fi then Message (kind = opBinary) (pre @ p) else GoOn (Some (kind, pre @ p)), ?c\<lparr>rx := r\<rparr>)"
    using assms(3,5,6) by (intro data_turn_frame) auto
  have e: "?c\<lparr>rx := r\<rparr> = c\<lparr>rx := r, tx := tx c @ pongs ks\<rparr>" by simp
  show ?thesis unfolding l ws_loop.simps t e by (cases fi) simp_all
qed

lemma message_wire_Cons:
  "message_wire o' ((ks, m, p) # ps) @ r =
     concat (map ctl_wire ks) @ client_frame (ps = []) o' m p @ (if ps = [] then [] else message_wire opContinuation ps) @ r"
  by (cases ps) simp_all

lemma parts_loop:
  assumes "healthy c" "list_all part_ok ps" "ps \<noteq> []" "rx c = message_wire o' ps @ r"
    and "(asm = None \<and> (o' = opText \<or> o' = opBinary) \<and> kind = o' \<and> pre = [])
         \<or> (asm = Some (kind, pre) \<and> o' = opContinuation)"
    and "length pre + length (payloads ps) \<le> rlimit c" "frames_in ps \<le> n"
  shows "ws_loop n asm c =
     (Inr (kind = opBinary, pre @ payloads ps),
      c\<lparr>rx := r, tx := tx c @ pongs (concat (map fst ps))\<rparr>)"
  using assms
proof (induction ps arbitrary: c o' asm pre n)
  case (Cons q ps)
  obtain ks m p where q: "q = (ks, m, p)" by (cases q)
  have ok: "list_all ctl_ok ks" "length m = 4" "list_all part_ok ps"
    using Cons.prems(2) by (simp_all add: q part_ok_def [of "(ks, m, p)"])
  have "length ks + Suc (frames_in ps) \<le> n" using Cons.prems(7) by (simp add: q frames_in_def)
  then have "n = length ks + Suc (n - length ks - 1)" "frames_in ps \<le> n - length ks - 1" by linarith+
  then obtain n' where n: "n = length ks + Suc n'" "frames_in ps \<le> n'" by blast
  have len: "length pre + length p \<le> rlimit c" using Cons.prems(6) by (simp add: q payloads_def)
  note step = part_loop [OF Cons.prems(1) ok(1,2) Cons.prems(4) [unfolded q message_wire_Cons] Cons.prems(5) len, of n', folded n(1)]
  show ?case
  proof (cases "ps = []")
    case True
    then show ?thesis using step by (simp add: q payloads_def)
  next
    case False
    let ?c = "c\<lparr>rx := message_wire opContinuation ps @ r, tx := tx c @ pongs ks\<rparr>"
    have "ws_loop n' (Some (kind, pre @ p)) ?c =
        (Inr (kind = opBinary, (pre @ p) @ payloads ps),
         ?c\<lparr>rx := r, tx := tx ?c @ pongs (concat (map fst ps))\<rparr>)"
      using False Cons.prems(1,6) ok(3) n(2)
      by (intro Cons.IH [where o' = opContinuation]) (auto simp: healthy_def q payloads_def)
    then show ?thesis using step False by (simp add: q payloads_def pongs_def)
  qed
qed simp

text \<open>With fewer turns than frames the loop ends refusing the message.\<close>

lemma ctls_too_many:
  assumes "healthy c" "list_all ctl_ok ks" "rx c = concat (map ctl_wire ks) @ r" "n \<le> length ks"
  shows "fst (ws_loop n asm c) = Inl (TooManyFrames (maxWSFrames + 1))"
proof -
  have k: "ks = take n ks @ drop n ks" by simp
  have "rx c = concat (map ctl_wire (take n ks)) @ concat (map ctl_wire (drop n ks)) @ r"
    unfolding assms(3) by (subst k) (simp del: append_take_drop_id)
  moreover have "list_all ctl_ok (take n ks)"
    using assms(2) by (auto simp: list_all_iff dest: in_set_takeD)
  ultimately have "ws_loop (length (take n ks) + 0) asm c =
      ws_loop 0 asm (c\<lparr>rx := concat (map ctl_wire (drop n ks)) @ r, tx := tx c @ pongs (take n ks)\<rparr>)"
    using assms(1) by (intro ctls_loop) simp_all
  then show ?thesis using assms(4) by simp
qed

lemma parts_too_many:
  assumes "healthy c" "list_all part_ok ps" "rx c = message_wire o' ps @ r"
    and "(asm = None \<and> (o' = opText \<or> o' = opBinary) \<and> kind = o' \<and> pre = [])
         \<or> (asm = Some (kind, pre) \<and> o' = opContinuation)"
    and "length pre + length (payloads ps) \<le> rlimit c" "n < frames_in ps"
  shows "fst (ws_loop n asm c) = Inl (TooManyFrames (maxWSFrames + 1))"
  using assms
proof (induction ps arbitrary: c o' asm pre n)
  case (Cons q ps)
  obtain ks m p where q: "q = (ks, m, p)" by (cases q)
  have ok: "list_all ctl_ok ks" "length m = 4" "list_all part_ok ps"
    using Cons.prems(2) by (simp_all add: q part_ok_def [of "(ks, m, p)"])
  show ?case
  proof (cases "n \<le> length ks")
    case True
    show ?thesis by (rule ctls_too_many [OF Cons.prems(1) ok(1) Cons.prems(3) [unfolded q message_wire_Cons] True])
  next
    case False
    then obtain n' where n: "n = length ks + Suc n'" by (metis not_le less_iff_Suc_add add_Suc_right)
    then have n': "n' < frames_in ps" using Cons.prems(6) by (simp add: q frames_in_def)
    then have ps: "ps \<noteq> []" by (auto simp: frames_in_def)
    have len: "length pre + length p \<le> rlimit c" using Cons.prems(5) by (simp add: q payloads_def)
    let ?c = "c\<lparr>rx := message_wire opContinuation ps @ r, tx := tx c @ pongs ks\<rparr>"
    have "fst (ws_loop n' (Some (kind, pre @ p)) ?c) = Inl (TooManyFrames (maxWSFrames + 1))"
      using Cons.prems(1,5) ok(3) n'
      by (intro Cons.IH [where o' = opContinuation and pre = "pre @ p"]) (auto simp: healthy_def q payloads_def)
    then show ?thesis
      using part_loop [OF Cons.prems(1) ok(1,2) Cons.prems(3) [unfolded q message_wire_Cons] Cons.prems(4) len, of n', folded n] ps
      by simp
  qed
qed (simp add: frames_in_def)

text \<open>A message sent in a single frame.\<close>

lemma ws_read_whole:
  assumes "healthy w" "length m = 4" "length c \<le> rlimit w" "o' = opText \<or> o' = opBinary"
    and "rx w = client_frame True o' m c @ r"
  shows "ws_read w = (Inr (o' = opBinary, c), w\<lparr>rx := r\<rparr>)"
  using parts_loop [of w "[([], m, c)]" o' r None o' "[]" maxWSFrames] assms
  by (simp add: ws_read_def part_ok_def payloads_def frames_in_def maxWSFrames_def pongs_def)

text \<open>
  C9. A message the client split into up to 4096 frames (\<open>maxWSFrames\<close>), the pings and pongs between
  them counted, and no longer than the connection's read limit, is returned whole, every ping is
  answered with its own payload in order, and the next message is left unread. Split into more frames,
  it is refused.
\<close>

theorem ws_reassembles:
  assumes "healthy c" "list_all part_ok ps" "ps \<noteq> []" "o' = opText \<or> o' = opBinary"
    and "length (payloads ps) \<le> rlimit c"
    and "rx c = message_wire o' ps @ r"
  shows "if frames_in ps \<le> maxWSFrames
     then ws_read c = (Inr (o' = opBinary, payloads ps),
            c\<lparr>rx := r, tx := tx c @ pongs (concat (map fst ps))\<rparr>)
     else fst (ws_read c) = Inl (TooManyFrames (maxWSFrames + 1))"
  unfolding ws_read_def
  using assms parts_loop [where pre = "[]" and asm = None and kind = o' and o' = o' and n = maxWSFrames]
    parts_too_many [where pre = "[]" and asm = None and kind = o' and o' = o' and n = maxWSFrames]
  by simp

definition demo_conn :: ws_conn where
  "demo_conn = \<lparr>rx = [], tx = [], wr_ok = (\<lambda>_. True), dl_ok = True, rlimit = maxMessage, idle = 0, shut = False\<rparr>"

definition demo_parts :: "part list" where
  "demo_parts = [([(True, [1, 2, 3, 4], [7])], [9, 9, 9, 9], [1, 2]),
                 ([(False, [0, 0, 0, 0], []), (True, [5, 6, 7, 8], [8, 8])], [3, 1, 4, 1], [5])]"

theorem ws_reassembles_witness:
  "ws_read (demo_conn\<lparr>rx := message_wire opBinary demo_parts @ [42]\<rparr>) =
     (Inr (True, [1, 2, 5]),
      demo_conn\<lparr>rx := [42], tx := [ws_frame opPong [7], ws_frame opPong [8, 8]]\<rparr>)"
  using ws_reassembles [of "demo_conn\<lparr>rx := message_wire opBinary demo_parts @ [42]\<rparr>" demo_parts opBinary "[42]"]
  by (simp add: demo_conn_def demo_parts_def healthy_def part_ok_def ctl_ok_def payloads_def
      frames_in_def maxWSFrames_def maxMessage_def maxControlPayload_def pongs_def)

text \<open>
  A header is accepted exactly when it is the canonical encoding of a masked, unfragmented-if-control
  header: no reserved bit, the shortest length form, at most 125 bytes for a control frame.
\<close>

theorem header_canonical:
  "read_header s = Inr (h, r) \<longleftrightarrow> header_ok h \<and> s = enc_header h @ r"
  using read_header_forward read_header_backward by blast

section \<open>The upgrade\<close>

datatype upgrade_error = UpgradeIO | Refused nat string

text \<open>\<open>readLine\<close>: \<open>n\<close> bytes are in the line so far. A line of more than \<open>maxRequestBytes\<close> is refused.\<close>

fun line_bytes :: "nat \<Rightarrow> bytes \<Rightarrow> upgrade_error + (bytes \<times> bytes)" where
  "line_bytes n [] = Inl UpgradeIO"
| "line_bytes n (b # r) =
     (if b = 10 then Inr ([], r)
      else if maxRequestBytes \<le> n then Inl (Refused 431 ''Request Header Fields Too Large'')
      else (case line_bytes (Suc n) r of Inl e \<Rightarrow> Inl e | Inr (l, r') \<Rightarrow> Inr (b # l, r')))"

definition readLine :: "bytes \<Rightarrow> upgrade_error + (string \<times> bytes)" where
  "readLine s =
     (case line_bytes 0 s of Inl e \<Rightarrow> Inl e
      | Inr (l, r) \<Rightarrow> Inr (trim_suffix (bytes_str l) [CHR 0x0d], r))"

definition hasToken :: "string \<Rightarrow> string \<Rightarrow> bool" where
  "hasToken list want = list_ex (\<lambda>t. equal_fold (trim_space t) want) (split_on (CHR '','') list)"

type_synonym headers = "string \<rightharpoonup> string"

definition header_get :: "headers \<Rightarrow> string \<Rightarrow> string" where
  "header_get hs k = (case hs k of None \<Rightarrow> '''' | Some v \<Rightarrow> v)"

text \<open>The header lines, up to the empty one; \<open>n\<close> more lines may be read.\<close>

fun read_headers :: "nat \<Rightarrow> headers \<Rightarrow> bytes \<Rightarrow> upgrade_error + (headers \<times> bytes)" where
  "read_headers 0 hs s = Inl (Refused 431 ''Request Header Fields Too Large'')"
| "read_headers (Suc n) hs s =
     (case readLine s of
        Inl e \<Rightarrow> Inl e
      | Inr (line, r) \<Rightarrow>
          if line = '''' then Inr (hs, r)
          else (case cut_at line '':'' of
              None \<Rightarrow> Inl (Refused 400 ''Bad Request'')
            | Some (k, v) \<Rightarrow> read_headers n (hs(to_lower (trim_space k) \<mapsto> trim_space v)) r))"

definition request_path :: "string \<Rightarrow> string" where
  "request_path got = takeWhile (\<lambda>c. c \<noteq> CHR ''?'') got"

definition check_headers :: "headers \<Rightarrow> upgrade_error + string" where
  "check_headers hs =
     (if \<not> equal_fold (header_get hs ''upgrade'') ''websocket'' then Inl (Refused 400 ''Bad Request'')
      else if \<not> hasToken (header_get hs ''connection'') ''upgrade'' then Inl (Refused 400 ''Bad Request'')
      else if header_get hs ''sec-websocket-version'' \<noteq> ''13'' then Inl (Refused 426 ''Upgrade Required'')
      else let key = header_get hs ''sec-websocket-key'' in
        (case b64_decode key of
           None \<Rightarrow> Inl (Refused 400 ''Bad Request'')
         | Some raw \<Rightarrow> if length raw \<noteq> wsKeyLen then Inl (Refused 400 ''Bad Request'') else Inr key))"

definition readUpgrade :: "bytes \<Rightarrow> string \<Rightarrow> upgrade_error + (string \<times> bytes)" where
  "readUpgrade s path =
     (case readLine s of
        Inl e \<Rightarrow> Inl e
      | Inr (line, r) \<Rightarrow>
          (case str_fields line of
             [meth, got, proto] \<Rightarrow>
               if meth \<noteq> ''GET'' \<or> proto \<noteq> ''HTTP/1.1'' then Inl (Refused 400 ''Bad Request'')
               else if request_path got \<noteq> path then Inl (Refused 404 ''Not Found'')
               else (case read_headers maxRequestLines (\<lambda>_. None) r of
                   Inl e \<Rightarrow> Inl e
                 | Inr (hs, r') \<Rightarrow> (case check_headers hs of Inl e \<Rightarrow> Inl e | Inr key \<Rightarrow> Inr (key, r')))
           | _ \<Rightarrow> Inl (Refused 400 ''Bad Request'')))"

definition wsAcceptSalt :: string where
  "wsAcceptSalt = ''258EAFA5-E914-47DA-95CA-C5AB0DC85B11''"

definition crlf :: string where "crlf = [CHR 0x0d, CHR 0x0a]"

definition accept_response :: "(bytes \<Rightarrow> bytes) \<Rightarrow> string \<Rightarrow> string" where
  "accept_response sha1 key =
     ''HTTP/1.1 101 Switching Protocols'' @ crlf @ ''Upgrade: websocket'' @ crlf
     @ ''Connection: Upgrade'' @ crlf
     @ ''Sec-WebSocket-Accept: '' @ b64_encode (sha1 (str_bytes (key @ wsAcceptSalt))) @ crlf @ crlf"

text \<open>\<open>Accept\<close>: what is written to the socket, and the connection when the upgrade succeeds.\<close>

definition Accept :: "(bytes \<Rightarrow> bytes) \<Rightarrow> (nat \<Rightarrow> bool) \<Rightarrow> bytes \<Rightarrow> string
                      \<Rightarrow> (upgrade_error + ws_conn) \<times> string list" where
  "Accept sha1 wok s path =
     (case readUpgrade s path of
        Inl (Refused st t) \<Rightarrow>
          (Inl (Refused st t), [''HTTP/1.1 '' @ nat_str st @ '' '' @ t @ crlf @ ''Connection: close'' @ crlf @ crlf])
      | Inl UpgradeIO \<Rightarrow> (Inl UpgradeIO, [])
      | Inr (key, r) \<Rightarrow>
          (if wok 0
           then Inr \<lparr>rx = r, tx = [], wr_ok = (\<lambda>n. wok (Suc n)), dl_ok = True, rlimit = maxMessage,
                      idle = 0, shut = False\<rparr>
           else Inl UpgradeIO,
           [accept_response sha1 key]))"

lemma line_bytes_bound:
  "line_bytes n s = Inr (l, r) \<Longrightarrow> n \<le> maxRequestBytes \<Longrightarrow>
     \<exists>used. s = used @ r \<and> length used = Suc (length l) \<and> n + length l \<le> maxRequestBytes"
proof (induction n s arbitrary: l rule: line_bytes.induct)
  case (2 n b r')
  show ?case
  proof (cases "b = 10")
    case False
    with 2(2) obtain l' where l: "line_bytes (Suc n) r' = Inr (l', r)" "l = b # l'" "\<not> maxRequestBytes \<le> n"
      by (auto split: if_splits sum.splits)
    with 2(1) [OF False] obtain used where "r' = used @ r" "length used = Suc (length l')"
        "Suc n + length l' \<le> maxRequestBytes" by fastforce
    with l show ?thesis by (intro exI [of _ "b # used"]) simp
  qed (use 2 in auto)
qed simp

lemma readLine_bound:
  "readLine s = Inr (l, r) \<Longrightarrow> \<exists>used. s = used @ r \<and> length used \<le> Suc maxRequestBytes"
  using line_bytes_bound [of 0 s] by (fastforce simp: readLine_def split: sum.splits)

lemma read_headers_bound:
  "read_headers n hs s = Inr (hs', r) \<Longrightarrow>
     \<exists>used. s = used @ r \<and> length used \<le> n * Suc maxRequestBytes"
proof (induction n hs s rule: read_headers.induct)
  case (2 n hs s)
  obtain line r1 where 1: "readLine s = Inr (line, r1)"
    using 2(2) by (auto split: sum.splits)
  from readLine_bound [OF 1] obtain u where u: "s = u @ r1" "length u \<le> Suc maxRequestBytes" by blast
  show ?case
  proof (cases "line = ''''")
    case True
    then show ?thesis using 2(2) 1 u by (auto intro!: exI [of _ u])
  next
    case False
    with 2(2) 1 obtain k v where kv: "cut_at line '':'' = Some (k, v)"
      by (auto split: option.splits)
    with 2 1 False obtain u2 where "r1 = u2 @ r" "length u2 \<le> n * Suc maxRequestBytes" by fastforce
    with u show ?thesis by (intro exI [of _ "u @ u2"]) simp
  qed
qed simp

text \<open>
  An accepted upgrade was a \<open>GET\<close> of the path with HTTP/1.1, it carries a key of sixteen bytes,
  and the request took at most 65 lines of 8193 bytes, whatever the peer sent.
\<close>

theorem readUpgrade_accepts:
  "case readUpgrade s path of
     Inl e \<Rightarrow> True
   | Inr (key, r) \<Rightarrow>
       (\<exists>raw. b64_decode key = Some raw \<and> length raw = 16)
       \<and> (\<exists>line r1 got. readLine s = Inr (line, r1) \<and> str_fields line = [''GET'', got, ''HTTP/1.1'']
            \<and> request_path got = path)
       \<and> (\<exists>used. s = used @ r \<and> length used \<le> 65 * 8193)"
proof (cases "readUpgrade s path")
  case (Inr kr)
  obtain key r where kr: "kr = (key, r)" by (cases kr)
  obtain line r1 got hs where u: "readLine s = Inr (line, r1)" "str_fields line = [''GET'', got, ''HTTP/1.1'']"
      "request_path got = path" "read_headers maxRequestLines (\<lambda>_. None) r1 = Inr (hs, r)"
      "check_headers hs = Inr key"
    using Inr unfolding kr
    by (auto simp: readUpgrade_def split: sum.splits list.splits if_splits)
  obtain u1 where 1: "s = u1 @ r1" "length u1 \<le> 8193"
    using readLine_bound [OF u(1)] by (auto simp: maxRequestBytes_def)
  obtain u2 where 2: "r1 = u2 @ r" "length u2 \<le> 64 * 8193"
    using read_headers_bound [OF u(4)] by (auto simp: maxRequestBytes_def maxRequestLines_def)
  have "\<exists>raw. b64_decode key = Some raw \<and> length raw = 16"
    using u(5) by (auto simp: check_headers_def Let_def wsKeyLen_def split: if_splits option.splits)
  moreover have "\<exists>used. s = used @ r \<and> length used \<le> 65 * 8193"
    using 1 2 by (intro exI [of _ "u1 @ u2"]) simp
  ultimately show ?thesis using Inr kr u by auto
qed simp

end
