(* ===== verification/Sp_Transport.thy ===== *)
theory Sp_Transport
  imports Sp_Ws
begin

text \<open>
  \<open>internal/sendspin/transport.go\<close> and the session record of \<open>handshake.go\<close>: typed messages sealed
  into websocket frames, split into fragments and put together again. The two cipher states are
  counted by the calls they have served; what they compute is the parameter \<open>enc\<close> or \<open>dec\<close>, a function
  of that count (\<open>None\<close>: the library refuses).
\<close>

definition msgJSON :: byte where "msgJSON = 0"
definition msgFragment :: byte where "msgFragment = 1"
definition maxNoiseMessage :: nat where "maxNoiseMessage = 65535"
definition aeadTagLen :: nat where "aeadTagLen = 16"
definition maxFrameBody :: nat where "maxFrameBody = maxNoiseMessage - aeadTagLen - 1"
definition fragLast :: byte where "fragLast = 1"
definition fragFirst :: byte where "fragFirst = 2"
definition maxMessageFrames :: nat where "maxMessageFrames = 4096"

datatype category = LongTerm | Pairing | Sentinel

record session =
  ws :: ws_conn
  sent :: nat
  received :: nat
  matched :: category
  serverID :: string
  inFragment :: bool
  fragment :: bytes
  fragmentType :: byte
  offered :: "string \<rightharpoonup> string list"
  unpaired :: bool
  roles :: "string list"
  streaming :: bool
  flac :: bool
  rate :: int

type_synonym cipher = "nat \<Rightarrow> bytes \<Rightarrow> bytes option"

datatype transport_error = TWs ws_error | FragmentKind | CipherFailed | Cleartext | EmptyPlaintext
  | InterruptedBy byte | NoFlags | ReservedFlags | FirstInFlight | NoType | NamesItself
  | NoneInFlight | TooLong | TooManyParts | WantedJSON byte

section \<open>Writing\<close>

definition seal :: "cipher \<Rightarrow> bytes \<Rightarrow> session \<Rightarrow> (transport_error + unit) \<times> session" where
  "seal enc plain s =
     (case enc (sent s) plain of
        None \<Rightarrow> (Inl CipherFailed, s)
      | Some sealed \<Rightarrow>
          (case WriteBinary sealed (ws s) of
             (ok, w) \<Rightarrow> (if ok then Inr () else Inl (TWs WsIO), s\<lparr>sent := sent s + 1, ws := w\<rparr>)))"

text \<open>The frames of a body too long for one, in the order they are sealed.\<close>

function fragments :: "bool \<Rightarrow> byte \<Rightarrow> bytes \<Rightarrow> bytes list" where
  "fragments first kind body =
     (if body = [] then []
      else
        let room = (if first then maxFrameBody - 1 - 1 else maxFrameBody - 1);
            n = min room (length body);
            flags = (if first then fragFirst else 0) OR (if n = length body then fragLast else 0)
        in ([msgFragment, flags] @ (if first then [kind] else []) @ take n body)
           # fragments False kind (drop n body))"
  by pat_completeness auto
termination
  by (relation "measure (\<lambda>(f, k, b). length b)")
    (auto simp: maxFrameBody_def maxNoiseMessage_def aeadTagLen_def)

declare fragments.simps [simp del]

definition typed_frames :: "byte \<Rightarrow> bytes \<Rightarrow> bytes list" where
  "typed_frames kind body =
     (if length body \<le> maxFrameBody then [kind # body] else fragments True kind body)"

fun seal_all :: "cipher \<Rightarrow> bytes list \<Rightarrow> session \<Rightarrow> (transport_error + unit) \<times> session" where
  "seal_all enc [] s = (Inr (), s)"
| "seal_all enc (f # fs) s =
     (case seal enc f s of
        (Inl e, s') \<Rightarrow> (Inl e, s')
      | (Inr u, s') \<Rightarrow> seal_all enc fs s')"

definition WriteTyped :: "cipher \<Rightarrow> byte \<Rightarrow> bytes \<Rightarrow> session \<Rightarrow> (transport_error + unit) \<times> session" where
  "WriteTyped enc kind body s =
     (if kind = msgFragment then (Inl FragmentKind, s) else seal_all enc (typed_frames kind body) s)"

section \<open>Reading\<close>

text \<open>\<open>reassemble\<close>: whether the message is complete.\<close>

definition keep_fragment :: "byte \<Rightarrow> session \<Rightarrow> (transport_error + bool) \<times> session" where
  "keep_fragment flags s =
     (if maxMessage < length (fragment s) then (Inl TooLong, s)
      else (Inr (flags AND fragLast \<noteq> 0), s))"

definition reassemble :: "bytes \<Rightarrow> session \<Rightarrow> (transport_error + bool) \<times> session" where
  "reassemble plain s =
     (case plain of
        t # flags # body \<Rightarrow>
          (if flags AND NOT (fragFirst OR fragLast) \<noteq> 0 then (Inl ReservedFlags, s)
           else if flags AND fragFirst \<noteq> 0 then
             (if inFragment s then (Inl FirstInFlight, s)
              else (case body of
                  [] \<Rightarrow> (Inl NoType, s)
                | k # bs \<Rightarrow>
                    if k = msgFragment then (Inl NamesItself, s)
                    else keep_fragment flags (s\<lparr>inFragment := True, fragmentType := k, fragment := bs\<rparr>)))
           else if \<not> inFragment s then (Inl NoneInFlight, s)
           else keep_fragment flags (s\<lparr>fragment := fragment s @ body\<rparr>))
      | _ \<Rightarrow> (Inl NoFlags, s))"

datatype sp_result = SpFailed transport_error | SpMessage byte bytes | SpGoOn

definition plain_turn :: "bytes \<Rightarrow> session \<Rightarrow> sp_result \<times> session" where
  "plain_turn plain s =
     (case plain of
        [] \<Rightarrow> (SpFailed EmptyPlaintext, s)
      | k # body \<Rightarrow>
          if k \<noteq> msgFragment then
            (if inFragment s then SpFailed (InterruptedBy k) else SpMessage k body, s)
          else (case reassemble plain s of
              (Inl e, s') \<Rightarrow> (SpFailed e, s')
            | (Inr False, s') \<Rightarrow> (SpGoOn, s')
            | (Inr True, s') \<Rightarrow>
                (SpMessage (fragmentType s') (fragment s'),
                 s'\<lparr>inFragment := False, fragment := [], fragmentType := 0\<rparr>)))"

definition sp_turn :: "cipher \<Rightarrow> session \<Rightarrow> sp_result \<times> session" where
  "sp_turn dec s =
     (case ws_read (ws s) of
        (Inl e, w) \<Rightarrow> (SpFailed (TWs e), s\<lparr>ws := w\<rparr>)
      | (Inr (isBinary, sealed), w) \<Rightarrow>
          if \<not> isBinary then (SpFailed Cleartext, s\<lparr>ws := w\<rparr>)
          else (case dec (received s) sealed of
              None \<Rightarrow> (SpFailed CipherFailed, s\<lparr>ws := w\<rparr>)
            | Some plain \<Rightarrow> plain_turn plain (s\<lparr>ws := w, received := received s + 1\<rparr>)))"

fun sp_loop :: "nat \<Rightarrow> cipher \<Rightarrow> session \<Rightarrow> (transport_error + (byte \<times> bytes)) \<times> session" where
  "sp_loop 0 dec s = (Inl TooManyParts, s)"
| "sp_loop (Suc k) dec s =
     (case sp_turn dec s of
        (SpFailed e, s') \<Rightarrow> (Inl e, s')
      | (SpMessage t b, s') \<Rightarrow> (Inr (t, b), s')
      | (SpGoOn, s') \<Rightarrow> sp_loop k dec s')"

definition session_read :: "cipher \<Rightarrow> session \<Rightarrow> (transport_error + (byte \<times> bytes)) \<times> session" where
  "session_read = sp_loop maxMessageFrames"

section \<open>Sizes\<close>

lemmas transport_sizes = maxFrameBody_def maxNoiseMessage_def aeadTagLen_def maxMessage_def

lemma fragments_Nil [simp]: "fragments first kind [] = []"
  by (simp add: fragments.simps)

definition frag_room :: "bool \<Rightarrow> nat" where
  "frag_room first = (if first then maxFrameBody - 2 else maxFrameBody - 1)"

definition frag_head :: "bool \<Rightarrow> bool \<Rightarrow> byte \<Rightarrow> bytes" where
  "frag_head first final kind =
     [msgFragment, (if first then fragFirst else 0) OR (if final then fragLast else 0)]
     @ (if first then [kind] else [])"

lemma fragments_Cons:
  "body \<noteq> [] \<Longrightarrow> fragments first kind body =
     (frag_head first (length body \<le> frag_room first) kind @ take (frag_room first) body)
     # fragments False kind (drop (frag_room first) body)"
proof -
  assume b: "body \<noteq> []"
  have r: "(if first then maxFrameBody - 1 - 1 else maxFrameBody - 1) = frag_room first"
    by (simp add: frag_room_def numeral_2_eq_2)
  have m: "(min k (length body) = length body) = (length body \<le> k)"
    "take (min k (length body)) body = take k body" "drop (min k (length body)) body = drop k body" for k
    by (auto simp: min_def)
  show ?thesis
    unfolding fragments.simps [of first kind body] r Let_def m frag_head_def using b by simp
qed

lemma frag_room_pos: "0 < frag_room first" "frag_room first + (if first then 1 else 0) + 1 = maxFrameBody"
  by (auto simp: frag_room_def transport_sizes)

lemma fragments_short: "f \<in> set (fragments first kind body) \<Longrightarrow> length f \<le> maxFrameBody + 1"
proof (induction "length body" arbitrary: body first rule: less_induct)
  case less
  show ?case
  proof (cases "body = []")
    case False
    then have "length (drop (frag_room first) body) < length body" using frag_room_pos(1) [of first] by simp
    note ih = less.hyps [OF this, of False]
    have "length (frag_head first b kind @ take (frag_room first) body) \<le> maxFrameBody + 1" for b
      using frag_room_pos(2) [of first] by (simp add: frag_head_def split: if_splits)
    with less.prems False ih show ?thesis by (auto simp: fragments_Cons)
  qed (use less in simp)
qed

lemma fragments_few: "length (fragments first kind body) * (maxFrameBody - 2) \<le> length body + (maxFrameBody - 2)"
proof (induction "length body" arbitrary: body first rule: less_induct)
  case less
  show ?case
  proof (cases "body = []")
    case False
    then have "length (drop (frag_room first) body) < length body" using frag_room_pos(1) [of first] by simp
    note ih = less [OF this, of False]
    show ?thesis
    proof (cases "length body \<le> frag_room first")
      case True
      then show ?thesis using False by (simp add: fragments_Cons)
    next
      case f: False
      have "maxFrameBody - 2 \<le> frag_room first" by (simp add: frag_room_def transport_sizes)
      with ih f False show ?thesis by (simp add: fragments_Cons add_mult_distrib)
    qed
  qed simp
qed

section \<open>What is written is read back\<close>

text \<open>The sealed frames, from the cipher's \<open>n\<close>-th call on.\<close>

fun sealed_from :: "cipher \<Rightarrow> nat \<Rightarrow> bytes list \<Rightarrow> bytes list option" where
  "sealed_from enc n [] = Some []"
| "sealed_from enc n (f # fs) =
     (case (enc n f, sealed_from enc (n + 1) fs) of (Some c, Some cs) \<Rightarrow> Some (c # cs) | _ \<Rightarrow> None)"

definition cipher_pair :: "cipher \<Rightarrow> cipher \<Rightarrow> bool" where
  "cipher_pair enc dec \<longleftrightarrow>
     (\<forall>n p c. enc n p = Some c \<longrightarrow> dec n c = Some p \<and> length c = length p + aeadTagLen)"

lemma seal_all_writes:
  "healthy (ws s) \<Longrightarrow> sealed_from enc (sent s) fs = Some cs \<Longrightarrow>
     seal_all enc fs s = (Inr (), s\<lparr>sent := sent s + length fs,
       ws := (ws s)\<lparr>tx := tx (ws s) @ map (ws_frame opBinary) cs\<rparr>\<rparr>)"
proof (induction fs arbitrary: s cs)
  case (Cons f fs)
  obtain c cs' where c: "enc (sent s) f = Some c" "sealed_from enc (sent s + 1) fs = Some cs'" "cs = c # cs'"
    using Cons.prems(2) by (auto split: option.splits)
  have 1: "seal enc f s = (Inr (), s\<lparr>sent := sent s + 1, ws := (ws s)\<lparr>tx := tx (ws s) @ [ws_frame opBinary c]\<rparr>\<rparr>)"
    using c(1) Cons.prems(1) by (simp add: seal_def WriteBinary_def ws_write_def healthy_def)
  then show ?case
    using Cons.prems(1) c Cons.IH [of "s\<lparr>sent := sent s + 1, ws := (ws s)\<lparr>tx := tx (ws s) @ [ws_frame opBinary c]\<rparr>\<rparr>" cs']
    by (simp add: healthy_def)
qed simp

text \<open>A body that was written is on the socket, every frame of it sealed in turn.\<close>

lemma seal_all_written:
  "seal_all enc fs s = (Inr u, s') \<Longrightarrow>
     \<exists>cs. sealed_from enc (sent s) fs = Some cs \<and> tx (ws s') = tx (ws s) @ map (ws_frame opBinary) cs"
proof (induction fs arbitrary: s)
  case (Cons f fs)
  obtain x s1 where 0: "seal enc f s = (x, s1)" by fastforce
  then have r: "x = Inr ()" "seal_all enc fs s1 = (Inr u, s')" using Cons.prems by (cases x; simp)+
  then obtain c where "enc (sent s) f = Some c" "sent s1 = sent s + 1" "tx (ws s1) = tx (ws s) @ [ws_frame opBinary c]"
    using 0 by (auto simp: seal_def WriteBinary_def ws_write_def split: option.splits prod.splits if_splits)
  with Cons.IH [OF r(2)] show ?case by auto
qed simp

definition peer_frames :: "bytes \<Rightarrow> bytes list \<Rightarrow> bytes" where
  "peer_frames m cs = concat (map (client_frame True opBinary m) cs)"

lemma ws_read_one:
  assumes "healthy w" "length m = 4" "length c \<le> rlimit w" "rx w = client_frame True opBinary m c @ r"
  shows "ws_read w = (Inr (True, c), w\<lparr>rx := r\<rparr>)"
  using ws_reassembles [of w "[([], m, c)]" opBinary r] assms
  by (simp add: part_ok_def payloads_def frames_in_def maxWSFrames_def pongs_def)

definition sp_healthy :: "session \<Rightarrow> bool" where
  "sp_healthy s \<longleftrightarrow> healthy (ws s) \<and> rlimit (ws s) = maxMessage"

lemma sp_turn_sealed:
  assumes "sp_healthy s" "cipher_pair enc dec" "length m = 4" "enc (received s) f = Some c"
    and "length f \<le> maxFrameBody + 1" "rx (ws s) = peer_frames m (c # cs) @ r"
  shows "sp_turn dec s =
     plain_turn f (s\<lparr>ws := (ws s)\<lparr>rx := peer_frames m cs @ r\<rparr>, received := received s + 1\<rparr>)"
proof -
  have c: "dec (received s) c = Some f" "length c = length f + aeadTagLen"
    using assms(2,4) unfolding cipher_pair_def by blast+
  have "length c \<le> rlimit (ws s)" using c(2) assms(1,5) by (simp add: sp_healthy_def transport_sizes)
  then have "ws_read (ws s) = (Inr (True, c), (ws s)\<lparr>rx := peer_frames m cs @ r\<rparr>)"
    using assms by (intro ws_read_one) (simp_all add: sp_healthy_def peer_frames_def)
  with c(1) show ?thesis by (simp add: sp_turn_def)
qed

lemma frag_flags:
  "(((if a then fragFirst else 0) OR (if b then fragLast else 0)) AND NOT (fragFirst OR fragLast)) = 0"
  "((if a then fragFirst else 0) OR (if b then fragLast else 0)) AND fragFirst = 0 \<longleftrightarrow> \<not> a"
  "((if a then fragFirst else 0) OR (if b then fragLast else 0)) AND fragLast = 0 \<longleftrightarrow> \<not> b"
  by (cases a; cases b; simp add: fragFirst_def fragLast_def)+

lemma plain_turn_fragment:
  assumes "kind \<noteq> msgFragment" "first \<longleftrightarrow> \<not> inFragment s" "inFragment s \<longrightarrow> fragmentType s = kind"
    and "acc = (if first then [] else fragment s)" "length (acc @ bs) \<le> maxMessage"
  shows "plain_turn (frag_head first final kind @ bs) s =
     (if final then (SpMessage kind (acc @ bs), s\<lparr>inFragment := False, fragment := [], fragmentType := 0\<rparr>)
      else (SpGoOn, s\<lparr>inFragment := True, fragmentType := kind, fragment := acc @ bs\<rparr>))"
proof (cases first)
  case True
  then show ?thesis using assms frag_flags [of True final]
    by (simp add: plain_turn_def reassemble_def keep_fragment_def frag_head_def)
next
  case False
  with assms have s: "s = s\<lparr>inFragment := True, fragmentType := kind\<rparr>" by simp
  show ?thesis using False assms frag_flags [of False final]
    by (subst (2 3) s) (simp add: plain_turn_def reassemble_def keep_fragment_def frag_head_def)
qed

lemma fragments_read:
  assumes "sp_healthy s" "cipher_pair enc dec" "length m = 4" "kind \<noteq> msgFragment"
    and "first \<longleftrightarrow> \<not> inFragment s" "inFragment s \<longrightarrow> fragmentType s = kind"
    and "acc = (if first then [] else fragment s)" "length acc + length body \<le> maxMessage" "body \<noteq> []"
    and "sealed_from enc (received s) (fragments first kind body) = Some cs"
    and "rx (ws s) = peer_frames m cs @ r" "length cs \<le> k"
  shows "sp_loop k dec s = (Inr (kind, acc @ body),
     s\<lparr>ws := (ws s)\<lparr>rx := r\<rparr>, received := received s + length cs, inFragment := False,
       fragment := [], fragmentType := 0\<rparr>)"
  using assms
proof (induction "length body" arbitrary: body first s acc cs k rule: less_induct)
  case less
  let ?n = "frag_room first"
  let ?final = "length body \<le> ?n"
  let ?f = "frag_head first ?final kind @ take ?n body"
  have fr: "fragments first kind body = ?f # fragments False kind (drop ?n body)"
    by (rule fragments_Cons [OF less.prems(9)])
  obtain c cs' where c: "enc (received s) ?f = Some c" "cs = c # cs'"
      "sealed_from enc (received s + 1) (fragments False kind (drop ?n body)) = Some cs'"
    using less.prems(10) unfolding fr by (auto split: option.splits)
  obtain k' where k: "k = Suc k'" "length cs' \<le> k'"
    using less.prems(12) c(2) by (cases k) auto
  have "length ?f \<le> maxFrameBody + 1" by (rule fragments_short [of _ first kind body]) (simp add: fr)
  with less.prems c have t: "sp_turn dec s =
      plain_turn ?f (s\<lparr>ws := (ws s)\<lparr>rx := peer_frames m cs' @ r\<rparr>, received := received s + 1\<rparr>)"
    by (intro sp_turn_sealed [where c = c and enc = enc and m = m]) simp_all
  let ?s1 = "s\<lparr>ws := (ws s)\<lparr>rx := peer_frames m cs' @ r\<rparr>, received := received s + 1\<rparr>"
  have len: "length (acc @ take ?n body) \<le> maxMessage" using less.prems(8) by simp
  have pt: "plain_turn ?f ?s1 =
      (if ?final then (SpMessage kind (acc @ take ?n body),
                      ?s1\<lparr>inFragment := False, fragment := [], fragmentType := 0\<rparr>)
       else (SpGoOn, ?s1\<lparr>inFragment := True, fragmentType := kind, fragment := acc @ take ?n body\<rparr>))"
    using less.prems(4-7) len by (intro plain_turn_fragment) simp_all
  show ?case
  proof (cases ?final)
    case True
    then have "cs' = []" using c(3) by simp
    then show ?thesis using t pt True c(2) k by (simp add: peer_frames_def)
  next
    case False
    let ?s2 = "?s1\<lparr>inFragment := True, fragmentType := kind, fragment := acc @ take ?n body\<rparr>"
    have "length (drop ?n body) < length body" using False frag_room_pos(1) [of first] by simp
    then have "sp_loop k' dec ?s2 = (Inr (kind, (acc @ take ?n body) @ drop ?n body),
       ?s2\<lparr>ws := (ws ?s2)\<lparr>rx := r\<rparr>, received := received ?s2 + length cs', inFragment := False,
       fragment := [], fragmentType := 0\<rparr>)"
      using less.prems c(3) k False len
      by (intro less.hyps [where first = False]) (simp_all add: sp_healthy_def healthy_def)
    then show ?thesis using t pt False c(2) k by simp
  qed
qed

section \<open>Properties\<close>

text \<open>
  C8. A typed message of up to 65535 bytes, sealed and fragmented by \<open>WriteTyped\<close>, is put together by
  \<open>Read\<close> on the other side exactly as it was given, with the two ciphers left in step.
\<close>

theorem typed_roundtrip:
  assumes "sp_healthy s" "cipher_pair enc dec" "length m = 4" "kind \<noteq> msgFragment" "\<not> inFragment s"
    and "length body \<le> maxMessage" "fragment s = []" "fragmentType s = 0"
    and "sealed_from enc (received s) (typed_frames kind body) = Some cs"
    and "rx (ws s) = peer_frames m cs @ r"
  shows "session_read dec s =
     (Inr (kind, body), s\<lparr>ws := (ws s)\<lparr>rx := r\<rparr>, received := received s + length cs\<rparr>)"
proof (cases "length body \<le> maxFrameBody")
  case True
  then obtain c where c: "enc (received s) (kind # body) = Some c" "cs = [c]"
    using assms(9) by (auto simp: typed_frames_def split: option.splits)
  have "sp_turn dec s =
      plain_turn (kind # body) (s\<lparr>ws := (ws s)\<lparr>rx := peer_frames m [] @ r\<rparr>, received := received s + 1\<rparr>)"
    using assms c True by (intro sp_turn_sealed [where c = c and enc = enc and m = m]) simp_all
  then show ?thesis using assms(4,5) c(2)
    by (simp add: session_read_def maxMessageFrames_def numeral_eq_Suc plain_turn_def peer_frames_def)
next
  case False
  then have b: "body \<noteq> []" by auto
  have fs: "typed_frames kind body = fragments True kind body" using False by (simp add: typed_frames_def)
  have len: "sealed_from enc n fs = Some es \<Longrightarrow> length es = length fs" for n fs es
    by (induction fs arbitrary: n es) (auto split: option.splits)
  have "length (fragments True kind body) * 65516 \<le> 65535 + 65516"
    using fragments_few [of True kind body] assms(6) by (simp add: transport_sizes)
  then have few: "length cs \<le> maxMessageFrames"
    using len [OF assms(9)] by (simp add: fs maxMessageFrames_def)
  have "sp_loop maxMessageFrames dec s = (Inr (kind, [] @ body),
      s\<lparr>ws := (ws s)\<lparr>rx := r\<rparr>, received := received s + length cs, inFragment := False,
        fragment := [], fragmentType := 0\<rparr>)"
    using assms(5-8) assms(9) [unfolded fs] b few
    by (intro fragments_read [OF assms(1-4), where first = True]) (use assms(10) in auto)
  then show ?thesis using assms(5,7,8) unfolding session_read_def by simp
qed

definition xor_cipher :: "cipher" where
  "xor_cipher n p = Some (map (\<lambda>b. b XOR of_nat n) p @ replicate 16 7)"

definition xor_open :: "cipher" where
  "xor_open n c = (if length c < 16 then None
     else Some (map (\<lambda>b. b XOR of_nat n) (take (length c - 16) c)))"

lemma xor_pair: "cipher_pair xor_cipher xor_open"
  by (auto simp: cipher_pair_def xor_cipher_def xor_open_def aeadTagLen_def xor.assoc intro!: nth_equalityI)

definition demo_session :: session where
  "demo_session = \<lparr>ws = demo_conn, sent = 0, received = 3, matched = Sentinel, serverID = ''s'',
     inFragment = False, fragment = [], fragmentType = 0, offered = (\<lambda>_. None), unpaired = True,
     roles = [], streaming = False, flac = False, rate = 0\<rparr>"

theorem typed_roundtrip_witness:
  "session_read xor_open
     (demo_session\<lparr>ws := demo_conn\<lparr>rx := peer_frames [1, 2, 3, 4] [the (xor_cipher 3 [0, 65, 66])] @ [9]\<rparr>\<rparr>)
   = (Inr (0, [65, 66]), demo_session\<lparr>ws := demo_conn\<lparr>rx := [9]\<rparr>, received := 4\<rparr>)"
  using typed_roundtrip [OF _ xor_pair,
      of "demo_session\<lparr>ws := demo_conn\<lparr>rx := peer_frames [1, 2, 3, 4] [the (xor_cipher 3 [0, 65, 66])] @ [9]\<rparr>\<rparr>"
        "[1, 2, 3, 4]" 0 "[65, 66]" "[the (xor_cipher 3 [0, 65, 66])]" "[9]"]
  by (simp add: demo_session_def demo_conn_def sp_healthy_def healthy_def maxMessage_def
      maxControlPayload_def msgFragment_def typed_frames_def transport_sizes xor_cipher_def)

text \<open>
  Every frame \<open>WriteTyped\<close> seals fits one Noise message of 65535 bytes with its tag, however long
  the body is, and a body of \<open>n\<close> bytes takes at most \<open>n / 65516 + 1\<close> of them.
\<close>

theorem typed_frames_fit:
  "list_all (\<lambda>f. length f + aeadTagLen \<le> maxNoiseMessage) (typed_frames kind body)
   \<and> length (typed_frames kind body) * (maxFrameBody - 2) \<le> length body + (maxFrameBody - 2)"
proof -
  have "length f \<le> maxFrameBody + 1" if "f \<in> set (typed_frames kind body)" for f
    using that fragments_short by (auto simp: typed_frames_def split: if_splits)
  then show ?thesis
    using fragments_few [of True kind body]
    by (auto simp: list_all_iff typed_frames_def transport_sizes)
qed

text \<open>Reading, whatever comes.\<close>

definition sp_inv :: "session \<Rightarrow> bool" where
  "sp_inv s \<longleftrightarrow> rlimit (ws s) \<le> maxMessage
     \<and> (inFragment s \<longrightarrow> fragmentType s \<noteq> msgFragment \<and> length (fragment s) \<le> maxMessage)"

definition sp_good :: "sp_result \<Rightarrow> bool" where
  "sp_good t = (case t of SpFailed e \<Rightarrow> True | SpMessage k b \<Rightarrow> k \<noteq> msgFragment \<and> length b \<le> maxMessage
                | SpGoOn \<Rightarrow> True)"

lemma plain_turn_ok:
  "sp_inv s \<Longrightarrow> length plain \<le> maxMessage \<Longrightarrow> plain_turn plain s = (t, s') \<Longrightarrow>
     sp_good t \<and> (t = SpGoOn \<longrightarrow> sp_inv s')"
  by (auto simp: plain_turn_def reassemble_def keep_fragment_def sp_inv_def sp_good_def
      split: list.splits if_splits sum.splits bool.splits)

lemma sp_turn_ok:
  assumes "sp_inv s" "\<forall>n c p. dec n c = Some p \<longrightarrow> length p \<le> length c" "sp_turn dec s = (t, s')"
  shows "sp_good t \<and> (t = SpGoOn \<longrightarrow> sp_inv s')"
proof -
  obtain res w where r: "ws_read (ws s) = (res, w)" by fastforce
  have w: "rlimit w \<le> maxMessage" using ws_read_keeps_limit [OF r] assms(1) by (simp add: sp_inv_def)
  show ?thesis
  proof (cases "\<exists>c p. res = Inr (True, c) \<and> dec (received s) c = Some p")
    case True
    then obtain c p where c: "res = Inr (True, c)" "dec (received s) c = Some p" by blast
    let ?s = "s\<lparr>ws := w, received := received s + 1\<rparr>"
    have "length p \<le> length c" using assms(2) c(2) by blast
    moreover have "length c \<le> rlimit (ws s)" using ws_read_message [of "ws s"] r c(1) by blast
    moreover have "rlimit (ws s) \<le> maxMessage" using assms(1) by (simp add: sp_inv_def)
    moreover have "sp_inv ?s" using assms(1) w by (simp add: sp_inv_def)
    ultimately show ?thesis
      using plain_turn_ok [of ?s p t s'] assms(3) r c by (simp add: sp_turn_def)
  next
    case False
    then show ?thesis using assms(3) r
      by (auto simp: sp_turn_def sp_good_def split: sum.splits if_splits option.splits)
  qed
qed

text \<open>
  Whatever a peer seals or fails to, a message \<open>Read\<close> returns is at most 65535 bytes and never of
  the fragment type. The cipher's law is that opening does not lengthen.
\<close>

theorem session_read_bounded:
  assumes "sp_inv s" "\<forall>n c p. dec n c = Some p \<longrightarrow> length p \<le> length c"
    and "session_read dec s = (Inr (kind, body), s')"
  shows "kind \<noteq> msgFragment \<and> length body \<le> maxMessage"
proof -
  have "sp_inv s \<Longrightarrow> sp_loop k dec s = (Inr (kind, body), s') \<Longrightarrow> kind \<noteq> msgFragment \<and> length body \<le> maxMessage" for k s
  proof (induction k arbitrary: s)
    case (Suc k)
    obtain t s1 where t: "sp_turn dec s = (t, s1)" by fastforce
    from sp_turn_ok [OF Suc.prems(1) assms(2) t] show ?case
      using Suc.prems(2) Suc.IH t by (cases t) (auto simp: sp_good_def)
  qed simp
  then show ?thesis using assms(1,3) unfolding session_read_def by blast
qed

theorem session_read_bounded_witness:
  "msgJSON \<noteq> msgFragment \<and> length [65, 66 :: byte] \<le> maxMessage"
proof -
  let ?s = "demo_session\<lparr>ws := demo_conn\<lparr>rx := peer_frames [1, 2, 3, 4] [the (xor_cipher 3 [0, 65, 66])] @ [9]\<rparr>\<rparr>"
  have c: "client_frame True opBinary [1, 2, 3, 4] c @ r = peer_frames [1, 2, 3, 4] [c] @ r" for c r
    by (simp add: peer_frames_def)
  have h: "healthy (ws ?s)" "length (the (xor_cipher 3 [0, 65, 66])) \<le> rlimit (ws ?s)"
    by (simp_all add: demo_session_def demo_conn_def healthy_def maxMessage_def maxControlPayload_def xor_cipher_def)
  have "session_read xor_open ?s = (Inr (0, [65, 66]), demo_session\<lparr>ws := demo_conn\<lparr>rx := [9]\<rparr>, received := 4\<rparr>)"
    using ws_read_one [OF h(1) _ h(2), of "[1, 2, 3, 4]" "[9]"] c
    by (simp add: session_read_def maxMessageFrames_def numeral_eq_Suc sp_turn_def xor_cipher_def xor_open_def
        demo_session_def plain_turn_def msgFragment_def)
  moreover have "sp_inv ?s"
    by (simp add: sp_inv_def demo_session_def demo_conn_def)
  moreover have "\<forall>n c p. xor_open n c = Some p \<longrightarrow> length p \<le> length c"
    by (auto simp: xor_open_def split: if_splits)
  ultimately show ?thesis
    using session_read_bounded [of ?s xor_open 0 "[65, 66]"] by (simp add: msgJSON_def)
qed

end
