(* ===== verification/Sp_Keys.thy ===== *)
theory Sp_Keys
  imports Go_Base64
begin

text \<open>
  \<open>internal/sendspin/identity.go\<close> and \<open>keys.go\<close>: identifiers, the key file and how it comes to be. The
  hash \<open>sha256\<close> and the curve \<open>x25519\<close> (the public key of a scalar, or why it is not one) are
  parameters, the file system's answers are arguments.
\<close>

definition pskLen :: nat where "pskLen = 32"
definition keyLen :: nat where "keyLen = 32"
definition keyFileLen :: nat where "keyFileLen = keyLen + pskLen"
definition pskIDLabel :: string where "pskIDLabel = ''sendspin-psk-id-v1''"
definition sentinelLabel :: string where "sentinelLabel = ''sendspin-sentinel-psk-v1''"

record identity =
  Private :: bytes
  Public :: bytes

definition EncodeID :: "bytes \<Rightarrow> string" where
  "EncodeID k = url_encode k"

definition ClientID :: "identity \<Rightarrow> string" where
  "ClientID i = EncodeID (Public i)"

datatype id_error = NotBase64 | IdLength nat

definition DecodeID :: "string \<Rightarrow> id_error + bytes" where
  "DecodeID s =
     (case url_decode s of
        None \<Rightarrow> Inl NotBase64
      | Some raw \<Rightarrow> if length raw \<noteq> keyLen then Inl (IdLength (length raw)) else Inr raw)"

definition PSKID :: "(bytes \<Rightarrow> bytes) \<Rightarrow> bytes \<Rightarrow> string" where
  "PSKID sha256 psk = url_encode (sha256 (str_bytes pskIDLabel @ psk))"

definition SentinelPSK :: "(bytes \<Rightarrow> bytes) \<Rightarrow> bytes" where
  "SentinelPSK sha256 = sha256 (str_bytes sentinelLabel)"

text \<open>\<open>NewPSK\<close>: what \<open>rand.Read\<close> gave, \<open>None\<close> when it failed.\<close>

definition NewPSK :: "bytes option \<Rightarrow> string + bytes" where
  "NewPSK drawn = (case drawn of None \<Rightarrow> Inl ''drawing a pre-shared key'' | Some b \<Rightarrow> Inr (take pskLen b))"

section \<open>The key file\<close>

definition allZero :: "bytes \<Rightarrow> bool" where
  "allZero b = list_all (\<lambda>c. c = 0) b"

record keys =
  Identity :: identity
  PairingPSK :: bytes

datatype keys_error = FileError string | NotRegular | TooOpen "16 word" | KeyFileLength nat | ZeroKey
  | BadScalar string | DrawFailed string

type_synonym curve = "bytes \<Rightarrow> string + bytes"

definition identityFromPrivate :: "curve \<Rightarrow> bytes \<Rightarrow> keys_error + identity" where
  "identityFromPrivate x25519 priv =
     (case x25519 priv of
        Inl e \<Rightarrow> Inl (BadScalar e)
      | Inr pub \<Rightarrow> Inr \<lparr>Private = priv, Public = pub\<rparr>)"

definition decodeKeys :: "curve \<Rightarrow> bytes \<Rightarrow> keys_error + keys" where
  "decodeKeys x25519 raw =
     (if length raw \<noteq> keyFileLen then Inl (KeyFileLength (length raw))
      else if allZero (take keyLen raw) \<or> allZero (drop keyLen raw) then Inl ZeroKey
      else (case identityFromPrivate x25519 (take keyLen raw) of
          Inl e \<Rightarrow> Inl e
        | Inr i \<Rightarrow> Inr \<lparr>Identity = i, PairingPSK = drop keyLen raw\<rparr>))"

record key_file =
  stat_err :: "string option"
  regular :: bool
  perm :: "16 word"
  content :: "string + bytes"

definition loadKeys :: "curve \<Rightarrow> key_file \<Rightarrow> keys_error + keys" where
  "loadKeys x25519 f =
     (case stat_err f of
        Some e \<Rightarrow> Inl (FileError e)
      | None \<Rightarrow>
          if \<not> regular f then Inl NotRegular
          else (case content f of
              Inl e \<Rightarrow> Inl (FileError e)
            | Inr raw \<Rightarrow>
                if perm f AND 0x3f \<noteq> 0 then Inl (TooOpen (perm f)) else decodeKeys x25519 raw))"

text \<open>\<open>installKeyFile\<close>: the file operations made, and the error if one failed. \<open>fails op\<close> is the
  kernel's answer to each; the name appears with \<open>LinkTo\<close> only.\<close>

datatype file_op = CreateTemp | WriteTemp | SyncTemp | CloseTemp | LinkTo | RemoveTemp

datatype install_error = AlreadyThere | InstallFailed string

definition installKeyFile :: "(file_op \<Rightarrow> install_error option) \<Rightarrow> file_op list \<times> install_error option" where
  "installKeyFile fails =
     (case fails CreateTemp of
        Some e \<Rightarrow> ([CreateTemp], Some e)
      | None \<Rightarrow> (case fails WriteTemp of
          Some e \<Rightarrow> ([CreateTemp, WriteTemp, CloseTemp, RemoveTemp], Some e)
        | None \<Rightarrow> (case fails SyncTemp of
            Some e \<Rightarrow> ([CreateTemp, WriteTemp, SyncTemp, CloseTemp, RemoveTemp], Some e)
          | None \<Rightarrow> (case fails CloseTemp of
              Some e \<Rightarrow> ([CreateTemp, WriteTemp, SyncTemp, CloseTemp, RemoveTemp], Some e)
            | None \<Rightarrow> ([CreateTemp, WriteTemp, SyncTemp, CloseTemp, LinkTo, RemoveTemp], fails LinkTo)))))"

datatype lstat = Present | Missing | LstatError string

text \<open>\<open>before\<close> is the file \<open>Lstat\<close> saw, \<open>after\<close> the one another process installed first.\<close>

definition LoadOrCreateKeys ::
    "curve \<Rightarrow> lstat \<Rightarrow> key_file \<Rightarrow> bytes option \<Rightarrow> bytes option \<Rightarrow> (file_op \<Rightarrow> install_error option)
     \<Rightarrow> key_file \<Rightarrow> (keys_error + keys) \<times> bool" where
  "LoadOrCreateKeys x25519 st before draw1 draw2 fails after =
     (case st of
        Present \<Rightarrow> (loadKeys x25519 before, False)
      | LstatError e \<Rightarrow> (Inl (FileError e), False)
      | Missing \<Rightarrow>
          (case NewPSK draw1 of Inl e \<Rightarrow> (Inl (DrawFailed e), False)
           | Inr priv \<Rightarrow> (case NewPSK draw2 of Inl e \<Rightarrow> (Inl (DrawFailed e), False)
             | Inr psk \<Rightarrow>
                 (case snd (installKeyFile fails) of
                    Some AlreadyThere \<Rightarrow> (loadKeys x25519 after, False)
                  | Some (InstallFailed e) \<Rightarrow> (Inl (FileError e), False)
                  | None \<Rightarrow> (case decodeKeys x25519 (priv @ psk) of
                      Inl e \<Rightarrow> (Inl e, False)
                    | Inr k \<Rightarrow> (Inr k, True))))))"

lemma DecodeID_EncodeID: "length k = keyLen \<Longrightarrow> DecodeID (EncodeID k) = Inr k"
  by (simp add: DecodeID_def EncodeID_def)

section \<open>Properties\<close>

text \<open>
  The keys a first start creates are the keys every later start loads from the installed file,
  and they are never half empty: the private key and the pre-shared key each hold 32 bytes, not all
  zero.
\<close>

theorem keys_survive_restart:
  assumes "LoadOrCreateKeys x25519 st before (Some priv) (Some psk) fails after = (Inr k, True)"
    and "length priv = keyLen" "length psk = pskLen"
    and "stat_err f = None" "regular f" "perm f = 0x180" "content f = Inr (priv @ psk)"
  shows "LoadOrCreateKeys x25519 Present f d1 d2 fails' after' = (Inr k, False)
    \<and> Private (Identity k) = priv \<and> PairingPSK k = psk \<and> \<not> allZero priv \<and> \<not> allZero psk"
proof -
  have n: "NewPSK (Some priv) = Inr priv" "NewPSK (Some psk) = Inr psk"
    using assms(2,3) by (simp_all add: NewPSK_def keyLen_def pskLen_def)
  then have d: "decodeKeys x25519 (priv @ psk) = Inr k"
    using assms(1) by (auto simp: LoadOrCreateKeys_def split: lstat.splits option.splits install_error.splits sum.splits)
  then show ?thesis
    using assms(2-7)
    by (auto simp: LoadOrCreateKeys_def loadKeys_def decodeKeys_def identityFromPrivate_def
        split: if_splits sum.splits)
qed

definition demo_file :: key_file where
  "demo_file = \<lparr>stat_err = None, regular = True, perm = 0x180, content = Inr (replicate 32 5 @ replicate 32 6)\<rparr>"

theorem keys_survive_restart_witness:
  "LoadOrCreateKeys (\<lambda>p. Inr (map (\<lambda>b. b + 1) p)) Present demo_file None None (\<lambda>_. None) demo_file
   = (Inr \<lparr>Identity = \<lparr>Private = replicate 32 5, Public = replicate 32 6\<rparr>, PairingPSK = replicate 32 6\<rparr>, False)"
proof -
  have "LoadOrCreateKeys (\<lambda>p. Inr (map (\<lambda>b. b + 1) p)) Missing demo_file (Some (replicate 32 5))
      (Some (replicate 32 6)) (\<lambda>_. None) demo_file
    = (Inr \<lparr>Identity = \<lparr>Private = replicate 32 5, Public = replicate 32 6\<rparr>, PairingPSK = replicate 32 6\<rparr>, True)"
    by (simp add: LoadOrCreateKeys_def NewPSK_def installKeyFile_def decodeKeys_def keyFileLen_def keyLen_def
        pskLen_def allZero_def identityFromPrivate_def list_all_iff)
  from keys_survive_restart [OF this, of demo_file] show ?thesis
    by (simp add: demo_file_def keyLen_def pskLen_def)
qed

text \<open>
  The key file's name is linked only to a file that was written, synced and closed without an
  error, and the temporary file is removed on every path that created one.
\<close>

theorem key_file_atomic:
  "case installKeyFile fails of (ops, err) \<Rightarrow>
     (LinkTo \<in> set ops \<longleftrightarrow> fails CreateTemp = None \<and> fails WriteTemp = None \<and> fails SyncTemp = None
        \<and> fails CloseTemp = None)
     \<and> (LinkTo \<in> set ops \<longleftrightarrow> ops = [CreateTemp, WriteTemp, SyncTemp, CloseTemp, LinkTo, RemoveTemp])
     \<and> (RemoveTemp \<in> set ops \<longleftrightarrow> fails CreateTemp = None)
     \<and> (err = None \<longleftrightarrow> (\<forall>s \<in> {CreateTemp, WriteTemp, SyncTemp, CloseTemp, LinkTo}. fails s = None))"
  by (auto simp: installKeyFile_def split: option.splits)

end
