(* ===== verification/Sp_Handshake.thy ===== *)
theory Sp_Handshake
  imports Sp_Transport Sp_Keys Untrusted_Log
begin

text \<open>
  \<open>internal/sendspin/handshake.go\<close>: choosing the pre-shared key and the handshake itself, over the
  websocket of \<open>Sp_Ws\<close>. JSON (\<open>hs_json\<close>) and the Noise library (\<open>noise_kk\<close>) are parameters: the first
  gives the bytes of what is marshalled and the fields of what is unmarshalled, the second what the
  handshake state of the given prologue and peer answers.
\<close>

definition coreVersion :: int where "coreVersion = 1"
definition maxCleartextFrame :: nat where "maxCleartextFrame = 2048"
definition typeServerInit :: string where "typeServerInit = ''server/init''"
definition typeNoiseHandshake :: string where "typeNoiseHandshake = ''noise/handshake''"
definition typeServerError :: string where "typeServerError = ''server/error''"
definition suiteName :: string where "suiteName = ''25519_ChaChaPoly_SHA256''"

fun category_string :: "category \<Rightarrow> string" where
  "category_string LongTerm = ''lt''"
| "category_string Pairing = ''pr''"
| "category_string Sentinel = ''sn''"

datatype hs_error = HsRead string ws_error | HsWrite | BinaryFrame | BadEnvelope | ServerSaid string
  | Wanted string string | BadServerInit | CoreVersion int | BadServerID id_error | NoiseConfig
  | BadNoise1 | BadIntro | UnknownCategory string | BadPSK | BadNoise2 | Incomplete
  | BadNoiseFrame | BadNoiseData

section \<open>Choosing the key\<close>

definition try_psk :: "(bytes \<Rightarrow> bytes) \<Rightarrow> bytes \<Rightarrow> string \<Rightarrow> category \<Rightarrow> bytes option" where
  "try_psk sha256 pairing pid c =
     (case c of
        Pairing \<Rightarrow> if length pairing = pskLen \<and> PSKID sha256 pairing = pid then Some pairing else None
      | Sentinel \<Rightarrow> if PSKID sha256 (SentinelPSK sha256) = pid then Some (SentinelPSK sha256) else None
      | LongTerm \<Rightarrow> None)"

definition psk_order :: "string \<Rightarrow> category list option" where
  "psk_order cat =
     (if cat = '''' then Some [Pairing, Sentinel]
      else if cat = ''lt'' then Some [LongTerm]
      else if cat = ''pr'' then Some [Pairing]
      else if cat = ''sn'' then Some [Sentinel]
      else None)"

fun first_psk :: "(category \<Rightarrow> bytes option) \<Rightarrow> category list \<Rightarrow> (bytes \<times> category) option" where
  "first_psk try [] = None"
| "first_psk try (c # cs) = (case try c of Some psk \<Rightarrow> Some (psk, c) | None \<Rightarrow> first_psk try cs)"

definition selectPSK :: "(bytes \<Rightarrow> bytes) \<Rightarrow> bytes \<Rightarrow> string \<Rightarrow> string \<Rightarrow> hs_error + (bytes \<times> category)" where
  "selectPSK sha256 pairing pid cat =
     (case psk_order cat of
        None \<Rightarrow> Inl (UnknownCategory (Cut cat))
      | Some order \<Rightarrow>
          (case first_psk (try_psk sha256 pairing pid) order of
             Some r \<Rightarrow> Inr r
           | None \<Rightarrow> Inr (SentinelPSK sha256, Sentinel)))"

text \<open>
  Which key fits what the peer names, said without the order of the tries: the pairing key when one of
  32 bytes is held, it is the one named and the category is \<open>pr\<close> or left open; otherwise the sentinel,
  under any category the protocol knows.
\<close>

definition fitting_key :: "(bytes \<Rightarrow> bytes) \<Rightarrow> bytes \<Rightarrow> string \<Rightarrow> string \<Rightarrow> bytes \<times> category" where
  "fitting_key sha256 pairing pid cat =
     (if cat \<in> {'''', ''pr''} \<and> length pairing = 32 \<and> PSKID sha256 pairing = pid then (pairing, Pairing)
      else (SentinelPSK sha256, Sentinel))"

definition known_categories :: "string set" where
  "known_categories = {'''', ''lt'', ''pr'', ''sn''}"

lemma selectPSK_fits:
  "selectPSK sha256 pairing pid cat = Inr r \<longleftrightarrow>
     cat \<in> known_categories \<and> fitting_key sha256 pairing pid cat = r"
  by (auto simp: selectPSK_def psk_order_def try_psk_def fitting_key_def known_categories_def pskLen_def)

lemma fitting_key_length:
  "(\<And>x. length (sha256 x) = 32) \<Longrightarrow> length (fst (fitting_key sha256 pairing pid cat)) = 32"
  by (simp add: fitting_key_def SentinelPSK_def)

section \<open>The handshake\<close>

record 'j hs_json =
  enc_init :: "string \<Rightarrow> bytes"
  dec_env :: "bytes \<Rightarrow> (string \<times> 'j) option"
  dec_server_init :: "'j \<Rightarrow> (string \<times> int) option"
  dec_reason :: "'j \<Rightarrow> string"
  dec_frame :: "'j \<Rightarrow> string option"
  dec_intro :: "bytes \<Rightarrow> (string \<times> string) option"
  enc_frame :: "string \<Rightarrow> bytes"

record noise_kk =
  nk_new :: "bytes \<Rightarrow> bytes \<Rightarrow> bool"
  nk_read :: "bytes \<Rightarrow> bytes \<Rightarrow> bytes \<Rightarrow> bytes option"
  nk_psk :: "bytes \<Rightarrow> bool"
  nk_write :: "bytes \<Rightarrow> bytes \<Rightarrow> bytes \<Rightarrow> bytes \<Rightarrow> (bytes \<times> bool) option"

definition readCleartext ::
    "'j hs_json \<Rightarrow> string \<Rightarrow> ws_conn \<Rightarrow> (hs_error + (bytes \<times> 'j)) \<times> ws_conn" where
  "readCleartext J want w =
     (case ws_read w of
        (Inl e, w') \<Rightarrow> (Inl (HsRead want e), w')
      | (Inr (isBinary, raw), w') \<Rightarrow>
          (if isBinary then Inl BinaryFrame
           else (case dec_env J raw of
               None \<Rightarrow> Inl BadEnvelope
             | Some (t, payload) \<Rightarrow>
                 if t = typeServerError \<and> want \<noteq> typeServerError
                 then Inl (ServerSaid (Cut (dec_reason J payload)))
                 else if t \<noteq> want then Inl (Wanted want (Cut t))
                 else Inr (raw, payload)), w'))"

definition readNoiseMessage :: "'j hs_json \<Rightarrow> ws_conn \<Rightarrow> (hs_error + bytes) \<times> ws_conn" where
  "readNoiseMessage J w =
     (case readCleartext J typeNoiseHandshake w of
        (Inl e, w') \<Rightarrow> (Inl e, w')
      | (Inr (raw, payload), w') \<Rightarrow>
          ((case dec_frame J payload of
              None \<Rightarrow> Inl BadNoiseFrame
            | Some d \<Rightarrow> (case url_decode d of None \<Rightarrow> Inl BadNoiseData | Some b \<Rightarrow> Inr b)), w'))"

text \<open>The peer's first message: its server id as decoded, and the bytes that go into the prologue.\<close>

definition check_server_init :: "'j hs_json \<Rightarrow> 'j \<Rightarrow> hs_error + bytes" where
  "check_server_init J payload =
     (case dec_server_init J payload of
        None \<Rightarrow> Inl BadServerInit
      | Some (sid, v) \<Rightarrow>
          if v \<noteq> coreVersion then Inl (CoreVersion v)
          else (case DecodeID sid of Inl e \<Rightarrow> Inl (BadServerID e) | Inr peer \<Rightarrow> Inr peer))"

text \<open>The answer to message 1: the second message and the category matched.\<close>

definition answer_intro ::
    "'j hs_json \<Rightarrow> noise_kk \<Rightarrow> (bytes \<Rightarrow> bytes) \<Rightarrow> bytes \<Rightarrow> bytes \<Rightarrow> bytes \<Rightarrow> bytes
     \<Rightarrow> hs_error + (bytes \<times> category)" where
  "answer_intro J N sha256 pairing prologue peer m1 =
     (case nk_read N prologue peer m1 of
        None \<Rightarrow> Inl BadNoise1
      | Some intro \<Rightarrow>
          (case dec_intro J intro of
             None \<Rightarrow> Inl BadIntro
           | Some (pid, cat) \<Rightarrow>
               (case selectPSK sha256 pairing pid cat of
                  Inl e \<Rightarrow> Inl e
                | Inr (psk, c) \<Rightarrow>
                    if \<not> nk_psk N psk then Inl BadPSK
                    else (case nk_write N prologue peer m1 psk of
                        None \<Rightarrow> Inl BadNoise2
                      | Some (msg2, complete) \<Rightarrow>
                          if complete then Inr (msg2, c) else Inl Incomplete))))"

definition new_session :: "ws_conn \<Rightarrow> category \<Rightarrow> string \<Rightarrow> session" where
  "new_session w c sid =
     \<lparr>ws = w, sent = 0, received = 0, matched = c, serverID = sid, inFragment = False, fragment = [],
      fragmentType = 0, offered = (\<lambda>_. None), unpaired = False, roles = [], streaming = False,
      flac = False, rate = 0\<rparr>"

definition finish_handshake ::
    "'j hs_json \<Rightarrow> bytes \<Rightarrow> bytes \<times> category \<Rightarrow> ws_conn \<Rightarrow> (hs_error + session) \<times> ws_conn" where
  "finish_handshake J peer r w =
     (case WriteText (enc_frame J (url_encode (fst r))) w of
        (False, w') \<Rightarrow> (Inl HsWrite, w')
      | (True, w') \<Rightarrow>
          (let w'' = setReadLimit maxMessage w'
           in (Inr (new_session w'' (snd r) (EncodeID peer)), w'')))"

definition Handshake ::
    "'j hs_json \<Rightarrow> noise_kk \<Rightarrow> (bytes \<Rightarrow> bytes) \<Rightarrow> keys \<Rightarrow> bytes \<Rightarrow> ws_conn
     \<Rightarrow> (hs_error + session) \<times> ws_conn" where
  "Handshake J N sha256 ks pairing w0 =
     (let init = enc_init J (ClientID (Identity ks))
      in case WriteText init (setReadLimit maxCleartextFrame w0) of
        (False, w1) \<Rightarrow> (Inl HsWrite, w1)
      | (True, w1) \<Rightarrow>
          (case readCleartext J typeServerInit w1 of
             (Inl e, w2) \<Rightarrow> (Inl e, w2)
           | (Inr (raw, payload), w2) \<Rightarrow>
               (case check_server_init J payload of
                  Inl e \<Rightarrow> (Inl e, w2)
                | Inr peer \<Rightarrow>
                    if \<not> nk_new N (init @ raw) peer then (Inl NoiseConfig, w2)
                    else (case readNoiseMessage J w2 of
                        (Inl e, w3) \<Rightarrow> (Inl e, w3)
                      | (Inr m1, w3) \<Rightarrow>
                          (case answer_intro J N sha256 pairing (init @ raw) peer m1 of
                             Inl e \<Rightarrow> (Inl e, w3)
                           | Inr r \<Rightarrow> finish_handshake J peer r w3)))))"

section \<open>Properties\<close>

lemma ws_write_limit: "ws_write o' p w = (ok, w') \<Longrightarrow> rlimit w' = rlimit w"
  by (auto simp: ws_write_def split: if_splits)

lemma readCleartext_read:
  "readCleartext J want w = (Inr (raw, payload), w') \<Longrightarrow>
     ws_read w = (Inr (False, raw), w') \<and> dec_env J raw = Some (want, payload)"
  by (auto simp: readCleartext_def split: sum.splits prod.splits if_splits option.splits)

lemma answer_intro_fits:
  "answer_intro J N sha256 pairing prologue peer m1 = Inr (msg2, c) \<longleftrightarrow>
     (\<exists>intro pid cat psk. nk_read N prologue peer m1 = Some intro \<and> dec_intro J intro = Some (pid, cat)
        \<and> cat \<in> known_categories \<and> fitting_key sha256 pairing pid cat = (psk, c) \<and> nk_psk N psk
        \<and> nk_write N prologue peer m1 psk = Some (msg2, True))"
proof -
  have "answer_intro J N sha256 pairing prologue peer m1 = Inr (msg2, c) \<longleftrightarrow>
     (\<exists>intro pid cat psk. nk_read N prologue peer m1 = Some intro \<and> dec_intro J intro = Some (pid, cat)
        \<and> selectPSK sha256 pairing pid cat = Inr (psk, c) \<and> nk_psk N psk
        \<and> nk_write N prologue peer m1 psk = Some (msg2, True))"
    by (auto simp: answer_intro_def split: option.splits prod.splits sum.splits)
  then show ?thesis unfolding selectPSK_fits by blast
qed

text \<open>What is taken of the peer's \<open>server/init\<close> and of the envelope of its first Noise message.\<close>

definition init_taken :: "'j hs_json \<Rightarrow> bytes \<Rightarrow> bytes \<Rightarrow> bool" where
  "init_taken J raw peer \<longleftrightarrow>
     (\<exists>p srv. dec_env J raw = Some (''server/init'', p) \<and> dec_server_init J p = Some (srv, 1) \<and> DecodeID srv = Inr peer)"

definition noise_taken :: "'j hs_json \<Rightarrow> bytes \<Rightarrow> bytes \<Rightarrow> bool" where
  "noise_taken J msg m1 \<longleftrightarrow>
     (\<exists>p d. dec_env J msg = Some (''noise/handshake'', p) \<and> dec_frame J p = Some d \<and> url_decode d = Some m1)"

lemma init_taken:
  "dec_env J raw = Some (typeServerInit, p) \<Longrightarrow> check_server_init J p = Inr peer \<Longrightarrow> init_taken J raw peer"
  by (auto simp: init_taken_def check_server_init_def coreVersion_def typeServerInit_def
      split: option.splits prod.splits if_splits sum.splits)

lemma noise_taken:
  "readNoiseMessage J w = (Inr m1, w') \<Longrightarrow> \<exists>msg. ws_read w = (Inr (False, msg), w') \<and> noise_taken J msg m1"
  by (auto simp: readNoiseMessage_def noise_taken_def typeNoiseHandshake_def dest!: readCleartext_read
      split: sum.splits prod.splits option.splits)

lemma DecodeID_peer: "DecodeID sid = Inr peer \<Longrightarrow> DecodeID (EncodeID peer) = Inr peer"
  by (rule DecodeID_EncodeID) (auto simp: DecodeID_def split: option.splits if_splits)

lemma readCleartext_limit: "readCleartext J t w = (x, w') \<Longrightarrow> rlimit w' = rlimit w"
  using ws_read_keeps_limit by (auto simp: readCleartext_def split: sum.splits prod.splits)

lemma readNoise_limit: "readNoiseMessage J w = (x, w') \<Longrightarrow> rlimit w' = rlimit w"
  using readCleartext_limit by (auto simp: readNoiseMessage_def split: sum.splits prod.splits)

lemma finish_limit:
  assumes "rlimit w = maxCleartextFrame"
  shows "case finish_handshake J peer r w of
      (Inl e, w') \<Rightarrow> rlimit w' = maxCleartextFrame
    | (Inr s, w') \<Rightarrow> s = new_session w' (snd r) (EncodeID peer) \<and> rlimit w' = maxMessage"
  using assms by (auto simp: finish_handshake_def WriteText_def setReadLimit_def Let_def
      dest!: ws_write_limit split: prod.splits bool.splits)

text \<open>A handshake fails under the small limit, or it comes to answering the peer's first Noise message.\<close>

lemma Handshake_reaches:
  fixes J :: "'j hs_json" and ks :: keys
  defines "init \<equiv> enc_init J (ClientID (Identity ks))"
  obtains e w where "Handshake J N sha256 ks pairing w0 = (Inl e, w)" "rlimit w = maxCleartextFrame"
  | w1 raw w2 peer msg w3 m1 msg2 c where "Handshake J N sha256 ks pairing w0 = finish_handshake J peer (msg2, c) w3"
      "rlimit w3 = maxCleartextFrame" "WriteText init (setReadLimit maxCleartextFrame w0) = (True, w1)"
      "ws_read w1 = (Inr (False, raw), w2)" "length raw \<le> maxCleartextFrame" "init_taken J raw peer"
      "nk_new N (init @ raw) peer" "ws_read w2 = (Inr (False, msg), w3)" "noise_taken J msg m1"
      "answer_intro J N sha256 pairing (init @ raw) peer m1 = Inr (msg2, c)"
proof -
  obtain ok1 w1 where 1: "WriteText init (setReadLimit maxCleartextFrame w0) = (ok1, w1)" by fastforce
  have l1: "rlimit w1 = maxCleartextFrame"
    using ws_write_limit [OF 1 [unfolded WriteText_def]] by (simp add: setReadLimit_def)
  obtain r1 w2 where 2: "readCleartext J typeServerInit w1 = (r1, w2)" by fastforce
  obtain r2 w3 where 3: "readNoiseMessage J w2 = (r2, w3)" by fastforce
  have l: "rlimit w2 = maxCleartextFrame" "rlimit w3 = maxCleartextFrame"
    using readCleartext_limit [OF 2] readNoise_limit [OF 3] l1 by simp_all
  show thesis
  proof (cases "ok1 \<and> (\<exists>raw payload peer m1 r. r1 = Inr (raw, payload) \<and> check_server_init J payload = Inr peer
      \<and> nk_new N (init @ raw) peer \<and> r2 = Inr m1
      \<and> answer_intro J N sha256 pairing (init @ raw) peer m1 = Inr r)")
    case True
    then obtain raw payload peer m1 msg2 c where ok: "ok1" "r1 = Inr (raw, payload)"
        "check_server_init J payload = Inr peer" "nk_new N (init @ raw) peer" "r2 = Inr m1"
        "answer_intro J N sha256 pairing (init @ raw) peer m1 = Inr (msg2, c)" by auto
    then have H: "Handshake J N sha256 ks pairing w0 = finish_handshake J peer (msg2, c) w3"
      using 1 2 3 by (simp add: Handshake_def init_def Let_def)
    have r: "ws_read w1 = (Inr (False, raw), w2)" "dec_env J raw = Some (typeServerInit, payload)"
      using readCleartext_read 2 ok(2) by fast+
    have len: "length raw \<le> maxCleartextFrame" using ws_read_message [OF r(1)] l1 by simp
    obtain msg where m: "ws_read w2 = (Inr (False, msg), w3)" "noise_taken J msg m1"
      using noise_taken 3 ok(5) by blast
    have w: "WriteText init (setReadLimit maxCleartextFrame w0) = (True, w1)" using 1 ok(1) by simp
    show thesis by (rule that(2) [OF H l(2) w r(1) len init_taken [OF r(2) ok(3)] ok(4) m ok(6)])
  next
    case False
    then have "\<exists>e w. Handshake J N sha256 ks pairing w0 = (Inl e, w) \<and> rlimit w = maxCleartextFrame"
      using 1 2 3 l1 l unfolding Handshake_def init_def [symmetric] Let_def
      by (auto split: bool.splits sum.splits prod.splits)
    then show thesis using that(1) by blast
  qed
qed

lemma finish_write:
  "finish_handshake J peer r w3 = (Inr s, w) \<Longrightarrow>
     \<exists>w4. WriteText (enc_frame J (url_encode (fst r))) w3 = (True, w4) \<and> w = setReadLimit maxMessage w4
       \<and> s = new_session w (snd r) (EncodeID peer)"
  by (auto simp: finish_handshake_def Let_def split: prod.splits bool.splits)

text \<open>
  C6. A session comes only out of the whole exchange, and is the session of what was exchanged: the
  client's init was written; the frame read next, text and at most 2048 bytes, is a \<open>server/init\<close> of
  core version 1, and the identity the session keeps is the one in it; the Noise state was made for
  that identity over a prologue of exactly those two messages; the frame read after it carries the
  first Noise message, whose payload names a key; the key used and the category kept are the ones that
  fit that name (\<open>fitting_key\<close>: the pairing key or the sentinel, never \<open>lt\<close>), and the second Noise
  message, which completes the handshake, was written under that key. The read limit is raised to a
  full message only then.
\<close>

theorem handshake_sound:
  "case Handshake J N sha256 ks pairing w0 of
     (Inl e, w) \<Rightarrow> rlimit w = maxCleartextFrame
   | (Inr s, w) \<Rightarrow>
       ws s = w \<and> rlimit w = maxMessage \<and> sp_inv s \<and> \<not> streaming s \<and> roles s = []
       \<and> (let init = enc_init J (ClientID (Identity ks))
          in \<exists>w1 raw w2 peer msg w3 m1 intro pid cat psk msg2 w4.
               WriteText init (setReadLimit maxCleartextFrame w0) = (True, w1)
               \<and> ws_read w1 = (Inr (False, raw), w2) \<and> length raw \<le> 2048
               \<and> init_taken J raw peer \<and> serverID s = EncodeID peer \<and> nk_new N (init @ raw) peer
               \<and> ws_read w2 = (Inr (False, msg), w3) \<and> noise_taken J msg m1
               \<and> nk_read N (init @ raw) peer m1 = Some intro \<and> dec_intro J intro = Some (pid, cat)
               \<and> cat \<in> known_categories \<and> fitting_key sha256 pairing pid cat = (psk, matched s) \<and> nk_psk N psk
               \<and> nk_write N (init @ raw) peer m1 psk = Some (msg2, True)
               \<and> WriteText (enc_frame J (url_encode msg2)) w3 = (True, w4) \<and> w = setReadLimit maxMessage w4)"
proof (cases rule: Handshake_reaches [of J N sha256 ks pairing w0])
  case (2 w1 raw w2 peer msg w3 m1 msg2 c)
  obtain res w where F: "finish_handshake J peer (msg2, c) w3 = (res, w)" by fastforce
  note fin = finish_limit [OF 2(2), where J = J and peer = peer and r = "(msg2, c)", unfolded F prod.case snd_conv]
  show ?thesis
  proof (cases res)
    case (Inl e)
    then show ?thesis using fin by (simp add: 2(1) F)
  next
    case (Inr s)
    then have s: "s = new_session w c (EncodeID peer)" "rlimit w = maxMessage" using fin by simp_all
    obtain w4 where w4: "WriteText (enc_frame J (url_encode msg2)) w3 = (True, w4)" "w = setReadLimit maxMessage w4"
      using finish_write [of J peer "(msg2, c)" w3 s w] F Inr by auto
    have f: "ws s = w" "serverID s = EncodeID peer" "matched s = c" "sp_inv s" "\<not> streaming s" "roles s = []"
      using s(2) by (simp_all add: s(1) new_session_def sp_inv_def)
    obtain intro pid cat psk where a: "nk_read N (enc_init J (ClientID (Identity ks)) @ raw) peer m1 = Some intro"
        "dec_intro J intro = Some (pid, cat)" "cat \<in> known_categories" "fitting_key sha256 pairing pid cat = (psk, c)"
        "nk_psk N psk"
        "nk_write N (enc_init J (ClientID (Identity ks)) @ raw) peer m1 psk = Some (msg2, True)"
      using answer_intro_fits [THEN iffD1, OF 2(10)] by blast
    have r: "length raw \<le> 2048" using 2(5) by (simp add: maxCleartextFrame_def)
    show ?thesis
      unfolding 2(1) F Inr prod.case sum.case Let_def f(1-3)
      by (intro conjI exI) (rule refl s(2) f(4-6) 2(3,4) r 2(6-9) a w4)+
  qed
qed simp

lemma ws_read_text:
  assumes "healthy w" "length m = 4" "length c \<le> rlimit w" "rx w = client_frame True opText m c @ r"
  shows "ws_read w = (Inr (False, c), w\<lparr>rx := r\<rparr>)"
  using ws_read_whole [of w m c opText r] assms by (simp add: op_defs)

text \<open>
  With a peer that plays its part, the handshake ends in a session: two text frames are written, the
  two of the peer are read, and what follows them is left for the session.
\<close>

theorem handshake_completes:
  assumes "healthy w0" "length m = 4"
    and "rx w0 = client_frame True opText m raw @ client_frame True opText m msg @ r"
    and "length raw \<le> maxCleartextFrame" "length msg \<le> maxCleartextFrame"
    and "dec_env J raw = Some (typeServerInit, p1)" "dec_server_init J p1 = Some (sid, coreVersion)"
    and "DecodeID sid = Inr peer" "nk_new N (enc_init J (ClientID (Identity ks)) @ raw) peer"
    and "dec_env J msg = Some (typeNoiseHandshake, p2)" "dec_frame J p2 = Some d" "url_decode d = Some m1"
    and "answer_intro J N sha256 pairing (enc_init J (ClientID (Identity ks)) @ raw) peer m1 = Inr (msg2, c)"
  shows "\<exists>w. Handshake J N sha256 ks pairing w0 = (Inr (new_session w c (EncodeID peer)), w)
    \<and> rx w = r \<and> tx w = tx w0 @ [ws_frame opText (enc_init J (ClientID (Identity ks))),
                                ws_frame opText (enc_frame J (url_encode msg2))]"
proof -
  let ?init = "enc_init J (ClientID (Identity ks))"
  let ?w1 = "w0\<lparr>rlimit := maxCleartextFrame, tx := tx w0 @ [ws_frame opText ?init]\<rparr>"
  have 1: "WriteText ?init (setReadLimit maxCleartextFrame w0) = (True, ?w1)"
    using assms(1) by (simp add: WriteText_def ws_write_def setReadLimit_def healthy_def)
  have h1: "healthy ?w1"
    using assms(1) by (simp add: healthy_def maxCleartextFrame_def maxControlPayload_def)
  let ?w2 = "?w1\<lparr>rx := client_frame True opText m msg @ r\<rparr>"
  have 2: "ws_read ?w1 = (Inr (False, raw), ?w2)"
    using assms(2-4) by (intro ws_read_text [OF h1]) simp_all
  have h2: "healthy ?w2" using h1 by (simp add: healthy_def)
  have 3: "ws_read ?w2 = (Inr (False, msg), ?w2\<lparr>rx := r\<rparr>)"
    using assms(2,5) by (intro ws_read_text [OF h2]) simp_all
  have t: "typeServerInit \<noteq> typeServerError" "typeNoiseHandshake \<noteq> typeServerError"
    by (simp_all add: typeServerInit_def typeServerError_def typeNoiseHandshake_def)
  have c1: "readCleartext J typeServerInit ?w1 = (Inr (raw, p1), ?w2)"
    using 2 assms(6) t by (simp add: readCleartext_def)
  have c2: "readNoiseMessage J ?w2 = (Inr m1, ?w2\<lparr>rx := r\<rparr>)"
    using 3 assms(10-12) t by (simp add: readNoiseMessage_def readCleartext_def)
  have ci: "check_server_init J p1 = Inr peer" using assms(7,8) by (simp add: check_server_init_def)
  have f: "finish_handshake J peer (msg2, c) (?w2\<lparr>rx := r\<rparr>) =
      (let w'' = (?w2\<lparr>rx := r\<rparr>)\<lparr>tx := tx ?w1 @ [ws_frame opText (enc_frame J (url_encode msg2))], rlimit := maxMessage\<rparr>
       in (Inr (new_session w'' c (EncodeID peer)), w''))"
    using assms(1) by (simp add: finish_handshake_def WriteText_def ws_write_def setReadLimit_def healthy_def Let_def)
  show ?thesis
    unfolding Handshake_def Let_def 1 prod.case bool.case c1 sum.case ci
    using assms(9,13) c2 f by (simp add: Let_def)
qed

definition demo_json :: "unit hs_json" where
  "demo_json = \<lparr>enc_init = (\<lambda>s. [1]),
     dec_env = (\<lambda>b. if b = [2] then Some (typeServerInit, ()) else Some (typeNoiseHandshake, ())),
     dec_server_init = (\<lambda>_. Some (EncodeID (replicate 32 9), 1)), dec_reason = (\<lambda>_. ''''),
     dec_frame = (\<lambda>_. Some (url_encode [4])), dec_intro = (\<lambda>_. Some (''x'', '''')),
     enc_frame = str_bytes\<rparr>"

definition demo_noise :: noise_kk where
  "demo_noise = \<lparr>nk_new = (\<lambda>_ _. True), nk_read = (\<lambda>_ _ m. Some m), nk_psk = (\<lambda>p. length p = 32),
     nk_write = (\<lambda>_ _ _ _. Some ([7], True))\<rparr>"

definition demo_keys :: keys where
  "demo_keys = \<lparr>Identity = \<lparr>Private = replicate 32 5, Public = replicate 32 6\<rparr>, PairingPSK = replicate 32 6\<rparr>"

theorem handshake_completes_witness:
  "\<exists>w. Handshake demo_json demo_noise (\<lambda>_. replicate 32 3) demo_keys [] (demo_conn\<lparr>rx :=
        client_frame True opText [1, 2, 3, 4] [2] @ client_frame True opText [1, 2, 3, 4] [3] @ [0]\<rparr>)
     = (Inr (new_session w Sentinel (EncodeID (replicate 32 9))), w)"
proof -
  have d: "DecodeID (EncodeID (replicate 32 9)) = Inr (replicate 32 9)"
    by (rule DecodeID_EncodeID) (simp add: keyLen_def)
  have s: "selectPSK (\<lambda>_. replicate 32 3) [] ''x'' '''' = Inr (replicate 32 3, Sentinel)"
    by (simp add: selectPSK_def psk_order_def try_psk_def SentinelPSK_def pskLen_def)
  have "\<exists>w. Handshake demo_json demo_noise (\<lambda>_. replicate 32 3) demo_keys [] (demo_conn\<lparr>rx :=
        client_frame True opText [1, 2, 3, 4] [2] @ client_frame True opText [1, 2, 3, 4] [3] @ [0]\<rparr>)
     = (Inr (new_session w Sentinel (EncodeID (replicate 32 9))), w) \<and> rx w = [0]
       \<and> tx w = tx (demo_conn\<lparr>rx :=
        client_frame True opText [1, 2, 3, 4] [2] @ client_frame True opText [1, 2, 3, 4] [3] @ [0]\<rparr>)
        @ [ws_frame opText (enc_init demo_json (ClientID (Identity demo_keys))),
           ws_frame opText (enc_frame demo_json (url_encode [7]))]"
    using d s
    by (intro handshake_completes [where m = "[1, 2, 3, 4]" and raw = "[2]" and msg = "[3]" and d = "url_encode [4]"
          and sid = "EncodeID (replicate 32 9)" and ?m1.0 = "[4]"])
      (simp_all add: demo_conn_def healthy_def maxMessage_def maxControlPayload_def maxCleartextFrame_def
        demo_json_def demo_noise_def coreVersion_def answer_intro_def)
  then show ?thesis by blast
qed

end
