(* ===== verification/Sp_Flac.thy ===== *)
theory Sp_Flac
  imports Go_Base64
begin

text \<open>
  \<open>internal/sendspin/flac.go\<close>: which FLAC headers and frames this player accepts, and the decoding
  loop with its budget. The frame decoder is the library's: \<open>parse\<close> gives the block size and the input
  left once the header is read, then the subframes once the body is.
\<close>

definition StreamRate :: int where "StreamRate = 48000"
definition BluetoothRate :: int where "BluetoothRate = 44100"
definition StreamChannels :: nat where "StreamChannels = 2"
definition StreamBitDepth :: nat where "StreamBitDepth = 16"
definition streamRates :: "int list" where "streamRates = [StreamRate, BluetoothRate]"

definition flacStreamInfoBytes :: nat where "flacStreamInfoBytes = 34"
definition flacBlockHead :: nat where "flacBlockHead = 4"
definition flacHeadBytes :: nat where "flacHeadBytes = 4"
definition flacChunkFrames :: nat where "flacChunkFrames = 4608"
definition flacMagic :: bytes where "flacMagic = str_bytes ''fLaC''"

definition flacRates :: "int \<Rightarrow> byte" where
  "flacRates r = (if r = StreamRate then 0xa else if r = BluetoothRate then 0x9 else 0)"

definition stream_info_ok :: "bytes \<Rightarrow> int \<Rightarrow> bool" where
  "stream_info_ok header r =
     (length header = flacStreamInfoBytes \<and>
      (let packed = get_be (take 8 (drop 10 header)) :: 64 word
       in int (unat (drop_bit 44 packed)) = r
          \<and> unat (drop_bit 41 packed AND 0x7) + 1 = StreamChannels
          \<and> unat (drop_bit 36 packed AND 0x1f) + 1 = StreamBitDepth))"

definition flacHeaderPlayable :: "string \<Rightarrow> int \<Rightarrow> bool" where
  "flacHeaderPlayable encoded r =
     (case b64_decode encoded of
        None \<Rightarrow> False
      | Some header \<Rightarrow>
          if take 4 header = flacMagic then
            (let block = drop 4 header
             in \<not> (length block < flacBlockHead + flacStreamInfoBytes
                   \<or> block ! 0 AND NOT 0x80 \<noteq> 0
                   \<or> (get_be (take 3 (drop 1 block)) :: 32 word) \<noteq> of_nat flacStreamInfoBytes)
                \<and> stream_info_ok (take flacStreamInfoBytes (drop flacBlockHead block)) r)
          else stream_info_ok header r)"

definition flacFrameInStreamFormat :: "bytes \<Rightarrow> int \<Rightarrow> bool" where
  "flacFrameInStreamFormat head r =
     (let code = head ! 2 AND 0x0f; channels = drop_bit 4 (head ! 3); depth = drop_bit 1 (head ! 3) AND 0x07
      in (code = 0 \<or> code = flacRates r)
         \<and> (channels = 1 \<or> 8 \<le> channels \<and> channels \<le> 0xa)
         \<and> depth = 4)"

definition flac_sync :: "bytes \<Rightarrow> bool" where
  "flac_sync head = ((get_be (take 2 head) :: 16 word) AND NOT 1 = 0xfff8)"

datatype flac_error = FlacFrame | FlacFormat | FlacLong

type_synonym subframes = "32 word list list"
type_synonym flac_parser = "bytes \<Rightarrow> (nat \<times> bytes \<times> subframes option) option"

text \<open>Samples interleaved, sixteen bits each, the low half of a sample.\<close>

definition interleave :: "nat \<Rightarrow> subframes \<Rightarrow> bytes" where
  "interleave n subs = concat (map (\<lambda>i. concat (map (\<lambda>sub. put_le 2 (ucast (sub ! i) :: 16 word)) subs)) [0 ..< n])"

text \<open>The loop, with fuel: \<open>None\<close> is fuel spent.\<close>

fun flac_loop :: "nat \<Rightarrow> flac_parser \<Rightarrow> int \<Rightarrow> nat \<Rightarrow> bytes \<Rightarrow> (flac_error + bytes) option" where
  "flac_loop 0 parse r budget audio = (if audio = [] then Some (Inr []) else None)"
| "flac_loop (Suc k) parse r budget audio =
     (if audio = [] then Some (Inr [])
      else if length audio < flacHeadBytes \<or> \<not> flac_sync audio then Some (Inl FlacFrame)
      else if \<not> flacFrameInStreamFormat audio r then Some (Inl FlacFormat)
      else (case parse audio of
          None \<Rightarrow> Some (Inl FlacFrame)
        | Some (n, rest, body) \<Rightarrow>
            if budget < n then Some (Inl FlacLong)
            else (case body of
                None \<Rightarrow> Some (Inl FlacFrame)
              | Some subs \<Rightarrow>
                  (case flac_loop k parse r (budget - n) rest of
                     None \<Rightarrow> None
                   | Some (Inl e) \<Rightarrow> Some (Inl e)
                   | Some (Inr pcm) \<Rightarrow> Some (Inr (interleave n subs @ pcm))))))"

definition decodeFLAC :: "flac_parser \<Rightarrow> bytes \<Rightarrow> int \<Rightarrow> (flac_error + bytes) option" where
  "decodeFLAC parse audio r = flac_loop (length audio) parse r flacChunkFrames audio"

text \<open>What the frame decoder is documented to do: it consumes its input and gives two subframes of the
  block size each for a frame of two channels.\<close>

definition parser_ok :: "flac_parser \<Rightarrow> bool" where
  "parser_ok parse \<longleftrightarrow> (\<forall>a n r b. parse a = Some (n, r, b) \<longrightarrow>
     length r < length a \<and> (\<forall>subs. b = Some subs \<longrightarrow> length subs = 2 \<and> (\<forall>s \<in> set subs. length s = n)))"

lemma length_interleave: "length (interleave n subs) = n * (2 * length subs)"
proof -
  have "length (concat (map (\<lambda>sub. put_le 2 (ucast (sub ! i) :: 16 word)) subs)) = 2 * length subs" for i
    by (simp add: length_concat comp_def sum_list_triv)
  then show ?thesis by (simp add: interleave_def length_concat comp_def sum_list_triv)
qed

lemma flac_loop_ok:
  "parser_ok parse \<Longrightarrow> length audio \<le> k \<Longrightarrow>
     \<exists>res. flac_loop k parse r budget audio = Some res
       \<and> (case res of Inl e \<Rightarrow> True | Inr pcm \<Rightarrow> length pcm \<le> 4 * budget \<and> 4 dvd length pcm)"
proof (induction k arbitrary: audio budget)
  case (Suc k)
  show ?case
  proof (cases "audio \<noteq> [] \<and> \<not> length audio < flacHeadBytes \<and> flac_sync audio \<and> flacFrameInStreamFormat audio r
      \<and> (\<exists>n rest subs. parse audio = Some (n, rest, Some subs) \<and> n \<le> budget)")
    case True
    then obtain n rest subs where p: "parse audio = Some (n, rest, Some subs)" "n \<le> budget" by blast
    have l: "length rest < length audio" "length subs = 2"
      using Suc.prems(1) p(1) unfolding parser_ok_def by blast+
    then have "length rest \<le> k" using Suc.prems(2) by simp
    from Suc.IH [OF Suc.prems(1) this, of "budget - n"] obtain res where
      res: "flac_loop k parse r (budget - n) rest = Some res"
        "case res of Inl e \<Rightarrow> True | Inr pcm \<Rightarrow> length pcm \<le> 4 * (budget - n) \<and> 4 dvd length pcm" by blast
    then show ?thesis using True p l(2)
      by (auto simp: length_interleave not_less split: sum.splits)
  next
    case False
    then show ?thesis by (auto split: option.splits prod.splits)
  qed
qed simp

lemma decodeFLAC_ends: "parser_ok parse \<Longrightarrow> \<exists>res. decodeFLAC parse audio r = Some res"
  unfolding decodeFLAC_def using flac_loop_ok [OF _ order_refl] by blast

section \<open>Properties\<close>

text \<open>
  Decoding a chunk always ends, with an error or with whole frames of at most 4608, however the
  chunk was made up.
\<close>

theorem decodeFLAC_bounded:
  assumes "parser_ok parse"
  shows "\<exists>res. decodeFLAC parse audio r = Some res
    \<and> (case res of Inl e \<Rightarrow> True | Inr pcm \<Rightarrow> length pcm \<le> 4 * flacChunkFrames \<and> 4 dvd length pcm)"
  unfolding decodeFLAC_def by (rule flac_loop_ok [OF assms order_refl])

definition demo_parser :: flac_parser where
  "demo_parser a = (if a = [] then None else Some (1, drop 4 a, Some [[1], [2]]))"

theorem decodeFLAC_bounded_witness:
  "decodeFLAC demo_parser [0xff, 0xf8, 0xa, 0x18] 48000 = Some (Inr [1, 0, 2, 0])
   \<and> (\<exists>res. decodeFLAC demo_parser [0xff, 0xf8, 0xa, 0x18] 48000 = Some res
        \<and> (case res of Inl e \<Rightarrow> True | Inr pcm \<Rightarrow> length pcm \<le> 4 * flacChunkFrames \<and> 4 dvd length pcm))"
proof
  have "parser_ok demo_parser" by (auto simp: parser_ok_def demo_parser_def split: if_splits)
  then show "\<exists>res. decodeFLAC demo_parser [0xff, 0xf8, 0xa, 0x18] 48000 = Some res
        \<and> (case res of Inl e \<Rightarrow> True | Inr pcm \<Rightarrow> length pcm \<le> 4 * flacChunkFrames \<and> 4 dvd length pcm)"
    by (rule decodeFLAC_bounded)
  show "decodeFLAC demo_parser [0xff, 0xf8, 0xa, 0x18] 48000 = Some (Inr [1, 0, 2, 0])"
    by code_simp
qed

end
