(* ===== verification/Sp_Session.thy ===== *)
theory Sp_Session
  imports Sp_Handshake Sp_Flac "HOL-Library.List_Lexorder" "HOL-Library.Char_ord" "HOL-Library.Multiset"
begin

text \<open>
  The session's protocol: \<open>hello.go\<close> (activation and what it may grant), \<open>stream.go\<close> (streams and their
  formats) and \<open>command.go\<close> (the server's commands). A payload is what \<open>json.Unmarshal\<close> made of it:
  \<open>Inl\<close> its error, or the structure.
\<close>

definition rolePlayerV1 :: string where "rolePlayerV1 = ''player@v1''"
definition familyPlayer :: string where "familyPlayer = ''player''"
definition methodPairingPSK :: string where "methodPairingPSK = ''pairing_psk''"
definition activityPlayback :: string where "activityPlayback = ''playback''"
definition activityPairing :: string where "activityPairing = ''pairing''"
definition goodbyeUnauthorized :: string where "goodbyeUnauthorized = ''unauthorized''"
definition goodbyePairingRequired :: string where "goodbyePairingRequired = ''pairing_required''"
definition abortMethodNotSupported :: string where "abortMethodNotSupported = ''method_not_supported''"

definition supportedRoles :: "string list" where
  "supportedRoles = [rolePlayerV1]"

section \<open>What an activation may ask for\<close>

record server_activate =
  activities :: "string list"
  active_roles :: "string list option"
  pairing :: "string option"

record decision =
  Goodbye :: string
  PairAbort :: string
  Roles :: "string list"

definition decided :: "decision \<Rightarrow> bool" where
  "decided d = (Goodbye d = '''' \<and> PairAbort d = '''')"

definition allowedActivitySets :: "category \<Rightarrow> bool \<Rightarrow> string list list" where
  "allowedActivitySets c unp =
     (case c of
        LongTerm \<Rightarrow> [[], [activityPlayback]]
      | Pairing \<Rightarrow> [[], [activityPairing]]
      | Sentinel \<Rightarrow> [[], [activityPairing]] @ (if unp then [[activityPlayback]] else []))"

definition sameSet :: "string list \<Rightarrow> string list \<Rightarrow> bool" where
  "sameSet a b = (length a = length b \<and> sort a = sort b)"

definition activitiesAllowed :: "category \<Rightarrow> bool \<Rightarrow> string list \<Rightarrow> bool" where
  "activitiesAllowed c unp acts = list_ex (\<lambda>s. sameSet s acts) (allowedActivitySets c unp)"

definition playbackCapable :: "category \<Rightarrow> bool \<Rightarrow> string list \<Rightarrow> bool" where
  "playbackCapable c unp acts =
     activitiesAllowed c unp (if activityPlayback \<in> set acts then acts else acts @ [activityPlayback])"

fun keep_from :: "string list \<Rightarrow> string list \<Rightarrow> string list" where
  "keep_from out [] = out"
| "keep_from out (r # rs) =
     keep_from (if r \<in> set supportedRoles \<and> r \<notin> set out then out @ [r] else out) rs"

definition keepSupported :: "string list \<Rightarrow> string list" where
  "keepSupported rs = keep_from [] rs"

type_synonym pair_methods = "string \<rightharpoonup> string list"

definition pairingMethodOK :: "category \<Rightarrow> pair_methods \<Rightarrow> server_activate \<Rightarrow> bool" where
  "pairingMethodOK c off act =
     (if activityPairing \<notin> set (activities act) then True
      else (case pairing act of
          None \<Rightarrow> False
        | Some m \<Rightarrow> (case off m of
            None \<Rightarrow> False
          | Some _ \<Rightarrow> (m = methodPairingPSK) = (c = Pairing))))"

definition wanted_roles :: "server_activate \<Rightarrow> string list \<Rightarrow> string list" where
  "wanted_roles act persisted =
     (case active_roles act of None \<Rightarrow> persisted | Some rs \<Rightarrow> keepSupported rs)"

definition admissible :: "category \<Rightarrow> bool \<Rightarrow> pair_methods \<Rightarrow> server_activate \<Rightarrow> string list \<Rightarrow> bool" where
  "admissible c unp off act persisted =
     (if \<not> activitiesAllowed c unp (activities act) then False
      else if \<not> playbackCapable c unp (activities act) \<and> active_roles act \<noteq> None
              \<and> wanted_roles act persisted \<noteq> [] then False
      else pairingMethodOK c off act)"

definition goodbye_with :: "string \<Rightarrow> decision" where
  "goodbye_with why = \<lparr>Goodbye = why, PairAbort = '''', Roles = []\<rparr>"

definition refuse_activation :: "category \<Rightarrow> bool \<Rightarrow> pair_methods \<Rightarrow> server_activate \<Rightarrow> string list \<Rightarrow> decision" where
  "refuse_activation c unp off act persisted =
     (if c = Sentinel \<and> \<not> unp \<and> admissible c True off act persisted
      then goodbye_with goodbyePairingRequired else goodbye_with goodbyeUnauthorized)"

definition decideActivate :: "category \<Rightarrow> bool \<Rightarrow> pair_methods \<Rightarrow> server_activate \<Rightarrow> string list \<Rightarrow> decision" where
  "decideActivate c unp off act persisted =
     (let explicit = (active_roles act \<noteq> None); rs = wanted_roles act persisted;
          capable = playbackCapable c unp (activities act)
      in if \<not> activitiesAllowed c unp (activities act) then refuse_activation c unp off act persisted
         else if \<not> capable \<and> rs \<noteq> [] \<and> explicit then refuse_activation c unp off act persisted
         else if \<not> pairingMethodOK c off act
           then \<lparr>Goodbye = '''', PairAbort = abortMethodNotSupported, Roles = []\<rparr>
         else \<lparr>Goodbye = '''', PairAbort = '''', Roles = (if \<not> capable then [] else rs)\<rparr>)"

section \<open>The client's hello\<close>

definition commandStaticDelay :: string where "commandStaticDelay = ''set_static_delay''"
definition commandVolume :: string where "commandVolume = ''volume''"
definition commandMute :: string where "commandMute = ''mute''"
definition codecPCM :: string where "codecPCM = ''pcm''"
definition codecFLAC :: string where "codecFLAC = ''flac''"

text \<open>Of the configuration's callbacks only whether they are set.\<close>

record sp_config =
  Name :: string
  ProductName :: string
  Manufacturer :: string
  MACAddress :: string
  UnpairedAccess :: bool
  BufferCapacity :: int
  has_level :: bool
  has_set_volume :: bool
  has_set_mute :: bool

definition setsVolume :: "sp_config \<Rightarrow> bool" where
  "setsVolume c = (has_level c \<and> has_set_volume c)"

definition setsMute :: "sp_config \<Rightarrow> bool" where
  "setsMute c = (has_level c \<and> has_set_mute c)"

definition playerCommands :: "sp_config \<Rightarrow> string list" where
  "playerCommands c = (if setsVolume c then [commandVolume] else []) @ (if setsMute c then [commandMute] else [])"

record audio_format =
  af_codec :: string
  af_channels :: nat
  af_rate :: int
  af_depth :: nat

definition supportedFormats :: "audio_format list" where
  "supportedFormats =
     concat (map (\<lambda>r. map (\<lambda>c. \<lparr>af_codec = c, af_channels = StreamChannels, af_rate = r,
                               af_depth = StreamBitDepth\<rparr>) [codecFLAC, codecPCM]) streamRates)"

record client_hello =
  ch_name :: string
  ch_product :: string
  ch_manufacturer :: string
  ch_mac :: string
  ch_roles :: "string list"
  ch_formats :: "audio_format list"
  ch_buffer :: int
  ch_commands :: "string list"
  ch_methods :: pair_methods
  ch_unpaired :: bool

definition offeredPairMethods :: pair_methods where
  "offeredPairMethods = (\<lambda>_. None)"

definition hello :: "sp_config \<Rightarrow> client_hello" where
  "hello c = \<lparr>ch_name = Name c, ch_product = ProductName c, ch_manufacturer = Manufacturer c,
     ch_mac = MACAddress c, ch_roles = supportedRoles, ch_formats = supportedFormats,
     ch_buffer = BufferCapacity c, ch_commands = playerCommands c, ch_methods = offeredPairMethods,
     ch_unpaired = UnpairedAccess c\<rparr>"

section \<open>Greeting and activation\<close>

datatype sess_error = SeRead transport_error | SeWrite transport_error | SeNotJSON byte
  | SeWanted string | SeBadPayload string | SeRefused string | SeCommand string

record 'j sp_json =
  j_env :: "bytes \<Rightarrow> (string \<times> 'j) option"
  j_hello :: "'j \<Rightarrow> string option"
  j_client_hello :: "client_hello \<Rightarrow> bytes"
  j_reason :: "string \<Rightarrow> string \<Rightarrow> bytes"

definition ReadEnvelope :: "cipher \<Rightarrow> 'j sp_json \<Rightarrow> session \<Rightarrow> (sess_error + (string \<times> 'j)) \<times> session" where
  "ReadEnvelope dec J s =
     (case session_read dec s of
        (Inl e, s') \<Rightarrow> (Inl (SeRead e), s')
      | (Inr (kind, body), s') \<Rightarrow>
          (if kind \<noteq> msgJSON then Inl (SeNotJSON kind)
           else (case j_env J body of None \<Rightarrow> Inl (SeBadPayload ''envelope'') | Some x \<Rightarrow> Inr x), s'))"

definition WriteJSON :: "cipher \<Rightarrow> bytes \<Rightarrow> session \<Rightarrow> (sess_error + unit) \<times> session" where
  "WriteJSON enc body s =
     (case WriteTyped enc msgJSON body s of
        (Inl e, s') \<Rightarrow> (Inl (SeWrite e), s') | (Inr u, s') \<Rightarrow> (Inr u, s'))"

definition Greet :: "cipher \<Rightarrow> cipher \<Rightarrow> 'j sp_json \<Rightarrow> sp_config \<Rightarrow> session \<Rightarrow> (sess_error + string) \<times> session" where
  "Greet enc dec J cfg s =
     (case ReadEnvelope dec J s of
        (Inl e, s1) \<Rightarrow> (Inl e, s1)
      | (Inr (kind, payload), s1) \<Rightarrow>
          if kind \<noteq> ''server/hello'' then (Inl (SeWanted (Cut kind)), s1)
          else (case j_hello J payload of
              None \<Rightarrow> (Inl (SeBadPayload ''server/hello''), s1)
            | Some name \<Rightarrow>
                (case WriteJSON enc (j_client_hello J (hello cfg))
                        (s1\<lparr>offered := offeredPairMethods, unpaired := UnpairedAccess cfg\<rparr>) of
                   (Inl e, s2) \<Rightarrow> (Inl e, s2)
                 | (Inr u, s2) \<Rightarrow> (Inr name, s2))))"

text \<open>\<open>family\<close> is the part of a role before its version.\<close>

definition family :: "string \<Rightarrow> string" where
  "family role = takeWhile (\<lambda>c. c \<noteq> CHR ''@'') role"

definition holdsPlayer :: "string list \<Rightarrow> bool" where
  "holdsPlayer rs = list_ex (\<lambda>r. family r = familyPlayer) rs"

definition namesPlayer :: "string list option \<Rightarrow> bool" where
  "namesPlayer rs = (case rs of None \<Rightarrow> True | Some l \<Rightarrow> holdsPlayer l)"

definition apply_decision :: "decision \<Rightarrow> session \<Rightarrow> session" where
  "apply_decision d s =
     (let s1 = s\<lparr>roles := Roles d\<rparr>
      in if \<not> holdsPlayer (roles s1) then s1\<lparr>streaming := False\<rparr> else s1)"

definition Activate ::
    "cipher \<Rightarrow> 'j sp_json \<Rightarrow> (string + server_activate) \<Rightarrow> session \<Rightarrow> (sess_error + string list) \<times> session" where
  "Activate enc J payload s =
     (case payload of
        Inl e \<Rightarrow> (Inl (SeBadPayload e), s)
      | Inr act \<Rightarrow>
          (let d = decideActivate (matched s) (unpaired s) (offered s) act (roles s)
           in if Goodbye d \<noteq> '''' then
                (Inl (SeRefused (Goodbye d)), snd (WriteJSON enc (j_reason J ''client/goodbye'' (Goodbye d)) s))
              else if PairAbort d \<noteq> '''' then
                (case WriteJSON enc (j_reason J ''pair/abort'' (PairAbort d)) s of
                   (Inl e, s') \<Rightarrow> (Inl e, s')
                 | (Inr u, s') \<Rightarrow> (Inr (roles s'), s'))
              else (Inr (roles (apply_decision d s)), apply_decision d s)))"

definition SayGoodbye :: "cipher \<Rightarrow> 'j sp_json \<Rightarrow> string \<Rightarrow> session \<Rightarrow> (sess_error + unit) \<times> session" where
  "SayGoodbye enc J reason s = WriteJSON enc (j_reason J ''client/goodbye'' reason) s"

section \<open>Streams\<close>

record stream_player =
  Codec :: string
  SampleRate :: int
  Channels :: int
  BitDepth :: int
  CodecHeader :: string

definition playable :: "stream_player \<Rightarrow> bool" where
  "playable p =
     (if SampleRate p \<notin> set streamRates \<or> Channels p \<noteq> int StreamChannels \<or> BitDepth p \<noteq> int StreamBitDepth
      then False
      else if Codec p = codecPCM then True
      else if Codec p = codecFLAC then flacHeaderPlayable (CodecHeader p) (SampleRate p)
      else False)"

definition player_string :: "stream_player \<Rightarrow> string" where
  "player_string p =
     Cut (Codec p) @ '' '' @ int_str (SampleRate p) @ '' Hz '' @ int_str (Channels p) @ '' ch ''
     @ int_str (BitDepth p) @ '' bit''
     @ (if Codec p = codecFLAC \<and> \<not> flacHeaderPlayable (CodecHeader p) (SampleRate p)
        then '' with a codec_header this player cannot read'' else '''')"

definition StartStream ::
    "(string + stream_player option) \<Rightarrow> session \<Rightarrow> (sess_error + stream_player option) \<times> session" where
  "StartStream payload s =
     (case payload of
        Inl e \<Rightarrow> (Inl (SeBadPayload e), s)
      | Inr None \<Rightarrow> (Inr None, s)
      | Inr (Some p) \<Rightarrow>
          (if \<not> playable p \<or> \<not> holdsPlayer (roles s) then (Inr (Some p), s\<lparr>streaming := False\<rparr>)
           else (Inr (Some p), s\<lparr>streaming := True, flac := (Codec p = codecFLAC), rate := SampleRate p\<rparr>)))"

definition EndStream :: "(string + string list option) \<Rightarrow> session \<Rightarrow> (sess_error + bool) \<times> session" where
  "EndStream payload s =
     (case payload of
        Inl e \<Rightarrow> (Inl (SeBadPayload e), s)
      | Inr rs \<Rightarrow>
          if \<not> namesPlayer rs then (Inr False, s) else (Inr (streaming s), s\<lparr>streaming := False\<rparr>))"

definition ClearStream :: "(string + string list option) \<Rightarrow> session \<Rightarrow> sess_error + bool" where
  "ClearStream payload s =
     (case payload of
        Inl e \<Rightarrow> Inl (SeBadPayload e)
      | Inr rs \<Rightarrow> Inr (namesPlayer rs \<and> holdsPlayer (roles s) \<and> streaming s))"

section \<open>Commands\<close>

definition MaxStaticDelayMS :: int where "MaxStaticDelayMS = 5000"

definition HoldDelayMS :: "int \<Rightarrow> int" where
  "HoldDelayMS ms = max 0 (min ms MaxStaticDelayMS)"

definition HoldVolume :: "int \<Rightarrow> int" where
  "HoldVolume percent = max 0 (min percent 100)"

record player_command =
  Command :: string
  StaticDelayMS :: "int option"
  Volume_arg :: "int option"
  Mute_arg :: "bool option"

type_synonym command_payload = "string + player_command option"

definition command_arg ::
    "string \<Rightarrow> (player_command \<Rightarrow> 'a option) \<Rightarrow> command_payload \<Rightarrow> session \<Rightarrow> sess_error + 'a option" where
  "command_arg name arg payload s =
     (case payload of
        Inl e \<Rightarrow> Inl (SeBadPayload e)
      | Inr None \<Rightarrow> Inr None
      | Inr (Some cmd) \<Rightarrow>
          (if Command cmd \<noteq> name then Inr None
           else if \<not> holdsPlayer (roles s) then Inl (SeCommand ''a role this client does not hold'')
           else (case arg cmd of None \<Rightarrow> Inl (SeCommand ''names no value'') | Some v \<Rightarrow> Inr (Some v))))"

definition Volume_cmd :: "command_payload \<Rightarrow> session \<Rightarrow> sess_error + int option" where
  "Volume_cmd = command_arg commandVolume Volume_arg"

definition Mute_cmd :: "command_payload \<Rightarrow> session \<Rightarrow> sess_error + bool option" where
  "Mute_cmd = command_arg commandMute Mute_arg"

text \<open>The delay to apply and the one asked for.\<close>

definition StaticDelay :: "command_payload \<Rightarrow> session \<Rightarrow> sess_error + (duration \<times> int) option" where
  "StaticDelay payload s =
     (case command_arg commandStaticDelay StaticDelayMS payload s of
        Inl e \<Rightarrow> Inl e
      | Inr None \<Rightarrow> Inr None
      | Inr (Some asked) \<Rightarrow> Inr (Some (HoldDelayMS asked * millisecond, asked)))"

section \<open>Sets of activities\<close>

lemma sameSet_mset: "sameSet a b \<longleftrightarrow> mset a = mset b"
proof
  assume "sameSet a b"
  then show "mset a = mset b" unfolding sameSet_def by (metis mset_sort)
next
  assume m: "mset a = mset b"
  then have "sort a = sort b" by (metis mset_sort properties_for_sort sorted_sort)
  then show "sameSet a b" using mset_eq_length [OF m] by (simp only: sameSet_def)
qed

text \<open>An activity set is allowed when it is empty or the single activity of its category.\<close>

lemma activitiesAllowed_iff:
  "activitiesAllowed c unp acts \<longleftrightarrow>
     acts = [] \<or> (acts = [activityPlayback] \<and> (c = LongTerm \<or> c = Sentinel \<and> unp))
     \<or> (acts = [activityPairing] \<and> c \<noteq> LongTerm)"
proof -
  have s: "{#x#} = mset acts \<longleftrightarrow> acts = [x]" "{#} = mset acts \<longleftrightarrow> acts = []" for x
    by (metis mset_single_iff, metis mset_zero_iff_right)
  show ?thesis
    by (cases c) (auto simp: activitiesAllowed_def allowedActivitySets_def sameSet_mset s)
qed

lemma activity_ne: "activityPlayback \<noteq> activityPairing"
  by (simp add: activityPlayback_def activityPairing_def)

lemma playbackCapable_iff:
  "playbackCapable c unp acts \<longleftrightarrow>
     (acts = [] \<or> acts = [activityPlayback]) \<and> (c = LongTerm \<or> c = Sentinel \<and> unp)"
  using activity_ne
  by (cases "activityPlayback \<in> set acts") (auto simp: playbackCapable_def activitiesAllowed_iff append_eq_Cons_conv)

lemma keep_from_props:
  "distinct out \<Longrightarrow> set out \<subseteq> set supportedRoles \<Longrightarrow>
     distinct (keep_from out rs) \<and> set (keep_from out rs) = set out \<union> (set rs \<inter> set supportedRoles)"
  by (induction rs arbitrary: out) auto

lemma keepSupported_set: "set (keepSupported rs) = set rs \<inter> set supportedRoles" "distinct (keepSupported rs)"
  using keep_from_props [of "[]" rs] by (simp_all add: keepSupported_def)

lemma refuse_not_ok: "\<not> decided (refuse_activation c unp off act per)"
  by (simp add: refuse_activation_def decided_def goodbye_with_def goodbyeUnauthorized_def goodbyePairingRequired_def)

lemma method_string_ne: "abortMethodNotSupported \<noteq> ''''" "goodbyeUnauthorized \<noteq> ''''" "goodbyePairingRequired \<noteq> ''''"
  by (simp_all add: abortMethodNotSupported_def goodbyeUnauthorized_def goodbyePairingRequired_def)

text \<open>
  An activation goes through exactly when it is admissible. Then it grants roles only this client
  has, each once if the persisted ones are, a role at all only on a connection allowed to play, and
  the explicitly named roles are granted in full. It is refused with \<open>pairing_required\<close> exactly when
  turning unpaired access on would make it admissible.
\<close>

theorem activation_decided:
  assumes "set per \<subseteq> set supportedRoles" "distinct per"
  shows "(decided (decideActivate c unp off act per) \<longleftrightarrow> admissible c unp off act per)
    \<and> (let rs = Roles (decideActivate c unp off act per)
       in set rs \<subseteq> set supportedRoles \<and> distinct rs
          \<and> (rs \<noteq> [] \<longrightarrow> (c = LongTerm \<or> c = Sentinel \<and> unp)
                \<and> (activities act = [] \<or> activities act = [activityPlayback]))
          \<and> (\<forall>want. active_roles act = Some want \<longrightarrow> admissible c unp off act per \<longrightarrow>
               rs = keepSupported want))
    \<and> (Goodbye (decideActivate c unp off act per) = goodbyePairingRequired \<longleftrightarrow>
         c = Sentinel \<and> \<not> unp \<and> admissible c True off act per
         \<and> \<not> (activitiesAllowed c unp (activities act)
              \<and> (playbackCapable c unp (activities act) \<or> active_roles act = None \<or> wanted_roles act per = [])))"
proof -
  have w: "set (wanted_roles act per) \<subseteq> set supportedRoles" "distinct (wanted_roles act per)"
    using assms keepSupported_set by (auto simp: wanted_roles_def split: option.splits)
  have ne: "goodbyePairingRequired \<noteq> goodbyeUnauthorized"
    by (simp add: goodbyeUnauthorized_def goodbyePairingRequired_def)
  have kw: "active_roles act = Some want \<Longrightarrow> wanted_roles act per = keepSupported want" for want
    by (simp add: wanted_roles_def)
  consider (acts) "\<not> activitiesAllowed c unp (activities act)"
    | (cap) "activitiesAllowed c unp (activities act)" "\<not> playbackCapable c unp (activities act)"
        "wanted_roles act per \<noteq> []" "active_roles act \<noteq> None"
    | (meth) "activitiesAllowed c unp (activities act)"
        "playbackCapable c unp (activities act) \<or> wanted_roles act per = [] \<or> active_roles act = None"
        "\<not> pairingMethodOK c off act"
    | (ok) "activitiesAllowed c unp (activities act)"
        "playbackCapable c unp (activities act) \<or> wanted_roles act per = [] \<or> active_roles act = None"
        "pairingMethodOK c off act"
    by blast
  then show ?thesis
  proof cases
    case acts
    then have d: "decideActivate c unp off act per = refuse_activation c unp off act per"
      by (simp add: decideActivate_def)
    show ?thesis unfolding d using acts refuse_not_ok [of c unp off act per] ne
      by (auto simp: admissible_def refuse_activation_def goodbye_with_def)
  next
    case cap
    then have d: "decideActivate c unp off act per = refuse_activation c unp off act per"
      by (simp add: decideActivate_def)
    show ?thesis unfolding d using cap refuse_not_ok [of c unp off act per] ne
      by (auto simp: admissible_def refuse_activation_def goodbye_with_def)
  next
    case meth
    then have d: "decideActivate c unp off act per = \<lparr>Goodbye = '''', PairAbort = abortMethodNotSupported, Roles = []\<rparr>"
      by (auto simp: decideActivate_def Let_def)
    have "\<not> admissible c unp off act per" using meth by (simp add: admissible_def)
    then show ?thesis unfolding d using meth method_string_ne by (auto simp: decided_def Let_def)
  next
    case ok
    then have d: "decideActivate c unp off act per = \<lparr>Goodbye = '''', PairAbort = '''',
        Roles = (if \<not> playbackCapable c unp (activities act) then [] else wanted_roles act per)\<rparr>"
      by (auto simp: decideActivate_def Let_def)
    have "admissible c unp off act per" using ok by (auto simp: admissible_def)
    then show ?thesis unfolding d using ok w kw method_string_ne
      by (auto simp: decided_def Let_def playbackCapable_iff)
  qed
qed

definition demo_activate :: server_activate where
  "demo_activate = \<lparr>activities = [activityPlayback], active_roles = Some [''x'', rolePlayerV1, rolePlayerV1],
     pairing = None\<rparr>"

theorem activation_decided_witness:
  "Roles (decideActivate Sentinel True (\<lambda>_. None) demo_activate []) = [rolePlayerV1]"
proof -
  have a: "admissible Sentinel True (\<lambda>_. None) demo_activate []"
    using activity_ne
    by (simp add: admissible_def demo_activate_def activitiesAllowed_iff playbackCapable_iff pairingMethodOK_def)
  have k: "keepSupported [''x'', rolePlayerV1, rolePlayerV1] = [rolePlayerV1]"
    by (simp add: keepSupported_def supportedRoles_def rolePlayerV1_def)
  have "\<forall>want. active_roles demo_activate = Some want \<longrightarrow> admissible Sentinel True (\<lambda>_. None) demo_activate [] \<longrightarrow>
      Roles (decideActivate Sentinel True (\<lambda>_. None) demo_activate []) = keepSupported want"
    using activation_decided [of "[]" Sentinel True "\<lambda>_. None" demo_activate] by (simp add: Let_def)
  then show ?thesis using a k by (simp add: demo_activate_def)
qed

section \<open>A session over time\<close>

datatype sess_event = OnActivate "string + server_activate" | OnStart "string + stream_player option"
  | OnEnd "string + string list option"

fun sess_step :: "cipher \<Rightarrow> 'j sp_json \<Rightarrow> session \<Rightarrow> sess_event \<Rightarrow> session" where
  "sess_step enc J s (OnActivate p) = snd (Activate enc J p s)"
| "sess_step enc J s (OnStart p) = snd (StartStream p s)"
| "sess_step enc J s (OnEnd p) = snd (EndStream p s)"

definition sess_inv :: "session \<Rightarrow> bool" where
  "sess_inv s \<longleftrightarrow> set (roles s) \<subseteq> set supportedRoles \<and> distinct (roles s)
     \<and> (streaming s \<longrightarrow> holdsPlayer (roles s) \<and> rate s \<in> set streamRates)"

lemma seal_all_keeps:
  "roles (snd (seal_all enc fs s)) = roles s \<and> streaming (snd (seal_all enc fs s)) = streaming s
   \<and> rate (snd (seal_all enc fs s)) = rate s \<and> unpaired (snd (seal_all enc fs s)) = unpaired s
   \<and> matched (snd (seal_all enc fs s)) = matched s"
proof (induction fs arbitrary: s)
  case (Cons f fs)
  obtain r s1 where 1: "seal enc f s = (r, s1)" by fastforce
  then have "roles s1 = roles s" "streaming s1 = streaming s" "rate s1 = rate s" "unpaired s1 = unpaired s"
      "matched s1 = matched s"
    by (auto simp: seal_def split: option.splits prod.splits)
  then show ?case using Cons [of s1] 1 by (simp split: sum.splits)
qed simp

lemma WriteJSON_keeps:
  "roles (snd (WriteJSON enc b s)) = roles s \<and> streaming (snd (WriteJSON enc b s)) = streaming s
   \<and> rate (snd (WriteJSON enc b s)) = rate s \<and> unpaired (snd (WriteJSON enc b s)) = unpaired s
   \<and> matched (snd (WriteJSON enc b s)) = matched s"
  using seal_all_keeps [of enc "typed_frames msgJSON b" s]
  by (auto simp: WriteJSON_def WriteTyped_def split: prod.splits sum.splits)

lemma sess_inv_same:
  "sess_inv s \<Longrightarrow> roles s' = roles s \<Longrightarrow> streaming s' = streaming s \<Longrightarrow> rate s' = rate s \<Longrightarrow> sess_inv s'"
  by (simp add: sess_inv_def)

lemma Activate_state:
  "snd (Activate enc J p s) = s
   \<or> (\<exists>b. snd (Activate enc J p s) = snd (WriteJSON enc b s))
   \<or> (\<exists>act. p = Inr act \<and> snd (Activate enc J p s) =
        apply_decision (decideActivate (matched s) (unpaired s) (offered s) act (roles s)) s)"
proof (cases p)
  case (Inr act)
  let ?d = "decideActivate (matched s) (unpaired s) (offered s) act (roles s)"
  consider "Goodbye ?d \<noteq> ''''" | "Goodbye ?d = ''''" "PairAbort ?d \<noteq> ''''" | "Goodbye ?d = ''''" "PairAbort ?d = ''''"
    by blast
  then show ?thesis
  proof cases
    case 1
    then show ?thesis using Inr by (auto simp: Activate_def Let_def)
  next
    case 2
    obtain r s1 where w: "WriteJSON enc (j_reason J ''pair/abort'' (PairAbort ?d)) s = (r, s1)" by fastforce
    then have "snd (Activate enc J p s) = snd (WriteJSON enc (j_reason J ''pair/abort'' (PairAbort ?d)) s)"
      using 2 Inr by (simp add: Activate_def Let_def split: sum.splits)
    then show ?thesis by blast
  next
    case 3
    then show ?thesis using Inr by (auto simp: Activate_def Let_def)
  qed
qed (simp add: Activate_def)

lemma Activate_inv:
  assumes "sess_inv s"
  shows "sess_inv (snd (Activate enc J p s))"
  using Activate_state [of enc J p s]
proof (elim disjE exE conjE)
  fix b assume "snd (Activate enc J p s) = snd (WriteJSON enc b s)"
  then show ?thesis using sess_inv_same [OF assms] WriteJSON_keeps [of enc b s] by simp
next
  fix act
  assume d: "snd (Activate enc J p s) =
      apply_decision (decideActivate (matched s) (unpaired s) (offered s) act (roles s)) s"
  have "set (Roles (decideActivate (matched s) (unpaired s) (offered s) act (roles s))) \<subseteq> set supportedRoles
      \<and> distinct (Roles (decideActivate (matched s) (unpaired s) (offered s) act (roles s)))"
    using assms activation_decided [of "roles s"] by (simp add: sess_inv_def Let_def)
  then show ?thesis unfolding d using assms by (auto simp: apply_decision_def sess_inv_def Let_def)
qed (use assms in simp)

interpretation session_machine: machine "sess_step enc J" sess_inv
proof unfold_locales
  fix s e
  assume i: "sess_inv s"
  show "sess_inv (sess_step enc J s e)"
  proof (cases e)
    case (OnActivate p)
    then show ?thesis using Activate_inv [OF i] by simp
  next
    case (OnStart p)
    then show ?thesis using i
      by (auto simp: StartStream_def sess_inv_def playable_def split: sum.splits option.splits if_splits)
  next
    case (OnEnd p)
    then show ?thesis using i by (auto simp: EndStream_def sess_inv_def split: sum.splits)
  qed
qed

lemma no_roles_step:
  assumes "sess_inv s" "matched s = Pairing \<or> matched s = Sentinel \<and> \<not> unpaired s" "roles s = []"
  shows "roles (sess_step enc J s e) = []"
proof (cases e)
  case (OnActivate p)
  show ?thesis using Activate_state [of enc J p s]
  proof (elim disjE exE conjE)
    fix b assume "snd (Activate enc J p s) = snd (WriteJSON enc b s)"
    then show ?thesis using OnActivate WriteJSON_keeps [of enc b s] assms(3) by simp
  next
    fix act
    assume d: "snd (Activate enc J p s) =
        apply_decision (decideActivate (matched s) (unpaired s) (offered s) act (roles s)) s"
    have "Roles (decideActivate (matched s) (unpaired s) (offered s) act (roles s)) = []"
      using assms activation_decided [of "roles s" "matched s" "unpaired s" "offered s" act]
      by (auto simp: sess_inv_def Let_def)
    then show ?thesis using OnActivate d by (simp add: apply_decision_def Let_def)
  qed (use OnActivate assms in simp)
next
  case (OnStart p)
  then show ?thesis using assms by (auto simp: StartStream_def split: sum.splits option.splits)
next
  case (OnEnd p)
  then show ?thesis using assms by (auto simp: EndStream_def split: sum.splits)
qed

lemma step_keeps_match:
  "matched (sess_step enc J s e) = matched s \<and> unpaired (sess_step enc J s e) = unpaired s"
proof (cases e)
  case (OnActivate p)
  show ?thesis using Activate_state [of enc J p s]
    by (elim disjE exE conjE) (use OnActivate WriteJSON_keeps [of enc _ s] in \<open>auto simp: apply_decision_def Let_def\<close>)
next
  case (OnStart p)
  then show ?thesis by (auto simp: StartStream_def split: sum.splits option.splits)
next
  case (OnEnd p)
  then show ?thesis by (auto simp: EndStream_def split: sum.splits)
qed

lemma no_roles_run:
  "sess_inv s \<Longrightarrow> matched s = Pairing \<or> matched s = Sentinel \<and> \<not> unpaired s \<Longrightarrow> roles s = [] \<Longrightarrow>
     roles (foldl (sess_step enc J) s es) = []"
proof (induction es arbitrary: s)
  case (Cons e es)
  show ?case
    using Cons.IH [of "sess_step enc J s e"] session_machine.step_keeps [OF Cons.prems(1), of enc J e]
      no_roles_step [OF Cons.prems(1-3), of enc J e] step_keeps_match [of enc J s e] Cons.prems(2)
    by simp
qed simp

text \<open>
  Over any sequence of activations, stream starts and stream ends a session streams only while it
  holds a player role, at one of the two rates this player has; and a connection matched as pairing, or
  with the sentinel while unpaired access is off, never comes to stream.
\<close>

theorem streaming_needs_player:
  assumes "sess_inv s" "s' = foldl (sess_step enc J) s es"
  shows "(streaming s' \<longrightarrow> holdsPlayer (roles s') \<and> rate s' \<in> set streamRates)
    \<and> (roles s = [] \<and> (matched s = Pairing \<or> matched s = Sentinel \<and> \<not> unpaired s) \<longrightarrow> \<not> streaming s')"
proof -
  have "sess_inv s'" unfolding assms(2) by (rule session_machine.run_keeps [OF assms(1)])
  moreover have "roles s = [] \<and> (matched s = Pairing \<or> matched s = Sentinel \<and> \<not> unpaired s) \<longrightarrow> roles s' = []"
    using no_roles_run [OF assms(1)] assms(2) by blast
  ultimately show ?thesis by (auto simp: sess_inv_def holdsPlayer_def)
qed

definition demo_player :: stream_player where
  "demo_player = \<lparr>Codec = codecPCM, SampleRate = 48000, Channels = 2, BitDepth = 16, CodecHeader = ''''\<rparr>"

definition demo_sp_json :: "unit sp_json" where
  "demo_sp_json = \<lparr>j_env = (\<lambda>_. None), j_hello = (\<lambda>_. None), j_client_hello = (\<lambda>_. []), j_reason = (\<lambda>_ _. [])\<rparr>"

lemma demo_decide:
  "decideActivate Sentinel True (\<lambda>_. None) demo_activate [] = \<lparr>Goodbye = '''', PairAbort = '''', Roles = [rolePlayerV1]\<rparr>"
  using activity_ne
  by (simp add: decideActivate_def demo_activate_def activitiesAllowed_iff playbackCapable_iff
      pairingMethodOK_def wanted_roles_def keepSupported_def supportedRoles_def rolePlayerV1_def)

lemma demo_holds: "holdsPlayer [rolePlayerV1]"
  by (simp add: holdsPlayer_def family_def rolePlayerV1_def familyPlayer_def)

lemma demo_playable: "playable demo_player"
  by (simp add: demo_player_def playable_def streamRates_def StreamRate_def StreamChannels_def StreamBitDepth_def)

theorem streaming_needs_player_witness:
  "streaming (foldl (sess_step xor_cipher demo_sp_json) demo_session [OnActivate (Inr demo_activate), OnStart (Inr (Some demo_player))])
   \<and> holdsPlayer (roles (foldl (sess_step xor_cipher demo_sp_json) demo_session [OnActivate (Inr demo_activate), OnStart (Inr (Some demo_player))]))"
proof -
  let ?s = "foldl (sess_step xor_cipher demo_sp_json) demo_session [OnActivate (Inr demo_activate), OnStart (Inr (Some demo_player))]"
  have "streaming ?s"
    by (simp add: Activate_def demo_session_def apply_decision_def Let_def StartStream_def demo_decide
        demo_holds demo_playable)
  moreover have "sess_inv demo_session" by (simp add: sess_inv_def demo_session_def)
  ultimately show ?thesis using streaming_needs_player [OF _ refl] by blast
qed

end
