(* ===== verification/Sp_Clock.thy ===== *)
theory Sp_Clock
  imports Sp_Session
begin

text \<open>
  \<open>internal/sendspin/time.go\<close>: asking the server for the time and measuring with its answers. The filter
  the measurements go into is a parameter here (\<open>Sp_Filter\<close> has it, bit for bit): \<open>update\<close> takes one
  measurement, \<open>report\<close> says whether it has converged and how far it spreads. Stamps are microseconds;
  those accepted are at most \<open>2 ^ 50\<close>, so the 64-bit arithmetic of \<open>observe\<close> does not wrap.
\<close>

definition stampCeiling :: int where "stampCeiling = 2 ^ 50"

datatype answer = Unasked | OffClock | Backwards | Spent | Measured

fun answer_string :: "answer \<Rightarrow> string" where
  "answer_string Unasked = ''an answer to a question this client never asked''"
| "answer_string OffClock = ''stamps that are on no clock''"
| "answer_string Backwards = ''a reply it says it sent before the question reached it''"
| "answer_string Spent = ''the whole round trip claimed as its own''"
| "answer_string Measured = ''a measurement''"

record 'f sp_clock =
  filt :: 'f
  replied :: bool
  asked_at :: int
  awaiting :: bool

definition newClock :: "'f \<Rightarrow> 'f sp_clock" where
  "newClock f = \<lparr>filt = f, replied = False, asked_at = 0, awaiting = False\<rparr>"

definition ask_stamp :: "int \<Rightarrow> 'f sp_clock \<Rightarrow> 'f sp_clock" where
  "ask_stamp now k = k\<lparr>asked_at := now, awaiting := True, replied := False\<rparr>"

text \<open>\<open>ask\<close> writes the question through the session; \<open>body\<close> is its JSON.\<close>

definition ask :: "cipher \<Rightarrow> (int \<Rightarrow> bytes) \<Rightarrow> int \<Rightarrow> 'f sp_clock \<Rightarrow> session
                   \<Rightarrow> 'f sp_clock \<times> (sess_error + unit) \<times> session" where
  "ask enc body now k s = (ask_stamp now k, WriteJSON enc (body now) s)"

definition answered :: "int \<Rightarrow> 'f sp_clock \<Rightarrow> bool \<times> 'f sp_clock" where
  "answered stamp k =
     (if \<not> awaiting k \<or> stamp \<noteq> asked_at k then (False, k) else (True, k\<lparr>awaiting := False\<rparr>))"

record server_time =
  ClientTransmitted :: int
  ServerReceived :: int
  ServerTransmitted :: int

definition onAClock :: "int \<Rightarrow> bool" where
  "onAClock us = (0 \<le> us \<and> us \<le> stampCeiling)"

definition measure_offset :: "server_time \<Rightarrow> int \<Rightarrow> int" where
  "measure_offset st now =
     go_div ((ServerReceived st - ClientTransmitted st) + (ServerTransmitted st - now)) 2"

definition measure_delay :: "server_time \<Rightarrow> int \<Rightarrow> int" where
  "measure_delay st now =
     go_div ((now - ClientTransmitted st) - (ServerTransmitted st - ServerReceived st)) 2"

definition observe :: "('f \<Rightarrow> int \<Rightarrow> int \<Rightarrow> int \<Rightarrow> 'f) \<Rightarrow> string + server_time \<Rightarrow> int \<Rightarrow> 'f sp_clock
                       \<Rightarrow> (string + answer) \<times> 'f sp_clock" where
  "observe update payload now k =
     (case payload of
        Inl e \<Rightarrow> (Inl e, k)
      | Inr st \<Rightarrow>
          (case answered (ClientTransmitted st) k of
             (False, k') \<Rightarrow> (Inr Unasked, k')
           | (True, k') \<Rightarrow>
               (let k1 = k'\<lparr>replied := True\<rparr>
                in if \<not> onAClock (ServerReceived st) \<or> \<not> onAClock (ServerTransmitted st)
                   then (Inr OffClock, k1)
                   else if ServerTransmitted st < ServerReceived st then (Inr Backwards, k1)
                   else if measure_delay st now \<le> 0 then (Inr Spent, k1)
                   else (Inr Measured,
                         k1\<lparr>filt := update (filt k1) (measure_offset st now) (measure_delay st now) now\<rparr>))))"

definition askFast :: duration where "askFast = 200 * millisecond"
definition askBrisk :: duration where "askBrisk = 500 * millisecond"
definition askSteady :: duration where "askSteady = second"
definition askCalm :: duration where "askCalm = 3 * second"
definition briskAbove :: int where "briskAbove = 5000"
definition steadyAbove :: int where "steadyAbove = 2000"
definition calmAbove :: int where "calmAbove = 1000"

definition ask_every :: "bool \<times> int \<Rightarrow> duration" where
  "ask_every st =
     (case st of (converged, spread) \<Rightarrow>
       if \<not> converged \<or> briskAbove \<le> spread then askFast
       else if steadyAbove \<le> spread then askBrisk
       else if calmAbove \<le> spread then askSteady
       else askCalm)"

section \<open>Questions and measurements\<close>

datatype clock_event = Question int | Answer "string + server_time" int

fun clock_step :: "('f \<Rightarrow> int \<Rightarrow> int \<Rightarrow> int \<Rightarrow> 'f) \<Rightarrow> 'f sp_clock \<Rightarrow> clock_event \<Rightarrow> 'f sp_clock \<times> answer list" where
  "clock_step update k (Question now) = (ask_stamp now k, [])"
| "clock_step update k (Answer p now) =
     (case observe update p now k of (r, k') \<Rightarrow> (k', case r of Inl e \<Rightarrow> [] | Inr a \<Rightarrow> [a]))"

definition questions :: "clock_event list \<Rightarrow> nat" where
  "questions es = length (filter (\<lambda>e. case e of Question _ \<Rightarrow> True | _ \<Rightarrow> False) es)"

definition taken :: "answer list \<Rightarrow> nat" where
  "taken as = length (filter (\<lambda>a. a \<noteq> Unasked) as)"

lemma observe_taken:
  "observe update p now k = (r, k') \<Longrightarrow>
     (r = Inr a \<and> a \<noteq> Unasked \<longrightarrow> awaiting k \<and> \<not> awaiting k')
     \<and> (awaiting k' \<longrightarrow> awaiting k)"
  by (auto simp: observe_def answered_def Let_def split: sum.splits if_splits)

lemma clock_run_taken:
  "run_out (clock_step update) k es = (k', as) \<Longrightarrow>
     taken as + (if awaiting k' then 1 else 0) \<le> questions es + (if awaiting k then 1 else 0)"
proof (induction es arbitrary: k as)
  case (Cons e es)
  obtain k1 o1 where 1: "clock_step update k e = (k1, o1)" by fastforce
  obtain o2 where 2: "run_out (clock_step update) k1 es = (k', o2)" "as = o1 @ o2"
    using Cons.prems 1 by (auto split: prod.splits)
  note ih = Cons.IH [OF 2(1)]
  show ?case
  proof (cases e)
    case (Question now)
    then show ?thesis using ih 1 2(2) by (auto simp: ask_stamp_def questions_def taken_def split: if_splits)
  next
    case (Answer p now)
    obtain r where r: "observe update p now k = (r, k1)" "o1 = (case r of Inl e \<Rightarrow> [] | Inr a \<Rightarrow> [a])"
      using 1 Answer by (auto split: prod.splits)
    have "taken o1 + (if awaiting k1 then 1 else 0) \<le> (if awaiting k then 1 else (0::nat))"
    proof (cases r)
      case (Inr a)
      then show ?thesis using observe_taken [OF r(1), of a] r(2) by (auto simp: taken_def)
    qed (use observe_taken [OF r(1)] r(2) in \<open>auto simp: taken_def\<close>)
    then show ?thesis using ih 2(2) Answer by (simp add: taken_def questions_def)
  qed
qed (simp add: taken_def questions_def)

text \<open>
  Each question is answered at most once: however many answers a server sends, those that are not
  turned away as never asked for are no more than the questions put to it.
\<close>

theorem answers_at_most_questions:
  "taken (snd (run_out (clock_step update) (newClock f) es)) \<le> questions es"
proof -
  obtain k' as where r: "run_out (clock_step update) (newClock f) es = (k', as)" by fastforce
  from clock_run_taken [OF r] show ?thesis unfolding r by (simp add: newClock_def split: if_splits)
qed

text \<open>
  A measurement taken from an honest answer is right to within its delay: if the server's clock runs
  \<open>skew\<close> ahead of ours and it received and answered between the question and now, the measured offset is
  within the measured delay of \<open>skew\<close>, give or take the rounding to a microsecond.
\<close>

theorem measurement_error:
  assumes "ClientTransmitted st \<le> t1" "t1 \<le> t2" "t2 \<le> now"
    and "ServerReceived st = t1 + skew" "ServerTransmitted st = t2 + skew"
  shows "\<bar>measure_offset st now - skew\<bar> \<le> measure_delay st now + 1"
proof -
  let ?a = "t1 - ClientTransmitted st" and ?b = "now - t2"
  have off: "measure_offset st now = go_div (2 * skew + (?a - ?b)) 2"
    using assms(4,5) by (simp add: measure_offset_def algebra_simps)
  have del: "measure_delay st now = (?a + ?b) div 2"
    using assms by (simp add: measure_delay_def algebra_simps)
  have ab: "0 \<le> ?a" "0 \<le> ?b" using assms by simp_all
  have "2 * measure_offset st now \<le> 2 * skew + (?a - ?b) + 1" "2 * skew + (?a - ?b) - 1 \<le> 2 * measure_offset st now"
    unfolding off by (cases "0 \<le> 2 * skew + (?a - ?b)"; simp add: go_div_neg; linarith)+
  moreover have "?a + ?b \<le> 2 * measure_delay st now + 1" unfolding del by linarith
  ultimately show ?thesis using ab by linarith
qed

definition demo_server_time :: server_time where
  "demo_server_time = \<lparr>ClientTransmitted = 100, ServerReceived = 1150, ServerTransmitted = 1180\<rparr>"

theorem measurement_error_witness:
  "\<bar>measure_offset demo_server_time 300 - 1000\<bar> \<le> measure_delay demo_server_time 300 + 1"
  by (rule measurement_error [of _ 150 180]) (simp_all add: demo_server_time_def)

end
