(* ===== verification/Sp_Play.thy ===== *)
theory Sp_Play
  imports Sp_Clock
begin

text \<open>
  \<open>internal/sendspin/chunk.go\<close> and \<open>play.go\<close>: audio chunks, the counts kept of them, and the one stream a
  connection holds open in the player. The player's answers are arguments of the operations; the calls
  made on it are their results. A stream is named by the number of the \<open>OpenStream\<close> that gave it.
\<close>

section \<open>Chunks\<close>

definition binaryPlayerFirst :: byte where "binaryPlayerFirst = 4"
definition binaryPlayerLast :: byte where "binaryPlayerLast = 7"
definition binaryAudioChunk :: byte where "binaryAudioChunk = 4"
definition chunkStampBytes :: nat where "chunkStampBytes = 8"
definition frameBytes :: nat where "frameBytes = StreamChannels * StreamBitDepth div 8"

record audio_chunk =
  ServerTime :: int
  PCM :: bytes

definition Frames :: "audio_chunk \<Rightarrow> nat" where
  "Frames c = length (PCM c) div frameBytes"

definition playerBinary :: "byte \<Rightarrow> bool" where
  "playerBinary kind = (binaryPlayerFirst \<le> kind \<and> kind \<le> binaryPlayerLast)"

datatype chunk_error = ChunkShort | ChunkOffClock | ChunkOdd | ChunkFlac flac_error

definition chunkStamp :: "bytes \<Rightarrow> chunk_error + int" where
  "chunkStamp body =
     (if length body < chunkStampBytes then Inl ChunkShort
      else let stamp = sint (get_be (take chunkStampBytes body) :: 64 word)
           in if \<not> onAClock stamp then Inl ChunkOffClock else Inr stamp)"

definition parseChunk :: "bytes \<Rightarrow> chunk_error + audio_chunk" where
  "parseChunk body =
     (case chunkStamp body of
        Inl e \<Rightarrow> Inl e
      | Inr stamp \<Rightarrow>
          (let pcm = drop chunkStampBytes body
           in if length pcm mod frameBytes \<noteq> 0 then Inl ChunkOdd
              else Inr \<lparr>ServerTime = stamp, PCM = pcm\<rparr>))"

definition parseFLACChunk :: "flac_parser \<Rightarrow> bytes \<Rightarrow> int \<Rightarrow> (chunk_error + audio_chunk) option" where
  "parseFLACChunk parse body r =
     (case chunkStamp body of
        Inl e \<Rightarrow> Some (Inl e)
      | Inr stamp \<Rightarrow>
          (case decodeFLAC parse (drop chunkStampBytes body) r of
             None \<Rightarrow> None
           | Some (Inl e) \<Rightarrow> Some (Inl (ChunkFlac e))
           | Some (Inr pcm) \<Rightarrow> Some (Inr \<lparr>ServerTime = stamp, PCM = pcm\<rparr>)))"

text \<open>\<open>Some (Inr None)\<close>: the session is not streaming.\<close>

definition AudioChunk :: "flac_parser \<Rightarrow> session \<Rightarrow> bytes \<Rightarrow> (chunk_error + audio_chunk option) option" where
  "AudioChunk parse s body =
     (if \<not> streaming s then Some (Inr None)
      else map_option (map_sum id Some)
             (if flac s then parseFLACChunk parse body (rate s) else Some (parseChunk body)))"

lemma AudioChunk_returns: "parser_ok parse \<Longrightarrow> \<exists>res. AudioChunk parse s body = Some res"
proof -
  assume "parser_ok parse"
  from decodeFLAC_ends [OF this] obtain d where "decodeFLAC parse (drop chunkStampBytes body) (rate s) = Some d" by blast
  then show ?thesis by (auto simp: AudioChunk_def parseFLACChunk_def split: sum.splits)
qed

lemma parseChunk_stamped:
  assumes "0 \<le> t" "t \<le> stampCeiling" "length pcm mod frameBytes = 0"
  shows "parseChunk (put_be 8 (of_int t :: 64 word) @ pcm) = Inr \<lparr>ServerTime = t, PCM = pcm\<rparr>"
proof -
  have "sint (of_int t :: 64 word) = t"
    using assms(1,2) by (simp add: signed_of_int stampCeiling_def signed_take_bit_int_eq_self)
  then show ?thesis using assms
    by (simp add: parseChunk_def chunkStamp_def chunkStampBytes_def onAClock_def Let_def)
qed

section \<open>The stream\<close>

datatype stream_call = Opened nat int | Resumed nat | Wrote nat time bytes | Cleared nat | Finished nat | Closed nat

record playback =
  has_player :: bool
  stream :: "nat option"
  prate :: int
  opened :: nat
  saidShut :: bool
  saidNoClock :: bool
  saidRefused :: bool

datatype play_note = NoPlayer | WouldNotOpen | NoClockYet | WillNotHold

definition play_stop :: "playback \<Rightarrow> playback \<times> stream_call list" where
  "play_stop p = (case stream p of None \<Rightarrow> (p, []) | Some n \<Rightarrow> (p\<lparr>stream := None\<rparr>, [Closed n]))"

definition say_shut :: "play_note \<Rightarrow> playback \<Rightarrow> playback \<times> play_note list" where
  "say_shut note p = (if saidShut p then (p, []) else (p\<lparr>saidShut := True\<rparr>, [note]))"

text \<open>\<open>resumes\<close> is what \<open>Resume\<close> answers, \<open>opens\<close> whether \<open>OpenStream\<close> succeeds.\<close>

definition play_open :: "int \<Rightarrow> bool \<Rightarrow> bool \<Rightarrow> playback \<Rightarrow> playback \<times> stream_call list \<times> play_note list" where
  "play_open r resumes opens p =
     (let same = (stream p \<noteq> None \<and> prate p = r);
          tried = (case stream p of Some n \<Rightarrow> if same then [Resumed n] else [] | None \<Rightarrow> [])
      in if same \<and> resumes then (p, tried, [])
         else (case play_stop p of (p1, closed) \<Rightarrow>
           if \<not> has_player p1 then (case say_shut NoPlayer p1 of (p2, ns) \<Rightarrow> (p2, tried @ closed, ns))
           else if \<not> opens then (case say_shut WouldNotOpen p1 of (p2, ns) \<Rightarrow> (p2, tried @ closed, ns))
           else (p1\<lparr>stream := Some (opened p1), prate := r, opened := opened p1 + 1\<rparr>,
                 tried @ closed @ [Opened (opened p1) r], [])))"

text \<open>\<open>at\<close> is the local moment of the chunk, when the clock knows it; \<open>held\<close> the output delay.\<close>

definition play_take :: "time option \<Rightarrow> duration \<Rightarrow> bool \<Rightarrow> audio_chunk \<Rightarrow> playback
                         \<Rightarrow> playback \<times> stream_call list \<times> play_note list" where
  "play_take at held accepts c p =
     (case stream p of
        None \<Rightarrow> (p, [], [])
      | Some n \<Rightarrow>
          (case at of
             None \<Rightarrow> if saidNoClock p then (p, [], []) else (p\<lparr>saidNoClock := True\<rparr>, [], [NoClockYet])
           | Some t \<Rightarrow>
               if accepts \<or> saidRefused p then (p, [Wrote n (t - held) (PCM c)], [])
               else (p\<lparr>saidRefused := True\<rparr>, [Wrote n (t - held) (PCM c)], [WillNotHold])))"

definition play_clear :: "playback \<Rightarrow> stream_call list" where
  "play_clear p = (case stream p of None \<Rightarrow> [] | Some n \<Rightarrow> [Cleared n])"

definition play_finish :: "playback \<Rightarrow> stream_call list" where
  "play_finish p = (case stream p of None \<Rightarrow> [] | Some n \<Rightarrow> [Finished n])"

datatype play_event = PlOpen int bool bool | PlTake "time option" duration bool audio_chunk | PlClear
  | PlFinish | PlStop

fun play_step :: "playback \<Rightarrow> play_event \<Rightarrow> playback \<times> stream_call list" where
  "play_step p (PlOpen r resumes opens) = (case play_open r resumes opens p of (p', cs, _) \<Rightarrow> (p', cs))"
| "play_step p (PlTake at held accepts c) = (case play_take at held accepts c p of (p', cs, _) \<Rightarrow> (p', cs))"
| "play_step p PlClear = (p, play_clear p)"
| "play_step p PlFinish = (p, play_finish p)"
| "play_step p PlStop = play_stop p"

text \<open>What the player sees: the stream open after each call, \<open>None\<close> (outermost) when a call breaks the
  rules: one stream at a time, each opened under a new name, no call on a stream that is not open.\<close>

fun see_call :: "nat \<times> nat option \<Rightarrow> stream_call \<Rightarrow> (nat \<times> nat option) option" where
  "see_call (k, None) (Opened n r) = (if n = k then Some (k + 1, Some n) else None)"
| "see_call (k, Some m) (Closed n) = (if n = m then Some (k, None) else None)"
| "see_call (k, Some m) (Resumed n) = (if n = m then Some (k, Some m) else None)"
| "see_call (k, Some m) (Wrote n t b) = (if n = m then Some (k, Some m) else None)"
| "see_call (k, Some m) (Cleared n) = (if n = m then Some (k, Some m) else None)"
| "see_call (k, Some m) (Finished n) = (if n = m then Some (k, Some m) else None)"
| "see_call st _ = None"

fun see_calls :: "nat \<times> nat option \<Rightarrow> stream_call list \<Rightarrow> (nat \<times> nat option) option" where
  "see_calls st [] = Some st"
| "see_calls st (c # cs) = (case see_call st c of None \<Rightarrow> None | Some st' \<Rightarrow> see_calls st' cs)"

lemma see_calls_append:
  "see_calls st (a @ b) = (case see_calls st a of None \<Rightarrow> None | Some st' \<Rightarrow> see_calls st' b)"
  by (induction a arbitrary: st) (auto split: option.splits)

lemma play_step_seen:
  "play_step p e = (p', cs) \<Longrightarrow> see_calls (opened p, stream p) cs = Some (opened p', stream p')"
  by (cases e)
    (auto simp: play_open_def play_take_def play_clear_def play_finish_def play_stop_def say_shut_def Let_def
      split: option.splits if_splits)

text \<open>
  C10. Over any sequence of openings, chunks, clears, endings and stops the player sees one stream at a
  time: each is opened under a new name, every call is on the stream that is open, and once the
  connection has stopped playing every stream it ever opened has been closed.
\<close>

theorem streams_bracketed:
  assumes "run_out play_step p es = (p', cs)" "stream p = None"
  shows "see_calls (opened p, None) cs = Some (opened p', stream p')
    \<and> see_calls (opened p, None) (cs @ snd (play_stop p')) = Some (opened p', None)"
proof -
  have "run_out play_step q es = (p', cs) \<Longrightarrow> see_calls (opened q, stream q) cs = Some (opened p', stream p')" for q es cs
  proof (induction es arbitrary: q cs)
    case (Cons e es)
    obtain q1 c1 where 1: "play_step q e = (q1, c1)" by fastforce
    obtain c2 where 2: "run_out play_step q1 es = (p', c2)" "cs = c1 @ c2"
      using Cons.prems 1 by (auto split: prod.splits)
    show ?case using play_step_seen [OF 1] Cons.IH [OF 2(1)] 2(2) by (simp add: see_calls_append)
  qed simp
  from this [OF assms(1)] assms(2) have "see_calls (opened p, None) cs = Some (opened p', stream p')" by simp
  then show ?thesis by (auto simp: see_calls_append play_stop_def split: option.splits)
qed

definition demo_playback :: playback where
  "demo_playback = \<lparr>has_player = True, stream = None, prate = 0, opened = 0, saidShut = False,
     saidNoClock = False, saidRefused = False\<rparr>"

definition demo_plays :: "play_event list" where
  "demo_plays = [PlOpen 48000 False True, PlTake (Some 9) 2 True \<lparr>ServerTime = 1, PCM = [1, 2, 3, 4]\<rparr>,
     PlOpen 48000 True True, PlOpen 44100 True True]"

theorem streams_bracketed_witness:
  "see_calls (0, None) (snd (run_out play_step demo_playback demo_plays)
      @ snd (play_stop (fst (run_out play_step demo_playback demo_plays)))) = Some (2, None)
   \<and> snd (run_out play_step demo_playback demo_plays) =
       [Opened 0 48000, Wrote 0 7 [1, 2, 3, 4], Resumed 0, Closed 0, Opened 1 44100]"
proof -
  have r: "run_out play_step demo_playback demo_plays =
      (demo_playback\<lparr>stream := Some 1, prate := 44100, opened := 2\<rparr>,
       [Opened 0 48000, Wrote 0 7 [1, 2, 3, 4], Resumed 0, Closed 0, Opened 1 44100])"
    by (simp add: demo_playback_def demo_plays_def play_open_def play_take_def play_stop_def Let_def)
  from streams_bracketed [OF r] show ?thesis using r by (simp add: demo_playback_def)
qed

section \<open>The counts of a stream\<close>

text \<open>
  \<open>chunkRun\<close> as its reports see it: what was taken since the last report, and the clock's offsets. The
  texts of the reports are their numbers, as a record.
\<close>

record chunk_run =
  announced :: bool
  chunks :: nat
  cframes :: nat
  cbytes :: nat
  leastLead :: int
  mostLead :: int
  report_every :: duration
  due :: "time option"
  clockKnown :: bool
  leadKnown :: bool
  cspread :: int
  firstOff :: int
  lastOff :: int
  lastStream :: "nat option"
  lastPlaced :: duration
  lastSilence :: duration

record chunk_report =
  r_chunks :: nat
  r_frames :: nat
  r_bytes :: nat
  r_leads :: "(int \<times> int \<times> int \<times> int) option"
  r_audio :: duration
  r_silence :: duration

definition new_run :: "duration \<Rightarrow> chunk_run" where
  "new_run every = \<lparr>announced = False, chunks = 0, cframes = 0, cbytes = 0, leastLead = 0, mostLead = 0,
     report_every = every, due = None, clockKnown = False, leadKnown = False, cspread = 0, firstOff = 0,
     lastOff = 0, lastStream = None, lastPlaced = 0, lastSilence = 0\<rparr>"

text \<open>\<open>cur\<close> is the playback's stream and \<open>counts\<close> what it has placed.\<close>

definition placedSince :: "nat option \<Rightarrow> duration \<times> duration \<Rightarrow> chunk_run \<Rightarrow> (duration \<times> duration) \<times> chunk_run" where
  "placedSince cur counts r =
     (let r1 = (if cur \<noteq> lastStream r then r\<lparr>lastStream := cur, lastPlaced := 0, lastSilence := 0\<rparr> else r)
      in case counts of (placed, quiet) \<Rightarrow>
        ((placed - lastPlaced r1, quiet - lastSilence r1), r1\<lparr>lastPlaced := placed, lastSilence := quiet\<rparr>))"

text \<open>\<open>known\<close> is the chunk's lead, the clock's spread and its offset.\<close>

definition note_lead :: "(int \<times> int \<times> int) option \<Rightarrow> chunk_run \<Rightarrow> chunk_run" where
  "note_lead known r =
     (case known of
        None \<Rightarrow> r
      | Some (lead, spread, offset) \<Rightarrow>
          (let r1 = (if \<not> clockKnown r then r\<lparr>clockKnown := True, firstOff := offset\<rparr> else r);
               r2 = r1\<lparr>cspread := spread, lastOff := offset\<rparr>;
               r3 = (if \<not> leadKnown r2 \<or> lead < leastLead r2 then r2\<lparr>leastLead := lead\<rparr> else r2);
               r4 = (if \<not> leadKnown r3 \<or> mostLead r3 < lead then r3\<lparr>mostLead := lead\<rparr> else r3)
           in r4\<lparr>leadKnown := True\<rparr>))"

definition run_took :: "(int \<times> int \<times> int) option \<Rightarrow> time \<Rightarrow> audio_chunk \<Rightarrow> chunk_run \<Rightarrow> chunk_run \<times> bool" where
  "run_took known now c r =
     (let r1 = r\<lparr>chunks := chunks r + 1, cframes := cframes r + Frames c, cbytes := cbytes r + length (PCM c)\<rparr>;
          r2 = note_lead known r1;
          r3 = r2\<lparr>announced := True\<rparr>;
          r4 = (if due r3 = None then r3\<lparr>due := Some (now + report_every r3)\<rparr> else r3)
      in (r4, \<not> announced r))"

definition run_report ::
    "nat option \<Rightarrow> duration \<times> duration \<Rightarrow> time \<Rightarrow> chunk_run \<Rightarrow> chunk_run \<times> chunk_report list" where
  "run_report cur counts now r =
     (if chunks r = 0 then (r, [])
      else (case placedSince cur counts r of ((audio, silence), r1) \<Rightarrow>
        ((new_run (report_every r1))\<lparr>announced := announced r1, due := Some (now + report_every r1),
            clockKnown := clockKnown r1, firstOff := lastOff r1, lastOff := lastOff r1,
            lastStream := lastStream r1, lastPlaced := lastPlaced r1, lastSilence := lastSilence r1\<rparr>,
         [\<lparr>r_chunks = chunks r1, r_frames = cframes r1, r_bytes = cbytes r1,
           r_leads = (if leadKnown r1 then Some (leastLead r1, mostLead r1, cspread r1, lastOff r1 - firstOff r1) else None),
           r_audio = audio, r_silence = silence\<rparr>])))"

definition run_tick ::
    "nat option \<Rightarrow> duration \<times> duration \<Rightarrow> time \<Rightarrow> chunk_run \<Rightarrow> chunk_run \<times> chunk_report list" where
  "run_tick cur counts now r =
     (case due r of
        None \<Rightarrow> (r, [])
      | Some d \<Rightarrow> if chunks r = 0 \<or> now < d then (r, []) else run_report cur counts now r)"

definition run_done ::
    "nat option \<Rightarrow> duration \<times> duration \<Rightarrow> time \<Rightarrow> chunk_run \<Rightarrow> chunk_run \<times> chunk_report list" where
  "run_done cur counts now r =
     (case run_report cur counts now r of (r1, reps) \<Rightarrow>
       ((new_run (report_every r1))\<lparr>lastStream := lastStream r1, lastPlaced := lastPlaced r1,
           lastSilence := lastSilence r1\<rparr>, reps))"

datatype run_event = RTook "(int \<times> int \<times> int) option" time audio_chunk
  | RTick "nat option" "duration \<times> duration" time | RReport "nat option" "duration \<times> duration" time
  | RDone "nat option" "duration \<times> duration" time

fun run_step :: "chunk_run \<Rightarrow> run_event \<Rightarrow> chunk_run \<times> chunk_report list" where
  "run_step r (RTook known now c) = (fst (run_took known now c r), [])"
| "run_step r (RTick cur counts now) = run_tick cur counts now r"
| "run_step r (RReport cur counts now) = run_report cur counts now r"
| "run_step r (RDone cur counts now) = run_done cur counts now r"

definition run_inv :: "chunk_run \<Rightarrow> bool" where
  "run_inv r \<longleftrightarrow> (leadKnown r \<longrightarrow> leastLead r \<le> mostLead r) \<and> (chunks r = 0 \<longrightarrow> cframes r = 0 \<and> cbytes r = 0)"

definition report_good :: "chunk_report \<Rightarrow> bool" where
  "report_good rep \<longleftrightarrow> 0 < r_chunks rep \<and> (case r_leads rep of None \<Rightarrow> True | Some (lo, hi, _) \<Rightarrow> lo \<le> hi)"

lemma run_took_fields:
  "chunks (fst (run_took k now c r)) = chunks r + 1" "cframes (fst (run_took k now c r)) = cframes r + Frames c"
  "cbytes (fst (run_took k now c r)) = cbytes r + length (PCM c)"
  by (simp_all add: run_took_def note_lead_def Let_def split: option.splits prod.splits)

lemma run_inv_took: "run_inv r \<Longrightarrow> run_inv (fst (run_took k now c r))"
  by (auto simp: run_inv_def run_took_def note_lead_def Let_def split: option.splits)

lemma run_report_fields:
  "run_report cur counts now r = (r', reps) \<Longrightarrow> run_inv r \<Longrightarrow>
     run_inv r' \<and> list_all report_good reps \<and> chunks r' = 0
     \<and> sum_list (map r_chunks reps) = chunks r \<and> sum_list (map r_frames reps) = cframes r
     \<and> sum_list (map r_bytes reps) = cbytes r"
  by (auto simp: run_report_def run_inv_def report_good_def placedSince_def new_run_def Let_def
      split: prod.splits if_splits)

lemma run_report_keeps:
  "run_inv r \<Longrightarrow> run_inv (fst (run_report cur counts now r)) \<and> list_all report_good (snd (run_report cur counts now r))"
  using run_report_fields [of cur counts now r] by (cases "run_report cur counts now r") simp

lemma run_step_keeps:
  assumes "run_inv r"
  shows "run_inv (fst (run_step r e)) \<and> list_all report_good (snd (run_step r e))"
proof (cases e)
  case (RTook k now c)
  then show ?thesis using run_inv_took [OF assms] by simp
next
  case (RTick cur counts now)
  then show ?thesis using assms run_report_keeps [OF assms, of cur counts now]
    by (simp add: run_tick_def split: option.splits)
next
  case (RReport cur counts now)
  then show ?thesis using run_report_keeps [OF assms, of cur counts now] by simp
next
  case (RDone cur counts now)
  then show ?thesis using run_report_keeps [OF assms, of cur counts now]
    by (cases "run_report cur counts now r") (simp add: run_done_def new_run_def run_inv_def)
qed

interpretation chunk_counts: emitter run_step run_inv report_good
  by unfold_locales (use run_step_keeps in \<open>auto simp: list_all_iff\<close>)

definition took_chunks :: "run_event list \<Rightarrow> nat" where
  "took_chunks es = length (filter (\<lambda>e. case e of RTook _ _ _ \<Rightarrow> True | _ \<Rightarrow> False) es)"

definition took_frames :: "run_event list \<Rightarrow> nat" where
  "took_frames es = sum_list (map (\<lambda>e. case e of RTook _ _ c \<Rightarrow> Frames c | _ \<Rightarrow> 0) es)"

lemma took_Nil [simp]: "took_chunks [] = 0" "took_frames [] = 0"
  by (simp_all add: took_chunks_def took_frames_def)

lemma took_Cons:
  "took_chunks (e # es) = took_chunks [e] + took_chunks es"
  "took_frames (e # es) = took_frames [e] + took_frames es"
  by (simp_all add: took_chunks_def took_frames_def)

lemma run_step_took:
  assumes "run_inv r" "run_step r e = (r', reps)"
  shows "sum_list (map r_chunks reps) + chunks r' = took_chunks [e] + chunks r
    \<and> sum_list (map r_frames reps) + cframes r' = took_frames [e] + cframes r"
proof (cases e)
  case (RTook k now c)
  then show ?thesis using assms(2) run_took_fields by (auto simp: took_chunks_def took_frames_def)
next
  case (RTick cur counts now)
  then show ?thesis using assms run_report_fields [of cur counts now r r' reps]
    by (auto simp: run_tick_def took_chunks_def took_frames_def run_inv_def split: option.splits if_splits)
next
  case (RReport cur counts now)
  then show ?thesis using assms run_report_fields [of cur counts now r r' reps]
    by (auto simp: took_chunks_def took_frames_def run_inv_def)
next
  case (RDone cur counts now)
  obtain r1 where "run_report cur counts now r = (r1, reps)" "chunks r' = 0" "cframes r' = 0"
    using assms(2) RDone by (auto simp: run_done_def new_run_def split: prod.splits)
  then show ?thesis using assms(1) RDone run_report_fields [of cur counts now r r1 reps]
    by (simp add: took_chunks_def took_frames_def)
qed

text \<open>
  The reports account for every chunk: the chunks and frames reported and those still to be reported
  add up to what was taken, whatever reports, ends and clears come between; and no report's least lead
  exceeds its greatest.
\<close>

theorem reports_account_for_chunks:
  "case run_out run_step (new_run every) es of (r', reps) \<Rightarrow>
     sum_list (map r_chunks reps) + chunks r' = took_chunks es
     \<and> sum_list (map r_frames reps) + cframes r' = took_frames es
     \<and> list_all report_good reps"
proof -
  have inv: "run_inv (new_run every)" by (simp add: run_inv_def new_run_def)
  have "run_inv r \<Longrightarrow> run_out run_step r es = (r', reps) \<Longrightarrow>
      sum_list (map r_chunks reps) + chunks r' = took_chunks es + chunks r
      \<and> sum_list (map r_frames reps) + cframes r' = took_frames es + cframes r" for r r' reps
  proof (induction es arbitrary: r reps)
    case (Cons e es)
    obtain r1 o1 where 1: "run_step r e = (r1, o1)" by fastforce
    obtain o2 where 2: "run_out run_step r1 es = (r', o2)" "reps = o1 @ o2"
      using Cons.prems(2) 1 by (auto split: prod.splits)
    have "run_inv r1" using chunk_counts.step_keeps [OF Cons.prems(1), of e] 1 by simp
    from Cons.IH [OF this 2(1)] run_step_took [OF Cons.prems(1) 1] 2(2) show ?case
      unfolding took_Cons [of e es] by simp
  qed simp
  moreover have "x \<in> set (snd (run_out run_step (new_run every) es)) \<Longrightarrow> report_good x" for x
    by (rule chunk_counts.run_good [OF inv])
  moreover obtain r' reps where r: "run_out run_step (new_run every) es = (r', reps)" by fastforce
  ultimately show ?thesis using inv by (fastforce simp: r new_run_def list_all_iff)
qed

end
