(* ===== verification/Sp_Client.thy ===== *)
theory Sp_Client
  imports Sp_Play "HOL-Library.AList"
begin

text \<open>
  \<open>internal/sendspin/client.go\<close>: what the connections share (\<open>sp_client\<close>), the output delay and how it
  is kept on disk, and the loop that serves one connection (\<open>run\<close>). Connections and sessions are named
  by numbers. The values read outside (clocks, the player's answers, the level) are arguments.
\<close>

definition maxConns :: nat where "maxConns = 8"
definition maxNoted :: nat where "maxNoted = 16"
definition provisionalWait :: duration where "provisionalWait = 30 * second"
definition pingAfter :: duration where "pingAfter = 60 * second"
definition idleWait :: duration where "idleWait = pingAfter * 5 div 2"
definition bufferSeconds :: int where "bufferSeconds = 2"
definition BufferCapacityBytes :: int where
  "BufferCapacityBytes = StreamRate * int StreamChannels * int (StreamBitDepth div 8) * bufferSeconds"

record sp_client =
  Config :: sp_config
  HasPlayer :: bool
  MinBufferMS :: int
  BluetoothMinBufferMS :: int
  RequiredLeadMS :: int
  BluetoothLeadMS :: int
  DelayMS :: int
  SavesDelay :: bool
  firstDelay :: bool
  cdelay :: int
  bluetooth :: bool
  toldVolume :: int
  toldMute :: int
  onDisk :: int
  keepWake :: "bool option"
  held :: "nat option"
  heldReady :: bool
  live :: "(nat \<times> nat option) list"
  cclosed :: bool

datatype client_error = ErrBusy | ErrNoRoom | ErrClosed

section \<open>Connections and the one that holds the client\<close>

definition enter :: "nat \<Rightarrow> sp_client \<Rightarrow> (client_error + unit) \<times> sp_client" where
  "enter nc c =
     (if cclosed c then (Inl ErrClosed, c)
      else if maxConns \<le> length (live c) then (Inl ErrNoRoom, c)
      else (Inr (), c\<lparr>live := AList.update nc None (live c)\<rparr>))"

definition track :: "nat \<Rightarrow> nat \<Rightarrow> sp_client \<Rightarrow> sp_client" where
  "track nc s c =
     (if map_of (live c) nc \<noteq> None then c\<lparr>live := AList.update nc (Some s) (live c)\<rparr> else c)"

definition leave :: "nat \<Rightarrow> sp_client \<Rightarrow> sp_client" where
  "leave nc c = c\<lparr>live := AList.delete nc (live c)\<rparr>"

definition conns :: "sp_client \<Rightarrow> nat" where
  "conns c = length (live c)"

text \<open>\<open>Close\<close> refuses later connections; the sessions it says goodbye to.\<close>

definition client_close :: "sp_client \<Rightarrow> sp_client \<times> nat list" where
  "client_close c = (c\<lparr>cclosed := True\<rparr>, concat (map (\<lambda>(nc, s). case s of None \<Rightarrow> [] | Some n \<Rightarrow> [n]) (live c)))"

definition hold :: "nat \<Rightarrow> bool \<Rightarrow> sp_client \<Rightarrow> (client_error + unit) \<times> sp_client" where
  "hold s ready c =
     (if held c \<noteq> None \<and> held c \<noteq> Some s then (Inl ErrBusy, c)
      else (Inr (), c\<lparr>held := Some s, heldReady := ready\<rparr>))"

definition release :: "nat \<Rightarrow> sp_client \<Rightarrow> sp_client" where
  "release s c = (if held c = Some s then c\<lparr>held := None, heldReady := False\<rparr> else c)"

definition holdReady :: "nat \<Rightarrow> bool \<Rightarrow> sp_client \<Rightarrow> sp_client" where
  "holdReady s ready c = (if held c = Some s then c\<lparr>heldReady := ready\<rparr> else c)"

definition reporting :: "sp_client \<Rightarrow> nat option \<times> bool" where
  "reporting c = (held c, heldReady c)"

datatype conn_event = CEnter nat | CTrack nat nat | CLeave nat | CHold nat bool | CRelease nat
  | CReady nat bool | CClose

fun conn_step :: "sp_client \<Rightarrow> conn_event \<Rightarrow> sp_client" where
  "conn_step c (CEnter nc) = snd (enter nc c)"
| "conn_step c (CTrack nc s) = track nc s c"
| "conn_step c (CLeave nc) = leave nc c"
| "conn_step c (CHold s r) = snd (hold s r c)"
| "conn_step c (CRelease s) = release s c"
| "conn_step c (CReady s r) = holdReady s r c"
| "conn_step c CClose = fst (client_close c)"

definition conns_inv :: "sp_client \<Rightarrow> bool" where
  "conns_inv c \<longleftrightarrow> length (live c) \<le> maxConns \<and> distinct (map fst (live c))"

lemma length_update_le: "length (AList.update k v al) \<le> Suc (length al)"
  by (induction al) auto

lemma length_update_in: "map_of al k \<noteq> None \<Longrightarrow> length (AList.update k v al) = length al"
  by (induction al) auto

interpretation client_conns: machine conn_step conns_inv
proof unfold_locales
  fix c e
  assume i: "conns_inv c"
  show "conns_inv (conn_step c e)"
  proof (cases e)
    case (CEnter nc)
    then show ?thesis using i length_update_le [of nc None "live c"]
      by (auto simp: enter_def conns_inv_def distinct_update)
  next
    case (CTrack nc s)
    then show ?thesis using i length_update_in [of "live c" nc "Some s"]
      by (auto simp: track_def conns_inv_def distinct_update)
  next
    case (CLeave nc)
    then show ?thesis using i
      using length_delete_le [of nc "live c"] by (auto simp: leave_def conns_inv_def intro: distinct_delete)
  qed (use i in \<open>auto simp: conns_inv_def hold_def release_def holdReady_def client_close_def\<close>)
qed

text \<open>
  C11. The client is held by one session at a time: once a session holds it, whatever connections come
  and go, no other session's hold succeeds until the holder itself lets go, and there are never more
  than eight connections.
\<close>

theorem hold_exclusive:
  assumes "conns_inv c" "held c = Some s" "CRelease s \<notin> set es" "c' = foldl conn_step c es"
  shows "held c' = Some s \<and> length (live c') \<le> maxConns
    \<and> (\<forall>t ready. fst (hold t ready c') = (if t = s then Inr () else Inl ErrBusy))"
proof -
  have "held d = Some s \<Longrightarrow> CRelease s \<notin> set es \<Longrightarrow> held (foldl conn_step d es) = Some s" for d es
  proof (induction es arbitrary: d)
    case (Cons e es)
    have "held (conn_step d e) = Some s"
      using Cons.prems
      by (cases e) (auto simp: enter_def track_def leave_def hold_def release_def holdReady_def client_close_def)
    then show ?case using Cons by simp
  qed simp
  then have h: "held c' = Some s" using assms(2-4) by simp
  moreover have "conns_inv c'" unfolding assms(4) by (rule client_conns.run_keeps [OF assms(1)])
  ultimately show ?thesis by (auto simp: hold_def conns_inv_def)
qed

definition demo_cfg :: sp_config where
  "demo_cfg = \<lparr>Name = ''dot'', ProductName = '''', Manufacturer = '''', MACAddress = '''',
     UnpairedAccess = True, BufferCapacity = 384000, has_level = True, has_set_volume = True, has_set_mute = True\<rparr>"

definition demo_client :: sp_client where
  "demo_client = \<lparr>Config = demo_cfg, HasPlayer = True, MinBufferMS = 150, BluetoothMinBufferMS = 300,
     RequiredLeadMS = 200, BluetoothLeadMS = 400, DelayMS = 0, SavesDelay = True, firstDelay = False,
     cdelay = 0, bluetooth = False, toldVolume = 0, toldMute = 0, onDisk = 0, keepWake = None,
     held = None, heldReady = False, live = [], cclosed = False\<rparr>"

theorem hold_exclusive_witness:
  "held (foldl conn_step (demo_client\<lparr>held := Some 1\<rparr>) [CEnter 4, CTrack 4 2, CHold 2 True, CRelease 2]) = Some 1"
proof -
  have "conns_inv (demo_client\<lparr>held := Some 1\<rparr>)" by (simp add: demo_client_def conns_inv_def)
  from hold_exclusive [OF this, where s = 1 and es = "[CEnter 4, CTrack 4 2, CHold 2 True, CRelease 2]", OF _ _ refl]
  show ?thesis by (simp del: foldl_Cons)
qed

section \<open>Notes said once\<close>

definition note_first :: "'n \<Rightarrow> 'n list \<Rightarrow> bool \<times> 'n list" where
  "note_first key seen =
     (if key \<in> set seen \<or> maxNoted \<le> length seen then (False, seen) else (True, seen @ [key]))"

lemma note_first_bound: "length seen \<le> maxNoted \<Longrightarrow> length (snd (note_first k seen)) \<le> maxNoted"
  by (simp add: note_first_def)

section \<open>The output delay\<close>

definition takeKeptDelay :: "sp_client \<Rightarrow> sp_client" where
  "takeKeptDelay c = (if firstDelay c then c else c\<lparr>firstDelay := True, cdelay := HoldDelayMS (DelayMS c)\<rparr>)"

definition Delay :: "sp_client \<Rightarrow> int \<times> sp_client" where
  "Delay c = (cdelay (takeKeptDelay c), takeKeptDelay c)"

definition heldDelay :: "sp_client \<Rightarrow> duration \<times> sp_client" where
  "heldDelay c = (cdelay (takeKeptDelay c) * millisecond, takeKeptDelay c)"

definition takeDelay :: "int \<Rightarrow> sp_client \<Rightarrow> bool \<times> sp_client" where
  "takeDelay ms c = (let c1 = takeKeptDelay c in (cdelay c1 \<noteq> ms, c1\<lparr>cdelay := ms\<rparr>))"

text \<open>\<open>keepNow\<close> saves at once; \<open>fails ms\<close> is what \<open>SaveDelay\<close> answers. The saves made are returned.\<close>

definition keepNow :: "(int \<Rightarrow> bool) \<Rightarrow> sp_client \<Rightarrow> sp_client \<times> int list" where
  "keepNow fails c =
     (if \<not> SavesDelay c then (c, [])
      else (case Delay c of (ms, c1) \<Rightarrow>
        if onDisk c1 = ms + 1 then (c1, [])
        else if fails ms then (c1, [ms])
        else (c1\<lparr>onDisk := ms + 1\<rparr>, [ms])))"

definition keep :: "(int \<Rightarrow> bool) \<Rightarrow> sp_client \<Rightarrow> sp_client \<times> int list" where
  "keep fails c = (case keepWake c of None \<Rightarrow> keepNow fails c | Some _ \<Rightarrow> (c\<lparr>keepWake := Some True\<rparr>, []))"

text \<open>The keeper's own state, and \<open>settled\<close>: whether nothing is left to save.\<close>

definition KeepTries :: nat where "KeepTries = 3"

record keeper =
  kept :: int
  unknown :: bool
  attempted :: int
  tries :: nat

definition settled :: "(int \<Rightarrow> bool) \<Rightarrow> keeper \<Rightarrow> sp_client \<Rightarrow> bool \<times> keeper \<times> sp_client \<times> int list" where
  "settled fails k c0 =
     (case Delay c0 of (ms, c) \<Rightarrow>
       if \<not> unknown k \<and> ms = kept k then (True, k, c, [])
       else if onDisk c = ms + 1 then (True, k\<lparr>kept := ms, unknown := False\<rparr>, c, [])
       else (let k1 = (if ms \<noteq> attempted k then k\<lparr>attempted := ms, tries := 0\<rparr> else k)
         in if KeepTries \<le> tries k1 then (True, k1, c, [])
            else if fails ms then (KeepTries \<le> tries k1 + 1, k1\<lparr>tries := tries k1 + 1\<rparr>, c, [ms])
            else (True, k1\<lparr>kept := ms, unknown := False, tries := 0\<rparr>, c\<lparr>onDisk := ms + 1\<rparr>, [ms])))"

definition new_keeper :: "int \<Rightarrow> bool \<Rightarrow> keeper" where
  "new_keeper stored unk = \<lparr>kept = stored, unknown = unk, attempted = stored, tries = 0\<rparr>"

text \<open>The delay the listener starts its keeper with.\<close>

definition stored_delay :: "sp_client \<Rightarrow> int" where
  "stored_delay c = (if 0 < onDisk c then onDisk c - 1 else HoldDelayMS (DelayMS c))"

text \<open>The keeper's loop after a change: it asks \<open>settled\<close> again, a minute apart, until it says yes.
  \<open>fails\<close> holds the answers of the saves still to come.\<close>

fun settle_all :: "bool list \<Rightarrow> keeper \<Rightarrow> sp_client \<Rightarrow> (keeper \<times> sp_client \<times> int list) option" where
  "settle_all [] k c = None"
| "settle_all (f # fs) k c =
     (case settled (\<lambda>_. f) k c of
        (True, k', c', saves) \<Rightarrow> Some (k', c', saves)
      | (False, k', c', saves) \<Rightarrow>
          (case settle_all fs k' c' of None \<Rightarrow> None | Some (k2, c2, later) \<Rightarrow> Some (k2, c2, saves @ later)))"

definition delay_settled :: "keeper \<Rightarrow> sp_client \<Rightarrow> bool" where
  "delay_settled k c \<longleftrightarrow> onDisk c = fst (Delay c) + 1 \<or> (\<not> unknown k \<and> kept k = fst (Delay c))
     \<or> (attempted k = fst (Delay c) \<and> KeepTries \<le> tries k)"

lemma takeKept_idem [simp]: "takeKeptDelay (takeKeptDelay c) = takeKeptDelay c"
  by (simp add: takeKeptDelay_def)

lemma takeKept_onDisk [simp]: "onDisk (takeKeptDelay c) = onDisk c"
  "takeKeptDelay (takeKeptDelay c\<lparr>onDisk := d\<rparr>) = takeKeptDelay c\<lparr>onDisk := d\<rparr>"
  by (simp_all add: takeKeptDelay_def)

lemma settled_cases:
  assumes "settled fails k c = (done', k', c', saves)"
  shows "fst (Delay c') = fst (Delay c)"
    and "set saves \<subseteq> {fst (Delay c)}" "length saves \<le> 1"
    and "saves \<noteq> [] \<Longrightarrow> onDisk c \<noteq> fst (Delay c) + 1 \<and> (unknown k \<or> kept k \<noteq> fst (Delay c))"
    and "done' \<Longrightarrow> delay_settled k' c'"
    and "\<not> done' \<Longrightarrow> attempted k' = fst (Delay c') \<and> 0 < tries k' \<and> tries k' < KeepTries
         \<and> (attempted k = fst (Delay c) \<longrightarrow> tries k' = tries k + 1)"
  using assms
  by (auto simp: settled_def Delay_def delay_settled_def Let_def KeepTries_def split: if_splits)

lemma settle_all_bound:
  "attempted k = fst (Delay c) \<and> tries k + length fs \<ge> KeepTries \<and> tries k < KeepTries \<Longrightarrow>
     \<exists>k' c' saves. settle_all fs k c = Some (k', c', saves) \<and> length saves + tries k \<le> KeepTries
       \<and> delay_settled k' c' \<and> fst (Delay c') = fst (Delay c) \<and> set saves \<subseteq> {fst (Delay c)}"
proof (induction fs arbitrary: k c)
  case (Cons f fs)
  obtain d k1 c1 s1 where s: "settled (\<lambda>_. f) k c = (d, k1, c1, s1)" by (metis prod_cases4)
  note sc = settled_cases [OF s]
  show ?case
  proof (cases d)
    case True
    then have "settle_all (f # fs) k c = Some (k1, c1, s1)" using s by simp
    then show ?thesis using sc(1-3) sc(5) [OF True] Cons.prems by auto
  next
    case False
    then have k1: "attempted k1 = fst (Delay c1)" "tries k1 = tries k + 1" "tries k1 < KeepTries"
      using sc(6) Cons.prems by auto
    then obtain k' c' s2 where 2: "settle_all fs k1 c1 = Some (k', c', s2)" "length s2 + tries k1 \<le> KeepTries"
        "delay_settled k' c'" "fst (Delay c') = fst (Delay c1)" "set s2 \<subseteq> {fst (Delay c1)}"
      using Cons.IH [of k1 c1] Cons.prems by auto
    then show ?thesis using s False sc(1-3) k1 by auto
  qed
qed (auto simp: KeepTries_def)

text \<open>
  C12. The keeper gives a new delay at most three tries: whatever the saves answer it settles within four
  askings, having saved no other value, at most three times, and then the delay is on disk, was there
  already, or was refused three times. A value already on disk is not written again.
\<close>

theorem delay_settles:
  assumes "tries k \<le> KeepTries" "4 \<le> length fs"
  shows "\<exists>k' c' saves. settle_all fs k c = Some (k', c', saves) \<and> length saves \<le> KeepTries
    \<and> set saves \<subseteq> {fst (Delay c)} \<and> delay_settled k' c' \<and> fst (Delay c') = fst (Delay c)
    \<and> (onDisk c = fst (Delay c) + 1 \<longrightarrow> saves = [])"
proof -
  obtain f fs' where fs: "fs = f # fs'" using assms(2) by (cases fs) auto
  obtain d k1 c1 s1 where s: "settled (\<lambda>_. f) k c = (d, k1, c1, s1)" by (metis prod_cases4)
  note sc = settled_cases [OF s]
  show ?thesis
  proof (cases d)
    case True
    then show ?thesis using s fs sc(1-4) sc(5) [OF True] by (auto simp: KeepTries_def)
  next
    case False
    then have k1: "attempted k1 = fst (Delay c1)" "0 < tries k1" "tries k1 < KeepTries" using sc(6) by auto
    then obtain k' c' s2 where 2: "settle_all fs' k1 c1 = Some (k', c', s2)" "length s2 + tries k1 \<le> KeepTries"
        "delay_settled k' c'" "fst (Delay c') = fst (Delay c1)" "set s2 \<subseteq> {fst (Delay c1)}"
      using settle_all_bound [of k1 c1 fs'] assms(2) fs by (auto simp: KeepTries_def)
    have "onDisk c \<noteq> fst (Delay c) + 1"
      using s False by (auto simp: settled_def Delay_def Let_def split: if_splits)
    with 2 s fs False sc(1-3) k1 show ?thesis by (auto simp: KeepTries_def)
  qed
qed

theorem delay_settles_witness:
  "\<exists>k' c' saves. settle_all [True, True, True, False] (new_keeper 0 False) (demo_client\<lparr>DelayMS := 250\<rparr>) = Some (k', c', saves)
     \<and> length saves \<le> KeepTries"
  using delay_settles [of "new_keeper 0 False" "[True, True, True, False]" "demo_client\<lparr>DelayMS := 250\<rparr>"]
  by (fastforce simp: new_keeper_def)

end
