(* ===== verification/Sp_Run.thy ===== *)
theory Sp_Run
  imports Sp_Client
begin

text \<open>
  The loop of \<open>client.go\<close> that serves one connection: \<open>run\<close>. One turn of it takes a message the session
  has read and everything the turn reads outside (\<open>turn_env\<close>), and gives the connection's next state, the
  calls and notes it made, and the error that ends the connection, if any. Notes stand for the log
  lines; \<open>Once\<close> is the note the set of said notes lets through.
\<close>

datatype run_note = BadAudio chunk_error | Reserved byte | NotHandled byte | NoRoleNow | Activated "string list"
  | Group string string | TimeAnswer answer | BadCommand sess_error | VolumeNotOffered | VolumeHeld int int
  | SettingVolume | MuteNotOffered | SettingMute | UnknownCommand | DelayHeld int duration | SettingDelay
  | StateNotHandled string | Ignoring string

datatype play_line = NothingForAPlayer | StreamStarted string | NoRoleForStream | NotPlayable string
  | StreamEnded | StreamCleared | ClockAgreed int

datatype effect = Once run_note | Line play_line | Say play_note | Report chunk_report | Call stream_call
  | DoSetVolume int | DoSetMute bool | SetIdleWait | StartWorkers | TellServer | Reformat | Saved int

datatype run_error = RunSession sess_error | RunEnvelope | RunGroup string | RunTime string
  | HeldNoRole duration | RunBusy client_error

record 'j run_json =
  sj :: "'j sp_json"
  dj_activate :: "'j \<Rightarrow> string + server_activate"
  dj_group :: "'j \<Rightarrow> string + (string \<times> string)"
  dj_time :: "'j \<Rightarrow> string + server_time"
  dj_start :: "'j \<Rightarrow> string + stream_player option"
  dj_roles :: "'j \<Rightarrow> string + string list option"
  dj_command :: "'j \<Rightarrow> command_payload"

text \<open>The state a client declares.\<close>

record client_state =
  st_available :: bool
  st_volume :: "int option"
  st_muted :: "bool option"
  st_delay :: int
  st_lead :: int
  st_buffer :: int

record ('f, 'j) turn_env =
  t_now :: time
  t_us :: int
  t_level :: "(int \<times> bool) option"
  t_resumes :: bool
  t_opens :: bool
  t_accepts :: bool
  t_counts :: "duration \<times> duration"
  t_fails :: "int \<Rightarrow> bool"
  t_enc :: cipher
  t_flac :: flac_parser
  t_json :: "'j run_json"
  t_state :: "client_state \<Rightarrow> bytes"
  t_update :: "'f \<Rightarrow> int \<Rightarrow> int \<Rightarrow> int \<Rightarrow> 'f"
  t_report :: "'f \<Rightarrow> bool \<times> int"
  t_sample :: "'f \<Rightarrow> int \<Rightarrow> (int \<times> int \<times> int) option"
  t_start :: time
  t_allowance :: duration

record 'f link =
  sess :: session
  sid :: nat
  cl :: sp_client
  clk :: "'f sp_clock"
  stated :: bool
  synced :: bool
  available :: bool
  rolelessTimer :: "time option"
  rolelessSince :: "time option"
  rolelessSpent :: duration
  noted :: "run_note list"
  pb :: playback
  heard :: chunk_run
  out :: "effect list"

type_synonym 'f run_result = "run_error option \<times> 'f link"

definition emit_out :: "effect list \<Rightarrow> 'f link \<Rightarrow> 'f link" where
  "emit_out es l = l\<lparr>out := out l @ es\<rparr>"

definition once :: "run_note \<Rightarrow> 'f link \<Rightarrow> 'f link" where
  "once n l =
     (case note_first n (noted l) of (new, seen) \<Rightarrow>
       (if new then emit_out [Once n] else id) (l\<lparr>noted := seen\<rparr>))"

definition play_calls :: "play_event \<Rightarrow> 'f link \<Rightarrow> 'f link" where
  "play_calls e l = (case play_step (pb l) e of (p, cs) \<Rightarrow> emit_out (map Call cs) (l\<lparr>pb := p\<rparr>))"

definition counts_of :: "('f, 'j) turn_env \<Rightarrow> playback \<Rightarrow> duration \<times> duration" where
  "counts_of E p = (case stream p of None \<Rightarrow> (0, 0) | Some n \<Rightarrow> t_counts E)"

definition count_event :: "run_event \<Rightarrow> 'f link \<Rightarrow> 'f link" where
  "count_event e l = (case run_step (heard l) e of (h, reps) \<Rightarrow> emit_out (map Report reps) (l\<lparr>heard := h\<rparr>))"

definition heard_done :: "('f, 'j) turn_env \<Rightarrow> 'f link \<Rightarrow> 'f link" where
  "heard_done E l = count_event (RDone (stream (pb l)) (counts_of E (pb l)) (t_now E)) l"

definition heard_report :: "('f, 'j) turn_env \<Rightarrow> 'f link \<Rightarrow> 'f link" where
  "heard_report E l = count_event (RReport (stream (pb l)) (counts_of E (pb l)) (t_now E)) l"

definition heard_tick :: "('f, 'j) turn_env \<Rightarrow> 'f link \<Rightarrow> 'f link" where
  "heard_tick E l = count_event (RTick (stream (pb l)) (counts_of E (pb l)) (t_now E)) l"

section \<open>Declaring the state\<close>

definition level :: "sp_client \<Rightarrow> (int \<times> bool) option \<Rightarrow> (int \<times> bool) option" where
  "level c lv = (if \<not> has_level (Config c) then None
     else case lv of None \<Rightarrow> None | Some (percent, on) \<Rightarrow> Some (HoldVolume percent, on))"

definition lead :: "sp_client \<Rightarrow> int" where
  "lead c = (if bluetooth c then BluetoothLeadMS c else RequiredLeadMS c)"

definition minBuffer :: "sp_client \<Rightarrow> int" where
  "minBuffer c = (if bluetooth c then BluetoothMinBufferMS c else MinBufferMS c)"

definition mutedAs :: "bool \<Rightarrow> int" where
  "mutedAs on = (if on then 2 else 1)"

definition declared :: "bool \<Rightarrow> (int \<times> bool) option \<Rightarrow> sp_client \<Rightarrow> client_state \<times> sp_client" where
  "declared avail lv c0 =
     (case heldDelay c0 of (d, c) \<Rightarrow>
       let base = \<lparr>st_available = avail, st_volume = None, st_muted = None, st_delay = go_div d millisecond,
                   st_lead = lead c, st_buffer = minBuffer c\<rparr>
       in case level c lv of
            None \<Rightarrow> (base, c)
          | Some (percent, on) \<Rightarrow>
              (base\<lparr>st_volume := (if setsVolume (Config c) then Some percent else None),
                    st_muted := (if setsMute (Config c) then Some on else None)\<rparr>,
               c\<lparr>toldVolume := (if setsVolume (Config c) then percent + 1 else toldVolume c),
                 toldMute := (if setsMute (Config c) then mutedAs on else toldMute c)\<rparr>))"

definition declare_state :: "('f, 'j) turn_env \<Rightarrow> 'f link \<Rightarrow> 'f run_result" where
  "declare_state E l =
     (case declared (available l) (t_level E) (cl l) of (st, c) \<Rightarrow>
       case WriteJSON (t_enc E) (t_state E st) (sess l) of
         (Inl e, s) \<Rightarrow> (Some (RunSession e), l\<lparr>cl := c, sess := s\<rparr>)
       | (Inr u, s) \<Rightarrow> (None, l\<lparr>cl := c, sess := s\<rparr>))"

section \<open>The kinds of message\<close>

text \<open>\<open>When\<close> and \<open>Lead\<close> read the clock's filter.\<close>

definition When :: "('f, 'j) turn_env \<Rightarrow> 'f link \<Rightarrow> int \<Rightarrow> time option" where
  "When E l t = (case t_sample E (filt (clk l)) t of None \<Rightarrow> None
     | Some (client, spread, offset) \<Rightarrow> Some (t_start E + client * microsecond))"

definition Lead :: "('f, 'j) turn_env \<Rightarrow> 'f link \<Rightarrow> int \<Rightarrow> (int \<times> int \<times> int) option" where
  "Lead E l t = (case t_sample E (filt (clk l)) t of None \<Rightarrow> None
     | Some (client, spread, offset) \<Rightarrow> Some (client - t_us E, spread, offset))"

definition on_binary :: "('f, 'j) turn_env \<Rightarrow> byte \<Rightarrow> bytes \<Rightarrow> 'f link \<Rightarrow> 'f run_result" where
  "on_binary E kind body l =
     (if kind = binaryAudioChunk then
        (case AudioChunk (t_flac E) (sess l) body of
           None \<Rightarrow> (None, l)
         | Some (Inl e) \<Rightarrow> (None, once (BadAudio e) l)
         | Some (Inr None) \<Rightarrow> (None, l)
         | Some (Inr (Some c)) \<Rightarrow>
             (let l1 = count_event (RTook (Lead E l (ServerTime c)) (t_now E) c) l;
                  (d, cl1) = heldDelay (cl l1);
                  at = When E l1 (ServerTime c);
                  notes = (case play_take at d (t_accepts E) c (pb l1) of (_, _, ns) \<Rightarrow> ns)
              in (None, emit_out (map Say notes) (play_calls (PlTake at d (t_accepts E) c) (l1\<lparr>cl := cl1\<rparr>)))))
      else if playerBinary kind then (None, once (Reserved kind) l)
      else (None, once (NotHandled kind) l))"

definition play_stop_now :: "'f link \<Rightarrow> 'f link" where
  "play_stop_now l = play_calls PlStop l"

definition lost_roles :: "('f, 'j) turn_env \<Rightarrow> 'f link \<Rightarrow> 'f run_result" where
  "lost_roles E l0 =
     (let l = l0\<lparr>cl := release (sid l0) (cl l0)\<rparr>;
          l1 = (case rolelessSince l of None \<Rightarrow> l\<lparr>rolelessSince := Some (t_now E)\<rparr> | Some _ \<Rightarrow> l);
          left = t_allowance E - rolelessSpent l1
      in if left \<le> 0 then (Some (HeldNoRole (t_allowance E)), l1)
         else (None, once NoRoleNow
                (case rolelessTimer l1 of None \<Rightarrow> l1\<lparr>rolelessTimer := Some (t_now E + left)\<rparr> | Some _ \<Rightarrow> l1)))"

definition spend_roleless :: "('f, 'j) turn_env \<Rightarrow> 'f link \<Rightarrow> 'f link" where
  "spend_roleless E l =
     (case rolelessSince l of
        None \<Rightarrow> l
      | Some t \<Rightarrow> l\<lparr>rolelessSpent := rolelessSpent l + (t_now E - t), rolelessSince := None\<rparr>)\<lparr>rolelessTimer := None\<rparr>"

definition gained_roles :: "('f, 'j) turn_env \<Rightarrow> string list \<Rightarrow> 'f link \<Rightarrow> 'f run_result" where
  "gained_roles E rs l =
     (let regained = (rolelessSince l \<noteq> None)
      in case hold (sid l) (available l) (cl l) of
           (Inl e, c) \<Rightarrow>
             (Some (RunBusy e),
              l\<lparr>sess := snd (SayGoodbye (t_enc E) (sj (t_json E)) ''concurrent_attempt'' (sess l))\<rparr>)
         | (Inr u, c) \<Rightarrow>
             (let l1 = spend_roleless E (l\<lparr>cl := c\<rparr>)
              in if \<not> stated l1 then
                   (case declare_state E (emit_out [SetIdleWait] (l1\<lparr>sess := (sess l1)\<lparr>ws := setIdle idleWait (ws (sess l1))\<rparr>\<rparr>)) of
                      (Some e, l2) \<Rightarrow> (Some e, l2)
                    | (None, l2) \<Rightarrow>
                        (None, once (Activated rs) (emit_out [StartWorkers] (l2\<lparr>stated := True\<rparr>))))
                 else (None, once (Activated rs) (if regained then emit_out [TellServer, Reformat] l1 else l1))))"

definition on_activate :: "('f, 'j) turn_env \<Rightarrow> 'j \<Rightarrow> 'f link \<Rightarrow> 'f run_result" where
  "on_activate E p l =
     (case Activate (t_enc E) (sj (t_json E)) (dj_activate (t_json E) p) (sess l) of
        (Inl e, s) \<Rightarrow> (Some (RunSession e), l\<lparr>sess := s\<rparr>)
      | (Inr rs, s) \<Rightarrow>
          (let l1 = l\<lparr>sess := s\<rparr>;
               l2 = (if \<not> holdsPlayer rs then play_stop_now (heard_done E l1) else l1)
           in if rs = [] then lost_roles E l2 else gained_roles E rs l2))"

definition on_group :: "('f, 'j) turn_env \<Rightarrow> 'j \<Rightarrow> 'f link \<Rightarrow> 'f run_result" where
  "on_group E p l =
     (case dj_group (t_json E) p of
        Inl e \<Rightarrow> (Some (RunGroup e), l)
      | Inr (name, st) \<Rightarrow> (None, once (Group (Cut name) (Cut st)) l))"

definition on_time :: "('f, 'j) turn_env \<Rightarrow> 'j \<Rightarrow> 'f link \<Rightarrow> 'f run_result" where
  "on_time E p l =
     (case observe (t_update E) (dj_time (t_json E) p) (t_us E) (clk l) of
        (Inl e, k) \<Rightarrow> (Some (RunTime e), l\<lparr>clk := k\<rparr>)
      | (Inr a, k) \<Rightarrow>
          (let l1 = l\<lparr>clk := k\<rparr>
           in if a \<noteq> Measured then (None, once (TimeAnswer a) l1)
              else if synced l1 then (None, l1)
              else (case t_report E (filt k) of (converged, spread) \<Rightarrow>
                if \<not> converged then (None, l1)
                else (let av = HasPlayer (cl l1);
                          l2 = l1\<lparr>synced := True, available := av, cl := holdReady (sid l1) av (cl l1)\<rparr>
                      in declare_state E (emit_out [Line (ClockAgreed spread)] l2)))))"

definition on_start :: "('f, 'j) turn_env \<Rightarrow> 'j \<Rightarrow> 'f link \<Rightarrow> 'f run_result" where
  "on_start E p l =
     (case StartStream (dj_start (t_json E) p) (sess l) of
        (Inl e, s) \<Rightarrow> (Some (RunSession e), l\<lparr>sess := s\<rparr>)
      | (Inr None, s) \<Rightarrow> (None, emit_out [Line NothingForAPlayer] (l\<lparr>sess := s\<rparr>))
      | (Inr (Some pl), s) \<Rightarrow>
          (let l1 = heard_done E (l\<lparr>sess := s\<rparr>)
           in if streaming s then
                (let notes = (case play_open (SampleRate pl) (t_resumes E) (t_opens E) (pb l1) of (_, _, ns) \<Rightarrow> ns)
                 in (None, emit_out (map Say notes @ [Line (StreamStarted (player_string pl))])
                       (play_calls (PlOpen (SampleRate pl) (t_resumes E) (t_opens E)) l1)))
              else if \<not> holdsPlayer (roles s) then (None, emit_out [Line NoRoleForStream] l1)
              else (None, emit_out [Line (NotPlayable (player_string pl))] (play_stop_now l1))))"

definition on_end :: "('f, 'j) turn_env \<Rightarrow> 'j \<Rightarrow> 'f link \<Rightarrow> 'f run_result" where
  "on_end E p l =
     (case EndStream (dj_roles (t_json E) p) (sess l) of
        (Inl e, s) \<Rightarrow> (Some (RunSession e), l\<lparr>sess := s\<rparr>)
      | (Inr ours, s) \<Rightarrow>
          (if ours then (None, emit_out [Line StreamEnded] (play_calls PlFinish (heard_done E (l\<lparr>sess := s\<rparr>))))
           else (None, l\<lparr>sess := s\<rparr>)))"

definition on_clear :: "('f, 'j) turn_env \<Rightarrow> 'j \<Rightarrow> 'f link \<Rightarrow> 'f run_result" where
  "on_clear E p l =
     (case ClearStream (dj_roles (t_json E) p) (sess l) of
        Inl e \<Rightarrow> (Some (RunSession e), l)
      | Inr ours \<Rightarrow>
          (if ours then (None, emit_out [Line StreamCleared] (play_calls PlClear (heard_report E l))) else (None, l)))"

definition set_volume :: "int \<Rightarrow> 'f link \<Rightarrow> 'f link" where
  "set_volume percent l =
     (if \<not> setsVolume (Config (cl l)) then once VolumeNotOffered l
      else (let l1 = (if HoldVolume percent \<noteq> percent then once (VolumeHeld percent (HoldVolume percent)) l else l)
            in once SettingVolume (emit_out [DoSetVolume (HoldVolume percent)] l1)))"

definition set_mute :: "bool \<Rightarrow> 'f link \<Rightarrow> 'f link" where
  "set_mute on l =
     (if \<not> setsMute (Config (cl l)) then once MuteNotOffered l
      else once SettingMute (emit_out [DoSetMute on] l))"

definition set_delay :: "('f, 'j) turn_env \<Rightarrow> duration \<times> int \<Rightarrow> 'f link \<Rightarrow> 'f run_result" where
  "set_delay E wa l =
     (case wa of (want, asked) \<Rightarrow>
       let ms = go_div want millisecond;
           l1 = (if asked \<noteq> ms then once (DelayHeld asked want) l else l)
       in case takeDelay ms (cl l1) of (changed, c) \<Rightarrow>
            if \<not> changed then (None, l1\<lparr>cl := c\<rparr>)
            else (case keep (t_fails E) c of (c1, saves) \<Rightarrow>
              declare_state E (once SettingDelay (emit_out (map Saved saves) (l1\<lparr>cl := c1\<rparr>)))))"

definition on_command :: "('f, 'j) turn_env \<Rightarrow> 'j \<Rightarrow> 'f link \<Rightarrow> 'f run_result" where
  "on_command E p l =
     (let cmd = dj_command (t_json E) p
      in case Volume_cmd cmd (sess l) of
           Inl e \<Rightarrow> (None, once (BadCommand e) l)
         | Inr (Some percent) \<Rightarrow> (None, set_volume percent l)
         | Inr None \<Rightarrow>
             (case Mute_cmd cmd (sess l) of
                Inl e \<Rightarrow> (None, once (BadCommand e) l)
              | Inr (Some on) \<Rightarrow> (None, set_mute on l)
              | Inr None \<Rightarrow>
                  (case StaticDelay cmd (sess l) of
                     Inl e \<Rightarrow> (None, once (BadCommand e) l)
                   | Inr None \<Rightarrow> (None, once UnknownCommand l)
                   | Inr (Some wa) \<Rightarrow> set_delay E wa l)))"

definition on_json :: "('f, 'j) turn_env \<Rightarrow> string \<Rightarrow> 'j \<Rightarrow> 'f link \<Rightarrow> 'f run_result" where
  "on_json E kind p l =
     (if kind = ''server/activate'' then on_activate E p l
      else if kind = ''group/update'' then on_group E p l
      else if kind = ''server/time'' then on_time E p l
      else if kind = ''stream/start'' then on_start E p l
      else if kind = ''stream/end'' then on_end E p l
      else if kind = ''stream/clear'' then on_clear E p l
      else if kind = ''server/command'' then on_command E p l
      else if kind = ''server/state'' then (None, once (StateNotHandled (Cut kind)) l)
      else (None, once (Ignoring (Cut kind)) l))"

text \<open>A turn: the message is one the session's \<open>Read\<close> returned.\<close>

definition run_turn :: "('f, 'j) turn_env \<Rightarrow> byte \<times> bytes \<Rightarrow> 'f link \<Rightarrow> 'f run_result" where
  "run_turn E msg l0 =
     (case msg of (kind, body) \<Rightarrow>
       let l = heard_tick E l0
       in if kind \<noteq> msgJSON then on_binary E kind body l
          else (case j_env (sj (t_json E)) body of
              None \<Rightarrow> (Some RunEnvelope, l)
            | Some (k, p) \<Rightarrow> on_json E k p l))"

text \<open>What runs when the loop ends: the deferred calls, in their order, and the release.\<close>

definition run_end :: "('f, 'j) turn_env \<Rightarrow> 'f link \<Rightarrow> 'f link" where
  "run_end E l =
     (let l1 = play_stop_now (heard_done E l)
      in l1\<lparr>rolelessTimer := None, cl := release (sid l1) (cl l1)\<rparr>)"

section \<open>What a connection keeps\<close>

definition calls :: "effect list \<Rightarrow> stream_call list" where
  "calls es = concat (map (\<lambda>e. case e of Call c \<Rightarrow> [c] | _ \<Rightarrow> []) es)"

lemma calls_simps [simp]:
  "calls [] = []" "calls (a @ b) = calls a @ calls b" "calls (map Call cs) = cs"
  "calls (map Say ns) = []" "calls (map Report rs) = []" "calls (map Saved ms) = []"
  by (simp_all add: calls_def comp_def)

lemma calls_Cons [simp]:
  "calls (Once n # es) = calls es" "calls (Line x # es) = calls es" "calls (SetIdleWait # es) = calls es"
  "calls (StartWorkers # es) = calls es" "calls (TellServer # es) = calls es" "calls (Reformat # es) = calls es"
  "calls (DoSetVolume v # es) = calls es" "calls (DoSetMute b # es) = calls es"
  by (simp_all add: calls_def)

definition link_inv :: "duration \<Rightarrow> 'f link \<Rightarrow> bool" where
  "link_inv A l \<longleftrightarrow>
     sess_inv (sess l)
     \<and> (roles (sess l) \<noteq> [] \<longrightarrow> held (cl l) = Some (sid l))
     \<and> (stream (pb l) \<noteq> None \<longrightarrow> holdsPlayer (roles (sess l)))
     \<and> see_calls (0, None) (calls (out l)) = Some (opened (pb l), stream (pb l))
     \<and> rolelessTimer l = map_option (\<lambda>t. t + (A - rolelessSpent l)) (rolelessSince l)
     \<and> length (noted l) \<le> maxNoted \<and> run_inv (heard l)"

lemma link_inv_emit [simp]: "calls es = [] \<Longrightarrow> link_inv A (emit_out es l) = link_inv A l"
  by (simp add: link_inv_def emit_out_def)

lemma emit_out_fields [simp]:
  "sess (emit_out es l) = sess l" "cl (emit_out es l) = cl l" "sid (emit_out es l) = sid l"
  "pb (emit_out es l) = pb l" "rolelessSince (emit_out es l) = rolelessSince l"
  by (simp_all add: emit_out_def)

lemma once_fields [simp]:
  "sess (once n l) = sess l" "cl (once n l) = cl l" "sid (once n l) = sid l"
  "pb (once n l) = pb l" "rolelessSince (once n l) = rolelessSince l"
  by (simp_all add: once_def split: prod.splits)

lemma link_inv_once: "link_inv A l \<Longrightarrow> link_inv A (once n l)"
  using note_first_bound [of "noted l" n]
  by (auto simp: once_def link_inv_def emit_out_def split: prod.splits)

lemma count_event_fields [simp]:
  "sess (count_event e l) = sess l" "cl (count_event e l) = cl l" "sid (count_event e l) = sid l"
  "pb (count_event e l) = pb l" "rolelessSince (count_event e l) = rolelessSince l"
  by (simp_all add: count_event_def split: prod.splits)

lemma link_inv_count: "link_inv A l \<Longrightarrow> link_inv A (count_event e l)"
  using chunk_counts.step_keeps [of "heard l" e]
  by (auto simp: count_event_def link_inv_def emit_out_def split: prod.splits)

lemma link_inv_sess:
  "link_inv A l \<Longrightarrow> sess_inv s \<Longrightarrow> roles s = roles (sess l) \<Longrightarrow> link_inv A (l\<lparr>sess := s\<rparr>)"
  by (simp add: link_inv_def)

lemma link_inv_cl:
  "link_inv A l \<Longrightarrow> held c = held (cl l) \<Longrightarrow> link_inv A (l\<lparr>cl := c\<rparr>)"
  by (simp add: link_inv_def)

lemma play_calls_fields [simp]:
  "sess (play_calls e l) = sess l" "cl (play_calls e l) = cl l" "sid (play_calls e l) = sid l"
  "rolelessSince (play_calls e l) = rolelessSince l"
  by (simp_all add: play_calls_def split: prod.splits)

text \<open>Calls on the player keep the account of what is open, when the player may be open at all.\<close>

lemma play_calls_seen:
  assumes "see_calls (0, None) (calls (out l)) = Some (opened (pb l), stream (pb l))"
  shows "see_calls (0, None) (calls (out (play_calls e l)))
    = Some (opened (pb (play_calls e l)), stream (pb (play_calls e l)))"
proof -
  obtain p cs where "play_step (pb l) e = (p, cs)" by fastforce
  with play_step_seen [OF this] assms show ?thesis
    by (simp add: play_calls_def emit_out_def see_calls_append)
qed

lemma play_step_opens:
  "play_step p e = (p', cs) \<Longrightarrow> stream p' \<noteq> None \<Longrightarrow> stream p \<noteq> None \<or> (\<exists>r a b. e = PlOpen r a b)"
  by (cases e) (auto simp: play_take_def play_stop_def split: option.splits if_splits)

lemma link_inv_play:
  assumes "link_inv A l" "(\<exists>r a b. e = PlOpen r a b) \<longrightarrow> holdsPlayer (roles (sess l))"
  shows "link_inv A (play_calls e l)"
proof -
  obtain p cs where p: "play_step (pb l) e = (p, cs)" by fastforce
  then have "stream p \<noteq> None \<longrightarrow> holdsPlayer (roles (sess l))"
    using play_step_opens assms by (metis link_inv_def)
  with play_calls_seen [of l e] assms(1) p show ?thesis
    by (simp add: link_inv_def play_calls_def emit_out_def)
qed

lemma stream_stopped: "stream (pb (play_calls PlStop l)) = None"
  by (simp add: play_calls_def play_stop_def emit_out_def split: option.splits prod.splits)

lemma WriteJSON_sess_inv: "sess_inv s \<Longrightarrow> WriteJSON enc b s = (r, s') \<Longrightarrow> sess_inv s' \<and> roles s' = roles s"
  using WriteJSON_keeps [of enc b s] sess_inv_same [of s s'] by simp

lemma held_declared: "held (snd (declared a lv c)) = held c"
  by (simp add: declared_def heldDelay_def takeKeptDelay_def Let_def split: option.splits prod.splits)

lemma declare_state_fields:
  "declare_state E l = (r, l') \<Longrightarrow>
     l' = l\<lparr>cl := cl l', sess := sess l'\<rparr> \<and> held (cl l') = held (cl l) \<and> roles (sess l') = roles (sess l)
     \<and> (sess_inv (sess l) \<longrightarrow> sess_inv (sess l'))"
proof -
  assume d: "declare_state E l = (r, l')"
  obtain st c where 1: "declared (available l) (t_level E) (cl l) = (st, c)" by fastforce
  obtain x s where 2: "WriteJSON (t_enc E) (t_state E st) (sess l) = (x, s)" by fastforce
  have "l' = l\<lparr>cl := c, sess := s\<rparr>" using d 1 2 by (auto simp: declare_state_def split: sum.splits)
  moreover have "held c = held (cl l)" using held_declared [of "available l" "t_level E" "cl l"] 1 by simp
  moreover have "roles s = roles (sess l)" "sess_inv (sess l) \<longrightarrow> sess_inv s"
    using WriteJSON_keeps [of "t_enc E" "t_state E st" "sess l"] WriteJSON_sess_inv [OF _ 2] 2 by simp_all
  ultimately show ?thesis by simp
qed

lemma link_inv_declare: "link_inv A l \<Longrightarrow> declare_state E l = (r, l') \<Longrightarrow> link_inv A l'"
proof -
  assume i: "link_inv A l" and "declare_state E l = (r, l')"
  then have f: "l' = l\<lparr>cl := cl l', sess := sess l'\<rparr>" "held (cl l') = held (cl l)" "roles (sess l') = roles (sess l)"
      "sess_inv (sess l')"
    using declare_state_fields [of E l r l'] by (auto simp: link_inv_def)
  show "link_inv A l'" using i f(2-4) by (subst f(1)) (simp add: link_inv_def)
qed

lemmas link_steps = link_inv_once link_inv_count link_inv_play link_inv_sess link_inv_cl

section \<open>Every turn keeps it\<close>

lemma heard_steps [simp]:
  "sess (heard_done E l) = sess l" "cl (heard_done E l) = cl l" "sid (heard_done E l) = sid l"
  "pb (heard_done E l) = pb l" "rolelessSince (heard_done E l) = rolelessSince l"
  "sess (heard_report E l) = sess l" "sess (heard_tick E l) = sess l" "pb (heard_tick E l) = pb l"
  "cl (heard_tick E l) = cl l" "sid (heard_tick E l) = sid l" "rolelessSince (heard_tick E l) = rolelessSince l"
  by (simp_all add: heard_done_def heard_report_def heard_tick_def)

lemma link_inv_heard: "link_inv A l \<Longrightarrow> link_inv A (heard_done E l)"
  "link_inv A l \<Longrightarrow> link_inv A (heard_report E l)" "link_inv A l \<Longrightarrow> link_inv A (heard_tick E l)"
  by (simp_all add: heard_done_def heard_report_def heard_tick_def link_inv_count)

lemma on_binary_inv: "link_inv A l \<Longrightarrow> on_binary E kind body l = (r, l') \<Longrightarrow> link_inv A l'"
proof -
  have "held (snd (heldDelay c)) = held c" for c by (simp add: heldDelay_def takeKeptDelay_def)
  then have h: "heldDelay c = (d, c') \<Longrightarrow> held c' = held c" for c d c' by (metis snd_conv)
  show "link_inv A l \<Longrightarrow> on_binary E kind body l = (r, l') \<Longrightarrow> link_inv A l'"
    by (auto simp: on_binary_def Let_def intro!: link_steps dest!: h
        split: if_splits option.splits sum.splits prod.splits)
qed

lemma StartStream_roles: "StartStream p s = (r, s') \<Longrightarrow> roles s' = roles s \<and> (sess_inv s \<longrightarrow> sess_inv s')
    \<and> (streaming s' \<and> r = Inr (Some pl) \<longrightarrow> holdsPlayer (roles s'))"
  by (auto simp: StartStream_def sess_inv_def playable_def split: sum.splits option.splits if_splits)

lemma EndStream_roles: "EndStream p s = (r, s') \<Longrightarrow> roles s' = roles s \<and> (sess_inv s \<longrightarrow> sess_inv s')"
  by (auto simp: EndStream_def sess_inv_def split: sum.splits if_splits)

lemma link_inv_sess_inv: "link_inv A l \<Longrightarrow> sess_inv (sess l)"
  by (simp add: link_inv_def)

lemma on_start_inv:
  assumes "link_inv A l" "on_start E p l = (r, l')"
  shows "link_inv A l'"
proof -
  obtain x s where s: "StartStream (dj_start (t_json E) p) (sess l) = (x, s)" by fastforce
  note f = StartStream_roles [OF s]
  have ls: "link_inv A (l\<lparr>sess := s\<rparr>)"
    using f assms(1) link_inv_sess_inv [OF assms(1)] by (intro link_inv_sess) auto
  show ?thesis
  proof (cases "\<exists>pl. x = Inr (Some pl)")
    case True
    then obtain pl where x: "x = Inr (Some pl)" by blast
    have h: "streaming s \<longrightarrow> holdsPlayer (roles s)" using StartStream_roles [OF s, of pl] x by blast
    show ?thesis
      using assms(2) s x ls h
      by (auto simp: on_start_def Let_def play_stop_now_def split: if_splits
          intro!: link_inv_play link_inv_heard)
  next
    case False
    then show ?thesis using assms(2) s ls
      by (auto simp: on_start_def split: sum.splits option.splits)
  qed
qed

lemma on_end_inv:
  assumes "link_inv A l" "on_end E p l = (r, l')"
  shows "link_inv A l'"
proof -
  obtain x s where s: "EndStream (dj_roles (t_json E) p) (sess l) = (x, s)" by fastforce
  have ls: "link_inv A (l\<lparr>sess := s\<rparr>)"
    using EndStream_roles [OF s] assms(1) link_inv_sess_inv [OF assms(1)] by (intro link_inv_sess) auto
  then show ?thesis using assms(2) s
    by (auto simp: on_end_def split: sum.splits if_splits intro!: link_inv_play link_inv_heard)
qed

lemma on_clear_inv: "link_inv A l \<Longrightarrow> on_clear E p l = (r, l') \<Longrightarrow> link_inv A l'"
  by (auto simp: on_clear_def split: sum.splits if_splits intro!: link_inv_play link_inv_heard)

lemma on_group_inv: "link_inv A l \<Longrightarrow> on_group E p l = (r, l') \<Longrightarrow> link_inv A l'"
  by (auto simp: on_group_def split: sum.splits prod.splits intro!: link_inv_once)

lemma on_time_inv:
  assumes "link_inv A l" "on_time E p l = (r, l')"
  shows "link_inv A l'"
proof -
  obtain x k where o': "observe (t_update E) (dj_time (t_json E) p) (t_us E) (clk l) = (x, k)" by fastforce
  obtain conv spread where f: "t_report E (filt k) = (conv, spread)" by fastforce
  have lk: "link_inv A (l\<lparr>clk := k\<rparr>)" using assms(1) by (simp add: link_inv_def)
  let ?l2 = "l\<lparr>clk := k, synced := True, available := HasPlayer (cl l),
      cl := holdReady (sid l) (HasPlayer (cl l)) (cl l)\<rparr>"
  have "link_inv A ?l2" using assms(1) by (simp add: link_inv_def holdReady_def)
  then have l2: "link_inv A (emit_out [Line (ClockAgreed spread)] ?l2)" by (subst link_inv_emit) simp_all
  show ?thesis
  proof (cases "x = Inr Measured \<and> \<not> synced l \<and> conv")
    case True
    then have "declare_state E (emit_out [Line (ClockAgreed spread)] ?l2) = (r, l')"
      using assms(2) o' f by (simp add: on_time_def Let_def)
    then show ?thesis by (rule link_inv_declare [OF l2])
  next
    case False
    then show ?thesis using assms(2) o' f lk
      by (auto simp: on_time_def Let_def split: sum.splits if_splits intro!: link_inv_once)
  qed
qed

lemma set_delay_inv:
  assumes "link_inv A l" "set_delay E wa l = (r, l')"
  shows "link_inv A l'"
proof -
  obtain want asked where wa: "wa = (want, asked)" by (cases wa)
  let ?ms = "go_div want millisecond"
  let ?l1 = "if asked \<noteq> ?ms then once (DelayHeld asked want) l else l"
  have l1: "link_inv A ?l1" using assms(1) link_inv_once [OF assms(1)] by simp
  obtain ch c where t: "takeDelay ?ms (cl ?l1) = (ch, c)" by fastforce
  obtain c1 saves where k: "keep (t_fails E) c = (c1, saves)" by fastforce
  have hc: "held c = held (cl ?l1)" using t by (auto simp: takeDelay_def takeKeptDelay_def Let_def)
  have hc1: "held c1 = held c"
    using k by (auto simp: keep_def keepNow_def Delay_def takeKeptDelay_def split: option.splits if_splits)
  have i: "link_inv A (?l1\<lparr>cl := c\<rparr>)" by (rule link_inv_cl [OF l1 hc])
  have i1: "link_inv A (once SettingDelay (emit_out (map Saved saves) (?l1\<lparr>cl := c1\<rparr>)))"
    using link_inv_cl [OF l1, of c1] hc hc1 by (intro link_inv_once) simp
  show ?thesis
    using assms(2) i link_inv_declare [OF i1] t k
    by (auto simp: set_delay_def wa Let_def split: if_splits)
qed

lemma on_command_inv: "link_inv A l \<Longrightarrow> on_command E p l = (r, l') \<Longrightarrow> link_inv A l'"
  by (auto simp: on_command_def Let_def set_volume_def set_mute_def split: sum.splits option.splits if_splits
      intro!: link_inv_once dest: set_delay_inv)

definition arm_roleless :: "('f, 'j) turn_env \<Rightarrow> 'f link \<Rightarrow> 'f link" where
  "arm_roleless E l =
     (let l1 = (case rolelessSince l of None \<Rightarrow> l\<lparr>rolelessSince := Some (t_now E)\<rparr> | Some _ \<Rightarrow> l)
      in case rolelessTimer l1 of None \<Rightarrow> l1\<lparr>rolelessTimer := Some (t_now E + (t_allowance E - rolelessSpent l1))\<rparr>
         | Some _ \<Rightarrow> l1)"

lemma lost_roles_goes_on:
  "lost_roles E l = (None, l') \<Longrightarrow>
     l' = once NoRoleNow (arm_roleless E (l\<lparr>cl := release (sid l) (cl l)\<rparr>))
     \<and> rolelessSpent l < t_allowance E"
  by (auto simp: lost_roles_def arm_roleless_def Let_def split: option.splits if_splits)

lemma arm_roleless_inv:
  assumes "link_inv A l" "t_allowance E = A" "rolelessSpent l < A"
  shows "link_inv A (arm_roleless E l)"
proof (cases "rolelessSince l")
  case None
  then have "rolelessTimer l = None" using assms(1) by (simp add: link_inv_def)
  then have "arm_roleless E l = l\<lparr>rolelessSince := Some (t_now E),
      rolelessTimer := Some (t_now E + (A - rolelessSpent l))\<rparr>"
    using None assms(2) by (simp add: arm_roleless_def)
  then show ?thesis using assms(1) by (simp add: link_inv_def)
next
  case (Some t)
  then have "rolelessTimer l = Some (t + (A - rolelessSpent l))" using assms(1) by (simp add: link_inv_def)
  then have "arm_roleless E l = l" using Some by (simp add: arm_roleless_def)
  then show ?thesis using assms(1) by simp
qed

lemma lost_roles_inv:
  assumes "link_inv A l" "roles (sess l) = []" "t_allowance E = A" "lost_roles E l = (None, l')"
  shows "link_inv A l'"
proof -
  have "link_inv A (l\<lparr>cl := release (sid l) (cl l)\<rparr>)"
    using assms(1,2) by (simp add: link_inv_def)
  then show ?thesis
    using lost_roles_goes_on [OF assms(4)] assms(3)
    by (auto intro!: link_inv_once arm_roleless_inv)
qed

lemma spend_roleless_fields [simp]:
  "sess (spend_roleless E l) = sess l" "cl (spend_roleless E l) = cl l" "sid (spend_roleless E l) = sid l"
  "pb (spend_roleless E l) = pb l" "rolelessSince (spend_roleless E l) = None"
  by (simp_all add: spend_roleless_def split: option.splits)

lemma spend_roleless_inv: "link_inv A l \<Longrightarrow> link_inv A (spend_roleless E l)"
  by (simp add: spend_roleless_def link_inv_def split: option.splits)

lemma gained_roles_inv:
  assumes "sess_inv (sess l)" "stream (pb l) \<noteq> None \<longrightarrow> holdsPlayer (roles (sess l))"
    and "link_inv A (l\<lparr>cl := (cl l)\<lparr>held := Some (sid l)\<rparr>\<rparr>)" "gained_roles E rs l = (None, l')"
  shows "link_inv A l'"
proof -
  obtain u c where h: "hold (sid l) (available l) (cl l) = (Inr u, c)"
    using assms(4) by (auto simp: gained_roles_def Let_def split: prod.splits sum.splits)
  then have c: "held c = Some (sid l)" by (auto simp: hold_def split: if_splits)
  have lc: "link_inv A (l\<lparr>cl := c\<rparr>)" using assms(3) c by (simp add: link_inv_def)
  let ?l1 = "spend_roleless E (l\<lparr>cl := c\<rparr>)"
  have l1: "link_inv A ?l1" by (rule spend_roleless_inv [OF lc])
  show ?thesis
  proof (cases "stated ?l1")
    case True
    then show ?thesis using assms(4) h l1
      by (auto simp: gained_roles_def Let_def split: if_splits intro!: link_inv_once)
  next
    case False
    let ?s = "(sess ?l1)\<lparr>ws := setIdle idleWait (ws (sess ?l1))\<rparr>"
    have "sess_inv ?s" using link_inv_sess_inv [OF l1] by (simp add: sess_inv_def)
    then have "link_inv A (?l1\<lparr>sess := ?s\<rparr>)" by (intro link_inv_sess [OF l1]) simp_all
    then have l2: "link_inv A (emit_out [SetIdleWait] (?l1\<lparr>sess := ?s\<rparr>))" by (subst link_inv_emit) simp_all
    obtain r l3 where d: "declare_state E (emit_out [SetIdleWait] (?l1\<lparr>sess := ?s\<rparr>)) = (r, l3)" by fastforce
    have l3: "link_inv A (l3\<lparr>stated := True\<rparr>)"
      using link_inv_declare [OF l2 d] by (simp add: link_inv_def)
    have "l' = once (Activated rs) (emit_out [StartWorkers] (l3\<lparr>stated := True\<rparr>))"
      using assms(4) h False d by (auto simp: gained_roles_def Let_def split: option.splits)
    moreover have "link_inv A (emit_out [StartWorkers] (l3\<lparr>stated := True\<rparr>))"
      using l3 by (subst link_inv_emit) simp_all
    ultimately show ?thesis using link_inv_once by blast
  qed
qed

text \<open>The part of it that does not look at the roles.\<close>

definition link_core :: "duration \<Rightarrow> 'f link \<Rightarrow> bool" where
  "link_core A l \<longleftrightarrow>
     sess_inv (sess l)
     \<and> see_calls (0, None) (calls (out l)) = Some (opened (pb l), stream (pb l))
     \<and> rolelessTimer l = map_option (\<lambda>t. t + (A - rolelessSpent l)) (rolelessSince l)
     \<and> length (noted l) \<le> maxNoted \<and> run_inv (heard l)"

lemma link_inv_core:
  "link_inv A l \<longleftrightarrow> link_core A l \<and> (roles (sess l) \<noteq> [] \<longrightarrow> held (cl l) = Some (sid l))
     \<and> (stream (pb l) \<noteq> None \<longrightarrow> holdsPlayer (roles (sess l)))"
  by (auto simp: link_inv_def link_core_def)

lemma link_core_count: "link_core A l \<Longrightarrow> link_core A (count_event e l)"
  using chunk_counts.step_keeps [of "heard l" e]
  by (auto simp: count_event_def link_core_def emit_out_def split: prod.splits)

lemma link_core_play: "link_core A l \<Longrightarrow> link_core A (play_calls e l)"
  using play_calls_seen [of l e]
  by (auto simp: play_calls_def link_core_def emit_out_def split: prod.splits)

lemma Activate_roles:
  "Activate enc J p s = (Inr rs, s') \<Longrightarrow> rs = roles s'"
  by (auto simp: Activate_def Let_def split: sum.splits if_splits prod.splits)

lemma on_activate_inv:
  assumes "link_inv A l" "t_allowance E = A" "on_activate E p l = (None, l')"
  shows "link_inv A l'"
proof -
  let ?act = "Activate (t_enc E) (sj (t_json E)) (dj_activate (t_json E) p) (sess l)"
  obtain rs s where a: "?act = (Inr rs, s)"
    using assms(3) by (auto simp: on_activate_def split: prod.splits sum.splits)
  have rs: "rs = roles s" by (rule Activate_roles [OF a])
  have s: "sess_inv s"
    using Activate_inv [OF link_inv_sess_inv [OF assms(1)], of "t_enc E" "sj (t_json E)" "dj_activate (t_json E) p"] a
    by simp
  define l1 where "l1 = l\<lparr>sess := s\<rparr>"
  define l2 where "l2 = (if \<not> holdsPlayer rs then play_stop_now (heard_done E l1) else l1)"
  have res: "(if rs = [] then lost_roles E l2 else gained_roles E rs l2) = (None, l')"
    using assms(3) unfolding on_activate_def a prod.case sum.case Let_def l1_def l2_def .
  have "link_core A l1" using assms(1) s by (simp add: link_inv_core link_core_def l1_def)
  then have core: "link_core A l2"
    by (simp add: l2_def play_stop_now_def heard_done_def link_core_count link_core_play)
  have fields: "sess l2 = s" "sid l2 = sid l" "cl l2 = cl l"
    by (simp_all add: l2_def l1_def play_stop_now_def)
  have str: "stream (pb l2) \<noteq> None \<longrightarrow> holdsPlayer (roles (sess l2))"
    using stream_stopped [of "heard_done E l1"] fields(1) rs by (simp add: l2_def play_stop_now_def)
  show ?thesis
  proof (cases "rs = []")
    case True
    have "link_inv A l2" using core str True rs fields by (simp add: link_inv_core)
    then show ?thesis using res True lost_roles_inv [of A l2 E l'] assms(2) fields rs by simp
  next
    case False
    have "link_inv A (l2\<lparr>cl := (cl l2)\<lparr>held := Some (sid l2)\<rparr>\<rparr>)"
      using core str by (simp add: link_inv_core link_core_def)
    then show ?thesis using gained_roles_inv [of l2 A E rs l'] res False s str fields by simp
  qed
qed

lemma run_turn_inv:
  assumes "link_inv A l" "t_allowance E = A" "run_turn E msg l = (None, l')"
  shows "link_inv A l'"
proof -
  obtain kind body where m: "msg = (kind, body)" by (cases msg)
  note t = link_inv_heard(3) [OF assms(1), of E]
  show ?thesis
  proof (cases "kind = msgJSON")
    case False
    then show ?thesis using assms(3) on_binary_inv [OF t] by (simp add: run_turn_def m Let_def)
  next
    case True
    then obtain k p where j: "j_env (sj (t_json E)) body = Some (k, p)"
      using assms(3) by (auto simp: run_turn_def m Let_def split: option.splits)
    then have "on_json E k p (heard_tick E l) = (None, l')"
      using True assms(3) by (simp add: run_turn_def m Let_def)
    then show ?thesis
      unfolding on_json_def
      by (auto split: if_splits intro: on_activate_inv [OF t assms(2)] on_group_inv [OF t] on_time_inv [OF t]
          on_start_inv [OF t] on_end_inv [OF t] on_clear_inv [OF t] on_command_inv [OF t] link_inv_once [OF t])
  qed
qed

section \<open>A connection from its first turn to its end\<close>

text \<open>
  Between turns other goroutines act on what is shared: other connections, and the workers of this one.
  A turn starts only while the timer that ends a connection without a role has not fired.
\<close>

datatype ('f, 'j) link_event = Turn "('f, 'j) turn_env" "byte \<times> bytes" | Others "conn_event list"

datatype link_end = Failed_with run_error | TimerFired

fun run_conn :: "'f link \<Rightarrow> ('f, 'j) link_event list \<Rightarrow> link_end option \<times> 'f link" where
  "run_conn l [] = (None, l)"
| "run_conn l (Others es # rest) = run_conn (l\<lparr>cl := foldl conn_step (cl l) es\<rparr>) rest"
| "run_conn l (Turn E msg # rest) =
     (if (case rolelessTimer l of None \<Rightarrow> False | Some d \<Rightarrow> d \<le> t_now E) then (Some TimerFired, l)
      else (case run_turn E msg l of
          (Some e, l') \<Rightarrow> (Some (Failed_with e), l')
        | (None, l') \<Rightarrow> run_conn l' rest))"

text \<open>Others do not release on this session's behalf, and the allowance is one configuration.\<close>

fun fair_event :: "duration \<Rightarrow> nat \<Rightarrow> ('f, 'j) link_event \<Rightarrow> bool" where
  "fair_event A s (Turn E msg) = (t_allowance E = A)"
| "fair_event A s (Others es) = (CRelease s \<notin> set es)"

definition fresh_link :: "'f link \<Rightarrow> bool" where
  "fresh_link l \<longleftrightarrow> sess_inv (sess l) \<and> roles (sess l) = [] \<and> stream (pb l) = None \<and> opened (pb l) = 0
     \<and> out l = [] \<and> rolelessTimer l = None \<and> rolelessSince l = None \<and> rolelessSpent l = 0 \<and> noted l = []
     \<and> run_inv (heard l)"

lemma fresh_link_inv: "fresh_link l \<Longrightarrow> link_inv A l"
  by (simp add: fresh_link_def link_inv_def)

lemma others_keep_held:
  "CRelease s \<notin> set es \<Longrightarrow> held c = Some s \<Longrightarrow> held (foldl conn_step c es) = Some s"
proof (induction es arbitrary: c)
  case (Cons e es)
  have "held (conn_step c e) = Some s"
    using Cons.prems
    by (cases e) (auto simp: enter_def track_def leave_def hold_def release_def holdReady_def client_close_def)
  then show ?case using Cons by simp
qed simp

lemma declare_state_sid: "declare_state E l = (r, l') \<Longrightarrow> sid l' = sid l"
  by (auto simp: declare_state_def split: prod.splits sum.splits)

lemma lost_roles_sid: "lost_roles E l = (None, l') \<Longrightarrow> sid l' = sid l"
  by (auto simp: lost_roles_def Let_def split: option.splits if_splits)

lemma gained_roles_sid: "gained_roles E rs l = (None, l') \<Longrightarrow> sid l' = sid l"
  by (auto simp: gained_roles_def Let_def dest!: declare_state_sid split: sum.splits prod.splits option.splits if_splits)

lemma on_activate_sid:
  assumes "on_activate E p l = (None, l')"
  shows "sid l' = sid l"
proof -
  obtain rs s where a: "Activate (t_enc E) (sj (t_json E)) (dj_activate (t_json E) p) (sess l) = (Inr rs, s)"
    using assms by (auto simp: on_activate_def split: prod.splits sum.splits)
  define l2 where "l2 = (if \<not> holdsPlayer rs then play_stop_now (heard_done E (l\<lparr>sess := s\<rparr>)) else l\<lparr>sess := s\<rparr>)"
  have "(if rs = [] then lost_roles E l2 else gained_roles E rs l2) = (None, l')"
    using assms unfolding on_activate_def a prod.case sum.case Let_def l2_def .
  moreover have "sid l2 = sid l" by (simp add: l2_def play_stop_now_def)
  ultimately show ?thesis using lost_roles_sid gained_roles_sid by (metis (full_types))
qed

lemma handlers_sid:
  "on_binary E kind body l = (None, l') \<Longrightarrow> sid l' = sid l"
  "on_group E p l = (None, l') \<Longrightarrow> sid l' = sid l"
  "on_time E p l = (None, l') \<Longrightarrow> sid l' = sid l"
  "on_start E p l = (None, l') \<Longrightarrow> sid l' = sid l"
  "on_end E p l = (None, l') \<Longrightarrow> sid l' = sid l"
  "on_clear E p l = (None, l') \<Longrightarrow> sid l' = sid l"
  "on_command E p l = (None, l') \<Longrightarrow> sid l' = sid l"
  by (auto simp: on_binary_def on_group_def on_time_def on_start_def on_end_def on_clear_def on_command_def
      set_volume_def set_mute_def set_delay_def play_stop_now_def heard_report_def Let_def
      dest!: declare_state_sid split: if_splits option.splits sum.splits prod.splits)

lemma sid_kept: "run_turn E msg l = (None, l') \<Longrightarrow> sid l' = sid l"
  by (auto simp: run_turn_def on_json_def Let_def dest!: handlers_sid on_activate_sid
      split: prod.splits if_splits option.splits)

lemma run_conn_inv:
  "link_inv A l \<Longrightarrow> \<forall>e \<in> set es. fair_event A (sid l) e \<Longrightarrow> run_conn l es = (None, l') \<Longrightarrow>
     link_inv A l' \<and> sid l' = sid l"
proof (induction l es rule: run_conn.induct)
  case (2 l es rest)
  have "held (cl l) = Some (sid l) \<longrightarrow> held (foldl conn_step (cl l) es) = Some (sid l)"
    using 2(3) others_keep_held by simp
  then have "link_inv A (l\<lparr>cl := foldl conn_step (cl l) es\<rparr>)" using 2(2) by (auto simp: link_inv_def)
  then show ?case using 2 by simp
next
  case (3 l E msg rest)
  obtain l1 where t: "run_turn E msg l = (None, l1)" "\<not> (case rolelessTimer l of None \<Rightarrow> False | Some d \<Rightarrow> d \<le> t_now E)"
    using 3(4) by (auto split: if_splits prod.splits option.splits)
  have "link_inv A l1" using run_turn_inv [OF 3(2) _ t(1)] 3(3) by simp
  moreover have "sid l1 = sid l" by (rule sid_kept [OF t(1)])
  moreover have "run_conn l1 rest = (None, l')" using 3(4) t by (simp split: if_splits)
  ultimately show ?case using 3(1) [OF t(2) t(1) [symmetric]] 3(3) t by simp
qed simp

section \<open>However a connection ends\<close>

definition trace_ok :: "'f link \<Rightarrow> bool" where
  "trace_ok l \<longleftrightarrow> see_calls (0, None) (calls (out l)) = Some (opened (pb l), stream (pb l))"

lemma trace_ok_steps:
  "calls es = [] \<Longrightarrow> trace_ok (emit_out es l) = trace_ok l"
  "trace_ok (once n l) = trace_ok l"
  "trace_ok (count_event e l) = trace_ok l"
  by (simp_all add: trace_ok_def emit_out_def once_def count_event_def split: prod.splits)

lemma trace_ok_play: "trace_ok l \<Longrightarrow> trace_ok (play_calls e l)"
  unfolding trace_ok_def by (rule play_calls_seen)

lemma trace_ok_upd [simp]:
  "trace_ok (l\<lparr>sess := s\<rparr>) = trace_ok l" "trace_ok (l\<lparr>cl := c\<rparr>) = trace_ok l" "trace_ok (l\<lparr>clk := k\<rparr>) = trace_ok l"
  "trace_ok (l\<lparr>stated := b\<rparr>) = trace_ok l" "trace_ok (l\<lparr>synced := b\<rparr>) = trace_ok l"
  "trace_ok (l\<lparr>available := b\<rparr>) = trace_ok l" "trace_ok (l\<lparr>rolelessTimer := t\<rparr>) = trace_ok l"
  "trace_ok (l\<lparr>rolelessSince := t\<rparr>) = trace_ok l" "trace_ok (l\<lparr>rolelessSpent := d\<rparr>) = trace_ok l"
  by (simp_all add: trace_ok_def)

lemma trace_ok_declare: "declare_state E l = (r, l') \<Longrightarrow> trace_ok l' = trace_ok l"
  by (auto simp: declare_state_def split: prod.splits sum.splits)

lemma trace_ok_heard [simp]: "trace_ok (heard_done E l) = trace_ok l" "trace_ok (heard_report E l) = trace_ok l"
  "trace_ok (heard_tick E l) = trace_ok l"
  by (simp_all add: heard_done_def heard_report_def heard_tick_def trace_ok_steps)

lemmas trace_simps = trace_ok_steps trace_ok_declare play_stop_now_def

lemma trace_ok_lost: "trace_ok l \<Longrightarrow> lost_roles E l = (r, l') \<Longrightarrow> trace_ok l'"
  by (auto simp: lost_roles_def Let_def trace_simps split: option.splits if_splits)

lemma trace_ok_spend [simp]: "trace_ok (spend_roleless E l) = trace_ok l"
  by (simp add: spend_roleless_def split: option.splits)

lemma trace_ok_gained:
  assumes "trace_ok l" "gained_roles E rs l = (r, l')"
  shows "trace_ok l'"
proof (cases "hold (sid l) (available l) (cl l)")
  case (Pair x c)
  show ?thesis
  proof (cases x)
    case (Inl e)
    then show ?thesis using assms Pair by (auto simp: gained_roles_def Let_def)
  next
    case (Inr u)
    let ?l1 = "spend_roleless E (l\<lparr>cl := c\<rparr>)"
    obtain r2 l2 where d: "declare_state E (emit_out [SetIdleWait]
        (?l1\<lparr>sess := (sess ?l1)\<lparr>ws := setIdle idleWait (ws (sess ?l1))\<rparr>\<rparr>)) = (r2, l2)" by fastforce
    then have "trace_ok l2" using trace_ok_declare [OF d] assms(1) by (simp add: trace_simps)
    then show ?thesis using assms Pair Inr d
      by (auto simp: gained_roles_def Let_def trace_simps split: if_splits option.splits)
  qed
qed

lemma trace_ok_activate:
  assumes "trace_ok l" "on_activate E p l = (r, l')"
  shows "trace_ok l'"
proof (cases "Activate (t_enc E) (sj (t_json E)) (dj_activate (t_json E) p) (sess l)")
  case (Pair x s)
  show ?thesis
  proof (cases x)
    case (Inl e)
    then show ?thesis using assms Pair by (auto simp: on_activate_def)
  next
    case (Inr rs)
    define l2 where "l2 = (if \<not> holdsPlayer rs then play_stop_now (heard_done E (l\<lparr>sess := s\<rparr>)) else l\<lparr>sess := s\<rparr>)"
    have "(if rs = [] then lost_roles E l2 else gained_roles E rs l2) = (r, l')"
      using assms(2) Inr unfolding on_activate_def Pair Inr prod.case sum.case Let_def l2_def by blast
    moreover have "trace_ok l2" using assms(1) by (simp add: l2_def play_stop_now_def trace_ok_play)
    ultimately show ?thesis using trace_ok_lost trace_ok_gained by (metis (full_types))
  qed
qed

lemma trace_ok_handlers:
  "trace_ok l \<Longrightarrow> on_binary E kind body l = (r, l') \<Longrightarrow> trace_ok l'"
  "trace_ok l \<Longrightarrow> on_group E p l = (r, l') \<Longrightarrow> trace_ok l'"
  "trace_ok l \<Longrightarrow> on_time E p l = (r, l') \<Longrightarrow> trace_ok l'"
  "trace_ok l \<Longrightarrow> on_start E p l = (r, l') \<Longrightarrow> trace_ok l'"
  "trace_ok l \<Longrightarrow> on_end E p l = (r, l') \<Longrightarrow> trace_ok l'"
  "trace_ok l \<Longrightarrow> on_clear E p l = (r, l') \<Longrightarrow> trace_ok l'"
  "trace_ok l \<Longrightarrow> on_command E p l = (r, l') \<Longrightarrow> trace_ok l'"
  by (auto simp: on_binary_def on_group_def on_time_def on_start_def on_end_def on_clear_def on_command_def
      set_volume_def set_mute_def set_delay_def Let_def trace_simps
      intro!: trace_ok_play dest!: trace_ok_declare split: if_splits option.splits sum.splits prod.splits)

lemma run_turn_trace: "trace_ok l \<Longrightarrow> run_turn E msg l = (r, l') \<Longrightarrow> trace_ok l'"
  by (auto simp: run_turn_def on_json_def Let_def trace_simps
      dest: trace_ok_handlers [rotated] trace_ok_activate [rotated]
      split: prod.splits if_splits option.splits)

lemma run_conn_trace: "trace_ok l \<Longrightarrow> run_conn l es = (r, l') \<Longrightarrow> trace_ok l'"
proof (induction l es rule: run_conn.induct)
  case (3 l E msg rest)
  then show ?case
    using run_turn_trace [OF 3(2), of E msg]
    by (auto split: if_splits prod.splits option.splits)
qed auto

lemma see_calls_stop: "trace_ok l \<Longrightarrow> stream (pb (run_end E l)) = None \<and> trace_ok (run_end E l)"
  by (simp add: run_end_def Let_def play_stop_now_def stream_stopped trace_ok_play)

lemma run_end_releases: "held (cl (run_end E l)) \<noteq> Some (sid l)"
  by (simp add: run_end_def Let_def play_stop_now_def release_def)

section \<open>Properties\<close>

text \<open>
  C5. Only the connection that holds the client plays: after any turns, and whatever other connections
  did between them, a stream is open in the player or audio is being taken only while this session holds
  a player role and the client.
\<close>

theorem plays_only_holding:
  assumes "fresh_link l" "\<forall>e \<in> set es. fair_event A (sid l) e" "run_conn l es = (None, l')"
  shows "(stream (pb l') \<noteq> None \<or> streaming (sess l')) \<longrightarrow>
           holdsPlayer (roles (sess l')) \<and> held (cl l') = Some (sid l)"
proof -
  have "link_inv A l'" "sid l' = sid l"
    using run_conn_inv [OF fresh_link_inv [OF assms(1)] assms(2,3)] by auto
  then show ?thesis by (auto simp: link_inv_def sess_inv_def holdsPlayer_def)
qed

text \<open>
  However a connection ends, with an error, by the roleless timer or while it plays, every stream it
  opened in the player is closed again, one was open at a time, and it no longer holds the client.
\<close>

theorem connection_cleans_up:
  assumes "fresh_link l" "run_conn l es = (r, l')"
  shows "(\<exists>n. see_calls (0, None) (calls (out (run_end E l'))) = Some (n, None))
    \<and> held (cl (run_end E l')) \<noteq> Some (sid l')"
proof -
  have "trace_ok l" using assms(1) by (simp add: trace_ok_def fresh_link_def)
  then have "trace_ok l'" by (rule run_conn_trace [OF _ assms(2)])
  from see_calls_stop [OF this, of E]
  have "\<exists>n. see_calls (0, None) (calls (out (run_end E l'))) = Some (n, None)"
    unfolding trace_ok_def by metis
  then show ?thesis using run_end_releases [of E l'] by simp
qed

lemma declare_state_spent: "declare_state E l = (r, l') \<Longrightarrow>
    rolelessSpent l' = rolelessSpent l \<and> rolelessSince l' = rolelessSince l"
  by (auto simp: declare_state_def split: prod.splits sum.splits)

lemma spent_steps [simp]:
  "rolelessSpent (emit_out es l) = rolelessSpent l" "rolelessSpent (once n l) = rolelessSpent l"
  "rolelessSpent (count_event e l) = rolelessSpent l" "rolelessSpent (play_calls pe l) = rolelessSpent l"
  "rolelessSpent (heard_done E l) = rolelessSpent l" "rolelessSpent (heard_report E l) = rolelessSpent l"
  "rolelessSpent (heard_tick E l) = rolelessSpent l" "rolelessTimer (heard_tick E l) = rolelessTimer l"
  by (simp_all add: emit_out_def once_def count_event_def play_calls_def heard_done_def heard_report_def
      heard_tick_def split: prod.splits)

lemma handlers_spent:
  "on_binary E kind body l = (None, l') \<Longrightarrow> rolelessSpent l' = rolelessSpent l"
  "on_group E p l = (None, l') \<Longrightarrow> rolelessSpent l' = rolelessSpent l"
  "on_time E p l = (None, l') \<Longrightarrow> rolelessSpent l' = rolelessSpent l"
  "on_start E p l = (None, l') \<Longrightarrow> rolelessSpent l' = rolelessSpent l"
  "on_end E p l = (None, l') \<Longrightarrow> rolelessSpent l' = rolelessSpent l"
  "on_clear E p l = (None, l') \<Longrightarrow> rolelessSpent l' = rolelessSpent l"
  "on_command E p l = (None, l') \<Longrightarrow> rolelessSpent l' = rolelessSpent l"
  "lost_roles E l = (None, l') \<Longrightarrow> rolelessSpent l' = rolelessSpent l"
  by (auto simp: on_binary_def on_group_def on_time_def on_start_def on_end_def on_clear_def on_command_def
      lost_roles_def set_volume_def set_mute_def set_delay_def play_stop_now_def Let_def
      dest!: declare_state_spent split: if_splits option.splits sum.splits prod.splits)

lemma gained_roles_spent:
  "gained_roles E rs l = (None, l') \<Longrightarrow>
     rolelessSpent l' = (case rolelessSince l of None \<Rightarrow> rolelessSpent l | Some t \<Rightarrow> rolelessSpent l + (t_now E - t))"
  by (auto simp: gained_roles_def spend_roleless_def Let_def dest!: declare_state_spent
      split: sum.splits prod.splits option.splits if_splits)

lemma activate_spent:
  assumes "on_activate E p l = (None, l')"
  shows "rolelessSpent l' = rolelessSpent l
    \<or> (\<exists>t. rolelessSince l = Some t \<and> rolelessSpent l' = rolelessSpent l + (t_now E - t))"
proof -
  obtain rs s where a: "Activate (t_enc E) (sj (t_json E)) (dj_activate (t_json E) p) (sess l) = (Inr rs, s)"
    using assms by (auto simp: on_activate_def split: prod.splits sum.splits)
  define l2 where "l2 = (if \<not> holdsPlayer rs then play_stop_now (heard_done E (l\<lparr>sess := s\<rparr>)) else l\<lparr>sess := s\<rparr>)"
  have "(if rs = [] then lost_roles E l2 else gained_roles E rs l2) = (None, l')"
    using assms unfolding on_activate_def a prod.case sum.case Let_def l2_def .
  moreover have "rolelessSpent l2 = rolelessSpent l" "rolelessSince l2 = rolelessSince l"
    by (simp_all add: l2_def play_stop_now_def)
  ultimately show ?thesis
    using handlers_spent(8) [of E l2 l'] gained_roles_spent [of E rs l2 l'] by (auto split: if_splits option.splits)
qed

lemma run_turn_spent:
  assumes "link_inv A l" "\<not> (case rolelessTimer l of None \<Rightarrow> False | Some d \<Rightarrow> d \<le> t_now E)"
    and "rolelessSpent l \<le> A" "run_turn E msg l = (None, l')"
  shows "rolelessSpent l' \<le> A"
proof -
  have t: "rolelessTimer l = map_option (\<lambda>t. t + (A - rolelessSpent l)) (rolelessSince l)"
    using assms(1) by (simp add: link_inv_def)
  have "rolelessSpent l' = rolelessSpent l
    \<or> (\<exists>t. rolelessSince l = Some t \<and> rolelessSpent l' = rolelessSpent l + (t_now E - t))"
    using assms(4)
    by (auto simp: run_turn_def on_json_def Let_def dest!: handlers_spent activate_spent
        split: prod.splits if_splits option.splits)
  then show ?thesis using assms(2,3) t by (auto split: option.splits)
qed

text \<open>
  The time a connection spends without a role is bounded over its whole life, however often it gains
  and loses roles: what has been spent never exceeds the allowance, and while it holds none the timer that
  ends it is armed for the moment the allowance is used up.
\<close>

theorem roleless_time_bounded:
  assumes "fresh_link l" "0 \<le> A" "\<forall>e \<in> set es. fair_event A (sid l) e" "run_conn l es = (None, l')"
  shows "rolelessSpent l' \<le> A
    \<and> rolelessTimer l' = map_option (\<lambda>t. t + (A - rolelessSpent l')) (rolelessSince l')"
proof -
  have "link_inv A l \<Longrightarrow> \<forall>e \<in> set es. fair_event A (sid l) e \<Longrightarrow> rolelessSpent l \<le> A \<Longrightarrow>
      run_conn l es = (None, l') \<Longrightarrow> rolelessSpent l' \<le> A" for l es
  proof (induction l es rule: run_conn.induct)
    case (2 l es rest)
    have "link_inv A (l\<lparr>cl := foldl conn_step (cl l) es\<rparr>)"
      using run_conn_inv [of A l "[Others es]"] 2(2,3) by simp
    then show ?case using 2 by simp
  next
    case (3 l E msg rest)
    obtain l1 where t: "run_turn E msg l = (None, l1)" "\<not> (case rolelessTimer l of None \<Rightarrow> False | Some d \<Rightarrow> d \<le> t_now E)"
      using 3(5) by (auto split: if_splits prod.splits option.splits)
    have "run_conn l1 rest = (None, l')" using 3(5) t by (simp split: if_splits)
    moreover have "link_inv A l1" using run_turn_inv [OF 3(2) _ t(1)] 3(3) by simp
    moreover have "sid l1 = sid l" by (rule sid_kept [OF t(1)])
    moreover have "rolelessSpent l1 \<le> A" by (rule run_turn_spent [OF 3(2) t(2) 3(4) t(1)])
    ultimately show ?case using 3(1) [OF t(2) t(1) [symmetric]] 3(3) t by simp
  qed simp
  note spent = this
  have "rolelessSpent l \<le> A" using assms(1,2) by (simp add: fresh_link_def)
  from spent [OF fresh_link_inv [OF assms(1)] assms(3) this assms(4)]
  have "rolelessSpent l' \<le> A" .
  moreover have "link_inv A l'" using run_conn_inv [OF fresh_link_inv [OF assms(1)] assms(3,4)] by simp
  ultimately show ?thesis by (simp add: link_inv_def)
qed

section \<open>A run\<close>

definition demo_run_json :: "nat run_json" where
  "demo_run_json = \<lparr>sj = \<lparr>j_env = (\<lambda>b. if b = [1] then Some (''server/activate'', 0)
        else if b = [2] then Some (''stream/start'', 0) else None),
      j_hello = (\<lambda>_. None), j_client_hello = (\<lambda>_. []), j_reason = (\<lambda>_ _. [])\<rparr>,
     dj_activate = (\<lambda>_. Inr demo_activate), dj_group = (\<lambda>_. Inl ''''), dj_time = (\<lambda>_. Inl ''''),
     dj_start = (\<lambda>_. Inr (Some demo_player)), dj_roles = (\<lambda>_. Inl ''''), dj_command = (\<lambda>_. Inl '''')\<rparr>"

definition demo_env :: "time \<Rightarrow> (unit, nat) turn_env" where
  "demo_env now = \<lparr>t_now = now, t_us = 0, t_level = None, t_resumes = False, t_opens = True, t_accepts = True,
     t_counts = (0, 0), t_fails = (\<lambda>_. False), t_enc = xor_cipher, t_flac = demo_parser,
     t_json = demo_run_json, t_state = (\<lambda>_. [5]), t_update = (\<lambda>_ _ _ _. ()), t_report = (\<lambda>_. (False, 0)),
     t_sample = (\<lambda>_ _. None), t_start = 0, t_allowance = 30\<rparr>"

definition demo_link :: "unit link" where
  "demo_link = \<lparr>sess = demo_session, sid = 1, cl = demo_client, clk = newClock (), stated = False, synced = False,
     available = False, rolelessTimer = None, rolelessSince = None, rolelessSpent = 0, noted = [],
     pb = demo_playback, heard = new_run 30, out = []\<rparr>"

definition demo_events :: "(unit, nat) link_event list" where
  "demo_events = [Turn (demo_env 1) (0, [1]), Others [CEnter 9, CHold 2 True], Turn (demo_env 2) (0, [2])]"

definition demo_sent :: session where
  "demo_sent = snd (WriteJSON xor_cipher [5] (demo_session\<lparr>roles := [rolePlayerV1],
     ws := setIdle idleWait demo_conn\<rparr>))"

definition demo_held :: "unit link" where
  "demo_held = demo_link\<lparr>sess := demo_sent, cl := demo_client\<lparr>held := Some 1, firstDelay := True\<rparr>, stated := True,
     noted := [Activated [rolePlayerV1]], out := [SetIdleWait, StartWorkers, Once (Activated [rolePlayerV1])]\<rparr>"

lemma demo_write: "WriteJSON xor_cipher [5] (demo_session\<lparr>roles := [rolePlayerV1], ws := setIdle idleWait demo_conn\<rparr>)
    = (Inr (), demo_sent)"
proof -
  have "healthy (setIdle idleWait demo_conn)"
    by (simp add: setIdle_def demo_conn_def healthy_def maxMessage_def maxControlPayload_def)
  then show ?thesis
    by (simp add: demo_sent_def WriteJSON_def WriteTyped_def msgJSON_def msgFragment_def typed_frames_def
        maxFrameBody_def maxNoiseMessage_def aeadTagLen_def seal_def xor_cipher_def WriteBinary_def ws_write_def
        healthy_def)
qed

lemma demo_turn1: "run_turn (demo_env 1) (0, [1]) demo_link = (None, demo_held)"
proof -
  have d: "declared False None (demo_client\<lparr>held := Some 1, heldReady := False\<rparr>) =
      (\<lparr>st_available = False, st_volume = None, st_muted = None, st_delay = 0, st_lead = 200, st_buffer = 150\<rparr>,
       demo_client\<lparr>held := Some 1, firstDelay := True\<rparr>)"
    by (simp add: declared_def heldDelay_def takeKeptDelay_def demo_client_def HoldDelayMS_def MaxStaticDelayMS_def
        lead_def minBuffer_def level_def demo_cfg_def Let_def)
  have a: "Activate xor_cipher (sj demo_run_json) (Inr demo_activate) demo_session
      = (Inr [rolePlayerV1], demo_session\<lparr>roles := [rolePlayerV1]\<rparr>)"
    by (simp add: Activate_def demo_session_def apply_decision_def Let_def demo_decide demo_holds)
  have h: "hold 1 False demo_client = (Inr (), demo_client\<lparr>held := Some 1, heldReady := False\<rparr>)"
    by (simp add: hold_def demo_client_def)
  have t: "heard_tick E l = l" if "heard l = new_run 30" for E and l :: "unit link"
    using that by (simp add: heard_tick_def count_event_def run_tick_def new_run_def emit_out_def)
  have w: "ws demo_session = demo_conn" "ws (demo_session\<lparr>roles := rs\<rparr>) = demo_conn" for rs
    by (simp_all add: demo_session_def)
  show ?thesis
    using a h d demo_write w
    by (simp add: run_turn_def t Let_def msgJSON_def on_json_def on_activate_def gained_roles_def demo_holds
        spend_roleless_def declare_state_def emit_out_def once_def note_first_def maxNoted_def demo_held_def
        demo_env_def demo_run_json_def demo_link_def)
qed

lemma demo_turn2: "\<exists>l. run_turn (demo_env 2) (0, [2]) (demo_held\<lparr>cl := c\<rparr>) = (None, l) \<and> stream (pb l) = Some 0"
proof -
  have r: "roles demo_sent = [rolePlayerV1]"
    using WriteJSON_keeps [of xor_cipher "[5]" "demo_session\<lparr>roles := [rolePlayerV1], ws := setIdle idleWait demo_conn\<rparr>"]
    by (simp add: demo_sent_def)
  have s: "StartStream (Inr (Some demo_player)) demo_sent = (Inr (Some demo_player),
      demo_sent\<lparr>streaming := True, flac := False, rate := 48000\<rparr>)"
    by (simp add: StartStream_def demo_playable r demo_holds) (simp add: demo_player_def codecPCM_def codecFLAC_def)
  show ?thesis
    using s
    by (simp add: run_turn_def heard_tick_def heard_done_def count_event_def run_tick_def run_done_def run_report_def
        new_run_def Let_def msgJSON_def on_json_def on_start_def play_calls_def play_open_def play_stop_def
        emit_out_def demo_held_def demo_env_def demo_run_json_def demo_link_def demo_playback_def)
qed

lemma demo_run:
  "\<exists>l. run_conn demo_link demo_events = (None, l) \<and> stream (pb l) = Some 0"
proof -
  let ?c = "foldl conn_step (cl demo_held) [CEnter 9, CHold 2 True]"
  obtain l where l: "run_turn (demo_env 2) (0, [2]) (demo_held\<lparr>cl := ?c\<rparr>) = (None, l)" "stream (pb l) = Some 0"
    using demo_turn2 by blast
  have n: "rolelessTimer demo_link = None" "rolelessTimer (demo_held\<lparr>cl := ?c\<rparr>) = None"
    by (simp_all add: demo_link_def demo_held_def)
  have "run_conn demo_link demo_events = (None, l)"
    unfolding demo_events_def run_conn.simps using demo_turn1 l(1) n by simp
  with l(2) show ?thesis by blast
qed

lemma demo_fresh: "fresh_link demo_link"
  by (simp add: fresh_link_def demo_link_def demo_session_def demo_playback_def new_run_def run_inv_def sess_inv_def)

lemma demo_fair: "\<forall>e \<in> set demo_events. fair_event 30 (sid demo_link) e"
  by (simp add: demo_events_def demo_env_def demo_link_def)

theorem plays_only_holding_witness:
  "\<exists>l. run_conn demo_link demo_events = (None, l) \<and> stream (pb l) = Some 0 \<and> held (cl l) = Some 1"
proof -
  obtain l where l: "run_conn demo_link demo_events = (None, l)" "stream (pb l) = Some 0"
    using demo_run by blast
  have "held (cl l) = Some (sid demo_link)"
    using plays_only_holding [OF demo_fresh demo_fair l(1)] l(2) by simp
  then show ?thesis using l by (auto simp: demo_link_def)
qed

theorem connection_cleans_up_witness:
  "\<exists>l. run_conn demo_link demo_events = (None, l) \<and> stream (pb l) = Some 0 \<and> held (cl (run_end (demo_env 3) l)) \<noteq> Some (sid l)"
proof -
  obtain l where l: "run_conn demo_link demo_events = (None, l)" "stream (pb l) = Some 0"
    using demo_run by blast
  then show ?thesis using connection_cleans_up [OF demo_fresh l(1), of "demo_env 3"] by blast
qed

theorem roleless_time_bounded_witness:
  "\<exists>l. run_conn demo_link demo_events = (None, l) \<and> rolelessSpent l \<le> 30"
proof -
  obtain l where l: "run_conn demo_link demo_events = (None, l)"
    using demo_run by blast
  then show ?thesis using roleless_time_bounded [OF demo_fresh _ demo_fair l] by auto
qed

end
