(* ===== verification/Sp_Filter.thy ===== *)
theory Sp_Filter
  imports Go_Float64 Sp_Run
begin

text \<open>
  \<open>internal/sendspin/timefilter.go\<close>: the filter that turns measurements into the server's clock, and the clock into
  moments of ours.  It is floating point throughout, kept here bit for bit (\<open>Go_Float64\<close>); \<open>big\<close> is what the
  conversion to \<open>int64\<close> makes of a number out of range, which Go leaves to the implementation.  Its answers to
  \<open>chunk.go\<close> and \<open>play.go\<close> are a contract, \<open>time_filter\<close>, which the definitions are shown to keep.
\<close>

definition go_int64 :: "int \<Rightarrow> int" where
  "go_int64 i = (i + 2 ^ 63) mod 2 ^ 64 - 2 ^ 63"

lemma go_int64_id: "- (2 ^ 63) \<le> i \<Longrightarrow> i < 2 ^ 63 \<Longrightarrow> go_int64 i = i"
  by (simp add: go_int64_def)

section \<open>The filter\<close>

definition processVariance :: f64 where "processVariance = f64_ratio 0 1"
definition driftProcessVariance :: f64 where "driftProcessVariance = f64_ratio 1 (10 ^ 22)"
definition forgetVarianceFactor :: f64 where "forgetVarianceFactor = f64_of_int 4"
definition adaptiveCutoff :: f64 where "adaptiveCutoff = f64_of_int 3"
definition adaptiveAfter :: int where "adaptiveAfter = 100"
definition maxErrorScale :: f64 where "maxErrorScale = f64_ratio 1 2"
definition driftSignificance :: f64 where "driftSignificance = f64_of_int 4"
definition slowestRate :: f64 where "slowestRate = f64_ratio 1 2"

record timeElement =
  el_lastUpdate :: int
  el_offset :: f64
  el_drift :: f64
  useDrift :: bool

record timeFilter =
  lastUpdate :: int
  updates :: int
  off :: f64
  drift :: f64
  offsetCovariance :: f64
  offsetDriftCovariance :: f64
  driftCovariance :: f64
  current :: timeElement

definition zero_element :: timeElement where
  "zero_element = \<lparr>el_lastUpdate = 0, el_offset = 0, el_drift = 0, useDrift = False\<rparr>"

definition newTimeFilter :: timeFilter where
  "newTimeFilter =
     \<lparr>lastUpdate = 0, updates = 0, off = 0, drift = 0, offsetCovariance = Inf False,
      offsetDriftCovariance = 0, driftCovariance = 0, current = zero_element\<rparr>"

text \<open>The first two measurements set the offset and the drift; from the third on they are weighed.\<close>

definition filter_first :: "f64 \<Rightarrow> f64 \<Rightarrow> timeFilter \<Rightarrow> timeFilter" where
  "filter_first m var f =
     f\<lparr>updates := updates f + 1, off := m, offsetCovariance := var, drift := 0,
       current := \<lparr>el_lastUpdate = lastUpdate f, el_offset = m, el_drift = 0, useDrift = False\<rparr>\<rparr>"

definition filter_second :: "f64 \<Rightarrow> f64 \<Rightarrow> f64 \<Rightarrow> timeFilter \<Rightarrow> timeFilter" where
  "filter_second m var dt f =
     (let d = (m - off f) / dt
      in f\<lparr>updates := updates f + 1, drift := d, off := m,
           driftCovariance := (offsetCovariance f + var) / (dt * dt), offsetCovariance := var,
           current := \<lparr>el_lastUpdate = lastUpdate f, el_offset = m, el_drift = d, useDrift = False\<rparr>\<rparr>)"

definition filter_later :: "f64 \<Rightarrow> f64 \<Rightarrow> f64 \<Rightarrow> f64 \<Rightarrow> timeFilter \<Rightarrow> timeFilter" where
  "filter_later m err var dt f =
     (let offset = off f + drift f * dt;
          dc = driftCovariance f + dt * driftProcessVariance;
          odc = offsetDriftCovariance f + driftCovariance f * dt;
          oc = offsetCovariance f + f64_of_int 2 * offsetDriftCovariance f * dt + driftCovariance f * dt * dt
                 + dt * processVariance;
          residual = m - offset;
          forget = (\<not> updates f < adaptiveAfter \<and> err * adaptiveCutoff < \<bar>residual\<bar>);
          scale = (\<lambda>x. if forget then x * forgetVarianceFactor else x);
          dc' = scale dc; odc' = scale odc; oc' = scale oc;
          uncertainty = 1 / f64_max (oc' + var) (f64_ratio 1 (10 ^ 9));
          offsetGain = oc' * uncertainty;
          driftGain = odc' * uncertainty;
          offset' = offset + offsetGain * residual;
          drift' = drift f + driftGain * residual;
          cov = dc' - driftGain * odc'
      in f\<lparr>updates := (if updates f < adaptiveAfter then updates f + 1 else updates f),
           off := offset', drift := drift', driftCovariance := cov,
           offsetDriftCovariance := odc' - driftGain * oc',
           offsetCovariance := oc' - offsetGain * oc',
           current := \<lparr>el_lastUpdate = lastUpdate f, el_offset = offset', el_drift = drift',
             useDrift = driftSignificance * cov < drift' * drift'\<rparr>\<rparr>)"

definition Update :: "timeFilter \<Rightarrow> int \<Rightarrow> int \<Rightarrow> int \<Rightarrow> timeFilter" where
  "Update f measurement maxError stamp =
     (if stamp \<le> lastUpdate f then f
      else (let dt = f64_of_int (go_int64 (stamp - lastUpdate f));
                f1 = f\<lparr>lastUpdate := stamp\<rparr>;
                dev = f64_of_int maxError * maxErrorScale;
                var = dev * dev
            in if updates f1 \<le> 0 then filter_first (f64_of_int measurement) var f1
               else if updates f1 = 1 then filter_second (f64_of_int measurement) var dt f1
               else filter_later (f64_of_int measurement) (f64_of_int maxError) var dt f1))"

section \<open>What it answers\<close>

definition ServerTime :: "(f64 \<Rightarrow> int) \<Rightarrow> timeFilter \<Rightarrow> int \<Rightarrow> int" where
  "ServerTime big f t =
     (let e = current f; d = (if useDrift e then el_drift e else 0)
      in go_int64 (t + f64_int64 big
           (f64_nearest (el_offset e + d * f64_of_int (go_int64 (t - el_lastUpdate e))))))"

definition clientFrom :: "(f64 \<Rightarrow> int) \<Rightarrow> timeElement \<Rightarrow> int \<Rightarrow> int option" where
  "clientFrom big e t =
     (let d = (if useDrift e then el_drift e else 0); rate = 1 + d
      in if \<not> slowestRate \<le> rate then None
         else (let client = f64_nearest
                 ((f64_of_int t - el_offset e + d * f64_of_int (el_lastUpdate e)) / rate)
               in if \<not> \<bar>client\<bar> \<le> f64_of_int stampCeiling then None
                  else Some (f64_int64 big client)))"

definition ClientTime :: "(f64 \<Rightarrow> int) \<Rightarrow> timeFilter \<Rightarrow> int \<Rightarrow> int option" where
  "ClientTime big f t = clientFrom big (current f) t"

definition stateLocked :: "(f64 \<Rightarrow> int) \<Rightarrow> timeFilter \<Rightarrow> bool \<times> int" where
  "stateLocked big f =
     (if updates f < 2 \<or> offsetCovariance f = Inf False then (False, 2 ^ 63 - 1)
      else (True, f64_int64 big (f64_nearest (f64_sqrt (offsetCovariance f)))))"

definition Converged :: "(f64 \<Rightarrow> int) \<Rightarrow> timeFilter \<Rightarrow> bool" where
  "Converged big f = fst (stateLocked big f)"

definition filter_sample :: "(f64 \<Rightarrow> int) \<Rightarrow> timeFilter \<Rightarrow> int \<Rightarrow> (int \<times> int \<times> int) option" where
  "filter_sample big f t =
     (case stateLocked big f of (converged, spread) \<Rightarrow>
       if \<not> converged then None
       else case clientFrom big (current f) t of
              None \<Rightarrow> None
            | Some client \<Rightarrow> Some (client, spread, f64_int64 big (f64_nearest (el_offset (current f)))))"


section \<open>Steps\<close>

lemmas update_defs = Update_def filter_first_def filter_second_def filter_later_def Let_def

definition filter_ok :: "timeFilter \<Rightarrow> bool" where
  "filter_ok f \<longleftrightarrow>
     0 \<le> lastUpdate f \<and> el_lastUpdate (current f) = lastUpdate f \<and> 0 \<le> updates f \<and> updates f \<le> adaptiveAfter
     \<and> (updates f = 0 \<longrightarrow> lastUpdate f = 0) \<and> (useDrift (current f) \<longrightarrow> 2 < updates f)"

lemma newTimeFilter_ok: "filter_ok newTimeFilter"
  by (simp add: filter_ok_def newTimeFilter_def zero_element_def adaptiveAfter_def)

lemma Update_ok: "filter_ok f \<Longrightarrow> filter_ok (Update f m err t)"
  by (auto simp: filter_ok_def update_defs adaptiveAfter_def)

lemma Update_lastUpdate: "lastUpdate (Update f m err t) = max (lastUpdate f) t"
  by (simp add: update_defs)

text \<open>The filter after some measurements, each the offset, the error it is good to, and when it was taken.\<close>

fun measured :: "(int \<times> int \<times> int) list \<Rightarrow> timeFilter" where
  "measured [] = newTimeFilter"
| "measured ((m, err, t) # ms) = Update (measured ms) m err t"

lemma measured_ok: "filter_ok (measured ms)"
  by (induction ms rule: measured.induct) (auto intro: newTimeFilter_ok Update_ok)

lemma measured_lastUpdate: "lastUpdate (measured ms) = foldr (\<lambda>(m, err, t). max t) ms 0"
  by (induction ms rule: measured.induct) (auto simp: newTimeFilter_def Update_lastUpdate max.commute)

section \<open>What an answer is worth\<close>

lemma stampCeiling_is_int: "is_int (f64_of_int stampCeiling) stampCeiling"
  by (rule is_int_of_int) (simp add: stampCeiling_def)

lemma clientFrom_bounded:
  assumes "clientFrom big e t = Some c"
  shows "\<bar>c\<bar> \<le> stampCeiling"
proof -
  obtain x where x: "f64_le (f64_abs (f64_nearest x)) (f64_of_int stampCeiling)" "c = f64_int64 big (f64_nearest x)"
    using assms by (auto simp: clientFrom_def Let_def split: if_splits)
  obtain m e where ceil: "f64_of_int stampCeiling = Fin m e" using stampCeiling_is_int by (rule is_int_Fin)
  obtain k where k: "f64_nearest x = Fin k 0"
    using nearest_cases [of x] x(1) by (auto simp: f64_le_def ceil)
  have "\<bar>k\<bar> \<le> stampCeiling"
    using x(1) is_int_le [OF is_int_Fin_0 stampCeiling_is_int, of "\<bar>k\<bar>"] by (simp add: k)
  then show ?thesis using x(2) by (simp add: k int64_int stampCeiling_def)
qed

text \<open>While the drift is not used, a stamp is moved by the offset and nothing else.\<close>

lemma slowestRate_le_1: "is_int r 1 \<Longrightarrow> f64_le slowestRate r"
proof -
  assume "is_int r 1"
  then obtain n f where r: "r = Fin n f" "n * 2 ^ nat f = 1 * 2 ^ nat (- f)" by (rule is_int_Fin)
  have "f64_less r slowestRate = False"
  proof -
    have s: "slowestRate = Fin (2 ^ 52) (- 53)"
      by (simp add: slowestRate_def f64_ratio_def fl_def fl_exp_def scaled_def round_even_def bits_of.simps)
    have "\<not> n * 2 ^ nat (f - g) < 2 ^ 52 * 2 ^ nat (- 53 - g)" if g: "g = min f (- 53)" for g
    proof -
      have "n * 2 ^ nat (f - g) * 2 ^ nat g = 1 * 2 ^ nat (- g)" by (rule at_exponent [OF r(2)]) (simp add: g)
      moreover have "nat g = 0" "nat (- g) = 53 + nat (- 53 - g)" using g by auto
      ultimately have "n * 2 ^ nat (f - g) = 2 ^ 53 * 2 ^ nat (- 53 - g)" by (simp add: power_add)
      then show ?thesis by simp
    qed
    then show ?thesis by (simp add: r(1) s Let_def)
  qed
  then show ?thesis by (simp add: f64_le_def r(1) slowestRate_def f64_ratio_def split: prod.splits)
qed

lemma clientFrom_exact:
  assumes "\<not> useDrift e" "is_int (el_offset e) o1" "\<bar>el_lastUpdate e\<bar> < 2 ^ 53"
    and "\<bar>t\<bar> < 2 ^ 53" "\<bar>t - o1\<bar> \<le> stampCeiling"
  shows "clientFrom big e t = Some (t - o1)"
proof -
  define d where "d = f64_of_int 0"
  define rate where "rate = f64_add (f64_of_int 1) d"
  define x where "x = f64_add (f64_sub (f64_of_int t) (el_offset e)) (f64_mul d (f64_of_int (el_lastUpdate e)))"
  have d: "is_int d 0" unfolding d_def by (rule is_int_of_int) simp
  have rate: "is_int rate 1"
    using is_int_add [OF is_int_of_int d, of 1] by (simp add: rate_def)
  have small: "\<bar>t - o1\<bar> < 2 ^ 53" using assms(5) by (simp add: stampCeiling_def)
  have "is_int (f64_sub (f64_of_int t) (el_offset e)) (t - o1)"
    by (rule is_int_sub [OF is_int_of_int [OF assms(4)] assms(2) small])
  from is_int_add [OF this is_int_mul_0 [OF d is_int_of_int [OF assms(3)]]] small
  have "is_int x (t - o1)" by (simp add: x_def)
  then have near: "f64_nearest (f64_div x rate) = Fin (t - o1) 0"
    by (rule nearest_int [OF is_int_div_1 [OF _ rate small]])
  have le: "f64_le (f64_abs (Fin (t - o1) 0)) (f64_of_int stampCeiling)"
    using is_int_le [OF is_int_Fin_0 stampCeiling_is_int, of "\<bar>t - o1\<bar>"] assms(5) by simp
  have "f64_int64 big (Fin (t - o1) 0) = t - o1" by (rule int64_int) (use small in auto)
  then show ?thesis
    using assms(1) slowestRate_le_1 [OF rate] near le
    by (simp add: clientFrom_def Let_def flip: d_def rate_def x_def)
qed


section \<open>The contract\<close>

text \<open>
  What \<open>chunk.go\<close>, \<open>play.go\<close> and \<open>time.go\<close> rely on: a moment is given only once the filter has converged, it is
  never past the ceiling, and after two measurements it is the stamp less the second of them.
\<close>

definition sensible :: "int \<Rightarrow> bool" where
  "sensible i \<longleftrightarrow> \<bar>i\<bar> \<le> stampCeiling"

lemma step_measured:
  assumes "clock_step update (ask_stamp a k) (Answer (Inr st) now) = (k', [Measured])"
  shows "ClientTransmitted st = a \<and> onAClock (ServerReceived st) \<and> onAClock (ServerTransmitted st)
         \<and> ServerReceived st \<le> ServerTransmitted st \<and> 0 < measure_delay st now
         \<and> filt k' = update (filt k) (measure_offset st now) (measure_delay st now) now"
  using assms by (auto simp: observe_def answered_def ask_stamp_def Let_def split: if_splits)

lemma step_one: "clock_step update k (Answer p now) = (k', as) \<Longrightarrow> length as \<le> 1"
  by (auto split: prod.splits sum.splits)

lemma run_two_answers:
  assumes "run_out (clock_step update) k0 [Question a1, Answer p1 now1, Question a2, Answer p2 now2] = (k, [r1, r2])"
  obtains k1 where "clock_step update (ask_stamp a1 k0) (Answer p1 now1) = (k1, [r1])"
    "clock_step update (ask_stamp a2 k1) (Answer p2 now2) = (k, [r2])"
proof -
  obtain k1 as1 where s1: "clock_step update (ask_stamp a1 k0) (Answer p1 now1) = (k1, as1)" by fastforce
  obtain k2 as2 where s2: "clock_step update (ask_stamp a2 k1) (Answer p2 now2) = (k2, as2)" by fastforce
  have "k2 = k" "as1 @ as2 = [r1, r2]"
    using assms s1 s2 by (auto simp del: clock_step.simps(2) simp: clock_step.simps(1))
  moreover from this step_one [OF s1] step_one [OF s2] have "as1 = [r1]" "as2 = [r2]"
    by (cases as1; cases as2; auto)+
  ultimately show ?thesis using that s1 s2 by simp
qed

locale time_filter =
  fixes fresh :: 'f
    and update :: "'f \<Rightarrow> int \<Rightarrow> int \<Rightarrow> int \<Rightarrow> 'f"
    and report :: "'f \<Rightarrow> bool \<times> int"
    and reading :: "'f \<Rightarrow> int \<Rightarrow> (int \<times> int \<times> int) option"
  assumes moment_sensible: "reading f t = Some (c, spread, o1) \<Longrightarrow> sensible c"
    and moment_converged: "reading f t = Some (c, spread, o1) \<Longrightarrow> report f = (True, spread)"
    and second_exact: "0 < t1 \<Longrightarrow> t1 < t2 \<Longrightarrow> sensible t2 \<Longrightarrow> sensible m1 \<Longrightarrow> sensible m2 \<Longrightarrow> sensible e1 \<Longrightarrow> sensible e2
      \<Longrightarrow> sensible t \<Longrightarrow> sensible (t - m2)
      \<Longrightarrow> \<exists>spread. reading (update (update fresh m1 e1 t1) m2 e2 t2) t = Some (t - m2, spread, m2)"
begin

lemma When_near:
  assumes "t_sample E = reading" "When E l t = Some m"
  shows "\<bar>m - t_start E\<bar> \<le> stampCeiling * microsecond"
proof -
  obtain c spread o1 where r: "reading (filt (clk l)) t = Some (c, spread, o1)" "m = t_start E + c * microsecond"
    using assms by (auto simp: When_def split: option.splits)
  have "\<bar>c\<bar> \<le> stampCeiling" using moment_sensible [OF r(1)] by (simp add: sensible_def)
  then show ?thesis using r(2) by (auto simp: abs_mult)
qed

lemma Lead_near:
  assumes "t_sample E = reading" "Lead E l t = Some (ld, spread, o1)"
  shows "\<bar>ld + t_us E\<bar> \<le> stampCeiling \<and> report (filt (clk l)) = (True, spread)"
proof -
  obtain c where r: "reading (filt (clk l)) t = Some (c, spread, o1)" "ld = c - t_us E"
    using assms by (auto simp: Lead_def split: option.splits)
  show ?thesis using moment_sensible [OF r(1)] moment_converged [OF r(1)] r(2) by (simp add: sensible_def)
qed

lemma moment_needs_report: "\<not> fst (report f) \<Longrightarrow> reading f t = None"
  by (cases "reading f t") (auto dest: moment_converged)

text \<open>Two questions answered: where the second answer was honest, a stamp of its clock is placed to within its delay.\<close>

lemma two_answers_place:
  assumes run: "run_out (clock_step update) (newClock fresh)
                  [Question a1, Answer (Inr st1) now1, Question a2, Answer (Inr st2) now2] = (k, [Measured, Measured])"
    and time: "0 \<le> a1" "a1 \<le> now1" "0 < now1" "now1 < a2" "a2 \<le> t1" "t1 \<le> t2" "t2 \<le> now2" "now2 \<le> stampCeiling"
    and honest: "ServerReceived st2 = t1 + skew" "ServerTransmitted st2 = t2 + skew"
    and t: "sensible (t + skew)" "\<bar>t\<bar> + measure_delay st2 now2 + 1 \<le> stampCeiling"
  shows "\<exists>c spread o1. reading (filt k) (t + skew) = Some (c, spread, o1) \<and> \<bar>c - t\<bar> \<le> measure_delay st2 now2 + 1"
proof -
  define m1 m2 d1 d2 where m: "m1 = measure_offset st1 now1" "m2 = measure_offset st2 now2"
    "d1 = measure_delay st1 now1" "d2 = measure_delay st2 now2"
  obtain k1 where s1: "clock_step update (ask_stamp a1 (newClock fresh)) (Answer (Inr st1) now1) = (k1, [Measured])"
    and s2: "clock_step update (ask_stamp a2 k1) (Answer (Inr st2) now2) = (k, [Measured])"
    using run by (rule run_two_answers)
  have ct: "ClientTransmitted st1 = a1" "ClientTransmitted st2 = a2"
    and clocks: "onAClock (ServerReceived st1)" "onAClock (ServerTransmitted st1)"
      "onAClock (ServerReceived st2)" "onAClock (ServerTransmitted st2)"
    and spans: "\<not> ServerTransmitted st1 < ServerReceived st1" "0 < d1" "0 < d2"
    and k: "filt k = update (update fresh m1 d1 now1) m2 d2 now2"
    using step_measured [OF s1] step_measured [OF s2] by (simp_all add: m newClock_def)
  have near: "\<bar>m2 - skew\<bar> \<le> d2 + 1"
    unfolding m by (rule measurement_error [of _ t1 t2]) (use time ct honest in simp_all)
  have half: "sensible (go_div (x + y) 2)" if "sensible x" "sensible y" for x y
  proof -
    have "\<bar>x + y\<bar> div 2 \<le> stampCeiling" using that by (simp add: sensible_def)
    moreover have "\<bar>go_div (x + y) 2\<bar> = \<bar>x + y\<bar> div 2" by (cases "x + y = 0") (simp_all add: go_div_def abs_mult abs_sgn_eq)
    ultimately show ?thesis by (simp add: sensible_def)
  qed
  have between: "sensible (x - y)" if "0 \<le> x \<and> x \<le> stampCeiling" "0 \<le> y \<and> y \<le> stampCeiling" for x y
    using that by (auto simp: sensible_def)
  have "sensible m1" "sensible m2"
    unfolding m measure_offset_def
    by (rule half; rule between; use time ct clocks in \<open>simp add: onAClock_def\<close>)+
  moreover have "sensible d1" "sensible d2"
  proof -
    have le: "x div 2 \<le> y" if "0 \<le> x" "x \<le> y" for x y :: int using that by linarith
    have pos: "d = x div 2 \<and> 0 \<le> x" if "d = go_div x 2" "0 < d" for d x :: int
    proof -
      have "0 \<le> x"
      proof (rule ccontr)
        assume "\<not> 0 \<le> x"
        then have "d = - ((- x) div 2)" using that(1) by (simp add: go_div_neg)
        moreover have "0 \<le> (- x) div 2" using \<open>\<not> 0 \<le> x\<close> by simp
        ultimately show False using that(2) by linarith
      qed
      with that(1) show ?thesis by simp
    qed
    note p1 = pos [OF m(3) [unfolded measure_delay_def] spans(2)] and p2 = pos [OF m(4) [unfolded measure_delay_def] spans(3)]
    have "d1 \<le> stampCeiling" using p1 le [of _ stampCeiling] time spans(1) ct by simp
    moreover have "d2 \<le> stampCeiling" using p2 le [of _ stampCeiling] time honest ct by simp
    ultimately show "sensible d1" "sensible d2" using spans(2,3) by (simp_all add: sensible_def)
  qed
  moreover have "sensible (t + skew - m2)" "sensible now2"
    using near t(2) time by (auto simp: sensible_def m)
  ultimately obtain spread where "reading (filt k) (t + skew) = Some (t + skew - m2, spread, m2)"
    using second_exact [of now1 now2 m1 m2 d1 d2 "t + skew"] time t(1) k by auto
  moreover have "\<bar>t + skew - m2 - t\<bar> \<le> d2 + 1" using near by linarith
  ultimately show ?thesis unfolding m by blast
qed

end


section \<open>The filter keeps it\<close>

lemma filter_sample_Some:
  assumes "filter_sample big f t = Some (c, spread, o1)"
  shows "stateLocked big f = (True, spread) \<and> clientFrom big (current f) t = Some c"
  using assms by (auto simp: filter_sample_def split: prod.splits if_splits option.splits)

lemma variance_finite:
  assumes "sensible err"
  shows "f64_mul (f64_mul (f64_of_int err) maxErrorScale) (f64_mul (f64_of_int err) maxErrorScale) \<noteq> Inf s"
proof -
  have "within_exp 64 (f64_of_int err)" by (rule within_exp_of_int) (use assms in \<open>simp add: sensible_def stampCeiling_def\<close>)
  moreover have "within_exp 0 maxErrorScale"
    unfolding maxErrorScale_def by (rule within_exp_ratio) (simp_all add: bits_of.simps)
  ultimately have "within_exp (64 + 0 + 120) (f64_mul (f64_of_int err) maxErrorScale)" by (rule within_exp_mul) simp
  from within_exp_mul [OF this this] show ?thesis by (auto simp: within_exp_def)
qed

lemma Update_twice:
  assumes "0 < t1" "t1 < t2"
  shows "current (Update (Update newTimeFilter m1 e1 t1) m2 e2 t2)
           = \<lparr>el_lastUpdate = t2, el_offset = f64_of_int m2,
              el_drift = f64_div (f64_sub (f64_of_int m2) (f64_of_int m1)) (f64_of_int (go_int64 (t2 - t1))), useDrift = False\<rparr>"
    and "updates (Update (Update newTimeFilter m1 e1 t1) m2 e2 t2) = 2"
    and "offsetCovariance (Update (Update newTimeFilter m1 e1 t1) m2 e2 t2)
           = f64_mul (f64_mul (f64_of_int e2) maxErrorScale) (f64_mul (f64_of_int e2) maxErrorScale)"
  using assms by (simp_all add: Update_def filter_first_def filter_second_def newTimeFilter_def Let_def)

lemma filter_second_exact:
  assumes "0 < t1" "t1 < t2" "sensible t2" "sensible m2" "sensible e2" "sensible t" "sensible (t - m2)"
  shows "\<exists>spread. filter_sample big (Update (Update newTimeFilter m1 e1 t1) m2 e2 t2) t = Some (t - m2, spread, m2)"
proof -
  define f where "f = Update (Update newTimeFilter m1 e1 t1) m2 e2 t2"
  note f = Update_twice [OF assms(1,2), of m1 e1 m2 e2, folded f_def]
  have m2: "is_int (f64_of_int m2) m2"
    by (rule is_int_of_int) (use assms(4) in \<open>simp add: sensible_def stampCeiling_def\<close>)
  have "clientFrom big (current f) t = Some (t - m2)"
    by (rule clientFrom_exact) (use assms m2 in \<open>simp_all add: f(1) sensible_def stampCeiling_def\<close>)
  moreover have "f64_int64 big (f64_nearest (el_offset (current f))) = m2"
    using nearest_int [OF m2] int64_int [of m2 big] assms(4) by (simp add: f(1) sensible_def stampCeiling_def)
  ultimately show ?thesis
    using variance_finite [OF assms(5), of False] by (simp add: filter_sample_def stateLocked_def f(2,3) flip: f_def)
qed

interpretation sp_filter: time_filter newTimeFilter Update "stateLocked big" "filter_sample big"
  for big :: "f64 \<Rightarrow> int"
proof unfold_locales
  show "sensible c" if "filter_sample big f t = Some (c, spread, o1)" for f t c spread o1
    using filter_sample_Some [OF that] clientFrom_bounded by (auto simp: sensible_def)
  show "stateLocked big f = (True, spread)" if "filter_sample big f t = Some (c, spread, o1)" for f t c spread o1
    using filter_sample_Some [OF that] by simp
qed (rule filter_second_exact)

section \<open>Properties\<close>

text \<open>
  C30. Two questions answered are enough to play by: if the second answer was honest, from a server whose clock runs
  \<open>skew\<close> ahead of ours, a stamp of the server's is placed at its own moment to within the delay measured and the
  rounding of one microsecond, through every operation of the floating-point filter.
\<close>

theorem instant_placed:
  assumes "run_out (clock_step Update) (newClock newTimeFilter)
             [Question a1, Answer (Inr st1) now1, Question a2, Answer (Inr st2) now2] = (k, [Measured, Measured])"
    and "0 \<le> a1" "a1 \<le> now1" "0 < now1" "now1 < a2" "a2 \<le> t1" "t1 \<le> t2" "t2 \<le> now2" "now2 \<le> stampCeiling"
    and "ServerReceived st2 = t1 + skew" "ServerTransmitted st2 = t2 + skew"
    and "sensible (t + skew)" "\<bar>t\<bar> + measure_delay st2 now2 + 1 \<le> stampCeiling"
  shows "\<exists>c spread o1. filter_sample big (filt k) (t + skew) = Some (c, spread, o1)
           \<and> \<bar>c - t\<bar> \<le> measure_delay st2 now2 + 1"
  using assms by (rule sp_filter.two_answers_place)

definition demo_time_1 :: server_time where
  "demo_time_1 = \<lparr>ClientTransmitted = 100, ServerReceived = 1150, ServerTransmitted = 1180\<rparr>"

definition demo_time_2 :: server_time where
  "demo_time_2 = \<lparr>ClientTransmitted = 400, ServerReceived = 1440, ServerTransmitted = 1450\<rparr>"

theorem instant_placed_witness:
  "\<exists>k c spread o1. filter_sample (\<lambda>x. 0) (filt (k :: timeFilter sp_clock)) (5000 + 1000) = Some (c, spread, o1)
     \<and> \<bar>c - 5000\<bar> \<le> measure_delay demo_time_2 500 + 1"
proof -
  define k where "k = fst (run_out (clock_step Update) (newClock newTimeFilter)
     [Question 100, Answer (Inr demo_time_1) 300, Question 400, Answer (Inr demo_time_2) 500])"
  have "run_out (clock_step Update) (newClock newTimeFilter)
     [Question 100, Answer (Inr demo_time_1) 300, Question 400, Answer (Inr demo_time_2) 500] = (k, [Measured, Measured])"
    unfolding k_def
    by (simp add: observe_def answered_def ask_stamp_def newClock_def demo_time_1_def demo_time_2_def onAClock_def
        stampCeiling_def measure_delay_def)
  from instant_placed [OF this, of 440 450 1000 5000 "\<lambda>x. 0"] show ?thesis
    by (auto simp: demo_time_2_def sensible_def stampCeiling_def measure_delay_def)
qed

text \<open>
  C31. Whatever the server answers, and whatever the filter's numbers become (infinities and NaN among them), a chunk is
  placed within the ceiling of stamps from our clock's start, so the moment in nanoseconds fits 64 bits; and a lead is
  only told of a clock that has converged, with the spread it has.
\<close>

theorem moments_in_range:
  "(case When (E\<lparr>t_sample := filter_sample big\<rparr>) l t of None \<Rightarrow> True
     | Some m \<Rightarrow> \<bar>m - t_start E\<bar> \<le> stampCeiling * microsecond \<and> stampCeiling * microsecond < 2 ^ 63)
   \<and> (case Lead (E\<lparr>t_sample := filter_sample big\<rparr>) l t of None \<Rightarrow> True
     | Some (ld, spread, o1) \<Rightarrow> \<bar>ld + t_us E\<bar> \<le> stampCeiling \<and> stateLocked big (filt (clk l)) = (True, spread))"
  using sp_filter.When_near [of "E\<lparr>t_sample := filter_sample big\<rparr>" big l t]
    sp_filter.Lead_near [of "E\<lparr>t_sample := filter_sample big\<rparr>" big l t]
  by (auto simp: stampCeiling_def split: option.splits)

text \<open>
  However its measurements come, the filter's last stamp is the latest of them, its element in use is of that stamp,
  it counts no further than where it begins to forget, and a drift is used only from the third measurement on.
\<close>

theorem filter_in_step:
  "let f = measured ms
   in lastUpdate f = foldr (\<lambda>(m, err, t). max t) ms 0 \<and> el_lastUpdate (current f) = lastUpdate f
     \<and> updates f \<in> {0..adaptiveAfter} \<and> (if useDrift (current f) then 2 < updates f else True)"
  using measured_ok [of ms] measured_lastUpdate [of ms] by (auto simp: filter_ok_def Let_def)

end
