(* ===== verification/Sp_Workers.thy ===== *)
theory Sp_Workers
  imports Sp_Filter "HOL-Library.Sublist"
begin

text \<open>
  The goroutines of \<open>client.go\<close> and \<open>time.go\<close> beside a connection's loop: the pings, the time keeper, the reporter of the
  player's state and the two watchers, each a step of \<open>side\<close>, the connection with its workers.  The two channels of one
  place a session has, \<open>report\<close> and \<open>reformat\<close>, are flags.  A worker that cannot write closes the connection and is gone.
  The keeper of the delay and \<open>Serve\<close>, which start and outlive connections, come last.
\<close>

definition handshakeWait :: duration where "handshakeWait = 30 * second"
definition goodbyeWait :: duration where "goodbyeWait = 2 * second"
definition answerWait :: duration where "answerWait = 5 * second"

definition waitOr :: "duration \<Rightarrow> duration \<Rightarrow> duration" where
  "waitOr d fallback = (if d = 0 then fallback else d)"

datatype side_note = NoPing | NoAsk sess_error | NoReport sess_error | NoDeclare sess_error | NoFormat int sess_error
  | AskedFormat int | AskedTime time | TellsOther nat

text \<open>Where the time keeper is: to ask, awaiting the answer, pausing before the next question, or gone.\<close>

datatype keeper_phase = ToAsk | AwaitsAnswer time | Pauses time | KeeperGone

record 'f side =
  conn :: "'f link"
  nc_closed :: bool
  stop_closed :: bool
  report_due :: bool
  reformat_due :: bool
  pinging :: bool
  reports :: bool
  watches_volume :: bool
  watches_output :: bool
  timing :: keeper_phase
  has_rate :: bool
  asked_rate :: int
  told_bt :: bool
  told :: "side_note list"

definition new_side :: "bool \<Rightarrow> 'f link \<Rightarrow> 'f side" where
  "new_side hr l =
     \<lparr>conn = l, nc_closed = False, stop_closed = False, report_due = False, reformat_due = False, pinging = False,
      reports = False, watches_volume = False, watches_output = False, timing = KeeperGone, has_rate = hr,
      asked_rate = StreamRate, told_bt = False, told = []\<rparr>"

definition side_note :: "side_note \<Rightarrow> 'f side \<Rightarrow> 'f side" where
  "side_note n x = x\<lparr>told := told x @ [n]\<rparr>"

definition side_fails :: "side_note \<Rightarrow> 'f side \<Rightarrow> 'f side" where
  "side_fails n x = side_note n (x\<lparr>nc_closed := True\<rparr>)"

section \<open>The pings\<close>

definition keepalive_tick :: "'f side \<Rightarrow> 'f side" where
  "keepalive_tick x =
     (if \<not> pinging x then x
      else (case Ping (ws (sess (conn x))) of
          (good, w) \<Rightarrow>
            (let x1 = x\<lparr>conn := (conn x)\<lparr>sess := (sess (conn x))\<lparr>ws := w\<rparr>\<rparr>\<rparr>
             in if good then x1 else side_fails NoPing (x1\<lparr>pinging := False\<rparr>))))"

section \<open>The player's state\<close>

definition tellServer :: "'f side \<Rightarrow> 'f side" where
  "tellServer x =
     (case fst (reporting (cl (conn x))) of
        None \<Rightarrow> x
      | Some n \<Rightarrow> if n = sid (conn x) then x\<lparr>report_due := True\<rparr> else side_note (TellsOther n) x)"

text \<open>\<open>state\<close> with the availability the client holds, as the reporter and the output watcher call it.\<close>

definition report_state :: "('f, 'j) turn_env \<Rightarrow> bool \<Rightarrow> 'f link \<Rightarrow> sess_error option \<times> 'f link" where
  "report_state E av l =
     (case declared av (t_level E) (cl l) of (st, c) \<Rightarrow>
       case WriteJSON (t_enc E) (t_state E st) (sess l) of
         (Inl e, s) \<Rightarrow> (Some e, l\<lparr>cl := c, sess := s\<rparr>)
       | (Inr u, s) \<Rightarrow> (None, l\<lparr>cl := c, sess := s\<rparr>))"

definition reportDelays_turn :: "('f, 'j) turn_env \<Rightarrow> 'f side \<Rightarrow> 'f side" where
  "reportDelays_turn E x =
     (if \<not> reports x \<or> \<not> report_due x then x
      else (let x1 = x\<lparr>report_due := False\<rparr>
            in case reporting (cl (conn x1)) of (holder, av) \<Rightarrow>
                 if holder \<noteq> Some (sid (conn x1)) then x1
                 else (case report_state E av (conn x1) of
                     (None, l) \<Rightarrow> x1\<lparr>conn := l\<rparr>
                   | (Some e, l) \<Rightarrow> side_fails (NoReport e) (x1\<lparr>conn := l, reports := False\<rparr>))))"

definition watchVolume_tick :: "(int \<times> bool) option \<Rightarrow> 'f side \<Rightarrow> 'f side" where
  "watchVolume_tick lv x =
     (if \<not> watches_volume x then x
      else (let c = cl (conn x)
            in case level c lv of
                 None \<Rightarrow> x
               | Some (percent, on) \<Rightarrow>
                   if setsMute (Config c) \<and> toldMute c \<noteq> mutedAs on then tellServer x
                   else if setsVolume (Config c) \<and> toldVolume c \<noteq> percent + 1 then tellServer x
                   else x))"

section \<open>The output's rate\<close>

text \<open>The lead and buffer are declared before the rate is asked for; either write may fail.\<close>

definition output_declares :: "('f, 'j) turn_env \<Rightarrow> bool \<Rightarrow> 'f side \<Rightarrow> 'f side" where
  "output_declares E av x =
     (if bluetooth (cl (conn x)) = told_bt x then x
      else (case report_state E av (conn x) of
          (None, l) \<Rightarrow> x\<lparr>conn := l, told_bt := bluetooth (cl l)\<rparr>
        | (Some e, l) \<Rightarrow> side_fails (NoDeclare e) (x\<lparr>conn := l, watches_output := False\<rparr>)))"

definition output_asks :: "('f, 'j) turn_env \<Rightarrow> (int \<Rightarrow> bytes) \<Rightarrow> int \<Rightarrow> 'f side \<Rightarrow> 'f side" where
  "output_asks E fmt r x =
     (if r = asked_rate x then x
      else (case WriteJSON (t_enc E) (fmt r) (sess (conn x)) of
          (Inl e, s) \<Rightarrow> side_fails (NoFormat r e) (x\<lparr>conn := (conn x)\<lparr>sess := s\<rparr>, watches_output := False\<rparr>)
        | (Inr u, s) \<Rightarrow> side_note (AskedFormat r) (x\<lparr>conn := (conn x)\<lparr>sess := s\<rparr>, asked_rate := r\<rparr>)))"

definition watchOutput_look :: "('f, 'j) turn_env \<Rightarrow> (int \<Rightarrow> bytes) \<Rightarrow> int \<Rightarrow> 'f side \<Rightarrow> 'f side" where
  "watchOutput_look E fmt r x =
     (if \<not> watches_output x then x
      else (case reporting (cl (conn x)) of (holder, av) \<Rightarrow>
          if holder \<noteq> Some (sid (conn x)) then x
          else (let x1 = output_declares E av
                           (x\<lparr>conn := (conn x)\<lparr>cl := (cl (conn x))\<lparr>bluetooth := (r = BluetoothRate)\<rparr>\<rparr>\<rparr>)
                in if watches_output x1 then output_asks E fmt r x1 else x1)))"

definition watchOutput_reformat :: "'f side \<Rightarrow> 'f side" where
  "watchOutput_reformat x =
     (if watches_output x \<and> reformat_due x then x\<lparr>reformat_due := False, asked_rate := StreamRate\<rparr> else x)"

section \<open>Keeping time\<close>

text \<open>\<open>pause\<close>: it ends by the stop, which the keeper goes with, by being woken, or by its timer.\<close>

definition pause :: "bool \<Rightarrow> bool \<Rightarrow> bool \<Rightarrow> bool option" where
  "pause stops woken fired = (if stops then Some False else if woken \<or> fired then Some True else None)"

definition keepTime_turn ::
  "('f, 'j) turn_env \<Rightarrow> (int \<Rightarrow> bytes) \<Rightarrow> bool \<Rightarrow> 'f side \<Rightarrow> 'f side" where
  "keepTime_turn E body stops x =
     (case timing x of
        KeeperGone \<Rightarrow> x
      | ToAsk \<Rightarrow>
          (case ask (t_enc E) body (t_us E) (clk (conn x)) (sess (conn x)) of
             (k, Inl e, s) \<Rightarrow> side_fails (NoAsk e) (x\<lparr>conn := (conn x)\<lparr>clk := k, sess := s\<rparr>, timing := KeeperGone\<rparr>)
           | (k, Inr u, s) \<Rightarrow>
               side_note (AskedTime (t_now E))
                 (x\<lparr>conn := (conn x)\<lparr>clk := k, sess := s\<rparr>, timing := AwaitsAnswer (t_now E + answerWait)\<rparr>))
      | AwaitsAnswer d \<Rightarrow>
          (case pause (stops \<and> stop_closed x) (replied (clk (conn x))) (d \<le> t_now E) of
             None \<Rightarrow> x
           | Some False \<Rightarrow> x\<lparr>timing := KeeperGone\<rparr>
           | Some True \<Rightarrow>
               x\<lparr>conn := (conn x)\<lparr>clk := (clk (conn x))\<lparr>replied := False\<rparr>\<rparr>,
                 timing := Pauses (t_now E + ask_every (t_report E (filt (clk (conn x)))))\<rparr>)
      | Pauses d \<Rightarrow>
          (case pause (stops \<and> stop_closed x) False (d \<le> t_now E) of
             None \<Rightarrow> x
           | Some False \<Rightarrow> x\<lparr>timing := KeeperGone\<rparr>
           | Some True \<Rightarrow> x\<lparr>timing := ToAsk\<rparr>))"


section \<open>The loop and its workers\<close>

datatype worker = Pinger | Reporter | VolumeWatch | OutputWatch

fun worker_stops :: "worker \<Rightarrow> 'f side \<Rightarrow> 'f side" where
  "worker_stops Pinger x = x\<lparr>pinging := False\<rparr>"
| "worker_stops Reporter x = x\<lparr>reports := False\<rparr>"
| "worker_stops VolumeWatch x = x\<lparr>watches_volume := False\<rparr>"
| "worker_stops OutputWatch x = x\<lparr>watches_output := False\<rparr>"

text \<open>What the loop's turn asked of the workers; the first activation starts them.\<close>

fun side_effect :: "effect \<Rightarrow> 'f side \<Rightarrow> 'f side" where
  "side_effect SetIdleWait x = x\<lparr>pinging := True\<rparr>"
| "side_effect StartWorkers x =
     (let c = cl (conn x)
      in x\<lparr>timing := ToAsk, reports := True, watches_volume := (setsVolume (Config c) \<or> setsMute (Config c)),
           watches_output := has_rate x, asked_rate := StreamRate, told_bt := bluetooth c\<rparr>)"
| "side_effect TellServer x = tellServer x"
| "side_effect Reformat x = x\<lparr>reformat_due := True\<rparr>"
| "side_effect e x = x"

definition side_turn :: "('f, 'j) turn_env \<Rightarrow> byte \<times> bytes \<Rightarrow> 'f side \<Rightarrow> run_error option \<times> 'f side" where
  "side_turn E msg x =
     (case run_turn E msg (conn x) of
        (r, l) \<Rightarrow>
          (r, (foldl (\<lambda>y e. side_effect e y) (x\<lparr>conn := l\<rparr>) (drop (length (out (conn x))) (out l)))
                \<lparr>stop_closed := stop_closed x \<or> r \<noteq> None, nc_closed := nc_closed x \<or> r \<noteq> None\<rparr>))"

text \<open>\<open>SetDelay\<close> from the daemon.\<close>

definition SetDelay :: "(int \<Rightarrow> bool) \<Rightarrow> int \<Rightarrow> 'f side \<Rightarrow> 'f side \<times> int list" where
  "SetDelay fails ms x =
     (case takeDelay (HoldDelayMS ms) (cl (conn x)) of
        (changed, c) \<Rightarrow>
          if \<not> changed then (x\<lparr>conn := (conn x)\<lparr>cl := c\<rparr>\<rparr>, [])
          else (case keep fails c of (c1, saves) \<Rightarrow> (tellServer (x\<lparr>conn := (conn x)\<lparr>cl := c1\<rparr>\<rparr>), saves)))"

datatype ('f, 'j) side_event = STurn "('f, 'j) turn_env" "byte \<times> bytes" | SPing | SReport "('f, 'j) turn_env"
  | SVolume "(int \<times> bool) option" | SLook "('f, 'j) turn_env" "int \<Rightarrow> bytes" int | SReformat
  | STime "('f, 'j) turn_env" "int \<Rightarrow> bytes" bool | SStops worker | SDelay "int \<Rightarrow> bool" int | SOthers "conn_event list"

text \<open>A step of any of them; the loop's turns end with the first that fails.\<close>

fun side_step :: "'f side \<Rightarrow> ('f, 'j) side_event \<Rightarrow> 'f side" where
  "side_step x (STurn E msg) = (if stop_closed x then x else snd (side_turn E msg x))"
| "side_step x SPing = keepalive_tick x"
| "side_step x (SReport E) = reportDelays_turn E x"
| "side_step x (SVolume lv) = watchVolume_tick lv x"
| "side_step x (SLook E fmt r) = watchOutput_look E fmt r x"
| "side_step x SReformat = watchOutput_reformat x"
| "side_step x (STime E body stops) = keepTime_turn E body stops x"
| "side_step x (SStops w) = (if stop_closed x then worker_stops w x else x)"
| "side_step x (SDelay fails ms) = fst (SetDelay fails ms x)"
| "side_step x (SOthers es) = x\<lparr>conn := (conn x)\<lparr>cl := foldl conn_step (cl (conn x)) es\<rparr>\<rparr>"

section \<open>What a report leaves told\<close>

text \<open>The server has been told the level as it is.\<close>

definition level_told :: "(int \<times> bool) option \<Rightarrow> sp_client \<Rightarrow> bool" where
  "level_told lv c \<longleftrightarrow> (case level c lv of None \<Rightarrow> True | Some (percent, on) \<Rightarrow>
     (setsMute (Config c) \<longrightarrow> toldMute c = mutedAs on) \<and> (setsVolume (Config c) \<longrightarrow> toldVolume c = percent + 1))"

lemma declared_told: "declared av lv c = (st, c') \<Longrightarrow> level_told lv c' \<and> Config c' = Config c \<and> held c' = held c
    \<and> bluetooth c' = bluetooth c"
  by (auto simp: declared_def heldDelay_def takeKeptDelay_def level_told_def level_def Let_def
      split: option.splits prod.splits if_splits)

lemma report_state_told:
  assumes "report_state E av l = (r, l')"
  shows "level_told (t_level E) (cl l') \<and> Config (cl l') = Config (cl l) \<and> held (cl l') = held (cl l)
         \<and> bluetooth (cl l') = bluetooth (cl l) \<and> sid l' = sid l \<and> clk l' = clk l"
  using assms by (auto simp: report_state_def dest: declared_told split: prod.splits sum.splits)

lemma level_config: "Config c = Config d \<Longrightarrow> level c lv = level d lv"
  by (simp add: level_def)


text \<open>A state that says the level as it is, and the frames it goes out in: written whole, or the write failed.\<close>

definition carries_level :: "sp_config \<Rightarrow> (int \<times> bool) option \<Rightarrow> client_state \<Rightarrow> bool" where
  "carries_level cfg lv st \<longleftrightarrow> (case lv of None \<Rightarrow> st_volume st = None \<and> st_muted st = None
     | Some (percent, on) \<Rightarrow> st_volume st = (if setsVolume cfg then Some (HoldVolume percent) else None)
         \<and> st_muted st = (if setsMute cfg then Some on else None))"

definition frames_out :: "('f, 'j) turn_env \<Rightarrow> bytes \<Rightarrow> session \<Rightarrow> session \<Rightarrow> bool" where
  "frames_out E body s s' \<longleftrightarrow> (case sealed_from (t_enc E) (sent s) (typed_frames msgJSON body) of
     Some cs \<Rightarrow> tx (ws s') = tx (ws s) @ map (ws_frame opBinary) cs | None \<Rightarrow> False)"

definition cannot_write :: "('f, 'j) turn_env \<Rightarrow> bytes \<Rightarrow> session \<Rightarrow> bool" where
  "cannot_write E body s \<longleftrightarrow> \<not> healthy (ws s) \<or> sealed_from (t_enc E) (sent s) (typed_frames msgJSON body) = None"

lemma WriteJSON_writes:
  assumes "WriteJSON (t_enc E) body s = (r, s')"
  shows "case r of Inr u \<Rightarrow> frames_out E body s s' | Inl e \<Rightarrow> cannot_write E body s"
proof -
  have k: "msgJSON \<noteq> msgFragment" by (simp add: msgJSON_def msgFragment_def)
  show ?thesis
  proof (cases r)
    case (Inr u)
    then have "seal_all (t_enc E) (typed_frames msgJSON body) s = (Inr (), s')"
      using assms k by (auto simp: WriteJSON_def WriteTyped_def split: prod.splits sum.splits)
    from seal_all_written [OF this] show ?thesis by (auto simp: Inr frames_out_def)
  next
    case (Inl e)
    then obtain e' where "seal_all (t_enc E) (typed_frames msgJSON body) s = (Inl e', s')"
      using assms k by (auto simp: WriteJSON_def WriteTyped_def split: prod.splits sum.splits)
    then have "\<not> (healthy (ws s) \<and> (\<exists>cs. sealed_from (t_enc E) (sent s) (typed_frames msgJSON body) = Some cs))"
      using seal_all_writes [of s "t_enc E" "typed_frames msgJSON body"] by (metis Inl_Inr_False prod.inject)
    then show ?thesis by (auto simp: Inl cannot_write_def)
  qed
qed

lemma declared_carries: "declared av lv c = (st, c') \<Longrightarrow> carries_level (Config c) lv st \<and> st_available st = av"
  by (auto simp: declared_def heldDelay_def takeKeptDelay_def carries_level_def level_def setsVolume_def setsMute_def Let_def
      split: option.splits prod.splits if_splits)

lemma report_state_writes:
  assumes "report_state E av l = (r, l')"
  shows "\<exists>st. carries_level (Config (cl l)) (t_level E) st \<and> st_available st = av
    \<and> (case r of None \<Rightarrow> frames_out E (t_state E st) (sess l) (sess l') | Some e \<Rightarrow> cannot_write E (t_state E st) (sess l))"
proof -
  obtain st c where d: "declared av (t_level E) (cl l) = (st, c)" by fastforce
  obtain q s where w: "WriteJSON (t_enc E) (t_state E st) (sess l) = (q, s)" by fastforce
  show ?thesis using assms d w declared_carries [OF d] WriteJSON_writes [OF w]
    by (intro exI [of _ st]) (auto simp: report_state_def split: sum.splits)
qed

lemma watchVolume_sees:
  assumes "watches_volume x" "held (cl (conn x)) = Some (sid (conn x))"
  shows "watchVolume_tick lv x = (if level_told lv (cl (conn x)) then x else x\<lparr>report_due := True\<rparr>)"
  using assms
  by (auto simp: watchVolume_tick_def tellServer_def reporting_def level_told_def Let_def split: option.splits)

text \<open>What a turn of the reporter does for the holder when a report is due.\<close>

lemma reportDelays_tells:
  assumes "reports x" "report_due x" "held (cl (conn x)) = Some (sid (conn x))" "y = reportDelays_turn E x"
  shows "level_told (t_level E) (cl (conn y)) \<and>
    (\<exists>st. carries_level (Config (cl (conn x))) (t_level E) st \<and> st_available st = heldReady (cl (conn x)) \<and>
      (if nc_closed y \<and> \<not> reports y then cannot_write E (t_state E st) (sess (conn x))
       else frames_out E (t_state E st) (sess (conn x)) (sess (conn y)) \<and> reports y \<and> nc_closed y = nc_closed x))"
proof -
  obtain r l where r: "report_state E (heldReady (cl (conn x))) (conn (x\<lparr>report_due := False\<rparr>)) = (r, l)" by fastforce
  have y: "y = (case r of None \<Rightarrow> x\<lparr>report_due := False, conn := l\<rparr>
      | Some e \<Rightarrow> side_fails (NoReport e) (x\<lparr>report_due := False, conn := l, reports := False\<rparr>))"
    using assms r by (simp add: reportDelays_turn_def reporting_def Let_def)
  then have "conn y = l" by (simp add: side_fails_def side_note_def split: option.splits)
  then show ?thesis
    using report_state_told [OF r] report_state_writes [OF r] y assms(1)
    by (cases r) (auto simp: side_fails_def side_note_def)
qed

text \<open>
  C33. A level that has changed reaches the server that holds the player. Once the watcher has ticked and the reporter has
  had its turn, the level last told is the level as it is; and where it was not told before, or a report was due, one
  message has been written: a state that carries the level (the volume held to 0 to 100, the mute, each where this player
  sets it) and the availability, its frames sealed in turn and put on the socket. The one way that does not happen is that
  the write failed, the cipher refusing or the socket not taking it, and then the connection is closed. A level already
  told is not written again.
\<close>

theorem level_reaches_server:
  assumes "watches_volume x" "reports x" "held (cl (conn x)) = Some (sid (conn x))" "t_level E = lv"
  shows "let y = reportDelays_turn E (watchVolume_tick lv x); s = sess (conn x); cfg = Config (cl (conn x))
         in level_told lv (cl (conn y))
            \<and> (if level_told lv (cl (conn x)) \<and> \<not> report_due x then y = x
               else \<exists>st. carries_level cfg lv st \<and> st_available st = heldReady (cl (conn x))
                 \<and> (if nc_closed y \<and> \<not> reports y then cannot_write E (t_state E st) s
                    else frames_out E (t_state E st) s (sess (conn y)) \<and> reports y \<and> nc_closed y = nc_closed x))"
proof -
  define w where "w = watchVolume_tick lv x"
  have w: "w = (if level_told lv (cl (conn x)) then x else x\<lparr>report_due := True\<rparr>)"
    using watchVolume_sees [OF assms(1,3)] by (simp add: w_def)
  show ?thesis
  proof (cases "report_due w")
    case True
    then have f: "reports w" "held (cl (conn w)) = Some (sid (conn w))" "conn w = conn x" "nc_closed w = nc_closed x"
      "\<not> (level_told lv (cl (conn x)) \<and> \<not> report_due x)"
      using w assms by (auto split: if_splits)
    from reportDelays_tells [OF f(1) True f(2) refl, of E, unfolded f(3,4) assms(4)]
    show ?thesis unfolding Let_def w_def [symmetric] if_not_P [OF f(5)] .
  next
    case False
    then have "level_told lv (cl (conn x))" "w = x" "\<not> report_due x" using w by (auto split: if_splits)
    then show ?thesis by (simp add: Let_def reportDelays_turn_def flip: w_def)
  qed
qed

text \<open>
  Once the output watcher of the holder has looked, the server has been told what this output needs and asked for its
  rate, or the connection is closed.
\<close>

theorem output_follows:
  assumes "watches_output x" "held (cl (conn x)) = Some (sid (conn x))"
  shows "let y = watchOutput_look E fmt r x
         in nc_closed y
            \<or> (bluetooth (cl (conn y)) = (r = BluetoothRate) \<and> told_bt y = bluetooth (cl (conn y)) \<and> asked_rate y = r)"
proof -
  define x1 where "x1 = x\<lparr>conn := (conn x)\<lparr>cl := (cl (conn x))\<lparr>bluetooth := (r = BluetoothRate)\<rparr>\<rparr>\<rparr>"
  define av where "av = heldReady (cl (conn x))"
  define x2 where "x2 = output_declares E av x1"
  have d: "nc_closed x2 \<or> (watches_output x2 \<and> bluetooth (cl (conn x2)) = (r = BluetoothRate)
      \<and> told_bt x2 = bluetooth (cl (conn x2)))"
  proof (cases "bluetooth (cl (conn x1)) = told_bt x1")
    case False
    obtain q l where q: "report_state E av (conn x1) = (q, l)" by fastforce
    show ?thesis using report_state_told [OF q] False q assms(1)
      by (auto simp: x2_def output_declares_def side_fails_def side_note_def x1_def split: option.splits)
  qed (use assms(1) in \<open>simp add: x2_def output_declares_def x1_def\<close>)
  have "nc_closed (output_asks E fmt r x2) \<or> asked_rate (output_asks E fmt r x2) = r
      \<and> bluetooth (cl (conn (output_asks E fmt r x2))) = bluetooth (cl (conn x2))
      \<and> told_bt (output_asks E fmt r x2) = told_bt x2"
    by (auto simp: output_asks_def side_fails_def side_note_def split: prod.splits sum.splits)
  moreover have "nc_closed x2 \<Longrightarrow> nc_closed (output_asks E fmt r x2)"
    by (auto simp: output_asks_def side_fails_def side_note_def split: prod.splits sum.splits)
  moreover have "watchOutput_look E fmt r x = (if watches_output x2 then output_asks E fmt r x2 else x2)"
    using assms by (simp add: watchOutput_look_def reporting_def Let_def x2_def x1_def av_def)
  ultimately show ?thesis using d by (auto simp: Let_def)
qed

section \<open>Workers are started once\<close>

definition starts :: "effect list \<Rightarrow> nat" where
  "starts es = length (filter (\<lambda>e. case e of StartWorkers \<Rightarrow> True | _ \<Rightarrow> False) es)"

lemma starts_simps [simp]: "starts [] = 0" "starts (es @ fs) = starts es + starts fs"
  "starts (e # es) = (case e of StartWorkers \<Rightarrow> 1 | _ \<Rightarrow> 0) + starts es"
  by (simp_all add: starts_def split: effect.splits)

lemma starts_none: "(\<And>x. f x \<noteq> StartWorkers) \<Longrightarrow> starts (map f xs) = 0"
  by (induction xs) (auto split: effect.splits)

lemma starts_map [simp]: "starts (map Call cs) = 0" "starts (map Report rs) = 0" "starts (map Saved ms) = 0"
  "starts (map Say ns) = 0"
  by (rule starts_none; simp)+

text \<open>What has been emitted since \<open>b\<close>, with the workers started as often as \<open>stated\<close> says.\<close>

definition grown :: "effect list \<Rightarrow> 'f link \<Rightarrow> bool" where
  "grown b l \<longleftrightarrow> prefix b (out l) \<and> starts (out l) = (if stated l then 1 else 0)"

lemma grown_emit: "grown b l \<Longrightarrow> starts es = 0 \<Longrightarrow> grown b (emit_out es l)"
  by (simp add: grown_def emit_out_def)

lemma grown_upd [simp]:
  "grown b (l\<lparr>sess := s\<rparr>) = grown b l" "grown b (l\<lparr>cl := c\<rparr>) = grown b l" "grown b (l\<lparr>clk := k\<rparr>) = grown b l"
  "grown b (l\<lparr>synced := q\<rparr>) = grown b l" "grown b (l\<lparr>available := q\<rparr>) = grown b l"
  "grown b (l\<lparr>rolelessTimer := t\<rparr>) = grown b l" "grown b (l\<lparr>rolelessSince := t\<rparr>) = grown b l"
  "grown b (l\<lparr>rolelessSpent := d\<rparr>) = grown b l" "grown b (l\<lparr>noted := ns\<rparr>) = grown b l"
  "grown b (l\<lparr>pb := p\<rparr>) = grown b l" "grown b (l\<lparr>heard := h\<rparr>) = grown b l"
  by (simp_all add: grown_def)

lemma grown_once: "grown b l \<Longrightarrow> grown b (once n l)"
  by (auto simp: once_def intro!: grown_emit split: prod.splits)

lemma grown_count: "grown b l \<Longrightarrow> grown b (count_event e l)"
  by (auto simp: count_event_def intro!: grown_emit split: prod.splits)

lemma grown_play: "grown b l \<Longrightarrow> grown b (play_calls e l)"
  by (auto simp: play_calls_def intro!: grown_emit split: prod.splits)

lemma grown_declare: "declare_state E l = (r, l') \<Longrightarrow> grown b l' = grown b l"
  by (auto simp: declare_state_def split: prod.splits sum.splits)

lemma grown_heard: "grown b l \<Longrightarrow> grown b (heard_done E l)" "grown b l \<Longrightarrow> grown b (heard_report E l)"
  "grown b l \<Longrightarrow> grown b (heard_tick E l)"
  by (simp_all add: heard_done_def heard_report_def heard_tick_def grown_count)

lemmas grown_intros = grown_emit grown_once grown_count grown_play grown_heard

lemma grown_handlers:
  "grown b l \<Longrightarrow> on_binary E kind body l = (r, l') \<Longrightarrow> grown b l'"
  "grown b l \<Longrightarrow> on_group E p l = (r, l') \<Longrightarrow> grown b l'"
  "grown b l \<Longrightarrow> on_time E p l = (r, l') \<Longrightarrow> grown b l'"
  "grown b l \<Longrightarrow> on_start E p l = (r, l') \<Longrightarrow> grown b l'"
  "grown b l \<Longrightarrow> on_end E p l = (r, l') \<Longrightarrow> grown b l'"
  "grown b l \<Longrightarrow> on_clear E p l = (r, l') \<Longrightarrow> grown b l'"
  "grown b l \<Longrightarrow> on_command E p l = (r, l') \<Longrightarrow> grown b l'"
  by (auto simp: on_binary_def on_group_def on_time_def on_start_def on_end_def on_clear_def on_command_def
      set_volume_def set_mute_def set_delay_def play_stop_now_def Let_def grown_declare
      intro!: grown_intros split: if_splits option.splits sum.splits prod.splits)

lemma grown_lost: "grown b l \<Longrightarrow> lost_roles E l = (r, l') \<Longrightarrow> grown b l'"
  by (auto simp: lost_roles_def Let_def intro!: grown_intros split: option.splits if_splits)

lemma spend_roleless_grown [simp]: "grown b (spend_roleless E l) = grown b l" "stated (spend_roleless E l) = stated l"
  by (simp_all add: spend_roleless_def split: option.splits)

lemma grown_gained:
  assumes "grown b l" "gained_roles E rs l = (r, l')"
  shows "grown b l'"
proof (cases "hold (sid l) (available l) (cl l)")
  case (Pair x c)
  show ?thesis
  proof (cases x)
    case (Inl e)
    then show ?thesis using assms Pair by (auto simp: gained_roles_def Let_def)
  next
    case (Inr u)
    let ?l1 = "spend_roleless E (l\<lparr>cl := c\<rparr>)"
    let ?l0 = "emit_out [SetIdleWait] (?l1\<lparr>sess := (sess ?l1)\<lparr>ws := setIdle idleWait (ws (sess ?l1))\<rparr>\<rparr>)"
    obtain r2 l2 where d: "declare_state E ?l0 = (r2, l2)" by fastforce
    have g: "grown b l2" using grown_declare [OF d] assms(1) by (simp add: grown_emit)
    have s: "stated l2 = stated l" using d by (auto simp: declare_state_def emit_out_def split: prod.splits sum.splits)
    have "grown b (emit_out [StartWorkers] (l2\<lparr>stated := True\<rparr>))" if "\<not> stated l"
      using g s that by (simp add: grown_def emit_out_def)
    then show ?thesis using assms Pair Inr d g
      by (auto simp: gained_roles_def Let_def intro!: grown_once grown_emit split: if_splits option.splits)
  qed
qed

lemma grown_activate:
  assumes "grown b l" "on_activate E p l = (r, l')"
  shows "grown b l'"
proof (cases "Activate (t_enc E) (sj (t_json E)) (dj_activate (t_json E) p) (sess l)")
  case (Pair x s)
  show ?thesis
  proof (cases x)
    case (Inl e)
    then show ?thesis using assms Pair by (auto simp: on_activate_def)
  next
    case (Inr rs)
    define l2 where "l2 = (if \<not> holdsPlayer rs then play_stop_now (heard_done E (l\<lparr>sess := s\<rparr>)) else l\<lparr>sess := s\<rparr>)"
    have "(if rs = [] then lost_roles E l2 else gained_roles E rs l2) = (r, l')"
      using assms(2) Inr unfolding on_activate_def Pair Inr prod.case sum.case Let_def l2_def by blast
    moreover have "grown b l2" using assms(1) by (simp add: l2_def play_stop_now_def grown_play grown_heard)
    ultimately show ?thesis using grown_lost grown_gained by (metis (full_types))
  qed
qed

lemma run_turn_grown: "grown b l \<Longrightarrow> run_turn E msg l = (r, l') \<Longrightarrow> grown b l'"
  by (auto simp: run_turn_def on_json_def Let_def grown_once grown_heard
      dest: grown_handlers [OF grown_heard(3), rotated] grown_activate [OF grown_heard(3), rotated]
      split: prod.splits if_splits option.splits)

lemma run_turn_starts:
  assumes "grown [] l" "run_turn E msg l = (r, l')"
  shows "grown [] l' \<and> (\<exists>es. out l' = out l @ es \<and> starts es = (if stated l' \<and> \<not> stated l then 1 else 0))
         \<and> (stated l \<longrightarrow> stated l')"
proof -
  have "grown (out l) l" using assms(1) by (simp add: grown_def)
  then have g: "grown (out l) l'" by (rule run_turn_grown [OF _ assms(2)])
  then obtain es where es: "out l' = out l @ es" by (auto simp: grown_def prefix_def)
  then have "starts (out l) + starts es = (if stated l' then 1 else 0)" using g by (simp add: grown_def)
  then show ?thesis using assms(1) g es by (auto simp: grown_def split: if_splits)
qed


section \<open>Questions are paced\<close>

fun asked_times :: "side_note list \<Rightarrow> time list" where
  "asked_times [] = []"
| "asked_times (AskedTime t # ns) = t # asked_times ns"
| "asked_times (n # ns) = asked_times ns"

lemma asked_times_append [simp]: "asked_times (xs @ ys) = asked_times xs @ asked_times ys"
  by (induction xs rule: asked_times.induct) auto

definition asks :: "'f side \<Rightarrow> time list" where
  "asks x = asked_times (told x)"

definition paced :: "duration \<Rightarrow> time list \<Rightarrow> bool" where
  "paced d ts \<longleftrightarrow> sorted_wrt (\<lambda>a b. a + d \<le> b) ts"

text \<open>What a step of another worker leaves as it is.\<close>

definition same_time :: "'f side \<Rightarrow> 'f side \<Rightarrow> bool" where
  "same_time x y \<longleftrightarrow> timing y = timing x \<and> asks y = asks x \<and> out (conn y) = out (conn x) \<and> stated (conn y) = stated (conn x)"

lemma same_time_trans: "same_time x y \<Longrightarrow> same_time y z \<Longrightarrow> same_time x z"
  by (simp add: same_time_def)

lemma report_state_same: "report_state E av l = (r, l') \<Longrightarrow> out l' = out l \<and> stated l' = stated l"
  by (auto simp: report_state_def split: prod.splits sum.splits)

lemma same_time_tell: "same_time x (tellServer x)"
  by (auto simp: same_time_def tellServer_def side_note_def asks_def split: option.splits)

lemma same_time_output: "same_time x (output_declares E av x)" "same_time x (output_asks E fmt r x)"
  by (auto simp: same_time_def output_declares_def output_asks_def side_fails_def side_note_def asks_def
      dest: report_state_same split: prod.splits option.splits sum.splits)

lemma same_time_look: "same_time x (watchOutput_look E fmt r x)"
proof -
  define x1 where "x1 = x\<lparr>conn := (conn x)\<lparr>cl := (cl (conn x))\<lparr>bluetooth := (r = BluetoothRate)\<rparr>\<rparr>\<rparr>"
  define x2 where "x2 = output_declares E (heldReady (cl (conn x))) x1"
  have "same_time x x1" by (simp add: same_time_def x1_def asks_def)
  moreover have "same_time x1 x2" unfolding x2_def by (rule same_time_output)
  ultimately have x2: "same_time x x2" by (rule same_time_trans)
  then have "same_time x (output_asks E fmt r x2)" by (rule same_time_trans [OF _ same_time_output(2)])
  moreover have "watchOutput_look E fmt r x = x
      \<or> watchOutput_look E fmt r x = (if watches_output x2 then output_asks E fmt r x2 else x2)"
    by (simp add: watchOutput_look_def reporting_def Let_def flip: x1_def x2_def)
  moreover have "same_time x x" by (simp add: same_time_def)
  ultimately show ?thesis using x2 by (cases "watches_output x2") auto
qed

lemma same_time_others:
  "same_time x (keepalive_tick x)" "same_time x (reportDelays_turn E x)" "same_time x (watchVolume_tick lv x)"
  "same_time x (watchOutput_reformat x)" "same_time x (worker_stops w x)"
  using same_time_tell [of x]
  by (auto simp: same_time_def keepalive_tick_def reportDelays_turn_def watchVolume_tick_def watchOutput_reformat_def
      side_fails_def side_note_def asks_def Let_def dest: report_state_same
      split: prod.splits option.splits) (cases w; simp)+

lemma same_time_delay: "same_time x (fst (SetDelay fails ms x))"
proof -
  have "same_time x (x\<lparr>conn := (conn x)\<lparr>cl := c\<rparr>\<rparr>)" for c by (simp add: same_time_def asks_def)
  note c = this
  obtain changed c0 where t: "takeDelay (HoldDelayMS ms) (cl (conn x)) = (changed, c0)" by fastforce
  obtain c1 saves where k: "keep fails c0 = (c1, saves)" by fastforce
  show ?thesis using c [of c0] same_time_trans [OF c [of c1] same_time_tell] by (simp add: SetDelay_def t k)
qed

lemma same_time_effect: "(case e of StartWorkers \<Rightarrow> False | _ \<Rightarrow> True) \<Longrightarrow> same_time x (side_effect e x)"
  by (cases e) (use same_time_tell [of x] in \<open>auto simp: same_time_def asks_def\<close>)

definition effects :: "effect list \<Rightarrow> 'f side \<Rightarrow> 'f side" where
  "effects es x = foldl (\<lambda>y e. side_effect e y) x es"

lemma effects_simps [simp]: "effects [] x = x" "effects (e # es) x = effects es (side_effect e x)"
  by (simp_all add: effects_def)

lemma side_effect_conn: "out (conn (side_effect e x)) = out (conn x) \<and> stated (conn (side_effect e x)) = stated (conn x)
    \<and> asks (side_effect e x) = asks x"
  using same_time_effect [of e x] by (cases e) (auto simp: same_time_def asks_def Let_def)

lemma effects_time:
  "out (conn (effects es x)) = out (conn x) \<and> stated (conn (effects es x)) = stated (conn x) \<and> asks (effects es x) = asks x
   \<and> timing (effects es x) = (if starts es = 0 then timing x else ToAsk)"
proof (induction es arbitrary: x)
  case (Cons e es)
  have "timing (side_effect e x) = (case e of StartWorkers \<Rightarrow> ToAsk | _ \<Rightarrow> timing x)"
    using same_time_effect [of e x] by (cases e) (auto simp: same_time_def Let_def)
  then show ?case using Cons [of "side_effect e x"] side_effect_conn [of e x] by (auto split: effect.splits)
qed simp

definition times_ok :: "time \<Rightarrow> 'f side \<Rightarrow> bool" where
  "times_ok now x \<longleftrightarrow>
     grown [] (conn x) \<and> (\<not> stated (conn x) \<longrightarrow> timing x = KeeperGone \<and> asks x = []) \<and> paced askFast (asks x)
     \<and> (\<forall>a \<in> set (asks x). case timing x of
          ToAsk \<Rightarrow> a + askFast \<le> now | AwaitsAnswer d \<Rightarrow> a \<le> now | Pauses d \<Rightarrow> a + askFast \<le> d | KeeperGone \<Rightarrow> True)"

lemma same_time_ok: "same_time x y \<Longrightarrow> times_ok now x \<Longrightarrow> times_ok now y"
  by (simp add: same_time_def times_ok_def grown_def)

lemma later_ok: "times_ok now x \<Longrightarrow> now \<le> now' \<Longrightarrow> times_ok now' x"
  by (fastforce simp: times_ok_def split: keeper_phase.splits)

lemma askFast_le: "askFast \<le> ask_every st"
  by (simp add: ask_every_def askFast_def askBrisk_def askSteady_def askCalm_def split: prod.splits)

lemma keepTime_ok:
  assumes "times_ok now x" "now \<le> t_now E"
  shows "times_ok (t_now E) (keepTime_turn E body stops x)"
proof -
  have ok: "times_ok (t_now E) x" by (rule later_ok [OF assms])
  show ?thesis
  proof (cases "timing x")
    case ToAsk
    obtain k r s where a: "ask (t_enc E) body (t_us E) (clk (conn x)) (sess (conn x)) = (k, r, s)" by (metis prod_cases3)
    have "\<forall>t \<in> set (asks x). t \<le> t_now E" using ok ToAsk by (auto simp: times_ok_def askFast_def)
    then show ?thesis
      using ok ToAsk a
      by (cases r)
        (auto simp: keepTime_turn_def times_ok_def side_fails_def side_note_def asks_def paced_def grown_def sorted_wrt_append)
  next
    case (AwaitsAnswer d)
    then show ?thesis using ok askFast_le [of "t_report E (filt (clk (conn x)))"]
      by (auto simp: keepTime_turn_def times_ok_def asks_def grown_def pause_def split: if_splits)
  next
    case (Pauses d)
    then show ?thesis using ok
      by (force simp: keepTime_turn_def times_ok_def asks_def grown_def pause_def split: if_splits)
  qed (use ok in \<open>simp add: keepTime_turn_def\<close>)
qed

lemma side_turn_ok:
  assumes "times_ok now x" "side_turn E msg x = (r, y)"
  shows "times_ok now y"
proof -
  obtain q l where t: "run_turn E msg (conn x) = (q, l)" by fastforce
  define es where "es = drop (length (out (conn x))) (out l)"
  define z where "z = effects es (x\<lparr>conn := l\<rparr>)"
  have g: "grown [] (conn x)" using assms(1) by (simp add: times_ok_def)
  from run_turn_starts [OF g t] have l: "grown [] l" "starts es = (if stated l \<and> \<not> stated (conn x) then 1 else 0)"
    "stated (conn x) \<longrightarrow> stated l" by (auto simp: es_def)
  have y: "y = z\<lparr>stop_closed := stop_closed x \<or> q \<noteq> None, nc_closed := nc_closed x \<or> q \<noteq> None\<rparr>"
    using assms(2) t by (auto simp: side_turn_def z_def es_def effects_def)
  have z: "out (conn z) = out l" "stated (conn z) = stated l" "asks z = asks x"
    "timing z = (if starts es = 0 then timing x else ToAsk)"
    using effects_time [of es "x\<lparr>conn := l\<rparr>"] by (simp_all add: z_def asks_def)
  have "same_time z y" by (simp add: y same_time_def asks_def)
  moreover have "times_ok now z"
    using assms(1) l z by (auto simp: times_ok_def grown_def split: if_splits)
  ultimately show ?thesis by (rule same_time_ok)
qed

fun event_times :: "('f, 'j) side_event \<Rightarrow> time list" where
  "event_times (STime E body stops) = [t_now E]"
| "event_times e = []"

lemma side_step_ok:
  assumes "times_ok now x" "\<forall>t \<in> set (event_times e). now \<le> t"
  shows "times_ok (last (now # event_times e)) (side_step x e)"
proof (cases e)
  case (STurn E msg)
  obtain r y where y: "side_turn E msg x = (r, y)" by fastforce
  then show ?thesis using STurn assms(1) side_turn_ok [OF assms(1) y] by simp
next
  case (STime E body stops)
  then show ?thesis using assms keepTime_ok by simp
next
  case (SOthers es)
  then show ?thesis using assms(1) by (simp add: times_ok_def asks_def grown_def)
qed (use assms(1) in \<open>auto intro: same_time_ok [OF same_time_others(1)] same_time_ok [OF same_time_others(2)]
    same_time_ok [OF same_time_others(3)] same_time_ok [OF same_time_others(4)] same_time_ok [OF same_time_others(5)]
    same_time_ok [OF same_time_look] same_time_ok [OF same_time_delay]\<close>)

lemma side_run_ok:
  "times_ok now x \<Longrightarrow> sorted (now # concat (map event_times es)) \<Longrightarrow> \<exists>now'. times_ok now' (foldl side_step x es)"
proof (induction es arbitrary: now x)
  case (Cons e es)
  have "event_times e = [] \<or> (\<exists>t. event_times e = [t])" by (cases e) auto
  then have "sorted (last (now # event_times e) # concat (map event_times es))" "\<forall>t \<in> set (event_times e). now \<le> t"
    using Cons.prems(2) by auto
  from Cons.IH [OF side_step_ok [OF Cons.prems(1) this(2)] this(1)] show ?case by simp
qed auto

text \<open>
  C34. However fast a server answers and whatever the other workers and the loop do, questions of the time are never put to it
  nearer than the shortest pause: two in a row are 200 ms apart.
\<close>

theorem asks_paced:
  assumes "fresh_link l" "\<not> stated l" "sorted (concat (map event_times es))"
  shows "paced askFast (asks (foldl side_step (new_side hr l) es))"
proof -
  define ts where "ts = concat (map event_times es)"
  define now where "now = (case ts of [] \<Rightarrow> 0 | t # rest \<Rightarrow> t)"
  have "times_ok now (new_side hr l)"
    using assms(1,2) by (simp add: times_ok_def new_side_def fresh_link_def grown_def asks_def paced_def)
  moreover have "sorted (now # ts)"
    using assms(3) unfolding ts_def [symmetric] now_def by (cases ts) auto
  ultimately obtain now' where "times_ok now' (foldl side_step (new_side hr l) es)"
    unfolding ts_def using side_run_ok by blast
  then show ?thesis by (simp add: times_ok_def)
qed


definition demo_side :: "unit side" where
  "demo_side = (new_side True demo_held)\<lparr>reports := True, watches_volume := True, watches_output := True\<rparr>"

lemma demo_side_fields:
  "watches_volume demo_side" "reports demo_side" "watches_output demo_side"
  "held (cl (conn demo_side)) = Some (sid (conn demo_side))"
  by (simp_all add: demo_side_def new_side_def demo_held_def demo_link_def)

text \<open>A player that has told no level yet is turned to 40.\<close>

theorem level_reaches_server_witness:
  "let E = demo_env 3\<lparr>t_level := Some (40, False)\<rparr>; y = reportDelays_turn E (watchVolume_tick (Some (40, False)) demo_side)
   in level_told (Some (40, False)) (cl (conn y)) \<and> \<not> level_told (Some (40, False)) (cl (conn demo_side))
     \<and> (\<exists>st. st_volume st = Some 40 \<and> st_muted st = Some False
          \<and> (if nc_closed y \<and> \<not> reports y then cannot_write E (t_state E st) (sess (conn demo_side))
             else frames_out E (t_state E st) (sess (conn demo_side)) (sess (conn y))))"
proof -
  let ?E = "demo_env 3\<lparr>t_level := Some (40, False)\<rparr>"
  have n: "\<not> level_told (Some (40, False)) (cl (conn demo_side))"
    by (simp add: level_told_def level_def demo_side_def new_side_def demo_held_def demo_client_def demo_cfg_def
        setsMute_def setsVolume_def mutedAs_def)
  have c: "carries_level (Config (cl (conn demo_side))) (Some (40, False)) st
      \<longleftrightarrow> st_volume st = Some 40 \<and> st_muted st = Some False" for st
    by (simp add: carries_level_def demo_side_def new_side_def demo_held_def demo_client_def demo_cfg_def
        setsMute_def setsVolume_def HoldVolume_def)
  have "t_level ?E = Some (40, False)" by simp
  from level_reaches_server [OF demo_side_fields(1,2,4) this] n
  show ?thesis unfolding Let_def c by (auto simp: n)
qed

theorem output_follows_witness:
  "let y = watchOutput_look (demo_env 3) (\<lambda>r. [5]) BluetoothRate demo_side
   in nc_closed y \<or> (bluetooth (cl (conn y)) = (BluetoothRate = BluetoothRate)
        \<and> told_bt y = bluetooth (cl (conn y)) \<and> asked_rate y = BluetoothRate)"
  by (rule output_follows) (simp_all add: demo_side_fields)

theorem asks_paced_witness:
  "paced askFast (asks (foldl side_step (new_side True demo_link)
     [STurn (demo_env 1) (0, [1]), STime (demo_env 2) (\<lambda>t. [6]) False, STime (demo_env 900) (\<lambda>t. [6]) False]))"
  by (rule asks_paced [OF demo_fresh]) (simp_all add: demo_link_def demo_env_def)


section \<open>A connection served\<close>

text \<open>
  \<open>serveConn\<close> from the socket on: each part may be the last.  \<open>serve_env\<close> is what a connection is served with, its bytes
  and what its turns read; \<open>s_dl\<close> is whether the deadlines can be set, before the upgrade and before the loop.
\<close>

record ('f, 'h, 'j) serve_env =
  s_dl :: "bool \<times> bool"
  s_sha1 :: "bytes \<Rightarrow> bytes"
  s_sha256 :: "bytes \<Rightarrow> bytes"
  s_wok :: "nat \<Rightarrow> bool"
  s_bytes :: bytes
  s_hs :: "'h hs_json"
  s_noise :: noise_kk
  s_keys :: keys
  s_pairing :: bytes
  s_enc :: cipher
  s_dec :: cipher
  s_json :: "'j sp_json"
  s_fresh :: 'f
  s_every :: duration
  s_turns :: "('f, 'j) link_event list"
  s_last :: "('f, 'j) turn_env"

datatype serve_end = EndDeadline | EndUpgrade upgrade_error | EndHandshake hs_error | EndGreet sess_error
  | EndRun link_end | StillServing

definition SpPath :: string where "SpPath = ''/sendspin''"

definition begun_link :: "'f \<Rightarrow> duration \<Rightarrow> nat \<Rightarrow> session \<Rightarrow> sp_client \<Rightarrow> 'f link" where
  "begun_link fresh every n s c =
     \<lparr>sess = s, sid = n, cl = c, clk = newClock fresh, stated = False, synced = False, available = False,
      rolelessTimer = None, rolelessSince = None, rolelessSpent = 0, noted = [],
      pb = \<lparr>has_player = HasPlayer c, stream = None, prate = 0, opened = 0, saidShut = False, saidNoClock = False, saidRefused = False\<rparr>,
      heard = new_run every, out = []\<rparr>"

definition serveConn ::
  "('f, 'h, 'j) serve_env \<Rightarrow> nat \<Rightarrow> nat \<Rightarrow> sp_client \<Rightarrow> serve_end \<times> stream_call list \<times> sp_client" where
  "serveConn V nc n c =
     (if \<not> fst (s_dl V) then (EndDeadline, [], c)
      else (case fst (Accept (s_sha1 V) (s_wok V) (s_bytes V) SpPath) of
          Inl e \<Rightarrow> (EndUpgrade e, [], c)
        | Inr w \<Rightarrow>
            (case fst (Handshake (s_hs V) (s_noise V) (s_sha256 V) (s_keys V) (s_pairing V) w) of
               Inl e \<Rightarrow> (EndHandshake e, [], c)
             | Inr s \<Rightarrow>
                 (let c1 = track nc n c
                  in case Greet (s_enc V) (s_dec V) (s_json V) (Config c1) s of
                       (Inl e, s1) \<Rightarrow> (EndGreet e, [], c1)
                     | (Inr name, s1) \<Rightarrow>
                         if \<not> snd (s_dl V) then (EndDeadline, [], release n c1)
                         else (case run_conn (begun_link (s_fresh V) (s_every V) n s1 c1) (s_turns V) of
                             (None, l) \<Rightarrow> (StillServing, calls (out l), cl l)
                           | (Some e, l) \<Rightarrow>
                               (let l1 = run_end (s_last V) l in (EndRun e, calls (out l1), cl l1)))))))"

text \<open>What an accepted connection comes to, and the accept loop of \<open>Serve\<close>.\<close>

definition serve_leaves :: "nat \<Rightarrow> serve_end \<times> stream_call list \<times> sp_client \<Rightarrow> sp_client" where
  "serve_leaves nc r = (case r of (e, cs, c) \<Rightarrow> leave nc c)"

datatype accepted = AcceptClosed | AcceptFailed | Accepted nat

datatype serve_act = ServeReturns | SaysAndSleeps duration | Refuses nat client_error | Serves nat

definition serve_accept :: "accepted \<Rightarrow> sp_client \<Rightarrow> sp_client \<times> serve_act" where
  "serve_accept a c =
     (case a of
        AcceptClosed \<Rightarrow> (c, ServeReturns)
      | AcceptFailed \<Rightarrow> (c, SaysAndSleeps second)
      | Accepted nc \<Rightarrow> (case enter nc c of (Inl e, c1) \<Rightarrow> (c1, Refuses nc e) | (Inr u, c1) \<Rightarrow> (c1, Serves nc)))"

text \<open>What \<open>Serve\<close> does before it accepts: the delay is taken, and the keeper of it started and woken.\<close>

definition Serve_begins :: "(int \<Rightarrow> bool) \<Rightarrow> bool \<Rightarrow> sp_client \<Rightarrow> sp_client \<times> keeper option \<times> int list" where
  "Serve_begins fails unk c0 =
     (let c1 = takeKeptDelay c0;
          c2 = c1\<lparr>keepWake := Some False\<rparr>
      in if \<not> SavesDelay c2 then (c2, None, [])
         else (case keep fails c2 of (c3, saves) \<Rightarrow> (c3, Some (new_keeper (stored_delay c1) unk), saves)))"

text \<open>\<open>Close\<close>: what is done for each connection; a session is given twice the budget to be told.\<close>

datatype close_act = GivesIdle nat duration | SaysShutdown nat | ClosesSocket nat

definition close_one :: "(nat \<Rightarrow> bool) \<Rightarrow> duration \<Rightarrow> nat \<times> nat option \<Rightarrow> close_act list" where
  "close_one told_ok budget x =
     (case x of
        (nc, None) \<Rightarrow> [ClosesSocket nc]
      | (nc, Some s) \<Rightarrow> [GivesIdle nc budget, SaysShutdown s] @ (if told_ok nc then [] else [ClosesSocket nc]))"

definition Close_all :: "(nat \<Rightarrow> bool) \<Rightarrow> sp_client \<Rightarrow> sp_client \<times> close_act list" where
  "Close_all told_ok c = (c\<lparr>cclosed := True\<rparr>, concat (map (close_one told_ok goodbyeWait) (live c)))"

section \<open>The delay's keeper\<close>

text \<open>\<open>keepDelays\<close>: idle until woken, then a minute before it settles, and again while it has not; a last time when done.\<close>

datatype keep_phase = KeepIdle | KeepApartTill time | KeepOver

record keep_loop =
  kl_keeper :: keeper
  kl_phase :: keep_phase

datatype keep_event = KeepLook time bool | KeepDone bool

definition keep_settles :: "bool \<Rightarrow> keeper \<Rightarrow> sp_client \<Rightarrow> bool \<times> keeper \<times> sp_client \<times> int list" where
  "keep_settles fails k c = settled (\<lambda>_. fails) k c"

definition keep_begins :: "duration \<Rightarrow> time \<Rightarrow> bool \<Rightarrow> keeper \<Rightarrow> sp_client \<Rightarrow> keep_loop \<times> sp_client \<times> int list" where
  "keep_begins apart now fails k c =
     (if \<not> unknown k then (\<lparr>kl_keeper = k, kl_phase = KeepIdle\<rparr>, c, [])
      else (case keep_settles fails k c of
          (good, k1, c1, saves) \<Rightarrow>
            (\<lparr>kl_keeper = k1, kl_phase = (if good then KeepIdle else KeepApartTill (now + apart))\<rparr>, c1, saves)))"

definition keep_wakes :: "duration \<Rightarrow> time \<Rightarrow> bool \<Rightarrow> keep_loop \<Rightarrow> sp_client \<Rightarrow> keep_loop \<times> sp_client \<times> int list" where
  "keep_wakes apart now fails m c =
     (case kl_phase m of
        KeepOver \<Rightarrow> (m, c, [])
      | KeepIdle \<Rightarrow>
          if keepWake c = Some True
          then (m\<lparr>kl_phase := KeepApartTill (now + apart)\<rparr>, c\<lparr>keepWake := Some False\<rparr>, [])
          else (m, c, [])
      | KeepApartTill d \<Rightarrow>
          if now < d then (m, c, [])
          else (case keep_settles fails (kl_keeper m) c of
              (good, k1, c1, saves) \<Rightarrow>
                (m\<lparr>kl_keeper := k1, kl_phase := (if good then KeepIdle else KeepApartTill (now + apart))\<rparr>, c1, saves)))"

definition keep_done :: "bool \<Rightarrow> keep_loop \<Rightarrow> sp_client \<Rightarrow> keep_loop \<times> sp_client \<times> int list" where
  "keep_done fails m c =
     (if kl_phase m = KeepOver then (m, c, [])
      else (case keep_settles fails (kl_keeper m) c of
          (good, k1, c1, saves) \<Rightarrow> (m\<lparr>kl_keeper := k1, kl_phase := KeepOver\<rparr>, c1, saves)))"


section \<open>However it ends, nothing is left behind\<close>

lemma lost_roles_sid_any: "lost_roles E l = (r, l') \<Longrightarrow> sid l' = sid l"
  by (auto simp: lost_roles_def Let_def split: option.splits if_splits)

lemma gained_roles_sid_any: "gained_roles E rs l = (r, l') \<Longrightarrow> sid l' = sid l"
  by (auto simp: gained_roles_def spend_roleless_def Let_def dest!: declare_state_sid
      split: sum.splits prod.splits option.splits if_splits)

lemma on_activate_sid_any:
  assumes "on_activate E p l = (r, l')"
  shows "sid l' = sid l"
proof (cases "Activate (t_enc E) (sj (t_json E)) (dj_activate (t_json E) p) (sess l)")
  case (Pair x s)
  show ?thesis
  proof (cases x)
    case (Inl e)
    then show ?thesis using assms Pair by (auto simp: on_activate_def)
  next
    case (Inr rs)
    define l2 where "l2 = (if \<not> holdsPlayer rs then play_stop_now (heard_done E (l\<lparr>sess := s\<rparr>)) else l\<lparr>sess := s\<rparr>)"
    have "(if rs = [] then lost_roles E l2 else gained_roles E rs l2) = (r, l')"
      using assms Inr unfolding on_activate_def Pair Inr prod.case sum.case Let_def l2_def by blast
    moreover have "sid l2 = sid l" by (simp add: l2_def play_stop_now_def)
    ultimately show ?thesis using lost_roles_sid_any gained_roles_sid_any by (metis (full_types))
  qed
qed

lemma handlers_sid_any:
  "on_binary E kind body l = (r, l') \<Longrightarrow> sid l' = sid l"
  "on_group E p l = (r, l') \<Longrightarrow> sid l' = sid l"
  "on_time E p l = (r, l') \<Longrightarrow> sid l' = sid l"
  "on_start E p l = (r, l') \<Longrightarrow> sid l' = sid l"
  "on_end E p l = (r, l') \<Longrightarrow> sid l' = sid l"
  "on_clear E p l = (r, l') \<Longrightarrow> sid l' = sid l"
  "on_command E p l = (r, l') \<Longrightarrow> sid l' = sid l"
  by (auto simp: on_binary_def on_group_def on_time_def on_start_def on_end_def on_clear_def on_command_def
      set_volume_def set_mute_def set_delay_def play_stop_now_def heard_report_def Let_def
      dest!: declare_state_sid split: if_splits option.splits sum.splits prod.splits)

lemma run_turn_sid: "run_turn E msg l = (r, l') \<Longrightarrow> sid l' = sid l"
  by (auto simp: run_turn_def on_json_def Let_def dest!: handlers_sid_any on_activate_sid_any
      split: prod.splits if_splits option.splits)

lemma run_conn_sid: "run_conn l es = (r, l') \<Longrightarrow> sid l' = sid l"
  by (induction l es rule: run_conn.induct)
    (auto dest: run_turn_sid split: if_splits prod.splits option.splits)

lemma begun_link_trace: "trace_ok (begun_link f d n s c)"
  by (simp add: trace_ok_def begun_link_def)

lemma leave_gone: "nc \<notin> fst ` set (live (leave nc c))" "held (leave nc c) = held c"
  using AList.delete_keys [of nc "live c"] by (auto simp: leave_def simp flip: set_map)

lemma track_held [simp]: "held (track nc n c) = held c"
  by (simp add: track_def)

lemma release_held: "held (release n c) \<noteq> Some n"
  by (simp add: release_def)

lemma run_served:
  assumes "run_conn (begun_link f d n s c) es = (r, l)"
  shows "(\<exists>k. see_calls (0, None) (calls (out (run_end E l))) = Some (k, None)) \<and> held (cl (run_end E l)) \<noteq> Some n"
proof -
  have "trace_ok l" by (rule run_conn_trace [OF begun_link_trace assms])
  from see_calls_stop [OF this, of E]
  have "\<exists>k. see_calls (0, None) (calls (out (run_end E l))) = Some (k, None)" unfolding trace_ok_def by metis
  moreover have "sid l = n" using run_conn_sid [OF assms] by (simp add: begun_link_def)
  ultimately show ?thesis using run_end_releases [of E l] by simp
qed

text \<open>
  C32. Wherever a connection ends, at a deadline, in the upgrade, the handshake or the greeting, or in its loop, and whatever
  came over it, every stream it opened in the player is closed, one at a time; its session, new to the client, does not
  hold it; and the connection no longer counts against the eight.
\<close>

theorem served_ends_clean:
  "case serveConn V nc n c of (e, cs, c') \<Rightarrow>
     e = StillServing \<or> held c = Some n
     \<or> ((\<exists>k. see_calls (0, None) cs = Some (k, None)) \<and> held (serve_leaves nc (e, cs, c')) \<noteq> Some n
        \<and> nc \<notin> fst ` set (live (serve_leaves nc (e, cs, c'))))"
proof (cases "held c = Some n")
  case False
  show ?thesis
  proof (cases "\<exists>w s s1 name. fst (Accept (s_sha1 V) (s_wok V) (s_bytes V) SpPath) = Inr w
      \<and> fst (Handshake (s_hs V) (s_noise V) (s_sha256 V) (s_keys V) (s_pairing V) w) = Inr s
      \<and> Greet (s_enc V) (s_dec V) (s_json V) (Config (track nc n c)) s = (Inr name, s1)
      \<and> fst (s_dl V) \<and> snd (s_dl V)")
    case True
    then obtain w s s1 name where w: "fst (Accept (s_sha1 V) (s_wok V) (s_bytes V) SpPath) = Inr w"
      "fst (Handshake (s_hs V) (s_noise V) (s_sha256 V) (s_keys V) (s_pairing V) w) = Inr s"
      "Greet (s_enc V) (s_dec V) (s_json V) (Config (track nc n c)) s = (Inr name, s1)" "fst (s_dl V)" "snd (s_dl V)"
      by blast
    obtain r l where r: "run_conn (begun_link (s_fresh V) (s_every V) n s1 (track nc n c)) (s_turns V) = (r, l)"
      by fastforce
    have "serveConn V nc n c = (case r of None \<Rightarrow> (StillServing, calls (out l), cl l)
        | Some e \<Rightarrow> (let l1 = run_end (s_last V) l in (EndRun e, calls (out l1), cl l1)))"
      using w r by (simp add: serveConn_def Let_def split: option.splits)
    then show ?thesis using run_served [OF r, of "s_last V"] leave_gone
      by (auto simp: serve_leaves_def Let_def split: option.splits)
  next
    case none: False
    have "\<exists>e. serveConn V nc n c = (e, [], c) \<or> serveConn V nc n c = (e, [], track nc n c)
        \<or> serveConn V nc n c = (e, [], release n (track nc n c))"
      using none by (auto simp: serveConn_def Let_def split: sum.splits prod.splits)
    then show ?thesis using False leave_gone release_held [of n "track nc n c"]
      by (auto simp: serve_leaves_def)
  qed
qed (simp split: prod.splits)

end
