(* ===== verification/Sp_Json.thy ===== *)
theory Sp_Json
  imports Sp_Run Go_Json
begin

text \<open>
  The JSON of \<open>internal/sendspin\<close>: the structures with their tags, what \<open>Marshal\<close> makes of the ones the client sends, and
  what \<open>Unmarshal\<close> makes of the ones it receives. The other theories of the connection take these as parameters
  (\<open>hs_json\<close>, \<open>sp_json\<close>, \<open>run_json\<close>); here they are. The text of an error of \<open>encoding/json\<close> is not kept: the name of
  what could not be read stands for it.
\<close>

section \<open>Envelopes\<close>

text \<open>A payload is kept raw: the value it is, or nothing when the envelope has none.\<close>

type_synonym payload = "json option"

definition json_int :: "int \<Rightarrow> json" where "json_int i = JNum (int_str i)"

definition marshalEnvelope :: "string \<Rightarrow> json \<Rightarrow> bytes" where
  "marshalEnvelope kind p = str_bytes (json_write (JObj [(''type'', JStr kind), (''payload'', p)]))"

definition read_env :: "members \<Rightarrow> (string \<times> payload) option" where
  "read_env m = map_option (\<lambda>t. (t, raw_field ''payload'' m)) (plain_field '''' as_string ''type'' m)"

definition decodeEnvelope :: "bytes \<Rightarrow> (string \<times> payload) option" where
  "decodeEnvelope b = Option.bind (json_read (bytes_str b)) (\<lambda>v. into_struct read_env (Some v))"

section \<open>The handshake's messages\<close>

definition typeClientInit :: string where "typeClientInit = ''client/init''"

definition client_init :: "string \<Rightarrow> json" where
  "client_init cid = JObj [(''client_id'', JStr cid), (''version'', json_int coreVersion), (''suite'', JStr suiteName)]"

definition server_init :: "string \<Rightarrow> json" where
  "server_init srv = JObj [(''server_id'', JStr srv), (''version'', json_int coreVersion)]"

definition noise_frame_json :: "string \<Rightarrow> json" where
  "noise_frame_json d = JObj [(''data'', JStr d)]"

definition read_server_init :: "members \<Rightarrow> (string \<times> int) option" where
  "read_server_init m =
     (case (plain_field '''' as_string ''server_id'' m, plain_field 0 (as_int 32) ''version'' m) of
        (Some srv, Some v) \<Rightarrow> Some (srv, v) | _ \<Rightarrow> None)"

definition read_intro :: "members \<Rightarrow> (string \<times> string) option" where
  "read_intro m =
     (case (plain_field '''' as_string ''psk_id'' m, plain_field '''' as_string ''psk_category'' m) of
        (Some pid, Some c) \<Rightarrow> Some (pid, c) | _ \<Rightarrow> None)"

text \<open>The reason of a refusal is taken as far as it can be read.\<close>

definition read_reason :: "payload \<Rightarrow> string" where
  "read_reason p =
     (case Option.bind p members_of of
        None \<Rightarrow> ''''
      | Some m \<Rightarrow>
          (let ss = filter (\<lambda>v. as_string v \<noteq> None) (field_vals ''reason'' m)
           in if ss = [] then '''' else the (as_string (last ss))))"

definition sendspin_hs :: "payload hs_json" where
  "sendspin_hs =
     \<lparr>enc_init = (\<lambda>cid. marshalEnvelope typeClientInit (client_init cid)),
      dec_env = decodeEnvelope,
      dec_server_init = into_struct read_server_init,
      dec_reason = read_reason,
      dec_frame = into_struct (plain_field '''' as_string ''data''),
      dec_intro = (\<lambda>b. Option.bind (json_read (bytes_str b)) (\<lambda>v. into_struct read_intro (Some v))),
      enc_frame = (\<lambda>d. marshalEnvelope typeNoiseHandshake (noise_frame_json d))\<rparr>"

section \<open>The session's messages\<close>

definition typeClientState :: string where "typeClientState = ''client/state''"
definition typeClientTime :: string where "typeClientTime = ''client/time''"
definition typeStreamRequestFormat :: string where "typeStreamRequestFormat = ''stream/request-format''"

definition omitempty :: "string \<Rightarrow> string \<Rightarrow> members" where
  "omitempty k s = (if s = '''' then [] else [(k, JStr s)])"

definition json_strs :: "string list \<Rightarrow> json" where
  "json_strs ss = JArr (map JStr ss)"




definition client_time_json :: "int \<Rightarrow> json" where
  "client_time_json us = JObj [(''client_transmitted'', json_int us)]"

definition opt_member :: "string \<Rightarrow> ('a \<Rightarrow> json) \<Rightarrow> 'a option \<Rightarrow> members" where
  "opt_member k f x = (case x of None \<Rightarrow> [] | Some a \<Rightarrow> [(k, f a)])"

definition client_state_json :: "client_state \<Rightarrow> json" where
  "client_state_json st =
     JObj [(''available'', JBool (st_available st)),
       (''player'', JObj (opt_member ''volume'' json_int (st_volume st) @ opt_member ''muted'' JBool (st_muted st)
          @ [(''static_delay_ms'', json_int (st_delay st)), (''required_lead_time_ms'', json_int (st_lead st)),
             (''min_buffer_ms'', json_int (st_buffer st)), (''supported_commands'', json_strs [commandStaticDelay])]))]"

definition request_format_json :: "int \<Rightarrow> json" where
  "request_format_json r = JObj [(''player'', JObj [(''sample_rate'', json_int r)])]"

section \<open>The server's messages\<close>











definition sendspin_state :: "client_state \<Rightarrow> bytes" where
  "sendspin_state st = marshalEnvelope typeClientState (client_state_json st)"

definition sendspin_ask :: "int \<Rightarrow> bytes" where
  "sendspin_ask us = marshalEnvelope typeClientTime (client_time_json us)"

definition sendspin_format :: "int \<Rightarrow> bytes" where
  "sendspin_format r = marshalEnvelope typeStreamRequestFormat (request_format_json r)"

section \<open>What is written is read\<close>

lemma b64_char_ascii: "chr_code (b64_char v) < 128"
proof -
  have "unat v < 62 \<Longrightarrow> unat v - 4 < 128" by simp
  then show ?thesis by (simp add: b64_char_def Let_def take_bit_nat_eq_self)
qed

lemma url_encode_ascii: "\<forall>c \<in> set (url_encode bs). chr_code c < 0x80"
proof -
  have "\<forall>c \<in> set (b64_encode bs). chr_code c < 128"
    by (induction bs rule: b64_encode.induct) (simp_all add: b64_char_ascii)
  then show ?thesis by (auto simp: url_encode_def to_url_def)
qed

lemma repaired_url [simp]: "repaired (url_encode bs) = url_encode bs"
  using url_encode_ascii by (rule repaired_ascii_all)

lemma json_int_simps [simp]:
  "json_ok (json_int i)" "json_depth (json_int i) = 0" "json_repaired (json_int i) = json_int i" "json_int i \<noteq> JNull"
  using int_str_ok [of i] by (simp_all add: json_int_def)

lemma as_json_int: "- (2 ^ (bits - 1)) \<le> i \<Longrightarrow> i < 2 ^ (bits - 1) \<Longrightarrow> as_int bits (json_int i) = Some i"
  by (simp add: json_int_def parse_int_int_str)

lemma envelope_read:
  assumes "json_ok p" "json_depth p < maxNestingDepth" "repaired kind = kind"
  shows "decodeEnvelope (marshalEnvelope kind p) = Some (kind, Some (json_repaired p))"
proof -
  let ?v = "JObj [(''type'', JStr kind), (''payload'', p)]"
  have names: "repaired ''type'' = ''type''" "repaired ''payload'' = ''payload''" by (simp_all add: repaired_ascii_all)
  have "json_read (json_write ?v) = Some (json_repaired ?v)" using assms by (intro json_roundtrip) simp_all
  moreover have "field_vals ''type'' [(''type'', JStr kind), (''payload'', json_repaired p)] = [JStr kind]"
    "field_vals ''payload'' [(''type'', JStr kind), (''payload'', json_repaired p)] = [json_repaired p]"
    by (simp_all add: name_simps)
  ultimately show ?thesis
    by (simp add: decodeEnvelope_def marshalEnvelope_def into_struct_def read_env_def one_field raw_field_def names assms(3)
        del: json_write.simps)
qed

text \<open>An identifier needs no escape, so its literal is as long as it is.\<close>

lemma b64_char_cases:
  "code_in 48 57 (b64_char v) \<or> code_in 65 90 (b64_char v) \<or> code_in 97 122 (b64_char v) \<or> b64_char v = CHR ''+''
   \<or> b64_char v = CHR ''/''"
proof (cases "unat v < 62")
  case True
  define k where "k = unat v"
  have "chr_code (b64_char v) = (if k < 26 then k + 65 else if k < 52 then k + 71 else k - 4)"
    using True by (simp add: b64_char_def Let_def take_bit_nat_eq_self k_def)
  then show ?thesis using True by (auto simp: code_in_def k_def)
next
  case False
  then have "b64_char v = char_of (43::nat) \<or> b64_char v = char_of (47::nat)" by (simp add: b64_char_def Let_def)
  then show ?thesis by (simp add: char_of_def bit_0)
qed

definition id_char :: "char \<Rightarrow> bool" where
  "id_char c \<longleftrightarrow> code_in 48 57 c \<or> code_in 65 90 c \<or> code_in 97 122 c \<or> c = CHR ''-'' \<or> c = CHR ''_''"

lemma url_encode_chars: "\<forall>c \<in> set (url_encode bs). id_char c"
proof -
  have "\<forall>c \<in> set (b64_encode bs). c = CHR ''='' \<or> id_char c \<or> c = CHR ''+'' \<or> c = CHR ''/''"
    by (induction bs rule: b64_encode.induct) (use b64_char_cases in \<open>auto simp: id_char_def\<close>)
  then show ?thesis by (auto simp: url_encode_def to_url_def id_char_def)
qed

lemma id_char_plain: "id_char c \<Longrightarrow> chr_code c < 0x80 \<and> json_ascii c = [c]"
proof -
  assume "id_char c"
  then have c: "chr_code c = 45 \<or> chr_code c = 95 \<or> 48 \<le> chr_code c \<and> chr_code c \<le> 57 \<or> 65 \<le> chr_code c \<and> chr_code c \<le> 90
      \<or> 97 \<le> chr_code c \<and> chr_code c \<le> 122"
    by (auto simp: id_char_def code_in_def)
  have "\<forall>k \<in> fst ` set short_escapes. chr_code k < 45 \<or> chr_code k = 92" by (simp add: short_escapes_def)
  then have "map_of short_escapes c = None" using c by (auto simp: map_of_eq_None_iff)
  then show ?thesis using c by (auto simp: json_ascii_def)
qed

lemma json_text_plain: "\<forall>c \<in> set s. chr_code c < 0x80 \<and> json_ascii c = [c] \<Longrightarrow> json_text s = s"
  by (induction s) (simp_all add: json_text.simps)

lemma json_text_url [simp]: "json_text (url_encode bs) = url_encode bs"
  using url_encode_chars id_char_plain by (intro json_text_plain) blast

lemma length_b64: "length (b64_encode bs) = 4 * ((length bs + 2) div 3)"
proof (induction bs rule: b64_encode.induct)
  case (4 a b c r)
  have "(5 + length r) div 3 = Suc ((length r + 2) div 3)" by simp
  then show ?case using 4 by simp
qed simp_all

lemma length_url: "length (url_encode bs) \<le> 4 * ((length bs + 2) div 3)"
  unfolding url_encode_def length_map length_b64 [symmetric] by (rule length_filter_le)

lemma names_plain [simp]:
  "json_text ''type'' = ''type''" "json_text ''payload'' = ''payload''" "json_text ''data'' = ''data''"
  "json_text ''server_id'' = ''server_id''" "json_text ''version'' = ''version''"
  "json_text ''noise/handshake'' = ''noise/handshake''" "json_text ''server/init'' = ''server/init''"
  by (rule json_text_plain, simp add: json_ascii_def short_escapes_def)+

lemma frame_length: "length (enc_frame sendspin_hs (url_encode m)) = 48 + length (url_encode m)"
  by (simp add: sendspin_hs_def marshalEnvelope_def noise_frame_json_def typeNoiseHandshake_def json_str_def)

lemma init_length: "length (marshalEnvelope typeServerInit (server_init (EncodeID peer))) = 61 + length (url_encode peer)"
  by (simp add: marshalEnvelope_def server_init_def typeServerInit_def json_str_def EncodeID_def coreVersion_def json_int_def int_str_def
      nat_str.simps)

section \<open>The handshake on the wire\<close>

lemma names_read [simp]:
  "repaired ''server_id'' = ''server_id''" "repaired ''version'' = ''version''" "repaired ''data'' = ''data''"
  "repaired typeServerInit = typeServerInit" "repaired typeNoiseHandshake = typeNoiseHandshake"
  by (simp_all add: repaired_ascii_all typeServerInit_def typeNoiseHandshake_def)

lemma server_init_read:
  "dec_env sendspin_hs (marshalEnvelope typeServerInit (server_init (EncodeID peer)))
     = Some (typeServerInit, Some (server_init (EncodeID peer)))"
  "dec_server_init sendspin_hs (Some (server_init (EncodeID peer))) = Some (EncodeID peer, coreVersion)"
proof -
  have "json_ok (server_init (EncodeID peer))" "json_depth (server_init (EncodeID peer)) < maxNestingDepth"
    by (simp_all add: server_init_def maxNestingDepth_def)
  from envelope_read [OF this, of typeServerInit]
  show "dec_env sendspin_hs (marshalEnvelope typeServerInit (server_init (EncodeID peer)))
     = Some (typeServerInit, Some (server_init (EncodeID peer)))"
    by (simp add: sendspin_hs_def server_init_def EncodeID_def)
  have "field_vals ''server_id'' [(''server_id'', JStr (EncodeID peer)), (''version'', json_int coreVersion)] = [JStr (EncodeID peer)]"
    "field_vals ''version'' [(''server_id'', JStr (EncodeID peer)), (''version'', json_int coreVersion)] = [json_int coreVersion]"
    by (simp_all add: name_simps)
  then show "dec_server_init sendspin_hs (Some (server_init (EncodeID peer))) = Some (EncodeID peer, coreVersion)"
    by (simp add: sendspin_hs_def into_struct_def server_init_def read_server_init_def one_field as_json_int coreVersion_def)
qed

lemma noise_frame_read:
  "dec_env sendspin_hs (enc_frame sendspin_hs (url_encode m)) = Some (typeNoiseHandshake, Some (noise_frame_json (url_encode m)))"
  "dec_frame sendspin_hs (Some (noise_frame_json (url_encode m))) = Some (url_encode m)"
proof -
  have "json_ok (noise_frame_json (url_encode m))" "json_depth (noise_frame_json (url_encode m)) < maxNestingDepth"
    by (simp_all add: noise_frame_json_def maxNestingDepth_def)
  from envelope_read [OF this, of typeNoiseHandshake]
  show "dec_env sendspin_hs (enc_frame sendspin_hs (url_encode m)) = Some (typeNoiseHandshake, Some (noise_frame_json (url_encode m)))"
    by (simp add: sendspin_hs_def noise_frame_json_def)
  have "field_vals ''data'' [(''data'', JStr (url_encode m))] = [JStr (url_encode m)]" by simp
  then show "dec_frame sendspin_hs (Some (noise_frame_json (url_encode m))) = Some (url_encode m)"
    by (simp add: sendspin_hs_def into_struct_def noise_frame_json_def one_field)
qed

text \<open>What the peer's first Noise message carries: the key it names, and its category unless it leaves it open.\<close>

definition intro_json :: "string \<Rightarrow> string \<Rightarrow> json" where
  "intro_json pid cat = JObj ([(''psk_id'', JStr pid)] @ omitempty ''psk_category'' cat)"

lemma intro_names [simp]:
  "repaired ''psk_id'' = ''psk_id''" "repaired ''psk_category'' = ''psk_category''"
  "json_text ''psk_id'' = ''psk_id''" "json_text ''psk_category'' = ''psk_category''"
  by (simp_all add: repaired_ascii_all json_text_plain json_ascii_def short_escapes_def)

lemma intro_read:
  assumes "cat \<in> known_categories"
  shows "dec_intro sendspin_hs (str_bytes (json_write (intro_json (url_encode h) cat))) = Some (url_encode h, cat)"
proof -
  define m where "m = [(''psk_id'', JStr (url_encode h))] @ omitempty ''psk_category'' cat"
  have c: "repaired cat = cat" using assms by (auto simp: known_categories_def repaired_ascii_all)
  then have "json_ok (intro_json (url_encode h) cat)" "json_depth (intro_json (url_encode h) cat) \<le> maxNestingDepth"
    "json_repaired (intro_json (url_encode h) cat) = JObj m"
    by (simp_all add: intro_json_def m_def omitempty_def maxNestingDepth_def)
  with json_roundtrip [of "intro_json (url_encode h) cat"]
  have "json_read (json_write (intro_json (url_encode h) cat)) = Some (JObj m)" by simp
  moreover have "field_vals ''psk_id'' m = [JStr (url_encode h)]"
    "field_vals ''psk_category'' m = (if cat = '''' then [] else [JStr cat])"
    by (simp_all add: m_def omitempty_def name_simps)
  then have "read_intro m = Some (url_encode h, cat)"
    by (cases "cat = ''''") (simp_all add: read_intro_def one_field no_field)
  ultimately show ?thesis by (simp add: sendspin_hs_def into_struct_def)
qed

text \<open>
  C7. With a peer that plays its part, the handshake ends in a session: the peer writes its identity under core version
  1 and a first Noise message of at most 1500 bytes (its base64 in the envelope then fits the 2048 a cleartext frame may
  have), whose payload names a key by its id and one of the categories the protocol knows, or none. The client then uses
  the pairing key where the peer named it and may have meant it, and the sentinel everywhere else (\<open>fitting_key\<close>); it
  writes its init and its answer under that key, two text frames, and leaves what follows for the session. Of the Noise
  library it is asked that it takes this peer and this message, takes any key of 32 bytes and completes on the second
  message; of SHA-256 that a digest has 32 bytes.
\<close>

theorem handshake_on_the_wire:
  assumes "healthy w0" "length m = 4" "length peer = keyLen" "length m1 \<le> 1500" "cat \<in> known_categories"
    and "init = enc_init sendspin_hs (ClientID (Identity ks))"
    and "srv = marshalEnvelope typeServerInit (server_init (EncodeID peer))"
    and "rx w0 = client_frame True opText m srv @ client_frame True opText m (enc_frame sendspin_hs (url_encode m1)) @ r"
    and "\<And>x. length (sha256 x) = 32" "\<And>p. length p = 32 \<Longrightarrow> nk_psk N p"
    and "nk_new N (init @ srv) peer"
    and "nk_read N (init @ srv) peer m1 = Some (str_bytes (json_write (intro_json (url_encode h) cat)))"
    and "fitting_key sha256 psk0 (url_encode h) cat = (psk, c)"
    and "nk_write N (init @ srv) peer m1 psk = Some (msg2, True)"
  shows "\<exists>w. Handshake sendspin_hs N sha256 ks psk0 w0 = (Inr (new_session w c (EncodeID peer)), w)
    \<and> rx w = r \<and> tx w = tx w0 @ [ws_frame opText init, ws_frame opText (enc_frame sendspin_hs (url_encode msg2))]"
proof -
  have "nk_psk N psk" using fitting_key_length [where ?sha256.0 = sha256, OF assms(9), of psk0 "url_encode h" cat] assms(10,13) by simp
  then have a: "answer_intro sendspin_hs N sha256 psk0 (init @ srv) peer m1 = Inr (msg2, c)"
    unfolding answer_intro_fits using assms(5,12-14) intro_read by blast
  have "(length peer + 2) div 3 \<le> 11" using assms(3) by (simp add: keyLen_def)
  then have l: "length srv \<le> maxCleartextFrame"
    using length_url [of peer] by (simp add: assms(7) init_length maxCleartextFrame_def)
  have "(length m1 + 2) div 3 \<le> 500" using assms(4) by simp
  then have l1: "length (enc_frame sendspin_hs (url_encode m1)) \<le> maxCleartextFrame"
    using length_url [of m1] by (simp add: frame_length maxCleartextFrame_def)
  show ?thesis
    unfolding assms(6)
    by (rule handshake_completes [OF assms(1,2,8) l l1 server_init_read [of peer, folded assms(7)] DecodeID_EncodeID [OF assms(3)]
          assms(11) [unfolded assms(6)] noise_frame_read url_decode_encode a [unfolded assms(6)]])
qed

text \<open>A peer that names the client's pairing key and leaves the category open.\<close>

definition demo_intro :: json where
  "demo_intro = intro_json (url_encode (replicate 32 3)) ''''"

theorem handshake_on_the_wire_witness:
  "\<exists>w. Handshake sendspin_hs demo_noise (\<lambda>_. replicate 32 3) demo_keys (replicate 32 8) (demo_conn\<lparr>rx :=
        client_frame True opText [1, 2, 3, 4] (marshalEnvelope typeServerInit (server_init (EncodeID (replicate 32 9))))
        @ client_frame True opText [1, 2, 3, 4] (enc_frame sendspin_hs (url_encode (str_bytes (json_write demo_intro)))) @ [0]\<rparr>)
     = (Inr (new_session w Pairing (EncodeID (replicate 32 9))), w)"
proof -
  have "length (str_bytes (json_write demo_intro)) \<le> 1500"
    using length_url [of "replicate 32 3"] by (simp add: demo_intro_def intro_json_def omitempty_def json_str_def)
  moreover have "fitting_key (\<lambda>_. replicate 32 3) (replicate 32 8) (url_encode (replicate 32 3)) '''' = (replicate 32 8, Pairing)"
    by (simp add: fitting_key_def PSKID_def)
  ultimately show ?thesis
    using handshake_on_the_wire [OF _ _ _ _ _ refl refl, where r = "[0]" and m = "[1, 2, 3, 4]" and peer = "replicate 32 9"
        and ?m1.0 = "str_bytes (json_write demo_intro)" and N = demo_noise and ks = demo_keys and ?sha256.0 = "\<lambda>_. replicate 32 3"
        and ?psk0.0 = "replicate 32 8" and h = "replicate 32 3" and cat = "''''" and psk = "replicate 32 8" and c = Pairing
        and ?msg2.0 = "[7]" and ?w0.0 = "demo_conn\<lparr>rx :=
        client_frame True opText [1, 2, 3, 4] (marshalEnvelope typeServerInit (server_init (EncodeID (replicate 32 9))))
        @ client_frame True opText [1, 2, 3, 4] (enc_frame sendspin_hs (url_encode (str_bytes (json_write demo_intro)))) @ [0]\<rparr>"]
    by (auto simp: demo_conn_def healthy_def maxMessage_def maxControlPayload_def keyLen_def demo_noise_def known_categories_def
        demo_intro_def)
qed

section \<open>The server's messages on the wire\<close>










lemma repaired_wire [simp]:
  "repaired ''client_transmitted'' = ''client_transmitted''" "repaired ''server_received'' = ''server_received''"
  "repaired ''server_transmitted'' = ''server_transmitted''" "repaired ''activities'' = ''activities''"
  "repaired ''active_roles'' = ''active_roles''" "repaired ''pairing'' = ''pairing''" "repaired ''method'' = ''method''"
  "repaired ''codec'' = ''codec''" "repaired ''sample_rate'' = ''sample_rate''" "repaired ''channels'' = ''channels''"
  "repaired ''bit_depth'' = ''bit_depth''" "repaired ''codec_header'' = ''codec_header''" "repaired ''player'' = ''player''"
  "repaired ''roles'' = ''roles''" "repaired ''command'' = ''command''" "repaired ''static_delay_ms'' = ''static_delay_ms''"
  "repaired ''volume'' = ''volume''" "repaired ''mute'' = ''mute''" "repaired ''server/time'' = ''server/time''"
  "repaired ''server/activate'' = ''server/activate''" "repaired ''stream/start'' = ''stream/start''"
  "repaired ''stream/end'' = ''stream/end''" "repaired ''server/command'' = ''server/command''"
  by (simp_all add: repaired_ascii_all)

lemma json_strs_simps [simp]:
  "json_ok (json_strs ss)" "json_depth (json_strs ss) = 1" "json_repaired (json_strs ss) = json_strs (map repaired ss)"
  "as_strings (json_strs ss) = Some ss" "json_strs ss \<noteq> JNull"
proof -
  have "foldr max (map (json_depth \<circ> JStr) ss) 0 = 0" by (induction ss) simp_all
  then show "json_ok (json_strs ss)" "json_depth (json_strs ss) = 1" "json_repaired (json_strs ss) = json_strs (map repaired ss)"
    "as_strings (json_strs ss) = Some ss" "json_strs ss \<noteq> JNull"
    by (simp_all add: json_strs_def list_all_iff comp_def)
qed

lemma as_sint [simp]: "as_int 64 (json_int (sint (a :: 64 word))) = Some (sint a)" "as_int 32 (json_int (sint (b :: 32 word))) = Some (sint b)"
  using sint_range_size [of a] sint_range_size [of b] by (simp_all add: as_json_int word_size)

lemma opt_member_simps [simp]: "opt_member k f None = []" "opt_member k f (Some a) = [(k, f a)]"
  by (simp_all add: opt_member_def)












end
