(* ===== verification/Esp_Proto.thy ===== *)
theory Esp_Proto
  imports Go_Strings
begin

text \<open>
  \<open>internal/esphome/proto.go\<close>: the protobuf writer and the field walker. A \<open>pb\<close> is the bytes
  written so far; \<open>pbWalk\<close> returns the fields it visited, in order, and the error it stopped at.
\<close>

definition wireVarint :: nat where "wireVarint = 0"
definition wireFixed32 :: nat where "wireFixed32 = 5"
definition wireBytes :: nat where "wireBytes = 2"

section \<open>Varints\<close>

lemma unat_drop_bit7: "unat (drop_bit 7 (v :: 64 word)) = unat v div 128"
  by (simp add: drop_bit_eq_div unat_div)

function uvarint :: "64 word \<Rightarrow> bytes" where
  "uvarint v = (if v < 0x80 then [ucast v] else (ucast v OR 0x80) # uvarint (drop_bit 7 v))"
  by pat_completeness auto

termination
proof (relation "measure unat")
  fix v :: "64 word"
  assume "\<not> v < 0x80"
  then have "128 \<le> unat v" by (simp add: word_less_nat_alt not_less)
  then show "(drop_bit 7 v, v) \<in> measure unat" by (simp add: unat_drop_bit7)
qed simp

declare uvarint.simps [simp del]

text \<open>
  \<open>binary.Uvarint\<close>: \<open>i\<close> bytes are read, \<open>x\<close> is their value. Both ways it fails (a truncated
  number, one past 64 bits) give the caller \<open>n \<le> 0\<close>.
\<close>

fun Uvarint_from :: "nat \<Rightarrow> 64 word \<Rightarrow> bytes \<Rightarrow> (64 word \<times> bytes) option" where
  "Uvarint_from i x [] = None"
| "Uvarint_from i x (b # bs) =
     (if i = 10 then None
      else if b < 0x80
        then (if i = 9 \<and> 1 < b then None else Some (x OR push_bit (7 * i) (ucast b), bs))
      else Uvarint_from (Suc i) (x OR push_bit (7 * i) (ucast (b AND 0x7f))) bs)"

definition Uvarint :: "bytes \<Rightarrow> (64 word \<times> bytes) option" where
  "Uvarint bs = Uvarint_from 0 0 bs"

lemma Uvarint_from_shrinks: "Uvarint_from i x bs = Some (v, r) \<Longrightarrow> length r < length bs"
  by (induction i x bs rule: Uvarint_from.induct) (force split: if_splits)+

lemma Uvarint_shrinks: "Uvarint bs = Some (v, r) \<Longrightarrow> length r < length bs"
  by (simp add: Uvarint_def Uvarint_from_shrinks)

lemma ucast_small: "v < 0x80 \<Longrightarrow> ucast (ucast (v :: 64 word) :: byte) = v"
proof -
  assume "v < 0x80"
  then have u: "unat v < 128" by (simp add: word_less_nat_alt)
  show ?thesis
    by (rule word_unat_eq_iff [THEN iffD2]) (use u in \<open>simp add: unsigned_ucast_eq unsigned_take_bit_eq take_bit_nat_eq_self\<close>)
qed

lemma ucast_small_less: "v < 0x80 \<Longrightarrow> (ucast (v :: 64 word) :: byte) < 0x80"
  by (simp add: word_less_nat_alt unsigned_ucast_eq take_bit_nat_eq_self)

lemma byte_less_128: "(b :: byte) < 0x80 \<longleftrightarrow> \<not> bit b 7"
proof -
  have "bit b 7 \<longleftrightarrow> bit (unat b) 7" by (simp add: bit_unsigned_iff)
  also have "\<dots> \<longleftrightarrow> odd (unat b div 2 ^ 7)" by (simp only: bit_iff_odd)
  finally have "bit b 7 \<longleftrightarrow> odd (unat b div 2 ^ 7)" .
  moreover have "unat b < 256" using unsigned_less [of b, where ?'a = nat] by simp
  then have "odd (unat b div 2 ^ 7) \<longleftrightarrow> 128 \<le> unat b"
    by (cases "unat b < 128") (auto simp: div_if)
  ultimately show ?thesis by (simp add: word_less_nat_alt not_le)
qed

lemma high_bit_set [simp]: "\<not> (b OR 0x80 :: byte) < 0x80"
  by (simp add: byte_less_128 bit_simps)

text \<open>Seven bits of the number and the rest of it, put back together.\<close>

lemma join7:
  "push_bit k (ucast ((ucast (v :: 64 word) OR 0x80 :: byte) AND 0x7f)) OR push_bit (k + 7) (drop_bit 7 v)
     = push_bit k v"
proof -
  have m: "(0x7f :: byte) = mask 7" by (simp add: mask_eq_exp_minus_1)
  have h: "(0x80 :: byte) = push_bit 7 1" by simp
  show ?thesis
    unfolding m h
  proof (rule bit_word_eqI)
    fix n
    assume "n < LENGTH(64)"
    then show "bit (push_bit k (ucast ((ucast v OR push_bit 7 1 :: byte) AND mask 7))
        OR push_bit (k + 7) (drop_bit 7 v)) n = bit (push_bit k v :: 64 word) n"
      by (cases "n < k + 7") (auto simp: bit_simps simp del: push_bit_of_1)
  qed
qed

lemma Uvarint_from_uvarint:
  assumes "unat v < 2 ^ (64 - 7 * i)" "i \<le> 9"
  shows "Uvarint_from i x (uvarint v @ r) = Some (x OR push_bit (7 * i) v, r)"
  using assms
proof (induction v arbitrary: i x rule: uvarint.induct)
  case (1 v)
  show ?case
  proof (cases "v < 0x80")
    case True
    have "i = 9 \<Longrightarrow> \<not> 1 < (ucast v :: byte)"
      using "1.prems" True by (simp add: word_less_nat_alt unsigned_ucast_eq take_bit_nat_eq_self)
    with True "1.prems" show ?thesis
      by (simp add: uvarint.simps [of v] ucast_small ucast_small_less)
  next
    case False
    have big: "128 \<le> unat v" using False by (simp add: word_less_nat_alt)
    then have "i \<noteq> 9" using "1.prems" by auto
    with "1.prems" have i: "Suc i \<le> 9" by simp
    have pow: "(2 :: nat) ^ (64 - 7 * i) = 128 * 2 ^ (64 - 7 * Suc i)"
    proof -
      have e: "64 - 7 * i = 7 + (64 - 7 * Suc i)" using i by simp
      show ?thesis unfolding e power_add by simp
    qed
    have "unat (drop_bit 7 v) < 2 ^ (64 - 7 * Suc i)"
      using "1.prems"(1) unfolding unat_drop_bit7 pow by (simp add: less_mult_imp_div_less mult.commute)
    from "1.IH" [OF False this i] False \<open>i \<noteq> 9\<close> "1.prems" join7 [of "7 * i" v] show ?thesis
      by (simp add: uvarint.simps [of v] or.assoc ac_simps)
  qed
qed

lemma Uvarint_uvarint: "Uvarint (uvarint v @ r) = Some (v, r)"
  using Uvarint_from_uvarint [of v 0 0 r] unsigned_less [of v, where ?'a = nat]
  by (simp add: Uvarint_def)

interpretation varint_codec: codec uvarint Uvarint "\<lambda>_. True"
  by unfold_locales (simp add: Uvarint_uvarint)

lemma uvarint_nonempty [simp]: "uvarint v \<noteq> []"
  by (subst uvarint.simps) simp

section \<open>The writer\<close>

text \<open>Each operation appends to the bytes written so far.\<close>

definition pb_key :: "nat \<Rightarrow> nat \<Rightarrow> 64 word" where
  "pb_key f w = push_bit 3 (of_nat f) OR of_nat w"

definition pb_tag :: "bytes \<Rightarrow> nat \<Rightarrow> nat \<Rightarrow> bytes" where
  "pb_tag p f w = p @ uvarint (pb_key f w)"

definition pb_u32 :: "bytes \<Rightarrow> nat \<Rightarrow> 32 word \<Rightarrow> bytes" where
  "pb_u32 p field v = pb_tag p field wireVarint @ uvarint (ucast v)"

definition pb_boolean :: "bytes \<Rightarrow> nat \<Rightarrow> bool \<Rightarrow> bytes" where
  "pb_boolean p field v = pb_tag p field wireVarint @ uvarint (if v then 1 else 0)"

definition pb_sub :: "bytes \<Rightarrow> nat \<Rightarrow> bytes \<Rightarrow> bytes" where
  "pb_sub p field msg = pb_tag p field wireBytes @ uvarint (of_nat (length msg)) @ msg"

definition pb_str :: "bytes \<Rightarrow> nat \<Rightarrow> string \<Rightarrow> bytes" where
  "pb_str p field s = pb_tag p field wireBytes @ uvarint (of_nat (length s)) @ str_bytes s"

definition pb_fixed32 :: "bytes \<Rightarrow> nat \<Rightarrow> 32 word \<Rightarrow> bytes" where
  "pb_fixed32 p field v = pb_tag p field wireFixed32 @ put_le 4 v"

text \<open>A \<open>float32\<close> is its bit pattern (\<open>math.Float32bits\<close>).\<close>

definition pb_float :: "bytes \<Rightarrow> nat \<Rightarrow> 32 word \<Rightarrow> bytes" where
  "pb_float p field f = pb_fixed32 p field f"

section \<open>The walker\<close>

record pbField =
  field :: nat
  wire :: nat
  num :: "64 word"
  data :: bytes

datatype pb_error = BadFieldTag | FieldOutOfRange | BadVarint nat | ShortFixed32 nat
  | ShortBytes nat | ShortFixed64 nat | UnsupportedWire nat nat

text \<open>One field off the front of a message: the body of the loop.\<close>

definition pb_field :: "bytes \<Rightarrow> pb_error + (pbField \<times> bytes)" where
  "pb_field msg =
     (case Uvarint msg of
        None \<Rightarrow> Inl BadFieldTag
      | Some (key, m) \<Rightarrow>
          if 0x1fffffff < drop_bit 3 key then Inl FieldOutOfRange
          else
            let f = unat (drop_bit 3 key); w = unat (key AND 7);
                entry = \<lparr>field = f, wire = w, num = 0, data = []\<rparr>
            in if w = wireVarint then
                 (case Uvarint m of None \<Rightarrow> Inl (BadVarint f)
                  | Some (v, m') \<Rightarrow> Inr (entry\<lparr>num := v\<rparr>, m'))
               else if w = wireFixed32 then
                 (if length m < 4 then Inl (ShortFixed32 f)
                  else Inr (entry\<lparr>num := ucast (get_le (take 4 m) :: 32 word)\<rparr>, drop 4 m))
               else if w = wireBytes then
                 (case Uvarint m of None \<Rightarrow> Inl (ShortBytes f)
                  | Some (l, m') \<Rightarrow> if length m' < unat l then Inl (ShortBytes f)
                     else Inr (entry\<lparr>data := take (unat l) m'\<rparr>, drop (unat l) m'))
               else if w = 1 then
                 (if length m < 8 then Inl (ShortFixed64 f)
                  else Inr (entry\<lparr>num := get_le (take 8 m)\<rparr>, drop 8 m))
               else Inl (UnsupportedWire w f))"

lemma pb_field_shrinks: "pb_field msg = Inr (e, r) \<Longrightarrow> length r < length msg"
  by (auto simp: pb_field_def Let_def dest!: Uvarint_shrinks split: option.splits prod.splits if_splits;
      linarith)

function pbWalk :: "bytes \<Rightarrow> pbField list \<times> pb_error option" where
  "pbWalk msg =
     (if msg = [] then ([], None)
      else (case pb_field msg of
              Inl e \<Rightarrow> ([], Some e)
            | Inr (entry, r) \<Rightarrow> (case pbWalk r of (es, err) \<Rightarrow> (entry # es, err))))"
  by pat_completeness auto
termination
  by (relation "measure length") (auto dest: pb_field_shrinks)

declare pbWalk.simps [simp del]

lemma pbWalk_Nil [simp]: "pbWalk [] = ([], None)"
  by (simp add: pbWalk.simps)

section \<open>Written fields are walked back\<close>

text \<open>The fields the writer can make, and their bytes.\<close>

definition enc_field :: "pbField \<Rightarrow> bytes" where
  "enc_field e =
     (if wire e = wireVarint then pb_tag [] (field e) wireVarint @ uvarint (num e)
      else if wire e = wireFixed32 then pb_fixed32 [] (field e) (ucast (num e))
      else pb_sub [] (field e) (data e))"

definition pb_ok :: "pbField \<Rightarrow> bool" where
  "pb_ok e \<longleftrightarrow> field e < 2 ^ 29 \<and>
     ((wire e = wireVarint \<and> data e = [])
      \<or> (wire e = wireFixed32 \<and> data e = [] \<and> unat (num e) < 2 ^ 32)
      \<or> (wire e = wireBytes \<and> num e = 0 \<and> length (data e) < 2 ^ 64))"

lemma bit_nat_le: "bit (w :: nat) n \<Longrightarrow> 2 ^ n \<le> w"
proof (rule ccontr)
  assume b: "bit w n" and "\<not> 2 ^ n \<le> w"
  then have "w div 2 ^ n = 0" by simp
  with b show False using bit_iff_odd [of w n] by (metis even_zero)
qed

lemma bit_of_nat_less:
  assumes "w < 2 ^ k" "k < 64" "bit (of_nat w :: 64 word) n"
  shows "n < k"
proof -
  have "(2 :: nat) ^ k < 2 ^ 64" using assms(2) by (rule power_strict_increasing) simp
  with assms(1) have "unat (of_nat w :: 64 word) = w"
    by (simp only: unat_of_nat) simp
  moreover have "bit (unat (of_nat w :: 64 word)) n" using assms(3) by (simp only: bit_unsigned_iff) simp
  ultimately have "bit w n" by simp
  then have "(2 :: nat) ^ n < 2 ^ k" using bit_nat_le assms(1) order_le_less_trans by blast
  then show ?thesis by (simp only: power_strict_increasing_iff)
qed

lemma key_parts:
  assumes "f < 2 ^ 29" "w < 8"
  shows "drop_bit 3 (pb_key f w) = of_nat f"
    and "pb_key f w AND 7 = of_nat w"
    and "\<not> 0x1fffffff < (of_nat f :: 64 word)"
    and "unat (of_nat f :: 64 word) = f"
    and "unat (of_nat w :: 64 word) = w"
proof -
  show uf: "unat (of_nat f :: 64 word) = f" and "unat (of_nat w :: 64 word) = w"
    using assms by (simp_all add: unat_of_nat)
  have bw: "bit (of_nat w :: 64 word) n \<Longrightarrow> n < 3" for n
    using bit_of_nat_less [of w 3 n] assms(2) by simp
  have bf: "bit (of_nat f :: 64 word) n \<Longrightarrow> n < 29" for n
    using bit_of_nat_less [of f 29 n] assms(1) by simp
  have seven: "(7 :: 64 word) = mask 3" by (simp add: mask_eq_exp_minus_1)
  show "drop_bit 3 (pb_key f w) = of_nat f"
    unfolding pb_key_def
    by (rule bit_word_eqI)
      (auto simp: bit_drop_bit_eq bit_or_iff bit_push_bit_iff dest: bw bf)
  show "pb_key f w AND 7 = of_nat w"
    unfolding pb_key_def seven
    by (rule bit_word_eqI)
      (auto simp: bit_and_iff bit_or_iff bit_push_bit_iff bit_mask_iff dest: bw)
  show "\<not> 0x1fffffff < (of_nat f :: 64 word)"
    using uf assms(1) by (simp add: word_less_nat_alt)
qed

lemma wire_values [simp]:
  "wireVarint < 8" "wireFixed32 < 8" "wireBytes < 8"
  "wireVarint \<noteq> wireFixed32" "wireVarint \<noteq> wireBytes" "wireFixed32 \<noteq> wireBytes"
  "wireFixed32 \<noteq> wireVarint" "wireBytes \<noteq> wireVarint" "wireBytes \<noteq> wireFixed32"
  by (simp_all add: wireVarint_def wireFixed32_def wireBytes_def)

lemma ucast_ucast_32: "unat (v :: 64 word) < 2 ^ 32 \<Longrightarrow> ucast (ucast v :: 32 word) = v"
  by (rule word_unat_eq_iff [THEN iffD2])
    (simp add: unsigned_ucast_eq unsigned_take_bit_eq take_bit_nat_eq_self)

lemma pb_field_key:
  assumes "f < 2 ^ 29" "w < 8"
  shows "pb_field (uvarint (pb_key f w) @ m) =
    (let entry = \<lparr>field = f, wire = w, num = 0, data = []\<rparr>
     in if w = wireVarint then
          (case Uvarint m of None \<Rightarrow> Inl (BadVarint f) | Some (v, m') \<Rightarrow> Inr (entry\<lparr>num := v\<rparr>, m'))
        else if w = wireFixed32 then
          (if length m < 4 then Inl (ShortFixed32 f)
           else Inr (entry\<lparr>num := ucast (get_le (take 4 m) :: 32 word)\<rparr>, drop 4 m))
        else if w = wireBytes then
          (case Uvarint m of None \<Rightarrow> Inl (ShortBytes f)
           | Some (l, m') \<Rightarrow> if length m' < unat l then Inl (ShortBytes f)
              else Inr (entry\<lparr>data := take (unat l) m'\<rparr>, drop (unat l) m'))
        else if w = 1 then
          (if length m < 8 then Inl (ShortFixed64 f)
           else Inr (entry\<lparr>num := get_le (take 8 m)\<rparr>, drop 8 m))
        else Inl (UnsupportedWire w f))"
  unfolding pb_field_def Uvarint_uvarint
  by (simp only: option.case prod.case key_parts [OF assms] if_False Let_def)

lemma pb_field_enc:
  assumes "pb_ok e"
  shows "pb_field (enc_field e @ r) = Inr (e, r)"
proof (cases e)
  case (fields f w n d)
  from assms fields have f: "f < 2 ^ 29" by (simp add: pb_ok_def)
  from assms fields consider "w = wireVarint" "d = []"
    | "w = wireFixed32" "d = []" "unat n < 2 ^ 32"
    | "w = wireBytes" "n = 0" "length d < 2 ^ 64" by (auto simp: pb_ok_def)
  then show ?thesis
  proof cases
    case 1
    with fields pb_field_key [OF f, of wireVarint "uvarint n @ r"] show ?thesis
      by (simp add: enc_field_def pb_tag_def Uvarint_uvarint)
  next
    case 2
    with fields pb_field_key [OF f, of wireFixed32 "put_le 4 (ucast n :: 32 word) @ r"] show ?thesis
      by (simp add: enc_field_def pb_tag_def pb_fixed32_def ucast_ucast_32)
  next
    case 3
    then have "unat (of_nat (length d) :: 64 word) = length d" by (simp add: unat_of_nat)
    with 3 fields pb_field_key [OF f, of wireBytes "uvarint (of_nat (length d)) @ d @ r"] show ?thesis
      by (simp add: enc_field_def pb_tag_def pb_sub_def Uvarint_uvarint)
  qed
qed

lemma pbWalk_enc: "pb_ok e \<Longrightarrow> pbWalk (enc_field e @ r) = (case pbWalk r of (es, err) \<Rightarrow> (e # es, err))"
proof -
  assume ok: "pb_ok e"
  have "enc_field e @ r \<noteq> []"
    by (simp add: enc_field_def pb_tag_def pb_fixed32_def pb_sub_def)
  then show ?thesis using pb_field_enc [OF ok, of r] by (subst pbWalk.simps) simp
qed

interpretation field_codec: codec enc_field
  "\<lambda>bs. case pb_field bs of Inl _ \<Rightarrow> None | Inr x \<Rightarrow> Some x" pb_ok
  by unfold_locales (simp add: pb_field_enc)

section \<open>Properties\<close>

text \<open>
  A message written field by field is walked back to exactly those fields, in order and without
  an error, for every field number, wire type and value the writer can make.
\<close>

theorem pb_roundtrip:
  assumes "list_all pb_ok es"
  shows "pbWalk (concat (map enc_field es)) = (es, None)"
  using assms by (induction es) (simp_all add: pbWalk_enc)

definition demo_fields :: "pbField list" where
  "demo_fields = [\<lparr>field = 1, wire = wireFixed32, num = 300, data = []\<rparr>,
     \<lparr>field = 16, wire = wireVarint, num = 70000, data = []\<rparr>,
     \<lparr>field = 2, wire = wireBytes, num = 0, data = [104, 105]\<rparr>]"

theorem pb_roundtrip_witness:
  "pbWalk (concat (map enc_field demo_fields)) = (demo_fields, None)"
  by (rule pb_roundtrip) (simp add: demo_fields_def pb_ok_def)

text \<open>
  On any input, hostile or not, the walk stays inside the message: the visited data are no
  longer than the message, every field number has at most 29 bits, and the walk visits no more
  fields than the message has bytes.
\<close>

theorem pbWalk_bounded:
  "length (fst (pbWalk msg)) + sum_list (map (length \<circ> data) (fst (pbWalk msg))) \<le> length msg
   \<and> list_all (\<lambda>e. field e \<le> 0x1fffffff) (fst (pbWalk msg))"
proof (induction msg rule: pbWalk.induct)
  case (1 msg)
  show ?case
  proof (cases "msg = [] \<or> (\<exists>e. pb_field msg = Inl e)")
    case True
    then show ?thesis by (auto simp: pbWalk.simps [of msg])
  next
    case False
    then obtain e r where er: "pb_field msg = Inr (e, r)" and ne: "msg \<noteq> []"
      by (cases "pb_field msg") auto
    have "field e \<le> 0x1fffffff \<and> length (data e) + length r < length msg"
      using er
      by (auto simp: pb_field_def Let_def word_less_nat_alt not_less dest!: Uvarint_shrinks
          split: option.splits prod.splits if_splits; linarith)
    moreover have "length (fst (pbWalk r)) + sum_list (map (length \<circ> data) (fst (pbWalk r))) \<le> length r
        \<and> list_all (\<lambda>e. field e \<le> 0x1fffffff) (fst (pbWalk r))"
      using "1.IH" [OF ne er refl] .
    ultimately show ?thesis using er ne
      by (auto simp: pbWalk.simps [of msg] comp_def split: prod.splits)
  qed
qed

end
