(* ===== verification/Esp_State.thy ===== *)
theory Esp_State
  imports Esp_Proto Go_Float Go_Strings
begin

text \<open>
  \<open>internal/esphome/state.go\<close> and the state of \<open>server.go\<close> it works on: what the device reads of itself, what
  has been published, and the connections it is sent to. A connection's queue is kept as all the frames ever
  queued on it (\<open>c_sent\<close>) and how many the writer has taken (\<open>c_taken\<close>). The set of connections is a list
  of identified connections in the order an iteration meets them. What the device's readers and callbacks
  answer during a call is its \<open>esp_env\<close>.
\<close>

section \<open>Keys\<close>

text \<open>\<open>fnv.New32a\<close>.\<close>

definition fnv_step :: "32 word \<Rightarrow> byte \<Rightarrow> 32 word" where
  "fnv_step h b = (h XOR ucast b) * 16777619"

definition entityKey :: "string \<Rightarrow> 32 word" where
  "entityKey objectID = foldl fnv_step 2166136261 (str_bytes objectID)"

definition keyUptime :: "32 word" where "keyUptime = entityKey ''uptime''"
definition keyWifi :: "32 word" where "keyWifi = entityKey ''wifi_signal''"
definition keyVolume :: "32 word" where "keyVolume = entityKey ''volume''"
definition keyCPU :: "32 word" where "keyCPU = entityKey ''cpu_temperature''"
definition keyMemory :: "32 word" where "keyMemory = entityKey ''memory_available''"
definition keyJack :: "32 word" where "keyJack = entityKey ''jack_volume''"
definition keyBT :: "32 word" where "keyBT = entityKey ''bluetooth_volume''"
definition keyOutput :: "32 word" where "keyOutput = entityKey ''output_device''"
definition keyBTDevice :: "32 word" where "keyBTDevice = entityKey ''bluetooth_device''"
definition keyJackOn :: "32 word" where "keyJackOn = entityKey ''audio_jack''"
definition keySound :: "32 word" where "keySound = entityKey ''speaker_playing''"
definition keySpeaker :: "32 word" where "keySpeaker = entityKey ''speaker''"
definition keyMicMute :: "32 word" where "keyMicMute = entityKey ''microphone_muted''"
definition keySendspin :: "32 word" where "keySendspin = entityKey ''sendspin''"
definition keyDelay :: "32 word" where "keyDelay = entityKey ''sendspin_output_delay''"
definition keyADB :: "32 word" where "keyADB = entityKey ''network_adb''"
definition keyAlexa :: "32 word" where "keyAlexa = entityKey ''alexa_registered''"
definition keyText :: "32 word" where "keyText = entityKey ''alexa_command''"
definition keyCommand :: "32 word" where "keyCommand = entityKey ''send_command''"

definition entity_ids :: "string list" where
  "entity_ids = [''uptime'', ''wifi_signal'', ''volume'', ''cpu_temperature'', ''memory_available'', ''jack_volume'',
     ''bluetooth_volume'', ''output_device'', ''bluetooth_device'', ''audio_jack'', ''speaker_playing'', ''speaker'',
     ''microphone_muted'', ''sendspin'', ''sendspin_output_delay'', ''network_adb'', ''alexa_registered'',
     ''alexa_command'', ''send_command'', ''action_button'', ''mute_button'', ''action_button_mode'', ''mute_button_mode'']"

section \<open>State\<close>

datatype adb_mode = ADBOff | ADBInsecure | ADBSecure

fun adb_string :: "adb_mode \<Rightarrow> string" where
  "adb_string ADBOff = ''Off''"
| "adb_string ADBInsecure = ''Insecure''"
| "adb_string ADBSecure = ''Secure''"

definition ParseADBMode :: "string \<Rightarrow> adb_mode option" where
  "ParseADBMode s = find (\<lambda>m. adb_string m = s) [ADBOff, ADBInsecure, ADBSecure]"

datatype reading_kind = kindSensor | kindBinary | kindSelect | kindSwitch | kindMedia | kindText
  | kindTextSensor | kindNumber

record reading =
  key :: "32 word"
  rvalue :: f32
  rtext :: string
  rmuted :: bool
  rstate :: "32 word"
  rok :: bool
  rkind :: reading_kind

type_synonym frame = "nat \<times> bytes"

record volume_want =
  fraction :: f32
  absolute :: bool
  steps :: int

text \<open>Notes stand for the lines a connection's request leaves in the log.\<close>

datatype esp_note = ModeNotOffered string string | ModeSet string string | ADBNotOffered string | ADBSet adb_mode
  | MicSet bool | SendspinSwitched bool | DelaySet int | NothingPlays string | AskedToPlay string bool
  | CommandLong nat | NoCredential string | CommandsWaiting string nat | CommandEmptied | CommandAsked string
  | NothingMutes | MuteSet bool | VolumeSet volume_want

record esp_conn =
  c_sent :: "frame list"
  c_taken :: nat
  c_states :: bool
  c_services :: bool
  c_said :: string
  c_noted :: "esp_note option"
  c_failed :: bool

record esp_server =
  s_name :: string
  s_model :: string
  s_version :: string
  s_mac :: string
  adbWorking :: bool
  adbHasPending :: bool
  adbPending :: adb_mode
  adbSettled :: bool
  adbLive :: adb_mode
  micWorking :: bool
  micHasPending :: bool
  micPending :: bool
  micSettled :: bool
  micLive :: bool
  mpPlaying :: bool
  playWorking :: bool
  playHasPending :: bool
  playWant :: string
  volWorking :: bool
  volHasPending :: bool
  volWant :: volume_want
  muteWorking :: bool
  muteHasPending :: bool
  muteWant :: bool
  cmdWorking :: bool
  cmdQueue :: "string list"
  soundOn :: bool
  soundGap :: duration
  onDelay :: duration
  offDelay :: duration
  soundSince :: "time option"
  soundLastOn :: "time option"
  soundSeen :: "time option"
  lastRoute :: string
  can_play :: bool
  can_command :: bool
  can_volume :: bool
  can_mute :: bool
  can_sendspin :: bool
  can_delay :: bool
  delayMaxMS :: int
  delayAsked :: int
  delayWasSet :: bool
  settable_modes :: "string list"
  conns :: "(nat \<times> esp_conn) list"
  published :: "32 word \<rightharpoonup> reading"
  liveWake :: bool
  sensorWake :: bool

record music_volume =
  Speaker :: f32
  SpeakerStep :: int
  SpeakerOK :: bool
  Jack :: f32
  JackStep :: int
  JackOK :: bool
  Bluetooth :: f32
  BluetoothStep :: int
  BluetoothOK :: bool
  BluetoothRoute :: bool
  BluetoothRouteOK :: bool
  Max :: int
  Muted :: bool

record esp_env =
  e_now :: time
  e_uptime :: "f32 \<times> bool"
  e_wifi :: "f32 \<times> bool"
  e_cpu :: "f32 \<times> bool"
  e_memory :: "f32 \<times> bool"
  e_alexa :: "bool \<times> bool"
  e_btDevice :: "string \<times> bool"
  e_volumes :: music_volume
  e_jack :: "bool \<times> bool"
  e_sound :: "bool \<times> bool"
  e_mic :: "bool \<times> bool"
  e_adb :: "adb_mode option"
  e_mode :: "string \<Rightarrow> string"
  e_secure :: bool
  e_sendspin :: "bool option"
  e_delay :: "int option"

section \<open>Queues\<close>

definition sendQueue :: nat where "sendQueue = 64"
definition esp_maxConns :: nat where "esp_maxConns = 8"

definition esp_send :: "esp_conn \<Rightarrow> frame \<Rightarrow> esp_conn option" where
  "esp_send c f =
     (if sendQueue \<le> length (c_sent c) - c_taken c then None else Some (c\<lparr>c_sent := c_sent c @ [f]\<rparr>))"

fun send_all :: "esp_conn \<Rightarrow> frame list \<Rightarrow> bool \<times> esp_conn" where
  "send_all c [] = (True, c)"
| "send_all c (f # fs) = (case esp_send c f of None \<Rightarrow> (False, c) | Some c' \<Rightarrow> send_all c' fs)"

definition eachConn ::
  "(esp_conn \<Rightarrow> bool) \<Rightarrow> (esp_conn \<Rightarrow> bool \<times> esp_conn) \<Rightarrow> (nat \<times> esp_conn) list \<Rightarrow> (nat \<times> esp_conn) list \<times> nat list" where
  "eachConn wanted f cs =
     (concat (map (\<lambda>(i, c). if \<not> wanted c then [(i, c)]
                            else (case f c of (ok, c') \<Rightarrow> if ok then [(i, c')] else [])) cs),
      concat (map (\<lambda>(i, c). if wanted c \<and> \<not> fst (f c) then [i] else []) cs))"

definition stateSubscriberBesides :: "nat option \<Rightarrow> esp_server \<Rightarrow> bool" where
  "stateSubscriberBesides except s = list_ex (\<lambda>(i, c). except \<noteq> Some i \<and> c_states c) (conns s)"

definition anyStateSubscriber :: "esp_server \<Rightarrow> bool" where
  "anyStateSubscriber s = stateSubscriberBesides None s"

section \<open>State messages\<close>

definition boolValue :: "bool \<Rightarrow> f32" where
  "boolValue b = (if b then 0x3f800000 else 0)"

definition f32_zero :: "f32 \<Rightarrow> bool" where
  "f32_zero v \<longleftrightarrow> f32_eq v 0"

definition textState :: "32 word \<Rightarrow> string \<Rightarrow> bool \<Rightarrow> bytes" where
  "textState k text missing = pb_boolean (pb_str (pb_fixed32 [] 1 k) 2 text) 3 missing"

definition selectState :: "32 word \<Rightarrow> string \<Rightarrow> bytes" where
  "selectState k choice = pb_str (pb_fixed32 [] 1 k) 2 choice"

definition switchState :: "32 word \<Rightarrow> bool \<Rightarrow> bytes" where
  "switchState k on = pb_boolean (pb_fixed32 [] 1 k) 2 on"

definition binaryState :: "32 word \<Rightarrow> bool \<Rightarrow> bool \<Rightarrow> bytes" where
  "binaryState k on missing = pb_boolean (pb_boolean (pb_fixed32 [] 1 k) 2 on) 3 missing"

definition floatState :: "32 word \<Rightarrow> f32 \<Rightarrow> bool \<Rightarrow> bytes" where
  "floatState k v missing = pb_boolean (pb_float (pb_fixed32 [] 1 k) 2 v) 3 missing"

definition mediaState :: "32 word \<Rightarrow> 32 word \<Rightarrow> f32 \<Rightarrow> bool \<Rightarrow> bytes" where
  "mediaState k state volume muted =
     pb_boolean (pb_float (pb_u32 (pb_fixed32 [] 1 k) 2 state) 3 volume) 4 muted"

definition msgBinarySensorState :: nat where "msgBinarySensorState = 21"
definition msgSensorState :: nat where "msgSensorState = 25"
definition msgSwitchState :: nat where "msgSwitchState = 26"
definition msgTextSensorState :: nat where "msgTextSensorState = 27"
definition msgNumberState :: nat where "msgNumberState = 50"
definition msgSelectState :: nat where "msgSelectState = 53"
definition msgMediaPlayerState :: nat where "msgMediaPlayerState = 64"
definition msgTextState :: nat where "msgTextState = 98"
definition msgEventState :: nat where "msgEventState = 108"
definition msgHomeassistantAct :: nat where "msgHomeassistantAct = 35"

lemmas state_msgs = msgBinarySensorState_def msgSensorState_def msgSwitchState_def msgTextSensorState_def
  msgNumberState_def msgSelectState_def msgMediaPlayerState_def msgTextState_def

definition state_frame :: "reading \<Rightarrow> frame" where
  "state_frame r =
     (case rkind r of
        kindSensor \<Rightarrow> (msgSensorState, floatState (key r) (rvalue r) (\<not> rok r))
      | kindBinary \<Rightarrow> (msgBinarySensorState, binaryState (key r) (\<not> f32_zero (rvalue r)) (\<not> rok r))
      | kindSelect \<Rightarrow> (msgSelectState, selectState (key r) (rtext r))
      | kindSwitch \<Rightarrow> (msgSwitchState, switchState (key r) (\<not> f32_zero (rvalue r)))
      | kindMedia \<Rightarrow> (msgMediaPlayerState, mediaState (key r) (rstate r) (rvalue r) (rmuted r))
      | kindText \<Rightarrow> (msgTextState, textState (key r) (rtext r) False)
      | kindTextSensor \<Rightarrow> (msgTextSensorState, textState (key r) (rtext r) (\<not> rok r))
      | kindNumber \<Rightarrow> (msgNumberState, floatState (key r) (rvalue r) (\<not> rok r)))"

definition sendSensorsAt :: "reading list \<Rightarrow> esp_conn \<Rightarrow> bool \<times> esp_conn" where
  "sendSensorsAt rs c = send_all c (map state_frame rs)"

text \<open>Go's \<open>==\<close> on two readings.\<close>

definition same_reading :: "reading \<Rightarrow> reading \<Rightarrow> bool" where
  "same_reading a b \<longleftrightarrow> key a = key b \<and> f32_eq (rvalue a) (rvalue b) \<and> rtext a = rtext b \<and> rmuted a = rmuted b
     \<and> rstate a = rstate b \<and> rok a = rok b \<and> rkind a = rkind b"

fun note_changed :: "reading list \<Rightarrow> (32 word \<rightharpoonup> reading) \<Rightarrow> (32 word \<rightharpoonup> reading) \<times> reading list" where
  "note_changed [] p = (p, [])"
| "note_changed (r # rs) p =
     (if (case p (key r) of Some was \<Rightarrow> same_reading was r | None \<Rightarrow> False) then note_changed rs p
      else (case note_changed rs (p(key r \<mapsto> r)) of (p', ch) \<Rightarrow> (p', r # ch)))"

definition publish :: "reading list \<Rightarrow> esp_server \<Rightarrow> reading list \<times> nat list \<times> esp_server" where
  "publish rs s =
     (case note_changed rs (published s) of (p, changed) \<Rightarrow>
       if changed = [] then ([], [], s\<lparr>published := p\<rparr>)
       else (case eachConn c_states (sendSensorsAt changed) (conns s) of
           (cs, failed) \<Rightarrow> (changed, failed, s\<lparr>published := p, conns := cs\<rparr>)))"

section \<open>Reading the device\<close>

definition mk_reading :: "32 word \<Rightarrow> f32 \<Rightarrow> string \<Rightarrow> bool \<Rightarrow> reading_kind \<Rightarrow> reading" where
  "mk_reading k v t good kind = \<lparr>key = k, rvalue = v, rtext = t, rmuted = False, rstate = 0, rok = good, rkind = kind\<rparr>"

definition number_reading :: "32 word \<Rightarrow> f32 \<times> bool \<Rightarrow> reading" where
  "number_reading k vo = mk_reading k (fst vo) '''' (snd vo) kindSensor"

definition flag_reading :: "32 word \<Rightarrow> bool \<times> bool \<Rightarrow> reading_kind \<Rightarrow> reading" where
  "flag_reading k bo kind = mk_reading k (boolValue (fst bo)) '''' (snd bo) kind"

definition text_reading :: "32 word \<Rightarrow> string \<times> bool \<Rightarrow> reading_kind \<Rightarrow> reading" where
  "text_reading k to kind = mk_reading k 0 (fst to) (snd to) kind"

definition adbObserved :: "adb_mode \<Rightarrow> esp_server \<Rightarrow> esp_server" where
  "adbObserved m s = (if adbSettled s \<and> adbLive s \<noteq> m then s\<lparr>adbSettled := False\<rparr> else s)"

definition micObserved :: "bool \<Rightarrow> esp_server \<Rightarrow> esp_server" where
  "micObserved muted s = (if micSettled s \<and> micLive s \<noteq> muted then s\<lparr>micSettled := False\<rparr> else s)"

definition button_ids :: "string list" where
  "button_ids = [''action_button'', ''mute_button'']"

definition mode_key :: "string \<Rightarrow> 32 word" where
  "mode_key b = entityKey (b @ ''_mode'')"

definition readTicked :: "esp_env \<Rightarrow> esp_server \<Rightarrow> reading list \<times> esp_server" where
  "readTicked E s =
     (let base = [number_reading keyUptime (e_uptime E), number_reading keyWifi (e_wifi E)];
          asked = (if anyStateSubscriber s
            then [flag_reading keyAlexa (e_alexa E) kindBinary, text_reading keyBTDevice (e_btDevice E) kindTextSensor]
            else []);
          modes = map (\<lambda>b. text_reading (mode_key b) (e_mode E b, True) kindSelect) button_ids
      in case e_adb E of
           None \<Rightarrow> (base @ asked @ modes, s)
         | Some m \<Rightarrow> (base @ asked @ modes @ [text_reading keyADB (adb_string m, True) kindSelect], adbObserved m s))"

definition forgetSound :: "esp_server \<Rightarrow> esp_server" where
  "forgetSound s = s\<lparr>soundOn := False, soundSince := None, soundLastOn := None, soundSeen := None,
     published := (published s)(keySound := None)\<rparr>"

definition sound_gapped :: "time \<Rightarrow> esp_server \<Rightarrow> bool" where
  "sound_gapped now s =
     (0 < soundGap s \<and> (case soundSeen s of None \<Rightarrow> False | Some seen \<Rightarrow> soundGap s < now - seen))"

text \<open>\<open>now.Sub(t)\<close> of the zero time is larger than any delay.\<close>

definition since_time :: "time \<Rightarrow> time option \<Rightarrow> duration \<Rightarrow> bool" where
  "since_time now t d = (case t of None \<Rightarrow> True | Some x \<Rightarrow> d \<le> now - x)"

definition sound_heard :: "bool \<Rightarrow> time \<Rightarrow> esp_server \<Rightarrow> esp_server" where
  "sound_heard playing now s =
     (if playing then
        (let since = (case soundSince s of None \<Rightarrow> Some now | Some t \<Rightarrow> Some t)
         in s\<lparr>soundLastOn := Some now, soundSince := since,
              soundOn := (if since_time now since (onDelay s) then True else soundOn s)\<rparr>)
      else s\<lparr>soundSince := None,
             soundOn := (if soundOn s \<and> since_time now (soundLastOn s) (offDelay s) then False else soundOn s)\<rparr>)"

definition readSound :: "esp_env \<Rightarrow> esp_server \<Rightarrow> reading \<times> esp_server" where
  "readSound E s =
     (case e_sound E of (playing, good) \<Rightarrow>
       let now = e_now E; gapped = sound_gapped now s; s1 = s\<lparr>soundSeen := Some now\<rparr>
       in if \<not> good then (mk_reading keySound 0 '''' False kindBinary, s1\<lparr>soundSince := None\<rparr>)
          else (let s2 = (if gapped then s1\<lparr>soundSince := None, soundLastOn := Some now\<rparr> else s1);
                    s3 = sound_heard playing now s2
            in (flag_reading keySound (soundOn s3, True) kindBinary, s3)))"

section \<open>The output in use\<close>

definition routeSpeaker :: string where "routeSpeaker = ''speaker''"
definition routeJack :: string where "routeJack = ''jack''"
definition routeBluetooth :: string where "routeBluetooth = ''bluetooth''"

definition activeRoute :: "music_volume \<Rightarrow> bool \<times> bool \<Rightarrow> string option" where
  "activeRoute v jack =
     (if \<not> BluetoothRouteOK v then None
      else if BluetoothRoute v then Some routeBluetooth
      else if \<not> snd jack then None
      else if fst jack then Some routeJack
      else Some routeSpeaker)"

definition activeVolume :: "music_volume \<Rightarrow> bool \<times> bool \<Rightarrow> (int \<times> f32) option" where
  "activeVolume v jack =
     (if activeRoute v jack = Some routeBluetooth
      then (if BluetoothOK v then Some (BluetoothStep v, Bluetooth v) else None)
      else if \<not> snd jack then None
      else if fst jack then (if JackOK v then Some (JackStep v, Jack v) else None)
      else (if SpeakerOK v then Some (SpeakerStep v, Speaker v) else None))"

definition mediaStateFor :: "bool \<Rightarrow> 32 word" where
  "mediaStateFor playing = (if playing then 2 else 1)"

definition routeObserved :: "string option \<Rightarrow> esp_server \<Rightarrow> esp_server" where
  "routeObserved route s =
     (case route of None \<Rightarrow> s
      | Some r \<Rightarrow>
          (let prev = lastRoute s; s1 = s\<lparr>lastRoute := r\<rparr>
           in if prev = '''' \<or> r = prev \<or> (r \<noteq> routeBluetooth \<and> prev \<noteq> routeBluetooth) then s1
              else s1\<lparr>sensorWake := True\<rparr>))"

definition media_reading :: "music_volume \<Rightarrow> int \<Rightarrow> bool \<Rightarrow> reading" where
  "media_reading v step playing =
     \<lparr>key = keySpeaker, rvalue = f32_div (f32_of_int step) (f32_of_int (Max v)), rtext = '''', rmuted = Muted v,
      rstate = mediaStateFor playing, rok = True, rkind = kindMedia\<rparr>"

definition readLive :: "esp_env \<Rightarrow> esp_server \<Rightarrow> reading list \<times> esp_server" where
  "readLive E s =
     (let v = e_volumes E; route = activeRoute v (e_jack E);
          base = [number_reading keyCPU (e_cpu E), number_reading keyMemory (e_memory E),
                  number_reading keyVolume (Speaker v, SpeakerOK v), number_reading keyJack (Jack v, JackOK v),
                  number_reading keyBT (Bluetooth v, BluetoothOK v), flag_reading keyJackOn (e_jack E) kindBinary,
                  text_reading keyOutput (case route of None \<Rightarrow> ('''', False) | Some r \<Rightarrow> (r, True)) kindTextSensor];
          s1 = routeObserved route s;
          media = (case activeVolume v (e_jack E) of
              Some (step, p) \<Rightarrow> if 0 < Max v then [media_reading v step (mpPlaying s1)] else []
            | None \<Rightarrow> []);
          (mic, s2) = (if snd (e_mic E) then ([flag_reading keyMicMute (fst (e_mic E), True) kindSwitch], micObserved (fst (e_mic E)) s1)
                       else ([], s1));
          send = (case e_sendspin E of None \<Rightarrow> [] | Some on \<Rightarrow> [flag_reading keySendspin (on, True) kindSwitch]);
          delay = (case e_delay E of None \<Rightarrow> [] | Some ms \<Rightarrow> [mk_reading keyDelay (f32_of_int ms) '''' True kindNumber])
      in (base @ media @ mic @ send @ delay, s2))"

section \<open>Presses\<close>

definition kv :: "string \<Rightarrow> string \<Rightarrow> bytes" where
  "kv k v = pb_str (pb_str [] 1 k) 2 v"

definition press_event :: "string \<Rightarrow> string \<Rightarrow> bytes" where
  "press_event objectID eventType = pb_str (pb_fixed32 [] 1 (entityKey objectID)) 2 eventType"

definition press_action :: "string \<Rightarrow> string \<Rightarrow> string \<Rightarrow> int \<Rightarrow> duration \<Rightarrow> bytes" where
  "press_action device objectID eventType n holdFor =
     (let a = pb_str [] 1 ''esphome.overdub_pressed'';
          a1 = pb_sub (pb_sub (pb_sub a 2 (kv ''event_type'' eventType)) 2 (kv ''device'' device)) 2 (kv ''button'' objectID);
          a2 = (if 0 < n then pb_sub a1 3 (kv ''multi_press_count'' (int_str n)) else a1);
          a3 = (if 0 < holdFor then pb_sub a2 3 (kv ''held_ms'' (int_str (go_div holdFor millisecond))) else a2)
      in pb_boolean a3 5 True)"

definition FirePress :: "string \<Rightarrow> string \<Rightarrow> int \<Rightarrow> duration \<Rightarrow> esp_server \<Rightarrow> nat list \<times> esp_server" where
  "FirePress objectID eventType n holdFor s =
     (if objectID \<notin> set button_ids then ([], s)
      else (case eachConn c_states (\<lambda>c. send_all c [(msgEventState, press_event objectID eventType)]) (conns s) of
          (cs, failed) \<Rightarrow>
            (case eachConn c_services
                (\<lambda>c. send_all c [(msgHomeassistantAct, press_action (s_name s) objectID eventType n holdFor)]) cs of
               (cs', failed') \<Rightarrow> (failed @ failed', s\<lparr>conns := cs'\<rparr>))))"

section \<open>Polling\<close>

definition minLiveReadGap :: duration where "minLiveReadGap = second"
definition MinSensorTick :: duration where "MinSensorTick = 30 * second"
definition HeavyEvery :: nat where "HeavyEvery = 5"
definition SoundEvery :: nat where "SoundEvery = 1"
definition SoundOnDelay :: duration where "SoundOnDelay = second"
definition SoundOffDelay :: duration where "SoundOffDelay = second"

definition sensor_tick :: "duration \<Rightarrow> duration" where
  "sensor_tick every = (if every < MinSensorTick then MinSensorTick else every)"

definition live_tick :: "duration \<Rightarrow> duration" where
  "live_tick every = (if every \<le> 0 then minLiveReadGap else every)"

definition live_begin :: "duration \<Rightarrow> esp_server \<Rightarrow> esp_server" where
  "live_begin every s = s\<lparr>soundGap := 2 * live_tick every * int SoundEvery\<rparr>"

definition sensor_turn :: "esp_env \<Rightarrow> esp_server \<Rightarrow> nat list \<times> esp_server" where
  "sensor_turn E s = (case readTicked E s of (rs, s1) \<Rightarrow> case publish rs s1 of (ch, failed, s2) \<Rightarrow> (failed, s2))"

text \<open>How long a woken reader still waits, \<open>wakeGap\<close> being the server's.\<close>

definition wake_left :: "duration \<Rightarrow> time \<Rightarrow> time \<Rightarrow> duration" where
  "wake_left wakeGap now read = max 0 (wakeGap - (now - read))"

record live_poll =
  lp_last :: "time option"
  lp_woken :: bool
  lp_ticks :: nat
  lp_watched :: bool

definition live_turn :: "duration \<Rightarrow> esp_env \<Rightarrow> live_poll \<Rightarrow> esp_server \<Rightarrow> nat list \<times> live_poll \<times> esp_server" where
  "live_turn wakeGap E p s =
     (let listening = anyStateSubscriber s;
          s1 = (if listening \<noteq> lp_watched p \<and> \<not> listening then (forgetSound s)\<lparr>lastRoute := ''''\<rparr> else s);
          p1 = p\<lparr>lp_watched := listening\<rparr>
      in if listening \<and> (\<not> lp_woken p \<or> since_time (e_now E) (lp_last p) wakeGap) then
           (let heard = lp_woken p \<or> lp_ticks p mod SoundEvery = 0;
                heavy = lp_woken p \<or> lp_ticks p mod HeavyEvery = 0;
                (r1, s2) = (if heard then (case readSound E s1 of (r, t) \<Rightarrow> ([r], t)) else ([], s1));
                (r2, s3) = (if heavy then readLive E s2 else ([], s2));
                p2 = p1\<lparr>lp_last := Some (e_now E), lp_ticks := Suc (lp_ticks p)\<rparr>
            in if r1 @ r2 = [] then ([], p2, s3)
               else (case publish (r1 @ r2) s3 of (ch, failed, s4) \<Rightarrow> (failed, p2, s4)))
         else ([], p1, s1))"

text \<open>After the turn: a tick, or a wake.\<close>

definition live_wait :: "bool \<Rightarrow> live_poll \<Rightarrow> live_poll" where
  "live_wait woken p = p\<lparr>lp_woken := woken\<rparr>"

section \<open>Keys do not collide\<close>

text \<open>A request names an entity by the hash of its name alone: no two entities share one.\<close>

lemma entity_keys_distinct: "distinct (map entityKey entity_ids)"
  by code_simp

section \<open>The speaker's sound, debounced\<close>

text \<open>
  \<open>heard_run g t h\<close>: in the observations \<open>h\<close>, latest first, the device was heard playing at every one since \<open>t\<close>,
  and no two of these lie more than the gap apart.
\<close>

fun heard_run :: "duration \<Rightarrow> time \<Rightarrow> esp_env list \<Rightarrow> bool" where
  "heard_run g t [] = False"
| "heard_run g t (E # h) =
     (e_sound E = (True, True)
      \<and> (e_now E = t
         \<or> (case h of [] \<Rightarrow> False | E' # h' \<Rightarrow> (if 0 < g then e_now E - e_now E' \<le> g else True) \<and> heard_run g t h)))"

definition sound_step :: "esp_server \<Rightarrow> esp_env \<Rightarrow> esp_server" where
  "sound_step s E = snd (readSound E s)"

definition sound_inv :: "esp_env list \<Rightarrow> esp_server \<Rightarrow> bool" where
  "sound_inv h s \<longleftrightarrow> soundSeen s = (case h of [] \<Rightarrow> None | E # h' \<Rightarrow> Some (e_now E))
     \<and> (case soundSince s of None \<Rightarrow> True | Some t \<Rightarrow> heard_run (soundGap s) t h)
     \<and> (case soundLastOn s of
          None \<Rightarrow> \<not> soundOn s \<and> (\<forall>E \<in> set h. e_sound E \<noteq> (True, True))
        | Some t \<Rightarrow> (\<forall>E \<in> set h. e_sound E = (True, True) \<longrightarrow> e_now E \<le> t) \<and> (\<exists>E \<in> set h. t \<le> e_now E))"

lemma sound_step_delays [simp]:
  "soundGap (sound_step s E) = soundGap s" "onDelay (sound_step s E) = onDelay s" "offDelay (sound_step s E) = offDelay s"
  by (auto simp: sound_step_def readSound_def sound_heard_def Let_def split: prod.splits)

lemma sound_step_unknown:
  "e_sound E = (p, False) \<Longrightarrow> sound_step s E = s\<lparr>soundSeen := Some (e_now E), soundSince := None\<rparr>"
  by (simp add: sound_step_def readSound_def Let_def)

lemma sound_step_silent:
  "e_sound E = (False, True) \<Longrightarrow>
     (let lo = (if sound_gapped (e_now E) s then Some (e_now E) else soundLastOn s)
      in sound_step s E = s\<lparr>soundSeen := Some (e_now E), soundSince := None, soundLastOn := lo,
           soundOn := (if soundOn s \<and> since_time (e_now E) lo (offDelay s) then False else soundOn s)\<rparr>)"
  by (simp add: sound_step_def readSound_def sound_heard_def Let_def)

lemma sound_step_playing:
  "e_sound E = (True, True) \<Longrightarrow>
     (let since = (if sound_gapped (e_now E) s \<or> soundSince s = None then Some (e_now E) else soundSince s)
      in sound_step s E = s\<lparr>soundSeen := Some (e_now E), soundSince := since, soundLastOn := Some (e_now E),
           soundOn := (if since_time (e_now E) since (onDelay s) then True else soundOn s)\<rparr>)"
  by (auto simp: sound_step_def readSound_def sound_heard_def Let_def split: option.splits)

lemma sound_inv_step:
  assumes "sound_inv h s" "\<forall>E' \<in> set h. e_now E' \<le> e_now E"
  shows "sound_inv (E # h) (sound_step s E)"
proof -
  obtain playing good where es: "e_sound E = (playing, good)" by fastforce
  have seen: "soundSeen s = (case h of [] \<Rightarrow> None | E # h' \<Rightarrow> Some (e_now E))"
    and since: "\<And>t. soundSince s = Some t \<Longrightarrow> heard_run (soundGap s) t h"
    using assms(1) by (simp_all add: sound_inv_def)
  have none: "soundLastOn s = None \<Longrightarrow> \<not> soundOn s \<and> (\<forall>E \<in> set h. e_sound E \<noteq> (True, True))"
    and some: "\<And>t. soundLastOn s = Some t \<Longrightarrow>
      (\<forall>E \<in> set h. e_sound E = (True, True) \<longrightarrow> e_now E \<le> t) \<and> (\<exists>E \<in> set h. t \<le> e_now E)"
    using assms(1) by (simp_all add: sound_inv_def)
  consider "e_sound E = (playing, False)" | "e_sound E = (False, True)" | "e_sound E = (True, True)"
    using es by (cases good; cases playing) auto
  then show ?thesis
  proof cases
    case 1
    then show ?thesis
      using none some assms(2) by (cases "soundLastOn s") (auto simp: sound_inv_def sound_step_unknown)
  next
    case 2
    show ?thesis
    proof (cases "sound_gapped (e_now E) s")
      case True
      then show ?thesis using sound_step_silent [OF 2, of s] 2 assms(2) by (auto simp: sound_inv_def Let_def)
    next
      case False
      then show ?thesis using sound_step_silent [OF 2, of s] 2 assms(2) none some
        by (cases "soundLastOn s") (auto simp: sound_inv_def Let_def)
    qed
  next
    case 3
    have new: "heard_run (soundGap s) (e_now E) (E # h)" using 3 by simp
    have old: "heard_run (soundGap s) t (E # h)" if "\<not> sound_gapped (e_now E) s" "soundSince s = Some t" for t
    proof -
      have "heard_run (soundGap s) t h" by (rule since [OF that(2)])
      then obtain E' h' where h: "h = E' # h'" by (cases h) auto
      then have "if 0 < soundGap s then e_now E - e_now E' \<le> soundGap s else True"
        using that(1) seen by (auto simp: sound_gapped_def not_less)
      then show ?thesis using 3 h \<open>heard_run (soundGap s) t h\<close> by simp
    qed
    obtain t where t: "soundSince (sound_step s E) = Some t" "heard_run (soundGap s) t (E # h)"
      using sound_step_playing [OF 3, of s] new old
      by (cases "sound_gapped (e_now E) s \<or> soundSince s = None") (auto simp: Let_def simp del: heard_run.simps)
    have "soundSeen (sound_step s E) = Some (e_now E)" "soundLastOn (sound_step s E) = Some (e_now E)"
      using sound_step_playing [OF 3, of s] by (simp_all add: Let_def)
    then show ?thesis using t assms(2) by (simp add: sound_inv_def del: heard_run.simps)
  qed
qed

lemma sound_turns_on:
  assumes "soundOn (sound_step s E)" "\<not> soundOn s"
  shows "\<exists>t. soundSince (sound_step s E) = Some t \<and> onDelay s \<le> e_now E - t"
proof -
  obtain playing good where es: "e_sound E = (playing, good)" by fastforce
  consider "e_sound E = (playing, False)" | "e_sound E = (False, True)" | "e_sound E = (True, True)"
    using es by (cases good; cases playing) auto
  then show ?thesis
  proof cases
    case 1 then show ?thesis using assms by (simp add: sound_step_unknown)
  next
    case 2 then show ?thesis using assms sound_step_silent [OF 2, of s] by (simp add: Let_def)
  next
    case 3
    define since where "since = (if sound_gapped (e_now E) s \<or> soundSince s = None then Some (e_now E) else soundSince s)"
    have "since \<noteq> None" by (auto simp: since_def)
    then obtain t where t: "since = Some t" by blast
    have "soundSince (sound_step s E) = since" "soundOn (sound_step s E) = (since_time (e_now E) since (onDelay s) \<or> soundOn s)"
      using sound_step_playing [OF 3, of s] by (simp_all add: Let_def since_def)
    then show ?thesis using assms t by (simp add: since_time_def)
  qed
qed

lemma sound_turns_off:
  assumes "soundOn s" "\<not> soundOn (sound_step s E)"
  shows "e_sound E = (False, True)
    \<and> (\<forall>t. soundLastOn s = Some t \<longrightarrow> offDelay s \<le> e_now E - t \<or> offDelay s \<le> 0)"
proof -
  obtain playing good where es: "e_sound E = (playing, good)" by fastforce
  consider "e_sound E = (playing, False)" | "e_sound E = (False, True)" | "e_sound E = (True, True)"
    using es by (cases good; cases playing) auto
  then show ?thesis
  proof cases
    case 1 then show ?thesis using assms by (simp add: sound_step_unknown)
  next
    case 2 then show ?thesis using assms sound_step_silent [OF 2, of s]
      by (cases "sound_gapped (e_now E) s") (simp_all add: Let_def since_time_def split: if_splits option.splits)
  next
    case 3
    have "soundOn (sound_step s E) \<or> \<not> soundOn s"
      using sound_step_playing [OF 3, of s] by (simp add: Let_def)
    then show ?thesis using assms by simp
  qed
qed

lemma sound_inv_run:
  "sorted (map e_now (rev h @ es)) \<Longrightarrow> sound_inv h s \<Longrightarrow> sound_inv (rev es @ h) (foldl sound_step s es)"
proof (induction es arbitrary: h s)
  case (Cons E es)
  have "\<forall>E' \<in> set h. e_now E' \<le> e_now E" using Cons.prems(1) by (auto simp: sorted_append)
  then have "sound_inv (E # h) (sound_step s E)" using sound_inv_step Cons.prems(2) by blast
  from Cons.IH [OF _ this] show ?case using Cons.prems(1) by simp
qed simp

lemma sound_run_delays:
  "soundGap (foldl sound_step s es) = soundGap s" "onDelay (foldl sound_step s es) = onDelay s"
  "offDelay (foldl sound_step s es) = offDelay s"
  by (induction es arbitrary: s) simp_all

text \<open>
  C17. The sound sensor turns on only after the device was heard playing at every observation for the delay, none
  of them too far from the next; and off only when an observation found it silent and it was last heard
  playing the delay ago or longer.
\<close>

theorem sound_debounced:
  assumes "sorted (map e_now (es @ [E]))"
  shows "let s1 = foldl sound_step (forgetSound s) es; s2 = sound_step s1 E in
     (if soundOn s2 \<and> \<not> soundOn s1
      then \<exists>t. heard_run (soundGap s) t (E # rev es) \<and> onDelay s \<le> e_now E - t else True)
   \<and> (if soundOn s1 \<and> \<not> soundOn s2
      then e_sound E = (False, True)
           \<and> list_all (\<lambda>E'. if e_sound E' = (True, True) then offDelay s \<le> e_now E - e_now E' else True) es else True)"
proof -
  let ?s1 = "foldl sound_step (forgetSound s) es"
  let ?s2 = "sound_step ?s1 E"
  have i0: "sound_inv [] (forgetSound s)" by (simp add: sound_inv_def forgetSound_def)
  have i1: "sound_inv (rev es) ?s1"
    using sound_inv_run [of "[]" es, OF _ i0] assms by (simp add: sorted_append)
  have i2: "sound_inv (E # rev es) ?s2"
    using sound_inv_step [OF i1] assms by (auto simp: sorted_append)
  have d: "soundGap ?s1 = soundGap s" "onDelay ?s1 = onDelay s" "offDelay ?s1 = offDelay s"
    by (simp_all add: sound_run_delays) (simp_all add: forgetSound_def)
  have on: "\<exists>t. heard_run (soundGap s) t (E # rev es) \<and> onDelay s \<le> e_now E - t"
    if turned: "soundOn ?s2" "\<not> soundOn ?s1"
  proof -
    obtain t where t: "soundSince ?s2 = Some t" "onDelay s \<le> e_now E - t"
      using sound_turns_on [OF turned] d by metis
    moreover have "heard_run (soundGap ?s2) t (E # rev es)" using i2 t(1) unfolding sound_inv_def by simp
    ultimately show ?thesis using d by auto
  qed
  have off: "e_sound E = (False, True)
      \<and> list_all (\<lambda>E'. if e_sound E' = (True, True) then offDelay s \<le> e_now E - e_now E' else True) es"
    if turned: "soundOn ?s1" "\<not> soundOn ?s2"
  proof -
    obtain t where t: "soundLastOn ?s1 = Some t" "\<forall>E' \<in> set es. e_sound E' = (True, True) \<longrightarrow> e_now E' \<le> t"
      using i1 turned(1) unfolding sound_inv_def by (cases "soundLastOn ?s1") auto
    have l: "offDelay s \<le> e_now E - t \<or> offDelay s \<le> 0" and p: "e_sound E = (False, True)"
      using sound_turns_off [OF turned] t(1) d by auto
    have "offDelay s \<le> e_now E - e_now E'" if "E' \<in> set es" "e_sound E' = (True, True)" for E'
    proof -
      have "e_now E' \<le> t" using t(2) that by blast
      moreover have "e_now E' \<le> e_now E" using assms that(1) by (auto simp: sorted_append)
      ultimately show ?thesis using l by linarith
    qed
    then show ?thesis using p by (simp add: list_all_iff)
  qed
  show ?thesis using on off unfolding Let_def by simp
qed

section \<open>A new server\<close>

definition unversioned :: string where "unversioned = ''unversioned''"

definition NewServer :: "string \<Rightarrow> string \<Rightarrow> string \<Rightarrow> string \<Rightarrow> esp_server" where
  "NewServer name model version mac =
     \<lparr>s_name = name, s_model = model, s_version = (if version = '''' then unversioned else version), s_mac = mac,
      adbWorking = False, adbHasPending = False, adbPending = ADBOff, adbSettled = False, adbLive = ADBOff,
      micWorking = False, micHasPending = False, micPending = False, micSettled = False, micLive = False,
      mpPlaying = False, playWorking = False, playHasPending = False, playWant = '''',
      volWorking = False, volHasPending = False, volWant = \<lparr>fraction = 0, absolute = False, steps = 0\<rparr>,
      muteWorking = False, muteHasPending = False, muteWant = False, cmdWorking = False, cmdQueue = [],
      soundOn = False, soundGap = 0, onDelay = SoundOnDelay, offDelay = SoundOffDelay,
      soundSince = None, soundLastOn = None, soundSeen = None, lastRoute = '''',
      can_play = False, can_command = False, can_volume = False, can_mute = False, can_sendspin = False,
      can_delay = False, delayMaxMS = 0, delayAsked = 0, delayWasSet = False, settable_modes = [],
      conns = [], published = Map.empty, liveWake = False, sensorWake = False\<rparr>"

definition silent_volume :: music_volume where
  "silent_volume = \<lparr>Speaker = 0, SpeakerStep = 0, SpeakerOK = True, Jack = 0, JackStep = 0, JackOK = True,
     Bluetooth = 0, BluetoothStep = 0, BluetoothOK = True, BluetoothRoute = False, BluetoothRouteOK = True,
     Max = 30, Muted = False\<rparr>"

definition quiet_env :: "time \<Rightarrow> bool \<Rightarrow> esp_env" where
  "quiet_env now playing = \<lparr>e_now = now, e_uptime = (0, True), e_wifi = (0, True), e_cpu = (0, True),
     e_memory = (0, True), e_alexa = (True, True), e_btDevice = ('''', True), e_volumes = silent_volume,
     e_jack = (False, True), e_sound = (playing, True), e_mic = (False, True), e_adb = Some ADBOff,
     e_mode = (\<lambda>_. ''monitor''), e_secure = True, e_sendspin = None, e_delay = None\<rparr>"

text \<open>Two seconds of sound turn the sensor on.\<close>

theorem sound_debounced_witness:
  "let s1 = foldl sound_step (forgetSound (NewServer ''d'' ''m'' '''' '''')) [quiet_env 0 True, quiet_env 600000000 True];
       s2 = sound_step s1 (quiet_env 1200000000 True)
   in \<not> soundOn s1 \<and> soundOn s2
      \<and> (\<exists>t. heard_run 0 t [quiet_env 1200000000 True, quiet_env 600000000 True, quiet_env 0 True]
           \<and> onDelay (NewServer ''d'' ''m'' '''' '''') \<le> 1200000000 - t)"
proof -
  let ?es = "[quiet_env 0 True, quiet_env 600000000 True]"
  let ?s1 = "foldl sound_step (forgetSound (NewServer ''d'' ''m'' '''' '''')) ?es"
  have run: "\<not> soundOn ?s1" "soundOn (sound_step ?s1 (quiet_env 1200000000 True))"
    by (simp_all add: quiet_env_def NewServer_def forgetSound_def sound_step_def readSound_def sound_heard_def
        sound_gapped_def since_time_def SoundOnDelay_def Let_def)
  have "sorted (map e_now (?es @ [quiet_env 1200000000 True]))" by (simp add: quiet_env_def)
  from sound_debounced [OF this, of "NewServer ''d'' ''m'' '''' ''''"] run
  have "\<exists>t. heard_run (soundGap (NewServer ''d'' ''m'' '''' '''')) t (quiet_env 1200000000 True # rev ?es)
      \<and> onDelay (NewServer ''d'' ''m'' '''' '''') \<le> e_now (quiet_env 1200000000 True) - t"
    unfolding Let_def by simp
  moreover have "soundGap (NewServer ''d'' ''m'' '''' '''') = 0" "e_now (quiet_env 1200000000 True) = 1200000000"
    by (simp_all add: NewServer_def quiet_env_def)
  ultimately show ?thesis using run unfolding Let_def by simp
qed

end
