(* ===== verification/Latest_Worker.thy ===== *)
theory Latest_Worker
  imports Main
begin

text \<open>
  The interface of a worker goroutine that exists only while there is something to do: \<open>ask\<close> leaves a request
  under the lock and says whether it starts a worker; \<open>take\<close> is the worker's turn under the lock, which hands
  it a request or ends it; \<open>work\<close> is anything else that happens to the state. The switch of network ADB, the
  microphone, the player, the volume, the mute and the command queue are each one.
\<close>

datatype ('q, 'e) worker_event = WAsk 'q | WTake | WWork 'e

locale latest_worker =
  fixes working :: "'s \<Rightarrow> bool"
    and backlog :: "'s \<Rightarrow> nat"
    and ask :: "'q \<Rightarrow> 's \<Rightarrow> 's \<times> bool"
    and take :: "'s \<Rightarrow> 's \<times> 'w option"
    and work :: "'e \<Rightarrow> 's \<Rightarrow> 's"
  assumes ask_step: "ask q s = (s', spawn) \<Longrightarrow>
        (\<not> spawn \<and> working s' = working s \<and> backlog s' = backlog s)
        \<or> (0 < backlog s' \<and> working s' \<and> spawn = (\<not> working s))"
    and take_step: "take s = (s', w) \<Longrightarrow>
        (w = None \<longleftrightarrow> backlog s = 0) \<and> backlog s' = backlog s - 1 \<and> working s' = (working s \<and> w \<noteq> None)"
    and work_step: "working (work e s) = working s" "backlog (work e s) = backlog s"
begin

text \<open>The state with the number of workers alive; a turn happens only while there is one.\<close>

fun worker_step :: "nat \<times> 's \<Rightarrow> ('q, 'e) worker_event \<Rightarrow> nat \<times> 's" where
  "worker_step (n, s) (WAsk q) = (case ask q s of (s', spawn) \<Rightarrow> (if spawn then n + 1 else n, s'))"
| "worker_step (n, s) WTake =
     (if n = 0 then (n, s)
      else (case take s of (s', None) \<Rightarrow> (n - 1, s') | (s', Some w) \<Rightarrow> (n, s')))"
| "worker_step (n, s) (WWork e) = (n, work e s)"

definition worker_inv :: "nat \<times> 's \<Rightarrow> bool" where
  "worker_inv ns \<longleftrightarrow> (case ns of (n, s) \<Rightarrow> n = (if working s then 1 else 0) \<and> (0 < backlog s \<longrightarrow> working s))"

lemma worker_inv_step: "worker_inv ns \<Longrightarrow> worker_inv (worker_step ns e)"
proof (cases ns)
  case (Pair n s)
  assume i: "worker_inv ns"
  show ?thesis
  proof (cases e)
    case (WAsk q)
    obtain s' sp where a: "ask q s = (s', sp)" by fastforce
    from ask_step [OF a] show ?thesis using i Pair WAsk a by (auto simp: worker_inv_def split: if_splits)
  next
    case WTake
    obtain s' w where t: "take s = (s', w)" by fastforce
    from take_step [OF t] show ?thesis using i Pair WTake t
      by (cases w) (auto simp: worker_inv_def split: if_splits)
  next
    case (WWork x)
    then show ?thesis using i Pair by (simp add: worker_inv_def work_step)
  qed
qed

text \<open>One worker at most, and one whenever something waits: no request is lost and none is handled twice at once.\<close>

lemma one_worker:
  "worker_inv ns \<Longrightarrow> (case foldl worker_step ns es of (n, s) \<Rightarrow> n \<le> 1 \<and> (0 < backlog s \<longrightarrow> n = 1))"
proof (induction es arbitrary: ns)
  case Nil
  then show ?case by (auto simp: worker_inv_def split: prod.splits if_splits)
next
  case (Cons e es)
  show ?case using Cons.IH [OF worker_inv_step [OF Cons.prems]] by simp
qed

lemma idle_keeps_up:
  assumes "\<not> working s" "backlog s = 0"
  shows "case foldl worker_step (0, s) es of (n, t) \<Rightarrow> n \<le> 1 \<and> (0 < backlog t \<longrightarrow> n = 1)"
  using one_worker [of "(0, s)" es] assms by (simp add: worker_inv_def)

text \<open>Left alone, the worker handles everything that waits and ends.\<close>

lemma worker_ends:
  "worker_inv (n, s) \<Longrightarrow> (case foldl worker_step (n, s) (replicate (backlog s + 1) WTake) of
     (n', s') \<Rightarrow> n' = 0 \<and> backlog s' = 0 \<and> \<not> working s')"
proof (induction "backlog s" arbitrary: n s)
  case 0
  then show ?case
  proof (cases n)
    case 0
    then show ?thesis using 0 \<open>0 = backlog s\<close> \<open>worker_inv (n, s)\<close> by (auto simp: worker_inv_def split: if_splits)
  next
    case (Suc k)
    obtain s' w where t: "take s = (s', w)" by fastforce
    then show ?thesis using take_step [OF t] Suc \<open>0 = backlog s\<close> \<open>worker_inv (n, s)\<close>
      by (auto simp: worker_inv_def split: if_splits)
  qed
next
  case (Suc k)
  obtain s' w where t: "take s = (s', w)" by fastforce
  have st: "w \<noteq> None" "backlog s' = k" using take_step [OF t] Suc.hyps(2) by auto
  have "n \<noteq> 0" using Suc.prems Suc.hyps(2) by (auto simp: worker_inv_def split: if_splits)
  then have step: "worker_step (n, s) WTake = (n, s')" using t st by auto
  then have "worker_inv (n, s')" using worker_inv_step [OF Suc.prems, of WTake] by simp
  from Suc.hyps(1) [OF st(2) [symmetric] this]
  have "case foldl worker_step (n, s') (replicate (backlog s' + 1) WTake) of
     (n', s') \<Rightarrow> n' = 0 \<and> backlog s' = 0 \<and> \<not> working s'" .
  moreover have "backlog s + 1 = Suc (backlog s' + 1)"
    using st(2) Suc.hyps(2) by simp
  ultimately show ?case by (simp only: foldl_Cons step replicate_Suc)
qed

end

end
