(* ===== verification/Esp_Media.thy ===== *)
theory Esp_Media
  imports Esp_State Go_Utf8 Latest_Worker Untrusted_Log
begin

text \<open>
  \<open>internal/esphome/media.go\<close> and the ADB and microphone switches of \<open>server.go\<close>: the requests a connection
  leaves under the lock and the worker goroutines that carry them out. An operation that may start a worker
  also returns whether it does. A worker's turn under the lock is a \<open>take\<close>; what it does between turns is a
  function of what the device answers.
\<close>

definition mediaMute :: "64 word" where "mediaMute = 3"
definition mediaUnmute :: "64 word" where "mediaUnmute = 4"
definition mediaVolumeUp :: "64 word" where "mediaVolumeUp = 6"
definition mediaVolumeDown :: "64 word" where "mediaVolumeDown = 7"
definition featVolumeSet :: "32 word" where "featVolumeSet = push_bit 2 1"
definition featVolumeMute :: "32 word" where "featVolumeMute = push_bit 3 1"
definition featPlayMedia :: "32 word" where "featPlayMedia = push_bit 9 1"
definition featVolumeStep :: "32 word" where "featVolumeStep = push_bit 10 1"
definition featMediaAnnounce :: "32 word" where "featMediaAnnounce = push_bit 20 1"
definition commandMaxLength :: nat where "commandMaxLength = 255"
definition commandQueue :: nat where "commandQueue = 4"

definition mediaFeatures :: "esp_server \<Rightarrow> 32 word" where
  "mediaFeatures s =
     (if can_volume s then featVolumeSet OR featVolumeStep else 0)
     OR (if can_mute s then featVolumeMute else 0)
     OR (if can_play s then featPlayMedia OR featMediaAnnounce else 0)"

section \<open>Wiring\<close>

text \<open>A capability that appears drops every connection, so that its peer lists the entities again.\<close>

definition UsePlay :: "bool \<Rightarrow> esp_server \<Rightarrow> nat list \<times> esp_server" where
  "UsePlay present s =
     (let relist = \<not> can_play s \<and> present; s1 = s\<lparr>can_play := present\<rparr>
      in if relist then (map fst (conns s1), s1\<lparr>conns := []\<rparr>) else ([], s1))"

definition text_box :: reading where
  "text_box = \<lparr>key = keyText, rvalue = 0, rtext = '''', rmuted = False, rstate = 0, rok = True, rkind = kindText\<rparr>"

definition UseCommand :: "bool \<Rightarrow> esp_server \<Rightarrow> nat list \<times> esp_server" where
  "UseCommand present s =
     (let relist = \<not> can_command s \<and> present;
          s1 = s\<lparr>can_command := present,
                 published := (if present \<and> published s keyText = None then (published s)(keyText \<mapsto> text_box)
                               else published s)\<rparr>
      in if relist then (map fst (conns s1), s1\<lparr>conns := []\<rparr>) else ([], s1))"

definition NotePlayback :: "bool \<Rightarrow> esp_server \<Rightarrow> esp_server" where
  "NotePlayback playing s =
     (let s1 = s\<lparr>mpPlaying := playing\<rparr> in if mpPlaying s \<noteq> playing then s1\<lparr>liveWake := True\<rparr> else s1)"

definition NotePlaybackFailed :: "string \<Rightarrow> esp_server \<Rightarrow> string \<times> esp_server" where
  "NotePlaybackFailed detail s = (Cut (if detail = '''' then ''no reason given'' else detail), NotePlayback False s)"

section \<open>Playing\<close>

definition queuePlay :: "string \<Rightarrow> esp_server \<Rightarrow> esp_server \<times> bool" where
  "queuePlay url s =
     (let s1 = s\<lparr>playWant := url, playHasPending := True\<rparr>
      in if playWorking s1 then (s1, False) else (s1\<lparr>playWorking := True\<rparr>, True))"

definition playLocked :: "string \<Rightarrow> bool \<Rightarrow> esp_server \<Rightarrow> esp_note \<times> esp_server \<times> bool" where
  "playLocked url announcement s =
     (if \<not> can_play s then (NothingPlays (Cut url), s, False)
      else (AskedToPlay (Cut url) announcement, queuePlay url s))"

definition play_take_turn :: "esp_server \<Rightarrow> esp_server \<times> (string \<times> bool) option" where
  "play_take_turn s =
     (if \<not> playHasPending s then (s\<lparr>playWorking := False\<rparr>, None)
      else (s\<lparr>playHasPending := False\<rparr>, Some (playWant s, can_play s)))"

text \<open>The worker's call: an error ends the playback it announced.\<close>

definition play_done :: "string option \<Rightarrow> esp_server \<Rightarrow> esp_server" where
  "play_done err s = (case err of None \<Rightarrow> s | Some e \<Rightarrow> NotePlayback False s)"

section \<open>Commands\<close>

definition queueCommand :: "string \<Rightarrow> esp_server \<Rightarrow> esp_server \<times> bool" where
  "queueCommand text s =
     (if commandQueue \<le> length (cmdQueue s) then (s, False)
      else (let s1 = s\<lparr>cmdQueue := cmdQueue s @ [text]\<rparr>
        in if cmdWorking s1 then (s1, False) else (s1\<lparr>cmdWorking := True\<rparr>, True)))"

definition commandLocked :: "string \<Rightarrow> esp_server \<Rightarrow> esp_note \<times> esp_server \<times> bool" where
  "commandLocked raw s =
     (let text = trim_space raw; n = rune_count text
      in if commandMaxLength < n then (CommandLong n, s, False)
         else if \<not> can_command s then (NoCredential (Cut text), s, False)
         else if commandQueue \<le> length (cmdQueue s) then (CommandsWaiting (Cut text) (length (cmdQueue s)), s, False)
         else (if text = '''' then CommandEmptied else CommandAsked (Cut text), queueCommand text s))"

definition command_take :: "esp_server \<Rightarrow> esp_server \<times> (string \<times> bool) option" where
  "command_take s =
     (case cmdQueue s of
        [] \<Rightarrow> (s\<lparr>cmdWorking := False\<rparr>, None)
      | t # ts \<Rightarrow> (s\<lparr>cmdQueue := ts\<rparr>, Some (t, can_command s)))"

text \<open>What the worker does with it: the box shows it, and it is sent unless it is empty.\<close>

definition command_done :: "string \<times> bool \<Rightarrow> esp_server \<Rightarrow> string list \<times> esp_server" where
  "command_done w s =
     (case w of (text, present) \<Rightarrow>
       if \<not> present then ([], s)
       else (case publish [text_box\<lparr>rtext := text\<rparr>] s of
           (ch, failed, s1) \<Rightarrow> (if text = '''' then [] else [text], s1)))"

section \<open>Muting\<close>

definition queueMuteLocked :: "bool \<Rightarrow> esp_server \<Rightarrow> esp_server \<times> bool" where
  "queueMuteLocked on s =
     (let s1 = s\<lparr>muteWant := on, muteHasPending := True\<rparr>
      in if muteWorking s1 then (s1, False) else (s1\<lparr>muteWorking := True\<rparr>, True))"

definition SetSpeakerMute :: "bool \<Rightarrow> esp_server \<Rightarrow> esp_server \<times> bool" where
  "SetSpeakerMute on s = (if \<not> can_mute s then (s, False) else queueMuteLocked on s)"

definition setMuteLocked :: "bool \<Rightarrow> esp_server \<Rightarrow> esp_note \<times> esp_server \<times> bool" where
  "setMuteLocked on s = (if \<not> can_mute s then (NothingMutes, s, False) else (MuteSet on, queueMuteLocked on s))"

definition mute_take :: "esp_server \<Rightarrow> esp_server \<times> bool option" where
  "mute_take s =
     (if \<not> muteHasPending s then (s\<lparr>muteWorking := False\<rparr>, None)
      else (s\<lparr>muteHasPending := False\<rparr>, Some (muteWant s)))"

definition wake_live :: "esp_server \<Rightarrow> esp_server" where
  "wake_live s = s\<lparr>liveWake := True\<rparr>"

section \<open>The volume\<close>

definition queueVolumeLocked :: "volume_want \<Rightarrow> esp_server \<Rightarrow> esp_server \<times> bool" where
  "queueVolumeLocked want s =
     (let s1 = (if volHasPending s \<and> \<not> absolute want
                then s\<lparr>volWant := (volWant s)\<lparr>steps := go_int32 (steps (volWant s) + steps want)\<rparr>\<rparr>
                else s\<lparr>volWant := want\<rparr>)\<lparr>volHasPending := True\<rparr>
      in if volWorking s1 then (s1, False) else (s1\<lparr>volWorking := True\<rparr>, True))"

definition setVolumeLocked :: "volume_want \<Rightarrow> esp_server \<Rightarrow> esp_note \<times> esp_server \<times> bool" where
  "setVolumeLocked want s = (case queueVolumeLocked want s of (s1, sp) \<Rightarrow> (VolumeSet (volWant s1), s1, sp))"

definition percent_want :: "int \<Rightarrow> volume_want" where
  "percent_want percent = \<lparr>fraction = f32_div (f32_of_int percent) (f32_of_int 100), absolute = True, steps = 0\<rparr>"

definition SetSpeakerVolume :: "int \<Rightarrow> esp_server \<Rightarrow> esp_server \<times> bool" where
  "SetSpeakerVolume percent s = (if \<not> can_volume s then (s, False) else queueVolumeLocked (percent_want percent) s)"

definition volume_take :: "esp_server \<Rightarrow> esp_server \<times> volume_want option" where
  "volume_take s =
     (if \<not> volHasPending s then (s\<lparr>volWorking := False\<rparr>, None)
      else (s\<lparr>volHasPending := False\<rparr>, Some (volWant s)))"

definition readVolumeStep :: "music_volume \<Rightarrow> bool \<times> bool \<Rightarrow> (int \<times> int \<times> bool) option" where
  "readVolumeStep v jack =
     (case activeVolume v jack of
        None \<Rightarrow> None
      | Some (step, p) \<Rightarrow> if Max v \<le> 0 then None else Some (step, Max v, Muted v))"

definition SpeakerLevel :: "music_volume \<Rightarrow> bool \<times> bool \<Rightarrow> (int \<times> bool) option" where
  "SpeakerLevel v jack =
     (case readVolumeStep v jack of
        None \<Rightarrow> None
      | Some (step, m, muted) \<Rightarrow> Some (to_go_int (f64_round (step * 100) (nat m)), muted))"

definition fraction_of :: "f32 \<Rightarrow> int \<Rightarrow> int" where
  "fraction_of f m =
     (case f32_val f of (neg, k, e) \<Rightarrow> case dyadic neg k e of (n, d) \<Rightarrow> to_go_int (f64_round (n * m) d))"

definition target :: "volume_want \<Rightarrow> int \<Rightarrow> int \<Rightarrow> int" where
  "target w step m = go_int32 ((if absolute w then fraction_of (fraction w) m else step) + steps w)"

definition clampStep :: "int \<Rightarrow> int \<Rightarrow> int" where
  "clampStep step m = (if step < 0 then 0 else if m < step then m else step)"

datatype volume_outcome = LevelUnknown | AlreadyThere_vol | NothingSets | StepRefused | NotReadBack int | StepSet int int

text \<open>
  \<open>applyVolume\<close> and \<open>setStep\<close>: \<open>level\<close> is what \<open>readVolumeStep\<close> gives first and \<open>at\<close> what it gives after the call,
  and \<open>taken step\<close> what the setter answers.
\<close>

definition setStep :: "(int \<Rightarrow> bool) \<Rightarrow> (int \<times> int \<times> bool) option \<Rightarrow> int \<Rightarrow> esp_server \<Rightarrow> int list \<times> volume_outcome" where
  "setStep taken at t s =
     (if \<not> can_volume s then ([], NothingSets)
      else if \<not> taken t then ([t], StepRefused)
      else (case at of None \<Rightarrow> ([t], NotReadBack t) | Some (a, m, mu) \<Rightarrow> ([t], StepSet t a)))"

definition applyVolume ::
  "(int \<Rightarrow> bool) \<Rightarrow> (int \<times> int \<times> bool) option \<Rightarrow> (int \<times> int \<times> bool) option \<Rightarrow> volume_want \<Rightarrow> esp_server
     \<Rightarrow> int list \<times> volume_outcome" where
  "applyVolume taken level at want s =
     (case level of
        None \<Rightarrow> ([], LevelUnknown)
      | Some (step, m, mu) \<Rightarrow>
          (let t = clampStep (target want step m) m
           in if t = step then ([], AlreadyThere_vol) else setStep taken at t s))"

section \<open>Network ADB\<close>

definition setADBLocked :: "bool \<Rightarrow> string \<Rightarrow> esp_server \<Rightarrow> esp_note option \<times> esp_server \<times> bool" where
  "setADBLocked secureOK choice s =
     (case ParseADBMode choice of
        None \<Rightarrow> (Some (ADBNotOffered (Cut choice)), s, False)
      | Some want \<Rightarrow>
          if want = ADBSecure \<and> \<not> secureOK then (Some (ADBNotOffered (Cut choice)), s, False)
          else if (if adbHasPending s \<or> adbWorking s then adbPending s = want else adbSettled s \<and> adbLive s = want)
          then (None, s, False)
          else (let s1 = s\<lparr>adbPending := want, adbHasPending := True\<rparr>
            in if adbWorking s1 then (Some (ADBSet want), s1, False)
               else (Some (ADBSet want), s1\<lparr>adbWorking := True\<rparr>, True)))"

definition adb_take :: "esp_server \<Rightarrow> esp_server \<times> adb_mode option" where
  "adb_take s =
     (if \<not> adbHasPending s then (s\<lparr>adbWorking := False\<rparr>, None)
      else (s\<lparr>adbHasPending := False\<rparr>, Some (adbPending s)))"

text \<open>What the device answers while a mode is set: the setter, and the mode read after each settling.\<close>

record adb_answers =
  aa_set :: "adb_mode \<Rightarrow> bool"
  aa_first :: "adb_mode option"
  aa_second :: "adb_mode option"

datatype adb_call = AdbSetTo adb_mode | AdbDeny

definition adb_closes :: "adb_mode \<Rightarrow> adb_answers \<Rightarrow> bool" where
  "adb_closes want a \<longleftrightarrow> want = ADBSecure \<and> aa_first a = Some ADBInsecure"

definition setADBMode :: "adb_mode \<Rightarrow> adb_answers \<Rightarrow> esp_server \<Rightarrow> adb_call list \<times> esp_server" where
  "setADBMode want a s =
     (let closes = adb_closes want a;
          live = (if closes then aa_second a else aa_first a);
          calls = AdbSetTo want # (if closes then [AdbSetTo ADBOff] else [])
                  @ (if live = Some ADBOff then [AdbDeny] else []);
          settled = (aa_set a want \<and> live = Some want);
          s1 = s\<lparr>adbSettled := settled, adbLive := (if settled then want else adbLive s), sensorWake := True\<rparr>
      in (calls, s1))"

definition adbBusy :: "esp_server \<Rightarrow> bool" where
  "adbBusy s \<longleftrightarrow> adbWorking s \<or> adbHasPending s"

section \<open>The microphone\<close>

definition setMicLocked :: "bool \<Rightarrow> esp_server \<Rightarrow> esp_note option \<times> esp_server \<times> bool" where
  "setMicLocked want s =
     (if (if micHasPending s \<or> micWorking s then micPending s = want else micSettled s \<and> micLive s = want)
      then (None, s, False)
      else (let s1 = s\<lparr>micPending := want, micHasPending := True\<rparr>
        in if micWorking s1 then (Some (MicSet want), s1, False)
           else (Some (MicSet want), s1\<lparr>micWorking := True\<rparr>, True)))"

definition mic_take :: "esp_server \<Rightarrow> esp_server \<times> bool option" where
  "mic_take s =
     (if \<not> micHasPending s then (s\<lparr>micWorking := False\<rparr>, None)
      else (s\<lparr>micHasPending := False\<rparr>, Some (micPending s)))"

text \<open>
  \<open>before\<close> and \<open>after\<close> are what the device says of the microphone around the press, \<open>pressed\<close> whether the
  button could be pressed. The result is whether it was pressed, \<open>muted\<close> and \<open>settled\<close>.
\<close>

definition applyMic :: "bool \<times> bool \<Rightarrow> bool \<Rightarrow> bool \<times> bool \<Rightarrow> bool \<Rightarrow> bool \<times> bool \<times> bool" where
  "applyMic before pressed after want =
     (if \<not> snd before then (False, False, False)
      else if fst before = want then (False, fst before, True)
      else if \<not> pressed then (True, False, False)
      else if \<not> snd after then (True, False, False)
      else if fst after \<noteq> want then (True, fst after, False)
      else (True, fst after, True))"

definition setMic :: "bool \<times> bool \<Rightarrow> bool \<Rightarrow> bool \<times> bool \<Rightarrow> bool \<Rightarrow> esp_server \<Rightarrow> bool \<times> esp_server" where
  "setMic before pressed after want s =
     (case applyMic before pressed after want of (tried, muted, settled) \<Rightarrow>
       (tried, s\<lparr>micSettled := settled, micLive := (if settled then muted else micLive s), liveWake := True\<rparr>))"

section \<open>The workers\<close>

text \<open>What else happens to the server while requests come and go.\<close>

datatype esp_work = WorkPlayback bool | WorkADB adb_mode adb_answers | WorkSeenADB adb_mode
  | WorkMic "bool \<times> bool" bool "bool \<times> bool" bool | WorkSeenMic bool | WorkPublish "reading list" | WorkWake

fun esp_other :: "esp_work \<Rightarrow> esp_server \<Rightarrow> esp_server" where
  "esp_other (WorkPlayback p) s = NotePlayback p s"
| "esp_other (WorkADB m a) s = snd (setADBMode m a s)"
| "esp_other (WorkSeenADB m) s = adbObserved m s"
| "esp_other (WorkMic b p a w) s = snd (setMic b p a w s)"
| "esp_other (WorkSeenMic m) s = micObserved m s"
| "esp_other (WorkPublish rs) s = snd (snd (publish rs s))"
| "esp_other WorkWake s = wake_live s"

lemma esp_other_keeps [simp]:
  "playWorking (esp_other w s) = playWorking s" "playHasPending (esp_other w s) = playHasPending s"
  "muteWorking (esp_other w s) = muteWorking s" "muteHasPending (esp_other w s) = muteHasPending s"
  "volWorking (esp_other w s) = volWorking s" "volHasPending (esp_other w s) = volHasPending s"
  "adbWorking (esp_other w s) = adbWorking s" "adbHasPending (esp_other w s) = adbHasPending s"
  "micWorking (esp_other w s) = micWorking s" "micHasPending (esp_other w s) = micHasPending s"
  "cmdWorking (esp_other w s) = cmdWorking s" "cmdQueue (esp_other w s) = cmdQueue s"
  by (cases w; simp add: NotePlayback_def setADBMode_def adbObserved_def setMic_def micObserved_def publish_def
      wake_live_def Let_def split: prod.splits)+

definition one :: "bool \<Rightarrow> nat" where "one b = (if b then 1 else 0)"

lemma one_iff [simp]: "one b = 0 \<longleftrightarrow> \<not> b" "0 < one b \<longleftrightarrow> b" "one True = 1" "one False = 0"
  by (simp_all add: one_def)

definition mic_ask :: "bool \<Rightarrow> esp_server \<Rightarrow> esp_server \<times> bool" where
  "mic_ask want s = snd (setMicLocked want s)"

definition adb_ask :: "bool \<times> string \<Rightarrow> esp_server \<Rightarrow> esp_server \<times> bool" where
  "adb_ask q s = snd (setADBLocked (fst q) (snd q) s)"

lemmas worker_defs = one_def Let_def

interpretation play_worker: latest_worker playWorking "\<lambda>s. one (playHasPending s)" queuePlay play_take_turn esp_other
  by unfold_locales (auto simp: queuePlay_def play_take_turn_def worker_defs split: if_splits)

interpretation mute_worker: latest_worker muteWorking "\<lambda>s. one (muteHasPending s)" queueMuteLocked mute_take esp_other
  by unfold_locales (auto simp: queueMuteLocked_def mute_take_def worker_defs split: if_splits)

interpretation volume_worker: latest_worker volWorking "\<lambda>s. one (volHasPending s)" queueVolumeLocked volume_take esp_other
  by unfold_locales (auto simp: queueVolumeLocked_def volume_take_def worker_defs split: if_splits)

interpretation mic_worker: latest_worker micWorking "\<lambda>s. one (micHasPending s)" mic_ask mic_take esp_other
  by unfold_locales (auto simp: mic_ask_def setMicLocked_def mic_take_def worker_defs split: if_splits)

interpretation adb_worker: latest_worker adbWorking "\<lambda>s. one (adbHasPending s)"
  adb_ask adb_take esp_other
  by unfold_locales (auto simp: adb_ask_def setADBLocked_def adb_take_def worker_defs split: if_splits option.splits)

interpretation command_worker: latest_worker cmdWorking "\<lambda>s. length (cmdQueue s)" queueCommand command_take esp_other
  by unfold_locales (auto simp: queueCommand_def command_take_def Let_def split: if_splits list.splits)

text \<open>
  C18. The API has six workers: at any moment at most one of each kind runs, and one runs whenever a request of its
  kind waits, in whatever order requests, turns and everything else interleave.
\<close>

theorem workers_keep_up:
  assumes "\<not> playWorking s" "\<not> playHasPending s" "\<not> muteWorking s" "\<not> muteHasPending s" "\<not> volWorking s"
    "\<not> volHasPending s" "\<not> micWorking s" "\<not> micHasPending s" "\<not> adbWorking s" "\<not> adbHasPending s"
    "\<not> cmdWorking s" "cmdQueue s = []"
  shows "(case foldl play_worker.worker_step (0, s) e1 of (n, t) \<Rightarrow> n \<le> 1 \<and> (playHasPending t \<longrightarrow> n = 1))
    \<and> (case foldl mute_worker.worker_step (0, s) e2 of (n, t) \<Rightarrow> n \<le> 1 \<and> (muteHasPending t \<longrightarrow> n = 1))
    \<and> (case foldl volume_worker.worker_step (0, s) e3 of (n, t) \<Rightarrow> n \<le> 1 \<and> (volHasPending t \<longrightarrow> n = 1))
    \<and> (case foldl mic_worker.worker_step (0, s) e4 of (n, t) \<Rightarrow> n \<le> 1 \<and> (micHasPending t \<longrightarrow> n = 1))
    \<and> (case foldl adb_worker.worker_step (0, s) e5 of (n, t) \<Rightarrow> n \<le> 1 \<and> (adbHasPending t \<longrightarrow> n = 1))
    \<and> (case foldl command_worker.worker_step (0, s) e6 of (n, t) \<Rightarrow> n \<le> 1 \<and> (cmdQueue t \<noteq> [] \<longrightarrow> n = 1))"
proof (intro conjI)
  show "case foldl play_worker.worker_step (0, s) e1 of (n, t) \<Rightarrow> n \<le> 1 \<and> (playHasPending t \<longrightarrow> n = 1)"
    using play_worker.idle_keeps_up [of s e1] assms by (simp split: prod.splits)
  show "case foldl mute_worker.worker_step (0, s) e2 of (n, t) \<Rightarrow> n \<le> 1 \<and> (muteHasPending t \<longrightarrow> n = 1)"
    using mute_worker.idle_keeps_up [of s e2] assms by (simp split: prod.splits)
  show "case foldl volume_worker.worker_step (0, s) e3 of (n, t) \<Rightarrow> n \<le> 1 \<and> (volHasPending t \<longrightarrow> n = 1)"
    using volume_worker.idle_keeps_up [of s e3] assms by (simp split: prod.splits)
  show "case foldl mic_worker.worker_step (0, s) e4 of (n, t) \<Rightarrow> n \<le> 1 \<and> (micHasPending t \<longrightarrow> n = 1)"
    using mic_worker.idle_keeps_up [of s e4] assms by (simp split: prod.splits)
  show "case foldl adb_worker.worker_step (0, s) e5 of (n, t) \<Rightarrow> n \<le> 1 \<and> (adbHasPending t \<longrightarrow> n = 1)"
    using adb_worker.idle_keeps_up [of s e5] assms by (simp split: prod.splits)
  show "case foldl command_worker.worker_step (0, s) e6 of (n, t) \<Rightarrow> n \<le> 1 \<and> (cmdQueue t \<noteq> [] \<longrightarrow> n = 1)"
    using command_worker.idle_keeps_up [of s e6] assms by (simp split: prod.splits)
qed

section \<open>What counts as done\<close>

text \<open>The mode the device last said it was in, the worker's readings and the poll's taken together.\<close>

definition adb_seen :: "esp_work \<Rightarrow> adb_mode option \<Rightarrow> adb_mode option" where
  "adb_seen w seen =
     (case w of
        WorkADB want a \<Rightarrow> (if adb_closes want a then aa_second a else aa_first a)
      | WorkSeenADB m \<Rightarrow> Some m
      | _ \<Rightarrow> seen)"

fun adb_seen_in :: "(bool \<times> string, esp_work) worker_event list \<Rightarrow> adb_mode option" where
  "adb_seen_in [] = None"
| "adb_seen_in (WWork w # es) = adb_seen w (adb_seen_in es)"
| "adb_seen_in (e # es) = adb_seen_in es"

lemma adb_requests_keep:
  "adbSettled (fst (adb_ask q s)) = adbSettled s" "adbLive (fst (adb_ask q s)) = adbLive s"
  "adbSettled (fst (adb_take s)) = adbSettled s" "adbLive (fst (adb_take s)) = adbLive s"
  by (auto simp: adb_ask_def adb_take_def setADBLocked_def Let_def split: option.splits)

lemma adb_other_seen:
  "(adbSettled s \<longrightarrow> seen = Some (adbLive s)) \<Longrightarrow>
     adbSettled (esp_other w s) \<longrightarrow> adb_seen w seen = Some (adbLive (esp_other w s))"
  by (cases w) (auto simp: adb_seen_def setADBMode_def adbObserved_def NotePlayback_def setMic_def micObserved_def
      publish_def wake_live_def Let_def split: prod.splits if_splits)

lemma adb_settled_seen:
  "\<not> adbSettled s \<Longrightarrow> (case foldr (\<lambda>e ns. adb_worker.worker_step ns e) es (0, s) of
     (n, t) \<Rightarrow> adbSettled t \<longrightarrow> adb_seen_in es = Some (adbLive t))"
proof (induction es)
  case (Cons e es)
  obtain n t where st: "foldr (\<lambda>e ns. adb_worker.worker_step ns e) es (0, s) = (n, t)" by fastforce
  have ih: "adbSettled t \<longrightarrow> adb_seen_in es = Some (adbLive t)" using Cons st by simp
  have "case adb_worker.worker_step (n, t) e of (n', t') \<Rightarrow> adbSettled t' \<longrightarrow> adb_seen_in (e # es) = Some (adbLive t')"
  proof (cases e)
    case (WAsk q)
    then show ?thesis using ih adb_requests_keep(1,2) [of q t] by (auto split: prod.splits)
  next
    case WTake
    then show ?thesis using ih adb_requests_keep(3,4) [of t] by (auto split: prod.splits option.splits)
  next
    case (WWork w)
    then show ?thesis using adb_other_seen [OF ih, of w] by simp
  qed
  then show ?case using st by simp
qed simp

text \<open>
  A request for network ADB is dropped as already met only if it is the one being carried out, or if the
  device said it was in that mode the last time it was looked at; and it is refused only if it names no mode or
  asks for the authenticated one where there is no key. The events are listed latest first.
\<close>

theorem adb_request_dropped:
  assumes "\<not> adbSettled s" "foldr (\<lambda>e ns. adb_worker.worker_step ns e) es (0, s) = (n, t)"
  shows "case setADBLocked secureOK choice t of
     (None, t', spawn) \<Rightarrow> t' = t \<and> \<not> spawn \<and>
       (\<exists>want. ParseADBMode choice = Some want \<and>
          (adbBusy t \<and> adbPending t = want \<or> adb_seen_in es = Some want))
   | (Some (ADBNotOffered c), t', spawn) \<Rightarrow> t' = t \<and> \<not> spawn \<and>
       (ParseADBMode choice = None \<or> ParseADBMode choice = Some ADBSecure \<and> \<not> secureOK)
   | (Some n, t', spawn) \<Rightarrow> adbHasPending t' \<and> adbWorking t' \<and> ParseADBMode choice = Some (adbPending t')"
proof -
  have "adbSettled t \<longrightarrow> adb_seen_in es = Some (adbLive t)"
    using adb_settled_seen [OF assms(1), of es] assms(2) by simp
  then show ?thesis
    by (auto simp: setADBLocked_def adbBusy_def Let_def split: option.splits if_splits)
qed

theorem workers_keep_up_witness:
  "case foldl volume_worker.worker_step (0, NewServer ''d'' ''m'' '''' '''')
     [WAsk (percent_want 50), WAsk \<lparr>fraction = 0, absolute = False, steps = 1\<rparr>]
   of (n, t) \<Rightarrow> n = 1 \<and> volHasPending t"
proof -
  let ?s = "NewServer ''d'' ''m'' '''' ''''"
  let ?es = "[WAsk (percent_want 50), WAsk \<lparr>fraction = 0, absolute = False, steps = 1\<rparr>]
    :: (volume_want, esp_work) worker_event list"
  obtain n t where r: "foldl volume_worker.worker_step (0, ?s) ?es = (n, t)" by fastforce
  have p: "volHasPending t"
    using r by (auto simp: queueVolumeLocked_def Let_def split: prod.splits if_splits)
  have idle: "\<not> playWorking ?s" "\<not> playHasPending ?s" "\<not> muteWorking ?s" "\<not> muteHasPending ?s" "\<not> volWorking ?s"
    "\<not> volHasPending ?s" "\<not> micWorking ?s" "\<not> micHasPending ?s" "\<not> adbWorking ?s" "\<not> adbHasPending ?s"
    "\<not> cmdWorking ?s" "cmdQueue ?s = []"
    by (simp_all add: NewServer_def)
  have "case foldl volume_worker.worker_step (0, ?s) ?es of (n, t) \<Rightarrow> n \<le> 1 \<and> (volHasPending t \<longrightarrow> n = 1)"
    using workers_keep_up [OF idle, of "[]" "[]" ?es "[]" "[]" "[]"] by (elim conjE)
  then show ?thesis using r p by simp
qed

theorem adb_request_dropped_witness:
  "setADBLocked True ''Off'' (adbObserved ADBOff (snd (setADBMode ADBOff
       \<lparr>aa_set = (\<lambda>_. True), aa_first = Some ADBOff, aa_second = None\<rparr> (NewServer ''d'' ''m'' '''' ''''))))
   = (None, adbObserved ADBOff (snd (setADBMode ADBOff
       \<lparr>aa_set = (\<lambda>_. True), aa_first = Some ADBOff, aa_second = None\<rparr> (NewServer ''d'' ''m'' '''' ''''))), False)
   \<and> adb_seen_in [WWork (WorkSeenADB ADBOff), WWork (WorkADB ADBOff
       \<lparr>aa_set = (\<lambda>_. True), aa_first = Some ADBOff, aa_second = None\<rparr>)] = Some ADBOff"
proof -
  let ?a = "\<lparr>aa_set = (\<lambda>_. True), aa_first = Some ADBOff, aa_second = None\<rparr>"
  let ?s = "NewServer ''d'' ''m'' '''' ''''"
  let ?t = "adbObserved ADBOff (snd (setADBMode ADBOff ?a ?s))"
  have n: "\<not> adbSettled ?s" by (simp add: NewServer_def)
  have "foldr (\<lambda>e ns. adb_worker.worker_step ns e) [WWork (WorkSeenADB ADBOff), WWork (WorkADB ADBOff ?a)] (0, ?s) = (0, ?t)"
    by simp
  note d = adb_request_dropped [OF n this, where secureOK = True and choice = "''Off''"]
  have t: "setADBLocked True ''Off'' ?t = (None, ?t, False)"
    by (simp add: setADBLocked_def ParseADBMode_def setADBMode_def adb_closes_def adbObserved_def NewServer_def Let_def)
  have b: "\<not> adbBusy ?t" by (simp add: adbBusy_def setADBMode_def adbObserved_def NewServer_def Let_def)
  show ?thesis using d t b by (auto simp: ParseADBMode_def)
qed

end
