(* ===== verification/Esp_Noise.thy ===== *)
theory Esp_Noise
  imports Sp_Transport
begin

text \<open>
  \<open>internal/esphome/noise.go\<close>: the encrypted frames of the ESPHome API. The reader is the bytes still to
  come, their end an I/O error; the writer is the list of frames flushed to the socket, \<open>fl_ok n\<close> saying
  whether the \<open>n\<close>-th flush reaches it. The Noise library is the parameter \<open>noise_nn\<close>.
\<close>

definition leadEncrypted :: byte where "leadEncrypted = 0x01"
definition noiseMACFailure :: string where "noiseMACFailure = ''Handshake MAC failure''"
definition noisePSKLen :: nat where "noisePSKLen = 32"
definition maxHandshakeFrame :: nat where "maxHandshakeFrame = 128"
definition maxDataFrame :: nat where "maxDataFrame = 32768"
definition maxNoisePayload :: nat where "maxNoisePayload = maxDataFrame - 20"

datatype psk_error = PskBase64 | PskLength nat

definition DecodeNoisePSK :: "string \<Rightarrow> psk_error + bytes" where
  "DecodeNoisePSK key =
     (case b64_decode (trim_space key) of
        None \<Rightarrow> Inl PskBase64
      | Some raw \<Rightarrow> if length raw \<noteq> noisePSKLen then Inl (PskLength (length raw)) else Inr raw)"

section \<open>Frames\<close>

datatype frame_error = FrameEOF | MidFrame | MidLead byte | MidSize nat nat | FrameLength nat

definition mid_frame :: "frame_error \<Rightarrow> bool" where
  "mid_frame e \<longleftrightarrow> e \<noteq> FrameEOF"

definition noise_frame :: "bytes \<Rightarrow> bytes" where
  "noise_frame payload = leadEncrypted # put_be 2 (of_nat (length payload) :: 16 word) @ payload"

definition writeNoiseFrame :: "bytes \<Rightarrow> frame_error + bytes" where
  "writeNoiseFrame payload =
     (if 0xffff < length payload then Inl (FrameLength (length payload)) else Inr (noise_frame payload))"

definition readNoiseFrame :: "nat \<Rightarrow> bytes \<Rightarrow> frame_error + (bytes \<times> bytes)" where
  "readNoiseFrame limit s =
     (case read_full 3 s of
        None \<Rightarrow> Inl (if s = [] then FrameEOF else MidFrame)
      | Some (head, r) \<Rightarrow>
          if head ! 0 \<noteq> leadEncrypted then Inl (MidLead (head ! 0))
          else (let size = unat (get_be (drop 1 head) :: 16 word)
            in if limit < size then Inl (MidSize size limit)
               else (case read_full size r of None \<Rightarrow> Inl MidFrame | Some (payload, r') \<Rightarrow> Inr (payload, r'))))"

lemma readNoiseFrame_frame:
  assumes "length p \<le> limit" "length p \<le> 0xffff"
  shows "readNoiseFrame limit (noise_frame p @ r) = Inr (p, r)"
proof -
  have l: "unat (of_nat (length p) :: 16 word) = length p" using assms(2) by (simp add: unat_of_nat)
  have "noise_frame p @ r = (leadEncrypted # put_be 2 (of_nat (length p) :: 16 word)) @ (p @ r)"
    by (simp add: noise_frame_def)
  moreover have "read_full 3 ((leadEncrypted # put_be 2 (of_nat (length p) :: 16 word)) @ (p @ r))
      = Some (leadEncrypted # put_be 2 (of_nat (length p) :: 16 word), p @ r)"
    by (rule read_full_append) simp
  ultimately show ?thesis using assms l by (simp add: readNoiseFrame_def)
qed

interpretation data_frame: codec noise_frame
  "\<lambda>s. case readNoiseFrame maxDataFrame s of Inl e \<Rightarrow> None | Inr x \<Rightarrow> Some x" "\<lambda>p. length p \<le> maxDataFrame"
  by unfold_locales (simp add: readNoiseFrame_frame maxDataFrame_def)

lemma readNoiseFrame_bounds:
  assumes "readNoiseFrame limit s = Inr (p, r)"
  shows "length p \<le> limit \<and> s = noise_frame p @ r"
proof -
  obtain head r1 where h: "read_full 3 s = Some (head, r1)"
    using assms by (auto simp: readNoiseFrame_def split: option.splits)
  then have s: "s = head @ r1" "length head = 3" by (auto simp: read_full_Some)
  then obtain a b c where abc: "head = [a, b, c]" by (auto simp: length_Suc_conv numeral_3_eq_3)
  let ?n = "unat (get_be [b, c] :: 16 word)"
  have p: "a = leadEncrypted" "?n \<le> limit" "read_full ?n r1 = Some (p, r)"
    using assms h abc by (auto simp: readNoiseFrame_def Let_def split: option.splits if_splits)
  then have r1: "r1 = p @ r" "length p = ?n" by (auto simp: read_full_Some)
  have "put_be 2 (get_be [b, c] :: 16 word) = [b, c]" by (rule put_be_2_get) simp
  then have "put_be 2 (of_nat (length p) :: 16 word) = [b, c]" using r1(2) by simp
  then show ?thesis using p r1 s abc by (simp add: noise_frame_def)
qed

section \<open>The connection\<close>

record noise_rw =
  n_rx :: bytes
  n_tx :: "bytes list"
  fl_ok :: "nat \<Rightarrow> bool"
  n_in :: nat
  n_out :: nat

definition flush :: "bytes \<Rightarrow> noise_rw \<Rightarrow> bool \<times> noise_rw" where
  "flush b c = (fl_ok c (length (n_tx c)), c\<lparr>n_tx := n_tx c @ [b]\<rparr>)"

text \<open>
  The responder's side of the library: whether the first message opens under the key, and the second
  message with the two cipher states.
\<close>

record noise_nn =
  nn_read :: "bytes \<Rightarrow> bytes \<Rightarrow> bool"
  nn_write :: "bytes \<Rightarrow> bytes \<Rightarrow> (bytes \<times> bool) option"

datatype accept_error = PskWrong nat | ClientHello frame_error | HelloCarried nat | AcceptIO
  | ClientHandshake frame_error | HandshakeEmpty | Preamble | WrongKey | NoiseWrite | WriteFrame frame_error
  | NoCiphers

definition server_hello :: "string \<Rightarrow> bytes" where
  "server_hello name = leadEncrypted # str_bytes name @ [0]"

definition mac_failure :: bytes where
  "mac_failure = leadEncrypted # str_bytes noiseMACFailure"

definition hello_turn :: "string \<Rightarrow> noise_rw \<Rightarrow> (accept_error + unit) \<times> noise_rw" where
  "hello_turn name c =
     (case readNoiseFrame maxHandshakeFrame (n_rx c) of
        Inl e \<Rightarrow> (Inl (ClientHello e), c)
      | Inr (hello, r) \<Rightarrow>
          (let c1 = c\<lparr>n_rx := r\<rparr>
           in if hello \<noteq> [] then (Inl (HelloCarried (length hello)), c1)
              else (case writeNoiseFrame (server_hello name) of
                  Inl e \<Rightarrow> (Inl (WriteFrame e), c1)
                | Inr b \<Rightarrow> (case flush b c1 of (ok, c2) \<Rightarrow> (if ok then Inr () else Inl AcceptIO, c2)))))"

definition handshake_turn :: "noise_nn \<Rightarrow> bytes \<Rightarrow> noise_rw \<Rightarrow> (accept_error + bytes) \<times> noise_rw" where
  "handshake_turn N psk c =
     (case readNoiseFrame maxHandshakeFrame (n_rx c) of
        Inl e \<Rightarrow> (Inl (ClientHandshake e), c)
      | Inr (msg, r) \<Rightarrow>
          (let c1 = c\<lparr>n_rx := r\<rparr>
           in if msg = [] then (Inl HandshakeEmpty, c1)
              else if hd msg \<noteq> 0 then (Inl Preamble, c1)
              else if \<not> nn_read N psk (tl msg) then
                (Inl WrongKey, snd (flush (noise_frame mac_failure) c1))
              else (Inr (tl msg), c1)))"

definition answer_turn :: "noise_nn \<Rightarrow> bytes \<Rightarrow> bytes \<Rightarrow> noise_rw \<Rightarrow> (accept_error + unit) \<times> noise_rw" where
  "answer_turn N psk m c =
     (case nn_write N psk m of
        None \<Rightarrow> (Inl NoiseWrite, c)
      | Some (body, ciphers) \<Rightarrow>
          (case writeNoiseFrame (0 # body) of
             Inl e \<Rightarrow> (Inl (WriteFrame e), c)
           | Inr b \<Rightarrow>
               (case flush b c of
                  (ok, c1) \<Rightarrow> (if \<not> ok then Inl AcceptIO else if \<not> ciphers then Inl NoCiphers else Inr (), c1))))"

definition noiseAccept :: "noise_nn \<Rightarrow> string \<Rightarrow> bytes \<Rightarrow> noise_rw \<Rightarrow> (accept_error + unit) \<times> noise_rw" where
  "noiseAccept N name psk c =
     (if length psk \<noteq> noisePSKLen then (Inl (PskWrong (length psk)), c)
      else (case hello_turn name c of
          (Inl e, c1) \<Rightarrow> (Inl e, c1)
        | (Inr u, c1) \<Rightarrow>
            (case handshake_turn N psk c1 of
               (Inl e, c2) \<Rightarrow> (Inl e, c2)
             | (Inr m, c2) \<Rightarrow>
                 (case answer_turn N psk m c2 of
                    (Inl e, c3) \<Rightarrow> (Inl e, c3)
                  | (Inr u, c3) \<Rightarrow> (Inr (), c3\<lparr>n_in := 0, n_out := 0\<rparr>)))))"

section \<open>Messages\<close>

datatype rw_error = RwFrame frame_error | RwDecrypt | RwShort nat | RwLong nat | RwEncrypt | RwIO

definition esp_read :: "cipher \<Rightarrow> noise_rw \<Rightarrow> (rw_error + (nat \<times> bytes)) \<times> noise_rw" where
  "esp_read dec c =
     (case readNoiseFrame maxDataFrame (n_rx c) of
        Inl e \<Rightarrow> (Inl (RwFrame e), c)
      | Inr (frame, r) \<Rightarrow>
          (let c1 = c\<lparr>n_rx := r\<rparr>
           in case dec (n_in c) frame of
                None \<Rightarrow> (Inl RwDecrypt, c1)
              | Some plain \<Rightarrow>
                  (let c2 = c1\<lparr>n_in := Suc (n_in c)\<rparr>
                   in if length plain < 4 then (Inl (RwShort (length plain)), c2)
                      else (Inr (unat (get_be (take 2 plain) :: 16 word), drop 4 plain), c2))))"

definition inner_message :: "nat \<Rightarrow> bytes \<Rightarrow> bytes" where
  "inner_message msgType payload =
     put_be 2 (of_nat msgType :: 16 word) @ put_be 2 (of_nat (length payload) :: 16 word) @ payload"

definition esp_write :: "cipher \<Rightarrow> nat \<Rightarrow> bytes \<Rightarrow> noise_rw \<Rightarrow> (rw_error + unit) \<times> noise_rw" where
  "esp_write enc msgType payload c =
     (if maxNoisePayload < length payload then (Inl (RwLong (length payload)), c)
      else (case enc (n_out c) (inner_message msgType payload) of
          None \<Rightarrow> (Inl RwEncrypt, c)
        | Some sealed \<Rightarrow>
            (let c1 = c\<lparr>n_out := Suc (n_out c)\<rparr>
             in case writeNoiseFrame sealed of
                  Inl e \<Rightarrow> (Inl (RwFrame e), c1)
                | Inr b \<Rightarrow> (case flush b c1 of (ok, c2) \<Rightarrow> (if ok then Inr () else Inl RwIO, c2)))))"

text \<open>
  Whatever one side writes without an error is one frame within what the other side takes, and is read there
  as the same message, with the two ciphers left in step.
\<close>

theorem message_roundtrip:
  assumes "cipher_pair enc dec" "esp_write enc t p a = (Inr (), a')" "t < 2 ^ 16"
    and "n_rx b = last (n_tx a') @ r" "n_in b = n_out a"
  shows "esp_read dec b = (Inr (t, p), b\<lparr>n_rx := r, n_in := n_out a'\<rparr>)"
proof -
  obtain sealed where s: "enc (n_out a) (inner_message t p) = Some sealed" and lp: "length p \<le> maxNoisePayload"
    using assms(2) by (auto simp: esp_write_def Let_def split: if_splits option.splits)
  have o: "n_out a' = Suc (n_out a)" "last (n_tx a') = noise_frame sealed"
    using assms(2) s by (auto simp: esp_write_def writeNoiseFrame_def flush_def Let_def split: if_splits)
  have d: "dec (n_out a) sealed = Some (inner_message t p)" "length sealed = length (inner_message t p) + 16"
    using assms(1) s unfolding cipher_pair_def by (auto simp: aeadTagLen_def)
  have len: "length sealed \<le> maxDataFrame"
    using d(2) lp by (simp add: inner_message_def maxNoisePayload_def maxDataFrame_def)
  have f: "readNoiseFrame maxDataFrame (n_rx b) = Inr (sealed, r)"
    using readNoiseFrame_frame [OF len, of r] len assms(4) o(2) by (simp add: maxDataFrame_def)
  have t: "unat (get_be (take 2 (inner_message t p)) :: 16 word) = t"
    using assms(3) by (simp add: inner_message_def unat_of_nat get_be_put_be_full)
  have "drop 4 (inner_message t p) = p" "4 \<le> length (inner_message t p)"
    by (simp_all add: inner_message_def)
  then show ?thesis using f d(1) t o(1) assms(5) by (simp add: esp_read_def Let_def)
qed

definition demo_rw :: noise_rw where
  "demo_rw = \<lparr>n_rx = [], n_tx = [], fl_ok = (\<lambda>_. True), n_in = 0, n_out = 0\<rparr>"

theorem message_roundtrip_witness:
  "\<exists>a. esp_write xor_cipher 7 [1, 2] demo_rw = (Inr (), a)
     \<and> esp_read xor_open (demo_rw\<lparr>n_rx := last (n_tx a) @ [9]\<rparr>)
       = (Inr (7, [1, 2]), demo_rw\<lparr>n_rx := [9], n_in := 1\<rparr>)"
proof -
  have w: "esp_write xor_cipher 7 [1, 2] demo_rw
      = (Inr (), demo_rw\<lparr>n_out := 1, n_tx := [noise_frame (the (xor_cipher 0 (inner_message 7 [1, 2])))]\<rparr>)"
    by (simp add: esp_write_def writeNoiseFrame_def flush_def demo_rw_def xor_cipher_def inner_message_def
        maxNoisePayload_def maxDataFrame_def)
  show ?thesis
    using message_roundtrip [OF xor_pair w, of "demo_rw\<lparr>n_rx := last (n_tx (demo_rw\<lparr>n_out := 1,
        n_tx := [noise_frame (the (xor_cipher 0 (inner_message 7 [1, 2])))]\<rparr>)) @ [9]\<rparr>" "[9]"] w
    by (auto simp: demo_rw_def)
qed

lemma hello_turn_ok:
  assumes "hello_turn name c = (Inr u, c1)"
  shows "n_rx c = noise_frame [] @ n_rx c1 \<and> n_tx c1 = n_tx c @ [noise_frame (server_hello name)]"
  using assms readNoiseFrame_bounds [of maxHandshakeFrame "n_rx c"]
  by (auto simp: hello_turn_def Let_def writeNoiseFrame_def flush_def split: sum.splits if_splits)

lemma handshake_turn_ok:
  assumes "handshake_turn N psk c = (Inr m, c1)"
  shows "n_rx c = noise_frame (0 # m) @ n_rx c1 \<and> n_tx c1 = n_tx c \<and> nn_read N psk m"
proof -
  obtain msg r where f: "readNoiseFrame maxHandshakeFrame (n_rx c) = Inr (msg, r)"
    using assms by (auto simp: handshake_turn_def split: sum.splits)
  then have h: "msg \<noteq> []" "hd msg = 0" "nn_read N psk (tl msg)" "m = tl msg" "c1 = c\<lparr>n_rx := r\<rparr>"
    using assms by (auto simp: handshake_turn_def Let_def split: if_splits)
  then have "msg = 0 # m" by (cases msg) auto
  then show ?thesis using readNoiseFrame_bounds [OF f] h by simp
qed

lemma answer_turn_ok:
  assumes "answer_turn N psk m c = (Inr u, c1)"
  shows "\<exists>body. nn_write N psk m = Some (body, True) \<and> n_tx c1 = n_tx c @ [noise_frame (0 # body)]
    \<and> n_rx c1 = n_rx c"
  using assms
  by (auto simp: answer_turn_def writeNoiseFrame_def flush_def split: option.splits sum.splits if_splits prod.splits)

text \<open>
  A session is established only with a client whose first message opens under the device's key: the client
  said an empty hello and that message, and was answered the device's name and the second message, in this
  order and nothing else.
\<close>

theorem accept_needs_key:
  "case noiseAccept N name psk c of
     (Inl e, c') \<Rightarrow> True
   | (Inr u, c') \<Rightarrow> length psk = 32 \<and>
       (\<exists>m body. n_rx c = noise_frame [] @ noise_frame (0 # m) @ n_rx c'
          \<and> nn_read N psk m \<and> nn_write N psk m = Some (body, True)
          \<and> n_tx c' = n_tx c @ [noise_frame (server_hello name), noise_frame (0 # body)])"
proof (cases "noiseAccept N name psk c")
  case (Pair r c')
  show ?thesis
  proof (cases r)
    case Inl
    then show ?thesis using Pair by simp
  next
    case (Inr u)
    then have p: "length psk = noisePSKLen" using Pair by (auto simp: noiseAccept_def split: if_splits)
    obtain u1 c1 where h: "hello_turn name c = (Inr u1, c1)"
      using Pair Inr p by (auto simp: noiseAccept_def split: prod.splits sum.splits)
    obtain m c2 where k: "handshake_turn N psk c1 = (Inr m, c2)"
      using Pair Inr p h by (auto simp: noiseAccept_def split: prod.splits sum.splits)
    obtain u2 c3 where a: "answer_turn N psk m c2 = (Inr u2, c3)" "c' = c3\<lparr>n_in := 0, n_out := 0\<rparr>"
      using Pair Inr p h k by (auto simp: noiseAccept_def split: prod.splits sum.splits)
    show ?thesis
      using hello_turn_ok [OF h] handshake_turn_ok [OF k] answer_turn_ok [OF a(1)] a(2) p Pair Inr
      by (auto simp: noisePSKLen_def)
  qed
qed

end
