(* ===== verification/Esp_Server.thy ===== *)
theory Esp_Server
  imports Esp_Media Esp_Noise
begin

text \<open>
  \<open>internal/esphome/server.go\<close> and \<open>entities.go\<close>: what a connection is told of the device, and how each of its
  messages is handled. \<open>handle\<close> works under the lock on the server and on the connection it came from, and
  returns the error that ends the connection, if any, with the calls made outside the package and the workers
  started.
\<close>

section \<open>Entities\<close>

definition buttonModes :: "string list" where
  "buttonModes = [''intercept'', ''monitor'', ''pass through'']"

definition actionEvents :: "string list" where
  "actionEvents = [''press_end'', ''multi_press_end'', ''long_press_start'', ''long_press_end'']"

definition button_name :: "string \<Rightarrow> string" where
  "button_name b = (if b = ''action_button'' then ''Action button'' else ''Mute button'')"

definition esphomeVersion :: string where "esphomeVersion = ''2026.8.0''"
definition manufacturer :: string where "manufacturer = ''Amazon''"

definition projectName :: "string \<Rightarrow> string" where
  "projectName model = manufacturer @ ''.'' @ model"

definition deviceInfo :: "esp_server \<Rightarrow> bytes" where
  "deviceInfo s =
     pb_str (pb_str (pb_str (pb_str (pb_str (pb_str (pb_str (pb_str (pb_boolean [] 1 False)
       2 (s_name s)) 3 (s_mac s)) 4 esphomeVersion) 6 (s_model s)) 8 (projectName (s_model s))) 9 (s_version s))
       12 manufacturer) 13 (s_name s)"

definition msgListBinarySensor :: nat where "msgListBinarySensor = 12"
definition msgListSensor :: nat where "msgListSensor = 16"
definition msgListSwitch :: nat where "msgListSwitch = 17"
definition msgListTextSensor :: nat where "msgListTextSensor = 18"
definition msgListEntitiesDone :: nat where "msgListEntitiesDone = 19"
definition msgListService :: nat where "msgListService = 41"
definition msgListNumber :: nat where "msgListNumber = 49"
definition msgListSelect :: nat where "msgListSelect = 52"
definition msgListMediaPlayer :: nat where "msgListMediaPlayer = 63"
definition msgListText :: nat where "msgListText = 97"
definition msgListEvent :: nat where "msgListEvent = 107"

definition entity_head :: "string \<Rightarrow> string \<Rightarrow> bytes" where
  "entity_head objectID name = pb_str (pb_fixed32 (pb_str [] 1 objectID) 2 (entityKey objectID)) 3 name"

definition list_button :: "string \<Rightarrow> frame" where
  "list_button b =
     (msgListEvent,
      foldl (\<lambda>p e. pb_str p 9 e)
        (pb_str (pb_u32 (pb_boolean (entity_head b (button_name b)) 6 False) 7 0) 8 ''button'') actionEvents)"

definition list_speaker :: "esp_server \<Rightarrow> frame" where
  "list_speaker s =
     (msgListMediaPlayer,
      pb_u32 (pb_u32 (pb_boolean (pb_str (entity_head ''speaker'' ''Speaker'') 5 ''mdi:speaker'') 6 False) 7 0)
        11 (mediaFeatures s))"

definition list_sensor :: "string \<times> string \<times> string \<times> string \<times> 32 word \<times> string \<Rightarrow> frame" where
  "list_sensor x =
     (case x of (objectID, name, unit, deviceClass, stateClass, icon) \<Rightarrow>
       (msgListSensor,
        pb_u32 (pb_boolean (pb_u32 (pb_str (pb_boolean (pb_u32 (pb_str (pb_str (entity_head objectID name)
          5 icon) 6 unit) 7 0) 8 False) 9 deviceClass) 10 stateClass) 12 False) 13 2))"

definition degree_C :: string where
  "degree_C = [char_of (0xC2 :: nat), char_of (0xB0 :: nat), CHR ''C'']"

definition sensors :: "(string \<times> string \<times> string \<times> string \<times> 32 word \<times> string) list" where
  "sensors =
     [(''uptime'', ''Uptime'', ''s'', ''duration'', 2, ''''),
      (''wifi_signal'', ''WiFi signal'', ''dBm'', ''signal_strength'', 1, ''''),
      (''volume'', ''Volume'', ''%'', '''', 1, ''mdi:volume-high''),
      (''cpu_temperature'', ''CPU temperature'', degree_C, ''temperature'', 1, ''''),
      (''memory_available'', ''Memory available'', ''MiB'', ''data_size'', 1, ''''),
      (''jack_volume'', ''Jack volume'', ''%'', '''', 1, ''mdi:volume-high''),
      (''bluetooth_volume'', ''Bluetooth volume'', ''%'', '''', 1, ''mdi:volume-high'')]"

definition list_binary :: "string \<times> string \<times> string \<times> string \<Rightarrow> frame" where
  "list_binary x =
     (case x of (objectID, name, deviceClass, icon) \<Rightarrow>
       (msgListBinarySensor,
        pb_u32 (pb_str (pb_boolean (pb_boolean (pb_str (entity_head objectID name) 5 deviceClass) 6 False) 7 False)
          8 icon) 9 2))"

definition binary_sensors :: "(string \<times> string \<times> string \<times> string) list" where
  "binary_sensors =
     [(''audio_jack'', ''Audio jack'', ''plug'', ''''),
      (''speaker_playing'', ''Speaker playing'', '''', ''mdi:speaker''),
      (''alexa_registered'', ''Alexa registered'', '''', ''mdi:account-check'')]"

definition list_mic :: frame where
  "list_mic = (msgListSwitch,
     pb_boolean (pb_boolean (pb_str (entity_head ''microphone_muted'' ''Microphone muted'')
       5 ''mdi:microphone-off'') 6 False) 7 False)"

definition list_sendspin :: frame where
  "list_sendspin = (msgListSwitch,
     pb_u32 (pb_boolean (pb_boolean (pb_str (entity_head ''sendspin'' ''Sendspin'')
       5 ''mdi:speaker-multiple'') 6 False) 7 False) 8 1)"

definition list_delay :: "esp_server \<Rightarrow> frame" where
  "list_delay s = (msgListNumber,
     pb_u32 (pb_str (pb_u32 (pb_boolean (pb_float (pb_float (pb_float
       (pb_str (entity_head ''sendspin_output_delay'' ''Sendspin output delay'') 5 ''mdi:timer-outline'')
       6 0) 7 (f32_of_int (delayMaxMS s))) 8 (f32_of_int 1)) 9 False) 10 1) 11 ''ms'') 12 1)"

definition list_mode :: "string \<Rightarrow> frame" where
  "list_mode b = (msgListSelect,
     pb_u32 (pb_boolean (foldl (\<lambda>p o'. pb_str p 6 o')
       (pb_str (entity_head (b @ ''_mode'') (button_name b @ '' mode'')) 5 ''mdi:gesture-tap-button'') buttonModes)
       7 False) 8 1)"

definition list_adb :: "bool \<Rightarrow> frame" where
  "list_adb secureOK = (msgListSelect,
     (let p = pb_str (pb_str (pb_str (entity_head ''network_adb'' ''Network ADB'') 5 ''mdi:console-network'')
                6 (adb_string ADBOff)) 6 (adb_string ADBInsecure);
          p1 = (if secureOK then pb_str p 6 (adb_string ADBSecure) else p)
      in pb_u32 (pb_boolean p1 7 False) 8 1))"

definition list_text_sensor :: "string \<Rightarrow> string \<Rightarrow> string \<Rightarrow> frame" where
  "list_text_sensor objectID name icon = (msgListTextSensor,
     pb_u32 (pb_boolean (pb_str (entity_head objectID name) 5 icon) 6 False) 7 2)"

definition list_command :: "frame list" where
  "list_command =
     [(msgListText,
       pb_u32 (pb_u32 (pb_u32 (pb_u32 (pb_boolean (pb_str (entity_head ''alexa_command'' ''Alexa command'')
         5 ''mdi:microphone-message'') 6 False) 7 1) 8 0) 9 (of_nat commandMaxLength)) 11 0),
      (msgListService,
       pb_sub (pb_fixed32 (pb_str [] 1 ''send_command'') 2 keyCommand) 3 (pb_u32 (pb_str [] 1 ''text'') 2 3))]"

definition entity_frames :: "bool \<Rightarrow> bool \<Rightarrow> bool \<Rightarrow> esp_server \<Rightarrow> frame list" where
  "entity_frames secureOK hasSendspin hasDelay s =
     map list_button button_ids @ [list_speaker s] @ map list_sensor sensors @ map list_binary binary_sensors
     @ [list_mic] @ (if hasSendspin then [list_sendspin] else []) @ (if hasDelay then [list_delay s] else [])
     @ map list_mode button_ids @ [list_adb secureOK]
     @ [list_text_sensor ''output_device'' ''Output device'' ''mdi:speaker'',
        list_text_sensor ''bluetooth_device'' ''Bluetooth device'' ''mdi:bluetooth'']
     @ (if can_command s then list_command else []) @ [(msgListEntitiesDone, [])]"

definition listEntities :: "esp_env \<Rightarrow> esp_server \<Rightarrow> esp_conn \<Rightarrow> bool \<times> esp_conn" where
  "listEntities E s c =
     send_all c (entity_frames (e_secure E) (e_sendspin E \<noteq> None) (e_delay E \<noteq> None) s)"

section \<open>Messages\<close>

definition msgHelloRequest :: nat where "msgHelloRequest = 1"
definition msgHelloResponse :: nat where "msgHelloResponse = 2"
definition msgConnectRequest :: nat where "msgConnectRequest = 3"
definition msgConnectResponse :: nat where "msgConnectResponse = 4"
definition msgDisconnectRequest :: nat where "msgDisconnectRequest = 5"
definition msgDisconnectResp :: nat where "msgDisconnectResp = 6"
definition msgPingRequest :: nat where "msgPingRequest = 7"
definition msgPingResponse :: nat where "msgPingResponse = 8"
definition msgDeviceInfoRequest :: nat where "msgDeviceInfoRequest = 9"
definition msgDeviceInfoResp :: nat where "msgDeviceInfoResp = 10"
definition msgListEntitiesReq :: nat where "msgListEntitiesReq = 11"
definition msgSubscribeStates :: nat where "msgSubscribeStates = 20"
definition msgSwitchCommand :: nat where "msgSwitchCommand = 33"
definition msgSubscribeHAServ :: nat where "msgSubscribeHAServ = 34"
definition msgExecuteService :: nat where "msgExecuteService = 42"
definition msgNumberCommand :: nat where "msgNumberCommand = 51"
definition msgSelectCommand :: nat where "msgSelectCommand = 54"
definition msgMediaPlayerCmd :: nat where "msgMediaPlayerCmd = 65"
definition msgTextCommand :: nat where "msgTextCommand = 99"

datatype esp_error = Malformed string pb_error | QueueFull | AskedToDisconnect | BadArgument pb_error

datatype worker_kind = PlayWorker | VolumeWorker | MuteWorker | MicWorker | ADBWorker | CommandWorker

datatype esp_call = Start worker_kind | CallSetMode string string | CallSendspin bool | CallDelay int

type_synonym handled = "esp_error option \<times> esp_conn \<times> esp_server \<times> esp_call list"

definition walk :: "string \<Rightarrow> bytes \<Rightarrow> esp_error + pbField list" where
  "walk what payload = (case pbWalk payload of (fs, None) \<Rightarrow> Inr fs | (fs, Some e) \<Rightarrow> Inl (Malformed what e))"

definition field_num :: "nat \<Rightarrow> pbField list \<Rightarrow> 64 word" where
  "field_num k fs = foldl (\<lambda>v f. if field f = k then num f else v) 0 fs"

definition field_str :: "nat \<Rightarrow> pbField list \<Rightarrow> string" where
  "field_str k fs = foldl (\<lambda>v f. if field f = k then bytes_str (data f) else v) '''' fs"

definition field_key :: "pbField list \<Rightarrow> 32 word" where
  "field_key fs = ucast (field_num 1 fs)"

text \<open>Whether a float field was seen, whether its last occurrence was one, and the last value read as one.\<close>

definition field_float :: "nat \<Rightarrow> pbField list \<Rightarrow> bool \<times> bool \<times> f32" where
  "field_float k fs =
     foldl (\<lambda>(saw, isf, v) f. if field f = k
              then (True, wire f = wireFixed32, if wire f = wireFixed32 then ucast (num f) else v)
              else (saw, isf, v)) (False, False, 0) fs"

definition reply :: "esp_conn \<Rightarrow> frame list \<Rightarrow> esp_error option \<times> esp_conn" where
  "reply c fs = (case send_all c fs of (ok, c') \<Rightarrow> (if ok then None else Some QueueFull, c'))"

definition start :: "bool \<Rightarrow> worker_kind \<Rightarrow> esp_call list" where
  "start spawn k = (if spawn then [Start k] else [])"

definition note_on :: "esp_conn \<Rightarrow> esp_note option \<Rightarrow> esp_conn" where
  "note_on c n = (case n of None \<Rightarrow> c | Some x \<Rightarrow> c\<lparr>c_noted := Some x\<rparr>)"

definition handle_hello :: "bytes \<Rightarrow> esp_conn \<Rightarrow> esp_server \<Rightarrow> handled" where
  "handle_hello payload c s =
     (case walk ''HelloRequest'' payload of
        Inl e \<Rightarrow> (Some e, c, s, [])
      | Inr fs \<Rightarrow>
          (case reply (c\<lparr>c_said := Cut (field_str 1 fs)\<rparr>)
              [(msgHelloResponse, pb_str (pb_str (pb_u32 (pb_u32 [] 1 1) 2 12) 3 ''overdub'') 4 (s_name s))] of
             (e, c') \<Rightarrow> (e, c', s, [])))"

definition handle_subscribe :: "reading list \<Rightarrow> nat \<Rightarrow> esp_conn \<Rightarrow> esp_server \<Rightarrow> handled" where
  "handle_subscribe snapshot i c s =
     (case sendSensorsAt snapshot (c\<lparr>c_states := True\<rparr>) of
        (False, c') \<Rightarrow> (Some QueueFull, c', s, [])
      | (True, c') \<Rightarrow>
          (None, c', if \<not> c_states c \<and> \<not> stateSubscriberBesides (Some i) s
                     then s\<lparr>liveWake := True, sensorWake := True\<rparr> else s, []))"

definition handle_text :: "bytes \<Rightarrow> esp_conn \<Rightarrow> esp_server \<Rightarrow> handled" where
  "handle_text payload c s =
     (case walk ''TextCommandRequest'' payload of
        Inl e \<Rightarrow> (Some e, c, s, [])
      | Inr fs \<Rightarrow>
          if field_key fs = keyText then
            (case commandLocked (field_str 2 fs) s of
               (n, s', sp) \<Rightarrow> (None, note_on c (Some n), s', start sp CommandWorker))
          else (None, c, s, []))"

definition argument_text :: "pbField list \<Rightarrow> string \<Rightarrow> string" where
  "argument_text as t = foldl (\<lambda>t a. if field a = 4 \<and> t = '''' then bytes_str (data a) else t) t as"

definition service_args :: "pbField list \<Rightarrow> string \<times> pb_error option" where
  "service_args fs =
     foldl (\<lambda>(t, err) f. if field f = 2
              then (case pbWalk (data f) of (as, e) \<Rightarrow> (argument_text as t, if err = None then e else err))
              else (t, err)) ('''', None) fs"

definition handle_service :: "bytes \<Rightarrow> esp_conn \<Rightarrow> esp_server \<Rightarrow> handled" where
  "handle_service payload c s =
     (case walk ''ExecuteServiceRequest'' payload of
        Inl e \<Rightarrow> (Some e, c, s, [])
      | Inr fs \<Rightarrow>
          (case service_args fs of
             (text, Some e) \<Rightarrow> (Some (BadArgument e), c, s, [])
           | (text, None) \<Rightarrow>
               if field_key fs = keyCommand then
                 (case commandLocked text s of
                    (n, s', sp) \<Rightarrow> (None, note_on c (Some n), s', start sp CommandWorker))
               else (None, c, s, [])))"

definition setModeLocked :: "esp_env \<Rightarrow> string \<Rightarrow> string \<Rightarrow> esp_server \<Rightarrow> esp_note option \<times> esp_server \<times> esp_call list" where
  "setModeLocked E b choice s =
     (if choice \<notin> set buttonModes then (Some (ModeNotOffered b (Cut choice)), s, [])
      else if b \<notin> set (settable_modes s) \<or> e_mode E b = choice then (None, s, [])
      else (Some (ModeSet b choice), s\<lparr>sensorWake := True\<rparr>, [CallSetMode b choice]))"

definition handle_select :: "esp_env \<Rightarrow> bytes \<Rightarrow> esp_conn \<Rightarrow> esp_server \<Rightarrow> handled" where
  "handle_select E payload c s =
     (case walk ''SelectCommandRequest'' payload of
        Inl e \<Rightarrow> (Some e, c, s, [])
      | Inr fs \<Rightarrow>
          if field_key fs = keyADB then
            (case setADBLocked (e_secure E) (field_str 2 fs) s of
               (n, s', sp) \<Rightarrow> (None, note_on c n, s', start sp ADBWorker))
          else (case find (\<lambda>b. field_key fs = mode_key b) button_ids of
              None \<Rightarrow> (None, c, s, [])
            | Some b \<Rightarrow> (case setModeLocked E b (field_str 2 fs) s of (n, s', calls) \<Rightarrow> (None, note_on c n, s', calls))))"

definition setDelayLocked :: "esp_env \<Rightarrow> f32 \<Rightarrow> esp_server \<Rightarrow> esp_note option \<times> esp_server \<times> esp_call list" where
  "setDelayLocked E want s =
     (let ms = max 0 (min (to_go_int (f32_round want)) (delayMaxMS s))
      in if e_delay E = Some ms \<and> (\<not> delayWasSet s \<or> delayAsked s = ms) then (None, s, [])
         else (Some (DelaySet ms), s\<lparr>delayAsked := ms, delayWasSet := True\<rparr>, [CallDelay ms]))"

definition handle_number :: "esp_env \<Rightarrow> bytes \<Rightarrow> esp_conn \<Rightarrow> esp_server \<Rightarrow> handled" where
  "handle_number E payload c s =
     (case walk ''NumberCommandRequest'' payload of
        Inl e \<Rightarrow> (Some e, c, s, [])
      | Inr fs \<Rightarrow>
          (case field_float 2 fs of
             (saw, isf, v) \<Rightarrow>
               let want = (if saw then v else 0); isFloat = (if saw then isf else True)
               in if field_key fs = keyDelay \<and> can_delay s \<and> isFloat \<and> isFinite want then
                    (case setDelayLocked E want s of (n, s', calls) \<Rightarrow> (None, note_on c n, s', calls))
                  else (None, c, s, [])))"

definition handle_switch :: "bytes \<Rightarrow> esp_conn \<Rightarrow> esp_server \<Rightarrow> handled" where
  "handle_switch payload c s =
     (case walk ''SwitchCommandRequest'' payload of
        Inl e \<Rightarrow> (Some e, c, s, [])
      | Inr fs \<Rightarrow>
          (let k = field_key fs; on = (field_num 2 fs \<noteq> 0);
               (n, s1, sp) = (if k = keyMicMute then setMicLocked on s else (None, s, False));
               c1 = note_on c n
           in if can_sendspin s \<and> k = keySendspin
              then (None, note_on c1 (Some (SendspinSwitched on)), s1, start sp MicWorker @ [CallSendspin on])
              else (None, c1, s1, start sp MicWorker)))"

definition step_want :: "int \<Rightarrow> volume_want" where
  "step_want n = \<lparr>fraction = 0, absolute = False, steps = n\<rparr>"

definition media_command :: "pbField list \<Rightarrow> esp_server \<Rightarrow> esp_note option \<times> esp_server \<times> esp_call list" where
  "media_command fs s =
     (let hasCommand = (field_num 2 fs \<noteq> 0); command = field_num 3 fs; hasVolume = (field_num 4 fs \<noteq> 0);
          hasURL = (field_num 6 fs \<noteq> 0); url = field_str 7 fs; announcement = (field_num 9 fs \<noteq> 0);
          (saw, isf, v) = field_float 5 fs;
          volume = (if hasVolume \<and> \<not> saw then 0 else v); isFloat = (if hasVolume \<and> \<not> saw then True else isf)
      in if hasURL \<and> url \<noteq> '''' then
           (case playLocked url announcement s of (n, s', sp) \<Rightarrow> (Some n, s', start sp PlayWorker))
         else if hasVolume \<and> isFloat \<and> isFinite volume then
           (case setVolumeLocked \<lparr>fraction = volume, absolute = True, steps = 0\<rparr> s of
              (n, s', sp) \<Rightarrow> (Some n, s', start sp VolumeWorker))
         else if hasCommand \<and> command = mediaMute then
           (case setMuteLocked True s of (n, s', sp) \<Rightarrow> (Some n, s', start sp MuteWorker))
         else if hasCommand \<and> command = mediaUnmute then
           (case setMuteLocked False s of (n, s', sp) \<Rightarrow> (Some n, s', start sp MuteWorker))
         else if hasCommand \<and> command = mediaVolumeUp then
           (case setVolumeLocked (step_want 1) s of (n, s', sp) \<Rightarrow> (Some n, s', start sp VolumeWorker))
         else if hasCommand \<and> command = mediaVolumeDown then
           (case setVolumeLocked (step_want (-1)) s of (n, s', sp) \<Rightarrow> (Some n, s', start sp VolumeWorker))
         else (None, s, []))"

definition handle_media :: "bytes \<Rightarrow> esp_conn \<Rightarrow> esp_server \<Rightarrow> handled" where
  "handle_media payload c s =
     (case walk ''MediaPlayerCommandRequest'' payload of
        Inl e \<Rightarrow> (Some e, c, s, [])
      | Inr fs \<Rightarrow>
          if field_key fs \<noteq> keySpeaker then (None, c, s, [])
          else (case media_command fs s of (n, s', calls) \<Rightarrow> (None, note_on c n, s', calls)))"

definition sending :: "esp_error option \<times> esp_conn \<Rightarrow> esp_server \<Rightarrow> handled" where
  "sending r s = (fst r, snd r, s, [])"

text \<open>\<open>snapshot\<close> is the published readings in the order an iteration of the map meets them.\<close>

definition handle :: "esp_env \<Rightarrow> reading list \<Rightarrow> nat \<Rightarrow> nat \<Rightarrow> bytes \<Rightarrow> esp_conn \<Rightarrow> esp_server \<Rightarrow> handled" where
  "handle E snapshot i msgType payload c s =
     (if msgType = msgHelloRequest then handle_hello payload c s
      else if msgType = msgConnectRequest then sending (reply c [(msgConnectResponse, pb_boolean [] 1 False)]) s
      else if msgType = msgPingRequest then sending (reply c [(msgPingResponse, [])]) s
      else if msgType = msgDeviceInfoRequest then sending (reply c [(msgDeviceInfoResp, deviceInfo s)]) s
      else if msgType = msgListEntitiesReq then
        (case listEntities E s c of (ok, c') \<Rightarrow> (if ok then None else Some QueueFull, c', s, []))
      else if msgType = msgSubscribeStates then handle_subscribe snapshot i c s
      else if msgType = msgTextCommand then handle_text payload c s
      else if msgType = msgExecuteService then handle_service payload c s
      else if msgType = msgDisconnectRequest then
        (Some AskedToDisconnect, snd (send_all c [(msgDisconnectResp, [])]), s, [])
      else if msgType = msgSelectCommand then handle_select E payload c s
      else if msgType = msgNumberCommand then handle_number E payload c s
      else if msgType = msgSwitchCommand then handle_switch payload c s
      else if msgType = msgMediaPlayerCmd then handle_media payload c s
      else if msgType = msgSubscribeHAServ then (None, c\<lparr>c_services := True\<rparr>, s, [])
      else (None, c, s, []))"

end
