(* ===== verification/Mdns.thy ===== *)
theory Mdns
  imports Go_Strings Window_Limiter "HOL-Library.Multiset"
begin

text \<open>
  \<open>internal/mdns/mdns.go\<close>: the multicast DNS responder. The message library is the parameter \<open>dns_lib\<close>
  (whether a name is accepted, the packing of answers and additional records, \<open>None\<close> standing for any of
  the builder's errors); a query is what its parser reads. Addresses are IPv4 (\<open>32 word\<close>), \<open>None\<close> being a
  nil \<open>net.IP\<close>; a socket is a number. Calls into the clock and the kernel are arguments.
\<close>

definition mdnsPort :: nat where "mdnsPort = 5353"
definition dnsTypeA :: "16 word" where "dnsTypeA = 1"
definition dnsTypePTR :: "16 word" where "dnsTypePTR = 12"
definition dnsTypeTXT :: "16 word" where "dnsTypeTXT = 16"
definition dnsTypeSRV :: "16 word" where "dnsTypeSRV = 33"
definition dnsTypeANY :: "16 word" where "dnsTypeANY = 255"
definition dnsUnicastResponse :: "16 word" where "dnsUnicastResponse = 0x8000"
definition ttlShared :: nat where "ttlShared = 4500"
definition ttlHost :: nat where "ttlHost = 120"
definition announceFirst :: duration where "announceFirst = second"
definition announceRungs :: nat where "announceRungs = 6"
definition multicastEvery :: duration where "multicastEvery = second"
definition unicastBurst :: nat where "unicastBurst = 20"
definition unicastWindow :: duration where "unicastWindow = second"
definition maxTXTString :: nat where "maxTXTString = 255"
definition maxLabel :: nat where "maxLabel = 63"
definition maxName :: nat where "maxName = 255"

lemmas dns_types = dnsTypeA_def dnsTypePTR_def dnsTypeTXT_def dnsTypeSRV_def dnsTypeANY_def

record advert =
  Service :: string
  Port :: "16 word"
  Records :: "string list"

record served =
  Advert :: advert
  ptr :: bool
  resolve :: bool

record dns_answer =
  adverts_out :: "served list"
  host :: bool
  noHost :: bool

type_synonym ip4 = "32 word"
type_synonym udp_addr = "ip4 \<times> nat"

record responder =
  Instance :: string
  Services :: "advert list"
  services :: "advert list option"
  gen :: "64 word"
  dns_conn :: "nat option"
  ip :: "ip4 option"
  subnet :: "(ip4 \<times> ip4) option"
  restart :: bool
  lastSent :: "time option"
  unicastEnd :: "time option"
  unicasts :: nat
  sendFailed :: "string option"
  gone :: bool
  ladder :: "nat option"
  rungs :: "duration list option"

definition multicast_group :: udp_addr where
  "multicast_group = (0xE00000FB, mdnsPort)"

section \<open>The state under the lock\<close>

definition mayMulticast :: "responder \<Rightarrow> time \<Rightarrow> responder \<times> bool" where
  "mayMulticast m now =
     (case lastSent m of
        Some t \<Rightarrow> if now - t < multicastEvery then (m, False) else (m\<lparr>lastSent := Some now\<rparr>, True)
      | None \<Rightarrow> (m\<lparr>lastSent := Some now\<rparr>, True))"

definition unicast_roll :: "time \<Rightarrow> responder \<Rightarrow> responder" where
  "unicast_roll now m =
     (if after_time now (unicastEnd m) then m\<lparr>unicastEnd := Some (now + unicastWindow), unicasts := 0\<rparr> else m)"

definition mayUnicast :: "responder \<Rightarrow> time \<Rightarrow> responder \<times> bool" where
  "mayUnicast m now =
     (let m1 = unicast_roll now m
      in if unicastBurst \<le> unicasts m1 then (m1, False)
         else (m1\<lparr>unicasts := Suc (unicasts m1)\<rparr>, True))"

definition noteSendFailure :: "string \<Rightarrow> responder \<Rightarrow> responder" where
  "noteSendFailure e m = (case sendFailed m of None \<Rightarrow> m\<lparr>sendFailed := Some e\<rparr> | Some _ \<Rightarrow> m)"

definition noteReplyFailure :: "udp_addr \<Rightarrow> string \<Rightarrow> responder \<Rightarrow> responder" where
  "noteReplyFailure dst e m = (if dst = multicast_group then noteSendFailure e m else m)"

datatype stale_reason = AddressChanged ip4 | SendFailed ip4 string

definition stale :: "ip4 \<Rightarrow> responder \<Rightarrow> stale_reason option \<times> responder" where
  "stale a m =
     (let m1 = m\<lparr>sendFailed := None\<rparr>
      in if ip m \<noteq> Some a then (Some (AddressChanged a), m1)
         else (case sendFailed m of
             Some e \<Rightarrow> (Some (SendFailed a e), m1)
           | None \<Rightarrow> (None, m1)))"

definition onLink :: "responder \<Rightarrow> ip4 \<Rightarrow> bool" where
  "onLink m a = (case subnet m of None \<Rightarrow> False | Some (net, msk) \<Rightarrow> a AND msk = net AND msk)"

definition instanceFor :: "responder \<Rightarrow> string \<Rightarrow> string" where
  "instanceFor m service = Instance m @ ''.'' @ service"

definition hostName :: "responder \<Rightarrow> string" where
  "hostName m = Instance m @ ''.local.''"

definition adverts :: "responder \<Rightarrow> advert list" where
  "adverts m = (case services m of None \<Rightarrow> Services m | Some l \<Rightarrow> l)"

definition beginCycle :: "responder \<Rightarrow> responder" where
  "beginCycle m = m\<lparr>restart := False, sendFailed := None\<rparr>"

section \<open>Records\<close>

datatype dns_body = PTR string | SRV string "16 word" | TXT "string list" | A ip4

record dns_rr =
  rr_name :: string
  rr_unique :: bool
  rr_ttl :: nat
  rr_body :: dns_body

record dns_lib =
  new_name :: "string \<Rightarrow> bool"
  pack :: "dns_rr list \<Rightarrow> dns_rr list \<Rightarrow> bytes option"

definition host_record :: "responder \<Rightarrow> nat \<Rightarrow> dns_rr list" where
  "host_record m hostTTL =
     (case ip m of None \<Rightarrow> []
      | Some a \<Rightarrow> [\<lparr>rr_name = hostName m, rr_unique = True, rr_ttl = hostTTL, rr_body = A a\<rparr>])"

definition ptr_record :: "responder \<Rightarrow> nat \<Rightarrow> advert \<Rightarrow> dns_rr" where
  "ptr_record m ttl a = \<lparr>rr_name = Service a, rr_unique = False, rr_ttl = ttl,
     rr_body = PTR (instanceFor m (Service a))\<rparr>"

definition service_records :: "responder \<Rightarrow> nat \<Rightarrow> nat \<Rightarrow> advert \<Rightarrow> dns_rr list" where
  "service_records m ttl hostTTL a =
     [\<lparr>rr_name = instanceFor m (Service a), rr_unique = True, rr_ttl = min ttl hostTTL,
       rr_body = SRV (hostName m) (Port a)\<rparr>,
      \<lparr>rr_name = instanceFor m (Service a), rr_unique = True, rr_ttl = ttl, rr_body = TXT (Records a)\<rparr>]"

definition answer_section :: "responder \<Rightarrow> nat \<Rightarrow> dns_answer \<Rightarrow> dns_rr list" where
  "answer_section m ttl send =
     map (ptr_record m ttl \<circ> Advert) (filter ptr (adverts_out send))
     @ concat (map (service_records m ttl (min ttl ttlHost) \<circ> Advert) (filter resolve (adverts_out send)))
     @ (if host send then host_record m (min ttl ttlHost) else [])"

definition additional_section :: "responder \<Rightarrow> nat \<Rightarrow> dns_answer \<Rightarrow> dns_rr list" where
  "additional_section m ttl send =
     concat (map (service_records m ttl (min ttl ttlHost) \<circ> Advert) (filter (Not \<circ> resolve) (adverts_out send)))
     @ (if \<not> host send \<and> \<not> noHost send then host_record m (min ttl ttlHost) else [])"

definition recordsFor :: "dns_lib \<Rightarrow> nat \<Rightarrow> dns_answer \<Rightarrow> responder \<Rightarrow> bytes option" where
  "recordsFor D ttl send m =
     (if new_name D (hostName m)
         \<and> list_all (\<lambda>s. new_name D (Service (Advert s)) \<and> new_name D (instanceFor m (Service (Advert s))))
             (adverts_out send)
      then pack D (answer_section m ttl send) (additional_section m ttl send)
      else None)"

definition browse_answer :: "advert list \<Rightarrow> dns_answer" where
  "browse_answer l =
     \<lparr>adverts_out = map (\<lambda>a. \<lparr>Advert = a, ptr = True, resolve = False\<rparr>) l, host = False, noHost = False\<rparr>"

definition records :: "dns_lib \<Rightarrow> nat \<Rightarrow> responder \<Rightarrow> bytes option" where
  "records D ttl m = recordsFor D ttl (browse_answer (adverts m)) m"

definition withdrawal_answer :: "advert list \<Rightarrow> dns_answer" where
  "withdrawal_answer l =
     \<lparr>adverts_out = map (\<lambda>a. \<lparr>Advert = a, ptr = True, resolve = True\<rparr>) l, host = False, noHost = True\<rparr>"

definition withdrawal :: "dns_lib \<Rightarrow> advert list \<Rightarrow> responder \<Rightarrow> bytes option" where
  "withdrawal D dropped m = recordsFor D 0 (withdrawal_answer dropped) m"

definition goodbyeRecords :: "dns_lib \<Rightarrow> responder \<Rightarrow> bytes option" where
  "goodbyeRecords D m = records D 0 m"

section \<open>Queries\<close>

record dns_question =
  q_name :: string
  q_type :: "16 word"
  q_class :: "16 word"

datatype dns_known = KnownPTR string nat string | KnownOther

text \<open>
  What the parser reads of a packet: whether it is a response, its questions, whether their section ends
  without an error, and its answers up to the first that does not parse.
\<close>

record dns_query =
  q_response :: bool
  q_questions :: "dns_question list"
  q_whole :: bool
  q_answers :: "dns_known list"

record asked =
  browse :: "bool list"
  resolves :: "bool list"
  ask_host :: bool
  is_matched :: bool
  ask_unicast :: bool
  ask_multicast :: bool

definition nothing_asked :: "nat \<Rightarrow> asked" where
  "nothing_asked n = \<lparr>browse = replicate n False, resolves = replicate n False, ask_host = False,
     is_matched = False, ask_unicast = False, ask_multicast = False\<rparr>"

definition asks_host :: "responder \<Rightarrow> dns_question \<Rightarrow> bool" where
  "asks_host m q \<longleftrightarrow> to_lower (q_name q) = to_lower (hostName m) \<and> (q_type q = dnsTypeA \<or> q_type q = dnsTypeANY)"

definition asks_browse :: "dns_question \<Rightarrow> advert \<Rightarrow> bool" where
  "asks_browse q a \<longleftrightarrow> to_lower (q_name q) = to_lower (Service a) \<and> (q_type q = dnsTypePTR \<or> q_type q = dnsTypeANY)"

definition asks_resolve :: "responder \<Rightarrow> dns_question \<Rightarrow> advert \<Rightarrow> bool" where
  "asks_resolve m q a \<longleftrightarrow> to_lower (q_name q) = to_lower (instanceFor m (Service a))
     \<and> (q_type q = dnsTypeSRV \<or> q_type q = dnsTypeTXT \<or> q_type q = dnsTypeANY)"

definition question_step :: "responder \<Rightarrow> advert list \<Rightarrow> dns_question \<Rightarrow> asked \<Rightarrow> asked" where
  "question_step m l q s =
     (let h = asks_host m q;
          s1 = s\<lparr>ask_host := (if h then ip m \<noteq> None else ask_host s),
                 browse := map (\<lambda>(b, a). b \<or> asks_browse q a) (zip (browse s) l),
                 resolves := map (\<lambda>(b, a). b \<or> asks_resolve m q a) (zip (resolves s) l)\<rparr>
      in if h \<or> list_ex (asks_browse q) l \<or> list_ex (asks_resolve m q) l then
           (if q_class q AND dnsUnicastResponse \<noteq> 0 then s1\<lparr>is_matched := True, ask_unicast := True\<rparr>
            else s1\<lparr>is_matched := True, ask_multicast := True\<rparr>)
         else s1)"

definition known_step :: "responder \<Rightarrow> dns_known \<Rightarrow> advert \<Rightarrow> bool" where
  "known_step m k a =
     (case k of KnownOther \<Rightarrow> False
      | KnownPTR name ttl target \<Rightarrow>
          \<not> ttl < ttlShared div 2 \<and> equal_fold name (Service a) \<and> equal_fold target (instanceFor m (Service a)))"

definition knownAnswers :: "responder \<Rightarrow> dns_known list \<Rightarrow> advert list \<Rightarrow> bool list" where
  "knownAnswers m ks l =
     fold (\<lambda>k known. map (\<lambda>(b, a). b \<or> known_step m k a) (zip known l)) ks (replicate (length l) False)"

definition chosen :: "advert list \<Rightarrow> bool list \<Rightarrow> bool list \<Rightarrow> bool list \<Rightarrow> served list" where
  "chosen l br rs kn =
     concat (map (\<lambda>(a, b, r, k).
        if \<not> (b \<and> \<not> k) \<and> \<not> r then [] else [\<lparr>Advert = a, ptr = b \<and> \<not> k, resolve = r\<rparr>])
       (zip l (zip br (zip rs kn))))"

text \<open>The answer, and whether the asker wants it alone; \<open>None\<close> when there is nothing to say.\<close>

definition wants :: "responder \<Rightarrow> dns_query option \<Rightarrow> (dns_answer \<times> bool) option" where
  "wants m packet =
     (case packet of None \<Rightarrow> None
      | Some q \<Rightarrow>
          if q_response q \<or> \<not> q_whole q then None
          else (let l = adverts m;
                    s = fold (question_step m l) (q_questions q) (nothing_asked (length l))
            in if \<not> is_matched s then None
               else (let out = chosen l (browse s) (resolves s) (knownAnswers m (q_answers q) l)
                 in if out = [] \<and> \<not> ask_host s then None
                    else Some (\<lparr>adverts_out = out, host = ask_host s, noHost = False\<rparr>,
                               ask_unicast s \<and> \<not> ask_multicast s))))"

definition replyTo :: "responder \<Rightarrow> udp_addr \<Rightarrow> dns_query option \<Rightarrow> time \<Rightarrow> (udp_addr \<times> dns_answer) option \<times> responder" where
  "replyTo m src packet now =
     (if \<not> onLink m (fst src) then (None, m)
      else (case wants m packet of
          None \<Rightarrow> (None, m)
        | Some (send, unicast) \<Rightarrow>
            if gone m then (None, m)
            else if unicast then
              (case mayUnicast m now of (m1, ok) \<Rightarrow> (if ok then Some (src, send) else None, m1))
            else
              (case mayMulticast m now of (m1, ok) \<Rightarrow> (if ok then Some (multicast_group, send) else None, m1))))"

section \<open>What may be advertised\<close>

definition missingFrom :: "advert list \<Rightarrow> advert list \<Rightarrow> advert list" where
  "missingFrom from_l in_l = filter (\<lambda>a. \<not> list_ex (\<lambda>b. equal_fold (Service a) (Service b)) in_l) from_l"

datatype name_error = NoDot | NameLong nat | EmptyLabel | LabelLong nat

fun check_labels :: "string list \<Rightarrow> name_error option" where
  "check_labels [] = None"
| "check_labels (l # ls) =
     (if l = '''' then Some EmptyLabel
      else if maxLabel < length l then Some (LabelLong (length l))
      else check_labels ls)"

definition validName :: "string \<Rightarrow> name_error option" where
  "validName name =
     (if \<not> has_suffix name ''.'' then Some NoDot
      else if maxName < length name then Some (NameLong (length name))
      else check_labels (split_on CHR ''.'' (trim_suffix name ''.'')))"

datatype advert_error = NoAdverts | NoRecords string | BadHost name_error | BadService name_error
  | BadInstance name_error | CarriedTwice string | LongTXT string nat | Unpackable

fun check_each :: "responder \<Rightarrow> string set \<Rightarrow> advert list \<Rightarrow> advert_error option" where
  "check_each m seen [] = None"
| "check_each m seen (a # l) =
     (case validName (Service a) of Some e \<Rightarrow> Some (BadService e)
      | None \<Rightarrow>
         (case validName (instanceFor m (Service a)) of Some e \<Rightarrow> Some (BadInstance e)
          | None \<Rightarrow>
              if to_lower (Service a) \<in> seen then Some (CarriedTwice (Service a))
              else (case find (\<lambda>r. maxTXTString < length r) (Records a) of
                  Some r \<Rightarrow> Some (LongTXT (Service a) (length r))
                | None \<Rightarrow> check_each m (insert (to_lower (Service a)) seen) l)))"

definition bare :: "advert \<Rightarrow> bool" where
  "bare a \<longleftrightarrow> Service a = '''' \<or> Records a = [] \<or> Port a = 0"

definition dry_answer :: "advert list \<Rightarrow> dns_answer" where
  "dry_answer l =
     \<lparr>adverts_out = map (\<lambda>a. \<lparr>Advert = a, ptr = True, resolve = True\<rparr>) l, host = True, noHost = False\<rparr>"

definition checkAdverts :: "dns_lib \<Rightarrow> advert list \<Rightarrow> responder \<Rightarrow> advert_error option" where
  "checkAdverts D l m =
     (if l = [] then Some NoAdverts
      else (case find bare l of Some a \<Rightarrow> Some (NoRecords (Service a))
        | None \<Rightarrow>
            (case validName (hostName m) of Some e \<Rightarrow> Some (BadHost e)
             | None \<Rightarrow>
                 (case check_each m {} l of Some e \<Rightarrow> Some e
                  | None \<Rightarrow> if recordsFor D ttlShared (dry_answer l) m = None then Some Unpackable else None))))"

section \<open>Sending\<close>

text \<open>
  A send is the payload and where it goes. \<open>ok i\<close> is the kernel's answer to the \<open>i\<close>-th write of an
  operation; an empty payload is refused before the kernel is asked.
\<close>

type_synonym send = "bytes \<times> udp_addr"

definition writeTo :: "bool \<Rightarrow> bytes option \<Rightarrow> udp_addr \<Rightarrow> bool \<times> send list" where
  "writeTo ok payload dst =
     (case payload of None \<Rightarrow> (False, []) | Some p \<Rightarrow> if p = [] then (False, []) else (ok, [(p, dst)]))"

text \<open>
  An operation takes the mutex for one read or one change at a time. \<open>w k\<close> is what the other goroutines do
  to the responder in the \<open>k\<close>-th gap between two such moments of it. An announcement has four: after the
  generation is read, after the services are, after the address is, and between the check and the write,
  which is made with the mutex released.
\<close>

type_synonym gaps = "nat \<Rightarrow> responder \<Rightarrow> responder"

definition announceGen ::
  "dns_lib \<Rightarrow> 64 word \<Rightarrow> gaps \<Rightarrow> time \<Rightarrow> bool \<Rightarrow> responder \<Rightarrow> bool \<times> responder \<times> send list" where
  "announceGen D g w now ok m =
     (let m1 = w 0 m; payload = recordsFor D ttlShared (browse_answer (adverts m)) m1; m2 = w 1 m1;
          stale = (gone m2 \<or> gen m2 \<noteq> g); m3 = m2\<lparr>lastSent := Some now\<rparr>
      in if stale then (True, m3, [])
         else (case writeTo ok payload multicast_group of (r, out) \<Rightarrow> (r, w 2 m3, out)))"

definition announceOnce :: "dns_lib \<Rightarrow> gaps \<Rightarrow> time \<Rightarrow> bool \<Rightarrow> responder \<Rightarrow> bool \<times> responder \<times> send list" where
  "announceOnce D w now ok m = announceGen D (gen m) (\<lambda>k. w (Suc k)) now ok (w 0 m)"

definition announceSchedule :: "responder \<Rightarrow> duration list" where
  "announceSchedule m =
     (case rungs m of Some rs \<Rightarrow> rs | None \<Rightarrow> map (\<lambda>i. announceFirst * 2 ^ i) [0 ..< announceRungs])"

text \<open>A ladder is named by the number of its start; it is stopped when it is no longer \<open>ladder\<close>.\<close>

definition startLadder :: "nat \<Rightarrow> responder \<Rightarrow> responder" where
  "startLadder i m = m\<lparr>ladder := Some i\<rparr>"

definition stopLadder :: "responder \<Rightarrow> responder" where
  "stopLadder m = m\<lparr>ladder := None\<rparr>"

definition announce ::
  "dns_lib \<Rightarrow> nat \<Rightarrow> gaps \<Rightarrow> time \<Rightarrow> bool \<Rightarrow> responder \<Rightarrow> bool \<times> responder \<times> send list" where
  "announce D i w now ok m =
     (case announceOnce D w now ok m of
        (False, m1, out) \<Rightarrow> (False, m1, out)
      | (True, m1, out) \<Rightarrow> (True, startLadder i (w 4 m1), out))"

text \<open>One rung, after its wait: the ladder goes on when the first component is true.\<close>

definition ladder_rung ::
  "dns_lib \<Rightarrow> nat \<Rightarrow> gaps \<Rightarrow> time \<Rightarrow> bool \<Rightarrow> responder \<Rightarrow> bool \<times> responder \<times> send list" where
  "ladder_rung D c w now ok m =
     (if dns_conn m \<noteq> Some c \<or> gone m then (False, m, [])
      else (case announceOnce D (\<lambda>k. w (Suc k)) now ok (w 0 m) of
          (True, m1, out) \<Rightarrow> (True, m1, out)
        | (False, m1, out) \<Rightarrow> (False, noteSendFailure ''announce'' (w 5 m1), out)))"

definition twice :: "(nat \<Rightarrow> bool) \<Rightarrow> bytes option \<Rightarrow> send list" where
  "twice ok payload =
     (case writeTo (ok 0) payload multicast_group of
        (False, out) \<Rightarrow> out
      | (True, out) \<Rightarrow> out @ snd (writeTo (ok 1) payload multicast_group))"

definition set_services :: "advert list \<Rightarrow> responder \<Rightarrow> responder" where
  "set_services l m = m\<lparr>services := Some l, gen := gen m + 1\<rparr>"

datatype advertise_error = Refused_adverts advert_error | Announce_failed

definition Advertise ::
  "dns_lib \<Rightarrow> nat \<Rightarrow> gaps \<Rightarrow> time \<Rightarrow> (nat \<Rightarrow> bool) \<Rightarrow> bool \<Rightarrow> advert list \<Rightarrow> responder
     \<Rightarrow> advertise_error option \<times> responder \<times> send list" where
  "Advertise D i w now wok aok l m =
     (case checkAdverts D l m of
        Some e \<Rightarrow> (Some (Refused_adverts e), m, [])
      | None \<Rightarrow>
          (let m0 = w 0 m; was = adverts m0; m1 = set_services l (w 1 m0)
           in if dns_conn m1 = None \<or> gone m1 then (None, m1, [])
              else (let dropped = missingFrom was l;
                        m2 = (if dropped = [] then m1 else w 3 (stopLadder (w 2 m1)));
                        said = (if dropped = [] then [] else twice wok (withdrawal D dropped m2))
                in if missingFrom l was = [] then (None, m2, said)
                   else (case announce D i (\<lambda>k. w (k + 5)) now aok (w 4 m2) of
                       (good, m3, out) \<Rightarrow> (if good then None else Some Announce_failed, m3, said @ out)))))"

text \<open>The withdrawal at the end: \<open>opened\<close> is the socket opened when none was.\<close>

definition Goodbye :: "dns_lib \<Rightarrow> nat option \<Rightarrow> (nat \<Rightarrow> bool) \<Rightarrow> responder \<Rightarrow> responder \<times> send list" where
  "Goodbye D opened ok m =
     (let payload = goodbyeRecords D m; m1 = m\<lparr>gone := True\<rparr>
      in if dns_conn m1 = None \<and> opened = None then (m1, []) else (m1, twice ok payload))"

section \<open>Serving\<close>

definition serve_packet ::
  "dns_lib \<Rightarrow> bool \<Rightarrow> time \<Rightarrow> udp_addr \<Rightarrow> dns_query option \<Rightarrow> responder \<Rightarrow> responder \<times> send list" where
  "serve_packet D ok now src packet m =
     (case replyTo m src packet now of
        (None, m1) \<Rightarrow> (m1, [])
      | (Some (dst, send), m1) \<Rightarrow>
          (case writeTo ok (recordsFor D ttlShared send m1) dst of
             (r, out) \<Rightarrow> (if r then m1 else noteReplyFailure dst ''write'' m1, out)))"

text \<open>\<open>serve\<close> begins a cycle on a socket and ends it when a read fails: cleanly when the restart was asked for.\<close>

definition serve_begin :: "nat option \<Rightarrow> responder \<Rightarrow> bool \<times> responder" where
  "serve_begin opened m =
     (let m1 = beginCycle m
      in case opened of None \<Rightarrow> (False, m1) | Some c \<Rightarrow> (True, m1\<lparr>dns_conn := Some c\<rparr>))"

definition serve_end :: "responder \<Rightarrow> bool \<times> responder" where
  "serve_end m = (restart m, m\<lparr>restart := False, dns_conn := None\<rparr>)"

definition watch_address :: "(ip4 \<times> (ip4 \<times> ip4)) option \<Rightarrow> responder \<Rightarrow> stale_reason option \<times> responder" where
  "watch_address found m =
     (case found of None \<Rightarrow> (None, m)
      | Some (a, net) \<Rightarrow>
          (case stale a m of
             (None, m1) \<Rightarrow> (None, m1)
           | (Some r, m1) \<Rightarrow> (Some r, m1\<lparr>ip := Some a, subnet := Some net, restart := True\<rparr>)))"

text \<open>The addresses of an interface as \<open>net.IPNet\<close>s; one that is not IPv4 is \<open>None\<close>.\<close>

definition is_loopback :: "ip4 \<Rightarrow> bool" where
  "is_loopback a \<longleftrightarrow> drop_bit 24 a = 127"

fun interfaceIPv4 :: "(ip4 option \<times> ip4) list \<Rightarrow> (ip4 \<times> (ip4 \<times> ip4)) option" where
  "interfaceIPv4 [] = None"
| "interfaceIPv4 ((None, msk) # as) = interfaceIPv4 as"
| "interfaceIPv4 ((Some a, msk) # as) = (if is_loopback a then interfaceIPv4 as else Some (a, (a, msk)))"

text \<open>
  \<open>Run\<close>: what it checks first; a turn up to the call of \<open>serve\<close> (\<open>None\<close> when it returns; otherwise whether
  to serve, \<open>waiting\<close>, how long to sleep and the notes), and after it (\<open>failing\<close>, the sleep and the notes).
\<close>

datatype run_line = NotAdvertising advert_error | WaitingForAddress | CameUp ip4 | ServeFailed

definition run_start :: "dns_lib \<Rightarrow> responder \<Rightarrow> run_line option" where
  "run_start D m = map_option NotAdvertising (checkAdverts D (adverts m) m)"

definition run_before :: "(ip4 \<times> (ip4 \<times> ip4)) option \<Rightarrow> bool \<Rightarrow> responder
    \<Rightarrow> (bool \<times> bool \<times> duration \<times> run_line list \<times> responder) option" where
  "run_before found waiting m =
     (if gone m then None
      else (case found of
        None \<Rightarrow> Some (False, True, 5 * second, if waiting then [] else [WaitingForAddress], m)
      | Some (a, net) \<Rightarrow>
          Some (True, False, 0, if waiting then [CameUp a] else [], m\<lparr>ip := Some a, subnet := Some net\<rparr>)))"

definition run_after :: "bool \<Rightarrow> bool \<Rightarrow> bool \<times> duration \<times> run_line list" where
  "run_after served_ok failing =
     (if served_ok then (False, 0, [])
      else (True, 30 * second, if failing then [] else [ServeFailed]))"

section \<open>Rationing\<close>

interpretation unicast_limit: window_limiter mayUnicast unicastEnd unicasts unicastBurst unicastWindow
  by unfold_locales
    (auto simp: mayUnicast_def unicast_roll_def Let_def unicastBurst_def unicastWindow_def split: if_splits)

lemma mayUnicast_core:
  assumes "unicastEnd m = unicastEnd m'" "unicasts m = unicasts m'"
  shows "unicastEnd (fst (mayUnicast m t)) = unicastEnd (fst (mayUnicast m' t))
    \<and> unicasts (fst (mayUnicast m t)) = unicasts (fst (mayUnicast m' t))
    \<and> snd (mayUnicast m t) = snd (mayUnicast m' t)"
  using assms by (simp add: mayUnicast_def unicast_roll_def Let_def)

lemma grants_core:
  "unicastEnd m = unicastEnd m' \<Longrightarrow> unicasts m = unicasts m' \<Longrightarrow> grants mayUnicast m ts = grants mayUnicast m' ts"
proof (induction ts arbitrary: m m')
  case (Cons t ts)
  show ?case
    using mayUnicast_core [OF Cons.prems, of t]
      Cons.IH [of "fst (mayUnicast m t)" "fst (mayUnicast m' t)"]
    by (auto split: prod.splits)
qed simp

lemma noteReplyFailure_fields [simp]:
  "unicastEnd (noteReplyFailure d e m) = unicastEnd m" "unicasts (noteReplyFailure d e m) = unicasts m"
  "lastSent (noteReplyFailure d e m) = lastSent m" "gone (noteReplyFailure d e m) = gone m"
  "services (noteReplyFailure d e m) = services m" "gen (noteReplyFailure d e m) = gen m"
  "Services (noteReplyFailure d e m) = Services m" "ip (noteReplyFailure d e m) = ip m"
  by (simp_all add: noteReplyFailure_def noteSendFailure_def split: option.splits)

lemma length_writeTo: "length (snd (writeTo ok p d)) \<le> 1"
  by (simp add: writeTo_def split: option.splits)

text \<open>What one packet spends.\<close>

lemma serve_packet_spends:
  assumes "serve_packet D ok now src q m = (m', out)"
  obtains (quiet) "out = []" "unicastEnd m' = unicastEnd m" "unicasts m' = unicasts m" "lastSent m' = lastSent m"
  | (unicast) m1 g where "mayUnicast m now = (m1, g)" "length out \<le> (if g then 1 else 0)"
      "unicastEnd m' = unicastEnd m1" "unicasts m' = unicasts m1" "lastSent m' = lastSent m"
  | (multicast) m1 g where "mayMulticast m now = (m1, g)" "length out \<le> (if g then 1 else 0)"
      "unicastEnd m' = unicastEnd m" "unicasts m' = unicasts m" "lastSent m' = lastSent m1"
proof -
  obtain r m1 where r: "replyTo m src q now = (r, m1)" by fastforce
  show ?thesis
  proof (cases r)
    case None
    then have o: "out = []" "m' = m1" using assms r by (simp_all add: serve_packet_def)
    from r None consider "m1 = m" | "mayUnicast m now = (m1, False)" | "mayMulticast m now = (m1, False)"
      by (auto simp: replyTo_def split: if_splits option.splits prod.splits)
    then show ?thesis
    proof cases
      case 1
      show ?thesis by (rule quiet) (use o 1 in simp_all)
    next
      case 2
      moreover have "lastSent m1 = lastSent m"
        using 2 by (auto simp: mayUnicast_def unicast_roll_def Let_def split: if_splits)
      ultimately show ?thesis using o unicast [of m1 False] by simp
    next
      case 3
      moreover have "unicastEnd m1 = unicastEnd m" "unicasts m1 = unicasts m"
        using 3 by (auto simp: mayMulticast_def split: if_splits option.splits)
      ultimately show ?thesis using o multicast [of m1 False] by simp
    qed
  next
    case (Some ds)
    obtain dst send where d: "ds = (dst, send)" by fastforce
    obtain k w where w: "writeTo ok (recordsFor D ttlShared send m1) dst = (k, w)" by fastforce
    have o: "out = w" "m' = (if k then m1 else noteReplyFailure dst ''write'' m1)" "length w \<le> 1"
      using assms r Some d w length_writeTo [of ok "recordsFor D ttlShared send m1" dst]
      by (auto simp: serve_packet_def)
    from r Some d consider "mayUnicast m now = (m1, True)" | "mayMulticast m now = (m1, True)"
      by (auto simp: replyTo_def split: if_splits option.splits prod.splits)
    then show ?thesis
    proof cases
      case 1
      moreover have "lastSent m1 = lastSent m"
        using 1 by (auto simp: mayUnicast_def unicast_roll_def Let_def split: if_splits)
      ultimately show ?thesis using o unicast [of m1 True] by simp
    next
      case 2
      moreover have "unicastEnd m1 = unicastEnd m" "unicasts m1 = unicasts m"
        using 2 by (auto simp: mayMulticast_def split: if_splits option.splits)
      ultimately show ?thesis using o multicast [of m1 True] by simp
    qed
  qed
qed

type_synonym packet_event = "(bool \<times> time) \<times> udp_addr \<times> dns_query option"

definition packet_step :: "dns_lib \<Rightarrow> responder \<Rightarrow> packet_event \<Rightarrow> responder \<times> send list" where
  "packet_step D m e = (case e of ((ok, now), src, q) \<Rightarrow> serve_packet D ok now src q m)"

definition multicast_left :: "time \<Rightarrow> responder \<Rightarrow> nat" where
  "multicast_left a m = (case lastSent m of None \<Rightarrow> 1 | Some t \<Rightarrow> if a \<le> t then 0 else 1)"

lemma mayMulticast_left:
  assumes "mayMulticast m now = (m1, g)" "a \<le> now" "now < a + multicastEvery"
  shows "(if g then 1 else 0) + multicast_left a m1 \<le> multicast_left a m"
  using assms by (auto simp: mayMulticast_def multicast_left_def split: option.splits if_splits)

lemma packets_spend:
  assumes "\<forall>e \<in> set es. a \<le> snd (fst e) \<and> snd (fst e) < a + multicastEvery"
  shows "\<exists>ts. set ts \<subseteq> (\<lambda>e. snd (fst e)) ` set es
    \<and> length (snd (run_out (packet_step D) m es)) \<le> grants mayUnicast m ts + multicast_left a m"
  using assms
proof (induction es arbitrary: m)
  case Nil
  then show ?case by (auto intro: exI [of _ "[]"])
next
  case (Cons e es)
  obtain ok now src q where e: "e = ((ok, now), src, q)" by (metis prod.collapse)
  obtain m' o1 where st: "serve_packet D ok now src q m = (m', o1)" by fastforce
  obtain ts where ts: "set ts \<subseteq> (\<lambda>e. snd (fst e)) ` set es"
      "length (snd (run_out (packet_step D) m' es)) \<le> grants mayUnicast m' ts + multicast_left a m'"
    using Cons.IH [of m'] Cons.prems by auto
  have len: "length (snd (run_out (packet_step D) m (e # es)))
      = length o1 + length (snd (run_out (packet_step D) m' es))"
    by (simp add: packet_step_def e st split: prod.splits)
  have now: "a \<le> now" "now < a + multicastEvery" using Cons.prems e by auto
  from st show ?case
  proof (cases rule: serve_packet_spends)
    case quiet
    have "grants mayUnicast m' ts = grants mayUnicast m ts" by (rule grants_core) (rule quiet)+
    moreover have "multicast_left a m' = multicast_left a m" using quiet by (simp add: multicast_left_def)
    ultimately have "length (snd (run_out (packet_step D) m (e # es)))
        \<le> grants mayUnicast m ts + multicast_left a m"
      using ts(2) len quiet(1) by simp
    then show ?thesis using ts(1) by (intro exI [of _ ts]) auto
  next
    case (unicast m1 g)
    have "grants mayUnicast m' ts = grants mayUnicast m1 ts"
      using unicast by (intro grants_core) simp_all
    moreover have "multicast_left a m' = multicast_left a m" using unicast by (simp add: multicast_left_def)
    ultimately have "length (snd (run_out (packet_step D) m (e # es)))
        \<le> grants mayUnicast m (now # ts) + multicast_left a m"
      using ts(2) len unicast(1,2) by simp
    then show ?thesis using ts(1) e by (intro exI [of _ "now # ts"]) auto
  next
    case (multicast m1 g)
    have "grants mayUnicast m' ts = grants mayUnicast m ts"
      using multicast by (intro grants_core) simp_all
    moreover have "multicast_left a m' = multicast_left a m1" using multicast by (simp add: multicast_left_def)
    ultimately have "length (snd (run_out (packet_step D) m (e # es)))
        \<le> grants mayUnicast m ts + multicast_left a m"
      using ts(2) len multicast(2) mayMulticast_left [OF multicast(1) now] by simp
    then show ?thesis using ts(1) e by (intro exI [of _ ts]) auto
  qed
qed

text \<open>
  C15. However many queries arrive, and however they ask, one second sees at most forty-one answers: two windows
  of unicast ones and one multicast.
\<close>

theorem answers_rationed:
  assumes "\<forall>e \<in> set es. a \<le> snd (fst e) \<and> snd (fst e) < a + second" "unicasts m \<le> unicastBurst"
  shows "length (snd (run_out (packet_step D) m es)) \<le> 41"
proof -
  obtain ts where ts: "set ts \<subseteq> (\<lambda>e. snd (fst e)) ` set es"
      "length (snd (run_out (packet_step D) m es)) \<le> grants mayUnicast m ts + multicast_left a m"
    using packets_spend [of es a D m] assms(1) by (auto simp: multicastEvery_def)
  have "\<forall>t \<in> set ts. a \<le> t \<and> t \<le> a + unicastWindow"
    using ts(1) assms(1) by (force simp: unicastWindow_def)
  from unicast_limit.grants_interval [OF this assms(2)]
  have "grants mayUnicast m ts \<le> 40" by (simp add: unicastBurst_def)
  moreover have "multicast_left a m \<le> 1" by (simp add: multicast_left_def split: option.splits)
  ultimately show ?thesis using ts(2) by simp
qed

section \<open>Announcing while the services change\<close>

text \<open>Everything the responder's goroutines do under the lock, as one step each.\<close>

datatype dns_event = ESet "advert list" | EPacket packet_event | ESent time | EStart nat | EStop
  | EFail string | EAddress "(ip4 \<times> (ip4 \<times> ip4)) option" | EBegin "nat option" | EEnd | EGone

fun dns_step :: "dns_lib \<Rightarrow> responder \<Rightarrow> dns_event \<Rightarrow> responder" where
  "dns_step D m (ESet l) = set_services l m"
| "dns_step D m (EPacket e) = fst (packet_step D m e)"
| "dns_step D m (ESent now) = m\<lparr>lastSent := Some now\<rparr>"
| "dns_step D m (EStart i) = startLadder i m"
| "dns_step D m EStop = stopLadder m"
| "dns_step D m (EFail e) = noteSendFailure e m"
| "dns_step D m (EAddress found) = snd (watch_address found m)"
| "dns_step D m (EBegin opened) = snd (serve_begin opened m)"
| "dns_step D m EEnd = snd (serve_end m)"
| "dns_step D m EGone = m\<lparr>gone := True\<rparr>"

definition is_set :: "dns_event \<Rightarrow> bool" where
  "is_set e = (case e of ESet l \<Rightarrow> True | _ \<Rightarrow> False)"

definition same_services :: "responder \<Rightarrow> responder \<Rightarrow> bool" where
  "same_services m m' \<longleftrightarrow> services m' = services m \<and> Services m' = Services m \<and> gen m' = gen m
     \<and> Instance m' = Instance m \<and> (gone m \<longrightarrow> gone m')"

lemma same_services_limits [simp]:
  "same_services m (fst (mayUnicast m now))" "same_services m (fst (mayMulticast m now))"
  "same_services m (noteSendFailure e m)" "same_services m (noteReplyFailure d e m)" "same_services m m"
  by (simp_all add: same_services_def mayUnicast_def unicast_roll_def mayMulticast_def noteSendFailure_def
      noteReplyFailure_def Let_def split: option.splits)

lemma same_services_trans: "same_services a b \<Longrightarrow> same_services b c \<Longrightarrow> same_services a c"
  by (simp add: same_services_def)

lemma replyTo_same: "same_services m (snd (replyTo m src q now))"
  using same_services_limits(1,2) [of m now]
  by (auto simp: replyTo_def case_prod_beta split: option.splits)

lemma serve_packet_same: "same_services m (fst (serve_packet D ok now src q m))"
  using replyTo_same [of m src q now] same_services_limits(4)
  by (auto simp: serve_packet_def split: option.splits prod.splits intro: same_services_trans)

lemma dns_step_same: "\<not> is_set e \<Longrightarrow> same_services m (dns_step D m e)"
proof (cases e)
  case (EPacket x)
  then show ?thesis using serve_packet_same by (auto simp: packet_step_def split: prod.splits)
next
  case (EAddress f)
  then show ?thesis by (auto simp: watch_address_def stale_def Let_def same_services_def split: option.splits prod.splits)
qed (auto simp: is_set_def same_services_def startLadder_def stopLadder_def noteSendFailure_def
    serve_begin_def serve_end_def beginCycle_def Let_def split: option.splits)

lemma dns_step_gen: "gen (dns_step D m e) = gen m + (if is_set e then 1 else 0)"
  using dns_step_same [of e m D] by (cases e) (auto simp: is_set_def same_services_def set_services_def)

lemma dns_run_gen: "gen (foldl (dns_step D) m es) = gen m + of_nat (length (filter is_set es))"
  by (induction es arbitrary: m) (simp_all add: dns_step_gen)

lemma dns_run_same: "filter is_set es = [] \<Longrightarrow> same_services m (foldl (dns_step D) m es)"
proof (induction es arbitrary: m)
  case (Cons e es)
  then show ?case using dns_step_same [of e m D] same_services_trans by (fastforce split: if_splits)
qed simp

lemma gone_stays: "gone m \<Longrightarrow> gone (foldl (dns_step D) m es)"
proof (induction es arbitrary: m)
  case (Cons e es)
  have "gone (dns_step D m e)"
    using dns_step_same [of e m D] Cons.prems
    by (cases "is_set e") (auto simp: same_services_def is_set_def set_services_def split: dns_event.splits)
  then show ?case using Cons.IH by simp
qed simp

lemma records_same: "same_services m m' \<Longrightarrow> adverts m' = adverts m"
  by (auto simp: same_services_def adverts_def split: option.splits)

text \<open>
  C13. An announcement reads the generation, the services and the address, checks the generation again
  and then writes, and the services may be replaced, the address move and the responder be withdrawn
  in any of the gaps. What is written is nevertheless built from the services carried at the moment of
  the check, and nothing is written unless the responder was still there at that moment: the generation
  is 64 bits wide and is not used up. The write itself comes after the check with the mutex released, so
  a withdrawal that falls between the two does not stop it.
\<close>

theorem announcement_current:
  assumes "w = (\<lambda>k m. foldl (dns_step D) m (es k))"
    and "length (filter is_set (es 0 @ es 1 @ es 2)) < 2 ^ 64"
    and "announceOnce D w now ok m = (r, m', out)" "out \<noteq> []"
  shows "let built = w 1 (w 0 m); checked = w 2 built
     in \<not> gone m \<and> \<not> gone checked \<and> adverts m = adverts checked
        \<and> (\<exists>p. out = [(p, multicast_group)] \<and> recordsFor D ttlShared (browse_answer (adverts checked)) built = Some p)
        \<and> m' = w 3 (checked\<lparr>lastSent := Some now\<rparr>)
        \<and> announceOnce D (w(3 := \<lambda>m. dns_step D m EGone)) now ok m = (r, checked\<lparr>lastSent := Some now, gone := True\<rparr>, out)"
proof -
  let ?m1 = "w 0 m" and ?m3 = "w 2 (w 1 (w 0 m))"
  have m3: "?m1 = foldl (dns_step D) m (es 0)" "?m3 = foldl (dns_step D) m (es 0 @ es 1 @ es 2)"
    by (simp_all add: assms(1))
  have g: "gen ?m3 = gen m" "\<not> gone ?m3"
    using assms(3,4) by (auto simp: announceOnce_def announceGen_def Let_def numeral_2_eq_2 split: if_splits)
  have "of_nat (length (filter is_set (es 0 @ es 1 @ es 2))) = (0 :: 64 word)"
    using g(1) dns_run_gen [of D m "es 0 @ es 1 @ es 2"] m3(2) by simp
  then have "unat (of_nat (length (filter is_set (es 0 @ es 1 @ es 2))) :: 64 word) = 0" by simp
  then have "length (filter is_set (es 0 @ es 1 @ es 2)) = 0"
    using assms(2) by (simp only: unat_of_nat) simp
  then have e: "filter is_set (es 0) = []" "filter is_set (es 0 @ es 1 @ es 2) = []" by simp_all
  have a: "adverts ?m1 = adverts m" "adverts ?m3 = adverts m"
    using records_same [OF dns_run_same [OF e(1), of m D]] records_same [OF dns_run_same [OF e(2), of m D]] m3 by simp_all
  have "\<not> gone m" using gone_stays [of m D "es 0 @ es 1 @ es 2"] g(2) m3(2) by auto
  then show ?thesis
    using assms(3,4) g a
    by (auto simp: announceOnce_def announceGen_def writeTo_def Let_def numeral_2_eq_2 numeral_3_eq_3
        split: if_splits option.splits)
qed

definition demo_lib :: dns_lib where
  "demo_lib = \<lparr>new_name = (\<lambda>n. length n \<le> 255), pack = (\<lambda>a b. Some [of_nat (length a), of_nat (length b)])\<rparr>"

definition demo_advert :: advert where
  "demo_advert = \<lparr>Service = ''_x._tcp.local.'', Port = 6053, Records = [''a=b'']\<rparr>"

definition demo_responder :: responder where
  "demo_responder = \<lparr>Instance = ''dot'', Services = [demo_advert], services = None, gen = 0, dns_conn = Some 1,
     ip = Some 0x0A000001, subnet = Some (0x0A000001, 0xFFFFFF00), restart = False, lastSent = None,
     unicastEnd = None, unicasts = 0, sendFailed = None, gone = False, ladder = None, rungs = None\<rparr>"

definition demo_others :: "nat \<Rightarrow> dns_event list" where
  "demo_others k = (if k = 0 then [EStop] else if k = 2 then [ESent 5] else if k = 3 then [ESet [], EGone] else [])"

theorem announcement_current_witness:
  "announceOnce demo_lib (\<lambda>k m. foldl (dns_step demo_lib) m (demo_others k)) 7 True demo_responder
     = (True, demo_responder\<lparr>lastSent := Some 7, services := Some [], gen := 1, gone := True\<rparr>, [([1, 3], multicast_group)])
   \<and> adverts (dns_step demo_lib (dns_step demo_lib demo_responder EStop) (ESent 5)) = [demo_advert]"
proof -
  let ?w = "\<lambda>k m. foldl (dns_step demo_lib) m (demo_others k)"
  have p: "recordsFor demo_lib ttlShared (browse_answer (adverts demo_responder)) demo_responder = Some [1, 3]"
    by (simp add: recordsFor_def demo_lib_def demo_responder_def hostName_def
        instanceFor_def browse_answer_def adverts_def answer_section_def additional_section_def
        service_records_def host_record_def demo_advert_def)
  have s: "stopLadder demo_responder = demo_responder" by (simp add: stopLadder_def demo_responder_def)
  have run: "announceOnce demo_lib ?w 7 True demo_responder
     = (True, demo_responder\<lparr>lastSent := Some 7, services := Some [], gen := 1, gone := True\<rparr>, [([1, 3], multicast_group)])"
    using p by (simp add: announceOnce_def announceGen_def Let_def demo_others_def s writeTo_def set_services_def)
       (simp add: demo_responder_def)
  from announcement_current [OF refl _ this] have "adverts demo_responder = adverts (?w 2 (?w 1 (?w 0 demo_responder)))"
    by (simp add: demo_others_def is_set_def Let_def)
  then show ?thesis using run by (simp add: demo_others_def s) (simp add: adverts_def demo_responder_def)
qed

text \<open>A burst of queries from the network and one from outside it.\<close>

definition demo_packets :: "packet_event list" where
  "demo_packets = [((True, 10), (0x0A000002, 5353), Some \<lparr>q_response = False,
        q_questions = [\<lparr>q_name = ''_x._tcp.local.'', q_type = dnsTypePTR, q_class = 1\<rparr>], q_whole = True, q_answers = []\<rparr>),
     ((True, 20), (0x0B000002, 5353), None)]"

theorem answers_rationed_witness:
  "length (snd (run_out (packet_step demo_lib) demo_responder demo_packets)) \<le> 41"
  by (rule answers_rationed [where a = 0]) (simp_all add: demo_packets_def demo_responder_def)

section \<open>What an answer holds\<close>

text \<open>The reply to a query, read off its questions and known answers at once.\<close>

definition relevant :: "responder \<Rightarrow> dns_question \<Rightarrow> bool" where
  "relevant m q \<longleftrightarrow> asks_host m q \<or> list_ex (asks_browse q) (adverts m) \<or> list_ex (asks_resolve m q) (adverts m)"

definition wants_unicast :: "dns_question \<Rightarrow> bool" where
  "wants_unicast q \<longleftrightarrow> q_class q AND dnsUnicastResponse \<noteq> 0"

definition reply_for :: "responder \<Rightarrow> dns_query \<Rightarrow> served list" where
  "reply_for m q =
     map (\<lambda>a. \<lparr>Advert = a,
               ptr = list_ex (\<lambda>x. asks_browse x a) (q_questions q) \<and> \<not> list_ex (\<lambda>k. known_step m k a) (q_answers q),
               resolve = list_ex (\<lambda>x. asks_resolve m x a) (q_questions q)\<rparr>)
       (filter (\<lambda>a. list_ex (\<lambda>x. asks_browse x a) (q_questions q) \<and> \<not> list_ex (\<lambda>k. known_step m k a) (q_answers q)
                    \<or> list_ex (\<lambda>x. asks_resolve m x a) (q_questions q)) (adverts m))"

lemma zip_marks: "map (\<lambda>(b, a). b \<or> P a) (zip (map f l) l) = map (\<lambda>a. f a \<or> P a) l"
  by (induction l) simp_all

lemma questions_fold:
  assumes "browse s = map f l" "resolves s = map g l"
  shows "(let t = fold (question_step m l) qs s in
     browse t = map (\<lambda>a. f a \<or> list_ex (\<lambda>q. asks_browse q a) qs) l
     \<and> resolves t = map (\<lambda>a. g a \<or> list_ex (\<lambda>q. asks_resolve m q a) qs) l
     \<and> (ask_host t = (if list_ex (asks_host m) qs then ip m \<noteq> None else ask_host s))
     \<and> (let rel = (\<lambda>q. asks_host m q \<or> list_ex (asks_browse q) l \<or> list_ex (asks_resolve m q) l) in
        is_matched t = (is_matched s \<or> list_ex rel qs)
        \<and> ask_unicast t = (ask_unicast s \<or> list_ex (\<lambda>q. rel q \<and> wants_unicast q) qs)
        \<and> ask_multicast t = (ask_multicast s \<or> list_ex (\<lambda>q. rel q \<and> \<not> wants_unicast q) qs)))"
  using assms
proof (induction qs arbitrary: s f g)
  case (Cons q qs)
  let ?s = "question_step m l q s"
  have st: "browse ?s = map (\<lambda>a. f a \<or> asks_browse q a) l" "resolves ?s = map (\<lambda>a. g a \<or> asks_resolve m q a) l"
    by (simp_all add: question_step_def Let_def Cons.prems zip_marks)
  have h: "ask_host ?s = (if asks_host m q then ip m \<noteq> None else ask_host s)"
    by (simp add: question_step_def Let_def)
  have u: "is_matched ?s = (is_matched s \<or> asks_host m q \<or> list_ex (asks_browse q) l \<or> list_ex (asks_resolve m q) l)"
    "ask_unicast ?s = (ask_unicast s \<or> (asks_host m q \<or> list_ex (asks_browse q) l \<or> list_ex (asks_resolve m q) l) \<and> wants_unicast q)"
    "ask_multicast ?s = (ask_multicast s \<or> (asks_host m q \<or> list_ex (asks_browse q) l \<or> list_ex (asks_resolve m q) l) \<and> \<not> wants_unicast q)"
    by (simp_all add: question_step_def Let_def wants_unicast_def)
  show ?case
    using Cons.IH [OF st] h u unfolding Let_def fold_Cons comp_def by (simp add: disj_assoc)
qed simp

lemma known_fold:
  "fold (\<lambda>k known. map (\<lambda>(b, a). b \<or> known_step m k a) (zip known l)) ks (map f l)
     = map (\<lambda>a. f a \<or> list_ex (\<lambda>k. known_step m k a) ks) l"
  by (induction ks arbitrary: f) (simp_all add: zip_marks disj_assoc)

lemma knownAnswers_marks: "knownAnswers m ks l = map (\<lambda>a. list_ex (\<lambda>k. known_step m k a) ks) l"
  using known_fold [of m l ks "\<lambda>_. False"] by (simp add: knownAnswers_def map_replicate_const)

lemma chosen_marks:
  "chosen l (map f l) (map g l) (map h l) =
     map (\<lambda>a. \<lparr>Advert = a, ptr = f a \<and> \<not> h a, resolve = g a\<rparr>) (filter (\<lambda>a. f a \<and> \<not> h a \<or> g a) l)"
  unfolding chosen_def by (induction l) auto

text \<open>
  C14. A query is answered with the records it asks for and does not already know, to the asker alone exactly when
  every question of it that concerns this device says so.
\<close>

theorem wants_answers:
  "wants m (Some q) =
     (let host = (ip m \<noteq> None \<and> list_ex (asks_host m) (q_questions q)); rel = filter (relevant m) (q_questions q) in
      if \<not> q_response q \<and> q_whole q \<and> rel \<noteq> [] \<and> (0 < length (reply_for m q) \<or> host)
      then Some (\<lparr>adverts_out = reply_for m q, host = host, noHost = False\<rparr>, list_all wants_unicast rel)
      else None)"
proof -
  let ?l = "adverts m"
  let ?s0 = "nothing_asked (length ?l)"
  define t where "t = fold (question_step m ?l) (q_questions q) ?s0"
  have s0: "browse ?s0 = map (\<lambda>_. False) ?l" "resolves ?s0 = map (\<lambda>_. False) ?l"
    by (simp_all add: nothing_asked_def map_replicate_const)
  have t: "browse t = map (\<lambda>a. list_ex (\<lambda>x. asks_browse x a) (q_questions q)) ?l"
    "resolves t = map (\<lambda>a. list_ex (\<lambda>x. asks_resolve m x a) (q_questions q)) ?l"
    "ask_host t = (ip m \<noteq> None \<and> list_ex (asks_host m) (q_questions q))"
    "is_matched t = list_ex (relevant m) (q_questions q)"
    "ask_unicast t = list_ex (\<lambda>x. relevant m x \<and> wants_unicast x) (q_questions q)"
    "ask_multicast t = list_ex (\<lambda>x. relevant m x \<and> \<not> wants_unicast x) (q_questions q)"
    using questions_fold [OF s0, of m "q_questions q"]
    by (auto simp: Let_def t_def nothing_asked_def relevant_def [abs_def])
  have out: "chosen ?l (browse t) (resolves t) (knownAnswers m (q_answers q) ?l) = reply_for m q"
    by (simp add: t(1,2) knownAnswers_marks chosen_marks reply_for_def)
  have m: "is_matched t \<longleftrightarrow> filter (relevant m) (q_questions q) \<noteq> []"
    by (auto simp: t(4) filter_empty_conv list_ex_iff)
  have u: "is_matched t \<Longrightarrow> (ask_unicast t \<and> \<not> ask_multicast t) = list_all wants_unicast (filter (relevant m) (q_questions q))"
    by (auto simp: t(4-6) list_all_iff list_ex_iff)
  show ?thesis
    using m u unfolding wants_def t_def [symmetric] Let_def option.case out t(3) by auto
qed

text \<open>
  Splitting an answer over its two sections loses and repeats nothing: each service's SRV and TXT records
  are there once, its PTR record when it is asked for, and the host's address at most once.
\<close>

lemma concat_split:
  "mset (concat (map f (filter P xs))) + mset (concat (map f (filter (Not \<circ> P) xs))) = mset (concat (map f xs))"
  by (induction xs) auto

lemma answer_complete:
  "mset (answer_section m ttl s @ additional_section m ttl s) =
     mset (map (ptr_record m ttl \<circ> Advert) (filter ptr (adverts_out s)))
     + mset (concat (map (service_records m ttl (min ttl ttlHost) \<circ> Advert) (adverts_out s)))
     + mset (if host s \<or> \<not> noHost s then host_record m (min ttl ttlHost) else [])"
  using concat_split [of "service_records m ttl (min ttl ttlHost) \<circ> Advert" resolve "adverts_out s"]
  by (auto simp: answer_section_def additional_section_def ac_simps)

text \<open>A withdrawal has nothing in it but records that expire at once, and never the host's address.\<close>

lemma withdrawal_expires:
  "r \<in> set (answer_section m 0 (withdrawal_answer l) @ additional_section m 0 (withdrawal_answer l)) \<Longrightarrow>
     rr_ttl r = 0 \<and> rr_body r \<noteq> A a"
  by (auto simp: answer_section_def additional_section_def withdrawal_answer_def service_records_def ptr_record_def)

lemma announcement_ladder: "rungs m = None \<Longrightarrow> announceSchedule m = map (\<lambda>s. s * second) [1, 2, 4, 8, 16, 32]"
  by (simp add: announceSchedule_def announceRungs_def announceFirst_def upt_conv_Cons)

end
