(* ===== verification/Esp_Sync.thy ===== *)
theory Esp_Sync
  imports Esp_Server Mdns
begin

text \<open>
  The life of an API connection (\<open>serveConn\<close> of \<open>internal/esphome/server.go\<close>) and the server as a transition
  system, with what holds of every reachable state: the connections are few, and every subscriber has been told
  what was last published.
\<close>

section \<open>A connection's life\<close>

definition new_conn :: esp_conn where
  "new_conn = \<lparr>c_sent = [], c_taken = 0, c_states = False, c_services = False, c_said = '''', c_noted = None,
     c_failed = False\<rparr>"

definition esp_enter :: "nat \<Rightarrow> esp_server \<Rightarrow> esp_server option" where
  "esp_enter i s = (if esp_maxConns \<le> length (conns s) then None else Some (s\<lparr>conns := conns s @ [(i, new_conn)]\<rparr>))"

definition esp_leave :: "nat \<Rightarrow> esp_server \<Rightarrow> esp_server" where
  "esp_leave i s = s\<lparr>conns := filter (\<lambda>(j, c). j \<noteq> i) (conns s)\<rparr>"

definition put_conn :: "nat \<Rightarrow> esp_conn \<Rightarrow> esp_server \<Rightarrow> esp_server" where
  "put_conn i c s = s\<lparr>conns := map (\<lambda>(j, d). (j, if j = i then c else d)) (conns s)\<rparr>"

definition noteFrom :: "esp_conn \<Rightarrow> esp_conn \<times> string option \<times> esp_note option" where
  "noteFrom c = (c\<lparr>c_said := '''', c_noted := None\<rparr>, if c_said c = '''' then None else Some (c_said c), c_noted c)"

text \<open>The first byte: only an encrypted session goes on.\<close>

datatype first_look = PeekFailed | TriedPlaintext bytes | GoesOn

definition first_byte :: "byte option \<Rightarrow> first_look" where
  "first_byte lead =
     (case lead of None \<Rightarrow> PeekFailed
      | Some b \<Rightarrow> if b \<noteq> leadEncrypted then TriedPlaintext (noise_frame []) else GoesOn)"

definition pingAfter_esp :: duration where "pingAfter_esp = 60 * second"

definition readWait :: "duration \<Rightarrow> bool \<Rightarrow> duration" where
  "readWait pingWait pinged = (if pinged then go_div (pingWait * 3) 2 else pingWait)"

text \<open>A read ends with a message, with its deadline passed between two frames (\<open>resumable\<close>), or otherwise.\<close>

datatype read_result = GotMessage nat bytes | DeadlinePassed bool | ReadBroken

definition resumable :: "read_result \<Rightarrow> bool" where
  "resumable r = (case r of DeadlinePassed mid \<Rightarrow> \<not> mid | _ \<Rightarrow> False)"

datatype read_next = Handle nat bytes | SendPing | Leave

definition read_turn :: "bool \<Rightarrow> bool \<Rightarrow> read_result \<Rightarrow> read_next \<times> bool \<times> bool" where
  "read_turn decrypted pinged r =
     (case r of
        GotMessage t p \<Rightarrow> (Handle t p, True, False)
      | _ \<Rightarrow> if decrypted \<and> \<not> pinged \<and> resumable r then (SendPing, decrypted, True) else (Leave, decrypted, pinged))"

text \<open>How long a connection waits for the next read, from the deadline of its handshake or from now.\<close>

definition read_deadline :: "duration \<Rightarrow> time \<Rightarrow> bool \<Rightarrow> bool \<Rightarrow> time \<Rightarrow> time" where
  "read_deadline pingWait handshakeDeadline decrypted pinged now =
     (if decrypted then now + readWait pingWait pinged else handshakeDeadline)"

section \<open>Wiring and advertising\<close>

definition HasButton :: "string \<Rightarrow> bool" where
  "HasButton b \<longleftrightarrow> b \<in> set button_ids"

definition UseButton :: "string \<Rightarrow> bool \<Rightarrow> esp_server \<Rightarrow> esp_server" where
  "UseButton b settable s =
     (if HasButton b
      then s\<lparr>settable_modes := (if settable then [b] else []) @ filter (\<lambda>x. x \<noteq> b) (settable_modes s)\<rparr> else s)"

definition UseSendspin :: "bool \<Rightarrow> esp_server \<Rightarrow> esp_server" where
  "UseSendspin settable s = s\<lparr>can_sendspin := settable\<rparr>"

definition UseSendspinDelay :: "int \<Rightarrow> bool \<Rightarrow> esp_server \<Rightarrow> esp_server" where
  "UseSendspinDelay maxMS settable s = s\<lparr>delayMaxMS := maxMS, can_delay := settable\<rparr>"

definition UseVolumeSetter :: "bool \<Rightarrow> esp_server \<Rightarrow> esp_server" where
  "UseVolumeSetter present s = s\<lparr>can_volume := present\<rparr>"

definition UseMute :: "bool \<Rightarrow> esp_server \<Rightarrow> esp_server" where
  "UseMute present s = s\<lparr>can_mute := present\<rparr>"

definition NoteSendspin :: "esp_server \<Rightarrow> esp_server" where
  "NoteSendspin s = s\<lparr>liveWake := True\<rparr>"

definition noiseCipherName :: string where
  "noiseCipherName = ''Noise_NNpsk0_25519_ChaChaPoly_SHA256''"

definition esphome_service :: string where
  "esphome_service = ''_esphomelib._tcp.local.''"

definition esphome_advert :: "string \<Rightarrow> string \<Rightarrow> 16 word \<Rightarrow> advert" where
  "esphome_advert inst mac p =
     \<lparr>Service = esphome_service, Port = p,
      Records =
        [''mac='' @ to_lower (filter (\<lambda>c. c \<noteq> CHR '':'') mac), ''api_encryption='' @ noiseCipherName,
         ''version='' @ esphomeVersion, ''friendly_name='' @ inst, ''platform=overdub'', ''board=biscuit'',
         ''network=wifi'']\<rparr>"

section \<open>The server as a transition system\<close>

text \<open>
  Each rule is what one goroutine does under the lock: connections come, send messages and go; the writers
  drain the queues; readings are published and presses fired; the workers and the wiring change the rest. A
  message may still be handled for a connection that has been dropped. A connection whose message failed is
  about to leave.
\<close>

inductive esp_step :: "esp_server \<Rightarrow> esp_server \<Rightarrow> bool" where
  accept: "i \<notin> fst ` set (conns s) \<Longrightarrow> esp_enter i s = Some s' \<Longrightarrow> esp_step s s'"
| message: "map_of (conns s) i = Some c \<Longrightarrow> \<not> c_failed c \<Longrightarrow> set snapshot = ran (published s) \<Longrightarrow>
     handle E snapshot i t p c s = (err, c', s', calls) \<Longrightarrow>
     esp_step s (put_conn i (c'\<lparr>c_failed := (err \<noteq> None)\<rparr>) s')"
| orphan: "i \<notin> fst ` set (conns s) \<Longrightarrow> handle E snapshot i t p c s = (err, c', s', calls) \<Longrightarrow> esp_step s s'"
| noted: "map_of (conns s) i = Some c \<Longrightarrow> esp_step s (put_conn i (fst (noteFrom c)) s)"
| ping: "map_of (conns s) i = Some c \<Longrightarrow> send_all c [(msgPingRequest, [])] = (ok, c') \<Longrightarrow>
     esp_step s (put_conn i (c'\<lparr>c_failed := (c_failed c \<or> \<not> ok)\<rparr>) s)"
| leave: "esp_step s (esp_leave i s)"
| drain: "map_of (conns s) i = Some c \<Longrightarrow> esp_step s (put_conn i (c\<lparr>c_taken := c_taken c + n\<rparr>) s)"
| published: "publish rs s = (changed, failed, s') \<Longrightarrow> esp_step s s'"
| press: "FirePress b e n h s = (failed, s') \<Longrightarrow> esp_step s s'"
| forget: "esp_step s (forgetSound s)"
| play_wired: "esp_step s (snd (UsePlay b s))"
| command_wired: "esp_step s (snd (UseCommand b s))"
| button_wired: "esp_step s (UseButton b on s)"
| sendspin_wired: "esp_step s (UseSendspin on s)"
| delay_wired: "esp_step s (UseSendspinDelay ms on s)"
| sendspin_noted: "esp_step s (NoteSendspin s)"
| volume_wired: "esp_step s (UseVolumeSetter on s)"
| mute_wired: "esp_step s (UseMute on s)"
| other: "esp_step s (esp_other w s)"
| command_turn: "esp_step s (fst (command_take s))"
| command_run: "esp_step s (snd (command_done w s))"
| ticked: "esp_step s (snd (readTicked E s))"
| sound: "esp_step s (snd (readSound E s))"
| live: "esp_step s (snd (readLive E s))"

inductive_cases esp_stepE: "esp_step s s'"

section \<open>Subscribers are in step\<close>

definition state_types :: "nat list" where
  "state_types = [msgSensorState, msgBinarySensorState, msgSelectState, msgSwitchState, msgMediaPlayerState,
     msgTextState, msgTextSensorState, msgNumberState]"

text \<open>The entity a frame gives the state of.\<close>

definition frame_key :: "frame \<Rightarrow> 32 word option" where
  "frame_key f = (if fst f \<in> set state_types \<and> take 1 (snd f) = [0x0D] then Some (get_le (take 4 (drop 1 (snd f)))) else None)"

fun told :: "32 word \<Rightarrow> frame list \<Rightarrow> frame option" where
  "told k [] = None"
| "told k (f # fs) = (case told k fs of Some g \<Rightarrow> Some g | None \<Rightarrow> if frame_key f = Some k then Some f else None)"

lemma told_append: "told k (a @ b) = (case told k b of Some g \<Rightarrow> Some g | None \<Rightarrow> told k a)"
  by (induction a) (auto split: option.splits)

lemma told_none: "\<forall>f \<in> set fs. frame_key f = None \<Longrightarrow> told k fs = None"
  by (induction fs) auto

lemma fixed32_prefix: "pb_fixed32 [] (Suc 0) k = 0x0D # put_le 4 k"
  by (simp add: pb_fixed32_def pb_tag_def pb_key_def wireFixed32_def uvarint.simps)

lemma frame_key_prefix: "t \<in> set state_types \<Longrightarrow> frame_key (t, pb_fixed32 [] 1 k @ r) = Some k"
  by (simp add: frame_key_def fixed32_prefix)

lemma state_head:
  assumes "pb_fixed32 [] 1 k = h"
  shows "\<exists>x. textState k t b = h @ x" "\<exists>x. selectState k t = h @ x" "\<exists>x. switchState k b = h @ x"
    "\<exists>x. binaryState k b c = h @ x" "\<exists>x. floatState k v b = h @ x" "\<exists>x. mediaState k w v b = h @ x"
  unfolding textState_def selectState_def switchState_def binaryState_def floatState_def mediaState_def assms
  by (simp_all add: pb_boolean_def pb_str_def pb_float_def pb_fixed32_def pb_u32_def pb_tag_def)

lemma frame_key_state [simp]: "frame_key (state_frame r) = Some (key r)"
proof -
  have "\<exists>t x. state_frame r = (t, pb_fixed32 [] 1 (key r) @ x) \<and> t \<in> set state_types"
    using state_head [OF refl, of "key r"]
    by (cases "rkind r") (simp_all add: state_frame_def state_types_def)
  then show ?thesis using frame_key_prefix by metis
qed

definition shown :: "(32 word \<rightharpoonup> reading) \<Rightarrow> frame list \<Rightarrow> bool" where
  "shown p fs \<longleftrightarrow> (\<forall>k r. p k = Some r \<longrightarrow> told k fs = Some (state_frame r))"

definition keyed :: "(32 word \<rightharpoonup> reading) \<Rightarrow> bool" where
  "keyed p \<longleftrightarrow> (\<forall>k r. p k = Some r \<longrightarrow> key r = k)"

definition sync_inv :: "esp_server \<Rightarrow> bool" where
  "sync_inv s \<longleftrightarrow> keyed (published s) \<and> length (conns s) \<le> esp_maxConns \<and> distinct (map fst (conns s))
     \<and> (can_command s \<longrightarrow> published s keyText \<noteq> None)
     \<and> (\<forall>(i, c) \<in> set (conns s). c_states c \<and> \<not> c_failed c \<longrightarrow> shown (published s) (c_sent c))"

lemma shown_quiet: "shown p fs \<Longrightarrow> \<forall>f \<in> set gs. frame_key f = None \<Longrightarrow> shown p (fs @ gs)"
  by (simp add: shown_def told_append told_none)

lemma note_changed_shown:
  "note_changed rs p = (p', ch) \<Longrightarrow> keyed p \<Longrightarrow> keyed p' \<and> (shown p fs \<longrightarrow> shown p' (fs @ map state_frame ch))
     \<and> dom p \<subseteq> dom p' \<and> (ch = [] \<longrightarrow> p' = p)"
proof (induction rs arbitrary: p fs p' ch)
  case (Cons r rs)
  show ?case
  proof (cases "case p (key r) of Some was \<Rightarrow> same_reading was r | None \<Rightarrow> False")
    case True
    then show ?thesis using Cons by simp
  next
    case False
    then obtain ch1 where n: "note_changed rs (p(key r \<mapsto> r)) = (p', ch1)" "ch = r # ch1"
      using Cons.prems(1) by (auto split: prod.splits)
    have k: "keyed (p(key r \<mapsto> r))" using Cons.prems(2) by (simp add: keyed_def)
    have one: "shown (p(key r \<mapsto> r)) (fs @ [state_frame r])" if "shown p fs"
      using that by (auto simp: shown_def told_append)
    have ih: "keyed p'" "shown (p(key r \<mapsto> r)) (fs @ [state_frame r]) \<longrightarrow> shown p' ((fs @ [state_frame r]) @ map state_frame ch1)"
      "dom (p(key r \<mapsto> r)) \<subseteq> dom p'"
      using Cons.IH [OF n(1) k, of "fs @ [state_frame r]"] by blast+
    have "dom p \<subseteq> dom p'" using ih(3) by (simp only: dom_fun_upd option.distinct if_False) blast
    then show ?thesis using ih(1,2) one n(2) by simp
  qed
qed (simp add: shown_def)

lemma send_all_result:
  "send_all c fs = (ok, c') \<Longrightarrow> \<exists>gs. c' = c\<lparr>c_sent := c_sent c @ gs\<rparr> \<and> set gs \<subseteq> set fs \<and> (ok \<longrightarrow> gs = fs)"
proof (induction fs arbitrary: c)
  case (Cons f fs)
  show ?case
  proof (cases "esp_send c f")
    case None
    then show ?thesis using Cons.prems by (auto intro: exI [of _ "[]"])
  next
    case (Some c1)
    then have c1: "c1 = c\<lparr>c_sent := c_sent c @ [f]\<rparr>" by (auto simp: esp_send_def split: if_splits)
    obtain gs where "c' = c1\<lparr>c_sent := c_sent c1 @ gs\<rparr>" "set gs \<subseteq> set fs" "ok \<longrightarrow> gs = fs"
      using Cons.IH [of c1] Cons.prems Some by auto
    then show ?thesis using c1 by (intro exI [of _ "f # gs"]) auto
  qed
qed (auto intro: exI [of _ "[]"])

lemma send_all_fields:
  "send_all c fs = (ok, c') \<Longrightarrow> c_states c' = c_states c \<and> c_failed c' = c_failed c \<and> c_services c' = c_services c"
  using send_all_result [of c fs ok c'] by auto

lemma eachConn_sub:
  "eachConn w f cs = (cs', failed) \<Longrightarrow>
     (\<forall>(i, c') \<in> set cs'. \<exists>c. (i, c) \<in> set cs \<and> (\<not> w c \<and> c' = c \<or> w c \<and> f c = (True, c')))
     \<and> length cs' \<le> length cs \<and> (distinct (map fst cs) \<longrightarrow> distinct (map fst cs')) \<and> set (map fst cs') \<subseteq> set (map fst cs)"
proof (induction cs arbitrary: cs' failed)
  case (Cons x cs)
  obtain i c where x: "x = (i, c)" by fastforce
  obtain ds fl where r: "eachConn w f cs = (ds, fl)" by fastforce
  have "cs' = (if \<not> w c then [(i, c)] else (case f c of (ok, c') \<Rightarrow> if ok then [(i, c')] else [])) @ ds"
    using Cons.prems r by (simp add: eachConn_def x)
  with Cons.IH [OF r] show ?case
    by (cases "f c") (auto simp: x split: if_splits)
qed (simp add: eachConn_def)

lemma sync_publish:
  assumes "sync_inv s" "publish rs s = (changed, failed, s')"
  shows "sync_inv s'"
proof -
  obtain p ch where n: "note_changed rs (published s) = (p, ch)" by fastforce
  have k: "keyed (published s)" using assms(1) by (simp add: sync_inv_def)
  note nc = note_changed_shown [OF n k]
  show ?thesis
  proof (cases "ch = []")
    case True
    then have "s' = s" using assms(2) n nc by (auto simp: publish_def)
    then show ?thesis using assms(1) by simp
  next
    case False
    obtain cs fl where e: "eachConn c_states (sendSensorsAt ch) (conns s) = (cs, fl)" by fastforce
    have s': "s' = s\<lparr>published := p, conns := cs\<rparr>" using assms(2) n e False by (simp add: publish_def)
    note sub = eachConn_sub [OF e]
    have "shown p (c_sent c')" if c': "(i, c') \<in> set cs" "c_states c'" "\<not> c_failed c'" for i c'
    proof -
      obtain c where c: "(i, c) \<in> set (conns s)" "\<not> c_states c \<and> c' = c \<or> c_states c \<and> sendSensorsAt ch c = (True, c')"
        using sub c'(1) by fastforce
      then have snd: "send_all c (map state_frame ch) = (True, c')" "c_states c"
        using c'(2) by (auto simp: sendSensorsAt_def)
      then have f: "c_sent c' = c_sent c @ map state_frame ch" "c_failed c' = c_failed c"
        using send_all_result [OF snd(1)] by auto
      have "shown (published s) (c_sent c)"
        using assms(1) c(1) snd(2) c'(3) f(2) by (auto simp: sync_inv_def)
      then show ?thesis using nc f(1) by simp
    qed
    then have told: "\<forall>(i, c) \<in> set cs. c_states c \<and> \<not> c_failed c \<longrightarrow> shown p (c_sent c)" by auto
    have kept: "keyed p" "published s keyText \<noteq> None \<Longrightarrow> p keyText \<noteq> None" using nc by blast+
    have "length cs \<le> esp_maxConns" "distinct (map fst cs)" "can_command s \<longrightarrow> p keyText \<noteq> None"
      using sub assms(1) kept(2) by (auto simp: sync_inv_def)
    then show ?thesis using told kept(1) by (simp add: sync_inv_def s')
  qed
qed


section \<open>What a message changes of it\<close>

definition core :: "esp_server \<Rightarrow> (32 word \<rightharpoonup> reading) \<times> (nat \<times> esp_conn) list \<times> bool" where
  "core s = (published s, conns s, can_command s)"

definition quiet :: "esp_conn \<Rightarrow> esp_conn \<Rightarrow> bool" where
  "quiet c c' \<longleftrightarrow> c_states c' = c_states c
     \<and> (\<exists>gs. c_sent c' = c_sent c @ gs \<and> (\<forall>f \<in> set gs. frame_key f = None))"

lemma quiet_refl [simp]: "quiet c c" "quiet c (c\<lparr>c_said := x\<rparr>)" "quiet c (c\<lparr>c_services := b\<rparr>)" "quiet c (note_on c n)"
  by (auto simp: quiet_def note_on_def split: option.splits)

lemma quiet_trans: "quiet a b \<Longrightarrow> quiet b c \<Longrightarrow> quiet a c"
  unfolding quiet_def by (metis append_assoc set_append UnE)

lemma quiet_note: "quiet c (note_on (note_on c n) m)"
  by (rule quiet_trans [of _ "note_on c n"]) simp_all

lemma quiet_send: "\<forall>f \<in> set fs. frame_key f = None \<Longrightarrow> quiet c (snd (send_all c fs))"
  using send_all_result [of c fs "fst (send_all c fs)" "snd (send_all c fs)"] unfolding quiet_def by fastforce

lemma quiet_reply: "\<forall>f \<in> set fs. frame_key f = None \<Longrightarrow> reply c fs = (e, c') \<Longrightarrow> quiet c c'"
  using quiet_send [of fs c] by (auto simp: reply_def split: prod.splits)

lemma frame_key_other [simp]: "t \<notin> set state_types \<Longrightarrow> frame_key (t, x) = None"
  by (simp add: frame_key_def)

lemmas msg_nums = state_types_def state_msgs msgListBinarySensor_def msgListSensor_def msgListSwitch_def
  msgListTextSensor_def msgListEntitiesDone_def msgListService_def msgListNumber_def msgListSelect_def
  msgListMediaPlayer_def msgListText_def msgListEvent_def msgHelloResponse_def msgConnectResponse_def
  msgDisconnectResp_def msgPingRequest_def msgPingResponse_def msgDeviceInfoResp_def msgEventState_def
  msgHomeassistantAct_def

lemma entity_frames_quiet: "\<forall>f \<in> set (entity_frames a b d s). frame_key f = None"
  by (auto simp: entity_frames_def list_button_def list_speaker_def list_sensor_def list_binary_def list_mic_def
      list_sendspin_def list_delay_def list_mode_def list_adb_def list_text_sensor_def list_command_def msg_nums
      split: prod.splits if_splits)

lemma core_requests:
  "playLocked u a s = (n1, s1, sp1) \<Longrightarrow> core s1 = core s"
  "commandLocked r s = (n2, s1, sp1) \<Longrightarrow> core s1 = core s"
  "setMuteLocked on s = (n3, s1, sp1) \<Longrightarrow> core s1 = core s"
  "setVolumeLocked w s = (n4, s1, sp1) \<Longrightarrow> core s1 = core s"
  "setADBLocked b choice s = (n5, s1, sp1) \<Longrightarrow> core s1 = core s"
  "setMicLocked on s = (n6, s1, sp1) \<Longrightarrow> core s1 = core s"
  "setModeLocked E bt choice s = (n7, s1, cs) \<Longrightarrow> core s1 = core s"
  "setDelayLocked E v s = (n8, s1, cs) \<Longrightarrow> core s1 = core s"
  by (auto simp: core_def playLocked_def queuePlay_def commandLocked_def queueCommand_def setMuteLocked_def
      queueMuteLocked_def setVolumeLocked_def queueVolumeLocked_def setADBLocked_def setMicLocked_def
      setModeLocked_def setDelayLocked_def Let_def split: if_splits option.splits prod.splits)

lemma core_media: "media_command fs s = (n, s', calls) \<Longrightarrow> core s' = core s"
  by (auto simp: media_command_def Let_def split: prod.splits if_splits dest: core_requests)

definition handled_ok :: "reading list \<Rightarrow> esp_conn \<Rightarrow> esp_server \<Rightarrow> handled \<Rightarrow> bool" where
  "handled_ok snapshot c s h \<longleftrightarrow>
     (case h of (err, c', s', calls) \<Rightarrow> core s' = core s
        \<and> (quiet c c' \<or> c_states c' \<and> (err = None \<longrightarrow> c_sent c' = c_sent c @ map state_frame snapshot)))"

lemma handled_text: "handled_ok snapshot c s (handle_text p c s)"
  by (auto simp: handled_ok_def handle_text_def split: sum.splits prod.splits dest: core_requests)

lemma handled_service: "handled_ok snapshot c s (handle_service p c s)"
  by (auto simp: handled_ok_def handle_service_def split: sum.splits prod.splits option.splits dest: core_requests)

lemma handled_select: "handled_ok snapshot c s (handle_select E p c s)"
  by (auto simp: handled_ok_def handle_select_def split: sum.splits prod.splits option.splits dest: core_requests)

lemma handled_number: "handled_ok snapshot c s (handle_number E p c s)"
  by (auto simp: handled_ok_def handle_number_def Let_def split: sum.splits prod.splits dest: core_requests)

lemma handled_switch: "handled_ok snapshot c s (handle_switch p c s)"
  by (auto simp: handled_ok_def handle_switch_def Let_def quiet_note split: sum.splits prod.splits if_splits
      dest: core_requests)

lemma handled_media: "handled_ok snapshot c s (handle_media p c s)"
  by (auto simp: handled_ok_def handle_media_def split: sum.splits prod.splits dest: core_media)

lemma handled_hello: "handled_ok snapshot c s (handle_hello p c s)"
proof (cases "walk ''HelloRequest'' p")
  case (Inr fs)
  let ?c = "c\<lparr>c_said := Cut (field_str 1 fs)\<rparr>"
  let ?f = "[(msgHelloResponse, pb_str (pb_str (pb_u32 (pb_u32 [] 1 1) 2 12) 3 ''overdub'') 4 (s_name s))]"
  obtain e c' where r: "reply ?c ?f = (e, c')" by fastforce
  have "quiet ?c c'" using quiet_reply [OF _ r] by (simp add: msg_nums)
  then have "quiet c c'" using quiet_trans [of c ?c c'] by simp
  then show ?thesis using Inr r by (simp add: handled_ok_def handle_hello_def)
qed (simp add: handled_ok_def handle_hello_def)

lemma handled_subscribe: "handled_ok snapshot c s (handle_subscribe snapshot i c s)"
proof -
  obtain ok c' where r: "sendSensorsAt snapshot (c\<lparr>c_states := True\<rparr>) = (ok, c')" by fastforce
  then have "send_all (c\<lparr>c_states := True\<rparr>) (map state_frame snapshot) = (ok, c')" by (simp add: sendSensorsAt_def)
  from send_all_result [OF this] have "c_states c'" "ok \<longrightarrow> c_sent c' = c_sent c @ map state_frame snapshot"
    by auto
  then show ?thesis using r by (cases ok) (auto simp: handled_ok_def handle_subscribe_def core_def)
qed

lemma handled_reply:
  "\<forall>f \<in> set fs. frame_key f = None \<Longrightarrow> handled_ok snapshot c s (sending (reply c fs) s)"
  using quiet_reply [of fs c] by (cases "reply c fs") (auto simp: handled_ok_def sending_def)

lemma handled_list:
  "handled_ok snapshot c s (case listEntities E s c of (ok, c') \<Rightarrow> (if ok then None else Some QueueFull, c', s, []))"
  using quiet_send [OF entity_frames_quiet, of c "e_secure E" "e_sendspin E \<noteq> None" "e_delay E \<noteq> None" s]
  by (auto simp: handled_ok_def listEntities_def split: prod.splits)

lemma handled_goodbye:
  "handled_ok snapshot c s (Some AskedToDisconnect, snd (send_all c [(msgDisconnectResp, [])]), s, [])"
  using quiet_send [of "[(msgDisconnectResp, [])]" c] by (simp add: handled_ok_def msg_nums)

lemma handled_if: "handled_ok sn c s x \<Longrightarrow> handled_ok sn c s y \<Longrightarrow> handled_ok sn c s (if b then x else y)"
  by simp

lemma handled_none: "handled_ok sn c s (None, c\<lparr>c_services := True\<rparr>, s, [])" "handled_ok sn c s (None, c, s, [])"
  by (simp_all add: handled_ok_def)

lemma handle_ok: "handled_ok snapshot c s (handle E snapshot i t p c s)"
  unfolding handle_def
  by (intro handled_if handled_hello handled_list handled_subscribe handled_text handled_service
      handled_goodbye handled_select handled_number handled_switch handled_media handled_reply handled_none)
    (simp_all add: msg_nums)


section \<open>Every step keeps the subscribers in step\<close>

lemma told_readings:
  "r \<in> set rs \<Longrightarrow> \<forall>x \<in> set rs. key x = key r \<longrightarrow> x = r \<Longrightarrow> told (key r) (map state_frame rs) = Some (state_frame r)"
proof (induction rs)
  case (Cons a rs)
  show ?case
  proof (cases "r \<in> set rs")
    case True
    then show ?thesis using Cons by simp
  next
    case False
    then have "a = r" "told (key r) (map state_frame rs) = None"
    proof -
      show "a = r" using False Cons.prems by simp
      show "told (key r) (map state_frame rs) = None"
        using False Cons.prems(2) by (induction rs) auto
    qed
    then show ?thesis by simp
  qed
qed simp

lemma snapshot_shown:
  assumes "keyed p" "set snapshot = ran p"
  shows "shown p (fs @ map state_frame snapshot)"
proof -
  have "told k (map state_frame snapshot) = Some (state_frame r)" if "p k = Some r" for k r
  proof -
    have k: "key r = k" using assms(1) that by (simp add: keyed_def)
    have "r \<in> set snapshot" using assms(2) that by (auto simp: ran_def)
    moreover have "\<forall>x \<in> set snapshot. key x = key r \<longrightarrow> x = r"
    proof (intro ballI impI)
      fix x assume "x \<in> set snapshot" "key x = key r"
      then obtain k' where "p k' = Some x" using assms(2) by (auto simp: ran_def)
      then show "x = r" using assms(1) that \<open>key x = key r\<close> k unfolding keyed_def by (metis option.inject)
    qed
    ultimately have "told (key r) (map state_frame snapshot) = Some (state_frame r)" by (rule told_readings)
    then show ?thesis using k by simp
  qed
  then show ?thesis by (simp add: shown_def told_append)
qed

lemma sync_invD:
  "sync_inv s \<Longrightarrow> map_of (conns s) i = Some c \<Longrightarrow> c_states c \<Longrightarrow> \<not> c_failed c \<Longrightarrow> shown (published s) (c_sent c)"
  unfolding sync_inv_def by (auto dest: map_of_SomeD)

lemma sync_put:
  assumes "sync_inv s" "c_states c' \<and> \<not> c_failed c' \<longrightarrow> shown (published s) (c_sent c')"
  shows "sync_inv (put_conn i c' s)"
proof -
  let ?s = "put_conn i c' s"
  have same: "published ?s = published s" "can_command ?s = can_command s" "map fst (conns ?s) = map fst (conns s)"
    "length (conns ?s) = length (conns s)"
    by (auto simp: put_conn_def)
  have "shown (published s) (c_sent d)" if d: "(j, d) \<in> set (conns ?s)" "c_states d" "\<not> c_failed d" for j d
  proof (cases "j = i")
    case True
    then have "d = c'" using d(1) by (auto simp: put_conn_def split: if_splits)
    then show ?thesis using assms(2) d by simp
  next
    case False
    then have "(j, d) \<in> set (conns s)" using d(1) by (auto simp: put_conn_def split: if_splits)
    then show ?thesis using assms(1) d(2,3) unfolding sync_inv_def by blast
  qed
  then show ?thesis using assms(1) unfolding sync_inv_def same by blast
qed

lemma sync_core: "sync_inv s \<Longrightarrow> core s' = core s \<Longrightarrow> sync_inv s'"
  by (simp add: sync_inv_def core_def)

lemma quiet_shown: "quiet c c' \<Longrightarrow> shown p (c_sent c) \<Longrightarrow> shown p (c_sent c')"
  unfolding quiet_def by (elim conjE exE) (simp only: shown_quiet)

lemma sync_handle:
  assumes "sync_inv s" "map_of (conns s) i = Some c" "\<not> c_failed c" "set snapshot = ran (published s)"
    "handle E snapshot i t p c s = (err, c', s', calls)"
  shows "sync_inv (put_conn i (c'\<lparr>c_failed := (err \<noteq> None)\<rparr>) s')"
proof -
  have h: "core s' = core s" "quiet c c' \<or> c_states c' \<and> (err = None \<longrightarrow> c_sent c' = c_sent c @ map state_frame snapshot)"
    using handle_ok [of snapshot c s E i t p] assms(5) by (simp_all add: handled_ok_def)
  have "published s' = published s" using h(1) by (simp add: core_def)
  moreover have "keyed (published s)" using assms(1) by (simp add: sync_inv_def)
  moreover have "shown (published s) (c_sent c')" if "quiet c c'" "c_states c'"
    using that sync_invD [OF assms(1,2) _ assms(3)] quiet_shown by (auto simp: quiet_def)
  ultimately show ?thesis
    using h(2) snapshot_shown [OF _ assms(4)] by (intro sync_put [OF sync_core [OF assms(1) h(1)]]) auto
qed

lemma sync_each:
  assumes "sync_inv s" "eachConn w f (conns s) = (cs, failed)"
    "\<And>c c'. f c = (True, c') \<Longrightarrow> quiet c c' \<and> c_failed c' = c_failed c"
  shows "sync_inv (s\<lparr>conns := cs\<rparr>)"
proof -
  note sub = eachConn_sub [OF assms(2)]
  have "shown (published s) (c_sent c')" if c': "(i, c') \<in> set cs" "c_states c'" "\<not> c_failed c'" for i c'
  proof -
    obtain c where c: "(i, c) \<in> set (conns s)" "\<not> w c \<and> c' = c \<or> w c \<and> f c = (True, c')"
      using sub c'(1) by fastforce
    then have q: "quiet c c'" "c_failed c' = c_failed c" using assms(3) by auto
    then have "shown (published s) (c_sent c)"
      using assms(1) c(1) c'(2,3) by (auto simp: sync_inv_def quiet_def)
    then show ?thesis using q(1) quiet_shown by blast
  qed
  then have "\<forall>(i, c) \<in> set cs. c_states c \<and> \<not> c_failed c \<longrightarrow> shown (published s) (c_sent c)" by auto
  then show ?thesis using assms(1) sub by (auto simp: sync_inv_def)
qed

lemma send_one_quiet:
  "frame_key f = None \<Longrightarrow> send_all c [f] = (ok, c') \<Longrightarrow> quiet c c' \<and> c_failed c' = c_failed c"
  using quiet_send [of "[f]" c] send_all_fields [of c "[f]" ok c'] by simp

lemma sync_press: "sync_inv s \<Longrightarrow> FirePress b e n h s = (failed, s') \<Longrightarrow> sync_inv s'"
proof -
  assume a: "sync_inv s" "FirePress b e n h s = (failed, s')"
  let ?f = "\<lambda>c. send_all c [(msgEventState, press_event b e)]"
  let ?g = "\<lambda>c. send_all c [(msgHomeassistantAct, press_action (s_name s) b e n h)]"
  obtain cs fl where one: "eachConn c_states ?f (conns s) = (cs, fl)" by fastforce
  obtain ds fm where two: "eachConn c_services ?g cs = (ds, fm)" by fastforce
  have fq: "frame_key (msgEventState, x) = None" "frame_key (msgHomeassistantAct, x) = None" for x
    by (simp_all add: msg_nums)
  have "sync_inv (s\<lparr>conns := cs\<rparr>)" by (rule sync_each [OF a(1) one]) (rule send_one_quiet [OF fq(1)])
  then have "sync_inv (s\<lparr>conns := cs\<rparr>\<lparr>conns := ds\<rparr>)"
  proof (rule sync_each [where w = c_services and f = ?g and failed = fm])
    show "eachConn c_services ?g (conns (s\<lparr>conns := cs\<rparr>)) = (ds, fm)" using two by simp
  qed (rule send_one_quiet [OF fq(2)])
  then show "sync_inv s'" using a one two by (auto simp: FirePress_def split: if_splits)
qed

lemma sync_enter: "sync_inv s \<Longrightarrow> i \<notin> fst ` set (conns s) \<Longrightarrow> esp_enter i s = Some s' \<Longrightarrow> sync_inv s'"
  by (auto simp: esp_enter_def sync_inv_def new_conn_def split: if_splits)

lemma sync_leave: "sync_inv s \<Longrightarrow> sync_inv (esp_leave i s)"
proof -
  assume a: "sync_inv s"
  have "length (filter (\<lambda>(j, c). j \<noteq> i) (conns s)) \<le> esp_maxConns"
    by (rule le_trans [OF length_filter_le]) (use a in \<open>simp add: sync_inv_def\<close>)
  moreover have "distinct (map fst (filter (\<lambda>(j, c). j \<noteq> i) (conns s)))"
    using a by (simp add: sync_inv_def distinct_map_filter)
  ultimately show ?thesis using a by (auto simp: sync_inv_def esp_leave_def)
qed

lemma keySound_not_text: "keySound \<noteq> keyText"
  by (simp add: keySound_def keyText_def) code_simp

lemma sync_forget: "sync_inv s \<Longrightarrow> sync_inv (forgetSound s)"
  using keySound_not_text by (auto simp: sync_inv_def forgetSound_def keyed_def shown_def split: prod.splits)

lemma sync_wired: "sync_inv s \<Longrightarrow> sync_inv (snd (UsePlay b s))" "sync_inv s \<Longrightarrow> sync_inv (snd (UseCommand b s))"
  by (auto simp: sync_inv_def UsePlay_def UseCommand_def Let_def keyed_def text_box_def)

lemma sync_other: "sync_inv s \<Longrightarrow> sync_inv (esp_other w s)"
proof (cases w)
  case (WorkPublish rs)
  assume "sync_inv s"
  then show ?thesis using sync_publish WorkPublish by (cases "publish rs s") auto
qed (auto elim!: sync_core simp: core_def NotePlayback_def setADBMode_def adbObserved_def setMic_def micObserved_def
    wake_live_def Let_def split: prod.splits)

lemma core_reads:
  "core (fst (command_take s)) = core s" "core (snd (readTicked E s)) = core s" "core (snd (readSound E s)) = core s"
  "core (snd (readLive E s)) = core s"
  by (auto simp: core_def command_take_def readTicked_def readSound_def sound_heard_def readLive_def adbObserved_def
      micObserved_def routeObserved_def Let_def split: prod.splits option.splits list.splits)

lemma core_wired:
  "core (UseButton b on s) = core s" "core (UseSendspin on s) = core s" "core (UseSendspinDelay ms on s) = core s"
  "core (NoteSendspin s) = core s" "core (UseVolumeSetter on s) = core s" "core (UseMute on s) = core s"
  by (simp_all add: core_def UseButton_def UseSendspin_def UseSendspinDelay_def NoteSendspin_def UseVolumeSetter_def
      UseMute_def)

lemma sync_step: "esp_step s s' \<Longrightarrow> sync_inv s \<Longrightarrow> sync_inv s'"
proof (induction rule: esp_step.induct)
  case (message s i c snapshot E t p err c' s' calls)
  then show ?case using sync_handle by blast
next
  case (orphan i s E snapshot t p c err c' s' calls)
  then show ?case using handle_ok [of snapshot c s E i t p] by (auto simp: handled_ok_def elim: sync_core)
next
  case (noted s i c)
  then show ?case by (intro sync_put) (auto simp: noteFrom_def dest: sync_invD)
next
  case (ping s i c ok c')
  have "frame_key (msgPingRequest, []) = None" by (simp add: msg_nums)
  from send_one_quiet [OF this ping(2)] have q: "quiet c c'" by simp
  have "shown (published s) (c_sent c')" if "c_states c'" "\<not> c_failed c"
    using quiet_shown [OF q] sync_invD [OF ping(3,1) _ that(2)] that(1) q by (simp add: quiet_def)
  then show ?case using ping by (intro sync_put) auto
next
  case (drain s i c n)
  then show ?case by (intro sync_put) (auto dest: sync_invD)
next
  case (command_run s w)
  then show ?case using sync_publish by (auto simp: command_done_def split: prod.splits)
qed (auto intro: sync_enter sync_leave sync_publish sync_press sync_forget sync_wired sync_other sync_core core_reads core_wired)


text \<open>
  C16. However connections, messages, workers and polls interleave, a connection that subscribed to the states, and
  whose queue has not overflowed, has last been told of every entity exactly what was last published of it; and
  there are never more connections than the limit.
\<close>

theorem subscribers_in_step:
  assumes "esp_step\<^sup>*\<^sup>* (NewServer name model version mac) s" "(i, c) \<in> set (conns s)" "c_states c" "\<not> c_failed c"
    "published s k = Some r"
  shows "told k (c_sent c) = Some (state_frame r) \<and> length (conns s) \<le> esp_maxConns"
proof -
  have "sync_inv (NewServer name model version mac)" by (simp add: sync_inv_def NewServer_def keyed_def)
  then have "sync_inv s" by (rule rtranclp_induct [OF assms(1)]) (rule sync_step)
  then show ?thesis using assms(2-5) unfolding sync_inv_def shown_def by blast
qed

definition demo_subscribed :: esp_conn where
  "demo_subscribed = new_conn\<lparr>c_states := True\<rparr>"

text \<open>A connection comes, subscribes, and a reading is published.\<close>

theorem subscribers_in_step_witness:
  "\<exists>s (c :: esp_conn). esp_step\<^sup>*\<^sup>* (NewServer ''d'' ''m'' '''' '''') s \<and> published s keyText = Some text_box
     \<and> told keyText (c_sent c) = Some (state_frame text_box)"
proof -
  let ?s0 = "NewServer ''d'' ''m'' '''' ''''"
  let ?s1 = "?s0\<lparr>conns := [(0, new_conn)]\<rparr>"
  let ?s2 = "?s0\<lparr>conns := [(0, demo_subscribed)], liveWake := True, sensorWake := True\<rparr>"
  let ?c = "demo_subscribed\<lparr>c_sent := [state_frame text_box]\<rparr>"
  let ?s3 = "?s2\<lparr>published := [keyText \<mapsto> text_box], conns := [(0, ?c)]\<rparr>"
  have a: "esp_step ?s0 ?s1"
    by (rule accept [of 0]) (simp_all add: NewServer_def esp_enter_def esp_maxConns_def)
  have h: "handle (quiet_env 0 False) [] 0 msgSubscribeStates [] new_conn ?s1
      = (None, demo_subscribed, ?s1\<lparr>liveWake := True, sensorWake := True\<rparr>, [])"
    by (simp add: handle_def handle_subscribe_def sendSensorsAt_def demo_subscribed_def new_conn_def
        stateSubscriberBesides_def msgSubscribeStates_def msgHelloRequest_def msgConnectRequest_def
        msgPingRequest_def msgDeviceInfoRequest_def msgListEntitiesReq_def)
  have put: "put_conn 0 (demo_subscribed\<lparr>c_failed := (None \<noteq> (None :: esp_error option))\<rparr>)
      (?s1\<lparr>liveWake := True, sensorWake := True\<rparr>) = ?s2"
    by (simp add: put_conn_def demo_subscribed_def new_conn_def NewServer_def)
  have b: "esp_step ?s1 ?s2"
    using message [of ?s1 0 new_conn "[]", OF _ _ _ h] by (simp only: put) (simp add: NewServer_def new_conn_def)
  have "publish [text_box] ?s2 = ([text_box], [], ?s3)"
    by (simp add: publish_def NewServer_def eachConn_def sendSensorsAt_def esp_send_def demo_subscribed_def new_conn_def
        sendQueue_def text_box_def)
  then have c: "esp_step ?s2 ?s3" by (rule published)
  have r: "esp_step\<^sup>*\<^sup>* ?s0 ?s3" using a b c by (meson rtranclp.rtrancl_into_rtrancl rtranclp.rtrancl_refl)
  have "told keyText (c_sent ?c) = Some (state_frame text_box)"
    using subscribers_in_step [OF r, of 0 ?c keyText text_box] by (simp add: demo_subscribed_def new_conn_def)
  moreover have "published ?s3 keyText = Some text_box" by simp
  ultimately show ?thesis using r by (intro exI [of _ ?s3] exI [of _ ?c] conjI)
qed

end
