(* ===== verification/Esp_Types.thy ===== *)
theory Esp_Types
  imports Esp_Sync
begin

text \<open>
  The entities the api lists and the states it sends, held against each other as what they are on the wire: each message
  is read back with \<open>pbWalk\<close>, and the type and the key of a state are those of an entity in the list.
\<close>

section \<open>Keys on the wire\<close>

text \<open>The key a message carries in a field, as a reader finds it; \<open>None\<close> when it carries none there.\<close>

definition key_at :: "nat \<Rightarrow> bytes \<Rightarrow> 32 word option" where
  "key_at n m =
     (case find (\<lambda>f. field f = n \<and> wire f = wireFixed32) (fst (pbWalk m)) of
        None \<Rightarrow> None | Some f \<Rightarrow> Some (ucast (num f)))"

lemma pb_str_walk:
  assumes "f < 2 ^ 29" "length s < 2 ^ 64"
  shows "fst (pbWalk (pb_str [] f s @ r)) = \<lparr>field = f, wire = wireBytes, num = 0, data = str_bytes s\<rparr> # fst (pbWalk r)"
proof -
  let ?e = "\<lparr>field = f, wire = wireBytes, num = 0, data = str_bytes s\<rparr>"
  have "pb_str [] f s = enc_field ?e" by (simp add: enc_field_def pb_str_def pb_sub_def str_bytes_def)
  moreover have "pb_ok ?e" using assms by (simp add: pb_ok_def str_bytes_def)
  ultimately show ?thesis by (simp add: pbWalk_enc split: prod.split)
qed

lemma pb_fixed_walk:
  assumes "f < 2 ^ 29"
  shows "fst (pbWalk (pb_fixed32 [] f k @ r)) = \<lparr>field = f, wire = wireFixed32, num = ucast k, data = []\<rparr> # fst (pbWalk r)"
proof -
  let ?e = "\<lparr>field = f, wire = wireFixed32, num = ucast k :: 64 word, data = []\<rparr>"
  have k: "ucast (ucast k :: 64 word) = k"
    by (rule bit_word_eqI) (simp add: bit_simps)
  have "unat (ucast k :: 64 word) < 2 ^ 32"
    using unsigned_less [of k, where ?'a = nat] by (simp add: unsigned_ucast_eq unsigned_take_bit_eq take_bit_nat_eq_self)
  then have "pb_ok ?e" using assms by (simp add: pb_ok_def)
  moreover have "pb_fixed32 [] f k = enc_field ?e" by (simp add: enc_field_def k)
  ultimately show ?thesis by (simp add: pbWalk_enc split: prod.split)
qed

lemma key_at_first: "f < 2 ^ 29 \<Longrightarrow> key_at f (pb_fixed32 [] f k @ r) = Some k"
  by (simp add: key_at_def pb_fixed_walk) (rule bit_word_eqI, simp add: bit_simps)

lemma fixed_append: "pb_fixed32 p f k = p @ pb_fixed32 [] f k"
  by (simp add: pb_fixed32_def pb_tag_def)

lemma key_at_second:
  "f < 2 ^ 29 \<Longrightarrow> g < 2 ^ 29 \<Longrightarrow> length s < 2 ^ 64 \<Longrightarrow> key_at f (pb_fixed32 (pb_str [] g s) f k @ r) = Some k"
  using key_at_first [of f k r]
  by (simp add: fixed_append [of "pb_str [] g s"] key_at_def pb_str_walk)

section \<open>Messages that begin with a key\<close>

definition headed :: "string \<Rightarrow> bytes \<Rightarrow> bool" where
  "headed object m \<longleftrightarrow> (\<exists>r. m = pb_fixed32 (pb_str [] 1 object) 2 (entityKey object) @ r)"

definition keyed :: "32 word \<Rightarrow> bytes \<Rightarrow> bool" where
  "keyed k m \<longleftrightarrow> (\<exists>r. m = pb_fixed32 [] 1 k @ r)"

lemma writers_append:
  "\<exists>r. pb_str p f s = p @ r" "\<exists>r. pb_boolean p f b = p @ r" "\<exists>r. pb_u32 p f v = p @ r" "\<exists>r. pb_sub p f m = p @ r"
  "\<exists>r. pb_float p f x = p @ r"
  by (auto simp: pb_str_def pb_boolean_def pb_u32_def pb_sub_def pb_float_def pb_fixed32_def pb_tag_def)

lemma headed_writers [intro!]:
  "headed object (entity_head object name)"
  "headed object p \<Longrightarrow> headed object (pb_str p f s)"
  "headed object p \<Longrightarrow> headed object (pb_boolean p f b)"
  "headed object p \<Longrightarrow> headed object (pb_u32 p f v)"
  "headed object p \<Longrightarrow> headed object (pb_float p f x)"
  using writers_append unfolding headed_def entity_head_def by (metis append.assoc)+

lemma headed_foldl [intro!]: "headed object p \<Longrightarrow> headed object (foldl (\<lambda>p e. pb_str p f e) p es)"
  by (induction es arbitrary: p) auto

lemma keyed_writers [intro!]:
  "keyed k (pb_fixed32 [] 1 k)"
  "keyed k p \<Longrightarrow> keyed k (pb_str p f s)"
  "keyed k p \<Longrightarrow> keyed k (pb_boolean p f b)"
  "keyed k p \<Longrightarrow> keyed k (pb_u32 p f v)"
  "keyed k p \<Longrightarrow> keyed k (pb_float p f x)"
  using writers_append unfolding keyed_def by (metis append.assoc append_Nil2)+

lemma headed_key: "headed object m \<Longrightarrow> length object < 2 ^ 64 \<Longrightarrow> key_at 2 m = Some (entityKey object)"
  by (auto simp: headed_def key_at_second)

lemma keyed_key: "keyed k m \<Longrightarrow> key_at 1 m = Some k"
  by (auto simp: keyed_def key_at_first)

lemma state_frame_keyed: "keyed (key r) (snd (state_frame r))"
  unfolding state_frame_def floatState_def binaryState_def selectState_def switchState_def mediaState_def textState_def
  by (cases "rkind r"; simp only: reading_kind.case snd_conv; intro keyed_writers)

text \<open>The type of the states of an entity listed with a given type.\<close>

definition state_type :: "nat \<Rightarrow> nat option" where
  "state_type listed = map_of
     [(msgListBinarySensor, msgBinarySensorState), (msgListSensor, msgSensorState), (msgListSwitch, msgSwitchState),
      (msgListTextSensor, msgTextSensorState), (msgListNumber, msgNumberState), (msgListSelect, msgSelectState),
      (msgListMediaPlayer, msgMediaPlayerState), (msgListText, msgTextState)] listed"

text \<open>A state is of an entity that is listed: its type goes with the entity's, and its key is the entity's.\<close>

definition belongs :: "frame list \<Rightarrow> frame \<Rightarrow> bool" where
  "belongs listed st \<longleftrightarrow>
     list_ex (\<lambda>l. state_type (fst l) = Some (fst st) \<and> key_at 2 (snd l) = key_at 1 (snd st) \<and> key_at 1 (snd st) \<noteq> None) listed"

lemma belongs_intro:
  assumes "(t, m) \<in> set listed" "headed object m" "length object < 2 ^ 64" "key r = entityKey object"
    and "state_type t = Some (fst (state_frame r))"
  shows "belongs listed (state_frame r)"
  using assms keyed_key [OF state_frame_keyed [of r]]
  unfolding belongs_def list_ex_iff by (intro bexI [of _ "(t, m)"]) (simp_all add: headed_key)

lemma listed_headed:
  "headed ''speaker'' (snd (list_speaker s))" "headed ''microphone_muted'' (snd list_mic)" "headed ''sendspin'' (snd list_sendspin)"
  "headed ''sendspin_output_delay'' (snd (list_delay s))" "headed (b @ ''_mode'') (snd (list_mode b))"
  "headed ''network_adb'' (snd (list_adb secure))" "headed object (snd (list_text_sensor object name icon))"
  "headed object (snd (list_sensor (object, name, u, d, c, i)))" "headed object (snd (list_binary (object, name, d, i)))"
  unfolding list_speaker_def list_mic_def list_sendspin_def list_delay_def list_mode_def list_adb_def list_text_sensor_def
    list_sensor_def list_binary_def snd_conv prod.case Let_def
  by (intro headed_writers headed_foldl | simp only: if_split | intro conjI impI)+

section \<open>Every state is of a listed entity\<close>

lemma sensor_belongs:
  assumes "(object, name, u, d, c, i) \<in> set sensors" "length object < 2 ^ 64"
  shows "belongs (entity_frames secure hs dl s) (state_frame (number_reading (entityKey object) v))"
proof (rule belongs_intro [OF _ listed_headed(8) assms(2)])
  have "list_sensor (object, name, u, d, c, i) \<in> set (entity_frames secure hs dl s)"
    using assms(1) by (simp add: entity_frames_def)
  then show "(msgListSensor, snd (list_sensor (object, name, u, d, c, i))) \<in> set (entity_frames secure hs dl s)"
    by (simp add: list_sensor_def)
qed (simp_all add: number_reading_def mk_reading_def state_type_def state_frame_def msgListBinarySensor_def msgListSensor_def)

lemma binary_belongs:
  assumes "(object, name, d, i) \<in> set binary_sensors" "length object < 2 ^ 64"
  shows "belongs (entity_frames secure hs dl s) (state_frame (mk_reading (entityKey object) v x good kindBinary))"
proof (rule belongs_intro [OF _ listed_headed(9) assms(2)])
  have "list_binary (object, name, d, i) \<in> set (entity_frames secure hs dl s)"
    using assms(1) by (simp add: entity_frames_def)
  then show "(msgListBinarySensor, snd (list_binary (object, name, d, i))) \<in> set (entity_frames secure hs dl s)"
    by (simp add: list_binary_def)
qed (simp_all add: mk_reading_def state_type_def state_frame_def msgListBinarySensor_def)

lemmas type_numbers = msgListBinarySensor_def msgListSensor_def msgListSwitch_def msgListTextSensor_def msgListNumber_def
  msgListSelect_def msgListMediaPlayer_def msgListText_def

lemma switch_belongs:
  assumes "(object, l) \<in> {(''microphone_muted'', list_mic)} \<union> (if hs then {(''sendspin'', list_sendspin)} else {})"
  shows "belongs (entity_frames secure hs dl s) (state_frame (mk_reading (entityKey object) v x good kindSwitch))"
  by (rule belongs_intro [where object = object and m = "snd l" and t = msgListSwitch])
    (use assms listed_headed(2,3) in \<open>auto simp: entity_frames_def list_mic_def list_sendspin_def mk_reading_def state_type_def
        state_frame_def type_numbers split: if_splits\<close>)

lemma select_belongs:
  assumes "(object, l) \<in> {(''network_adb'', list_adb secure)} \<union> (\<lambda>b. (b @ ''_mode'', list_mode b)) ` set button_ids"
  shows "belongs (entity_frames secure hs dl s) (state_frame (mk_reading (entityKey object) v x good kindSelect))"
  by (rule belongs_intro [where object = object and m = "snd l" and t = msgListSelect])
    (use assms listed_headed(5,6) in \<open>auto simp: entity_frames_def list_mode_def list_adb_def mk_reading_def state_type_def
        state_frame_def type_numbers button_ids_def\<close>)

lemma text_belongs:
  assumes "(object, name, icon) \<in> {(''output_device'', ''Output device'', ''mdi:speaker''), (''bluetooth_device'', ''Bluetooth device'', ''mdi:bluetooth'')}"
  shows "belongs (entity_frames secure hs dl s) (state_frame (mk_reading (entityKey object) v x good kindTextSensor))"
  by (rule belongs_intro [where object = object and m = "snd (list_text_sensor object name icon)" and t = msgListTextSensor,
      OF _ listed_headed(7)])
    (use assms in \<open>auto simp: entity_frames_def list_text_sensor_def mk_reading_def state_type_def
        state_frame_def type_numbers\<close>)

lemma number_belongs:
  "belongs (entity_frames secure hs True s) (state_frame (mk_reading (entityKey ''sendspin_output_delay'') v x good kindNumber))"
  by (rule belongs_intro [where m = "snd (list_delay s)" and t = msgListNumber, OF _ listed_headed(4)])
    (auto simp: entity_frames_def list_delay_def mk_reading_def state_type_def state_frame_def type_numbers)

lemma media_belongs:
  "belongs (entity_frames secure hs dl s) (state_frame (media_reading v step playing))"
  by (rule belongs_intro [where m = "snd (list_speaker s)" and t = msgListMediaPlayer, OF _ listed_headed(1)])
    (auto simp: entity_frames_def list_speaker_def media_reading_def keySpeaker_def state_type_def state_frame_def type_numbers)

lemma flag_is: "flag_reading k bo kind = mk_reading k (boolValue (fst bo)) '''' (snd bo) kind"
  "text_reading k t kind = mk_reading k 0 (fst t) (snd t) kind"
  by (simp_all add: flag_reading_def text_reading_def)

lemmas key_names = keyUptime_def keyWifi_def keyVolume_def keyCPU_def keyMemory_def keyJack_def keyBT_def keyOutput_def
  keyBTDevice_def keyJackOn_def keySound_def keyMicMute_def keySendspin_def keyDelay_def keyADB_def keyAlexa_def mode_key_def

lemma named_belong:
  assumes L: "L = entity_frames secure hs dl s"
  shows "belongs L (state_frame (number_reading keyUptime v))" "belongs L (state_frame (number_reading keyWifi v))"
    "belongs L (state_frame (number_reading keyVolume v))" "belongs L (state_frame (number_reading keyCPU v))"
    "belongs L (state_frame (number_reading keyMemory v))" "belongs L (state_frame (number_reading keyJack v))"
    "belongs L (state_frame (number_reading keyBT v))"
    "belongs L (state_frame (flag_reading keyAlexa b kindBinary))" "belongs L (state_frame (flag_reading keyJackOn b kindBinary))"
    "belongs L (state_frame (flag_reading keySound b kindBinary))" "belongs L (state_frame (mk_reading keySound x t g kindBinary))"
    "belongs L (state_frame (flag_reading keyMicMute b kindSwitch))"
    "belongs L (state_frame (text_reading keyBTDevice tb kindTextSensor))" "belongs L (state_frame (text_reading keyOutput tb kindTextSensor))"
    "belongs L (state_frame (text_reading keyADB tb kindSelect))"
  unfolding L key_names flag_is
  by (rule sensor_belongs binary_belongs switch_belongs text_belongs select_belongs; force simp: sensors_def binary_sensors_def)+

lemma mode_belongs:
  "bt \<in> set button_ids \<Longrightarrow> belongs (entity_frames secure hs dl s) (state_frame (text_reading (mode_key bt) tb kindSelect))"
  using select_belongs [of "bt @ ''_mode''" "list_mode bt" secure]
  by (simp add: mode_key_def flag_is)

lemma optional_belong:
  "belongs (entity_frames secure True dl s) (state_frame (flag_reading keySendspin b kindSwitch))"
  "belongs (entity_frames secure hs True s) (state_frame (mk_reading keyDelay x t g kindNumber))"
  using switch_belongs [of "''sendspin''" list_sendspin True] number_belongs
  by (simp_all add: keySendspin_def keyDelay_def flag_is)

text \<open>
  C29. Every state the api reads to send is of an entity it lists, as a client finds them on the wire: in the list there is an
  entry that carries the state's key, and whose type is the one that states of the state's type belong to.  This
  holds of the readings of a tick, of the live readings and of the sound, whatever the device answers and whichever of
  the switch and the delay are there.
\<close>

theorem states_typed:
  "list_all (\<lambda>r. belongs (entity_frames (e_secure E) (e_sendspin E \<noteq> None) (e_delay E \<noteq> None) s') (state_frame r))
     (fst (readTicked E s) @ fst (readLive E s) @ [fst (readSound E s)])"
proof -
  let ?L = "entity_frames (e_secure E) (e_sendspin E \<noteq> None) (e_delay E \<noteq> None) s'"
  have "list_all (\<lambda>r. belongs ?L (state_frame r)) (fst (readTicked E s))"
    by (auto simp: readTicked_def Let_def list_all_iff named_belong [OF refl] mode_belongs split: option.split)
  moreover have "belongs ?L (state_frame (fst (readSound E s)))"
    by (simp add: readSound_def Let_def named_belong [OF refl] mode_belongs split: prod.split)
  moreover have "list_all (\<lambda>r. belongs ?L (state_frame r)) (fst (readLive E s))"
    by (auto simp: readLive_def Let_def named_belong [OF refl] media_belongs optional_belong split: option.split prod.split if_splits)
  ultimately show ?thesis by simp
qed

end
