(* ===== verification/Esp_Conn.thy ===== *)
theory Esp_Conn
  imports Esp_Sync
begin

text \<open>
  One API connection from its first byte to its end: \<open>Listen\<close>, \<open>serveConn\<close> and \<open>writeLoop\<close> of
  \<open>internal/esphome/server.go\<close>.  The reader handles what the client sends, other goroutines push frames into the queue,
  and the writer encrypts and flushes them; what the client makes of the bytes is read with the same frames and the
  cipher of the other side.  How a message is handled is a contract, \<open>conn_handler\<close>, that \<open>handle\<close> is shown to keep.
\<close>

section \<open>The connection\<close>

record talk =
  tk_conn :: esp_conn
  tk_rw :: noise_rw
  tk_open :: bool
  tk_writer :: bool
  tk_broken :: bool
  tk_decrypted :: bool
  tk_pinged :: bool
  tk_left :: bool

definition new_talk :: "noise_rw \<Rightarrow> talk" where
  "new_talk rw =
     \<lparr>tk_conn = new_conn, tk_rw = rw, tk_open = True, tk_writer = True, tk_broken = False, tk_decrypted = False,
      tk_pinged = False, tk_left = False\<rparr>"

type_synonym handler = "nat \<Rightarrow> bytes \<Rightarrow> esp_conn \<Rightarrow> esp_error option \<times> esp_conn"

text \<open>One turn of the reader's loop, from what its read came to.\<close>

definition talk_turn :: "handler \<Rightarrow> read_result \<Rightarrow> talk \<Rightarrow> talk" where
  "talk_turn h r x =
     (case read_turn (tk_decrypted x) (tk_pinged x) r of
        (Handle t p, d, g) \<Rightarrow>
          (case h t p (tk_conn x) of
             (e, c) \<Rightarrow> x\<lparr>tk_conn := (if e = None then fst (noteFrom c) else c), tk_decrypted := d, tk_pinged := g,
                         tk_left := (e \<noteq> None)\<rparr>)
      | (SendPing, d, g) \<Rightarrow>
          (case esp_send (tk_conn x) (msgPingRequest, []) of
             None \<Rightarrow> x\<lparr>tk_pinged := g, tk_left := True\<rparr>
           | Some c \<Rightarrow> x\<lparr>tk_conn := c, tk_decrypted := d, tk_pinged := g\<rparr>)
      | (Leave, d, g) \<Rightarrow> x\<lparr>tk_left := True\<rparr>)"

definition talk_read :: "handler \<Rightarrow> cipher \<Rightarrow> talk \<Rightarrow> talk" where
  "talk_read h dec x =
     (if tk_left x then x
      else if \<not> tk_open x then x\<lparr>tk_left := True\<rparr>
      else (case esp_read dec (tk_rw x) of
          (Inr (t, p), rw) \<Rightarrow> talk_turn h (GotMessage t p) (x\<lparr>tk_rw := rw\<rparr>)
        | (Inl e, rw) \<Rightarrow> talk_turn h ReadBroken (x\<lparr>tk_rw := rw\<rparr>)))"

text \<open>\<open>writeLoop\<close>: the next frame of the queue; at its end, once the reader has closed it, the writer is done.\<close>

definition writeLoop_turn :: "cipher \<Rightarrow> talk \<Rightarrow> talk" where
  "writeLoop_turn enc x =
     (if \<not> tk_writer x then x
      else if c_taken (tk_conn x) < length (c_sent (tk_conn x)) then
        (let (t, p) = c_sent (tk_conn x) ! c_taken (tk_conn x);
             c = (tk_conn x)\<lparr>c_taken := Suc (c_taken (tk_conn x))\<rparr>
         in if \<not> tk_open x then x\<lparr>tk_conn := c, tk_writer := False, tk_broken := True\<rparr>
            else (case esp_write enc t p (tk_rw x) of
                (Inr u, rw) \<Rightarrow> x\<lparr>tk_conn := c, tk_rw := rw\<rparr>
              | (Inl e, rw) \<Rightarrow>
                  x\<lparr>tk_conn := c, tk_rw := rw, tk_open := False, tk_writer := False, tk_broken := True\<rparr>))
      else if tk_left x then x\<lparr>tk_writer := False\<rparr> else x)"

text \<open>Another goroutine sends; a queue that is full closes the socket.  The end closes it too, once the writer is done or late.\<close>

definition talk_push :: "frame \<Rightarrow> talk \<Rightarrow> talk" where
  "talk_push f x =
     (if tk_left x then x
      else case esp_send (tk_conn x) f of None \<Rightarrow> x\<lparr>tk_open := False\<rparr> | Some c \<Rightarrow> x\<lparr>tk_conn := c\<rparr>)"

definition talk_close :: "bool \<Rightarrow> talk \<Rightarrow> talk" where
  "talk_close late x = (if tk_left x \<and> (late \<or> \<not> tk_writer x) then x\<lparr>tk_open := False\<rparr> else x)"

datatype talk_event = TRead | TDeadline bool | TWrite | TPush frame | TClose bool

fun talk_step :: "handler \<Rightarrow> cipher \<Rightarrow> cipher \<Rightarrow> talk \<Rightarrow> talk_event \<Rightarrow> talk" where
  "talk_step h enc dec x TRead = talk_read h dec x"
| "talk_step h enc dec x (TDeadline mid) =
     (if tk_left x \<or> \<not> tk_open x then x else talk_turn h (DeadlinePassed mid) x)"
| "talk_step h enc dec x TWrite = writeLoop_turn enc x"
| "talk_step h enc dec x (TPush f) = talk_push f x"
| "talk_step h enc dec x (TClose late) = talk_close late x"

text \<open>\<open>serveConn\<close> up to its loop, and the accept loop of \<open>Listen\<close>.\<close>

datatype conn_begin = TooMany | NoFirstByte | Plaintext bytes | NotAccepted accept_error noise_rw | Talks talk

definition esp_serveConn :: "noise_nn \<Rightarrow> bytes \<Rightarrow> nat \<Rightarrow> noise_rw \<Rightarrow> esp_server \<Rightarrow> conn_begin \<times> esp_server" where
  "esp_serveConn N psk i rw s =
     (case esp_enter i s of
        None \<Rightarrow> (TooMany, s)
      | Some s1 \<Rightarrow>
          (case first_byte (case n_rx rw of [] \<Rightarrow> None | b # bs \<Rightarrow> Some b) of
             PeekFailed \<Rightarrow> (NoFirstByte, esp_leave i s1)
           | TriedPlaintext answer_bytes \<Rightarrow> (Plaintext answer_bytes, esp_leave i s1)
           | GoesOn \<Rightarrow>
               (case noiseAccept N (s_name s) psk rw of
                  (Inl e, rw1) \<Rightarrow> (NotAccepted e rw1, esp_leave i s1)
                | (Inr u, rw1) \<Rightarrow> (Talks (new_talk rw1), s1))))"

datatype esp_accept = ListenerClosed | AcceptFailed | AcceptedConn nat

datatype listen_act = ListenEnds | ListenPauses duration | ListenServes nat

definition Listen_turn :: "esp_accept \<Rightarrow> listen_act" where
  "Listen_turn a =
     (case a of ListenerClosed \<Rightarrow> ListenEnds | AcceptFailed \<Rightarrow> ListenPauses second | AcceptedConn i \<Rightarrow> ListenServes i)"

section \<open>What the client reads\<close>

fun read_all :: "cipher \<Rightarrow> nat \<Rightarrow> noise_rw \<Rightarrow> ((nat \<times> bytes) list \<times> noise_rw) option" where
  "read_all dec 0 b = Some ([], b)"
| "read_all dec (Suc k) b =
     (case esp_read dec b of
        (Inl e, b1) \<Rightarrow> None
      | (Inr m, b1) \<Rightarrow> (case read_all dec k b1 of None \<Rightarrow> None | Some (ms, b2) \<Rightarrow> Some (m # ms, b2)))"

lemma read_all_snoc:
  "read_all dec k b = Some (ms, b1) \<Longrightarrow> esp_read dec b1 = (Inr m, b2) \<Longrightarrow> read_all dec (Suc k) b = Some (ms @ [m], b2)"
proof (induction k arbitrary: b ms)
  case (Suc k)
  obtain m0 b0 where m0: "esp_read dec b = (Inr m0, b0)"
    using Suc.prems(1) by (cases "esp_read dec b") (auto split: sum.splits)
  obtain ms' where ms': "read_all dec k b0 = Some (ms', b1)" "ms = m0 # ms'"
    using Suc.prems(1) m0 by (auto split: option.splits)
  have "read_all dec (Suc k) b0 = Some (ms' @ [m], b2)" by (rule Suc.IH [OF ms'(1) Suc.prems(2)])
  then show ?case using m0 ms'(2) by simp
qed auto

text \<open>A type is sent in sixteen bits.\<close>

definition on_wire :: "frame \<Rightarrow> nat \<times> bytes" where
  "on_wire f = (fst f mod 2 ^ 16, snd f)"

lemma esp_write_mod: "esp_write enc (t mod 2 ^ 16) p c = esp_write enc t p c"
proof -
  have "(of_nat (t mod 2 ^ 16) :: 16 word) = of_nat t" by (rule word_unat_eq_iff [THEN iffD2]) (simp add: unat_of_nat)
  then have "inner_message (t mod 2 ^ 16) p = inner_message t p" by (simp add: inner_message_def)
  then show ?thesis by (simp add: esp_write_def)
qed

text \<open>The first \<open>k\<close> of \<open>fs\<close> are what a client with the other cipher reads of the frames flushed since the handshake.\<close>

definition delivers :: "cipher \<Rightarrow> nat \<Rightarrow> bytes list \<Rightarrow> nat \<Rightarrow> frame list \<Rightarrow> bool" where
  "delivers dec n0 sentb k fs \<longleftrightarrow>
     (\<forall>b r. n_rx b = concat (take k (drop n0 sentb)) @ r \<and> n_in b = 0 \<longrightarrow>
        read_all dec k b = Some (map on_wire (take k fs), b\<lparr>n_rx := r, n_in := k\<rparr>))"

lemma delivers_step:
  assumes "cipher_pair enc dec" "delivers dec n0 (n_tx rw) k fs" "length (n_tx rw) = n0 + k" "n_out rw = k"
    and "k < length fs" "fs ! k = (t, p)" "esp_write enc t p rw = (Inr (), rw')"
  shows "delivers dec n0 (n_tx rw') (Suc k) fs \<and> length (n_tx rw') = n0 + Suc k \<and> n_out rw' = Suc k"
proof -
  obtain f where f: "n_tx rw' = n_tx rw @ [f]" "n_out rw' = Suc (n_out rw)"
    using assms(7) by (auto simp: esp_write_def flush_def writeNoiseFrame_def Let_def split: if_splits option.splits sum.splits)
  have "read_all dec (Suc k) b = Some (map on_wire (take (Suc k) fs), b\<lparr>n_rx := r, n_in := Suc k\<rparr>)"
    if b: "n_rx b = concat (take (Suc k) (drop n0 (n_tx rw'))) @ r" "n_in b = 0" for b r
  proof -
    have "take (Suc k) (drop n0 (n_tx rw')) = take k (drop n0 (n_tx rw)) @ [f]" using assms(3) f(1) by simp
    then have "n_rx b = concat (take k (drop n0 (n_tx rw))) @ (f @ r)" using b(1) by simp
    then have 1: "read_all dec k b = Some (map on_wire (take k fs), b\<lparr>n_rx := f @ r, n_in := k\<rparr>)"
      using assms(2) b(2) unfolding delivers_def by blast
    have "esp_write enc (t mod 2 ^ 16) p rw = (Inr (), rw')" using assms(7) esp_write_mod by simp
    from message_roundtrip [OF assms(1) this, of "b\<lparr>n_rx := f @ r, n_in := k\<rparr>" r]
    have 2: "esp_read dec (b\<lparr>n_rx := f @ r, n_in := k\<rparr>) = (Inr (t mod 2 ^ 16, p), b\<lparr>n_rx := r, n_in := Suc k\<rparr>)"
      using f assms(4) by simp
    show ?thesis using read_all_snoc [OF 1 2] assms(5,6) by (simp add: take_Suc_conv_app_nth on_wire_def)
  qed
  then show ?thesis using f assms(3,4) unfolding delivers_def by simp
qed

text \<open>More frames queued behind change nothing of what the first are.\<close>

lemma delivers_more: "delivers dec n0 sentb k fs \<Longrightarrow> k \<le> length fs \<Longrightarrow> delivers dec n0 sentb k (fs @ gs)"
  by (simp add: delivers_def)

lemma delivers_less:
  "delivers dec n0 sentb k fs \<Longrightarrow> length sentb = n0 + k \<Longrightarrow> delivers dec n0 (sentb @ us) k fs"
  by (simp add: delivers_def)

section \<open>The contract of a handler\<close>

definition only_appends :: "esp_conn \<Rightarrow> esp_conn \<Rightarrow> bool" where
  "only_appends c c' \<longleftrightarrow> c_taken c' = c_taken c \<and> (\<exists>fs. c_sent c' = c_sent c @ fs)"

lemma only_appends_refl [simp]: "only_appends c c" "only_appends c (c\<lparr>c_said := x\<rparr>)" "only_appends c (c\<lparr>c_states := q\<rparr>)"
    "only_appends c (c\<lparr>c_services := q\<rparr>)" "only_appends c (note_on c n)" "only_appends c (fst (noteFrom c))"
  by (auto simp: only_appends_def note_on_def noteFrom_def split: option.splits)

lemma only_appends_trans: "only_appends a b \<Longrightarrow> only_appends b c \<Longrightarrow> only_appends a c"
  by (auto simp: only_appends_def)

lemma esp_send_appends: "esp_send c f = Some c' \<Longrightarrow> only_appends c c'"
  by (auto simp: esp_send_def only_appends_def split: if_splits)

lemma send_all_appends: "send_all c fs = (q, c') \<Longrightarrow> only_appends c c'"
proof (induction fs arbitrary: c)
  case (Cons f fs)
  then show ?case by (auto split: option.splits intro: only_appends_trans [OF esp_send_appends])
qed simp

text \<open>
  What the queue needs of whoever handles a message, in whatever state the server is by then: it only appends to the queue
  and takes nothing from it.  Then what
  the client reads is the beginning of what was queued, however reader, writer and senders interleave.
\<close>

locale conn_handler =
  fixes h :: "'v \<Rightarrow> handler"
  assumes handler_appends: "h v t p c = (e, c') \<Longrightarrow> only_appends c c'"
begin

definition talk_ok :: "cipher \<Rightarrow> nat \<Rightarrow> talk \<Rightarrow> bool" where
  "talk_ok dec n0 x \<longleftrightarrow>
     (let k = c_taken (tk_conn x) - (if tk_broken x then 1 else 0)
      in c_taken (tk_conn x) \<le> length (c_sent (tk_conn x)) \<and> delivers dec n0 (n_tx (tk_rw x)) k (c_sent (tk_conn x))
         \<and> (tk_writer x \<longrightarrow> \<not> tk_broken x \<and> length (n_tx (tk_rw x)) = n0 + k \<and> n_out (tk_rw x) = k))"

lemma talk_ok_conn:
  assumes "talk_ok dec n0 x" "only_appends (tk_conn x) (tk_conn y)" "n_tx (tk_rw y) = n_tx (tk_rw x)"
    "n_out (tk_rw y) = n_out (tk_rw x)" "tk_writer y \<longrightarrow> tk_writer x" "tk_broken y = tk_broken x"
  shows "talk_ok dec n0 y"
proof -
  obtain fs where "c_sent (tk_conn y) = c_sent (tk_conn x) @ fs" "c_taken (tk_conn y) = c_taken (tk_conn x)"
    using assms(2) by (auto simp: only_appends_def)
  then show ?thesis using assms(1,3-6) unfolding talk_ok_def Let_def by (auto intro: delivers_more)
qed

lemma turn_ok:
  assumes "talk_ok dec n0 x"
  shows "talk_ok dec n0 (talk_turn (h v) r x)"
proof -
  have "only_appends (tk_conn x) (tk_conn (talk_turn (h v) r x))"
    using handler_appends esp_send_appends only_appends_trans
    by (fastforce simp: talk_turn_def split: prod.splits read_next.splits option.splits)
  moreover have "tk_rw (talk_turn (h v) r x) = tk_rw x" "tk_writer (talk_turn (h v) r x) = tk_writer x"
    "tk_broken (talk_turn (h v) r x) = tk_broken x"
    by (auto simp: talk_turn_def split: prod.splits read_next.splits option.splits)
  ultimately show ?thesis using talk_ok_conn [OF assms] by simp
qed

lemma esp_read_keeps: "esp_read dec rw = (r, rw') \<Longrightarrow> n_tx rw' = n_tx rw \<and> n_out rw' = n_out rw"
  by (auto simp: esp_read_def Let_def split: sum.splits prod.splits option.splits if_splits)

lemma read_ok: "talk_ok dec n0 x \<Longrightarrow> talk_ok dec n0 (talk_read (h v) dec2 x)"
proof -
  assume x: "talk_ok dec n0 x"
  obtain r rw where r: "esp_read dec2 (tk_rw x) = (r, rw)" by fastforce
  have "talk_ok dec n0 (x\<lparr>tk_rw := rw\<rparr>)" using esp_read_keeps [OF r] by (intro talk_ok_conn [OF x]) simp_all
  moreover have "talk_ok dec n0 (x\<lparr>tk_left := True\<rparr>)" by (rule talk_ok_conn [OF x]) simp_all
  ultimately show ?thesis using x r turn_ok by (auto simp: talk_read_def split: sum.splits prod.splits)
qed

lemma write_ok:
  assumes "cipher_pair enc dec" "talk_ok dec n0 x"
  shows "talk_ok dec n0 (writeLoop_turn enc x)"
proof (cases "tk_writer x \<and> c_taken (tk_conn x) < length (c_sent (tk_conn x))")
  case True
  define k where "k = c_taken (tk_conn x)"
  define fs where "fs = c_sent (tk_conn x)"
  obtain t p where tp: "fs ! k = (t, p)" by fastforce
  have ok: "\<not> tk_broken x" "delivers dec n0 (n_tx (tk_rw x)) k fs" "length (n_tx (tk_rw x)) = n0 + k"
    "n_out (tk_rw x) = k" "k < length fs"
    using assms(2) True by (auto simp: talk_ok_def Let_def k_def fs_def)
  obtain r rw where w: "esp_write enc t p (tk_rw x) = (r, rw)" by fastforce
  show ?thesis
  proof (cases "tk_open x")
    case False
    then show ?thesis using True ok tp
      by (simp add: writeLoop_turn_def talk_ok_def Let_def flip: k_def fs_def)
  next
    case True
    show ?thesis
    proof (cases r)
      case (Inr u)
      then show ?thesis
        using delivers_step [OF assms(1) ok(2,3,4,5) tp] w ok True \<open>tk_writer x \<and> _\<close> tp
        by (simp add: writeLoop_turn_def talk_ok_def Let_def flip: k_def fs_def)
    next
      case (Inl e)
      have "\<exists>us. n_tx rw = n_tx (tk_rw x) @ us"
        using w by (auto simp: esp_write_def flush_def Let_def split: if_splits option.splits sum.splits)
      then have "delivers dec n0 (n_tx rw) k fs" using delivers_less [OF ok(2,3)] by auto
      then show ?thesis using Inl w ok True \<open>tk_writer x \<and> _\<close> tp
        by (simp add: writeLoop_turn_def talk_ok_def Let_def flip: k_def fs_def)
    qed
  qed
next
  case False
  then have "writeLoop_turn enc x = x \<or> writeLoop_turn enc x = x\<lparr>tk_writer := False\<rparr>"
    by (auto simp: writeLoop_turn_def)
  then show ?thesis using assms(2) by (auto simp: talk_ok_def Let_def)
qed

lemma push_ok: "talk_ok dec n0 x \<Longrightarrow> talk_ok dec n0 (talk_push f x)"
  by (auto simp: talk_push_def split: option.splits dest!: esp_send_appends intro: talk_ok_conn)

lemma close_ok: "talk_ok dec n0 x \<Longrightarrow> talk_ok dec n0 (talk_close late x)"
  by (auto simp: talk_close_def intro: talk_ok_conn)

lemma step_ok:
  assumes "cipher_pair enc dec" "talk_ok dec n0 x"
  shows "talk_ok dec n0 (talk_step (h v) enc dec2 x e)"
  using assms by (cases e) (auto intro: turn_ok read_ok write_ok push_ok close_ok)

lemma client_reads_beginning:
  assumes "cipher_pair enc dec" "n_out rw = 0" "x = foldl (\<lambda>y (v, e). talk_step (h v) enc dec2 y e) (new_talk rw) es"
    and "k = c_taken (tk_conn x) - (if tk_broken x then 1 else 0)"
    and "n_rx b = concat (take k (drop (length (n_tx rw)) (n_tx (tk_rw x)))) @ r" "n_in b = 0"
  shows "read_all dec k b = Some (map on_wire (take k (c_sent (tk_conn x))), b\<lparr>n_rx := r, n_in := k\<rparr>)"
proof -
  have "talk_ok dec (length (n_tx rw)) (new_talk rw)"
    using assms(2) by (simp add: talk_ok_def new_talk_def new_conn_def delivers_def Let_def)
  then have "talk_ok dec (length (n_tx rw)) (foldl (\<lambda>y (v, e). talk_step (h v) enc dec2 y e) (new_talk rw) es)"
    by (induction es rule: rev_induct) (simp_all add: step_ok [OF assms(1)] split_beta)
  then show ?thesis using assms(4-6) unfolding assms(3) [symmetric] talk_ok_def delivers_def Let_def by blast
qed

end

section \<open>The server's handler keeps it\<close>

text \<open>A message is handled with the device, the readings and the server as they are by then; other connections change them.\<close>

definition server_handler :: "nat \<Rightarrow> esp_env \<times> reading list \<times> esp_server \<Rightarrow> handler" where
  "server_handler i v =
     (\<lambda>t p c. case v of (E, snapshot, s) \<Rightarrow> (case handle E snapshot i t p c s of (e, c', s', calls) \<Rightarrow> (e, c')))"

definition appends_to :: "esp_conn \<Rightarrow> handled \<Rightarrow> bool" where
  "appends_to c x \<longleftrightarrow> (case x of (e, c', s', calls) \<Rightarrow> only_appends c c')"

lemma only_appends_note [simp]: "only_appends c (note_on d n) = only_appends c d"
  by (auto simp: only_appends_def note_on_def split: option.splits)

lemma reply_appends: "reply c fs = (e, c') \<Longrightarrow> only_appends c c'"
  by (auto simp: reply_def dest: send_all_appends split: prod.splits)

lemma appends_handlers:
  "appends_to c (handle_text p c s)" "appends_to c (handle_service p c s)" "appends_to c (handle_select E p c s)"
  "appends_to c (handle_number E p c s)" "appends_to c (handle_switch p c s)" "appends_to c (handle_media p c s)"
  by (auto simp: appends_to_def handle_text_def handle_service_def handle_select_def handle_number_def handle_switch_def
      handle_media_def Let_def split: sum.splits prod.splits option.splits if_splits)

lemma appends_hello: "appends_to c (handle_hello p c s)"
proof (cases "walk ''HelloRequest'' p")
  case (Inr fs)
  let ?c = "c\<lparr>c_said := Cut (field_str 1 fs)\<rparr>"
  let ?f = "[(msgHelloResponse, pb_str (pb_str (pb_u32 (pb_u32 [] 1 1) 2 12) 3 ''overdub'') 4 (s_name s))]"
  obtain e c' where r: "reply ?c ?f = (e, c')" by fastforce
  have "only_appends c c'" by (rule only_appends_trans [OF only_appends_refl(2) reply_appends [OF r]])
  then show ?thesis using Inr r by (simp add: appends_to_def handle_hello_def)
qed (simp add: appends_to_def handle_hello_def)

lemma appends_subscribe: "appends_to c (handle_subscribe snapshot i c s)"
proof -
  obtain q c' where r: "sendSensorsAt snapshot (c\<lparr>c_states := True\<rparr>) = (q, c')" by fastforce
  then have "send_all (c\<lparr>c_states := True\<rparr>) (map state_frame snapshot) = (q, c')" by (simp add: sendSensorsAt_def)
  from only_appends_trans [OF only_appends_refl(3) send_all_appends [OF this]] r show ?thesis
    by (cases q) (simp_all add: appends_to_def handle_subscribe_def)
qed

lemma appends_reply: "appends_to c (sending (reply c fs) s)"
proof -
  obtain e c' where "reply c fs = (e, c')" by fastforce
  from reply_appends [OF this] this show ?thesis by (simp add: appends_to_def sending_def)
qed

lemma appends_list:
  "appends_to c (case listEntities E s c of (ok, c') \<Rightarrow> (if ok then None else Some QueueFull, c', s, []))"
  by (auto simp: appends_to_def listEntities_def dest: send_all_appends split: prod.splits)

lemma appends_goodbye: "appends_to c (Some AskedToDisconnect, snd (send_all c fs), s, [])"
  using send_all_appends [of c fs] by (cases "send_all c fs") (simp add: appends_to_def)

lemma appends_if: "appends_to c x \<Longrightarrow> appends_to c y \<Longrightarrow> appends_to c (if b then x else y)"
  by simp

lemma handle_appends: "appends_to c (handle E snapshot i t p c s)"
  unfolding handle_def
  by (intro appends_if appends_handlers appends_hello appends_subscribe appends_reply appends_list appends_goodbye)
    (simp_all add: appends_to_def)

interpretation server_conn: conn_handler "server_handler i"
  for i :: nat
proof unfold_locales
  show "only_appends c c'" if "server_handler i v t p c = (e, c')" for v t p c e c'
  proof -
    obtain E snapshot s where "v = (E, snapshot, s)" by (cases v)
    then show ?thesis
      using handle_appends [of c E snapshot i t p s] that by (auto simp: server_handler_def appends_to_def split: prod.splits)
  qed
qed

section \<open>Properties\<close>

text \<open>
  C35. What a client decrypts is what was queued for it: after the handshake, however the reader, the writer, other senders and
  the end of the connection interleave, and whatever the server has become by each message, the frames flushed whole read, with the client's cipher, as the beginning of the
  queue, in order, none changed, dropped or repeated, and as many as the writer took (less the one whose write failed).
\<close>

theorem client_reads_queue:
  assumes "cipher_pair enc dec" "n_out rw = 0"
    and "x = foldl (\<lambda>y (v, e). talk_step (server_handler i v) enc dec2 y e) (new_talk rw) es"
    and "k = c_taken (tk_conn x) - (if tk_broken x then 1 else 0)"
    and "n_rx b = concat (take k (drop (length (n_tx rw)) (n_tx (tk_rw x)))) @ r" "n_in b = 0"
  shows "read_all dec k b = Some (map on_wire (take k (c_sent (tk_conn x))), b\<lparr>n_rx := r, n_in := k\<rparr>)"
  using assms by (rule server_conn.client_reads_beginning)

text \<open>Two frames pushed and written are read as those two.\<close>

theorem client_reads_queue_witness:
  "\<exists>tx. read_all xor_open 2 (demo_rw\<lparr>n_rx := tx\<rparr>) = Some ([(7, [1]), (8, [2])], demo_rw\<lparr>n_rx := [], n_in := 2\<rparr>)"
proof -
  let ?v = "(quiet_env 0 False, [], NewServer [] [] [] [])"
  let ?es = "map (Pair ?v) [TPush (7, [1]), TPush (8, [2]), TWrite, TWrite]"
  define x where "x = foldl (\<lambda>y (v, e). talk_step (server_handler 0 v) xor_cipher xor_open y e) (new_talk demo_rw) ?es"
  have x: "c_taken (tk_conn x) = 2" "c_sent (tk_conn x) = [(7, [1]), (8, [2])]" "\<not> tk_broken x"
    unfolding x_def
    by (simp_all add: talk_push_def esp_send_def sendQueue_def new_talk_def new_conn_def writeLoop_turn_def esp_write_def
        writeNoiseFrame_def flush_def demo_rw_def xor_cipher_def inner_message_def maxNoisePayload_def maxDataFrame_def)
  define tx where "tx = concat (take 2 (drop (length (n_tx demo_rw)) (n_tx (tk_rw x))))"
  have "read_all xor_open 2 (demo_rw\<lparr>n_rx := tx\<rparr>)
      = Some (map on_wire (take 2 (c_sent (tk_conn x))), (demo_rw\<lparr>n_rx := tx\<rparr>)\<lparr>n_rx := [], n_in := 2\<rparr>)"
    by (rule client_reads_queue [OF xor_pair _ x_def]) (simp_all add: x tx_def demo_rw_def)
  then show ?thesis by (auto simp: x on_wire_def)
qed

end
