(* ===== verification/Go_Sys.thy ===== *)
theory Go_Sys
  imports Go_Strings
begin

text \<open>
  Programs that ask the kernel: each call is answered by a kernel \<open>K\<close>, which may look at every call before it, with an
  error or with bytes.  A program is a function of the calls made so far; a descriptor is the number of calls before
  the one that opened it.  What is open after some calls is \<open>fds\<close>, and \<open>opener\<close> is the contract of a program that opens
  something for its caller: a failure leaves open what was open, a success exactly one descriptor more.
\<close>

datatype sys_call = SOpen string | SSocket | SIoctl nat "32 word" "32 word" | SFetch nat "32 word" nat | SWriteAll nat bytes
  | SOption nat string "byte list" | SBind nat nat | SCloseFd nat

type_synonym kernel = "sys_call list \<Rightarrow> sys_call \<Rightarrow> string option \<times> bytes"
type_synonym 'a sys = "sys_call list \<Rightarrow> (string + 'a) \<times> sys_call list"

definition sys :: "kernel \<Rightarrow> sys_call \<Rightarrow> bytes sys" where
  "sys K c s = (case K s c of (Some e, b) \<Rightarrow> (Inl e, s @ [c]) | (None, b) \<Rightarrow> (Inr b, s @ [c]))"

definition sys_open :: "kernel \<Rightarrow> sys_call \<Rightarrow> nat sys" where
  "sys_open K c s = (case sys K c s of (Inl e, s') \<Rightarrow> (Inl e, s') | (Inr b, s') \<Rightarrow> (Inr (length s), s'))"

definition sys_ret :: "'a \<Rightarrow> 'a sys" where
  "sys_ret a s = (Inr a, s)"

definition sys_fail :: "string \<Rightarrow> 'a sys" where
  "sys_fail e s = (Inl e, s)"

definition sys_then :: "'a sys \<Rightarrow> ('a \<Rightarrow> 'b sys) \<Rightarrow> 'b sys" where
  "sys_then m f s = (case m s of (Inl e, s') \<Rightarrow> (Inl e, s') | (Inr a, s') \<Rightarrow> f a s')"

text \<open>What follows an opening closes it again when it fails; a call whose error is ignored.\<close>

definition sys_or :: "'a sys \<Rightarrow> unit sys \<Rightarrow> 'a sys" where
  "sys_or m undo s = (case m s of (Inl e, s') \<Rightarrow> (Inl e, snd (undo s')) | (Inr a, s') \<Rightarrow> (Inr a, s'))"

definition sys_try :: "kernel \<Rightarrow> sys_call \<Rightarrow> unit sys" where
  "sys_try K c s = (Inr (), s @ [c])"

fun sys_all :: "kernel \<Rightarrow> sys_call list \<Rightarrow> unit sys" where
  "sys_all K [] = sys_ret ()"
| "sys_all K (c # cs) = sys_then (sys K c) (\<lambda>b. sys_all K cs)"

section \<open>What is open\<close>

definition fd_step :: "kernel \<Rightarrow> sys_call list \<times> nat set \<Rightarrow> sys_call \<Rightarrow> sys_call list \<times> nat set" where
  "fd_step K x c =
     (case x of (s, F) \<Rightarrow>
       (s @ [c],
        case c of
          SOpen p \<Rightarrow> if fst (K s c) = None then insert (length s) F else F
        | SSocket \<Rightarrow> if fst (K s c) = None then insert (length s) F else F
        | SCloseFd n \<Rightarrow> F - {n}
        | _ \<Rightarrow> F))"

definition fds :: "kernel \<Rightarrow> sys_call list \<Rightarrow> nat set" where
  "fds K s = snd (foldl (fd_step K) ([], {}) s)"

lemma fd_history: "fst (foldl (fd_step K) ([], {}) s) = s"
  by (induction s rule: rev_induct) (auto simp: fd_step_def split: prod.splits)

lemma fds_snoc: "fds K (s @ [c]) = snd (fd_step K (s, fds K s) c)"
  using fd_history [of K s] by (cases "foldl (fd_step K) ([], {}) s") (simp add: fds_def)

lemma fds_less: "n \<in> fds K s \<Longrightarrow> n < length s"
proof (induction s rule: rev_induct)
  case (snoc c s)
  then show ?case by (auto simp: fds_snoc fd_step_def split: sys_call.splits if_splits intro: less_SucI)
qed (simp add: fds_def)

text \<open>Calls that open and close nothing.\<close>

fun plain :: "sys_call \<Rightarrow> bool" where
  "plain (SOpen p) = False" | "plain SSocket = False" | "plain (SCloseFd n) = False" | "plain c = True"

lemma fds_plain: "plain c \<Longrightarrow> fds K (s @ [c]) = fds K s"
  by (cases c) (simp_all add: fds_snoc fd_step_def)

lemma fds_close: "fds K (s @ [SCloseFd n]) = fds K s - {n}"
  by (simp add: fds_snoc fd_step_def)

definition leaves :: "kernel \<Rightarrow> 'a sys \<Rightarrow> bool" where
  "leaves K m \<longleftrightarrow> (\<forall>s r s'. m s = (r, s') \<longrightarrow> fds K s' = fds K s)"

lemma leaves_sys: "plain c \<Longrightarrow> leaves K (sys K c)"
  by (auto simp: leaves_def sys_def fds_plain split: prod.splits option.splits)

lemma leaves_ret: "leaves K (sys_ret a)" "leaves K (sys_fail e)"
  by (auto simp: leaves_def sys_ret_def sys_fail_def)

lemma leaves_then: "leaves K m \<Longrightarrow> (\<And>a. leaves K (f a)) \<Longrightarrow> leaves K (sys_then m f)"
  unfolding leaves_def sys_then_def by (auto split: prod.splits sum.splits)

lemma leaves_try: "plain c \<Longrightarrow> leaves K (sys_try K c)"
  by (auto simp: leaves_def sys_try_def fds_plain)

lemma leaves_all: "list_all plain cs \<Longrightarrow> leaves K (sys_all K cs)"
  by (induction cs) (auto intro: leaves_ret leaves_then leaves_sys)

lemma leaves_if: "leaves K a \<Longrightarrow> leaves K b \<Longrightarrow> leaves K (if q then a else b)"
  by simp

section \<open>Openers\<close>

definition opens_one :: "kernel \<Rightarrow> nat sys \<Rightarrow> bool" where
  "opens_one K m \<longleftrightarrow>
     (\<forall>s r s'. m s = (r, s') \<longrightarrow>
        (case r of Inl e \<Rightarrow> fds K s' = fds K s | Inr n \<Rightarrow> n \<notin> fds K s \<and> fds K s' = insert n (fds K s)))"

locale opener =
  fixes K :: kernel
    and open_it :: "nat sys"
  assumes opens_one: "opens_one K open_it"
begin

lemma failed_open: "open_it s = (Inl e, s') \<Longrightarrow> fds K s' = fds K s"
  using opens_one by (fastforce simp: opens_one_def)

lemma opened_one: "open_it s = (Inr n, s') \<Longrightarrow> n \<notin> fds K s \<and> fds K s' = insert n (fds K s)"
  using opens_one by (fastforce simp: opens_one_def)

text \<open>What works with the descriptor and closes it, however it ends, leaves open what was open.\<close>

lemma open_use_close:
  assumes "\<And>n. leaves K (work n)"
  shows "leaves K (sys_then open_it (\<lambda>n. sys_then (sys_or (work n) (sys_try K (SCloseFd n))) (\<lambda>a. sys_try K (SCloseFd n))))"
    (is "leaves K ?m")
  unfolding leaves_def
proof (intro allI impI)
  fix s r s'
  assume m: "?m s = (r, s')"
  obtain q s1 where o1: "open_it s = (q, s1)" by fastforce
  show "fds K s' = fds K s"
  proof (cases q)
    case (Inl e)
    then show ?thesis using m o1 failed_open by (simp add: sys_then_def)
  next
    case (Inr n)
    obtain w s2 where w: "work n s1 = (w, s2)" by fastforce
    have "s' = s2 @ [SCloseFd n]"
      using m o1 w Inr by (cases w) (auto simp: sys_then_def sys_or_def sys_try_def)
    moreover have "fds K s2 = fds K s1" using assms w unfolding leaves_def by blast
    moreover have "n \<notin> fds K s \<and> fds K s1 = insert n (fds K s)" using opened_one o1 Inr by simp
    ultimately show ?thesis by (simp add: fds_close)
  qed
qed

end

text \<open>An opening, and what is done with it that closes it on failure.\<close>

lemma opens_sys_open: "(\<exists>p. c = SOpen p) \<or> c = SSocket \<Longrightarrow> opens_one K (sys_open K c)"
  unfolding opens_one_def
  by (auto simp: sys_open_def sys_def fds_snoc fd_step_def dest: fds_less split: prod.splits option.splits sum.splits)

lemma opens_then:
  assumes "opens_one K m" "\<And>n. leaves K (f n)"
  shows "opens_one K (sys_then m (\<lambda>n. sys_then (sys_or (f n) (sys_try K (SCloseFd n))) (\<lambda>a. sys_ret n)))" (is "opens_one K ?m")
  unfolding opens_one_def
proof (intro allI impI)
  fix s r s'
  assume a: "?m s = (r, s')"
  obtain q s1 where m: "m s = (q, s1)" by fastforce
  show "case r of Inl e \<Rightarrow> fds K s' = fds K s | Inr n \<Rightarrow> n \<notin> fds K s \<and> fds K s' = insert n (fds K s)"
  proof (cases q)
    case (Inl e)
    then show ?thesis using a m assms(1) by (fastforce simp: opens_one_def sys_then_def)
  next
    case (Inr n)
    obtain w s2 where w: "f n s1 = (w, s2)" by fastforce
    have n: "n \<notin> fds K s \<and> fds K s1 = insert n (fds K s)" using assms(1) m Inr by (fastforce simp: opens_one_def)
    have s2: "fds K s2 = fds K s1" using assms(2) w unfolding leaves_def by blast
    show ?thesis
      using a m w Inr n s2
      by (cases w) (auto simp: sys_then_def sys_or_def sys_try_def sys_ret_def fds_close)
  qed
qed

end
