(* ===== verification/Evdev.thy ===== *)
theory Evdev
  imports Go_Strings
begin

text \<open>
  \<open>internal/evdev\<close>: the wire form of an input event, the key bitmap, the \<open>uinput_user_dev\<close> record
  and the pair of writes that emits a key. The calls on the kernel are in \<^theory_text>\<open>Evdev_Uinput\<close>.
\<close>

definition evSyn :: "16 word" where "evSyn = 0"
definition EvKey :: "16 word" where "EvKey = 1"
definition synReport :: "16 word" where "synReport = 0"
definition KeyRelease :: "32 word" where "KeyRelease = 0"
definition KeyPress :: "32 word" where "KeyPress = 1"
definition EventSize :: nat where "EventSize = 16"

record event =
  Sec :: "32 word"
  Usec :: "32 word"
  Type :: "16 word"
  Code :: "16 word"
  Value :: "32 word"

definition marshal :: "event \<Rightarrow> bytes" where
  "marshal e = put_le 4 (Sec e) @ put_le 4 (Usec e) @ put_le 2 (Type e) @ put_le 2 (Code e)
     @ put_le 4 (Value e)"

definition Unmarshal :: "bytes \<Rightarrow> event" where
  "Unmarshal b =
     \<lparr>Sec = get_le (take 4 b), Usec = get_le (take 4 (drop 4 b)),
      Type = get_le (take 2 (drop 8 b)), Code = get_le (take 2 (drop 10 b)),
      Value = get_le (take 4 (drop 12 b))\<rparr>"

text \<open>\<open>io.ReadFull\<close> into a buffer of \<open>EventSize\<close> bytes: \<open>None\<close> at the end of the stream.\<close>

definition read_event :: "bytes \<Rightarrow> (event \<times> bytes) option" where
  "read_event s =
     (if length s < EventSize then None else Some (Unmarshal (take EventSize s), drop EventSize s))"

lemma length_marshal [simp, len_simps]: "length (marshal e) = EventSize"
  by (simp add: marshal_def EventSize_def)

lemma Unmarshal_marshal: "Unmarshal (marshal e @ r) = e"
  by (simp add: Unmarshal_def marshal_def)

lemma Unmarshal_marshal_self [simp]: "Unmarshal (marshal e) = e"
  using Unmarshal_marshal [of e "[]"] by simp

interpretation event_codec: codec marshal read_event "\<lambda>_. True"
  by unfold_locales (simp add: read_event_def)

section \<open>Identity and key bitmap\<close>

record input_id =
  Bus :: "16 word"
  Vendor :: "16 word"
  Product :: "16 word"
  Version :: "16 word"

definition idFromBytes :: "bytes \<Rightarrow> input_id" where
  "idFromBytes b =
     \<lparr>Bus = get_le (take 2 b), Vendor = get_le (take 2 (drop 2 b)),
      Product = get_le (take 2 (drop 4 b)), Version = get_le (take 2 (drop 6 b))\<rparr>"

definition keysFromBitmap :: "bytes \<Rightarrow> 16 word list" where
  "keysFromBitmap buf =
     map of_nat (filter (\<lambda>i. (buf ! (i div 8)) AND push_bit (i mod 8) 1 \<noteq> 0) [0 ..< length buf * 8])"

text \<open>\<open>copy(buf[:79], name)\<close> into a zeroed buffer, then the identity at offset 80.\<close>

definition devSize :: nat where "devSize = 80 + 8 + 4 + 4 * 64 * 4"

definition userDev :: "string \<Rightarrow> input_id \<Rightarrow> bytes" where
  "userDev name dev =
     (let n = take 79 (str_bytes name)
      in n @ replicate (80 - length n) 0 @ put_le 2 (Bus dev) @ put_le 2 (Vendor dev)
         @ put_le 2 (Product dev) @ put_le 2 (Version dev) @ replicate (devSize - 88) 0)"

lemma length_userDev: "length (userDev name dev) = devSize"
proof -
  have "88 \<le> devSize" by (simp add: devSize_def)
  then show ?thesis by (simp add: userDev_def Let_def)
qed

lemma idFromBytes_userDev: "idFromBytes (take 8 (drop 80 (userDev name dev))) = dev"
  by (simp add: userDev_def Let_def idFromBytes_def min_def)

lemma userDev_terminated: "userDev name dev ! 79 = 0"
  by (auto simp: userDev_def Let_def nth_append min_def)

lemma byte_bit_and: "(b AND push_bit i 1 \<noteq> (0 :: byte)) = bit b i" if "i < 8"
proof -
  have "(b AND push_bit i 1 = (0 :: byte)) \<longleftrightarrow> \<not> bit b i"
  proof
    assume z: "b AND push_bit i 1 = (0 :: byte)"
    show "\<not> bit b i"
    proof
      assume "bit b i"
      with that have "bit (b AND push_bit i 1) i" by (simp add: bit_simps)
      with z show False by simp
    qed
  next
    assume "\<not> bit b i"
    then show "b AND push_bit i 1 = (0 :: byte)"
      by (intro bit_word_eqI) (auto simp: bit_simps)
  qed
  then show ?thesis by simp
qed

lemma keysFromBitmap_bits:
  "keysFromBitmap buf = map of_nat (filter (\<lambda>i. bit (buf ! (i div 8)) (i mod 8)) [0 ..< length buf * 8])"
proof -
  have "(buf ! (i div 8)) AND push_bit (i mod 8) 1 \<noteq> 0 \<longleftrightarrow> bit (buf ! (i div 8)) (i mod 8)" for i
    by (rule byte_bit_and) simp
  then show ?thesis unfolding keysFromBitmap_def by simp
qed

section \<open>Emitting a key\<close>

text \<open>
  The writer is the clone's descriptor: \<open>wr w bytes\<close> is the next state of the descriptor and the
  error, if any. \<open>emit\<close> writes the key and then the synchronisation event.
\<close>

definition emit :: "('w \<Rightarrow> bytes \<Rightarrow> 'w \<times> string option) \<Rightarrow> 'w \<Rightarrow> 16 word \<Rightarrow> 32 word
                    \<Rightarrow> 'w \<times> string option" where
  "emit wr w code value =
     (case wr w (marshal \<lparr>Sec = 0, Usec = 0, Type = EvKey, Code = code, Value = value\<rparr>) of
        (w1, Some e) \<Rightarrow> (w1, Some e)
      | (w1, None) \<Rightarrow> wr w1 (marshal \<lparr>Sec = 0, Usec = 0, Type = evSyn, Code = synReport, Value = 0\<rparr>))"

section \<open>Properties\<close>

text \<open>
  A stream of marshalled events is read back event by event, in order, and nothing after it is
  touched.
\<close>

theorem event_stream_roundtrip:
  "read_n read_event (length es) (concat (map marshal es) @ r) = Some (es, r)"
  by (rule event_codec.read_n_enc) (simp add: list_all_iff)

text \<open>
  The keys read off a bitmap are exactly the set bits, in ascending order and without
  duplicates, for any bitmap the kernel can fill (up to 8192 bytes of it).
\<close>

theorem keysFromBitmap_correct:
  assumes "length buf \<le> 8192"
  shows "distinct (keysFromBitmap buf)
    \<and> sorted (map unat (keysFromBitmap buf))
    \<and> (\<forall>k. k \<in> set (keysFromBitmap buf) \<longleftrightarrow>
          unat k < 8 * length buf \<and> bit (buf ! (unat k div 8)) (unat k mod 8))"
proof -
  let ?xs = "filter (\<lambda>i. bit (buf ! (i div 8)) (i mod 8)) [0 ..< length buf * 8]"
  have small: "i \<in> set ?xs \<Longrightarrow> unat (of_nat i :: 16 word) = i" for i
    using assms by (auto simp: unat_of_nat)
  then have un: "map unat (keysFromBitmap buf) = ?xs"
    unfolding keysFromBitmap_bits map_map by (intro map_idI) (simp only: o_def)
  have srt: "sorted ?xs" by (rule sorted_wrt_filter) simp
  have "distinct (map unat (keysFromBitmap buf))" by (simp add: un)
  then have dst: "distinct (keysFromBitmap buf)" by (simp add: distinct_map)
  have mem: "k \<in> set (keysFromBitmap buf) \<longleftrightarrow> unat k \<in> set ?xs" for k
  proof -
    have "k \<in> set (keysFromBitmap buf) \<longleftrightarrow> unat k \<in> unat ` set (keysFromBitmap buf)"
      by (auto simp: inj_image_mem_iff)
    also have "\<dots> \<longleftrightarrow> unat k \<in> set ?xs" using arg_cong [OF un, of set] by simp
    finally show ?thesis .
  qed
  have "k \<in> set (keysFromBitmap buf) \<longleftrightarrow>
      unat k < 8 * length buf \<and> bit (buf ! (unat k div 8)) (unat k mod 8)" for k
    unfolding mem by (simp add: mult.commute)
  then show ?thesis using un srt dst by (simp only: simp_thms)
qed

theorem keysFromBitmap_correct_witness:
  "length [4, 0, 129 :: byte] \<le> 8192 \<and> distinct (keysFromBitmap [4, 0, 129])"
  using keysFromBitmap_correct [of "[4, 0, 129]"] by (simp del: unat_eq_zero)

end
