(* ===== verification/Button.thy ===== *)
theory Button
  imports Evdev
begin

text \<open>
  \<open>internal/button\<close>: the loop that routes the grabbed node's events to the clone and to the two
  callbacks (\<open>route\<close>), the modes it is steered by, and the volume guard's wait. The loop reads the
  clock once per event of a watched key; the time is part of the input. \<open>SetMode\<close> comes from
  another goroutine between two events, so a run is a sequence of both.
\<close>

section \<open>Modes\<close>

datatype mode = ModeIntercept | ModeMonitor | ModePassThrough

fun mode_string :: "mode \<Rightarrow> string" where
  "mode_string ModeIntercept = ''intercept''"
| "mode_string ModeMonitor = ''monitor''"
| "mode_string ModePassThrough = ''pass through''"

lemma mode_string_inj [simp]: "mode_string a = mode_string b \<longleftrightarrow> a = b"
  by (cases a; cases b) simp_all

text \<open>The zero value of \<open>latched\<close> is \<open>ModeIntercept\<close>.\<close>

record watch =
  wmode :: mode
  pressedAt :: "time option"
  latched :: mode

type_synonym watched = "16 word \<rightharpoonup> watch"

definition new_watch :: "mode \<Rightarrow> watch" where
  "new_watch m = \<lparr>wmode = m, pressedAt = None, latched = ModeIntercept\<rparr>"

definition Mode :: "watched \<Rightarrow> 16 word \<Rightarrow> mode" where
  "Mode ws c = (case ws c of None \<Rightarrow> ModePassThrough | Some w \<Rightarrow> wmode w)"

definition SetMode :: "watched \<Rightarrow> 16 word \<Rightarrow> mode \<Rightarrow> watched" where
  "SetMode ws c m = (case ws c of None \<Rightarrow> ws | Some w \<Rightarrow> ws(c \<mapsto> w\<lparr>wmode := m\<rparr>))"

section \<open>Opening\<close>

text \<open>
  What the kernel answers while the interceptor opens: each call's error or result. The deferred
  cleanup closes what was acquired unless the grab went through.
\<close>

datatype resource = NodeFile | CloneDevice

record open_env =
  appeared :: bool
  opens :: "string option"
  dev_keys :: "string + 16 word list"
  dev_id :: "string + input_id"
  uinput_err :: "string option"
  grab_err :: "string option"

datatype open_error = NoKeycodes | NeverAppeared | OpenFailed string | KeysFailed string
  | DeclaresNone | IdFailed string | UinputFailed string | GrabFailed string

definition open_interceptor ::
    "open_env \<Rightarrow> (16 word \<times> mode) list \<Rightarrow> (open_error + watched) \<times> resource list \<times> resource list" where
  "open_interceptor env start =
     (if start = [] then (Inl NoKeycodes, [], [])
      else if \<not> appeared env then (Inl NeverAppeared, [], [])
      else (case opens env of
        Some e \<Rightarrow> (Inl (OpenFailed e), [], [])
      | None \<Rightarrow> (case dev_keys env of
          Inl e \<Rightarrow> (Inl (KeysFailed e), [NodeFile], [NodeFile])
        | Inr keys \<Rightarrow>
            if keys = [] then (Inl DeclaresNone, [NodeFile], [NodeFile])
            else (case dev_id env of
              Inl e \<Rightarrow> (Inl (IdFailed e), [NodeFile], [NodeFile])
            | Inr devid \<Rightarrow> (case uinput_err env of
                Some e \<Rightarrow> (Inl (UinputFailed e), [NodeFile], [NodeFile])
              | None \<Rightarrow> (case grab_err env of
                  Some e \<Rightarrow> (Inl (GrabFailed e), [NodeFile, CloneDevice], [CloneDevice, NodeFile])
                | None \<Rightarrow> (Inr (map_of (map (\<lambda>(c, m). (c, new_watch m)) start)),
                           [NodeFile, CloneDevice], [])))))))"

section \<open>Routing\<close>

text \<open>The calls one event leads to: the two callbacks and the emission on the clone.\<close>

datatype action = OnDown "16 word" mode | OnPress "16 word" mode duration | Pass "16 word" "32 word"

definition pass_key :: "event \<Rightarrow> action list" where
  "pass_key e = (if Type e = EvKey then [Pass (Code e) (Value e)] else [])"

definition press_watch :: "time \<Rightarrow> watch \<Rightarrow> watch" where
  "press_watch now w = w\<lparr>latched := wmode w, pressedAt := Some now\<rparr>"

definition release_watch :: "watch \<Rightarrow> watch" where
  "release_watch w =
     (case pressedAt w of None \<Rightarrow> w\<lparr>latched := wmode w\<rparr> | Some t \<Rightarrow> w\<lparr>pressedAt := None\<rparr>)"

definition route_event :: "watched \<Rightarrow> time \<times> event \<Rightarrow> watched \<times> action list" where
  "route_event ws te =
     (case te of (now, e) \<Rightarrow>
       (case ws (Code e) of
          Some w \<Rightarrow>
            if Type e = EvKey then
              (if Value e = KeyPress then
                 let w' = press_watch now w
                 in (ws(Code e \<mapsto> w'),
                     (if latched w' \<noteq> ModePassThrough then [OnDown (Code e) (latched w')] else [])
                     @ (if latched w' = ModeIntercept then [] else pass_key e))
               else if Value e = KeyRelease then
                 let w' = release_watch w
                 in (ws(Code e \<mapsto> w'),
                     (case pressedAt w of
                        None \<Rightarrow> []
                      | Some t \<Rightarrow> if latched w' \<noteq> ModePassThrough
                                   then [OnPress (Code e) (latched w') (now - t)] else [])
                     @ (if latched w' = ModeIntercept then [] else pass_key e))
               else if pressedAt w = None then (ws, [])
               else (ws, if latched w = ModeIntercept then [] else pass_key e))
            else (ws, pass_key e)
        | None \<Rightarrow> (ws, pass_key e)))"

text \<open>
  The loop itself: it stops at the end of the input or when the clone refuses a write
  (\<open>refuses n\<close>: the \<open>n\<close>-th emission fails).
\<close>

datatype route_end = EndOfInput | PassthroughFailed "16 word"

fun carry_out :: "(nat \<Rightarrow> bool) \<Rightarrow> nat \<Rightarrow> action list \<Rightarrow> action list \<times> nat \<times> (16 word) option" where
  "carry_out refuses n [] = ([], n, None)"
| "carry_out refuses n (Pass c v # as) =
     (if refuses n then ([], n, Some c)
      else (case carry_out refuses (Suc n) as of (done, k, r) \<Rightarrow> (Pass c v # done, k, r)))"
| "carry_out refuses n (a # as) =
     (case carry_out refuses n as of (done, k, r) \<Rightarrow> (a # done, k, r))"

fun route :: "(nat \<Rightarrow> bool) \<Rightarrow> nat \<Rightarrow> watched \<Rightarrow> (time \<times> event) list
              \<Rightarrow> watched \<times> action list \<times> route_end" where
  "route refuses n ws [] = (ws, [], EndOfInput)"
| "route refuses n ws (te # tes) =
     (case route_event ws te of (ws', acts) \<Rightarrow>
        (case carry_out refuses n acts of
           (done, k, Some c) \<Rightarrow> (ws', done, PassthroughFailed c)
         | (done, k, None) \<Rightarrow>
             (case route refuses k ws' tes of (ws'', rest, r) \<Rightarrow> (ws'', done @ rest, r))))"

lemma carry_out_all: "carry_out (\<lambda>_. False) n acts = (acts, k, r) \<Longrightarrow> r = None"
  by (induction "\<lambda>_::nat. False" n acts arbitrary: k r rule: carry_out.induct)
    (auto split: prod.splits)

lemma carry_out_never: "\<exists>k. carry_out (\<lambda>_. False) n acts = (acts, k, None)"
  by (induction "\<lambda>_::nat. False" n acts rule: carry_out.induct) auto

text \<open>With a clone that takes every write, the loop is the run of \<open>route_event\<close>.\<close>

lemma route_no_refusal:
  "route (\<lambda>_. False) n ws tes = (ws', out, r) \<longleftrightarrow>
     run_out route_event ws tes = (ws', out) \<and> r = EndOfInput"
proof (induction tes arbitrary: n ws ws' out r)
  case (Cons te tes)
  obtain w1 acts where 1: "route_event ws te = (w1, acts)" by fastforce
  obtain k where 2: "carry_out (\<lambda>_. False) n acts = (acts, k, None)" using carry_out_never by blast
  show ?case using Cons [of k w1] 1 2 by (auto split: prod.splits)
qed auto

text \<open>A press of the clone's own key, for the microphone switch.\<close>

definition press_key :: "(bool \<Rightarrow> string option) \<Rightarrow> (string + unit)" where
  "press_key emit_err =
     (case emit_err True of
        Some e \<Rightarrow> Inl e
      | None \<Rightarrow> (case emit_err False of Some e \<Rightarrow> Inl e | None \<Rightarrow> Inr ()))"

section \<open>What the clone and the callbacks see\<close>

text \<open>Inputs of a run: an event with its time, or another goroutine's \<open>SetMode\<close>.\<close>

datatype input = Ev time event | Steer "16 word" mode

fun intercept_step :: "watched \<Rightarrow> input \<Rightarrow> watched \<times> action list" where
  "intercept_step ws (Ev now e) = route_event ws (now, e)"
| "intercept_step ws (Steer c m) = (SetMode ws c m, [])"

text \<open>Whether the clone holds a key down after the emissions \<open>acts\<close>.\<close>

fun clone_step :: "(16 word \<Rightarrow> bool) \<Rightarrow> action \<Rightarrow> (16 word \<Rightarrow> bool)" where
  "clone_step d (Pass c v) =
     (if v = KeyPress then d(c := True) else if v = KeyRelease then d(c := False) else d)"
| "clone_step d _ = d"

definition clone_after :: "(16 word \<Rightarrow> bool) \<Rightarrow> action list \<Rightarrow> (16 word \<Rightarrow> bool)" where
  "clone_after d acts = foldl clone_step d acts"

text \<open>The keys the physical buttons hold: the kernel reports a press only of a key that is up.\<close>

fun phys_step :: "(16 word \<Rightarrow> bool) \<Rightarrow> input \<Rightarrow> (16 word \<Rightarrow> bool)" where
  "phys_step p (Ev now e) =
     (if Type e = EvKey then
        (if Value e = KeyPress then p(Code e := True)
         else if Value e = KeyRelease then p(Code e := False) else p)
      else p)"
| "phys_step p (Steer c m) = p"

fun kernel_ok :: "(16 word \<Rightarrow> bool) \<Rightarrow> input list \<Rightarrow> bool" where
  "kernel_ok p [] = True"
| "kernel_ok p (i # is) =
     ((case i of Ev now e \<Rightarrow> Type e = EvKey \<and> Value e = KeyPress \<longrightarrow> \<not> p (Code e) | _ \<Rightarrow> True)
      \<and> kernel_ok (phys_step p i) is)"

definition clone_inv :: "(16 word \<Rightarrow> bool) \<Rightarrow> (16 word \<Rightarrow> bool) \<Rightarrow> watched \<Rightarrow> bool" where
  "clone_inv p d ws \<longleftrightarrow>
     (\<forall>c w. ws c = Some w \<longrightarrow>
        (pressedAt w \<noteq> None \<longrightarrow> p c) \<and> (d c \<longrightarrow> pressedAt w \<noteq> None \<and> latched w \<noteq> ModeIntercept))"

lemma key_values [simp]: "KeyPress \<noteq> KeyRelease" "KeyRelease \<noteq> KeyPress"
  by (simp_all add: KeyPress_def KeyRelease_def)

lemma clone_after_append: "clone_after d (xs @ ys) = clone_after (clone_after d xs) ys"
  by (simp add: clone_after_def)

lemma clone_after_simps [simp]:
  "clone_after d [] = d" "clone_after d (a # as) = clone_after (clone_step d a) as"
  by (simp_all add: clone_after_def)

lemma clone_after_pass_key:
  "clone_after d (pass_key e) = (if Type e = EvKey then clone_step d (Pass (Code e) (Value e)) else d)"
  by (simp add: pass_key_def)

text \<open>An event concerns its own key only.\<close>

lemma route_event_frame:
  assumes "route_event ws (now, e) = (ws', acts)" "c \<noteq> Code e"
  shows "ws' c = ws c \<and> clone_after d acts c = d c \<and> phys_step p (Ev now e) c = p c"
  using assms
  by (auto simp: route_event_def Let_def clone_after_append clone_after_pass_key
      split: option.splits if_splits)

definition key_inv :: "bool \<Rightarrow> bool \<Rightarrow> watch option \<Rightarrow> bool" where
  "key_inv up down wo \<longleftrightarrow> (\<forall>w. wo = Some w \<longrightarrow>
     (pressedAt w \<noteq> None \<longrightarrow> up) \<and> (down \<longrightarrow> pressedAt w \<noteq> None \<and> latched w \<noteq> ModeIntercept))"

lemma clone_inv_alt: "clone_inv p d ws \<longleftrightarrow> (\<forall>c. key_inv (p c) (d c) (ws c))"
  by (auto simp: clone_inv_def key_inv_def)

lemma route_event_own_key:
  assumes "key_inv (p (Code e)) (d (Code e)) (ws (Code e))"
    and "Type e = EvKey \<and> Value e = KeyPress \<longrightarrow> \<not> p (Code e)"
    and "route_event ws (now, e) = (ws', acts)"
  shows "key_inv (phys_step p (Ev now e) (Code e)) (clone_after d acts (Code e)) (ws' (Code e))"
proof (cases "ws (Code e)")
  case None
  with assms(3) show ?thesis by (auto simp: route_event_def key_inv_def)
next
  case (Some w)
  consider "Type e \<noteq> EvKey" | "Type e = EvKey" "Value e = KeyPress"
    | "Type e = EvKey" "Value e = KeyRelease"
    | "Type e = EvKey" "Value e \<noteq> KeyPress" "Value e \<noteq> KeyRelease" by blast
  then show ?thesis
    by cases (use assms Some in
      \<open>auto simp: route_event_def key_inv_def Let_def clone_after_append clone_after_pass_key
        press_watch_def release_watch_def split: if_splits option.splits\<close>)
qed

lemma clone_inv_event:
  assumes "clone_inv p d ws" "Type e = EvKey \<and> Value e = KeyPress \<longrightarrow> \<not> p (Code e)"
    and "route_event ws (now, e) = (ws', acts)"
  shows "clone_inv (phys_step p (Ev now e)) (clone_after d acts) ws'"
  unfolding clone_inv_alt
proof
  fix c
  have all: "key_inv (p c) (d c) (ws c)" for c using assms(1) by (simp add: clone_inv_alt)
  show "key_inv (phys_step p (Ev now e) c) (clone_after d acts c) (ws' c)"
  proof (cases "c = Code e")
    case True
    with route_event_own_key [of p e d ws, OF all assms(2,3)] show ?thesis by simp
  next
    case False
    with route_event_frame [OF assms(3) False, of d p] all show ?thesis by simp
  qed
qed

lemma clone_inv_steer: "clone_inv p d ws \<Longrightarrow> clone_inv p d (SetMode ws c m)"
  by (auto simp: clone_inv_def SetMode_def split: option.splits)

lemma clone_inv_run:
  "clone_inv p d ws \<Longrightarrow> kernel_ok p is \<Longrightarrow> run_out intercept_step ws is = (ws', acts) \<Longrightarrow>
     clone_inv (foldl phys_step p is) (clone_after d acts) ws'"
proof (induction "is" arbitrary: p d ws acts)
  case Nil
  then show ?case by (simp add: clone_after_def)
next
  case (Cons i "is")
  obtain w1 a1 where 1: "intercept_step ws i = (w1, a1)" by fastforce
  obtain a2 where 2: "run_out intercept_step w1 is = (ws', a2)" "acts = a1 @ a2"
    using Cons.prems(3) 1 by (auto split: prod.splits)
  have "clone_inv (phys_step p i) (clone_after d a1) w1"
  proof (cases i)
    case (Ev now e)
    with Cons.prems(2) have "Type e = EvKey \<and> Value e = KeyPress \<longrightarrow> \<not> p (Code e)" by simp
    from clone_inv_event [OF Cons.prems(1) this] 1 Ev show ?thesis by simp
  next
    case (Steer c m)
    with 1 Cons.prems show ?thesis by (auto intro: clone_inv_steer simp: clone_after_def)
  qed
  from Cons.IH [OF this] Cons.prems(2) 2 show ?case by (simp add: clone_after_append)
qed

lemma dom_intercept: "dom (fst (intercept_step ws i)) = dom ws"
  by (cases i) (auto simp: route_event_def SetMode_def Let_def split: option.splits if_splits)

lemma dom_intercept_run: "dom (fst (run_out intercept_step ws is)) = dom ws"
proof (induction "is" arbitrary: ws)
  case (Cons i "is")
  obtain w1 a1 where 1: "intercept_step ws i = (w1, a1)" by fastforce
  obtain w2 a2 where 2: "run_out intercept_step w1 is = (w2, a2)" by fastforce
  show ?case using Cons [of w1] dom_intercept [of ws i] 1 2 by simp
qed simp

section \<open>The volume guard\<close>

definition KeyVolumeDown :: "16 word" where "KeyVolumeDown = 114"
definition KeyVolumeUp :: "16 word" where "KeyVolumeUp = 115"

definition volumeKeysOn :: "16 word list \<Rightarrow> 16 word option" where
  "volumeKeysOn keys = find (\<lambda>want. want \<notin> set keys) [KeyVolumeUp, KeyVolumeDown]"

definition volume_press :: "event \<Rightarrow> bool" where
  "volume_press e = (Type e = EvKey \<and> Value e = KeyPress
     \<and> (Code e = KeyVolumeUp \<or> Code e = KeyVolumeDown))"

text \<open>\<open>None\<close>: the stream ended before a volume key went down.\<close>

function waitForVolumeKey :: "bytes \<Rightarrow> bytes option" where
  "waitForVolumeKey s =
     (case read_event s of
        None \<Rightarrow> None
      | Some (e, r) \<Rightarrow> if volume_press e then Some r else waitForVolumeKey r)"
  by pat_completeness auto
termination
  by (relation "measure length") (auto simp: read_event_def EventSize_def split: if_splits)

declare waitForVolumeKey.simps [simp del]

lemma waitForVolumeKey_marshal:
  "waitForVolumeKey (marshal e @ r) = (if volume_press e then Some r else waitForVolumeKey r)"
  using event_codec.dec_enc [of e r] by (subst waitForVolumeKey.simps) simp

lemma waitForVolumeKey_skips:
  "list_all (\<lambda>e. \<not> volume_press e) es \<Longrightarrow>
     waitForVolumeKey (concat (map marshal es) @ r) = waitForVolumeKey r"
  by (induction es) (simp_all add: waitForVolumeKey_marshal)

lemma waitForVolumeKey_short: "length s < EventSize \<Longrightarrow> waitForVolumeKey s = None"
  by (subst waitForVolumeKey.simps) (simp add: read_event_def)

section \<open>Waiting for a node\<close>

text \<open>\<open>found t\<close>: whether the node can be stat'ed at time \<open>t\<close>. The result is the time the wait ends
  with the node there, \<open>None\<close> when it never appeared.\<close>

function waitForNode :: "(time \<Rightarrow> bool) \<Rightarrow> time \<Rightarrow> time \<Rightarrow> time option" where
  "waitForNode found now deadline =
     (if found now then Some now
      else if deadline - now \<le> 0 then None
      else waitForNode found (now + min (deadline - now) second) deadline)"
  by pat_completeness auto
termination
  by (relation "measure (\<lambda>(f, now, d). nat (d - now))") auto

declare waitForNode.simps [simp del]

section \<open>Properties\<close>

text \<open>
  C1. Steering a button while it is held strands nothing: however modes change between events, the
  clone holds a watched key only while the physical button is held down, so once the button is up
  the clone has released it. The hypothesis is what the kernel reports: a press only of a key that
  is up.
\<close>

theorem clone_never_stuck:
  assumes "\<forall>c w. ws c = Some w \<longrightarrow> pressedAt w = None" "kernel_ok (\<lambda>_. False) is"
    and "run_out intercept_step ws is = (ws', acts)" "c \<in> dom ws"
    and "\<not> foldl phys_step (\<lambda>_. False) is c"
  shows "\<not> clone_after (\<lambda>_. False) acts c"
proof -
  have "clone_inv (\<lambda>_. False) (\<lambda>_. False) ws" using assms(1) by (simp add: clone_inv_def)
  from clone_inv_run [OF this assms(2,3)]
  have inv: "clone_inv (foldl phys_step (\<lambda>_. False) is) (clone_after (\<lambda>_. False) acts) ws'" .
  have "c \<in> dom ws'" using dom_intercept_run [of ws "is"] assms(3,4) by simp
  then obtain w where "ws' c = Some w" by blast
  with inv assms(5) show ?thesis unfolding clone_inv_def by blast
qed

definition demo_event :: "32 word \<Rightarrow> event" where
  "demo_event v = \<lparr>Sec = 0, Usec = 0, Type = EvKey, Code = 138, Value = v\<rparr>"

definition demo_watched :: watched where
  "demo_watched = [138 \<mapsto> new_watch ModeMonitor]"

definition demo_inputs :: "input list" where
  "demo_inputs = [Ev 5 (demo_event KeyPress), Steer 138 ModeIntercept, Ev 9 (demo_event KeyRelease)]"

theorem clone_never_stuck_witness:
  "\<not> clone_after (\<lambda>_. False) (snd (run_out intercept_step demo_watched demo_inputs)) 138"
  by (rule clone_never_stuck [of demo_watched demo_inputs "fst (run_out intercept_step demo_watched demo_inputs)"])
    (auto simp: demo_watched_def demo_inputs_def demo_event_def new_watch_def
      KeyPress_def KeyRelease_def split: if_splits)

text \<open>
  In the mode latched at the press, a press and its release are treated alike whatever
  \<open>SetMode\<close> did in between: an intercepted pair reaches the callbacks only, a monitored pair both,
  a passed pair the clone only.
\<close>

theorem press_release_pair:
  assumes "ws c = Some w" "Type e = EvKey" "Code e = c" "Value e = KeyPress"
    and "Type e' = EvKey" "Code e' = c" "Value e' = KeyRelease"
  shows "snd (run_out intercept_step ws (Ev t e # map (Steer c) ms @ [Ev t' e'])) =
    (case wmode w of
       ModeIntercept \<Rightarrow> [OnDown c ModeIntercept, OnPress c ModeIntercept (t' - t)]
     | ModeMonitor \<Rightarrow> [OnDown c ModeMonitor, Pass c KeyPress,
                       OnPress c ModeMonitor (t' - t), Pass c KeyRelease]
     | ModePassThrough \<Rightarrow> [Pass c KeyPress, Pass c KeyRelease])"
proof -
  have steer: "\<exists>m. run_out intercept_step v (map (Steer c) ms) = (v(c \<mapsto> u\<lparr>wmode := m\<rparr>), [])"
    if "v c = Some u" for v u
    using that
  proof (induction ms arbitrary: v u)
    case Nil
    have "v = v(c \<mapsto> u\<lparr>wmode := wmode u\<rparr>)" using Nil by (auto simp: fun_eq_iff)
    then show ?case by (intro exI [of _ "wmode u"]) simp
  next
    case (Cons m ms)
    have "\<exists>m'. run_out intercept_step (v(c \<mapsto> u\<lparr>wmode := m\<rparr>)) (map (Steer c) ms) =
        ((v(c \<mapsto> u\<lparr>wmode := m\<rparr>))(c \<mapsto> u\<lparr>wmode := m, wmode := m'\<rparr>), [])"
      by (rule Cons.IH) simp
    then obtain m' where "run_out intercept_step (v(c \<mapsto> u\<lparr>wmode := m\<rparr>)) (map (Steer c) ms) =
        (v(c \<mapsto> u\<lparr>wmode := m'\<rparr>), [])" by auto
    with Cons.prems have "run_out intercept_step v (map (Steer c) (m # ms)) =
        (v(c \<mapsto> u\<lparr>wmode := m'\<rparr>), [])" by (simp add: SetMode_def)
    then show ?case by blast
  qed
  obtain m where m: "run_out intercept_step (ws(c \<mapsto> press_watch t w)) (map (Steer c) ms) =
      (ws(c \<mapsto> (press_watch t w)\<lparr>wmode := m\<rparr>), [])"
    using steer [of "ws(c \<mapsto> press_watch t w)" "press_watch t w"] by auto
  show ?thesis
    using assms m
    by (cases "wmode w")
      (auto simp: route_event_def run_out_append press_watch_def release_watch_def Let_def
        pass_key_def split: prod.splits)
qed

theorem press_release_pair_witness:
  "snd (run_out intercept_step demo_watched
      (Ev 5 (demo_event KeyPress) # map (Steer 138) [ModeIntercept] @ [Ev 9 (demo_event KeyRelease)]))
   = [OnDown 138 ModeMonitor, Pass 138 KeyPress, OnPress 138 ModeMonitor 4, Pass 138 KeyRelease]"
  using press_release_pair [of demo_watched 138 "new_watch ModeMonitor" "demo_event KeyPress"
      "demo_event KeyRelease" 5 "[ModeIntercept]" 9]
  by (simp add: demo_watched_def demo_event_def new_watch_def)

text \<open>
  A failed \<open>Open\<close> leaves nothing behind: whatever it had acquired it closes, the clone before
  the node, and only a success keeps both.
\<close>

theorem open_releases:
  "case open_interceptor env start of
     (Inl err, acquired, closed) \<Rightarrow> closed = rev acquired
   | (Inr ws, acquired, closed) \<Rightarrow>
       acquired = [NodeFile, CloneDevice] \<and> closed = [] \<and> dom ws = fst ` set start"
proof -
  have "fst ` set (map (\<lambda>(c, m). (c, new_watch m)) start) = fst ` set start" by force
  then show ?thesis
    by (auto simp: open_interceptor_def dom_map_of_conv_image_fst split: option.splits sum.splits
        simp del: set_map)
qed

end
