(* ===== verification/Evdev_Uinput.thy ===== *)
theory Evdev_Uinput
  imports Go_Sys Button
begin

text \<open>
  The calls on the kernel of \<open>internal/evdev\<close> and of the openers in \<open>internal/button\<close>: reading a node's keys and
  identity, grabbing it, the clone made through \<open>/dev/uinput\<close>, the interceptor and the volume guard.  The numbers of the
  requests are what the macros of the kernel's headers make of their comments (\<open>ioctl_numbers\<close>).
\<close>

definition eviocgrab :: "32 word" where "eviocgrab = 0x40044590"
definition keyBytes :: nat where "keyBytes = 96"
definition eviocgbitKey :: "32 word" where "eviocgbitKey = 0x80604521"
definition idBytes :: nat where "idBytes = 8"
definition eviocgid :: "32 word" where "eviocgid = 0x80084502"
definition uinputNode :: string where "uinputNode = ''/dev/uinput''"
definition uiSetEvbit :: "32 word" where "uiSetEvbit = 0x40045564"
definition uiSetKeybit :: "32 word" where "uiSetKeybit = 0x40045565"
definition uiDevCreate :: "32 word" where "uiDevCreate = 0x5501"
definition uiDevDestroy :: "32 word" where "uiDevDestroy = 0x5502"

text \<open>\<open>_IOC(dir, type, nr, size)\<close>: a direction of 1 writes, of 2 reads.\<close>

definition ioc :: "nat \<Rightarrow> char \<Rightarrow> nat \<Rightarrow> nat \<Rightarrow> 32 word" where
  "ioc dir t nr sz = word_of_nat (dir * 2 ^ 30 + sz * 2 ^ 16 + of_char t * 2 ^ 8 + nr)"

lemma ioctl_numbers:
  "eviocgrab = ioc 1 CHR ''E'' 0x90 4" "eviocgbitKey = ioc 2 CHR ''E'' (0x20 + 1) keyBytes"
  "eviocgid = ioc 2 CHR ''E'' 2 idBytes" "uiSetEvbit = ioc 1 CHR ''U'' 100 4" "uiSetKeybit = ioc 1 CHR ''U'' 101 4"
  "uiDevCreate = ioc 0 CHR ''U'' 1 0" "uiDevDestroy = ioc 0 CHR ''U'' 2 0"
  by (simp_all add: ioc_def eviocgrab_def eviocgbitKey_def eviocgid_def uiSetEvbit_def uiSetKeybit_def uiDevCreate_def
      uiDevDestroy_def keyBytes_def idBytes_def)

section \<open>Calls on a node\<close>

text \<open>The kernel fills a buffer of the length asked for.\<close>

definition filled :: "nat \<Rightarrow> bytes \<Rightarrow> bytes" where
  "filled len b = take len (b @ replicate len 0)"

definition DeviceID :: "kernel \<Rightarrow> nat \<Rightarrow> input_id sys" where
  "DeviceID K n = sys_then (sys K (SFetch n eviocgid idBytes)) (\<lambda>b. sys_ret (idFromBytes (filled idBytes b)))"

definition DeviceKeys :: "kernel \<Rightarrow> nat \<Rightarrow> 16 word list sys" where
  "DeviceKeys K n = sys_then (sys K (SFetch n eviocgbitKey keyBytes)) (\<lambda>b. sys_ret (keysFromBitmap (filled keyBytes b)))"

definition Grab :: "kernel \<Rightarrow> nat \<Rightarrow> bool \<Rightarrow> bytes sys" where
  "Grab K n on = sys K (SIoctl n eviocgrab (if on then 1 else 0))"

section \<open>The clone\<close>

definition set_keys :: "nat \<Rightarrow> 16 word list \<Rightarrow> sys_call list" where
  "set_keys n keys = map (\<lambda>k. SIoctl n uiSetKeybit (ucast k)) keys"

definition clone_calls :: "nat \<Rightarrow> string \<Rightarrow> input_id \<Rightarrow> 16 word list \<Rightarrow> sys_call list" where
  "clone_calls n name dev keys =
     SIoctl n uiSetEvbit (ucast EvKey) # set_keys n keys @ [SWriteAll n (userDev name dev), SIoctl n uiDevCreate 0]"

definition NewUinput :: "kernel \<Rightarrow> string \<Rightarrow> input_id \<Rightarrow> 16 word list \<Rightarrow> nat sys" where
  "NewUinput K name dev keys =
     sys_then (sys_open K (SOpen uinputNode))
       (\<lambda>n. sys_then (sys_or (sys_all K (clone_calls n name dev keys)) (sys_try K (SCloseFd n))) (\<lambda>u. sys_ret n))"

definition Uinput_Close :: "kernel \<Rightarrow> nat \<Rightarrow> unit sys" where
  "Uinput_Close K n = sys_then (sys_try K (SIoctl n uiDevDestroy 0)) (\<lambda>u. sys_try K (SCloseFd n))"

definition emit_calls :: "nat \<Rightarrow> 16 word \<Rightarrow> 32 word \<Rightarrow> sys_call list" where
  "emit_calls n code value =
     [SWriteAll n (marshal \<lparr>Sec = 0, Usec = 0, Type = EvKey, Code = code, Value = value\<rparr>),
      SWriteAll n (marshal \<lparr>Sec = 0, Usec = 0, Type = evSyn, Code = synReport, Value = 0\<rparr>)]"

definition Uinput_Emit :: "kernel \<Rightarrow> nat \<Rightarrow> 16 word \<Rightarrow> 32 word \<Rightarrow> unit sys" where
  "Uinput_Emit K n code value = sys_all K (emit_calls n code value)"

section \<open>The volume guard\<close>

definition guard_checks :: "kernel \<Rightarrow> nat \<Rightarrow> bytes sys" where
  "guard_checks K n =
     sys_then (DeviceKeys K n)
       (\<lambda>keys. case volumeKeysOn keys of Some missing \<Rightarrow> sys_fail ''declares no keycode'' | None \<Rightarrow> Grab K n True)"

definition GuardVolume_sys :: "kernel \<Rightarrow> string \<Rightarrow> bool \<Rightarrow> nat sys" where
  "GuardVolume_sys K path there =
     (if \<not> there then sys_fail ''never appeared''
      else sys_then (sys_open K (SOpen path))
             (\<lambda>n. sys_then (sys_or (guard_checks K n) (sys_try K (SCloseFd n))) (\<lambda>u. sys_ret n)))"

definition Guard_Close :: "kernel \<Rightarrow> nat \<Rightarrow> unit sys" where
  "Guard_Close K n = sys_then (sys_try K (SIoctl n eviocgrab 0)) (\<lambda>u. sys_try K (SCloseFd n))"

section \<open>The interceptor\<close>

text \<open>\<open>Open\<close> gives the node and the clone; what fails after the node is open closes it, and the clone if there is one.\<close>

definition clone_and_grab :: "kernel \<Rightarrow> string \<Rightarrow> nat \<Rightarrow> nat sys" where
  "clone_and_grab K ui n =
     sys_then (DeviceKeys K n)
       (\<lambda>keys. if keys = [] then sys_fail ''declares no keycodes''
         else sys_then (DeviceID K n)
                (\<lambda>dev. sys_then (NewUinput K ui dev keys)
                  (\<lambda>u. sys_then (sys_or (Grab K n True) (Uinput_Close K u)) (\<lambda>b. sys_ret u))))"

definition Open_interceptor :: "kernel \<Rightarrow> string \<Rightarrow> string \<Rightarrow> bool \<Rightarrow> (16 word \<times> mode) list \<Rightarrow> (nat \<times> nat) sys" where
  "Open_interceptor K path ui there start =
     (if start = [] then sys_fail ''no keycodes to act on''
      else if \<not> there then sys_fail ''never appeared''
      else sys_then (sys_open K (SOpen path))
             (\<lambda>n. sys_then (sys_or (clone_and_grab K ui n) (sys_try K (SCloseFd n))) (\<lambda>u. sys_ret (n, u))))"

definition Interceptor_Close :: "kernel \<Rightarrow> nat \<times> nat \<Rightarrow> unit sys" where
  "Interceptor_Close K nu =
     (case nu of (n, u) \<Rightarrow>
       sys_then (Uinput_Close K u) (\<lambda>x. sys_then (sys_try K (SIoctl n eviocgrab 0)) (\<lambda>y. sys_try K (SCloseFd n))))"

section \<open>What they leave open\<close>

lemma leaves_node [intro]: "leaves K (DeviceID K n)" "leaves K (DeviceKeys K n)" "leaves K (Grab K n on)"
  by (auto simp: DeviceID_def DeviceKeys_def Grab_def intro!: leaves_then leaves_sys leaves_ret)

lemma plain_clone: "list_all plain (clone_calls n name dev keys)"
  by (simp add: clone_calls_def set_keys_def list_all_iff)

lemma leaves_guard: "leaves K (guard_checks K n)"
  unfolding guard_checks_def by (intro leaves_then leaves_node) (auto intro: leaves_ret leaves_node split: option.splits)

interpretation uinput: opener K "NewUinput K name dev keys"
  for K :: kernel and name :: string and dev :: input_id and keys :: "16 word list"
  by unfold_locales
    (simp add: NewUinput_def opens_then opens_sys_open leaves_all plain_clone)

interpretation volume_guard: opener K "GuardVolume_sys K path there"
  for K :: kernel and path :: string and there :: bool
proof unfold_locales
  show "opens_one K (GuardVolume_sys K path there)"
  proof (cases there)
    case True
    then show ?thesis unfolding GuardVolume_sys_def by (simp add: opens_then opens_sys_open leaves_guard)
  qed (simp add: GuardVolume_sys_def sys_fail_def opens_one_def)
qed

lemma Uinput_Close_calls: "Uinput_Close K u s = (Inr (), s @ [SIoctl u uiDevDestroy 0, SCloseFd u])"
  by (simp add: Uinput_Close_def sys_then_def sys_try_def)

lemma fds_destroy: "fds K (s @ [SIoctl u r v, SCloseFd n]) = fds K s - {n}"
  using fds_close [of K "s @ [SIoctl u r v]" n] fds_plain [of "SIoctl u r v" K s] by simp

lemma leavesD: "leaves K m \<Longrightarrow> m s = (r, s') \<Longrightarrow> fds K s' = fds K s"
  by (simp add: leaves_def)

text \<open>Cloning and grabbing opens the clone alone; with a failed grab it is closed again.\<close>

lemma clone_and_grab_opens: "opens_one K (clone_and_grab K ui n)"
  unfolding opens_one_def
proof (intro allI impI)
  fix s r s'
  assume a: "clone_and_grab K ui n s = (r, s')"
  obtain q1 s1 where k: "DeviceKeys K n s = (q1, s1)" by fastforce
  have f1: "fds K s1 = fds K s" by (rule leavesD [OF leaves_node(2) k])
  show "case r of Inl e \<Rightarrow> fds K s' = fds K s | Inr m \<Rightarrow> m \<notin> fds K s \<and> fds K s' = insert m (fds K s)"
  proof (cases "\<exists>keys. q1 = Inr keys \<and> keys \<noteq> []")
    case False
    then show ?thesis using a k f1
      by (cases q1) (auto simp: clone_and_grab_def sys_then_def sys_fail_def)
  next
    case True
    then obtain keys where keys: "q1 = Inr keys" "keys \<noteq> []" by blast
    obtain q2 s2 where d: "DeviceID K n s1 = (q2, s2)" by fastforce
    have f2: "fds K s2 = fds K s" using leavesD [OF leaves_node(1) d] f1 by simp
    show ?thesis
    proof (cases q2)
      case (Inl e)
      then show ?thesis using a k keys d f2 by (auto simp: clone_and_grab_def sys_then_def)
    next
      case (Inr dev)
      obtain q3 s3 where u: "NewUinput K ui dev keys s2 = (q3, s3)" by fastforce
      show ?thesis
      proof (cases q3)
        case (Inl e)
        then have "fds K s3 = fds K s" using uinput.failed_open u f2 by simp
        then show ?thesis using a k keys d u Inl \<open>q2 = Inr dev\<close> by (auto simp: clone_and_grab_def sys_then_def)
      next
        case (Inr m)
        have m: "m \<notin> fds K s" "fds K s3 = insert m (fds K s)" using uinput.opened_one [of K ui dev keys s2 m s3] u Inr f2 by simp_all
        obtain q4 s4 where g: "Grab K n True s3 = (q4, s4)" by fastforce
        have f4: "fds K s4 = insert m (fds K s)" using leavesD [OF leaves_node(3) g] m(2) by simp
        have "(r, s') = (case q4 of Inl e \<Rightarrow> (Inl e, s4 @ [SIoctl m uiDevDestroy 0, SCloseFd m]) | Inr b \<Rightarrow> (Inr m, s4))"
          using a k keys d u g Inr \<open>q2 = Inr dev\<close>
          by (simp add: clone_and_grab_def sys_then_def sys_or_def sys_ret_def Uinput_Close_calls split: sum.splits)
        then show ?thesis using f4 m by (auto simp: fds_destroy split: sum.splits)
      qed
    qed
  qed
qed

section \<open>What they call\<close>

lemma sys_all_calls: "sys_all K cs s = (Inr u, s') \<Longrightarrow> s' = s @ cs"
  by (induction cs arbitrary: s) (fastforce simp: sys_ret_def sys_then_def sys_def split: prod.splits option.splits sum.splits)+

lemma NewUinput_calls:
  "NewUinput K name dev keys s = (Inr n, s') \<Longrightarrow>
     n = length s \<and> s' = s @ SOpen uinputNode # clone_calls n name dev keys"
  by (auto simp: NewUinput_def sys_then_def sys_or_def sys_open_def sys_def sys_ret_def dest: sys_all_calls
      split: prod.splits option.splits sum.splits)

lemma clone_and_grab_calls:
  assumes "clone_and_grab K ui n s = (Inr u, s')"
  shows "\<exists>keys dev. keys = keysFromBitmap (filled keyBytes (snd (K s (SFetch n eviocgbitKey keyBytes)))) \<and> keys \<noteq> []
    \<and> dev = idFromBytes (filled idBytes (snd (K (s @ [SFetch n eviocgbitKey keyBytes]) (SFetch n eviocgid idBytes))))
    \<and> s' = s @ [SFetch n eviocgbitKey keyBytes, SFetch n eviocgid idBytes, SOpen uinputNode]
             @ clone_calls u ui dev keys @ [SIoctl n eviocgrab 1]"
  using assms
  by (auto simp: clone_and_grab_def DeviceKeys_def DeviceID_def Grab_def sys_then_def sys_or_def sys_def sys_ret_def
      sys_fail_def dest!: NewUinput_calls split: prod.splits option.splits sum.splits if_splits)

section \<open>Properties\<close>

lemma Open_interceptor_opened:
  "Open_interceptor K path ui there start s = (Inr (n, u), s') \<Longrightarrow>
     sys_open K (SOpen path) s = (Inr n, s @ [SOpen path]) \<and> clone_and_grab K ui n (s @ [SOpen path]) = (Inr u, s')"
  by (auto simp: Open_interceptor_def sys_then_def sys_or_def sys_ret_def sys_fail_def sys_open_def sys_def
      split: if_splits sum.splits prod.splits option.splits)

lemma Open_interceptor_failed:
  assumes "Open_interceptor K path ui there start s = (Inl e, s')"
  shows "fds K s' = fds K s"
proof (cases "start = [] \<or> \<not> there")
  case True
  then show ?thesis using assms by (auto simp: Open_interceptor_def sys_fail_def split: if_splits)
next
  case False
  obtain q s1 where o: "sys_open K (SOpen path) s = (q, s1)" by fastforce
  have one: "case q of Inl e \<Rightarrow> fds K s1 = fds K s | Inr n \<Rightarrow> n \<notin> fds K s \<and> fds K s1 = insert n (fds K s)"
    using opens_sys_open [of "SOpen path" K] o unfolding opens_one_def by blast
  show ?thesis
  proof (cases q)
    case (Inl e')
    then show ?thesis using assms False o one by (simp add: Open_interceptor_def sys_then_def)
  next
    case (Inr n)
    obtain p s2 where c: "clone_and_grab K ui n s1 = (p, s2)" by fastforce
    have p: "p = Inl e" "s' = s2 @ [SCloseFd n]"
      using assms False o Inr c by (auto simp: Open_interceptor_def sys_then_def sys_or_def sys_try_def sys_ret_def split: sum.splits)
    then have "fds K s2 = fds K s1" using clone_and_grab_opens [of K ui n] c unfolding opens_one_def by fastforce
    then show ?thesis using one Inr p by (simp add: fds_close)
  qed
qed

text \<open>What the clone is given, said by the bits and bytes that were fetched.\<close>

lemma set_keys_bits:
  "length buf = 96 \<Longrightarrow> set_keys u (keysFromBitmap buf) =
     map (\<lambda>i. SIoctl u uiSetKeybit (of_nat i)) (filter (\<lambda>i. bit (buf ! (i div 8)) (i mod 8)) [0 ..< 768])"
  by (auto simp: set_keys_def keysFromBitmap_bits unsigned_of_nat take_bit_nat_eq_self)

lemma keys_none: "keysFromBitmap buf = [] \<longleftrightarrow> filter (\<lambda>i. bit (buf ! (i div 8)) (i mod 8)) [0 ..< length buf * 8] = []"
  by (simp add: keysFromBitmap_bits)

lemma userDev_identity:
  assumes "length b = 8"
  shows "take 8 (drop 80 (userDev name (idFromBytes b))) = b"
proof -
  obtain b0 b1 b2 b3 b4 b5 b6 b7 where b: "b = [b0, b1, b2, b3, b4, b5, b6, b7]"
    using assms by (auto simp: numeral_eq_Suc length_Suc_conv)
  have p: "put_le 2 (get_le [x, y] :: 16 word) = [x, y]" for x y
    using put_le_get_le [of "[x, y]", where ?'a = 16] by (simp add: numeral_2_eq_2)
  have "take 8 (drop 80 (userDev name d)) = put_le 2 (Bus d) @ put_le 2 (Vendor d) @ put_le 2 (Product d) @ put_le 2 (Version d)" for d
    by (simp add: userDev_def Let_def min_def)
  then show ?thesis by (simp add: b idFromBytes_def p del: put_le.simps get_le.simps)
qed

lemma length_filled: "length (filled n b) = n"
  by (simp add: filled_def)

text \<open>
  C36. Whatever the kernel answers, an \<open>Open\<close> that fails leaves open what was open, and one that succeeds exactly the node and
  the clone, which \<open>Close\<close> gives back. Between them lies the whole clone and nothing else: the calls made are the node's,
  then those that declare every key of the bitmap the kernel fetched from that node, and there is one, under the identity
  it fetched from it, and the last is the grab: the node's events are taken from the system only when there is a clone to
  pass them on. A key is a bit of that bitmap; the identity is the 8 bytes the device description carries from byte 80 on.
\<close>

theorem interceptor_leaks_nothing:
  "case Open_interceptor K path ui there start s of
     (Inl e, s') \<Rightarrow> fds K s' = fds K s
   | (Inr (n, u), s') \<Rightarrow>
       n \<notin> fds K s \<and> u \<notin> insert n (fds K s) \<and> fds K s' = {n, u} \<union> fds K s
       \<and> fds K (snd (Interceptor_Close K (n, u) s')) = fds K s
       \<and> (let bitmap = filled 96 (snd (K (s @ [SOpen path]) (SFetch n eviocgbitKey 96)));
              identity = filled 8 (snd (K (s @ [SOpen path, SFetch n eviocgbitKey 96]) (SFetch n eviocgid 8)));
              keys = filter (\<lambda>i. bit (bitmap ! (i div 8)) (i mod 8)) [0 ..< 768]
          in keys \<noteq> [] \<and> (\<exists>d. length d = devSize \<and> take 8 (drop 80 d) = identity
               \<and> s' = s @ [SOpen path, SFetch n eviocgbitKey 96, SFetch n eviocgid 8, SOpen uinputNode, SIoctl u uiSetEvbit 1]
                   @ map (\<lambda>i. SIoctl u uiSetKeybit (of_nat i)) keys
                   @ [SWriteAll u d, SIoctl u uiDevCreate 0, SIoctl n eviocgrab 1]))"
proof (cases "\<exists>n u s'. Open_interceptor K path ui there start s = (Inr (n, u), s')")
  case False
  then obtain e s' where "Open_interceptor K path ui there start s = (Inl e, s')"
    by (metis surj_pair sum.exhaust)
  then show ?thesis using Open_interceptor_failed by simp
next
  case True
  then obtain n u s' where r: "Open_interceptor K path ui there start s = (Inr (n, u), s')" by blast
  have o: "sys_open K (SOpen path) s = (Inr n, s @ [SOpen path])"
    and c: "clone_and_grab K ui n (s @ [SOpen path]) = (Inr u, s')" using Open_interceptor_opened [OF r] by simp_all
  have n: "n \<notin> fds K s" "fds K (s @ [SOpen path]) = insert n (fds K s)"
    using opens_sys_open [of "SOpen path" K] o unfolding opens_one_def by fastforce+
  have u: "u \<notin> insert n (fds K s)" "fds K s' = insert u (insert n (fds K s))"
    using clone_and_grab_opens [of K ui n] c n(2) unfolding opens_one_def by fastforce+
  have "snd (Interceptor_Close K (n, u) s') = (s' @ [SIoctl u uiDevDestroy 0, SCloseFd u]) @ [SIoctl n eviocgrab 0, SCloseFd n]"
    by (simp add: Interceptor_Close_def Uinput_Close_def sys_then_def sys_try_def)
  then have "fds K (snd (Interceptor_Close K (n, u) s')) = fds K s' - {u} - {n}" by (simp only: fds_destroy)
  then have "fds K (snd (Interceptor_Close K (n, u) s')) = fds K s" using n u by auto
  moreover obtain b i where "b = filled 96 (snd (K (s @ [SOpen path]) (SFetch n eviocgbitKey 96)))"
      "i = filled 8 (snd (K (s @ [SOpen path, SFetch n eviocgbitKey 96]) (SFetch n eviocgid 8)))" "keysFromBitmap b \<noteq> []"
      "s' = s @ [SOpen path, SFetch n eviocgbitKey 96, SFetch n eviocgid 8, SOpen uinputNode, SIoctl u uiSetEvbit 1]
        @ set_keys u (keysFromBitmap b) @ [SWriteAll u (userDev ui (idFromBytes i)), SIoctl u uiDevCreate 0, SIoctl n eviocgrab 1]"
    using clone_and_grab_calls [OF c] by (auto simp: clone_calls_def keyBytes_def idBytes_def EvKey_def)
  moreover have "length b = 96" "length i = 8" using calculation(2,3) by (simp_all add: length_filled)
  ultimately show ?thesis using n u
    by (auto simp: r Let_def set_keys_bits keys_none length_userDev userDev_identity intro!: exI [of _ "userDev ui (idFromBytes i)"])
qed

text \<open>A guard is the same: it leaks nothing when it cannot be had, and gives its node back when closed.\<close>

theorem guard_leaks_nothing:
  "case GuardVolume_sys K path there s of
     (Inl e, s') \<Rightarrow> fds K s' = fds K s
   | (Inr n, s') \<Rightarrow> n \<notin> fds K s \<and> fds K s' = insert n (fds K s) \<and> fds K (snd (Guard_Close K n s')) = fds K s"
proof -
  obtain q s' where g: "GuardVolume_sys K path there s = (q, s')" by fastforce
  have "snd (Guard_Close K n s') = s' @ [SIoctl n eviocgrab 0, SCloseFd n]" for n
    by (simp add: Guard_Close_def sys_then_def sys_try_def)
  then show ?thesis using g volume_guard.failed_open volume_guard.opened_one
    by (cases q) (auto simp: fds_destroy)
qed

end
