(* ===== verification/Mdns_Socket.thy ===== *)
theory Mdns_Socket
  imports Go_Sys Mdns
begin

text \<open>
  The responder's socket in \<open>internal/mdns/mdns.go\<close>: \<open>open\<close>, with the options set before and after the bind, and \<open>serve\<close>
  as one cycle on it: packets answered, the address looked at, and the read that ends it.  A cycle gives its socket back
  and ends without an error only when the address watch asked for a new one.
\<close>

definition addressPoll :: duration where "addressPoll = 30 * second"
definition goodbyeGap :: duration where "goodbyeGap = second"
definition goodbyeWrite :: duration where "goodbyeWrite = 2 * second"

definition group_bytes :: bytes where "group_bytes = [224, 0, 0, 251]"

definition ip_bytes :: "ip4 \<Rightarrow> bytes" where "ip_bytes a = put_be 4 a"

text \<open>Reuse is asked for before the bind; the group is joined and sent to on our own interface; the last two may fail.\<close>

definition before_bind :: "nat \<Rightarrow> sys_call list" where
  "before_bind n = [SOption n ''SO_REUSEADDR'' [1], SOption n ''SO_REUSEPORT'' [1], SBind n mdnsPort]"

definition after_bind :: "nat \<Rightarrow> ip4 \<Rightarrow> sys_call list" where
  "after_bind n a = [SOption n ''IP_ADD_MEMBERSHIP'' (group_bytes @ ip_bytes a), SOption n ''IP_MULTICAST_IF'' (ip_bytes a)]"

definition last_options :: "nat \<Rightarrow> sys_call list" where
  "last_options n = [SOption n ''IP_MULTICAST_TTL'' [255], SOption n ''IP_MULTICAST_LOOP'' [1]]"

definition socket_set :: "kernel \<Rightarrow> nat \<Rightarrow> ip4 \<Rightarrow> unit sys" where
  "socket_set K n a =
     sys_then (sys_all K (before_bind n @ after_bind n a))
       (\<lambda>u. sys_then (sys_try K (last_options n ! 0)) (\<lambda>u. sys_try K (last_options n ! 1)))"

definition responder_open :: "kernel \<Rightarrow> ip4 \<Rightarrow> nat sys" where
  "responder_open K a =
     sys_then (sys_open K SSocket)
       (\<lambda>n. sys_then (sys_or (socket_set K n a) (sys_try K (SCloseFd n))) (\<lambda>u. sys_ret n))"

lemma leaves_socket_set: "leaves K (socket_set K n a)"
  unfolding socket_set_def
  by (intro leaves_then leaves_all leaves_try) (simp_all add: before_bind_def after_bind_def last_options_def)

interpretation responder_socket: opener K "responder_open K a"
  for K :: kernel and a :: ip4
  by unfold_locales (simp add: responder_open_def opens_then opens_sys_open leaves_socket_set)

section \<open>A cycle\<close>

datatype cycle_event = CyPacket time udp_addr "dns_query option" bool | CyPoll "(ip4 \<times> (ip4 \<times> ip4)) option"
  | CyAnnounceFails string

text \<open>What happens until the socket is closed by the address watch, or breaks.\<close>

definition cycle_step :: "dns_lib \<Rightarrow> cycle_event \<Rightarrow> responder \<times> bool \<Rightarrow> (responder \<times> bool) \<times> send list" where
  "cycle_step D e x =
     (case x of (m, shut) \<Rightarrow>
       if shut then (x, [])
       else case e of
          CyPacket now src q ok \<Rightarrow> (case serve_packet D ok now src q m of (m1, out) \<Rightarrow> ((m1, False), out))
        | CyPoll found \<Rightarrow> (case watch_address found m of (r, m1) \<Rightarrow> ((m1, r \<noteq> None), []))
        | CyAnnounceFails e \<Rightarrow> ((noteSendFailure e m, False), []))"

fun cycle_run :: "dns_lib \<Rightarrow> cycle_event list \<Rightarrow> responder \<times> bool \<Rightarrow> (responder \<times> bool) \<times> send list" where
  "cycle_run D [] x = (x, [])"
| "cycle_run D (e # es) x =
     (case cycle_step D e x of (y, out) \<Rightarrow> case cycle_run D es y of (z, out2) \<Rightarrow> (z, out @ out2))"

definition responder_serve ::
  "kernel \<Rightarrow> dns_lib \<Rightarrow> ip4 \<Rightarrow> cycle_event list \<Rightarrow> responder \<Rightarrow> (bool \<times> responder \<times> send list) sys" where
  "responder_serve K D a es m =
     sys_then (responder_open K a)
       (\<lambda>n. sys_then
          (sys_or
             (case cycle_run D es (snd (serve_begin (Some n) m), False) of
                ((m1, shut), out) \<Rightarrow> (case serve_end m1 of (deliberate, m2) \<Rightarrow> sys_ret (deliberate, m2, out)))
             (sys_try K (SCloseFd n)))
          (\<lambda>r. sys_then (sys_try K (SCloseFd n)) (\<lambda>u. sys_ret r)))"

lemma restart_limits:
  "mayMulticast m now = (m1, q) \<Longrightarrow> restart m1 = restart m" "mayUnicast m now = (m1, q) \<Longrightarrow> restart m1 = restart m"
  by (auto simp: mayMulticast_def mayUnicast_def unicast_roll_def Let_def split: option.splits if_splits)

lemma restart_reply: "replyTo m src q now = (r, m1) \<Longrightarrow> restart m1 = restart m"
  by (auto simp: replyTo_def Let_def dest: restart_limits split: option.splits prod.splits if_splits)

lemma restart_kept: "serve_packet D ok now src q m = (m1, out) \<Longrightarrow> restart m1 = restart m"
  by (auto simp: serve_packet_def noteReplyFailure_def noteSendFailure_def dest!: restart_reply
      split: option.splits prod.splits if_splits)

lemma cycle_restart:
  "cycle_run D es (m, shut) = ((m1, shut1), out) \<Longrightarrow> restart m = shut \<Longrightarrow> restart m1 = shut1"
proof (induction es arbitrary: m shut out)
  case (Cons e es)
  obtain m2 shut2 o2 where s: "cycle_step D e (m, shut) = ((m2, shut2), o2)" by (metis surj_pair)
  obtain o3 where r: "cycle_run D es (m2, shut2) = ((m1, shut1), o3)" using Cons.prems(1) s by (auto split: prod.splits)
  have "restart m2 = shut2"
    using s Cons.prems(2) restart_kept
    by (cases e) (auto simp: cycle_step_def watch_address_def stale_def noteSendFailure_def Let_def
        split: if_splits prod.splits option.splits)
  then show ?case by (rule Cons.IH [OF r])
qed auto

section \<open>Properties\<close>

text \<open>
  C37. Whatever the kernel answers and whatever arrives, a cycle leaves open the descriptors that were open before it and no
  socket in the responder.  It ends without an error exactly when the address watch had it rebuilt, and such a request is
  spent by it.
\<close>

theorem cycle_gives_back:
  "case responder_serve K D a es m s of
     (Inl e, s') \<Rightarrow> fds K s' = fds K s
   | (Inr (clean, m', out), s') \<Rightarrow>
       fds K s' = fds K s \<and> dns_conn m' = None \<and> \<not> restart m'
       \<and> (\<exists>n m1. cycle_run D es ((beginCycle m)\<lparr>dns_conn := Some n\<rparr>, False) = ((m1, clean), out))"
proof -
  obtain q s1 where o: "responder_open K a s = (q, s1)" by fastforce
  show ?thesis
  proof (cases q)
    case (Inl e)
    then show ?thesis using o responder_socket.failed_open by (simp add: responder_serve_def sys_then_def)
  next
    case (Inr n)
    obtain m1 shut out where r: "cycle_run D es ((beginCycle m)\<lparr>dns_conn := Some n\<rparr>, False) = ((m1, shut), out)"
      by (metis surj_pair)
    have "restart ((beginCycle m)\<lparr>dns_conn := Some n\<rparr>) = False" by (simp add: beginCycle_def)
    then have shut: "restart m1 = shut" using cycle_restart [OF r] by simp
    have "responder_serve K D a es m s = (Inr (shut, m1\<lparr>restart := False, dns_conn := None\<rparr>, out), s1 @ [SCloseFd n])"
      using o Inr r shut
      by (simp add: responder_serve_def serve_begin_def serve_end_def sys_then_def sys_or_def sys_ret_def sys_try_def)
    moreover have "n \<notin> fds K s" "fds K s1 = insert n (fds K s)" using responder_socket.opened_one o Inr by simp_all
    ultimately show ?thesis using r by (auto simp: fds_close)
  qed
qed

end
