(* ===== verification/Device_Facts.thy ===== *)
theory Device_Facts
  imports Esp_State
begin

text \<open>
  \<open>internal/device\<close>: what the daemon reads of the device. The programs it runs and the files it reads answer through
  arguments (\<open>None\<close> when one fails), and every function that makes sense of an answer is modelled: \<open>facts.go\<close>,
  \<open>mic.go\<close>, \<open>volume.go\<close>, \<open>registration.go\<close>, \<open>speaker.go\<close>, \<open>bluetooth.go\<close> and the properties of \<open>flag.go\<close>.
\<close>

definition f32_mul :: "f32 \<Rightarrow> f32 \<Rightarrow> f32" where
  "f32_mul a b =
     (case (f32_val a, f32_val b) of ((sa, ma, ea), (sb, mb, eb)) \<Rightarrow>
       (case dyadic (sa \<noteq> sb) (ma * mb) (ea + eb) of (n, d) \<Rightarrow> f32_ratio n d))"

definition lines_of :: "string \<Rightarrow> string list" where
  "lines_of s = split_on (CHR 0x0A) s"

text \<open>Whether \<open>strings.TrimLeft(line, " \t")\<close> leaves a line as it is.\<close>

definition at_margin :: "string \<Rightarrow> bool" where
  "at_margin l = (case l of [] \<Rightarrow> True | c # cs \<Rightarrow> c \<noteq> CHR '' '' \<and> c \<noteq> CHR 0x09)"

section \<open>Facts\<close>

definition zeroMAC :: string where "zeroMAC = ''00:00:00:00:00:00''"

definition MACAddress :: "string option \<Rightarrow> string" where
  "MACAddress file =
     (case file of None \<Rightarrow> ''''
      | Some b \<Rightarrow> (let mac = to_upper (trim_space b) in if mac = zeroMAC then '''' else mac))"

definition cpuThermalType :: string where "cpuThermalType = ''mtktscpu''"

text \<open>The zones of a directory in order, each with the contents of its \<open>type\<close> file.\<close>

definition findCPUZone :: "(string \<times> string option) list \<Rightarrow> string option" where
  "findCPUZone zones =
     map_option fst (find (\<lambda>(name, kind). has_prefix name ''thermal_zone''
        \<and> (case kind of None \<Rightarrow> False | Some k \<Rightarrow> trim_space k = cpuThermalType)) zones)"

definition milli_celsius :: "string \<Rightarrow> int option" where
  "milli_celsius raw =
     (case atoi (trim_space raw) of None \<Rightarrow> None
      | Some m \<Rightarrow> if m \<le> -40000 \<or> 150000 \<le> m then None else Some m)"

definition parseMilliCelsius :: "string \<Rightarrow> f32 \<times> bool" where
  "parseMilliCelsius raw =
     (case milli_celsius raw of None \<Rightarrow> (0, False) | Some m \<Rightarrow> (f32_div (f32_of_int m) (f32_of_int 1000), True))"

text \<open>The zone found is kept until it cannot be read.\<close>

definition CPUTemperature ::
  "(string \<times> string option) list \<Rightarrow> (string \<Rightarrow> string option) \<Rightarrow> string option \<Rightarrow> (f32 \<times> bool) \<times> string option" where
  "CPUTemperature zones temp kept' =
     (case (case kept' of None \<Rightarrow> findCPUZone zones | Some z \<Rightarrow> Some z) of
        None \<Rightarrow> ((0, False), None)
      | Some z \<Rightarrow> (case temp z of None \<Rightarrow> ((0, False), None) | Some raw \<Rightarrow> (parseMilliCelsius raw, Some z)))"

definition available_kb :: "string \<Rightarrow> int option" where
  "available_kb info =
     (case find (\<lambda>l. has_prefix l ''MemAvailable:'') (lines_of info) of
        None \<Rightarrow> None
      | Some l \<Rightarrow>
          (case str_fields (trim_prefix l ''MemAvailable:'') of
             [n, u] \<Rightarrow> if u \<noteq> ''kB'' then None
                       else (case atoi n of None \<Rightarrow> None | Some kb \<Rightarrow> if kb < 0 then None else Some kb)
           | _ \<Rightarrow> None))"

definition parseAvailableMemory :: "string \<Rightarrow> f32 \<times> bool" where
  "parseAvailableMemory info =
     (case available_kb info of None \<Rightarrow> (0, False) | Some kb \<Rightarrow> (f32_div (f32_of_int kb) (f32_of_int 1024), True))"

definition wifi_level :: "string \<Rightarrow> string \<Rightarrow> int option" where
  "wifi_level table iface =
     (case find (\<lambda>t. has_prefix t (iface @ '':'')) (map trim_space (lines_of table)) of
        None \<Rightarrow> None
      | Some t \<Rightarrow>
          (let f = str_fields t
           in if length f < 4 then None
              else (case atoi (trim_suffix (f ! 3) ''.'') of
                  None \<Rightarrow> None
                | Some n \<Rightarrow> (let level = (if 127 < n then n - 256 else n)
                             in if 0 \<le> level \<or> level \<le> -120 then None else Some level))))"

definition parseWifiLevel :: "string \<Rightarrow> string \<Rightarrow> f32 \<times> bool" where
  "parseWifiLevel table iface =
     (case wifi_level table iface of None \<Rightarrow> (0, False) | Some l \<Rightarrow> (f32_of_int l, True))"

text \<open>\<open>strconv.ParseFloat\<close> to 32 bits is an argument.\<close>

definition parseUptime :: "(string \<Rightarrow> f32 option) \<Rightarrow> string \<Rightarrow> f32 \<times> bool" where
  "parseUptime parseFloat line =
     (case str_fields line of
        [] \<Rightarrow> (0, False)
      | w # ws \<Rightarrow> (case parseFloat w of None \<Rightarrow> (0, False) | Some v \<Rightarrow> (v, True)))"

definition JackOccupied :: "string option \<Rightarrow> bool \<times> bool" where
  "JackOccupied file =
     (case file of None \<Rightarrow> (False, False)
      | Some b \<Rightarrow> (let s = trim_space b
          in if s = ''0'' then (False, True) else if s = ''1'' \<or> s = ''2'' then (True, True) else (False, False)))"

section \<open>Volumes\<close>

definition no_volumes :: music_volume where
  "no_volumes = \<lparr>Speaker = 0, SpeakerStep = 0, SpeakerOK = False, Jack = 0, JackStep = 0, JackOK = False,
     Bluetooth = 0, BluetoothStep = 0, BluetoothOK = False, BluetoothRoute = False, BluetoothRouteOK = False,
     Max = 0, Muted = False\<rparr>"

definition sawRoute :: "music_volume \<Rightarrow> bool" where
  "sawRoute v \<longleftrightarrow> SpeakerOK v \<or> JackOK v \<or> BluetoothOK v"

fun level_in :: "string \<Rightarrow> string list \<Rightarrow> int option" where
  "level_in name [] = None"
| "level_in name (f # fs) =
     (let field' = trim_space f
      in (case last_index_of field' '':'' of
            None \<Rightarrow> level_in name fs
          | Some m \<Rightarrow>
              if \<not> has_suffix (trim_space (take m field')) (''('' @ name @ '')'') then level_in name fs
              else atoi (trim_space (drop (Suc m) field'))))"

definition deviceLevel :: "string \<Rightarrow> string \<Rightarrow> int option" where
  "deviceLevel current name = level_in name (split_on (CHR '','') current)"

definition deviceStep :: "string \<Rightarrow> int \<Rightarrow> string \<Rightarrow> int \<times> bool" where
  "deviceStep current m name =
     (case deviceLevel current name of
        None \<Rightarrow> (0, False)
      | Some l \<Rightarrow> (let l1 = (if l < 0 then 0 else l) in (if m < l1 then m else l1, True)))"

definition stepPercent :: "int \<Rightarrow> int \<Rightarrow> f32" where
  "stepPercent step m = f32_div (f32_mul (f32_of_int step) (f32_of_int 100)) (f32_of_int m)"

fun first_step :: "string \<Rightarrow> int \<Rightarrow> string list \<Rightarrow> int \<times> bool" where
  "first_step current m [] = (0, False)"
| "first_step current m (n # ns) =
     (case deviceStep current m n of (s, good) \<Rightarrow> if good then (s, True) else first_step current m ns)"

definition read_current :: "string \<Rightarrow> int \<Rightarrow> music_volume \<Rightarrow> music_volume" where
  "read_current trimmed m v =
     (case first_step trimmed m [''speaker''] of (s, sok) \<Rightarrow>
      case first_step trimmed m [''headset'', ''headphone''] of (j, jok) \<Rightarrow>
      case first_step trimmed m [''bt_a2dp'', ''bt_a2dp_hp'', ''bt_a2dp_spk''] of (b, bok) \<Rightarrow>
        v\<lparr>Max := m, SpeakerStep := s, SpeakerOK := sok, Speaker := stepPercent s m,
          JackStep := j, JackOK := jok, Jack := stepPercent j m,
          BluetoothStep := b, BluetoothOK := bok, Bluetooth := stepPercent b m\<rparr>)"

definition volumes_done :: "bool \<Rightarrow> music_volume \<Rightarrow> music_volume" where
  "volumes_done muted v =
     (if \<not> sawRoute v then no_volumes
      else v\<lparr>Muted := muted, Speaker := (if muted \<and> SpeakerOK v then 0 else Speaker v),
             Jack := (if muted \<and> JackOK v then 0 else Jack v),
             Bluetooth := (if muted \<and> BluetoothOK v then 0 else Bluetooth v)\<rparr>)"

record volume_scan =
  vs_in :: bool
  vs_max :: int
  vs_muted :: bool
  vs_saw :: bool
  vs_found :: music_volume

text \<open>A line either ends the scan with a result or leaves it going.\<close>

definition number_after :: "string \<Rightarrow> string \<Rightarrow> int option" where
  "number_after p trimmed = atoi (trim_space (trim_prefix trimmed p))"

definition volume_line :: "string \<Rightarrow> volume_scan \<Rightarrow> music_volume + volume_scan" where
  "volume_line line s =
     (let trimmed = trim_space line
      in if has_prefix trimmed ''- STREAM_'' then
           (if vs_in s \<and> sawRoute (vs_found s) then Inl (volumes_done (vs_muted s) (vs_found s))
            else Inr (s\<lparr>vs_in := (trimmed = ''- STREAM_MUSIC:''), vs_max := 0, vs_muted := False, vs_saw := False\<rparr>))
         else if trimmed \<noteq> '''' \<and> at_margin line then
           (if vs_in s \<and> sawRoute (vs_found s) then Inl (volumes_done (vs_muted s) (vs_found s))
            else Inr (s\<lparr>vs_in := False\<rparr>))
         else if \<not> vs_in s then Inr s
         else if has_prefix trimmed ''Mute count:'' then
           (case number_after ''Mute count:'' trimmed of
              Some n \<Rightarrow> Inr (if vs_saw s then s else s\<lparr>vs_muted := (0 < n), vs_saw := True\<rparr>)
            | None \<Rightarrow> Inr s)
         else if has_prefix trimmed ''Max:'' then
           (case number_after ''Max:'' trimmed of
              Some n \<Rightarrow> Inr (if 0 < n \<and> vs_max s = 0 then s\<lparr>vs_max := n\<rparr> else s)
            | None \<Rightarrow> Inr s)
         else if has_prefix trimmed ''Current:'' then
           (if vs_max s \<le> 0 then Inl no_volumes else Inr (s\<lparr>vs_found := read_current trimmed (vs_max s) (vs_found s)\<rparr>))
         else Inr s)"

fun volume_scan_lines :: "string list \<Rightarrow> volume_scan \<Rightarrow> music_volume" where
  "volume_scan_lines [] s = (if \<not> vs_in s then no_volumes else volumes_done (vs_muted s) (vs_found s))"
| "volume_scan_lines (l # ls) s =
     (case volume_line l s of Inl v \<Rightarrow> v | Inr s' \<Rightarrow> volume_scan_lines ls s')"

definition parseMusicVolumes :: "string \<Rightarrow> music_volume" where
  "parseMusicVolumes dump =
     volume_scan_lines (lines_of dump)
       \<lparr>vs_in = False, vs_max = 0, vs_muted = False, vs_saw = False, vs_found = no_volumes\<rparr>"

fun route_lines :: "string list \<Rightarrow> bool \<Rightarrow> bool \<times> bool" where
  "route_lines [] inRoutes = (False, False)"
| "route_lines (l # ls) inRoutes =
     (let trimmed = trim_space l
      in if trimmed = ''Audio routes:'' then route_lines ls True
         else if \<not> inRoutes then route_lines ls inRoutes
         else (case cut_prefix trimmed ''mBluetoothName='' of
             None \<Rightarrow> if trimmed \<noteq> '''' \<and> at_margin l then (False, False) else route_lines ls inRoutes
           | Some v \<Rightarrow>
               (let w = trim_space v
                in if w = ''Device Connected'' then (True, True)
                   else if w = ''Device NOT Connected'' then (False, True) else (False, False))))"

definition parseBluetoothRoute :: "string \<Rightarrow> bool \<times> bool" where
  "parseBluetoothRoute dump = route_lines (lines_of dump) False"

definition MusicVolumes :: "string option \<Rightarrow> music_volume" where
  "MusicVolumes out =
     (case out of None \<Rightarrow> no_volumes
      | Some dump \<Rightarrow> (case parseBluetoothRoute dump of
          (r, good) \<Rightarrow> (parseMusicVolumes dump)\<lparr>BluetoothRoute := r, BluetoothRouteOK := good\<rparr>))"

text \<open>Every step that is known lies between zero and a maximum above zero.\<close>

definition volumes_sane :: "music_volume \<Rightarrow> bool" where
  "volumes_sane v \<longleftrightarrow> (if sawRoute v then 0 < Max v else True)
     \<and> list_all (\<lambda>s. 0 \<le> s \<and> s \<le> Max v) [SpeakerStep v, JackStep v, BluetoothStep v]"

lemma first_step_bounds: "0 \<le> m \<Longrightarrow> first_step c m ns = (s, b) \<Longrightarrow> 0 \<le> s \<and> s \<le> m"
  by (induction ns) (auto simp: deviceStep_def Let_def split: prod.splits if_splits option.splits)

lemma read_current_sane:
  assumes "0 < m"
  shows "volumes_sane (read_current t m v)"
proof -
  obtain s sok where s: "first_step t m [''speaker''] = (s, sok)" by (cases "first_step t m [''speaker'']")
  obtain j jok where j: "first_step t m [''headset'', ''headphone''] = (j, jok)"
    by (cases "first_step t m [''headset'', ''headphone'']")
  obtain b bok where b: "first_step t m [''bt_a2dp'', ''bt_a2dp_hp'', ''bt_a2dp_spk''] = (b, bok)"
    by (cases "first_step t m [''bt_a2dp'', ''bt_a2dp_hp'', ''bt_a2dp_spk'']")
  show ?thesis
    using assms first_step_bounds [OF _ s] first_step_bounds [OF _ j] first_step_bounds [OF _ b]
    unfolding read_current_def s j b by (simp add: volumes_sane_def)
qed

lemma no_volumes_sane [simp]: "volumes_sane no_volumes"
  by (simp add: volumes_sane_def no_volumes_def sawRoute_def)

lemma volumes_done_sane: "volumes_sane v \<Longrightarrow> volumes_sane (volumes_done m v)"
  by (auto simp: volumes_done_def volumes_sane_def sawRoute_def no_volumes_def)

lemma volume_line_sane:
  "volumes_sane (vs_found s) \<Longrightarrow>
     (case volume_line l s of Inl v \<Rightarrow> volumes_sane v | Inr s' \<Rightarrow> volumes_sane (vs_found s'))"
  by (auto simp: volume_line_def Let_def volumes_done_sane read_current_sane split: option.splits)

lemma volume_scan_sane: "volumes_sane (vs_found s) \<Longrightarrow> volumes_sane (volume_scan_lines ls s)"
proof (induction ls arbitrary: s)
  case (Cons l ls)
  then show ?case using volume_line_sane [OF Cons.prems, of l] by (auto split: sum.splits)
qed (simp add: volumes_done_sane)

definition in_range :: "int \<Rightarrow> int \<Rightarrow> int option \<Rightarrow> bool" where
  "in_range a b x = (case x of None \<Rightarrow> True | Some v \<Rightarrow> a \<le> v \<and> v \<le> b)"

text \<open>
  Whatever the device prints, a reading that is given is a possible one: a signal between -119 and -1 dBm, a temperature
  between -40 and 150 degrees, an amount of memory that is not negative, and volume steps within their maximum.
\<close>

theorem readings_possible:
  "in_range (-119) (-1) (wifi_level table iface) \<and> in_range (-39999) 149999 (milli_celsius raw)
   \<and> in_range 0 max_int (available_kb info) \<and> volumes_sane (MusicVolumes out)"
proof (intro conjI)
  show "in_range (-119) (-1) (wifi_level table iface)"
    by (auto simp: in_range_def wifi_level_def Let_def split: option.splits if_splits)
  show "in_range (-39999) 149999 (milli_celsius raw)"
    by (auto simp: in_range_def milli_celsius_def split: option.splits if_splits)
  have "atoi n = Some k \<Longrightarrow> k \<le> max_int" for n k
    by (auto simp: atoi_def parse_int_def Let_def max_int_def split: list.splits option.splits if_splits)
  then show "in_range 0 max_int (available_kb info)"
    by (auto simp: in_range_def available_kb_def split: option.splits if_splits list.splits)
  have "volumes_sane (parseMusicVolumes d)" for d
    unfolding parseMusicVolumes_def by (rule volume_scan_sane) simp
  moreover have "volumes_sane (v\<lparr>BluetoothRoute := r, BluetoothRouteOK := g\<rparr>) = volumes_sane v" for v r g
    by (simp add: volumes_sane_def sawRoute_def)
  ultimately show "volumes_sane (MusicVolumes out)"
    by (simp add: MusicVolumes_def split: option.splits prod.splits)
qed


section \<open>Answers of the services\<close>

definition is_dec :: "char \<Rightarrow> bool" where
  "is_dec c \<longleftrightarrow> 48 \<le> chr_code c \<and> chr_code c \<le> 57"

definition hex_digit :: "char \<Rightarrow> bool" where
  "hex_digit c \<longleftrightarrow> is_dec c \<or> (97 \<le> chr_code c \<and> chr_code c \<le> 102) \<or> (65 \<le> chr_code c \<and> chr_code c \<le> 70)"

definition hex_value :: "char \<Rightarrow> nat" where
  "hex_value c = (if chr_code c \<le> 57 then chr_code c - 48 else if chr_code c \<le> 70 then chr_code c - 55 else chr_code c - 87)"

text \<open>The first place at which a regular expression matches: \<open>f\<close> gives what it captures at the head of a string.\<close>

fun first_match :: "(string \<Rightarrow> 'a option) \<Rightarrow> string \<Rightarrow> 'a option" where
  "first_match f [] = f []"
| "first_match f (c # s) = (case f (c # s) of Some x \<Rightarrow> Some x | None \<Rightarrow> first_match f s)"

definition parcel_hex :: "string \<Rightarrow> string option" where
  "parcel_hex s =
     (case cut_prefix s ''Parcel('' of
        None \<Rightarrow> None
      | Some r \<Rightarrow> if 8 \<le> length r \<and> list_all hex_digit (take 8 r) then Some (take 8 r) else None)"

definition parseMicMute :: "string \<Rightarrow> bool \<times> bool" where
  "parseMicMute out =
     (case first_match parcel_hex out of
        None \<Rightarrow> (False, False)
      | Some h \<Rightarrow> (let v = foldl (\<lambda>v c. 16 * v + hex_value c) 0 h
          in if v = 0 then (False, True) else if v = 1 then (True, True) else (False, False)))"

definition MicMuted :: "string option \<Rightarrow> bool \<times> bool" where
  "MicMuted out = (case out of None \<Rightarrow> (False, False) | Some s \<Rightarrow> parseMicMute s)"

definition parcel_taken :: "string \<Rightarrow> unit option" where
  "parcel_taken s =
     (case cut_prefix s ''Parcel(00000000'' of
        None \<Rightarrow> None
      | Some r \<Rightarrow> (case r of [] \<Rightarrow> None
          | c # cs \<Rightarrow> if c \<in> {CHR 0x09, CHR 0x0A, CHR 0x0C, CHR 0x0D, CHR '' '', CHR '')''} then Some () else None))"

definition volumeTaken :: "string \<Rightarrow> bool" where
  "volumeTaken out \<longleftrightarrow> first_match parcel_taken out \<noteq> None"

definition firstLine :: "string \<Rightarrow> string" where
  "firstLine out = takeWhile (\<lambda>c. c \<noteq> CHR 0x0A) out"

datatype volume_error = StepRefusedBy int | StepAnswered int string | MuteRefused | MuteAnswered string

definition volume_args :: "int \<Rightarrow> string list" where
  "volume_args step =
     [''/system/bin/service'', ''call'', ''audio'', ''4'', ''i32'', ''3'', ''i32'', int_str step, ''i32'', ''0'',
      ''s16'', ''overdub'']"

definition SetMusicVolume :: "(string list \<Rightarrow> string option) \<Rightarrow> int \<Rightarrow> volume_error option" where
  "SetMusicVolume service step =
     (case service (volume_args step) of
        None \<Rightarrow> Some (StepRefusedBy step)
      | Some out \<Rightarrow> if \<not> volumeTaken out then Some (StepAnswered step (firstLine out)) else None)"

definition mute_args :: "bool \<Rightarrow> string list" where
  "mute_args on =
     [''/system/bin/service'', ''call'', ''audio'', ''8'', ''i32'', ''3'', ''i32'', if on then ''1'' else ''0'']"

definition SetMusicMute :: "(string list \<Rightarrow> string option) \<Rightarrow> bool \<Rightarrow> volume_error option" where
  "SetMusicMute service on =
     (case service (mute_args on) of
        None \<Rightarrow> Some MuteRefused
      | Some out \<Rightarrow> if \<not> volumeTaken out then Some (MuteAnswered (firstLine out)) else None)"

section \<open>The account and the speaker\<close>

fun registered_lines :: "string list \<Rightarrow> bool \<Rightarrow> bool \<times> bool" where
  "registered_lines [] counted = (False, counted)"
| "registered_lines (l # ls) counted =
     (let t = trim_space l
      in if has_prefix t ''Accounts:'' then registered_lines ls True
         else if has_prefix t ''Account {'' \<and> has_suffix t ''type=com.amazon.account}'' then (True, True)
         else registered_lines ls counted)"

definition parseRegistered :: "string \<Rightarrow> bool \<times> bool" where
  "parseRegistered dump = registered_lines (lines_of dump) False"

text \<open>
  The lines of a dump in which a thread of the mixer says how many tracks it has: leading space, a number, and the
  number of active ones when it is given.
\<close>

definition re_space :: "char \<Rightarrow> bool" where
  "re_space c \<longleftrightarrow> c \<in> {CHR 0x09, CHR 0x0A, CHR 0x0C, CHR 0x0D, CHR '' ''}"

definition trackLine :: "string \<Rightarrow> (string \<times> string) option" where
  "trackLine l =
     (let s = dropWhile re_space l; n = takeWhile is_dec s; r = drop (length n) s
      in if n = '''' then None
         else (case cut_prefix r '' Tracks'' of
             None \<Rightarrow> None
           | Some q \<Rightarrow>
               (case cut_prefix q '' of which '' of
                  None \<Rightarrow> Some (n, '''')
                | Some w \<Rightarrow> (let m = takeWhile is_dec w
                    in if m \<noteq> '''' \<and> has_prefix (drop (length m) w) '' are active'' then Some (n, m) else Some (n, '''')))))"

record track_scan =
  ts_output :: bool
  ts_counted :: bool
  ts_saw :: bool
  ts_understood :: bool
  ts_playing :: bool

definition end_thread :: "track_scan \<Rightarrow> track_scan" where
  "end_thread s = (if ts_output s \<and> \<not> ts_counted s then s\<lparr>ts_understood := False\<rparr> else s)"

definition track_step :: "track_scan \<Rightarrow> string \<Rightarrow> track_scan" where
  "track_step s l =
     (if has_prefix l ''Output thread '' then (end_thread s)\<lparr>ts_output := True, ts_counted := False, ts_saw := True\<rparr>
      else if l \<noteq> '''' \<and> \<not> has_prefix l '' '' \<and> \<not> has_prefix l [CHR 0x09] then (end_thread s)\<lparr>ts_output := False\<rparr>
      else if ts_output s then
        (case trackLine l of
           None \<Rightarrow> s
         | Some (n, m) \<Rightarrow> s\<lparr>ts_counted := True,
                              ts_playing := (ts_playing s \<or> (if m \<noteq> '''' then m else n) \<noteq> ''0'')\<rparr>)
      else s)"

definition hasOutputTrack :: "string \<Rightarrow> bool \<times> bool" where
  "hasOutputTrack dump =
     (let s = end_thread (foldl track_step \<lparr>ts_output = False, ts_counted = False, ts_saw = False,
                ts_understood = True, ts_playing = False\<rparr> (lines_of dump))
      in if \<not> ts_saw s \<or> \<not> ts_understood s then (False, False) else (ts_playing s, True))"

fun pcm_any :: "string option list \<Rightarrow> bool \<Rightarrow> bool \<times> bool \<times> bool" where
  "pcm_any [] unread = (if unread then (False, False, True) else (False, True, False))"
| "pcm_any (f # fs) unread =
     (case f of
        None \<Rightarrow> pcm_any fs True
      | Some b \<Rightarrow> if contains_str b ''state: RUNNING'' then (True, True, False) else pcm_any fs unread)"

text \<open>The third component is whether the paths found are forgotten.\<close>

definition pcmRunning :: "string option list \<Rightarrow> bool \<times> bool \<times> bool" where
  "pcmRunning files = (if files = [] then (False, False, False) else pcm_any files False)"

definition pcmRefresh :: duration where "pcmRefresh = 60 * second"

definition pcmStatusPaths :: "string list \<Rightarrow> time \<Rightarrow> string list \<times> time \<Rightarrow> string list \<times> time" where
  "pcmStatusPaths glob now kept' =
     (case kept' of (paths, globbed) \<Rightarrow>
       if paths = [] \<or> pcmRefresh \<le> now - globbed then (glob, now) else (paths, globbed))"

definition SpeakerPlaying :: "string option list \<Rightarrow> string option \<Rightarrow> bool \<times> bool" where
  "SpeakerPlaying files dump =
     (case pcmRunning files of (running, good, forget') \<Rightarrow>
       if \<not> good then (False, False)
       else if \<not> running then (False, True)
       else (case dump of
           None \<Rightarrow> (False, False)
         | Some out \<Rightarrow> (case hasOutputTrack out of (playing, recognised) \<Rightarrow>
             if \<not> recognised then (False, False) else (playing, True))))"

section \<open>Bluetooth\<close>

definition hex_pair :: "string \<Rightarrow> bool" where
  "hex_pair s \<longleftrightarrow> length s = 2 \<and> list_all hex_digit s"

definition btAddress :: "string \<Rightarrow> bool" where
  "btAddress s \<longleftrightarrow> length s = 17 \<and> list_all hex_pair (split_on (CHR '':'') s)"

fun a2dp_lines :: "string list \<Rightarrow> bool \<Rightarrow> string \<times> bool" where
  "a2dp_lines [] inProfile = ('''', False)"
| "a2dp_lines (l # ls) inProfile =
     (let t = trim_space l
      in if has_prefix t ''Profile:'' then a2dp_lines ls (t = ''Profile: A2dpService'')
         else if \<not> inProfile then a2dp_lines ls inProfile
         else (case cut_prefix t ''mCurrentDevice:'' of
             None \<Rightarrow> a2dp_lines ls inProfile
           | Some v \<Rightarrow>
               (let a = trim_space v
                in if a = ''null'' then ('''', True) else if \<not> btAddress a then ('''', False) else (a, True))))"

definition parseA2DPAddress :: "string \<Rightarrow> string \<times> bool" where
  "parseA2DPAddress dump = a2dp_lines (lines_of dump) False"

definition bt_tag :: "string \<Rightarrow> string" where
  "bt_tag x = ''Tag='' @ [CHR 0x22] @ x @ [CHR 0x22]"

definition bt_section :: "string \<Rightarrow> unit option" where
  "bt_section s =
     (case cut_prefix s (''Tag='' @ [CHR 0x22]) of
        None \<Rightarrow> None
      | Some r \<Rightarrow> if btAddress (take 17 r) \<and> has_prefix (drop 17 r) [CHR 0x22] then Some () else None)"

definition bt_name :: "string \<Rightarrow> string option" where
  "bt_name s =
     (case cut_prefix s (bt_tag ''Name'' @ '' Type='' @ [CHR 0x22] @ ''string'' @ [CHR 0x22] @ ''>'') of
        None \<Rightarrow> None
      | Some r \<Rightarrow> map_option fst (cut_at r ''<''))"

text \<open>\<open>clean\<close> is \<open>html.UnescapeString\<close> followed by \<open>strings.ToValidUTF8\<close>.\<close>

fun name_lines :: "(string \<Rightarrow> string) \<Rightarrow> string \<Rightarrow> string list \<Rightarrow> bool \<Rightarrow> string option" where
  "name_lines clean want [] found = None"
| "name_lines clean want (l # ls) found =
     (if \<not> found then name_lines clean want ls (contains_str l want)
      else if first_match bt_section l \<noteq> None then None
      else (case first_match bt_name l of Some n \<Rightarrow> Some (clean n) | None \<Rightarrow> name_lines clean want ls True))"

definition bluetoothName :: "(string \<Rightarrow> string) \<Rightarrow> string option \<Rightarrow> string \<Rightarrow> string option" where
  "bluetoothName clean config address =
     (case config of None \<Rightarrow> None | Some c \<Rightarrow> name_lines clean (bt_tag (to_lower address)) (lines_of c) False)"

definition BluetoothDevice :: "(string \<Rightarrow> string) \<Rightarrow> string option \<Rightarrow> string option \<Rightarrow> string \<times> bool" where
  "BluetoothDevice clean dump config =
     (case dump of
        None \<Rightarrow> ('''', False)
      | Some out \<Rightarrow>
          (case parseA2DPAddress out of (address, good) \<Rightarrow>
            if \<not> good \<or> address = '''' then ('''', good)
            else (case bluetoothName clean config address of
                None \<Rightarrow> (address, True)
              | Some n \<Rightarrow> if trim_space n \<noteq> '''' then (trim_space n, True) else (address, True))))"

section \<open>Properties\<close>

text \<open>
  The properties the daemon keeps, \<open>internal/device/flag.go\<close>.  Reading and setting a property is the system's
  and is an argument: \<open>None\<close> is an error of \<open>readProp\<close>, and \<open>setProp\<close> answers the properties there are after it.
\<close>

type_synonym props = "string \<Rightarrow> string"

datatype flag_error = NameTooLong | ReadFailed | SetFailed | NotReadBack

definition Prefix :: string where "Prefix = ''persist.overdub.''"
definition keyMax :: nat where "keyMax = 31"

definition PropertyName :: "string \<Rightarrow> flag_error + string" where
  "PropertyName name = (let full = Prefix @ name in if keyMax < length full then Inl NameTooLong else Inr full)"

definition Flag :: "('s \<Rightarrow> string \<Rightarrow> string option) \<Rightarrow> string \<Rightarrow> 's \<Rightarrow> flag_error + (bool \<times> bool)" where
  "Flag readProp name s =
     (case PropertyName name of
        Inl e \<Rightarrow> Inl e
      | Inr full \<Rightarrow>
          (case readProp s full of
             None \<Rightarrow> Inl ReadFailed
           | Some out \<Rightarrow> Inr (if trim_space out = ''1'' then (True, True)
               else if trim_space out = ''0'' then (False, True) else (False, False))))"

definition SetFlag ::
  "('s \<Rightarrow> string \<Rightarrow> string option) \<Rightarrow> ('s \<Rightarrow> string \<Rightarrow> string \<Rightarrow> 's option) \<Rightarrow>
   string \<Rightarrow> bool \<Rightarrow> 's \<Rightarrow> flag_error option \<times> 's" where
  "SetFlag readProp setProp name on s =
     (case PropertyName name of
        Inl e \<Rightarrow> (Some e, s)
      | Inr full \<Rightarrow>
          (case setProp s full (if on then ''1'' else ''0'') of
             None \<Rightarrow> (Some SetFailed, s)
           | Some s' \<Rightarrow>
               (case Flag readProp name s' of
                  Inl e \<Rightarrow> (Some e, s')
                | Inr (got, known) \<Rightarrow> (if \<not> known \<or> got \<noteq> on then Some NotReadBack else None, s'))))"

definition Number :: "('s \<Rightarrow> string \<Rightarrow> string option) \<Rightarrow> string \<Rightarrow> 's \<Rightarrow> flag_error + (int \<times> bool)" where
  "Number readProp name s =
     (case PropertyName name of
        Inl e \<Rightarrow> Inl e
      | Inr full \<Rightarrow>
          (case readProp s full of
             None \<Rightarrow> Inl ReadFailed
           | Some out \<Rightarrow> Inr (case atoi (trim_space out) of None \<Rightarrow> (0, False) | Some n \<Rightarrow> (n, True))))"

definition SetNumber ::
  "('s \<Rightarrow> string \<Rightarrow> string option) \<Rightarrow> ('s \<Rightarrow> string \<Rightarrow> string \<Rightarrow> 's option) \<Rightarrow>
   string \<Rightarrow> int \<Rightarrow> 's \<Rightarrow> flag_error option \<times> 's" where
  "SetNumber readProp setProp name val s =
     (case PropertyName name of
        Inl e \<Rightarrow> (Some e, s)
      | Inr full \<Rightarrow>
          (case setProp s full (int_str val) of
             None \<Rightarrow> (Some SetFailed, s)
           | Some s' \<Rightarrow>
               (case Number readProp name s' of
                  Inl e \<Rightarrow> (Some e, s')
                | Inr (got, known) \<Rightarrow> (if \<not> known \<or> got \<noteq> val then Some NotReadBack else None, s'))))"

lemma SetFlag_read:
  assumes "SetFlag readProp setProp name on s = (None, s')"
  shows "Flag readProp name s' = Inr (on, True)"
  using assms by (auto simp: SetFlag_def split: sum.splits option.splits prod.splits if_splits)

lemma SetNumber_read:
  assumes "SetNumber readProp setProp name val s = (None, s')"
  shows "Number readProp name s' = Inr (val, True)"
  using assms by (auto simp: SetNumber_def split: sum.splits option.splits prod.splits if_splits)

definition printing :: "char \<Rightarrow> bool" where
  "printing c \<longleftrightarrow> 33 \<le> chr_code c \<and> chr_code c \<le> 126"

lemma int_str_printing: "list_all printing (int_str n)"
  using nat_str_digit by (force simp: int_str_def printing_def list_all_iff)

lemma space_seqs_edges:
  "list_all (\<lambda>q. 0 < length q \<and> \<not> printing (hd q) \<and> \<not> printing (last q)) space_seqs"
  by code_simp

lemma trim_seqs_printing:
  assumes "list_all printing s" "list_all (\<lambda>q. 0 < length q \<and> \<not> printing (hd q)) qs"
  shows "trim_seqs qs s = s"
proof (cases "lead_seq qs s")
  case (Some q)
  from lead_seq_Some [OF this] assms show ?thesis
    by (cases q) (auto simp: list_all_iff)
qed (simp add: trim_seqs.simps [of qs s])

lemma trim_space_printing: "list_all printing s \<Longrightarrow> trim_space s = s"
  using space_seqs_edges trim_seqs_printing [of s space_seqs] trim_seqs_printing [of "rev s" "map rev space_seqs"]
  by (simp add: trim_space_def trim_left_space_def trim_right_space_def list_all_iff hd_rev)

text \<open>
  A claim: over a property store that answers what was put there and keeps every other property, a number set is the
  number read, the answer is no error, and no property but its own has changed.
\<close>

theorem number_roundtrip:
  assumes "length (Prefix @ name) \<le> keyMax" and "min_int \<le> val" and "val \<le> max_int"
    and store: "\<forall>s k v. setProp s k v = Some (put s k v) \<and> readProp (put s k v) k = Some v
                 \<and> (\<forall>j. j \<noteq> k \<longrightarrow> readProp (put s k v) j = readProp s j)"
  shows "\<exists>s'. SetNumber readProp setProp name val s = (None, s')
    \<and> Number readProp name s' = Inr (val, True)
    \<and> (\<forall>j. j \<noteq> Prefix @ name \<longrightarrow> readProp s' j = readProp s j)"
proof -
  from assms have name: "PropertyName name = Inr (Prefix @ name)" by (simp add: PropertyName_def)
  let ?s = "put s (Prefix @ name) (int_str val)"
  have "Number readProp name ?s = Inr (val, True)"
    using store assms(2,3) by (simp add: Number_def name trim_space_printing int_str_printing atoi_int_str)
  moreover from this have "SetNumber readProp setProp name val s = (None, ?s)"
    using store by (simp add: SetNumber_def name)
  ultimately show ?thesis using store by blast
qed

theorem number_roundtrip_witness:
  "\<exists>s'. SetNumber (\<lambda>s k. Some (s k)) (\<lambda>s k v. Some (s(k := v))) ''vol'' (- 7) (\<lambda>k. '''') = (None, s')
    \<and> Number (\<lambda>s k. Some (s k)) ''vol'' s' = Inr (- 7, True)
    \<and> (\<forall>j. j \<noteq> Prefix @ ''vol'' \<longrightarrow> Some (s' j) = Some ((\<lambda>k. '''') j))"
  by (rule number_roundtrip [where put = "\<lambda>s k v. s(k := v)" and readProp = "\<lambda>s k. Some (s k)"])
    (simp_all add: Prefix_def keyMax_def min_int_def max_int_def)

section \<open>Waiting for an address\<close>

text \<open>
  Each look is the time it is taken at and what is seen; \<open>None\<close> stands for looks that have run out before the wait was
  over.  \<open>looks\<close> are a second apart.
\<close>

fun WaitForMAC :: "time \<Rightarrow> (time \<times> string option) list \<Rightarrow> string option" where
  "WaitForMAC deadline [] = None"
| "WaitForMAC deadline ((now, file) # looks) =
     (if MACAddress file \<noteq> '''' then Some (MACAddress file)
      else if deadline < now then Some ''''
      else WaitForMAC deadline looks)"

text \<open>\<open>stopped\<close> is whether the wait is called off before the next look.\<close>

fun WaitForIPv4 :: "time \<Rightarrow> (bool \<times> time \<times> bool) list \<Rightarrow> bool option" where
  "WaitForIPv4 deadline [] = None"
| "WaitForIPv4 deadline ((there, now, stopped) # looks) =
     (if there then Some True
      else if deadline < now then Some False
      else if stopped then Some False
      else WaitForIPv4 deadline looks)"

text \<open>A wait is over by the first look after its deadline, whatever is seen.\<close>

lemma waits_end:
  "deadline < now \<Longrightarrow> WaitForMAC deadline (looks @ [(now, file)]) \<noteq> None"
  "deadline < now \<Longrightarrow> WaitForIPv4 deadline (looks' @ [(there, now, stopped)]) \<noteq> None"
proof -
  show "deadline < now \<Longrightarrow> WaitForMAC deadline (looks @ [(now, file)]) \<noteq> None"
    by (induction deadline looks rule: WaitForMAC.induct) auto
  show "deadline < now \<Longrightarrow> WaitForIPv4 deadline (looks' @ [(there, now, stopped)]) \<noteq> None"
    by (induction deadline looks' rule: WaitForIPv4.induct) auto
qed

end
