(* ===== verification/Device_Run.thy ===== *)
theory Device_Run
  imports Device_Facts
begin

text \<open>
  How \<open>internal/device\<close> and \<open>internal/alexa\<close> run a program: under a deadline after which \<open>os/exec\<close> kills it, and with a
  delay after which it no longer waits for the program's output.  What a program does is a \<open>process\<close>: when it would exit
  by itself, with what, and when the last process that holds its output lets go of it.  A reading so made is over within
  its budget, whatever the program does, and the budgets fit the ticks they are read on.
\<close>

section \<open>Programs\<close>

text \<open>\<open>None\<close> is never.\<close>

record process =
  p_exits :: "duration option"
  p_fine :: bool
  p_out :: string
  p_lets_go :: "duration option"

text \<open>
  \<open>exec.CommandContext\<close> with \<open>Output\<close>: a process still there at the deadline is killed, and the reading ends with the
  process when its output is let go of, or \<open>wait\<close> later when it is not; a \<open>wait\<close> of zero waits for ever.  The result is
  how long it took and the output, if the program ended well, in time and with its output.
\<close>

definition run_output :: "duration \<Rightarrow> duration \<Rightarrow> process \<Rightarrow> duration option \<times> string option" where
  "run_output timeout wait p =
     (let ended = (case p_exits p of None \<Rightarrow> timeout | Some t \<Rightarrow> min t timeout);
          itself = (case p_exits p of None \<Rightarrow> False | Some t \<Rightarrow> t < timeout);
          closed = map_option (max ended) (p_lets_go p);
          whole = (case closed of None \<Rightarrow> False | Some t \<Rightarrow> wait \<le> 0 \<or> t \<le> ended + wait);
          took = (if whole then closed else if wait \<le> 0 then None else Some (ended + wait))
      in (took, if itself \<and> p_fine p \<and> whole then Some (p_out p) else None))"

lemma run_output_within: "0 < wait \<Longrightarrow> \<exists>t. fst (run_output timeout wait p) = Some t \<and> t \<le> timeout + wait"
  by (cases "p_exits p"; cases "p_lets_go p") (auto simp: run_output_def Let_def max_def min_def)

lemma run_output_whole:
  "p_exits p = Some t \<Longrightarrow> t < timeout \<Longrightarrow> p_fine p \<Longrightarrow> p_lets_go p = Some u \<Longrightarrow> u \<le> t \<Longrightarrow> 0 \<le> wait \<Longrightarrow>
     run_output timeout wait p = (Some t, Some (p_out p))"
  by (simp add: run_output_def Let_def max_def min_def)

section \<open>What is run\<close>

text \<open>\<open>millis n\<close> is \<open>n * time.Millisecond\<close>.\<close>

definition millis :: "int \<Rightarrow> duration" where "millis n = n * (second div 1000)"

record dumpsys =
  d_argv :: "string list"
  d_timeout :: duration
  d_wait :: duration

definition newDumpsys :: "string \<Rightarrow> duration \<Rightarrow> duration \<Rightarrow> dumpsys" where
  "newDumpsys service timeout wait = \<lparr>d_argv = [''/system/bin/dumpsys'', service], d_timeout = timeout, d_wait = wait\<rparr>"

definition dump_budget :: "dumpsys \<Rightarrow> duration" where
  "dump_budget d = d_timeout d + d_wait d"

definition dump_read :: "(string list \<Rightarrow> process) \<Rightarrow> dumpsys \<Rightarrow> duration option \<times> string option" where
  "dump_read os d = run_output (d_timeout d) (d_wait d) (os (d_argv d))"

definition accountDump :: dumpsys where "accountDump = newDumpsys ''account'' (millis 1000) (millis 500)"
definition volumeDump :: dumpsys where "volumeDump = newDumpsys ''audio'' (millis 1000) (millis 500)"
definition btDump :: dumpsys where "btDump = newDumpsys ''bluetooth_manager'' (millis 1000) (millis 500)"
definition speakerDump :: dumpsys where "speakerDump = newDumpsys ''media.audio_flinger'' (millis 300) (millis 100)"

definition AccountReadBudget :: duration where "AccountReadBudget = dump_budget accountDump"
definition VolumeReadBudget :: duration where "VolumeReadBudget = dump_budget volumeDump"
definition BluetoothReadBudget :: duration where "BluetoothReadBudget = dump_budget btDump"
definition SpeakerReadBudget :: duration where "SpeakerReadBudget = dump_budget speakerDump"

definition micReadTimeout :: duration where "micReadTimeout = millis 300"
definition micWaitDelay :: duration where "micWaitDelay = millis 100"
definition micArgv :: "string list" where
  "micArgv = [''/system/bin/service'', ''call'', ''media.audio_flinger'', ''18'']"
definition MicReadBudget :: duration where "MicReadBudget = micReadTimeout + micWaitDelay"

definition micCommand :: "(string list \<Rightarrow> process) \<Rightarrow> duration option \<times> string option" where
  "micCommand os = run_output micReadTimeout micWaitDelay (os micArgv)"

definition setVolumeTimeout :: duration where "setVolumeTimeout = millis 300"
definition setVolumeWaitDelay :: duration where "setVolumeWaitDelay = millis 100"

definition setVolumeCommand :: "(string list \<Rightarrow> process) \<Rightarrow> string list \<Rightarrow> duration option \<times> string option" where
  "setVolumeCommand os args = run_output setVolumeTimeout setVolumeWaitDelay (os args)"

section \<open>Readings\<close>

definition AlexaRegistered :: "string option \<Rightarrow> bool \<times> bool" where
  "AlexaRegistered out = (case out of None \<Rightarrow> (False, False) | Some s \<Rightarrow> parseRegistered s)"

definition AvailableMemory :: "string option \<Rightarrow> f32 \<times> bool" where
  "AvailableMemory file = (case file of None \<Rightarrow> (0, False) | Some s \<Rightarrow> parseAvailableMemory s)"

definition WifiSignal :: "string option \<Rightarrow> f32 \<times> bool" where
  "WifiSignal file = (case file of None \<Rightarrow> (0, False) | Some s \<Rightarrow> parseWifiLevel s ''wlan0'')"

definition UptimeSeconds :: "(string \<Rightarrow> f32 option) \<Rightarrow> string option \<Rightarrow> f32 \<times> bool" where
  "UptimeSeconds parseFloat file = (case file of None \<Rightarrow> (0, False) | Some s \<Rightarrow> parseUptime parseFloat s)"

text \<open>
  \<open>HasIPv4\<close>: the addresses of the interface, \<open>None\<close> when it or they could not be had; an address that is no \<open>net.IPNet\<close> is
  \<open>None\<close>, and one that is, is its bytes.
\<close>

definition to4 :: "bytes \<Rightarrow> bytes option" where
  "to4 a =
     (if length a = 4 then Some a
      else if length a = 16 \<and> take 12 a = replicate 10 0 @ [255, 255] then Some (drop 12 a)
      else None)"

definition HasIPv4 :: "bytes option list option \<Rightarrow> bool" where
  "HasIPv4 addrs =
     (case addrs of
        None \<Rightarrow> False
      | Some as \<Rightarrow>
          list_ex (\<lambda>a. case a of
                         None \<Rightarrow> False
                       | Some b \<Rightarrow> (case to4 b of None \<Rightarrow> False | Some ip \<Rightarrow> hd ip \<noteq> 127)) as)"

lemma HasIPv4_loopback: "\<not> HasIPv4 (Some [Some [127, 0, 0, 1], None, Some (replicate 15 0 @ [1])])"
  by code_simp

section \<open>The budgets fit the ticks\<close>

definition sensorTick :: duration where "sensorTick = 60 * second"
definition liveTick :: duration where "liveTick = millis 500"

lemmas budget_defs = AccountReadBudget_def VolumeReadBudget_def BluetoothReadBudget_def SpeakerReadBudget_def MicReadBudget_def
  dump_budget_def accountDump_def volumeDump_def btDump_def speakerDump_def micReadTimeout_def micWaitDelay_def
  newDumpsys_def millis_def

text \<open>How long readings made one after another take.\<close>

fun took_all :: "duration option list \<Rightarrow> duration option" where
  "took_all [] = Some 0"
| "took_all (t # ts) = (case (t, took_all ts) of (Some a, Some b) \<Rightarrow> Some (a + b) | _ \<Rightarrow> None)"

lemma took_all_within:
  "list_all2 (\<lambda>t b. \<exists>a. t = Some a \<and> a \<le> b) ts bs \<Longrightarrow> \<exists>a. took_all ts = Some a \<and> a \<le> sum_list bs"
  by (induction rule: list_all2_induct) force+

lemma reading_within:
  "\<exists>a. fst (dump_read os accountDump) = Some a \<and> a \<le> AccountReadBudget"
  "\<exists>a. fst (dump_read os volumeDump) = Some a \<and> a \<le> VolumeReadBudget"
  "\<exists>a. fst (dump_read os btDump) = Some a \<and> a \<le> BluetoothReadBudget"
  "\<exists>a. fst (dump_read os speakerDump) = Some a \<and> a \<le> SpeakerReadBudget"
  "\<exists>a. fst (micCommand os) = Some a \<and> a \<le> MicReadBudget"
  unfolding dump_read_def micCommand_def
  using run_output_within [of "millis 500" "millis 1000"] run_output_within [of "millis 100" "millis 300"]
  by (simp_all add: budget_defs)

definition is_within :: "duration option \<Rightarrow> duration \<Rightarrow> bool" where
  "is_within t limit = (case t of None \<Rightarrow> False | Some a \<Rightarrow> a < limit)"

text \<open>
  Whatever the device's programs do, hang or leave their output to a child that holds it: the readings of one sensor
  tick, of one live tick that reads everything, and of one that samples the sound are over before the tick after them
  of their kind is due.
\<close>

theorem readings_fit_ticks:
  "is_within (took_all [fst (dump_read os accountDump), fst (dump_read os btDump)]) (max sensorTick MinSensorTick)
   \<and> is_within (took_all [fst (dump_read os speakerDump), fst (dump_read os volumeDump), fst (micCommand os)])
       (liveTick * int HeavyEvery)
   \<and> is_within (took_all [fst (dump_read os speakerDump)]) (liveTick * int SoundEvery)"
proof -
  note w = reading_within [of os]
  have "list_all2 (\<lambda>t b. \<exists>a. t = Some a \<and> a \<le> b) [fst (dump_read os accountDump), fst (dump_read os btDump)]
      [AccountReadBudget, BluetoothReadBudget]"
    "list_all2 (\<lambda>t b. \<exists>a. t = Some a \<and> a \<le> b)
      [fst (dump_read os speakerDump), fst (dump_read os volumeDump), fst (micCommand os)]
      [SpeakerReadBudget, VolumeReadBudget, MicReadBudget]"
    "list_all2 (\<lambda>t b. \<exists>a. t = Some a \<and> a \<le> b) [fst (dump_read os speakerDump)] [SpeakerReadBudget]"
    using w by (simp_all only: list_all2_Cons list_all2_Nil simp_thms)
  from this [THEN took_all_within] show ?thesis
    by (fastforce simp: is_within_def budget_defs sensorTick_def liveTick_def MinSensorTick_def HeavyEvery_def
        SoundEvery_def simp del: took_all.simps)
qed

end
