(* ===== verification/Audio_Chime.thy ===== *)
theory Audio_Chime
  imports Audio_Pcm Go_Float64
begin

text \<open>
  \<open>internal/audio/chime.go\<close>: the chime the daemon renders for itself, two notes under a ramp and a fade.  The arithmetic
  is \<open>float64\<close>, each operation rounded on its own as the target does it; \<open>math.Sin\<close> is the parameter \<open>sine\<close>, and \<open>big\<close> is
  what a conversion makes of a number out of range, which Go leaves to the implementation.
\<close>

section \<open>The notes\<close>

definition chimeSeconds :: f64 where "chimeSeconds = f64_ratio 2 5"
definition chimeGain :: f64 where "chimeGain = f64_ratio 11 50"
definition chimeRamp :: f64 where "chimeRamp = f64_ratio 1 200"
definition chimeFade :: f64 where "chimeFade = f64_ratio 1 10"

record chime_note =
  n_freq :: f64
  n_start :: f64
  n_dur :: f64

definition chimeNotes :: "chime_note list" where
  "chimeNotes =
     [\<lparr>n_freq = f64_of_int 880, n_start = f64_of_int 0, n_dur = f64_ratio 9 50\<rparr>,
      \<lparr>n_freq = f64_of_int 1320, n_start = f64_ratio 9 50, n_dur = f64_ratio 11 50\<rparr>]"

text \<open>\<open>2 * math.Pi\<close>, a constant of 62 decimals, and the built-in \<open>min\<close> and \<open>max\<close>.\<close>

definition two_pi :: f64 where
  "two_pi = f64_ratio (2 * 314159265358979323846264338327950288419716939937510582097494459) (10 ^ 62)"

definition go_min :: "f64 \<Rightarrow> f64 \<Rightarrow> f64" where
  "go_min a b = (if a = NaN \<or> b = NaN then NaN else if b < a then b else a)"

definition go_max :: "f64 \<Rightarrow> f64 \<Rightarrow> f64" where
  "go_max a b = (if a = NaN \<or> b = NaN then NaN else if a < b then b else a)"

section \<open>Rendering\<close>

definition chime_voice :: "(f64 \<Rightarrow> f64) \<Rightarrow> f64 \<Rightarrow> chime_note \<Rightarrow> f64 \<Rightarrow> f64" where
  "chime_voice sine t n v =
     (if t < n_start n \<or> n_start n + n_dur n \<le> t then v
      else (let age = t - n_start n;
                env = (if age < chimeRamp then age div chimeRamp else 1);
                left = n_dur n - age;
                env = (if left < chimeRamp then go_min env (left div chimeRamp) else env)
            in v + env * sine (two_pi * n_freq n * age)))"

definition chime_level :: "(f64 \<Rightarrow> f64) \<Rightarrow> f64 \<Rightarrow> f64" where
  "chime_level sine t =
     (let v = fold (chime_voice sine t) chimeNotes 0;
          left = chimeSeconds - t;
          v = (if left < chimeFade then v * (left div chimeFade) else v)
      in go_min (go_max (v * chimeGain) (- 1)) 1)"

definition f64_int16 :: "(f64 \<Rightarrow> int) \<Rightarrow> f64 \<Rightarrow> int" where
  "f64_int16 big x =
     (case x of
        NaN \<Rightarrow> big x | Inf s \<Rightarrow> big x
      | Fin m e \<Rightarrow>
          (let t = go_div (m * 2 ^ nat e) (2 ^ nat (- e))
           in if - (2 ^ 15) \<le> t \<and> t < 2 ^ 15 then t else big x))"

definition chime_sample :: "(f64 \<Rightarrow> int) \<Rightarrow> (f64 \<Rightarrow> f64) \<Rightarrow> f64 \<Rightarrow> sample" where
  "chime_sample big sine t = of_int (f64_int16 big (chime_level sine t * f64_of_int 32767))"

definition chime_frames :: "(f64 \<Rightarrow> int) \<Rightarrow> int \<Rightarrow> int" where
  "chime_frames big rate = f64_int64 big (chimeSeconds * f64_of_int rate)"

definition chimePCM :: "(f64 \<Rightarrow> int) \<Rightarrow> (f64 \<Rightarrow> f64) \<Rightarrow> int \<Rightarrow> bytes" where
  "chimePCM big sine rate =
     encode_pcm (concat (map
       (\<lambda>i. replicate ChimeChannels (chime_sample big sine (f64_of_int (int i) div f64_of_int rate)))
       [0..<nat (chime_frames big rate)]))"

section \<open>What is rendered\<close>

text \<open>How a number is worked out: the exponent, then the rounded fraction.\<close>

lemma f64_ratio_eval:
  assumes "fl_exp 53 (-1074) (nat \<bar>n\<bar>) d = e" "round_even (nat \<bar>n\<bar> * 2 ^ nat (- e)) (d * 2 ^ nat e) = nat \<bar>m\<bar>"
    "sgn m = sgn n" "\<bar>m\<bar> < 2 ^ 60" "e \<le> 900" "m \<noteq> 0"
  shows "f64_ratio n d = Fin m e"
proof -
  have "nat \<bar>m\<bar> < 2 ^ 60" using assms(4) by (simp add: nat_less_iff)
  then have "bits_of (nat \<bar>m\<bar>) \<le> 60" by (rule bits_of_le)
  moreover have "fl 53 (-1074) (nat \<bar>n\<bar>) d = (nat \<bar>m\<bar>, e)" using assms(1,2) by (simp add: fl_def scaled_def)
  moreover have "n \<noteq> 0" using assms(3,6) by (auto simp: sgn_0_0)
  ultimately show ?thesis using assms(5) by (simp add: f64_ratio_def flip: assms(3) add: sgn_mult_abs)
qed

lemmas ratio_steps = fl_exp_def scaled_def round_even_def bits_of.simps

lemma chime_f64:
  "f64_of_int 1 = Fin 4503599627370496 (-52)" "f64_of_int 32767 = Fin 9006924376834048 (-38)"
  "f64_of_int 48000 = Fin 6597069766656000 (-37)" "f64_of_int 44100 = Fin 6061057848115200 (-37)"
  "f64_ratio 2 5 = Fin 7205759403792794 (-54)"
  unfolding f64_of_int_def f64_dyadic_def by (rule f64_ratio_eval; simp add: ratio_steps)+

lemmas unit_f64 = chime_f64(1,2)

lemma chime_lengths:
  "f64_mul (f64_ratio 2 5) (f64_of_int 48000) = Fin 5277655813324800 (-38)"
  "f64_mul (f64_ratio 2 5) (f64_of_int 44100) = Fin 4848846278492160 (-38)"
  unfolding chime_f64 f64_mul.simps f64.case f64_dyadic_def by (rule f64_ratio_eval; simp add: ratio_steps)+

lemma chime_frames_at: "chime_frames big ChimeRate = 19200" "chime_frames big BluetoothRate = 17640"
  by (simp_all add: chime_frames_def f64_int64_def chimeSeconds_def ChimeRate_def BluetoothRate_def chime_lengths)

lemma bits_of_mono: "a \<le> b \<Longrightarrow> bits_of a \<le> bits_of b"
  by (meson bits_of_le bits_of_less le_less_trans)

text \<open>A quotient of at most \<open>c\<close>, rounded and then cut to an integer, is at most \<open>c\<close>.\<close>

lemma ratio_cut:
  assumes d: "0 < d" and c: "c < 2 ^ 15" and n: "nat \<bar>n\<bar> \<le> c * d"
  obtains m e where "f64_ratio n d = Fin m e" "\<bar>go_div (m * 2 ^ nat e) (2 ^ nat (- e))\<bar> \<le> int c"
proof (cases "n = 0")
  case True
  show ?thesis by (rule that [of 0 0]) (simp_all add: True f64_ratio_def go_div_def)
next
  case False
  obtain m e where f: "fl 53 (-1074) (nat \<bar>n\<bar>) d = (m, e)" by fastforce
  have b: "bits_of m \<le> 55" by (rule fl_bits [OF d f])
  have "bits_of (nat \<bar>n\<bar>) \<le> 15 + bits_of d"
    using bits_of_mono [OF n] bits_of_mult [of c d] bits_of_le [OF c] by linarith
  moreover have "e = fl_exp 53 (-1074) (nat \<bar>n\<bar>) d" using f by (auto simp: fl_def Let_def scaled_def)
  ultimately have e: "e \<le> -37" using fl_exp_le [of "nat \<bar>n\<bar>" d] by linarith
  define k where "k = nat (- e)"
  have k: "1 \<le> k" using e by (simp add: k_def)
  have "m = round_even (nat \<bar>n\<bar> * 2 ^ k) d"
    using f e by (auto simp: fl_def scaled_def Let_def k_def)
  then have "m \<le> nat \<bar>n\<bar> * 2 ^ k div d + 1" by (auto simp: round_even_def Let_def)
  also have "nat \<bar>n\<bar> * 2 ^ k div d \<le> c * 2 ^ k"
    using n d by (metis (no_types, lifting) div_le_mono div_mult_self_is_m mult.assoc mult.commute mult_le_mono1)
  finally have "m \<le> c * 2 ^ k + 1" by simp
  also have "\<dots> < (c + 1) * 2 ^ k" using k one_less_power [of "2 :: nat" k] by simp
  finally have "m div 2 ^ k < c + 1" by (rule less_mult_imp_div_less)
  then have "int m div 2 ^ k \<le> int c" by (metis Suc_eq_plus1 less_Suc_eq_le of_nat_le_iff of_nat_numeral of_nat_power zdiv_int)
  then have "\<bar>go_div (sgn n * int m * 2 ^ nat e) (2 ^ nat (- e))\<bar> \<le> int c"
    using e False by (simp add: go_div_def abs_mult k_def [symmetric] sgn_if pos_imp_zdiv_nonneg_iff)
  moreover have "f64_ratio n d = Fin (sgn n * int m) e" using False b e by (simp add: f64_ratio_def f)
  ultimately show ?thesis by (intro that)
qed

text \<open>What the two clamps leave.\<close>

definition unit_sized :: "f64 \<Rightarrow> bool" where
  "unit_sized x \<longleftrightarrow> (case x of Fin m e \<Rightarrow> \<bar>m\<bar> * 2 ^ nat e \<le> 2 ^ nat (- e) | _ \<Rightarrow> False)"

lemma unit_sized_Fin:
  assumes "\<not> f64_less (Fin m e) (f64_neg (f64_of_int 1))" "\<not> f64_less (f64_of_int 1) (Fin m e)"
  shows "unit_sized (Fin m e)"
proof -
  define g where "g = min e (-52)"
  have g: "\<bar>m\<bar> * 2 ^ nat (e - g) \<le> 4503599627370496 * 2 ^ nat (-52 - g)"
    using assms by (auto simp: unit_f64 Let_def g_def abs_mult_pos min.commute abs_if)
  consider "0 \<le> e" | "-52 \<le> e" "e < 0" | "e < -52" by linarith
  then show ?thesis
  proof cases
    case 1
    then have "nat (e - g) = nat e + 52" "g = -52" by (simp_all add: g_def nat_add_distrib)
    with g 1 show ?thesis by (simp add: unit_sized_def power_add)
  next
    case 2
    then have "nat (e - g) = nat (e + 52)" "g = -52" by (simp_all add: g_def)
    moreover have "(4503599627370496 :: int) = 2 ^ nat (- e) * 2 ^ nat (e + 52)"
      using 2 by (simp flip: power_add nat_add_distrib)
    ultimately have "\<bar>m\<bar> * 2 ^ nat (e + 52) \<le> 2 ^ nat (- e) * 2 ^ nat (e + 52)" using g by simp
    then have "\<bar>m\<bar> \<le> 2 ^ nat (- e)" by (rule mult_right_le_imp_le) simp
    then show ?thesis using 2 by (simp add: unit_sized_def)
  next
    case 3
    then have "g = e" by (simp add: g_def)
    moreover have "4503599627370496 * 2 ^ nat (-52 - e) = (2 :: int) ^ nat (- e)"
    proof -
      have "nat (- e) = 52 + nat (-52 - e)" using 3 by linarith
      then show ?thesis by (simp add: power_add)
    qed
    ultimately show ?thesis using g 3 by (simp add: unit_sized_def)
  qed
qed

lemma clamped:
  assumes "x \<noteq> NaN"
  shows "unit_sized (go_min (go_max x (- 1)) 1)"
proof -
  have u: "unit_sized (f64_of_int 1)" "unit_sized (f64_neg (f64_of_int 1))"
    by (simp_all add: unit_f64 unit_sized_def)
  have c: "f64_of_int 1 \<noteq> NaN" "f64_neg (f64_of_int 1) \<noteq> NaN" "\<not> f64_less (f64_of_int 1) (f64_neg (f64_of_int 1))"
    by (simp_all add: unit_f64)
  show ?thesis
  proof (cases x)
    case (Inf s)
    then show ?thesis using u c by (cases s) (simp_all add: go_min_def go_max_def unit_f64)
  next
    case (Fin m e)
    then show ?thesis using u c unit_sized_Fin [of m e] by (simp add: go_min_def go_max_def)
  qed (use assms in simp)
qed

text \<open>A level the clamps leave is a sample: its conversion is in range.\<close>

lemma clamped_cut:
  assumes "unit_sized x"
  shows "\<bar>f64_int16 big (x * f64_of_int 32767)\<bar> \<le> 32767"
    "f64_int16 big (x * f64_of_int 32767) = f64_int16 big' (x * f64_of_int 32767)"
proof -
  obtain m e where x: "x = Fin m e" "\<bar>m\<bar> * 2 ^ nat e \<le> 2 ^ nat (- e)"
    using assms by (cases x) (simp_all add: unit_sized_def)
  define n where "n = m * 9006924376834048 * 2 ^ nat (e - 38)"
  define d :: nat where "d = 2 ^ nat (38 - e)"
  have "\<bar>m\<bar> * 274877906944 * 2 ^ nat (e - 38) \<le> 2 ^ nat (38 - e)"
  proof -
    consider "38 \<le> e" | "0 \<le> e" "e < 38" | "e < 0" by linarith
    then show ?thesis
    proof cases
      case 1
      then have "nat e = 38 + nat (e - 38)" by linarith
      with x(2) 1 show ?thesis by (simp add: power_add)
    next
      case 2
      then have "(274877906944 :: int) = 2 ^ nat e * 2 ^ nat (38 - e)" by (simp flip: power_add nat_add_distrib)
      with x(2) 2 show ?thesis using mult_right_mono [of "\<bar>m\<bar> * 2 ^ nat e" 1 "2 ^ nat (38 - e)"] by (simp add: mult_ac)
    next
      case 3
      then have "nat (38 - e) = 38 + nat (- e)" by linarith
      with x(2) 3 show ?thesis by (simp add: power_add)
    qed
  qed
  then have "\<bar>n\<bar> \<le> 32767 * int d" by (simp add: n_def d_def abs_mult)
  then have "nat \<bar>n\<bar> \<le> 32767 * d" by linarith
  then obtain a b where r: "f64_ratio n d = Fin a b" "\<bar>go_div (a * 2 ^ nat b) (2 ^ nat (- b))\<bar> \<le> 32767"
    using ratio_cut [of d 32767 n] by (auto simp: d_def)
  have "x * f64_of_int 32767 = Fin a b"
    using r(1) by (simp add: x(1) unit_f64 f64_dyadic_def n_def d_def)
  then have "f64_int16 f (x * f64_of_int 32767) = go_div (a * 2 ^ nat b) (2 ^ nat (- b))" for f
    using r(2) by (auto simp: f64_int16_def Let_def)
  then show "\<bar>f64_int16 big (x * f64_of_int 32767)\<bar> \<le> 32767"
    "f64_int16 big (x * f64_of_int 32767) = f64_int16 big' (x * f64_of_int 32767)"
    using r(2) by simp_all
qed

text \<open>
  At both rates the chime has the length it claims, the same sample in every channel, and no sample depends on what the
  implementation makes of a number out of range, as long as the sines leave its level a number.
\<close>

theorem chime_whole:
  "length (chimePCM big sine ChimeRate) = 4 * 19200" "length (chimePCM big sine BluetoothRate) = 4 * 17640"
  by (simp_all add: chimePCM_def chime_frames_at length_concat comp_def sum_list_triv ChimeChannels_def)

theorem chime_sample_fixed:
  "if chime_level sine t = NaN then True
   else chime_sample big sine t = chime_sample big' sine t \<and> \<bar>sint (chime_sample big sine t)\<bar> \<le> 32767"
proof (cases "chime_level sine t = NaN")
  case False
  define w where "w = (let v = fold (chime_voice sine t) chimeNotes 0; left = chimeSeconds - t;
     v = (if left < chimeFade then v * (left div chimeFade) else v) in v * chimeGain)"
  have l: "chime_level sine t = go_min (go_max w (- 1)) 1" by (simp add: chime_level_def w_def Let_def)
  have "w \<noteq> NaN" using False l by (auto simp: go_max_def go_min_def)
  then have u: "unit_sized (chime_level sine t)" unfolding l by (rule clamped)
  have "sint (of_int k :: sample) = k" if "\<bar>k\<bar> \<le> 32767" for k
    using that by (simp add: signed_of_int signed_take_bit_int_eq_self)
  then show ?thesis using clamped_cut(1) [OF u, of big] clamped_cut(2) [OF u, of big big']
    by (simp add: chime_sample_def)
qed simp

text \<open>The first frame is silence, whatever the sine of nothing is as long as it is a number.\<close>

lemma note_f64:
  "f64_ratio 9 50 = Fin 6485183463413514 (-55)" "f64_ratio 11 50 = Fin 7926335344172073 (-55)"
  "f64_ratio 1 200 = Fin 5764607523034235 (-60)" "f64_ratio 1 10 = Fin 7205759403792794 (-56)"
  by (rule f64_ratio_eval; simp add: ratio_steps)+

lemma note_f64_dyadic:
  "f64_dyadic 6485183463413514 (-55) = Fin 6485183463413514 (-55)"
  "f64_dyadic 7205759403792794 (-54) = Fin 7205759403792794 (-54)"
  unfolding f64_dyadic_def by (rule f64_ratio_eval; simp add: ratio_steps)+

lemma f64_zero: "f64_of_int 0 = Fin 0 0" "f64_dyadic 0 e = Fin 0 0" "f64_ratio 0 d = Fin 0 0"
  by (simp_all add: f64_of_int_def f64_dyadic_def f64_ratio_def)

theorem chime_starts_silent:
  "if chime_level sine 0 = NaN then True else chime_sample big sine 0 = 0"
proof -
  let ?n = "\<lparr>n_freq = f64_of_int 880, n_start = f64_of_int 0, n_dur = f64_ratio 9 50\<rparr>"
  let ?m = "\<lparr>n_freq = f64_of_int 1320, n_start = f64_ratio 9 50, n_dur = f64_ratio 11 50\<rparr>"
  have one: "chime_voice sine 0 ?n 0 = 0 \<or> chime_voice sine 0 ?n 0 = NaN"
    by (cases "sine (two_pi * f64_of_int 880 * (0 - 0))")
      (simp_all add: chime_voice_def f64_zero note_f64 note_f64_dyadic chimeRamp_def f64_sub_def f64_le_def go_min_def chime_f64 Let_def)
  have two: "chime_voice sine 0 ?m v = v" for v
    by (simp add: chime_voice_def f64_zero note_f64 f64_le_def)
  have "fold (chime_voice sine 0) chimeNotes 0 = chime_voice sine 0 ?n 0"
    by (simp only: chimeNotes_def fold.simps comp_def id_def two)
  with one have "fold (chime_voice sine 0) chimeNotes 0 = 0 \<or> fold (chime_voice sine 0) chimeNotes 0 = NaN" by simp
  then have "chime_level sine 0 = 0 \<or> chime_level sine 0 = NaN"
    by (auto simp: chime_level_def chimeSeconds_def chime_f64 chimeFade_def chimeGain_def note_f64
        note_f64_dyadic f64_zero f64_sub_def f64_le_def go_min_def go_max_def Let_def)
  then show ?thesis
    by (auto simp: chime_sample_def f64_int16_def f64_zero chime_f64)
qed

end
