(* ===== verification/Serve_Delay.thy ===== *)
theory Serve_Delay
  imports Sp_Client
begin

text \<open>
  The output delay the daemon keeps while the audio server is off or on, in \<open>serve.go\<close>: \<open>sendspinSwitch\<close> holds what it is,
  what is on disk and what is still owed to the disk, and writes it no oftener than \<open>KeepApart\<close> and no more than
  \<open>KeepTries\<close> times when the write is refused.  The parts of \<open>sendspinSwitch\<close> this concerns are \<open>kept_delay\<close>; the zero
  \<open>time.Time\<close> of \<open>wroteAt\<close> is \<open>None\<close>, longer ago than any wait.  The client, when there is one, is the delay it says.
\<close>

definition KeepApart :: duration where "KeepApart = 60 * second"

record kept_delay =
  kd_delay :: int
  kd_disk :: int
  kd_unknown :: bool
  kd_owes :: bool
  kd_for :: int
  kd_tries :: nat
  kd_wrote :: "time option"

definition tookDelayLocked :: "int \<Rightarrow> bool \<Rightarrow> kept_delay \<Rightarrow> kept_delay" where
  "tookDelayLocked ms known d =
     d\<lparr>kd_delay := ms, kd_disk := ms, kd_for := ms, kd_unknown := \<not> known, kd_owes := False, kd_tries := 0\<rparr>"

definition switch_delay :: "int option \<Rightarrow> kept_delay \<Rightarrow> int" where
  "switch_delay client d = (case client of Some ms \<Rightarrow> ms | None \<Rightarrow> kd_delay d)"

text \<open>How far writes are kept apart, from \<open>keepEvery\<close>.\<close>

definition apart :: "duration \<Rightarrow> duration" where
  "apart every = (if every \<le> 0 then KeepApart else every)"

text \<open>\<open>None\<close> when nothing is owed, else how long is left to wait.\<close>

definition owed :: "duration \<Rightarrow> time \<Rightarrow> kept_delay \<Rightarrow> duration option" where
  "owed every now d =
     (if \<not> kd_owes d \<and> \<not> (kd_unknown d \<and> kd_tries d < KeepTries) then None
      else (case kd_wrote d of
          None \<Rightarrow> Some 0
        | Some w \<Rightarrow> (let wait = apart every - (now - w) in if 0 < wait then Some wait else Some 0)))"

datatype delay_act = DelaySaved time int | SwitchWoken | DelayNotKept | ClientTold int

text \<open>What \<open>keepOwed\<close> finds under the lock: the value to keep, the tries it has had, and whether it is owed.\<close>

definition keep_look :: "kept_delay \<Rightarrow> kept_delay" where
  "keep_look d =
     (let d1 = (if kd_delay d \<noteq> kd_for d then d\<lparr>kd_for := kd_delay d, kd_tries := 0\<rparr> else d)
      in d1\<lparr>kd_owes := (kd_delay d1 \<noteq> kd_disk d1 \<or> kd_unknown d1)\<rparr>)"

text \<open>\<open>keepDelay\<close>: \<open>good\<close> is the answer of the write, \<open>done\<close> the time after it.\<close>

definition keepDelay :: "bool \<Rightarrow> time \<Rightarrow> bool \<Rightarrow> time \<Rightarrow> int \<Rightarrow> kept_delay \<Rightarrow> kept_delay \<times> delay_act list" where
  "keepDelay client now good after' ms d =
     (if \<not> good then (d, [DelaySaved now ms])
      else ((if client then (d\<lparr>kd_disk := ms, kd_wrote := Some after', kd_unknown := False\<rparr>)\<lparr>kd_delay := ms\<rparr>
             else d\<lparr>kd_disk := ms, kd_wrote := Some after', kd_unknown := False\<rparr>),
            [DelaySaved now ms, SwitchWoken]))"

definition keep_noted :: "bool \<Rightarrow> time \<Rightarrow> nat \<Rightarrow> kept_delay \<Rightarrow> kept_delay" where
  "keep_noted good after' tries' d =
     (if good then d\<lparr>kd_wrote := Some after', kd_owes := False, kd_tries := 0\<rparr>
      else d\<lparr>kd_wrote := Some after', kd_tries := tries' + 1, kd_owes := (tries' + 1 < KeepTries)\<rparr>)"

definition keepOwed ::
  "duration \<Rightarrow> bool \<Rightarrow> bool \<Rightarrow> time \<Rightarrow> bool \<Rightarrow> time \<Rightarrow> kept_delay \<Rightarrow> kept_delay \<times> delay_act list" where
  "keepOwed every forced client now good after' d0 =
     (let d = keep_look d0
      in if \<not> kd_owes d then (d, [])
         else if (case owed every now d of None \<Rightarrow> False | Some wait \<Rightarrow> 0 < wait) \<and> \<not> forced then (d, [SwitchWoken])
         else (case keepDelay client now good after' (kd_delay d) d of
             (d1, acts) \<Rightarrow> (keep_noted good after' (kd_tries d) d1, acts @ (if good then [] else [DelayNotKept]))))"

definition applyDelay ::
  "duration \<Rightarrow> int \<Rightarrow> int option \<Rightarrow> time \<Rightarrow> bool \<Rightarrow> time \<Rightarrow> kept_delay \<Rightarrow> kept_delay \<times> delay_act list" where
  "applyDelay every ms client now good after' d =
     (let held' = HoldDelayMS ms
      in case client of
           Some c \<Rightarrow> (d, [ClientTold held'])
         | None \<Rightarrow>
             if kd_delay d = held' then (d, [])
             else keepOwed every False False now good after' (d\<lparr>kd_delay := held'\<rparr>))"

text \<open>\<open>keptDelay\<close>: the number read of the property, an error, or nothing stored.\<close>

definition keptDelay :: "(int \<times> bool) option \<Rightarrow> int \<times> bool" where
  "keptDelay r =
     (case r of None \<Rightarrow> (0, False)
      | Some (delay, stored) \<Rightarrow> if \<not> stored then (0, True) else (HoldDelayMS delay, True))"

section \<open>Writes are rationed\<close>

text \<open>
  The turns of \<open>run\<close> in which something is owed and its time is due: when each comes, what the write answers and when it
  is over.
\<close>

fun due_turns :: "duration \<Rightarrow> (time \<times> bool \<times> time) list \<Rightarrow> kept_delay \<Rightarrow> kept_delay \<times> delay_act list" where
  "due_turns every [] d = (d, [])"
| "due_turns every ((now, good, after') # es) d =
     (case owed every now d of
        None \<Rightarrow> due_turns every es d
      | Some wait \<Rightarrow>
          (case keepOwed every False False now good after' d of
             (d1, acts) \<Rightarrow> (case due_turns every es d1 of (d2, acts2) \<Rightarrow> (d2, acts @ acts2))))"

fun saves :: "delay_act list \<Rightarrow> (time \<times> int) list" where
  "saves [] = []"
| "saves (DelaySaved t ms # as) = (t, ms) # saves as"
| "saves (a # as) = saves as"

lemma saves_append [simp]: "saves (xs @ ys) = saves xs @ saves ys"
  by (induction xs rule: saves.induct) auto

definition settled_disk :: "kept_delay \<Rightarrow> bool" where
  "settled_disk d \<longleftrightarrow> kd_delay d = kd_disk d \<and> \<not> kd_unknown d"

text \<open>What is owed is owed for the value held, and has tries left.\<close>

definition owing :: "kept_delay \<Rightarrow> bool" where
  "owing d \<longleftrightarrow> kd_for d = kd_delay d \<and> kd_tries d \<le> KeepTries \<and> (kd_owes d \<longrightarrow> kd_tries d < KeepTries)
     \<and> (kd_delay d \<noteq> kd_disk d \<and> kd_tries d < KeepTries \<longrightarrow> kd_owes d)"

text \<open>A turn that is due: it writes at most once, the value that is held, not before its time, and uses up a try.\<close>

definition writes_once :: "duration \<Rightarrow> time \<Rightarrow> time \<Rightarrow> kept_delay \<Rightarrow> kept_delay \<Rightarrow> delay_act list \<Rightarrow> bool" where
  "writes_once every now after' d d' acts \<longleftrightarrow>
     kd_tries d < KeepTries \<and> saves acts = [(now, kd_delay d)] \<and> kd_wrote d' = Some after'
     \<and> (case kd_wrote d of None \<Rightarrow> True | Some w \<Rightarrow> w + apart every \<le> now)
     \<and> (kd_tries d' = kd_tries d + 1 \<or> settled_disk d' \<and> \<not> kd_owes d')"

lemma look_fields [simp]:
  "kd_delay (keep_look d) = kd_delay d" "kd_disk (keep_look d) = kd_disk d" "kd_unknown (keep_look d) = kd_unknown d"
  "kd_wrote (keep_look d) = kd_wrote d" "kd_for (keep_look d) = kd_delay d"
  "kd_owes (keep_look d) = (kd_delay d \<noteq> kd_disk d \<or> kd_unknown d)"
  "kd_tries (keep_look d) = (if kd_delay d \<noteq> kd_for d then 0 else kd_tries d)"
  by (simp_all add: keep_look_def Let_def)

lemma owed_now:
  "kd_owes d \<Longrightarrow> owed every now d =
     Some (case kd_wrote d of None \<Rightarrow> 0 | Some w \<Rightarrow> max 0 (apart every - (now - w)))"
  by (auto simp: owed_def Let_def split: option.splits)

lemma keepOwed_step:
  assumes k: "keepOwed every False False now good after' d = (d', acts)" and tries: "kd_tries (keep_look d) < KeepTries"
  shows "kd_delay d' = kd_delay d \<and> owing d' \<and>
    (if saves acts = [] then d' = keep_look d else writes_once every now after' (keep_look d) d' acts)"
proof (cases "\<not> kd_owes (keep_look d) \<or> 0 < (case kd_wrote d of None \<Rightarrow> 0 | Some w \<Rightarrow> max 0 (apart every - (now - w)))")
  case True
  with k have "d' = keep_look d \<and> saves acts = []"
    by (cases "kd_owes (keep_look d)") (auto simp: keepOwed_def Let_def owed_now)
  with tries show ?thesis by (simp add: owing_def)
next
  case False
  then have due: "case kd_wrote d of None \<Rightarrow> True | Some w \<Rightarrow> w + apart every \<le> now"
    by (auto split: option.splits)
  have eq: "(d', acts) = (case keepDelay False now good after' (kd_delay d) (keep_look d) of
      (d1, acts) \<Rightarrow> (keep_noted good after' (kd_tries (keep_look d)) d1, acts @ (if good then [] else [DelayNotKept])))"
    using k False by (auto simp: keepOwed_def Let_def owed_now)
  show ?thesis
  proof (cases good)
    case True
    with eq have "d' = keep_noted True after' (kd_tries (keep_look d))
        ((keep_look d)\<lparr>kd_disk := kd_delay d, kd_wrote := Some after', kd_unknown := False\<rparr>)"
      and "saves acts = [(now, kd_delay d)]" by (simp_all add: keepDelay_def)
    with tries due show ?thesis by (simp add: keep_noted_def writes_once_def settled_disk_def owing_def)
  next
    case False
    with eq have "d' = keep_noted False after' (kd_tries (keep_look d)) (keep_look d)"
      and "saves acts = [(now, kd_delay d)]" by (simp_all add: keepDelay_def)
    with tries due show ?thesis by (simp add: keep_noted_def writes_once_def owing_def)
  qed
qed

lemma keepOwed_turn:
  assumes k: "keepOwed every False False now good after' d = (d', acts)" and i: "owing d"
    and o: "owed every now d = Some wait"
  shows "kd_delay d' = kd_delay d \<and> owing d' \<and>
    (if saves acts = [] then kd_wrote d' = kd_wrote d \<and> kd_tries d' = kd_tries d
     else writes_once every now after' d d' acts)"
proof -
  from o i have "kd_tries (keep_look d) < KeepTries"
    by (auto simp: owed_def owing_def split: if_splits)
  from keepOwed_step [OF k this] i show ?thesis
    by (auto simp: writes_once_def owing_def)
qed

text \<open>Writes one after another, each at least so long after the one before it.\<close>

fun spaced :: "duration \<Rightarrow> time option \<Rightarrow> time list \<Rightarrow> bool" where
  "spaced gap' w [] = True"
| "spaced gap' w (t # ts) = ((case w of None \<Rightarrow> True | Some u \<Rightarrow> u + gap' \<le> t) \<and> spaced gap' (Some t) ts)"

lemma spaced_later: "spaced g (Some w) ts \<Longrightarrow> v \<le> w \<Longrightarrow> spaced g (Some v) ts"
  by (cases ts) auto

lemma settled_nothing_owed: "settled_disk d \<Longrightarrow> \<not> kd_owes d \<Longrightarrow> due_turns every es d = (d, [])"
  by (induction es) (auto simp: owed_def settled_disk_def)

lemma due_turns_ration:
  assumes "owing d" "list_all (\<lambda>(now, good, after'). now \<le> after') es" "due_turns every es d = (d', acts)"
  shows "length (saves acts) \<le> KeepTries - kd_tries d \<and> list_all (\<lambda>(t, ms). ms = kd_delay d) (saves acts)
    \<and> spaced (apart every) (kd_wrote d) (map fst (saves acts)) \<and> kd_delay d' = kd_delay d
    \<and> owing d'"
  using assms
proof (induction es arbitrary: d acts)
  case (Cons e es)
  obtain now good after' where e: "e = (now, good, after')" by (cases e)
  show ?case
  proof (cases "owed every now d")
    case None
    with Cons e show ?thesis by simp
  next
    case (Some wait)
    obtain d1 a1 where k: "keepOwed every False False now good after' d = (d1, a1)"
      by (cases "keepOwed every False False now good after' d")
    obtain a2 where r: "due_turns every es d1 = (d', a2)" and acts: "acts = a1 @ a2"
      using Cons.prems(3) Some e k by (auto split: prod.splits)
    note t = keepOwed_turn [OF k Cons.prems(1) Some]
    have ih: "length (saves a2) \<le> KeepTries - kd_tries d1 \<and> list_all (\<lambda>(t, ms). ms = kd_delay d1) (saves a2)
        \<and> spaced (apart every) (kd_wrote d1) (map fst (saves a2)) \<and> kd_delay d' = kd_delay d1 \<and> owing d'"
      by (rule Cons.IH) (use t Cons.prems(2) r in auto)
    show ?thesis
    proof (cases "saves a1 = []")
      case True
      with t ih acts show ?thesis by simp
    next
      case False
      with t have w: "writes_once every now after' d d1 a1" by simp
      have "length (saves a2) + 1 \<le> KeepTries - kd_tries d"
      proof (cases "settled_disk d1 \<and> \<not> kd_owes d1")
        case True
        with r settled_nothing_owed [of d1 every es] have "saves a2 = []" by simp
        with w show ?thesis by (auto simp: writes_once_def)
      next
        case False
        with w ih show ?thesis by (auto simp: writes_once_def)
      qed
      moreover have "now \<le> after'" using Cons.prems(2) e by simp
      ultimately show ?thesis
        using w t ih acts by (auto simp: writes_once_def intro: spaced_later)
    qed
  qed
qed auto

text \<open>
  A new delay asked for while the audio server is off is written at most \<open>KeepTries\<close> times, counting the write
  \<open>applyDelay\<close> itself may make, however the writes are answered and whenever the turns of \<open>run\<close> come; every write carries
  that delay, and each comes at least the wait after the one before it.  Once nothing is owed any more, the delay is on
  disk or was refused \<open>KeepTries\<close> times.
\<close>

theorem delay_writes_rationed:
  assumes "owing d" "HoldDelayMS ms \<noteq> kd_delay d" and "t0 \<le> t1" "list_all (\<lambda>(now, good, after'). now \<le> after') es"
  shows "case applyDelay every ms None t0 g t1 d of (d1, acts1) \<Rightarrow>
    case due_turns every es d1 of (d2, acts2) \<Rightarrow>
      length (saves (acts1 @ acts2)) \<le> KeepTries
      \<and> list_all (\<lambda>(t, v). v = HoldDelayMS ms) (saves (acts1 @ acts2))
      \<and> spaced (apart every) (kd_wrote d) (map fst (saves (acts1 @ acts2)))
      \<and> kd_delay d2 = HoldDelayMS ms
      \<and> (case owed every t d2 of Some wait \<Rightarrow> True | None \<Rightarrow> settled_disk d2 \<or> kd_tries d2 = KeepTries)"
proof -
  define d0 where "d0 = d\<lparr>kd_delay := HoldDelayMS ms\<rparr>"
  obtain d1 acts1 where k: "keepOwed every False False t0 g t1 d0 = (d1, acts1)"
    by (cases "keepOwed every False False t0 g t1 d0")
  obtain d2 acts2 where r: "due_turns every es d1 = (d2, acts2)" by (cases "due_turns every es d1")
  have t: "kd_tries (keep_look d0) = 0" "kd_wrote d0 = kd_wrote d" "kd_delay d0 = HoldDelayMS ms"
    using assms(1,2) by (simp_all add: d0_def owing_def)
  note step = keepOwed_step [OF k]
  have d1: "kd_delay d1 = HoldDelayMS ms" "owing d1"
    using step t by (simp_all add: KeepTries_def)
  have a1: "if saves acts1 = [] then kd_wrote d1 = kd_wrote d
       else saves acts1 = [(t0, HoldDelayMS ms)] \<and> kd_wrote d1 = Some t1
         \<and> (case kd_wrote d of None \<Rightarrow> True | Some w \<Rightarrow> w + apart every \<le> t0)
         \<and> (0 < kd_tries d1 \<or> settled_disk d1 \<and> \<not> kd_owes d1)"
    using step t by (auto simp: writes_once_def KeepTries_def)
  note rest = due_turns_ration [OF d1(2) assms(4) r]
  have "length (saves acts2) + length (saves acts1) \<le> KeepTries"
  proof (cases "saves acts1 = [] \<or> 0 < kd_tries d1")
    case True
    with a1 rest show ?thesis by (auto simp: KeepTries_def split: if_splits)
  next
    case False
    with a1 r settled_nothing_owed [of d1 every es] show ?thesis by (auto simp: KeepTries_def)
  qed
  moreover have "spaced (apart every) (kd_wrote d) (map fst (saves acts1) @ map fst (saves acts2))"
    using a1 rest assms(3) by (auto intro: spaced_later split: if_splits)
  moreover have "applyDelay every ms None t0 g t1 d = (d1, acts1)"
    using assms(2) k by (simp add: applyDelay_def Let_def d0_def)
  ultimately show ?thesis
    using r rest a1 d1 by (auto simp: owing_def settled_disk_def owed_def split: if_splits option.splits)
qed

definition fresh_delay :: kept_delay where
  "fresh_delay = \<lparr>kd_delay = 0, kd_disk = 0, kd_unknown = False, kd_owes = False, kd_for = 0, kd_tries = 0, kd_wrote = None\<rparr>"

theorem delay_writes_rationed_witness:
  "case applyDelay 0 250 None 0 False 1 fresh_delay of (d1, acts1) \<Rightarrow>
    case due_turns 0 [(60 * second, False, 61 * second), (70 * second, True, 70 * second)] d1 of (d2, acts2) \<Rightarrow>
      length (saves (acts1 @ acts2)) \<le> KeepTries
      \<and> list_all (\<lambda>(t, v). v = HoldDelayMS 250) (saves (acts1 @ acts2))
      \<and> spaced (apart 0) (kd_wrote fresh_delay) (map fst (saves (acts1 @ acts2)))
      \<and> kd_delay d2 = HoldDelayMS 250
      \<and> (case owed 0 0 d2 of Some wait \<Rightarrow> True | None \<Rightarrow> settled_disk d2 \<or> kd_tries d2 = KeepTries)"
  by (rule delay_writes_rationed)
    (simp_all add: fresh_delay_def owing_def KeepTries_def HoldDelayMS_def MaxStaticDelayMS_def)

end
