(* ===== verification/Serve_Switch.thy ===== *)
theory Serve_Switch
  imports Serve_Delay
begin

text \<open>
  The switch of the audio server, \<open>sendspinSwitch\<close> of \<open>serve.go\<close>, as a machine of atomic steps.  What one goroutine does
  between two others' chances is a step: one hold of the mutex, or one call to the network, the firewall or the responder.
  The process that switches on or off is the \<open>job\<close>, of which \<open>begin\<close> lets there be one; the goroutines counted by the
  wait group \<open>held\<close>, the one that holds the firewall rule open and the one that advertises once the device has an address,
  are the \<open>helper\<close>s.  A session is one time of being on: its client, its listener and its channels \<open>hold\<close> and \<open>served\<close>
  carry its number.  What the world answers comes with the event.
\<close>

datatype job =
    NoJob | Listening | Permitting nat | Holding nat | Installing nat | Spawning nat | Enabled
  | Clearing | Telling nat | Unholding nat | Awaiting nat | Shutting nat | TakingDelay nat | Denying nat | Disabled

datatype helper =
  HoldWaits nat | HoldAllows nat | ReachWaits nat | ReachChecks nat | ReachAllows nat | ReachTells nat

datatype net_act =
    Listened nat | ListenFailed | AllowTried | DenyTried | ToldAll | ToldBase | ListenerClosed nat | ClientClosed nat
  | ClientMade nat int bool | SaidOn | SaidOff | SaidNoAddress | FlagSet bool | ServeStopped nat | Woken

record sw_state =
  sw_on :: bool
  sw_working :: bool
  sw_wanted :: bool
  sw_session :: "nat option"
  sw_made :: nat
  sw_job :: job
  sw_held :: "helper list"
  sw_stops :: "nat list"
  sw_open :: "nat list"
  sw_clients :: "nat list"
  sw_serving :: "nat list"
  sw_kept :: kept_delay
  sw_saves :: "delay_act list"
  sw_acts :: "net_act list"

definition sw_start :: "kept_delay \<Rightarrow> sw_state" where
  "sw_start d =
     \<lparr>sw_on = False, sw_working = False, sw_wanted = False, sw_session = None, sw_made = 0, sw_job = NoJob, sw_held = [],
      sw_stops = [], sw_open = [], sw_clients = [], sw_serving = [], sw_kept = d, sw_saves = [], sw_acts = []\<rparr>"

definition net :: "net_act list \<Rightarrow> sw_state \<Rightarrow> sw_state" where
  "net as s = s\<lparr>sw_acts := sw_acts s @ as\<rparr>"

section \<open>The delay\<close>

definition keep_switch :: "duration \<Rightarrow> bool \<Rightarrow> time \<Rightarrow> bool \<Rightarrow> time \<Rightarrow> sw_state \<Rightarrow> sw_state" where
  "keep_switch every forced now good after' s =
     (case keepOwed every forced (sw_session s \<noteq> None) now good after' (sw_kept s) of
        (d, as) \<Rightarrow> s\<lparr>sw_kept := d, sw_saves := sw_saves s @ as\<rparr>)"

definition want_delay :: "duration \<Rightarrow> int \<Rightarrow> time \<Rightarrow> bool \<Rightarrow> time \<Rightarrow> sw_state \<Rightarrow> sw_state" where
  "want_delay every ms now good after' s =
     (case applyDelay every ms (case sw_session s of None \<Rightarrow> None | Some n \<Rightarrow> Some ms) now good after' (sw_kept s) of
        (d, as) \<Rightarrow> s\<lparr>sw_kept := d, sw_saves := sw_saves s @ as\<rparr>)"

text \<open>The client's own keeper writes through \<open>SaveDelay\<close>.\<close>

definition client_keeps :: "time \<Rightarrow> bool \<Rightarrow> time \<Rightarrow> int \<Rightarrow> sw_state \<Rightarrow> sw_state" where
  "client_keeps now good after' ms s =
     (case keepDelay (sw_session s \<noteq> None) now good after' ms (sw_kept s) of
        (d, as) \<Rightarrow> s\<lparr>sw_kept := d, sw_saves := sw_saves s @ as\<rparr>)"

section \<open>On and off\<close>

definition begin_job :: "bool \<Rightarrow> sw_state \<Rightarrow> bool \<times> sw_state" where
  "begin_job want s = (if sw_working s \<or> sw_on s = want then (False, s) else (True, s\<lparr>sw_working := True\<rparr>))"

text \<open>\<open>end\<close>, and what \<open>applyWant\<close> does after a job it began: the flag is set and the api woken.\<close>

definition end_job :: "bool \<Rightarrow> sw_state \<Rightarrow> sw_state" where
  "end_job on s =
     (let s1 = s\<lparr>sw_working := False, sw_job := NoJob\<rparr>
      in if sw_wanted s then net [FlagSet on, Woken] s1 else s1)"

record job_env =
  je_listens :: bool
  je_kept :: "int \<times> bool"
  je_delay :: int

text \<open>The delay a new client starts with, and whether it is known to be on disk.\<close>

definition start_delay :: "int \<times> bool \<Rightarrow> kept_delay \<Rightarrow> int \<times> bool" where
  "start_delay kept' d =
     (if \<not> snd kept' \<or> kd_delay d \<noteq> kd_disk d then (kd_delay d, False) else kept')"

definition enable_turn :: "job_env \<Rightarrow> sw_state \<Rightarrow> sw_state" where
  "enable_turn E s =
     (case sw_job s of
        Listening \<Rightarrow>
          if \<not> je_listens E then net [ListenFailed] (s\<lparr>sw_job := Enabled\<rparr>)
          else net [Listened (sw_made s)]
            (s\<lparr>sw_job := Permitting (sw_made s), sw_made := Suc (sw_made s), sw_open := sw_made s # sw_open s\<rparr>)
      | Permitting n \<Rightarrow> net [AllowTried] (s\<lparr>sw_job := Holding n\<rparr>)
      | Holding n \<Rightarrow> s\<lparr>sw_job := Installing n, sw_held := HoldWaits n # sw_held s\<rparr>
      | Installing n \<Rightarrow>
          (case start_delay (je_kept E) (sw_kept s) of (delay, known) \<Rightarrow>
            net [ClientMade n delay (\<not> known)]
              (s\<lparr>sw_job := Spawning n, sw_kept := tookDelayLocked delay known (sw_kept s), sw_on := True,
                sw_session := Some n, sw_clients := n # sw_clients s\<rparr>))
      | Spawning n \<Rightarrow>
          net [SaidOn] (s\<lparr>sw_job := Enabled, sw_serving := n # sw_serving s, sw_held := ReachWaits n # sw_held s\<rparr>)
      | Enabled \<Rightarrow> end_job True s
      | _ \<Rightarrow> s)"

text \<open>\<open>held.Wait\<close> goes on only when no helper is left.\<close>

definition disable_turn :: "job_env \<Rightarrow> sw_state \<Rightarrow> sw_state" where
  "disable_turn E s =
     (case sw_job s of
        Clearing \<Rightarrow>
          (case sw_session s of
             None \<Rightarrow> s
           | Some n \<Rightarrow> s\<lparr>sw_job := Telling n, sw_on := False, sw_session := None\<rparr>)
      | Telling n \<Rightarrow> net [ToldBase] (s\<lparr>sw_job := Unholding n\<rparr>)
      | Unholding n \<Rightarrow> s\<lparr>sw_job := Awaiting n, sw_stops := n # sw_stops s\<rparr>
      | Awaiting n \<Rightarrow> if sw_held s = [] then s\<lparr>sw_job := Shutting n\<rparr> else s
      | Shutting n \<Rightarrow>
          net [ListenerClosed n, ClientClosed n]
            (s\<lparr>sw_job := TakingDelay n, sw_open := removeAll n (sw_open s), sw_clients := removeAll n (sw_clients s)\<rparr>)
      | TakingDelay n \<Rightarrow> s\<lparr>sw_job := Denying n, sw_kept := (sw_kept s)\<lparr>kd_delay := je_delay E\<rparr>\<rparr>
      | Denying n \<Rightarrow> net [DenyTried, SaidOff] (s\<lparr>sw_job := Disabled\<rparr>)
      | Disabled \<Rightarrow> end_job False s
      | _ \<Rightarrow> s)"

definition job_turn :: "job_env \<Rightarrow> sw_state \<Rightarrow> sw_state" where
  "job_turn E s =
     (if sw_job s \<in> {Listening, Enabled} \<or> (case sw_job s of
          Permitting n \<Rightarrow> True | Holding n \<Rightarrow> True | Installing n \<Rightarrow> True | Spawning n \<Rightarrow> True | _ \<Rightarrow> False)
      then enable_turn E s else disable_turn E s)"

text \<open>How \<open>enable\<close> and \<open>disable\<close> begin; \<open>applyWant\<close> first keeps what is owed, before switching on.\<close>

definition enable_at_start :: "sw_state \<Rightarrow> sw_state" where
  "enable_at_start s =
     (case begin_job True s of (good, s1) \<Rightarrow> if good then s1\<lparr>sw_job := Listening, sw_wanted := False\<rparr> else s1)"

definition apply_want :: "duration \<Rightarrow> bool \<Rightarrow> time \<Rightarrow> bool \<Rightarrow> time \<Rightarrow> sw_state \<Rightarrow> sw_state" where
  "apply_want every on now good after' s0 =
     (let s = (if on then keep_switch every True now good after' s0 else s0)
      in case begin_job on s of (accepted, s1) \<Rightarrow>
        if accepted then s1\<lparr>sw_job := (if on then Listening else Clearing), sw_wanted := True\<rparr> else s1)"

section \<open>The helpers\<close>

text \<open>A turn of a helper: what becomes of it, and what it does.\<close>

definition helper_turn :: "bool \<Rightarrow> sw_state \<Rightarrow> helper \<Rightarrow> helper option \<times> net_act list" where
  "helper_turn reachable s h =
     (case h of
        HoldWaits n \<Rightarrow> if n \<in> set (sw_stops s) then (None, []) else (Some (HoldAllows n), [])
      | HoldAllows n \<Rightarrow> (Some (HoldWaits n), [AllowTried])
      | ReachWaits n \<Rightarrow>
          if reachable then (Some (ReachChecks n), [])
          else if n \<in> set (sw_stops s) then (None, []) else (Some (ReachChecks n), [SaidNoAddress])
      | ReachChecks n \<Rightarrow> if n \<in> set (sw_stops s) then (None, []) else (Some (ReachAllows n), [])
      | ReachAllows n \<Rightarrow> (Some (ReachTells n), [AllowTried])
      | ReachTells n \<Rightarrow> (None, if sw_on s then [ToldAll] else []))"

definition run_helper :: "nat \<Rightarrow> bool \<Rightarrow> sw_state \<Rightarrow> sw_state" where
  "run_helper i reachable s =
     (if i < length (sw_held s) then
        (case helper_turn reachable s (sw_held s ! i) of (h, as) \<Rightarrow>
          net as (s\<lparr>sw_held := take i (sw_held s) @ (case h of None \<Rightarrow> [] | Some h' \<Rightarrow> [h']) @ drop (Suc i) (sw_held s)\<rparr>))
      else s)"

definition flush_switch :: "duration \<Rightarrow> time \<Rightarrow> bool \<Rightarrow> time \<Rightarrow> sw_state \<Rightarrow> sw_state" where
  "flush_switch every now good after' s0 =
     (let s = keep_switch every True now good after' s0
      in case sw_session s of
           None \<Rightarrow> s
         | Some n \<Rightarrow> net [ListenerClosed n] (s\<lparr>sw_open := removeAll n (sw_open s)\<rparr>))"

definition serve_ends :: "nat \<Rightarrow> sw_state \<Rightarrow> sw_state" where
  "serve_ends n s =
     (if n \<in> set (sw_serving s) then net [ServeStopped n] (s\<lparr>sw_serving := removeAll n (sw_serving s)\<rparr>) else s)"

datatype sw_event =
    ApplyWant bool time bool time | EnableAtStart | JobTurn job_env | HelperTurn nat bool | SweepRule
  | Flush time bool time | ServeEnds nat | ClientKeeps time bool time int | WantDelay int time bool time
  | DelayDue time bool time

fun sw_step :: "duration \<Rightarrow> sw_state \<Rightarrow> sw_event \<Rightarrow> sw_state" where
  "sw_step every s (ApplyWant on now good after') = apply_want every on now good after' s"
| "sw_step every s EnableAtStart = enable_at_start s"
| "sw_step every s (JobTurn E) = job_turn E s"
| "sw_step every s (HelperTurn i reachable) = run_helper i reachable s"
| "sw_step every s SweepRule = net [DenyTried] s"
| "sw_step every s (Flush now good after') = flush_switch every now good after' s"
| "sw_step every s (ServeEnds n) = serve_ends n s"
| "sw_step every s (ClientKeeps now good after' ms) = client_keeps now good after' ms s"
| "sw_step every s (WantDelay ms now good after') = want_delay every ms now good after' s"
| "sw_step every s (DelayDue now good after') = keep_switch every False now good after' s"

section \<open>What holds in every state\<close>

fun helper_of :: "helper \<Rightarrow> nat" where
  "helper_of (HoldWaits n) = n"
| "helper_of (HoldAllows n) = n"
| "helper_of (ReachWaits n) = n"
| "helper_of (ReachChecks n) = n"
| "helper_of (ReachAllows n) = n"
| "helper_of (ReachTells n) = n"

text \<open>What the calls made leave behind: whether the rule was last tried open, and whether the server is told of.\<close>

definition rule_left :: "net_act list \<Rightarrow> bool" where
  "rule_left as = foldl (\<lambda>b a. case a of AllowTried \<Rightarrow> True | DenyTried \<Rightarrow> False | _ \<Rightarrow> b) False as"

definition told_left :: "net_act list \<Rightarrow> bool" where
  "told_left as = foldl (\<lambda>b a. case a of ToldAll \<Rightarrow> True | ToldBase \<Rightarrow> False | _ \<Rightarrow> b) False as"

lemma left_snoc [simp]:
  "rule_left (as @ [a]) = (case a of AllowTried \<Rightarrow> True | DenyTried \<Rightarrow> False | _ \<Rightarrow> rule_left as)"
  "told_left (as @ [a]) = (case a of ToldAll \<Rightarrow> True | ToldBase \<Rightarrow> False | _ \<Rightarrow> told_left as)"
  by (cases a; simp add: rule_left_def told_left_def)+

lemma left_two [simp]:
  "rule_left (as @ [a, b]) = (case b of AllowTried \<Rightarrow> True | DenyTried \<Rightarrow> False | _ \<Rightarrow> rule_left (as @ [a]))"
  "told_left (as @ [a, b]) = (case b of ToldAll \<Rightarrow> True | ToldBase \<Rightarrow> False | _ \<Rightarrow> told_left (as @ [a]))"
  using left_snoc [of "as @ [a]" b] by (simp_all del: left_snoc)

lemma removeAll_only: "set xs \<subseteq> {n} \<Longrightarrow> removeAll n xs = []"
  by (induction xs) auto

definition off_clean :: "sw_state \<Rightarrow> bool" where
  "off_clean s \<longleftrightarrow> \<not> sw_on s \<and> sw_session s = None \<and> sw_held s = [] \<and> sw_open s = [] \<and> sw_clients s = []
     \<and> \<not> rule_left (sw_acts s) \<and> \<not> told_left (sw_acts s)"

definition holder_in :: "nat \<Rightarrow> helper list \<Rightarrow> bool" where
  "holder_in n hs \<longleftrightarrow> HoldWaits n \<in> set hs \<or> HoldAllows n \<in> set hs"

definition own :: "nat \<Rightarrow> sw_state \<Rightarrow> bool" where
  "own n s \<longleftrightarrow> n < sw_made s \<and> (\<forall>h\<in>set (sw_held s). helper_of h = n) \<and> set (sw_open s) \<subseteq> {n}"

definition starting :: "nat \<Rightarrow> sw_state \<Rightarrow> bool" where
  "starting n s \<longleftrightarrow> own n s \<and> \<not> sw_on s \<and> sw_session s = None \<and> n \<notin> set (sw_stops s) \<and> sw_clients s = []
     \<and> \<not> told_left (sw_acts s) \<and> list_all (\<lambda>h. h = HoldWaits n \<or> h = HoldAllows n) (sw_held s)"

definition up :: "nat \<Rightarrow> sw_state \<Rightarrow> bool" where
  "up n s \<longleftrightarrow> own n s \<and> sw_on s \<and> sw_session s = Some n \<and> n \<notin> set (sw_stops s) \<and> sw_clients s = [n]
     \<and> holder_in n (sw_held s)"

definition going :: "nat \<Rightarrow> sw_state \<Rightarrow> bool" where
  "going n s \<longleftrightarrow> own n s \<and> \<not> sw_on s \<and> sw_session s = None"

definition phase :: "sw_state \<Rightarrow> bool" where
  "phase s \<longleftrightarrow>
     (case sw_job s of
        NoJob \<Rightarrow> off_clean s \<or> (\<exists>n. up n s)
      | Listening \<Rightarrow> off_clean s
      | Permitting n \<Rightarrow> starting n s \<and> sw_held s = []
      | Holding n \<Rightarrow> starting n s \<and> sw_held s = []
      | Installing n \<Rightarrow> starting n s \<and> holder_in n (sw_held s)
      | Spawning n \<Rightarrow> up n s
      | Enabled \<Rightarrow> off_clean s \<or> (\<exists>n. up n s)
      | Clearing \<Rightarrow> (\<exists>n. up n s)
      | Telling n \<Rightarrow> going n s \<and> sw_clients s = [n]
      | Unholding n \<Rightarrow> going n s \<and> sw_clients s = [n] \<and> \<not> told_left (sw_acts s)
      | Awaiting n \<Rightarrow> going n s \<and> sw_clients s = [n] \<and> \<not> told_left (sw_acts s) \<and> n \<in> set (sw_stops s)
      | Shutting n \<Rightarrow> going n s \<and> sw_clients s = [n] \<and> \<not> told_left (sw_acts s) \<and> sw_held s = []
      | TakingDelay n \<Rightarrow> going n s \<and> sw_clients s = [] \<and> sw_open s = [] \<and> \<not> told_left (sw_acts s) \<and> sw_held s = []
      | Denying n \<Rightarrow> going n s \<and> sw_clients s = [] \<and> sw_open s = [] \<and> \<not> told_left (sw_acts s) \<and> sw_held s = []
      | Disabled \<Rightarrow> off_clean s)"

definition sw_inv :: "sw_state \<Rightarrow> bool" where
  "sw_inv s \<longleftrightarrow> phase s \<and> (\<forall>n\<in>set (sw_stops s). n < sw_made s) \<and> sw_working s = (sw_job s \<noteq> NoJob)"

lemmas phase_simps = off_clean_def own_def starting_def up_def going_def phase_def

text \<open>A step that leaves alone what the phases speak of.\<close>

definition alike :: "sw_state \<Rightarrow> sw_state \<Rightarrow> bool" where
  "alike s s' \<longleftrightarrow> sw_on s' = sw_on s \<and> sw_working s' = sw_working s \<and> sw_session s' = sw_session s \<and> sw_made s' = sw_made s
     \<and> sw_job s' = sw_job s \<and> sw_held s' = sw_held s \<and> sw_stops s' = sw_stops s \<and> set (sw_open s') \<subseteq> set (sw_open s)
     \<and> sw_clients s' = sw_clients s \<and> (rule_left (sw_acts s') \<longrightarrow> rule_left (sw_acts s))
     \<and> told_left (sw_acts s') = told_left (sw_acts s)"

lemma alike_inv: "alike s s' \<Longrightarrow> sw_inv s \<Longrightarrow> sw_inv s'"
proof -
  assume a: "alike s s'" and i: "sw_inv s"
  have mono: "off_clean s \<Longrightarrow> off_clean s'" "\<And>n. up n s \<Longrightarrow> up n s'" "\<And>n. starting n s \<Longrightarrow> starting n s'"
      "\<And>n. going n s \<Longrightarrow> going n s'"
    using a by (auto simp: alike_def off_clean_def up_def own_def starting_def going_def)
  from a have same: "sw_job s' = sw_job s" "sw_held s' = sw_held s" "sw_clients s' = sw_clients s"
      "told_left (sw_acts s') = told_left (sw_acts s)" "sw_stops s' = sw_stops s" "sw_made s' = sw_made s"
      "sw_working s' = sw_working s" and empty: "sw_open s = [] \<Longrightarrow> sw_open s' = []"
    by (auto simp: alike_def)
  from i show ?thesis
    unfolding sw_inv_def phase_def same by (cases "sw_job s") (auto dest: mono empty)
qed

lemma alike_refl: "alike s s"
  by (simp add: alike_def)

lemma keep_alike: "alike s (keep_switch every forced now good after' s)"
  by (simp add: keep_switch_def alike_def split: prod.split)

lemma want_alike: "alike s (want_delay every ms now good after' s)"
  by (simp add: want_delay_def alike_def split: prod.split)

lemma client_alike: "alike s (client_keeps now good after' ms s)"
  by (simp add: client_keeps_def alike_def split: prod.split)

lemma flush_alike: "alike s (flush_switch every now good after' s)"
  using keep_alike [of s every True now good after']
  by (auto simp: flush_switch_def Let_def alike_def net_def split: option.split)

lemma serve_alike: "alike s (serve_ends n s)"
  by (simp add: serve_ends_def alike_def net_def)

lemma sweep_alike: "alike s (net [DenyTried] s)"
  by (simp add: alike_def net_def)

lemma end_same:
  "off_clean (end_job on s) = off_clean s" "up n (end_job on s) = up n s" "sw_stops (end_job on s) = sw_stops s"
  "sw_made (end_job on s) = sw_made s" "sw_job (end_job on s) = NoJob" "\<not> sw_working (end_job on s)"
  by (simp_all add: end_job_def Let_def net_def off_clean_def up_def own_def)

lemma end_inv: "off_clean s \<or> (\<exists>n. up n s) \<Longrightarrow> (\<forall>n\<in>set (sw_stops s). n < sw_made s) \<Longrightarrow> sw_inv (end_job on s)"
  by (simp add: sw_inv_def phase_def end_same)

lemma job_turn_inv:
  assumes "sw_inv s"
  shows "sw_inv (job_turn E s)"
proof (cases "sw_job s")
  case NoJob
  with assms show ?thesis by (simp add: job_turn_def disable_turn_def)
next
  case Enabled
  with assms have "off_clean s \<or> (\<exists>n. up n s)" "\<forall>n\<in>set (sw_stops s). n < sw_made s"
    by (simp_all add: sw_inv_def phase_def)
  with Enabled show ?thesis by (simp add: job_turn_def enable_turn_def end_inv)
next
  case Disabled
  with assms have "off_clean s \<or> (\<exists>n. up n s)" "\<forall>n\<in>set (sw_stops s). n < sw_made s"
    by (simp_all add: sw_inv_def phase_def)
  with Disabled show ?thesis by (simp add: job_turn_def disable_turn_def end_inv)
next
  case Listening
  with assms show ?thesis
    by (auto simp: job_turn_def enable_turn_def sw_inv_def net_def phase_simps)
next
  case (Permitting n)
  with assms show ?thesis by (auto simp: job_turn_def enable_turn_def sw_inv_def net_def phase_simps)
next
  case (Holding n)
  with assms show ?thesis by (auto simp: job_turn_def enable_turn_def sw_inv_def net_def phase_simps holder_in_def)
next
  case (Installing n)
  with assms show ?thesis
    by (auto simp: job_turn_def enable_turn_def sw_inv_def net_def phase_simps split: prod.split)
next
  case (Spawning n)
  with assms show ?thesis
    by (auto simp: job_turn_def enable_turn_def sw_inv_def net_def phase_simps holder_in_def)
next
  case Clearing
  with assms show ?thesis by (auto simp: job_turn_def disable_turn_def sw_inv_def phase_simps)
next
  case (Telling n)
  with assms show ?thesis by (auto simp: job_turn_def disable_turn_def sw_inv_def net_def phase_simps)
next
  case (Unholding n)
  with assms show ?thesis by (auto simp: job_turn_def disable_turn_def sw_inv_def net_def phase_simps)
next
  case (Awaiting n)
  with assms show ?thesis by (auto simp: job_turn_def disable_turn_def sw_inv_def net_def phase_simps)
next
  case (Shutting n)
  with assms show ?thesis
    by (auto simp: job_turn_def disable_turn_def sw_inv_def net_def phase_simps removeAll_only)
next
  case (TakingDelay n)
  with assms show ?thesis by (auto simp: job_turn_def disable_turn_def sw_inv_def net_def phase_simps)
next
  case (Denying n)
  with assms show ?thesis by (auto simp: job_turn_def disable_turn_def sw_inv_def net_def phase_simps)
qed

lemma run_helper_eq:
  assumes "i < length (sw_held s)" "helper_turn reachable s (sw_held s ! i) = (h, as)"
  shows "run_helper i reachable s =
    net as (s\<lparr>sw_held := take i (sw_held s) @ (case h of None \<Rightarrow> [] | Some h' \<Rightarrow> [h']) @ drop (Suc i) (sw_held s)\<rparr>)"
  using assms by (simp add: run_helper_def)

lemma helper_cases:
  assumes "helper_turn reachable s h = (r, as)"
  shows "case r of None \<Rightarrow> helper_of h \<in> set (sw_stops s) \<or> h = ReachTells (helper_of h) | Some h' \<Rightarrow> helper_of h' = helper_of h"
    and "h = HoldWaits n \<or> h = HoldAllows n \<Longrightarrow> n \<notin> set (sw_stops s) \<Longrightarrow> r = Some (HoldWaits n) \<or> r = Some (HoldAllows n)"
    and "\<not> sw_on s \<Longrightarrow> told_left (acts @ as) = told_left acts"
  using assms by (cases h; auto simp: helper_turn_def split: if_splits)+

lemma held_split: "i < length xs \<Longrightarrow> xs = take i xs @ xs ! i # drop (Suc i) xs"
  by (rule id_take_nth_drop)

lemma run_helper_inv:
  assumes i: "sw_inv s"
  shows "sw_inv (run_helper k reachable s)"
proof (cases "k < length (sw_held s)")
  case False
  with i show ?thesis by (simp add: run_helper_def)
next
  case True
  define h where "h = sw_held s ! k"
  obtain r as where t: "helper_turn reachable s h = (r, as)" by (cases "helper_turn reachable s h")
  define hs where "hs = take k (sw_held s) @ (case r of None \<Rightarrow> [] | Some h' \<Rightarrow> [h']) @ drop (Suc k) (sw_held s)"
  have run: "run_helper k reachable s = net as (s\<lparr>sw_held := hs\<rparr>)"
    using run_helper_eq [OF True] t by (simp add: h_def hs_def)
  have "set (sw_held s) = insert h (set (take k (sw_held s)) \<union> set (drop (Suc k) (sw_held s)))"
    using arg_cong [OF held_split [OF True], of set] by (auto simp: h_def)
  moreover have "set hs = set_option r \<union> (set (take k (sw_held s)) \<union> set (drop (Suc k) (sw_held s)))"
    by (cases r) (auto simp: hs_def)
  ultimately obtain A where old: "set (sw_held s) = insert h A" and new: "set hs = set_option r \<union> A"
    by blast
  note hc = helper_cases [OF t]
  have of_n: "\<forall>x\<in>set hs. helper_of x = n" if "\<forall>x\<in>set (sw_held s). helper_of x = n" for n
    using that hc(1) old new by (auto split: option.splits)
  have holder: "holder_in n hs" if "holder_in n (sw_held s)" "n \<notin> set (sw_stops s)" for n
    using that hc(2) [of n] unfolding holder_in_def old new by auto
  have only: "list_all (\<lambda>h. h = HoldWaits n \<or> h = HoldAllows n) hs"
    if "list_all (\<lambda>h. h = HoldWaits n \<or> h = HoldAllows n) (sw_held s)" "n \<notin> set (sw_stops s)" for n
  proof -
    from that(1) have "h = HoldWaits n \<or> h = HoldAllows n" and A: "\<forall>x\<in>A. x = HoldWaits n \<or> x = HoldAllows n"
      by (simp_all add: list_all_iff old)
    with hc(2) [OF this(1) that(2)] show ?thesis by (auto simp: list_all_iff new)
  qed
  let ?s = "run_helper k reachable s"
  have fields: "sw_on ?s = sw_on s" "sw_session ?s = sw_session s" "sw_made ?s = sw_made s" "sw_stops ?s = sw_stops s"
      "sw_open ?s = sw_open s" "sw_clients ?s = sw_clients s" "sw_held ?s = hs" "sw_job ?s = sw_job s"
      "sw_working ?s = sw_working s"
    unfolding run by (simp_all add: net_def)
  have told: "told_left (sw_acts ?s) = told_left (sw_acts s)" if "\<not> sw_on s"
    unfolding run using hc(3) [OF that] by (simp add: net_def)
  have nonempty: "sw_held s \<noteq> []" using True by auto
  have own: "own n ?s" if "own n s" for n
    using that of_n [of n] by (simp add: own_def fields)
  have mono: "\<And>n. up n s \<Longrightarrow> up n ?s" "\<And>n. starting n s \<Longrightarrow> starting n ?s" "\<And>n. going n s \<Longrightarrow> going n ?s"
    by (simp_all add: up_def starting_def going_def fields own holder only told)
  have still: "holder_in n hs" if "starting n s" "holder_in n (sw_held s)" for n
    using that by (auto simp: starting_def intro: holder)
  have "\<not> off_clean s" using nonempty by (simp add: off_clean_def)
  moreover have "\<not> sw_on s" if "going n s \<or> starting n s" for n
    using that by (auto simp: going_def starting_def)
  ultimately show ?thesis
    using i nonempty unfolding sw_inv_def phase_def fields
    by (cases "sw_job s") (auto dest: mono told still)
qed

lemma begin_eq: "begin_job want s = (good, s') \<Longrightarrow>
    good = (\<not> sw_working s \<and> sw_on s \<noteq> want) \<and> s' = (if good then s\<lparr>sw_working := True\<rparr> else s)"
  by (auto simp: begin_job_def split: if_splits)

lemma begun_inv:
  assumes "sw_inv s" "\<not> sw_working s" "sw_on s \<noteq> on"
  shows "sw_inv (s\<lparr>sw_working := True, sw_job := (if on then Listening else Clearing), sw_wanted := w\<rparr>)"
  using assms by (auto simp: sw_inv_def phase_simps)

lemma sw_step_inv: "sw_inv s \<Longrightarrow> sw_inv (sw_step every s e)"
proof (cases e)
  case (ApplyWant on now good after')
  assume i: "sw_inv s"
  define s1 where "s1 = (if on then keep_switch every True now good after' s else s)"
  have i1: "sw_inv s1" using i alike_inv [OF keep_alike i] by (simp add: s1_def)
  obtain b s2 where b: "begin_job on s1 = (b, s2)" by (cases "begin_job on s1")
  with i1 begin_eq [OF b] begun_inv [OF i1, of on True] show ?thesis
    by (auto simp: ApplyWant apply_want_def s1_def [symmetric])
next
  case EnableAtStart
  assume i: "sw_inv s"
  obtain b s2 where b: "begin_job True s = (b, s2)" by (cases "begin_job True s")
  with i begin_eq [OF b] begun_inv [OF i, of True False] show ?thesis
    by (auto simp: EnableAtStart enable_at_start_def)
qed (auto simp: job_turn_inv run_helper_inv intro: alike_inv [OF sweep_alike] alike_inv [OF flush_alike]
    alike_inv [OF serve_alike] alike_inv [OF client_alike] alike_inv [OF want_alike] alike_inv [OF keep_alike])

interpretation switch_machine: machine "sw_step every" sw_inv for every :: duration
  by unfold_locales (rule sw_step_inv)

lemma reachable_inv: "sw_inv (foldl (sw_step every) (sw_start d) es)"
  by (rule switch_machine.run_keeps)
    (simp add: sw_inv_def phase_def off_clean_def sw_start_def rule_left_def told_left_def)

text \<open>
  C27. Whatever the goroutines do between each other's steps, the switch is what it says: whenever no change is under way, off
  means that nothing of the server is left, no listener, no client and no goroutine that could still open the port or
  advertise, that the last thing tried with the firewall rule was to delete it, and that the server is not advertised;
  and on means that the session has its client and a goroutine that holds the rule open. There is never more
  than one client, whether a change is under way or not. A goroutine here is one of the helpers the switch holds; a client's
  \<open>Serve\<close> that has been told to end may still be returning.
\<close>

theorem switch_says_what_is:
  "let s = foldl (sw_step every) (sw_start d) es in
     length (sw_clients s) \<le> 1 \<and>
     (if sw_working s then True
      else if sw_on s then
        (case sw_session s of None \<Rightarrow> False
         | Some n \<Rightarrow> sw_clients s = [n] \<and> holder_in n (sw_held s) \<and> list_all (\<lambda>h. helper_of h = n) (sw_held s))
      else sw_held s = [] \<and> sw_open s = [] \<and> sw_clients s = []
        \<and> \<not> rule_left (sw_acts s) \<and> \<not> told_left (sw_acts s))"
proof -
  let ?s = "foldl (sw_step every) (sw_start d) es"
  have i: "phase ?s" "sw_working ?s = (sw_job ?s \<noteq> NoJob)" using reachable_inv [of every d es] by (simp_all add: sw_inv_def)
  have "length (sw_clients ?s) \<le> 1"
    using i(1) by (cases "sw_job ?s") (auto simp: phase_simps)
  moreover have "if sw_working ?s then True
      else if sw_on ?s then
        (case sw_session ?s of None \<Rightarrow> False
         | Some n \<Rightarrow> sw_clients ?s = [n] \<and> holder_in n (sw_held ?s) \<and> list_all (\<lambda>h. helper_of h = n) (sw_held ?s))
      else sw_held ?s = [] \<and> sw_open ?s = [] \<and> sw_clients ?s = []
        \<and> \<not> rule_left (sw_acts ?s) \<and> \<not> told_left (sw_acts ?s)"
    using i by (auto simp: phase_simps list_all_iff)
  ultimately show ?thesis by (simp add: Let_def)
qed

section \<open>Switching off comes to an end\<close>

text \<open>The turns a helper has left once its session is ending.\<close>

fun helper_rank :: "helper \<Rightarrow> nat" where
  "helper_rank (HoldWaits n) = 1"
| "helper_rank (HoldAllows n) = 2"
| "helper_rank (ReachWaits n) = 4"
| "helper_rank (ReachChecks n) = 3"
| "helper_rank (ReachAllows n) = 2"
| "helper_rank (ReachTells n) = 1"

definition helper_work :: "helper list \<Rightarrow> nat" where
  "helper_work hs = sum_list (map helper_rank hs)"

lemma helper_turn_less:
  assumes "helper_of h \<in> set (sw_stops s)" "helper_turn reachable s h = (r, as)"
  shows "(case r of None \<Rightarrow> 0 | Some h' \<Rightarrow> helper_rank h') < helper_rank h"
  using assms by (cases h) (auto simp: helper_turn_def split: if_splits)

lemma run_helper_less:
  assumes "i < length (sw_held s)" "\<forall>h\<in>set (sw_held s). helper_of h \<in> set (sw_stops s)"
  shows "helper_work (sw_held (run_helper i reachable s)) < helper_work (sw_held s)"
proof -
  obtain r as where t: "helper_turn reachable s (sw_held s ! i) = (r, as)" by (cases "helper_turn reachable s (sw_held s ! i)")
  have "helper_work (sw_held s) = helper_work (take i (sw_held s)) + helper_rank (sw_held s ! i) + helper_work (drop (Suc i) (sw_held s))"
    using arg_cong [OF held_split [OF assms(1)], of helper_work] by (simp add: helper_work_def)
  moreover have "helper_work (sw_held (run_helper i reachable s)) =
      helper_work (take i (sw_held s)) + (case r of None \<Rightarrow> 0 | Some h' \<Rightarrow> helper_rank h') + helper_work (drop (Suc i) (sw_held s))"
    by (simp add: run_helper_eq [OF assms(1) t] net_def helper_work_def split: option.split)
  ultimately show ?thesis
    using helper_turn_less [OF _ t] assms by simp
qed

text \<open>
  C28. Switching off does not hang: once it waits for the goroutines of the session, every turn any of them takes brings
  them nearer their end, and when none is left five turns of its own, whatever they are answered, switch it off.
\<close>

theorem switch_off_ends:
  "let s = foldl (sw_step every) (sw_start d) es in
     case sw_job s of
       Awaiting n \<Rightarrow>
         if sw_held s = [] then
           (let s' = foldl (\<lambda>s E. job_turn E s) s [E1, E2, E3, E4, E5]
            in sw_job s' = NoJob \<and> \<not> sw_on s' \<and> \<not> sw_working s' \<and> kd_delay (sw_kept s') = je_delay E3)
         else list_all (\<lambda>i. helper_work (sw_held (run_helper i reachable s)) < helper_work (sw_held s)) [0..<length (sw_held s)]
     | _ \<Rightarrow> True"
proof -
  let ?s = "foldl (sw_step every) (sw_start d) es"
  have i: "phase ?s" using reachable_inv [of every d es] by (simp add: sw_inv_def)
  have "if sw_held ?s = [] then
           (let s' = foldl (\<lambda>s E. job_turn E s) ?s [E1, E2, E3, E4, E5]
            in sw_job s' = NoJob \<and> \<not> sw_on s' \<and> \<not> sw_working s' \<and> kd_delay (sw_kept s') = je_delay E3)
         else list_all (\<lambda>i. helper_work (sw_held (run_helper i reachable ?s)) < helper_work (sw_held ?s)) [0..<length (sw_held ?s)]"
    if j: "sw_job ?s = Awaiting n" for n

  proof (cases "sw_held ?s = []")
    case True
    have "\<not> sw_on ?s" using i j by (simp add: phase_def going_def)
    with True j show ?thesis
      by (simp add: job_turn_def disable_turn_def net_def end_job_def Let_def)
  next
    case False
    have "\<forall>h\<in>set (sw_held ?s). helper_of h \<in> set (sw_stops ?s)"
      using i j by (simp add: phase_def going_def own_def)
    with False show ?thesis by (simp add: list_all_iff run_helper_less)
  qed
  note ends = this
  show ?thesis
  proof (cases "sw_job ?s")
    case (Awaiting n)
    show ?thesis unfolding Let_def Awaiting job.case using ends [OF Awaiting] unfolding Let_def .
  qed (simp_all add: Let_def)
qed

section \<open>Asking\<close>

text \<open>
  \<open>Set\<close> and \<open>SetDelay\<close> leave a wish in a channel that holds one.  \<open>run\<close> may take what is there between the first try to
  send and the taking back (\<open>early\<close>), or between that and the second try, when there is nothing left to take.  What it
  has taken on the way is the second component; one wish is asked for at a time, under the api's mutex.
\<close>

definition slot_send :: "'a \<Rightarrow> bool \<Rightarrow> 'a option \<Rightarrow> 'a option \<times> 'a list" where
  "slot_send v early slot =
     (case slot of
        None \<Rightarrow> (Some v, [])
      | Some old \<Rightarrow> if early then (Some v, [old]) else (Some v, []))"

text \<open>The last wish is always the one that is left to be taken, and no wish is taken after a later one.\<close>

lemma slot_send_last: "fst (slot_send v early slot) = Some v" "set (snd (slot_send v early slot)) \<subseteq> set_option slot"
  by (auto simp: slot_send_def split: option.split)

end
