(* ===== verification/Serve_Mute.thy ===== *)
theory Serve_Mute
  imports Go_Float Button
begin

text \<open>
  The mute of the speaker and the volume keys, \<open>serve.go\<close> and \<open>internal/button/mute.go\<close>: while the device is muted a guard
  grabs the volume keys, and a press lifts the mute.  The package variable \<open>muted\<close> with its mutex is \<open>mute_state\<close>; a
  guard is known by the number of guards made before it, and the goroutine \<open>watchVolumeKeys\<close> of a guard is there as long
  as its number is in \<open>mt_watch\<close>.  Each step is what happens under one hold of the mutex; what reading the level, setting
  the mute and grabbing the keys answer is an argument, which moves the device's own state on.
\<close>

section \<open>Taking the keys\<close>

datatype guard_error = NoNode | NotOpened | NotVolumeKeys | NotGrabbed

text \<open>What is answered and the opens and closes of the node on the way.\<close>

datatype node_op = NodeOpened | NodeClosed

definition GuardVolume :: "bool \<Rightarrow> bool \<Rightarrow> 16 word list option \<Rightarrow> bool \<Rightarrow> guard_error option \<times> node_op list" where
  "GuardVolume found opened keys grabbed =
     (if \<not> found then (Some NoNode, [])
      else if \<not> opened then (Some NotOpened, [])
      else (case keys of
          None \<Rightarrow> (Some NotVolumeKeys, [NodeOpened, NodeClosed])
        | Some ks \<Rightarrow>
            if volumeKeysOn ks \<noteq> None then (Some NotVolumeKeys, [NodeOpened, NodeClosed])
            else if \<not> grabbed then (Some NotGrabbed, [NodeOpened, NodeClosed])
            else (None, [NodeOpened])))"

section \<open>The state\<close>

datatype mute_note =
    MuteUnwired | MuteNotSet | KeysNotHeld | MuteNotLifted | KeysGoneUnread | KeysGoneAgain int | KeysHeldAgain
  | LevelUnwired | CameUpMuted

record mute_state =
  mt_wired :: bool
  mt_guard :: "nat option"
  mt_lost :: int
  mt_made :: nat
  mt_open :: "nat list"
  mt_watch :: "nat list"
  mt_said :: "mute_note list"

definition mute_init :: mute_state where
  "mute_init = \<lparr>mt_wired = False, mt_guard = None, mt_lost = 0, mt_made = 0, mt_open = [], mt_watch = [], mt_said = []\<rparr>"

definition volumeGuardTries :: int where "volumeGuardTries = 3"

text \<open>The level is whether the device is muted and whether that could be read.\<close>

record 's mute_world =
  mw_level :: "'s \<Rightarrow> (bool \<times> bool) \<times> 's"
  mw_set :: "bool \<Rightarrow> 's \<Rightarrow> bool \<times> 's"
  mw_grab :: "'s \<Rightarrow> bool \<times> 's"

definition say_mute :: "mute_note \<Rightarrow> mute_state \<Rightarrow> mute_state" where
  "say_mute n m = m\<lparr>mt_said := mt_said m @ [n]\<rparr>"

definition holdVolumeKeys :: "'s mute_world \<Rightarrow> mute_state \<times> 's \<Rightarrow> mute_state \<times> 's" where
  "holdVolumeKeys E ms =
     (case ms of (m, s) \<Rightarrow>
       if mt_guard m \<noteq> None then (m, s)
       else (case mw_grab E s of (good, s1) \<Rightarrow>
         if \<not> good then (say_mute KeysNotHeld m, s1)
         else (m\<lparr>mt_guard := Some (mt_made m), mt_made := Suc (mt_made m),
                 mt_open := mt_made m # mt_open m, mt_watch := mt_made m # mt_watch m\<rparr>, s1)))"

definition close_guard :: "nat \<Rightarrow> mute_state \<Rightarrow> mute_state" where
  "close_guard g m = m\<lparr>mt_open := removeAll g (mt_open m)\<rparr>"

definition releaseVolumeGuard :: "mute_state \<Rightarrow> mute_state" where
  "releaseVolumeGuard m =
     (case mt_guard m of
        None \<Rightarrow> m\<lparr>mt_lost := 0\<rparr>
      | Some g \<Rightarrow> (close_guard g (m\<lparr>mt_lost := 0\<rparr>))\<lparr>mt_guard := None\<rparr>)"

definition setMuteLocked :: "'s mute_world \<Rightarrow> bool \<Rightarrow> mute_state \<times> 's \<Rightarrow> mute_state \<times> 's" where
  "setMuteLocked E on ms =
     (case ms of (m, s) \<Rightarrow>
       if \<not> mt_wired m then (say_mute MuteUnwired m, s)
       else (case mw_level E s of ((was, known), s1) \<Rightarrow>
         if on then
           (if \<not> known \<or> \<not> was then
              (case mw_set E True s1 of (good, s2) \<Rightarrow>
                if \<not> good then (say_mute MuteNotSet m, s2) else holdVolumeKeys E (m, s2))
            else holdVolumeKeys E (m, s1))
         else if known \<and> \<not> was then (releaseVolumeGuard m, s1)
         else (case mw_set E False s1 of (good, s2) \<Rightarrow>
           if \<not> good then (say_mute MuteNotSet m, s2)
           else (case mw_level E s2 of ((still, ok), s3) \<Rightarrow>
             if ok \<and> still then (say_mute MuteNotLifted m, s3) else (releaseVolumeGuard m, s3)))))"

definition holdKeysIfMuted :: "'s mute_world \<Rightarrow> mute_state \<times> 's \<Rightarrow> mute_state \<times> 's" where
  "holdKeysIfMuted E ms =
     (case ms of (m, s) \<Rightarrow>
       if \<not> mt_wired m then (say_mute LevelUnwired m, s)
       else (case mw_level E s of ((on, ok), s1) \<Rightarrow>
         if \<not> ok \<or> \<not> on then (m, s1) else holdVolumeKeys E (say_mute CameUpMuted m, s1)))"

definition forgetVolumeGuard :: "'s mute_world \<Rightarrow> nat \<Rightarrow> mute_state \<times> 's \<Rightarrow> mute_state \<times> 's" where
  "forgetVolumeGuard E g ms =
     (case ms of (m0, s) \<Rightarrow>
       let m = close_guard g m0
       in if mt_guard m \<noteq> Some g then (m, s)
          else (let m1 = m\<lparr>mt_guard := None\<rparr>
            in if \<not> mt_wired m1 then (m1, s)
               else (case mw_level E s of ((on, ok), s1) \<Rightarrow>
                 if \<not> ok then (say_mute KeysGoneUnread m1, s1)
                 else if \<not> on then (m1, s1)
                 else (let m2 = m1\<lparr>mt_lost := go_int32 (mt_lost m1 + 1)\<rparr>
                   in if volumeGuardTries < mt_lost m2 then (say_mute (KeysGoneAgain (mt_lost m2)) m2, s1)
                      else holdVolumeKeys E (say_mute KeysHeldAgain m2, s1)))))"

definition unwatch :: "nat \<Rightarrow> mute_state \<Rightarrow> mute_state" where
  "unwatch g m = m\<lparr>mt_watch := removeAll g (mt_watch m)\<rparr>"

text \<open>One return of \<open>Wait\<close> in the goroutine of guard \<open>g\<close>: a volume key went down, or the keys are gone.\<close>

definition watchVolumeKeys :: "'s mute_world \<Rightarrow> nat \<Rightarrow> bool \<Rightarrow> mute_state \<times> 's \<Rightarrow> mute_state \<times> 's" where
  "watchVolumeKeys E g pressed ms =
     (if g \<notin> set (mt_watch (fst ms)) then ms
      else if \<not> pressed then forgetVolumeGuard E g (unwatch g (fst ms), snd ms)
      else if mt_guard (fst ms) \<noteq> Some g then (unwatch g (fst ms), snd ms)
      else (let ms' = setMuteLocked E False ms
        in if mt_guard (fst ms') \<noteq> Some g then (unwatch g (fst ms'), snd ms') else ms'))"

definition useMuteLevel :: "mute_state \<Rightarrow> mute_state" where
  "useMuteLevel m = m\<lparr>mt_wired := True\<rparr>"

datatype mute_event = UseMuteLevel | SetSpeakerMute bool | HoldKeysIfMuted | WaitReturned nat bool

fun mute_step :: "'s mute_world \<Rightarrow> mute_state \<times> 's \<Rightarrow> mute_event \<Rightarrow> mute_state \<times> 's" where
  "mute_step E ms UseMuteLevel = (useMuteLevel (fst ms), snd ms)"
| "mute_step E ms (SetSpeakerMute on) = setMuteLocked E on ms"
| "mute_step E ms HoldKeysIfMuted = holdKeysIfMuted E ms"
| "mute_step E ms (WaitReturned g pressed) = watchVolumeKeys E g pressed ms"

section \<open>No guard is lost\<close>

definition mute_ok :: "mute_state \<Rightarrow> bool" where
  "mute_ok m \<longleftrightarrow>
     mt_open m = (case mt_guard m of None \<Rightarrow> [] | Some g \<Rightarrow> [g])
     \<and> distinct (mt_watch m) \<and> (\<forall>g\<in>set (mt_watch m). g < mt_made m)
     \<and> (\<forall>g. mt_guard m = Some g \<longrightarrow> g \<in> set (mt_watch m))"

definition mute_inv :: "mute_state \<times> 's \<Rightarrow> bool" where
  "mute_inv ms = mute_ok (fst ms)"

lemma say_mute_ok [simp]: "mute_ok (say_mute n m) = mute_ok m"
  by (simp add: mute_ok_def say_mute_def)

lemma lost_ok [simp]: "mute_ok (m\<lparr>mt_lost := k\<rparr>) = mute_ok m"
  by (simp add: mute_ok_def)

lemma hold_ok: "mute_ok m \<Longrightarrow> mute_ok (fst (holdVolumeKeys E (m, s)))"
  by (auto simp: holdVolumeKeys_def mute_ok_def say_mute_def split: prod.splits option.splits)

lemma release_ok: "mute_ok m \<Longrightarrow> mute_ok (releaseVolumeGuard m)"
  by (auto simp: releaseVolumeGuard_def mute_ok_def close_guard_def split: option.splits)

lemma set_ok: "mute_ok m \<Longrightarrow> mute_ok (fst (setMuteLocked E on (m, s)))"
  by (simp add: setMuteLocked_def hold_ok release_ok split: prod.split)

lemma hold_if_muted_ok: "mute_ok m \<Longrightarrow> mute_ok (fst (holdKeysIfMuted E (m, s)))"
  by (simp add: holdKeysIfMuted_def hold_ok split: prod.split)

text \<open>What becomes of a guard that is gone, once it is closed and forgotten.\<close>

definition after_loss :: "'s mute_world \<Rightarrow> mute_state \<times> 's \<Rightarrow> mute_state \<times> 's" where
  "after_loss E ms =
     (case ms of (m1, s) \<Rightarrow>
       if \<not> mt_wired m1 then (m1, s)
       else (case mw_level E s of ((on, ok), s1) \<Rightarrow>
         if \<not> ok then (say_mute KeysGoneUnread m1, s1)
         else if \<not> on then (m1, s1)
         else (let m2 = m1\<lparr>mt_lost := go_int32 (mt_lost m1 + 1)\<rparr>
           in if volumeGuardTries < mt_lost m2 then (say_mute (KeysGoneAgain (mt_lost m2)) m2, s1)
              else holdVolumeKeys E (say_mute KeysHeldAgain m2, s1))))"

lemma forget_eq:
  "forgetVolumeGuard E g (m, s) =
     (if mt_guard m = Some g then after_loss E ((close_guard g m)\<lparr>mt_guard := None\<rparr>, s) else (close_guard g m, s))"
  by (simp add: forgetVolumeGuard_def after_loss_def Let_def close_guard_def)

lemma after_loss_ok: "mute_ok m \<Longrightarrow> mute_ok (fst (after_loss E (m, s)))"
  by (simp add: after_loss_def Let_def hold_ok split: prod.split)

lemma forget_ok:
  assumes i: "mute_ok m" and g: "g \<in> set (mt_watch m)"
  shows "mute_ok (fst (forgetVolumeGuard E g (unwatch g m, s)))"
proof (cases "mt_guard m = Some g")
  case True
  with i have "mute_ok ((close_guard g (unwatch g m))\<lparr>mt_guard := None\<rparr>)"
    by (simp add: mute_ok_def close_guard_def unwatch_def distinct_removeAll)
  with True show ?thesis by (simp add: forget_eq after_loss_ok unwatch_def)
next
  case False
  with i show ?thesis
    by (auto simp: forget_eq mute_ok_def close_guard_def unwatch_def distinct_removeAll split: option.splits)
qed

lemma unwatch_ok: "mute_ok m \<Longrightarrow> mt_guard m \<noteq> Some g \<Longrightarrow> mute_ok (unwatch g m)"
  by (auto simp: mute_ok_def unwatch_def distinct_removeAll)

lemma watch_ok: "mute_ok m \<Longrightarrow> mute_ok (fst (watchVolumeKeys E g pressed (m, s)))"
  by (simp add: watchVolumeKeys_def Let_def forget_ok unwatch_ok set_ok)

lemma mute_step_ok: "mute_inv ms \<Longrightarrow> mute_inv (mute_step E ms e)"
proof (cases e)
  case UseMuteLevel
  then show "mute_inv ms \<Longrightarrow> ?thesis" by (simp add: mute_inv_def mute_ok_def useMuteLevel_def)
qed (cases ms; simp add: mute_inv_def set_ok hold_if_muted_ok watch_ok)+

interpretation mute_machine: machine "mute_step E" mute_inv for E :: "'s mute_world"
  by unfold_locales (rule mute_step_ok)

text \<open>
  C26. Whatever is asked for in whatever order, and however the device, the keys and the watching goroutines answer, the guards
  that hold the volume keys are the one guard the daemon knows of and no other: none is taken twice, and none is
  forgotten while it still swallows the keys.  The guard that is held is watched by exactly one goroutine.
\<close>

theorem guards_accounted:
  "let m = fst (foldl (mute_step E) (mute_init, s) es)
   in mt_open m = (case mt_guard m of None \<Rightarrow> [] | Some g \<Rightarrow> [g]) \<and> distinct (mt_watch m)
      \<and> (case mt_guard m of None \<Rightarrow> True | Some g \<Rightarrow> g \<in> set (mt_watch m))"
proof -
  have "mute_inv (foldl (mute_step E) (mute_init, s) es)"
    by (rule mute_machine.run_keeps) (simp add: mute_inv_def mute_ok_def mute_init_def)
  then show ?thesis
    by (simp add: mute_inv_def mute_ok_def Let_def split: option.split)
qed

section \<open>The keys are held while the device is muted\<close>

text \<open>
  What the code relies on of the device: the level tells whether it is muted, setting the mute does so, and taking the
  keys does not change it.
\<close>

definition obeys :: "'s mute_world \<Rightarrow> ('s \<Rightarrow> bool) \<Rightarrow> bool" where
  "obeys E mutes \<longleftrightarrow>
     (\<forall>s. fst (mw_level E s) = (mutes s, True) \<and> mutes (snd (mw_level E s)) = mutes s)
     \<and> (\<forall>on s. fst (mw_set E on s) \<and> mutes (snd (mw_set E on s)) = on)
     \<and> (\<forall>s. fst (mw_grab E s) \<and> mutes (snd (mw_grab E s)) = mutes s)"

lemma obeysD:
  assumes "obeys E mutes"
  shows "mw_level E s = (l, s1) \<Longrightarrow> l = (mutes s, True) \<and> mutes s1 = mutes s"
    and "mw_set E on s = (good, s2) \<Longrightarrow> good \<and> mutes s2 = on"
    and "mw_grab E s = (grabbed', s3) \<Longrightarrow> grabbed' \<and> mutes s3 = mutes s"
  using assms unfolding obeys_def by (metis fst_conv snd_conv)+

lemma hold_held:
  "obeys E mutes \<Longrightarrow> holdVolumeKeys E (m, s) = (m', s') \<Longrightarrow> mt_guard m' \<noteq> None \<and> mutes s' = mutes s"
  using obeysD(3) [of E mutes s] by (auto simp: holdVolumeKeys_def split: if_splits prod.splits)

lemma set_on:
  assumes ob: "obeys E mutes" and w: "mt_wired m" and r: "setMuteLocked E True (m, s) = (m', s')"
  shows "mutes s' \<and> mt_guard m' \<noteq> None"
proof -
  obtain l s1 where l: "mw_level E s = (l, s1)" by (cases "mw_level E s")
  obtain good s2 where g: "mw_set E True s1 = (good, s2)" by (cases "mw_set E True s1")
  from obeysD(1) [OF ob l] obeysD(2) [OF ob g] w r l g hold_held [OF ob]
  show ?thesis by (auto simp: setMuteLocked_def split: if_splits)
qed

lemma release_none [simp]: "mt_guard (releaseVolumeGuard m) = None" "mt_lost (releaseVolumeGuard m) = 0"
  by (simp_all add: releaseVolumeGuard_def close_guard_def split: option.split)

lemma set_off:
  assumes ob: "obeys E mutes" and w: "mt_wired m" and r: "setMuteLocked E False (m, s) = (m', s')"
  shows "\<not> mutes s' \<and> m' = releaseVolumeGuard m"
proof -
  obtain l s1 where l: "mw_level E s = (l, s1)" by (cases "mw_level E s")
  obtain good s2 where g: "mw_set E False s1 = (good, s2)" by (cases "mw_set E False s1")
  obtain l2 s3 where l2: "mw_level E s2 = (l2, s3)" by (cases "mw_level E s2")
  from obeysD(1) [OF ob l] obeysD(2) [OF ob g] obeysD(1) [OF ob l2] w r l g l2
  show ?thesis by (auto simp: setMuteLocked_def split: if_splits)
qed

text \<open>
  Over a device that does as it is told, once the level is wired: asking for the mute leaves it muted with the keys held,
  and either asking to lift it or a press of a volume key while they are held leaves it heard again, with the keys
  released and the count of lost guards started afresh.
\<close>

theorem mute_holds_keys:
  assumes "obeys E mutes" and "mt_wired m"
  shows "(case setMuteLocked E True (m, s) of (m', s') \<Rightarrow> mutes s' \<and> mt_guard m' \<noteq> None)
    \<and> (case setMuteLocked E False (m, s) of (m', s') \<Rightarrow> \<not> mutes s' \<and> mt_guard m' = None \<and> mt_lost m' = 0)
    \<and> (mute_ok m \<and> mt_guard m = Some g \<longrightarrow>
        (case watchVolumeKeys E g True (m, s) of (m', s') \<Rightarrow>
           \<not> mutes s' \<and> mt_guard m' = None \<and> mt_open m' = [] \<and> g \<notin> set (mt_watch m')))"
proof (intro conjI impI)
  show "case setMuteLocked E True (m, s) of (m', s') \<Rightarrow> mutes s' \<and> mt_guard m' \<noteq> None"
    using set_on [OF assms] by (simp split: prod.split)
  show "case setMuteLocked E False (m, s) of (m', s') \<Rightarrow> \<not> mutes s' \<and> mt_guard m' = None \<and> mt_lost m' = 0"
    using set_off [OF assms, of s] by (auto split: prod.split)
  assume g: "mute_ok m \<and> mt_guard m = Some g"
  obtain m' s' where r: "setMuteLocked E False (m, s) = (m', s')" by (cases "setMuteLocked E False (m, s)")
  have "mt_open m = [g]" "g \<in> set (mt_watch m)" using g by (simp_all add: mute_ok_def)
  with g set_off [OF assms r] r
  show "case watchVolumeKeys E g True (m, s) of (m', s') \<Rightarrow>
      \<not> mutes s' \<and> mt_guard m' = None \<and> mt_open m' = [] \<and> g \<notin> set (mt_watch m')"
    by (simp add: watchVolumeKeys_def Let_def unwatch_def releaseVolumeGuard_def close_guard_def)
qed

definition plain_device :: "bool mute_world" where
  "plain_device = \<lparr>mw_level = (\<lambda>s. ((s, True), s)), mw_set = (\<lambda>on s. (True, on)), mw_grab = (\<lambda>s. (True, s))\<rparr>"

theorem mute_holds_keys_witness:
  "case setMuteLocked plain_device True (mute_init\<lparr>mt_wired := True\<rparr>, False) of (m', s') \<Rightarrow> s' \<and> mt_guard m' \<noteq> None"
  using mute_holds_keys [of plain_device id "mute_init\<lparr>mt_wired := True\<rparr>" False 0]
  by (simp add: obeys_def plain_device_def)

section \<open>Keys that keep going away are left alone\<close>

definition holds_left :: "mute_state \<Rightarrow> int" where
  "holds_left m = int (mt_made m) + (if mt_guard m = None then 0 else max 0 (volumeGuardTries - mt_lost m))"

lemma after_loss_left:
  assumes "0 \<le> mt_lost m" "mt_lost m < 2 ^ 30" "mt_guard m = None"
  shows "holds_left (fst (after_loss E (m, s))) \<le> int (mt_made m) + max 0 (volumeGuardTries - mt_lost m)
    \<and> mt_lost m \<le> mt_lost (fst (after_loss E (m, s))) \<and> mt_lost (fst (after_loss E (m, s))) \<le> mt_lost m + 1
    \<and> (mt_guard (fst (after_loss E (m, s))) \<noteq> None \<longrightarrow> mt_lost (fst (after_loss E (m, s))) \<le> volumeGuardTries)"
  using assms
  by (auto simp: after_loss_def holds_left_def holdVolumeKeys_def Let_def say_mute_def go_int32_id volumeGuardTries_def
      split: prod.split)

definition few_lost :: "mute_state \<Rightarrow> bool" where
  "few_lost m \<longleftrightarrow> 0 \<le> mt_lost m \<and> mt_lost m \<le> volumeGuardTries + 1 \<and> (mt_guard m \<noteq> None \<longrightarrow> mt_lost m \<le> volumeGuardTries)"

lemma loss_left:
  assumes "few_lost m"
  shows "few_lost (fst (watchVolumeKeys E g False (m, s)))
    \<and> holds_left (fst (watchVolumeKeys E g False (m, s))) \<le> holds_left m"
proof (cases "g \<in> set (mt_watch m) \<and> mt_guard m = Some g")
  case True
  define m1 where "m1 = (close_guard g (unwatch g m))\<lparr>mt_guard := None\<rparr>"
  have m1: "mt_lost m1 = mt_lost m" "mt_made m1 = mt_made m" "mt_guard m1 = None"
    by (simp_all add: m1_def close_guard_def unwatch_def)
  have "watchVolumeKeys E g False (m, s) = after_loss E (m1, s)"
    using True by (simp add: watchVolumeKeys_def forget_eq m1_def unwatch_def)
  with after_loss_left [of m1 E s] assms m1 True show ?thesis
    by (auto simp: few_lost_def holds_left_def volumeGuardTries_def)
next
  case False
  then show ?thesis
    using assms by (auto simp: watchVolumeKeys_def forget_eq unwatch_def close_guard_def holds_left_def few_lost_def)
qed

text \<open>
  Keys that go away as often as they are taken, while nothing lifts the mute, are taken at most \<open>volumeGuardTries\<close> times
  more: there is no loop that grabs a dying node for ever.
\<close>

theorem lost_keys_left_alone:
  assumes "mt_lost m = 0"
  shows "mt_made (fst (foldl (mute_step E) (m, s) (map (\<lambda>g. WaitReturned g False) gs))) \<le> mt_made m + 3"
proof -
  have "few_lost m' \<and> holds_left m' \<le> k \<Longrightarrow>
      holds_left (fst (foldl (mute_step E) (m', s') (map (\<lambda>g. WaitReturned g False) gs))) \<le> k" for m' s' k
  proof (induction gs arbitrary: m' s')
    case (Cons g gs)
    obtain m1 s1 where w: "watchVolumeKeys E g False (m', s') = (m1, s1)"
      by (cases "watchVolumeKeys E g False (m', s')")
    from Cons.prems loss_left [of m' E g s'] w have "few_lost m1 \<and> holds_left m1 \<le> k" by auto
    from Cons.IH [OF this, of s1] w show ?case by simp
  qed simp
  from this [of m "holds_left m" s] assms show ?thesis
    by (auto simp: few_lost_def holds_left_def volumeGuardTries_def split: if_splits)
qed

theorem lost_keys_left_alone_witness:
  "mt_made (fst (foldl (mute_step plain_device) (mute_init, True) [WaitReturned 0 False])) \<le> 3"
  using lost_keys_left_alone [of mute_init plain_device True "[0]"] by (simp add: mute_init_def)

end
