(* ===== verification/Button_Gesture.thy ===== *)
theory Button_Gesture
  imports Button
begin

text \<open>
  \<open>MultiPress\<close> of \<open>internal/button/button.go\<close>: presses counted into one gesture by two timers.
  Each handler is a function from the chain's state to its next state and the gestures fired; the
  mutex \<open>out\<close> makes a handler with its gestures one step. A timer callback carries the generation
  it was armed in; \<open>Stop\<close> does not recall one already running, so in the step relation every armed
  callback may still run later, once. \<open>gen\<close> is counted without wrap-around: it would take
  \<open>2 ^ 64\<close> presses to come round.
\<close>

datatype gesture = GesturePressEnd | GestureMultiEnd | GestureLongStart | GestureLongEnd

fun gesture_string :: "gesture \<Rightarrow> string" where
  "gesture_string GesturePressEnd = ''press_end''"
| "gesture_string GestureMultiEnd = ''multi_press_end''"
| "gesture_string GestureLongStart = ''long_press_start''"
| "gesture_string GestureLongEnd = ''long_press_end''"

record fired =
  what :: gesture
  times :: nat
  holdFor :: duration

record multi_press =
  gap :: duration
  holdTime :: duration
  count :: nat
  holding :: bool
  gapTimer :: "nat option"
  holdTimer :: "nat option"
  gen :: nat

definition NewMultiPress :: "duration \<Rightarrow> duration \<Rightarrow> multi_press" where
  "NewMultiPress g h = \<lparr>gap = g, holdTime = h, count = 0, holding = False, gapTimer = None,
     holdTimer = None, gen = 0\<rparr>"

definition fire :: "gesture \<Rightarrow> nat \<Rightarrow> duration \<Rightarrow> fired" where
  "fire g n h = \<lparr>what = g, times = n, holdFor = h\<rparr>"

definition report :: "nat \<Rightarrow> fired list" where
  "report n = (if n = 0 then [] else if n = 1 then [fire GesturePressEnd 0 0]
               else [fire GestureMultiEnd n 0])"

definition Down :: "multi_press \<Rightarrow> multi_press" where
  "Down m = m\<lparr>gen := gen m + 1, gapTimer := None, holdTimer := Some (gen m + 1)\<rparr>"

definition Up :: "duration \<Rightarrow> multi_press \<Rightarrow> multi_press \<times> fired list" where
  "Up held m =
     (let m1 = m\<lparr>gen := gen m + 1, holdTimer := None\<rparr>
      in if holding m1 then (m1\<lparr>holding := False\<rparr>, [fire GestureLongEnd 0 held])
         else if holdTime m1 \<le> held
           then (m1\<lparr>count := 0\<rparr>,
                 report (count m1) @ [fire GestureLongStart 0 0, fire GestureLongEnd 0 held])
         else (m1\<lparr>count := count m1 + 1, gapTimer := Some (gen m1)\<rparr>, []))"

definition held_cb :: "nat \<Rightarrow> multi_press \<Rightarrow> multi_press \<times> fired list" where
  "held_cb g m =
     (if g \<noteq> gen m then (m, [])
      else (m\<lparr>count := 0, holding := True, holdTimer := None\<rparr>,
            report (count m) @ [fire GestureLongStart 0 0]))"

definition closed_cb :: "nat \<Rightarrow> multi_press \<Rightarrow> multi_press \<times> fired list" where
  "closed_cb g m =
     (if g \<noteq> gen m then (m, []) else (m\<lparr>count := 0, gapTimer := None\<rparr>, report (count m)))"

section \<open>The chain with its key and its timers\<close>

text \<open>
  \<open>shorts\<close> counts the releases that ended a short press: a ghost the handlers do not read.
\<close>

record chain =
  mp :: multi_press
  holdDue :: "nat set"
  gapDue :: "nat set"
  keyDown :: bool
  shorts :: nat

definition new_chain :: "duration \<Rightarrow> duration \<Rightarrow> chain" where
  "new_chain g h = \<lparr>mp = NewMultiPress g h, holdDue = {}, gapDue = {}, keyDown = False, shorts = 0\<rparr>"

inductive chain_step :: "chain \<Rightarrow> fired list \<Rightarrow> chain \<Rightarrow> bool" where
  key_down: "\<not> keyDown c \<Longrightarrow> m' = Down (mp c) \<Longrightarrow>
     chain_step c [] (c\<lparr>mp := m', holdDue := insert (gen m') (holdDue c), keyDown := True\<rparr>)"
| key_up: "keyDown c \<Longrightarrow> (m', fs) = Up held (mp c) \<Longrightarrow>
     chain_step c fs (c\<lparr>mp := m', keyDown := False,
       gapDue := (if gapTimer m' = Some (gen m') then insert (gen m') (gapDue c) else gapDue c),
       shorts := (if \<not> holding (mp c) \<and> held < holdTime (mp c) then shorts c + 1 else shorts c)\<rparr>)"
| hold_fires: "g \<in> holdDue c \<Longrightarrow> (m', fs) = held_cb g (mp c) \<Longrightarrow>
     chain_step c fs (c\<lparr>mp := m', holdDue := holdDue c - {g}\<rparr>)"
| gap_fires: "g \<in> gapDue c \<Longrightarrow> (m', fs) = closed_cb g (mp c) \<Longrightarrow>
     chain_step c fs (c\<lparr>mp := m', gapDue := gapDue c - {g}\<rparr>)"

inductive chain_run :: "chain \<Rightarrow> fired list \<Rightarrow> chain \<Rightarrow> bool" where
  run_nil: "chain_run c [] c"
| run_step: "chain_run c fs c1 \<Longrightarrow> chain_step c1 gs c2 \<Longrightarrow> chain_run c (fs @ gs) c2"

inductive_cases chain_stepE: "chain_step c fs c'"
inductive_simps chain_run_simps: "chain_run c fs c'"

section \<open>The invariant\<close>

definition chain_inv :: "chain \<Rightarrow> bool" where
  "chain_inv c \<longleftrightarrow>
     (\<forall>g \<in> holdDue c. g \<le> gen (mp c)) \<and> (\<forall>g \<in> gapDue c. g \<le> gen (mp c))
     \<and> (gapTimer (mp c) = Some (gen (mp c)) \<longrightarrow> \<not> keyDown c)
     \<and> (\<forall>g. gapTimer (mp c) = Some g \<longrightarrow> g \<le> gen (mp c))
     \<and> (holding (mp c) \<longrightarrow> keyDown c \<and> gen (mp c) \<notin> holdDue c \<and> count (mp c) = 0)
     \<and> (\<not> keyDown c \<longrightarrow> gen (mp c) \<notin> holdDue c)
     \<and> (keyDown c \<longrightarrow> gen (mp c) \<notin> gapDue c)
     \<and> (0 < count (mp c) \<longrightarrow>
          (if keyDown c then gen (mp c) \<in> holdDue c else gen (mp c) \<in> gapDue c))
     \<and> (keyDown c \<longrightarrow> holding (mp c) \<or> gen (mp c) \<in> holdDue c)"

lemmas chain_defs = Down_def Up_def held_cb_def closed_cb_def report_def Let_def

lemma chain_inv_new: "chain_inv (new_chain g h)"
  by (simp add: chain_inv_def new_chain_def NewMultiPress_def)

lemma chain_inv_step: "chain_step c fs c' \<Longrightarrow> chain_inv c \<Longrightarrow> chain_inv c'"
proof (induction rule: chain_step.induct)
  case (key_down c m')
  then show ?case by (auto simp: chain_inv_def Down_def)
next
  case (key_up c m' fs held)
  then have "gen (mp c) + 1 \<notin> holdDue c" "gen (mp c) + 1 \<notin> gapDue c"
    unfolding chain_inv_def by fastforce+
  with key_up show ?case
    by (auto simp: chain_inv_def Up_def Let_def split: if_splits)
next
  case (hold_fires g c m' fs)
  then show ?case by (auto simp: chain_inv_def held_cb_def split: if_splits)
next
  case (gap_fires g c m' fs)
  then show ?case by (auto simp: chain_inv_def closed_cb_def split: if_splits)
qed

lemma chain_inv_run: "chain_run c fs c' \<Longrightarrow> chain_inv c \<Longrightarrow> chain_inv c'"
  by (induction rule: chain_run.induct) (auto intro: chain_inv_step)

section \<open>What a listener may rely on\<close>

text \<open>A long press starts and ends before anything else is fired; \<open>None\<close> is a violation.\<close>

fun long_state :: "bool \<Rightarrow> fired list \<Rightarrow> bool option" where
  "long_state l [] = Some l"
| "long_state l (f # fs) =
     (case what f of
        GestureLongStart \<Rightarrow> if l then None else long_state True fs
      | GestureLongEnd \<Rightarrow> if l then long_state False fs else None
      | _ \<Rightarrow> if l then None else long_state False fs)"

lemma long_state_append:
  "long_state l (xs @ ys) = (case long_state l xs of None \<Rightarrow> None | Some l' \<Rightarrow> long_state l' ys)"
  by (induction xs arbitrary: l) (auto split: gesture.splits)

fun presses_in :: "fired list \<Rightarrow> nat" where
  "presses_in [] = 0"
| "presses_in (f # fs) =
     (case what f of GesturePressEnd \<Rightarrow> 1 | GestureMultiEnd \<Rightarrow> times f | _ \<Rightarrow> 0) + presses_in fs"

lemma presses_in_append: "presses_in (xs @ ys) = presses_in xs + presses_in ys"
  by (induction xs) auto

lemma presses_in_report [simp]: "presses_in (report n) = n"
  by (simp add: report_def fire_def)

lemma long_state_report: "long_state l (report n) = (if n = 0 \<or> \<not> l then Some l else None)"
  by (auto simp: report_def fire_def)

lemma step_long_state:
  "chain_step c fs c' \<Longrightarrow> chain_inv c \<Longrightarrow> long_state (holding (mp c)) fs = Some (holding (mp c'))"
  by (induction rule: chain_step.induct)
    (auto simp: chain_inv_def Down_def Up_def held_cb_def closed_cb_def Let_def fire_def
      long_state_append long_state_report split: if_splits)

lemma step_presses:
  "chain_step c fs c' \<Longrightarrow> chain_inv c \<Longrightarrow>
     presses_in fs + count (mp c') + shorts c = count (mp c) + shorts c'"
  by (induction rule: chain_step.induct)
    (auto simp: chain_inv_def Down_def Up_def held_cb_def closed_cb_def Let_def fire_def
      presses_in_append split: if_splits)

lemma run_presses:
  "chain_run c fs c' \<Longrightarrow> chain_inv c \<Longrightarrow>
     presses_in fs + count (mp c') + shorts c = count (mp c) + shorts c'"
proof (induction rule: chain_run.induct)
  case (run_step c fs c1 gs c2)
  with step_presses [of c1 gs c2] chain_inv_run [of c fs c1] show ?case
    by (simp add: presses_in_append)
qed simp

lemma run_long_state:
  "chain_run c fs c' \<Longrightarrow> chain_inv c \<Longrightarrow> long_state (holding (mp c)) fs = Some (holding (mp c'))"
proof (induction rule: chain_run.induct)
  case (run_step c fs c1 gs c2)
  with step_long_state [of c1 gs c2] chain_inv_run [of c fs c1] show ?case
    by (simp add: long_state_append)
qed simp

section \<open>Properties\<close>

text \<open>
  C2. Whatever the timers and the key do, and however late a stopped timer's callback still runs,
  long presses are bracketed: every start is followed by its own end before any other gesture, and
  one is open exactly while the key is held past the hold time.
\<close>

theorem gestures_bracketed:
  assumes "chain_run (new_chain g h) fs c"
  shows "long_state False fs = Some (holding (mp c)) \<and> (holding (mp c) \<longrightarrow> keyDown c)"
  using run_long_state [OF assms chain_inv_new] chain_inv_run [OF assms chain_inv_new]
  by (simp add: new_chain_def NewMultiPress_def chain_inv_def)

text \<open>A short press, from the key going down to the gap timer that reports it.\<close>

definition demo_pressed :: chain where
  "demo_pressed = (new_chain 350 600)\<lparr>mp := Down (NewMultiPress 350 600), holdDue := {1}, keyDown := True\<rparr>"

definition demo_released :: chain where
  "demo_released = demo_pressed\<lparr>mp := fst (Up 100 (mp demo_pressed)), keyDown := False, gapDue := {2},
     shorts := 1\<rparr>"

definition demo_chain :: chain where
  "demo_chain = demo_released\<lparr>mp := fst (closed_cb 2 (mp demo_released)), gapDue := {}\<rparr>"

lemmas demo_chain_defs = demo_chain_def demo_released_def demo_pressed_def new_chain_def
  NewMultiPress_def Down_def Up_def closed_cb_def report_def fire_def

lemma demo_chain_run: "chain_run (new_chain 350 600) [fire GesturePressEnd 0 0] demo_chain"
proof -
  have 1: "chain_step (new_chain 350 600) [] demo_pressed"
    using key_down [of "new_chain 350 600" "Down (NewMultiPress 350 600)"]
    by (simp add: demo_chain_defs numeral_2_eq_2)
  have 2: "chain_step demo_pressed [] demo_released"
    using key_up [of demo_pressed "fst (Up 100 (mp demo_pressed))" "[]" 100]
    by (simp add: demo_chain_defs numeral_2_eq_2)
  have 3: "chain_step demo_released [fire GesturePressEnd 0 0] demo_chain"
    using gap_fires [of 2 demo_released "fst (closed_cb 2 (mp demo_released))" "[fire GesturePressEnd 0 0]"]
    by (simp add: demo_chain_defs numeral_2_eq_2)
  show ?thesis
    using run_step [OF run_step [OF run_step [OF run_nil 1] 2] 3] by simp
qed

theorem gestures_bracketed_witness:
  "long_state False [fire GesturePressEnd 0 0] = Some (holding (mp demo_chain))"
  using gestures_bracketed [OF demo_chain_run] by simp

text \<open>
  C3. No press is lost and none is counted twice: the presses reported in gestures and those still
  being counted add up to the short presses made. One still being counted has its callback armed in
  the current generation, so it will be reported unless the key moves first.
\<close>

theorem presses_conserved:
  assumes "chain_run (new_chain g h) fs c"
  shows "presses_in fs + count (mp c) = shorts c
    \<and> (0 < count (mp c) \<longrightarrow>
        (if keyDown c then gen (mp c) \<in> holdDue c \<and> presses_in (snd (held_cb (gen (mp c)) (mp c))) = count (mp c)
         else gen (mp c) \<in> gapDue c \<and> snd (closed_cb (gen (mp c)) (mp c)) = report (count (mp c))))"
proof -
  have inv: "chain_inv c" by (rule chain_inv_run [OF assms chain_inv_new])
  then show ?thesis
    using run_presses [OF assms chain_inv_new]
    by (auto simp: chain_inv_def new_chain_def NewMultiPress_def held_cb_def closed_cb_def
        presses_in_append fire_def split: if_splits)
qed

theorem presses_conserved_witness:
  "presses_in [fire GesturePressEnd 0 0] + count (mp demo_chain) = shorts demo_chain"
  using presses_conserved [OF demo_chain_run] by simp

end
