(* ===== verification/Device_Adb.thy ===== *)
theory Device_Adb
  imports Device_Facts "HOL-Library.State_Monad"
begin

text \<open>
  The debugging port, \<open>internal/device/adb.go\<close> and \<open>internal/device/firewall.go\<close>: its modes, the key that secures it, and
  the firewall rule that lets it be reached.  Every program the code runs and every file it touches is a \<open>call\<close>, and the
  system is an argument that answers a call and moves on: \<open>Fine\<close> with what was printed or read, \<open>ExitOne\<close> for a program
  that exits with status 1, \<open>Broken\<close> for any other failure.  The mutexes make each operation run alone, so an operation
  is one run of calls; the operations thread the system through the state monad of the library.
\<close>

section \<open>Calls\<close>

datatype call =
    GetProp string | SetProp string string | ResetProp "string list" | Iptables "string list"
  | ReadFile string | MkdirAll string nat | WriteFile string string nat | Chmod string nat | Chown string nat nat

datatype call_answer = Fine string | ExitOne | Broken

type_synonym 's world = "'s \<Rightarrow> call \<Rightarrow> call_answer \<times> 's"

definition perform :: "'s world \<Rightarrow> call \<Rightarrow> ('s, call_answer) state" where
  "perform W c = State (\<lambda>s. W s c)"

datatype adb_error =
    SetPropFailed string | ResetPropFailed string | SecureUnreadable | SecureNotSet | SecureStillSet
  | KeyUnread | KeyNotPlaced string | RuleUnchecked nat | RuleNotAdded nat | RuleNotRemoved nat | RuleComesBack nat

text \<open>Carry on with the second when the first made no error.\<close>

definition if_good :: "('s, 'e option) state \<Rightarrow> ('s, 'e option) state \<Rightarrow> ('s, 'e option) state" where
  "if_good m k = do { e \<leftarrow> m; case e of Some x \<Rightarrow> State_Monad.return (Some x) | None \<Rightarrow> k }"

definition must :: "'s world \<Rightarrow> call \<Rightarrow> 'e \<Rightarrow> ('s, 'e option) state" where
  "must W c e = do {
     a \<leftarrow> perform W c;
     State_Monad.return (case a of Fine out \<Rightarrow> None | ExitOne \<Rightarrow> Some e | Broken \<Rightarrow> Some e) }"

section \<open>The firewall\<close>

definition WifiInterface :: string where "WifiInterface = ''wlan0''"

definition inputRule :: "nat \<Rightarrow> string list" where
  "inputRule port =
     [''INPUT'', ''-i'', WifiInterface, ''-p'', ''tcp'', ''--dport'', nat_str port, ''-j'', ''ACCEPT'']"

definition present :: "'s world \<Rightarrow> string list \<Rightarrow> ('s, bool option) state" where
  "present W r = do {
     a \<leftarrow> perform W (Iptables (''-C'' # r));
     State_Monad.return (case a of Fine out \<Rightarrow> Some True | ExitOne \<Rightarrow> Some False | Broken \<Rightarrow> None) }"

definition AllowTCP :: "'s world \<Rightarrow> nat \<Rightarrow> ('s, adb_error option) state" where
  "AllowTCP W port = do {
     found \<leftarrow> present W (inputRule port);
     case found of
       None \<Rightarrow> State_Monad.return (Some (RuleUnchecked port))
     | Some True \<Rightarrow> State_Monad.return None
     | Some False \<Rightarrow> must W (Iptables (''-A'' # inputRule port)) (RuleNotAdded port) }"

fun deny_rounds :: "nat \<Rightarrow> 's world \<Rightarrow> nat \<Rightarrow> ('s, adb_error option) state" where
  "deny_rounds 0 W port = State_Monad.return (Some (RuleComesBack port))"
| "deny_rounds (Suc n) W port = do {
     a \<leftarrow> perform W (Iptables (''-D'' # inputRule port));
     case a of
       Fine out \<Rightarrow> deny_rounds n W port
     | ExitOne \<Rightarrow> State_Monad.return None
     | Broken \<Rightarrow> State_Monad.return (Some (RuleNotRemoved port)) }"

definition DenyTCP :: "'s world \<Rightarrow> nat \<Rightarrow> ('s, adb_error option) state" where
  "DenyTCP W port = deny_rounds 16 W port"

text \<open>One tick of \<open>HoldTCPOpen\<close>: whether it is quiet from then on, and what it logs.\<close>

datatype hold_note = ReassertFailed nat adb_error | OpenAgain nat

definition hold_tick :: "'s world \<Rightarrow> nat \<Rightarrow> bool \<Rightarrow> ('s, bool \<times> hold_note list) state" where
  "hold_tick W port quiet = do {
     e \<leftarrow> AllowTCP W port;
     State_Monad.return (case e of
         Some x \<Rightarrow> (True, if quiet then [] else [ReassertFailed port x])
       | None \<Rightarrow> (False, if quiet then [OpenAgain port] else [])) }"

text \<open>A tick comes as \<open>False\<close>, one that finds the daemon ending as \<open>True\<close>.\<close>

fun HoldTCPOpen :: "'s world \<Rightarrow> nat \<Rightarrow> bool \<Rightarrow> bool list \<Rightarrow> ('s, hold_note list) state" where
  "HoldTCPOpen W port quiet [] = State_Monad.return []"
| "HoldTCPOpen W port quiet (ending # ticks) =
     (if ending then State_Monad.return []
      else do {
        r \<leftarrow> hold_tick W port quiet;
        rest \<leftarrow> HoldTCPOpen W port (fst r) ticks;
        State_Monad.return (snd r @ rest) })"

section \<open>Whether the port is listened on\<close>

definition ADBPort :: nat where "ADBPort = 5555"
definition tcpStListen :: string where "tcpStListen = ''0A''"
definition adbPortHex :: string where "adbPortHex = '':15B3''"

definition all_zeros :: "string \<Rightarrow> bool" where
  "all_zeros s = list_all (\<lambda>c. c = CHR ''0'') s"

definition listener_line :: "string \<Rightarrow> string \<Rightarrow> bool" where
  "listener_line portHex line =
     (let f = str_fields line; l = to_upper (f ! 1)
      in if length f < 4 then False
         else if f ! 3 \<noteq> tcpStListen then False
         else if \<not> has_suffix l portHex then False
         else all_zeros (trim_suffix l portHex))"

definition hasListener :: "string \<Rightarrow> string \<Rightarrow> bool" where
  "hasListener table portHex = list_ex (listener_line portHex) (lines_of table)"

fun listening :: "'s world \<Rightarrow> string list \<Rightarrow> ('s, bool) state" where
  "listening W [] = State_Monad.return False"
| "listening W (p # ps) = do {
     a \<leftarrow> perform W (ReadFile p);
     case a of
       Fine out \<Rightarrow> if hasListener out adbPortHex then State_Monad.return True else listening W ps
     | ExitOne \<Rightarrow> listening W ps
     | Broken \<Rightarrow> listening W ps }"

definition ADBListening :: "'s world \<Rightarrow> ('s, bool) state" where
  "ADBListening W = listening W [''/proc/net/tcp'', ''/proc/net/tcp6'']"

text \<open>Whether it is open and whether that is known.\<close>

definition adbReachable :: "'s world \<Rightarrow> ('s, bool \<times> bool) state" where
  "adbReachable W = do {
     l \<leftarrow> ADBListening W;
     if \<not> l then State_Monad.return (False, True)
     else do {
       p \<leftarrow> present W (inputRule ADBPort);
       State_Monad.return (case p of None \<Rightarrow> (False, False) | Some permitted \<Rightarrow> (permitted, True)) } }"

section \<open>The mode\<close>

definition readProp :: "'s world \<Rightarrow> string \<Rightarrow> ('s, string option) state" where
  "readProp W name = do {
     a \<leftarrow> perform W (GetProp name);
     State_Monad.return (case a of Fine out \<Rightarrow> Some (trim_space out) | ExitOne \<Rightarrow> None | Broken \<Rightarrow> None) }"

definition adbSecureEnforced :: "'s world \<Rightarrow> ('s, bool \<times> bool) state" where
  "adbSecureEnforced W = do {
     out \<leftarrow> readProp W ''ro.adb.secure'';
     State_Monad.return (case out of None \<Rightarrow> (False, False) | Some v \<Rightarrow> (v = ''1'', True)) }"

definition CurrentADBMode :: "'s world \<Rightarrow> ('s, adb_mode \<times> bool) state" where
  "CurrentADBMode W = do {
     r \<leftarrow> adbReachable W;
     case r of (opened, known) \<Rightarrow>
       if \<not> known then State_Monad.return (ADBOff, False)
       else if \<not> opened then State_Monad.return (ADBOff, True)
       else do {
         e \<leftarrow> adbSecureEnforced W;
         case e of (secure, known') \<Rightarrow>
           State_Monad.return
             (if \<not> known' then (ADBOff, False) else if secure then (ADBSecure, True) else (ADBInsecure, True)) } }"

definition setProp :: "'s world \<Rightarrow> string \<Rightarrow> string \<Rightarrow> ('s, adb_error option) state" where
  "setProp W k v = must W (SetProp k v) (SetPropFailed k)"

definition restartADBD :: "'s world \<Rightarrow> ('s, adb_error option) state" where
  "restartADBD W = setProp W ''ctl.restart'' ''adbd''"

definition setResetprop :: "'s world \<Rightarrow> string \<Rightarrow> string \<Rightarrow> ('s, adb_error option) state" where
  "setResetprop W k v = must W (ResetProp [k, v]) (ResetPropFailed k)"

definition ADBKeySource :: string where "ADBKeySource = ''/data/local/bin/adb_keys''"
definition adbKeyDir :: string where "adbKeyDir = ''/data/misc/adb''"
definition adbKeyFile :: string where "adbKeyFile = ''/data/misc/adb/adb_keys''"
definition aidSystem :: nat where "aidSystem = 1000"
definition aidShell :: nat where "aidShell = 2000"

text \<open>The permissions are octal in the source: 0o750 and 0o640.\<close>

definition installADBKey :: "'s world \<Rightarrow> ('s, adb_error option) state" where
  "installADBKey W = do {
     a \<leftarrow> perform W (ReadFile ADBKeySource);
     case a of
       ExitOne \<Rightarrow> State_Monad.return (Some KeyUnread)
     | Broken \<Rightarrow> State_Monad.return (Some KeyUnread)
     | Fine secret \<Rightarrow>
         if_good (must W (MkdirAll adbKeyDir 488) (KeyNotPlaced adbKeyDir))
         (if_good (must W (WriteFile adbKeyFile secret 416) (KeyNotPlaced adbKeyFile))
         (if_good (must W (Chmod adbKeyDir 488) (KeyNotPlaced adbKeyDir))
         (if_good (must W (Chmod adbKeyFile 416) (KeyNotPlaced adbKeyFile))
         (if_good (must W (Chown adbKeyDir aidSystem aidShell) (KeyNotPlaced adbKeyDir))
         (must W (Chown adbKeyFile aidSystem aidShell) (KeyNotPlaced adbKeyFile)))))) }"

text \<open>Read the property back: an error unless it says what is wanted.\<close>

definition confirm_secure :: "'s world \<Rightarrow> bool \<Rightarrow> ('s, adb_error option) state" where
  "confirm_secure W want = do {
     r \<leftarrow> adbSecureEnforced W;
     case r of (secure, known) \<Rightarrow>
       State_Monad.return
         (if \<not> known then Some SecureUnreadable
          else if secure \<noteq> want then Some (if want then SecureNotSet else SecureStillSet) else None) }"

definition clearADBSecure :: "'s world \<Rightarrow> ('s, adb_error option) state" where
  "clearADBSecure W = do { a \<leftarrow> perform W (ResetProp [''--delete'', ''ro.adb.secure'']); confirm_secure W False }"

definition SetADBMode :: "'s world \<Rightarrow> adb_mode \<Rightarrow> ('s, adb_error option) state" where
  "SetADBMode W m =
     (if m = ADBOff then
        if_good (setProp W ''service.adb.tcp.port'' ''-1'')
        (if_good (restartADBD W)
        (if_good (DenyTCP W ADBPort) (clearADBSecure W)))
      else
        if_good
          (if m = ADBSecure then
             if_good (installADBKey W)
             (if_good (setResetprop W ''ro.adb.secure'' ''1'') (confirm_secure W True))
           else clearADBSecure W)
        (if_good (setProp W ''service.adb.tcp.port'' (nat_str ADBPort))
        (if_good (restartADBD W) (AllowTCP W ADBPort))))"

definition HoldADBOpen :: "'s world \<Rightarrow> ('s, adb_error option) state" where
  "HoldADBOpen W = do {
     l \<leftarrow> ADBListening W;
     if \<not> l then State_Monad.return None else AllowTCP W ADBPort }"

definition DenyADB :: "'s world \<Rightarrow> ('s, adb_error option) state" where
  "DenyADB W = DenyTCP W ADBPort"

section \<open>Reasoning about runs\<close>

text \<open>
  \<open>valid P m Q\<close>: from every state in \<open>P\<close> the run of \<open>m\<close> ends with an answer and a state in \<open>Q\<close>.
\<close>

definition valid :: "('s \<Rightarrow> bool) \<Rightarrow> ('s, 'a) state \<Rightarrow> ('a \<Rightarrow> 's \<Rightarrow> bool) \<Rightarrow> bool" where
  "valid P m Q \<longleftrightarrow> (\<forall>s. P s \<longrightarrow> Q (fst (run_state m s)) (snd (run_state m s)))"

lemma valid_return: "valid (\<lambda>s. Q a s) (State_Monad.return a) Q"
  by (simp add: valid_def State_Monad.return_def)

lemma valid_bind:
  assumes "valid P m R" "\<And>a. valid (R a) (k a) Q"
  shows "valid P (State_Monad.bind m k) Q"
  using assms by (simp add: valid_def State_Monad.bind_def split_beta)

lemma valid_weaken: "valid P m Q \<Longrightarrow> (\<And>s. P' s \<Longrightarrow> P s) \<Longrightarrow> (\<And>a s. Q a s \<Longrightarrow> Q' a s) \<Longrightarrow> valid P' m Q'"
  by (simp add: valid_def)

lemma valid_pre: "valid P m Q \<Longrightarrow> (\<And>s. P' s \<Longrightarrow> P s) \<Longrightarrow> valid P' m Q"
  by (simp add: valid_def)

lemma valid_perform: "valid (\<lambda>s. case W s c of (a, s') \<Rightarrow> Q a s') (perform W c) Q"
  by (simp add: valid_def perform_def split_beta)

lemma valid_if_good:
  assumes "valid P m (\<lambda>e s. case e of None \<Rightarrow> R s | Some x \<Rightarrow> Q (Some x) s)" "valid R k Q"
  shows "valid P (if_good m k) Q"
  unfolding if_good_def
proof (rule valid_bind [OF assms(1)])
  fix e
  show "valid (\<lambda>s. case e of None \<Rightarrow> R s | Some x \<Rightarrow> Q (Some x) s)
      (case e of None \<Rightarrow> k | Some x \<Rightarrow> State_Monad.return (Some x)) Q"
    using assms(2) valid_return [of Q "Some _"] by (cases e) (simp_all add: valid_return)
qed

lemma valid_must:
  "valid (\<lambda>s. case W s c of (a, s') \<Rightarrow> Q (case a of Fine out \<Rightarrow> None | ExitOne \<Rightarrow> Some e | Broken \<Rightarrow> Some e) s')
     (must W c e) Q"
  unfolding must_def by (rule valid_bind [OF valid_perform]) (rule valid_return)

section \<open>The port opens only as it was asked for\<close>

text \<open>A world that keeps what was asked of it and what it answered.\<close>

type_synonym trace = "(call \<times> call_answer) list"

definition recorded :: "'s world \<Rightarrow> ('s \<times> trace) world" where
  "recorded W sh c = (case W (fst sh) c of (a, s') \<Rightarrow> (a, (s', snd sh @ [(c, a)])))"

definition opens_port :: "call \<Rightarrow> bool" where
  "opens_port c = (case c of
      SetProp k v \<Rightarrow> k = ''service.adb.tcp.port'' \<and> v \<noteq> ''-1''
    | Iptables args \<Rightarrow> hd args = ''-A''
    | GetProp k \<Rightarrow> False | ResetProp args \<Rightarrow> False | ReadFile p \<Rightarrow> False | MkdirAll p m \<Rightarrow> False
    | WriteFile p b m \<Rightarrow> False | Chmod p m \<Rightarrow> False | Chown p u g \<Rightarrow> False)"

text \<open>
  Reading a trace: whether every call that opens the port came while the property was known to be as the mode wants it.
  It is known from the moment it is read so until it is set or deleted again.
\<close>

definition port_watch :: "adb_mode \<Rightarrow> bool \<times> bool \<Rightarrow> call \<times> call_answer \<Rightarrow> bool \<times> bool" where
  "port_watch m w ca = (case w of (good, sure) \<Rightarrow> case ca of (c, a) \<Rightarrow>
     (if opens_port c then good \<and> sure else good,
      if c = GetProp ''ro.adb.secure'' then
        (case a of Fine out \<Rightarrow> m \<noteq> ADBOff \<and> (trim_space out = ''1'') = (m = ADBSecure) | ExitOne \<Rightarrow> False | Broken \<Rightarrow> False)
      else (case c of ResetProp args \<Rightarrow> False | _ \<Rightarrow> sure)))"

definition watched_port :: "adb_mode \<Rightarrow> trace \<Rightarrow> bool \<times> bool" where
  "watched_port m t = foldl (port_watch m) (True, False) t"

definition opened_as_asked :: "adb_mode \<Rightarrow> trace \<Rightarrow> bool" where
  "opened_as_asked m t = fst (watched_port m t)"

lemma watched_port_snoc [simp]: "watched_port m (t @ [ca]) = port_watch m (watched_port m t) ca"
  by (simp add: watched_port_def)

definition so_far :: "adb_mode \<Rightarrow> 's \<times> trace \<Rightarrow> bool" where
  "so_far m sh = fst (watched_port m (snd sh))"

definition sure_now :: "adb_mode \<Rightarrow> 's \<times> trace \<Rightarrow> bool" where
  "sure_now m sh \<longleftrightarrow> fst (watched_port m (snd sh)) \<and> snd (watched_port m (snd sh))"

text \<open>A call that neither opens the port nor touches the property keeps what is known.\<close>

definition harmless :: "call \<Rightarrow> bool" where
  "harmless c \<longleftrightarrow> \<not> opens_port c \<and> (case c of ResetProp args \<Rightarrow> False | GetProp k \<Rightarrow> False | _ \<Rightarrow> True)"

lemma recorded_harmless:
  assumes "harmless c" "recorded W sh c = (a, sh')"
  shows "watched_port m (snd sh') = watched_port m (snd sh)"
  using assms
  by (cases "watched_port m (snd sh)")
    (auto simp: recorded_def harmless_def port_watch_def split: prod.splits call.splits)

lemma recorded_so_far:
  assumes "\<not> opens_port c \<or> sure_now m sh" "so_far m sh" "recorded W sh c = (a, sh')"
  shows "so_far m sh'"
  using assms
  by (cases "watched_port m (snd sh)")
    (auto simp: recorded_def so_far_def sure_now_def port_watch_def split: prod.splits)

lemma recorded_sure:
  assumes "case c of ResetProp args \<Rightarrow> False | GetProp k \<Rightarrow> False | _ \<Rightarrow> True" "sure_now m sh" "recorded W sh c = (a, sh')"
  shows "sure_now m sh'"
  using assms
  by (cases "watched_port m (snd sh)")
    (auto simp: recorded_def sure_now_def port_watch_def split: prod.splits call.splits)

lemma sure_so_far: "sure_now m sh \<Longrightarrow> so_far m sh"
  by (simp add: sure_now_def so_far_def)

lemma must_so_far: "\<not> opens_port c \<Longrightarrow> valid (so_far m) (must (recorded W) c e) (\<lambda>x. so_far m)"
  by (rule valid_pre [OF valid_must]) (auto intro: recorded_so_far)

lemma must_sure:
  "(case c of ResetProp args \<Rightarrow> False | GetProp k \<Rightarrow> False | _ \<Rightarrow> True) \<Longrightarrow>
     valid (sure_now m) (must (recorded W) c e) (\<lambda>x. sure_now m)"
  by (rule valid_pre [OF valid_must]) (auto intro: recorded_sure)

lemma if_good_keeps:
  assumes "valid P m (\<lambda>e. P)" "valid P k (\<lambda>e. P)"
  shows "valid P (if_good m k) (\<lambda>e. P)"
  by (rule valid_if_good [where R = P]) (auto intro: valid_weaken [OF assms(1)] assms(2) split: option.split)

lemma perform_so_far: "\<not> opens_port c \<Longrightarrow> valid (so_far m) (perform (recorded W) c) (\<lambda>a. so_far m)"
  by (rule valid_pre [OF valid_perform]) (auto intro: recorded_so_far)

lemma perform_sure:
  "(case c of ResetProp args \<Rightarrow> False | GetProp k \<Rightarrow> False | _ \<Rightarrow> True) \<Longrightarrow>
     valid (sure_now m) (perform (recorded W) c) (\<lambda>a. sure_now m)"
  by (rule valid_pre [OF valid_perform]) (auto intro: recorded_sure)

lemma return_keeps: "valid P (State_Monad.return a) (\<lambda>x. P)"
  by (rule valid_return)

lemma confirm_sure:
  assumes "want = (m = ADBSecure)" "m \<noteq> ADBOff"
  shows "valid (so_far m) (confirm_secure (recorded W) want)
    (\<lambda>e sh. so_far m sh \<and> (case e of None \<Rightarrow> sure_now m sh | Some x \<Rightarrow> True))"
  unfolding valid_def
proof (intro allI impI)
  fix sh :: "'a \<times> trace"
  assume so: "so_far m sh"
  obtain a sh' where r: "recorded W sh (GetProp ''ro.adb.secure'') = (a, sh')"
    by (cases "recorded W sh (GetProp ''ro.adb.secure'')")
  with so assms show "so_far m (snd (run_state (confirm_secure (recorded W) want) sh)) \<and>
     (case fst (run_state (confirm_secure (recorded W) want) sh) of None \<Rightarrow>
        sure_now m (snd (run_state (confirm_secure (recorded W) want) sh)) | Some x \<Rightarrow> True)"
    by (cases "watched_port m (snd sh)")
      (auto simp: confirm_secure_def adbSecureEnforced_def readProp_def perform_def State_Monad.bind_def
        State_Monad.return_def so_far_def sure_now_def recorded_def port_watch_def opens_port_def
        split: prod.splits call_answer.splits option.splits)
qed

lemma opens_port_simps [simp]:
  "opens_port (SetProp k v) = (k = ''service.adb.tcp.port'' \<and> v \<noteq> ''-1'')"
  "opens_port (Iptables args) = (hd args = ''-A'')"
  "\<not> opens_port (GetProp k)" "\<not> opens_port (ResetProp l)" "\<not> opens_port (ReadFile p)" "\<not> opens_port (MkdirAll p n)"
  "\<not> opens_port (WriteFile p b n)" "\<not> opens_port (Chmod p n)" "\<not> opens_port (Chown p n g)"
  by (simp_all add: opens_port_def)

lemma deny_so_far: "valid (so_far m) (deny_rounds n (recorded W) port) (\<lambda>e. so_far m)"
proof (induction n)
  case (Suc n)
  have "valid (so_far m)
      (case a of Fine out \<Rightarrow> deny_rounds n (recorded W) port | ExitOne \<Rightarrow> State_Monad.return None
       | Broken \<Rightarrow> State_Monad.return (Some (RuleNotRemoved port))) (\<lambda>e. so_far m)" for a
    using Suc.IH by (cases a) (simp_all add: return_keeps)
  then show ?case by (auto intro!: valid_bind perform_so_far)
qed (simp add: return_keeps)

lemma install_so_far: "valid (so_far m) (installADBKey (recorded W)) (\<lambda>e. so_far m)"
  unfolding installADBKey_def
  by (rule valid_bind [OF perform_so_far])
    (auto intro!: if_good_keeps must_so_far return_keeps split: call_answer.split)

lemma allow_sure: "valid (sure_now m) (AllowTCP (recorded W) port) (\<lambda>e. sure_now m)"
  unfolding AllowTCP_def
proof (rule valid_bind)
  show "valid (sure_now m) (present (recorded W) (inputRule port)) (\<lambda>f. sure_now m)"
    unfolding present_def by (rule valid_bind [OF perform_sure]) (auto intro: return_keeps)
  show "valid (sure_now m)
      (case f of None \<Rightarrow> State_Monad.return (Some (RuleUnchecked port)) | Some True \<Rightarrow> State_Monad.return None
       | Some False \<Rightarrow> must (recorded W) (Iptables (''-A'' # inputRule port)) (RuleNotAdded port)) (\<lambda>e. sure_now m)" for f
    by (auto intro!: return_keeps must_sure split: option.split bool.split)
qed

lemma confirm_so_far: "valid (so_far m) (confirm_secure (recorded W) want) (\<lambda>e. so_far m)"
  unfolding confirm_secure_def adbSecureEnforced_def readProp_def
  by (rule valid_bind [OF valid_bind [OF valid_bind [OF perform_so_far]]])
    (auto intro: return_keeps split: prod.split)

text \<open>The parts of a change: what proves the security property, and what opens the port once it is proved.\<close>

lemma opened_sure:
  "valid (sure_now m) (if_good (setProp (recorded W) ''service.adb.tcp.port'' (nat_str ADBPort))
      (if_good (restartADBD (recorded W)) (AllowTCP (recorded W) ADBPort))) (\<lambda>e. sure_now m)"
  unfolding setProp_def restartADBD_def by (intro if_good_keeps must_sure allow_sure) simp_all

lemma proved_sure:
  assumes "m \<noteq> ADBOff"
  shows "valid (so_far m)
      (if m = ADBSecure then if_good (installADBKey (recorded W))
         (if_good (setResetprop (recorded W) ''ro.adb.secure'' ''1'') (confirm_secure (recorded W) True))
       else clearADBSecure (recorded W))
      (\<lambda>e sh. so_far m sh \<and> (case e of None \<Rightarrow> sure_now m sh | Some x \<Rightarrow> True))" (is "valid _ _ ?Q")
proof (cases "m = ADBSecure")
  case True
  have key: "valid (so_far m) (installADBKey (recorded W)) (\<lambda>e s. case e of None \<Rightarrow> so_far m s | Some x \<Rightarrow> ?Q (Some x) s)"
    by (rule valid_weaken [OF install_so_far]) (auto split: option.split)
  have reset: "valid (so_far m) (setResetprop (recorded W) ''ro.adb.secure'' ''1'')
      (\<lambda>e s. case e of None \<Rightarrow> so_far m s | Some x \<Rightarrow> ?Q (Some x) s)"
    unfolding setResetprop_def by (rule valid_weaken [OF must_so_far]) (auto split: option.split)
  have "valid (so_far m) (if_good (installADBKey (recorded W))
       (if_good (setResetprop (recorded W) ''ro.adb.secure'' ''1'') (confirm_secure (recorded W) True))) ?Q"
    by (intro valid_if_good [OF key] valid_if_good [OF reset] confirm_sure) (simp_all add: True)
  then show ?thesis by (simp add: True)
next
  case False
  with assms show ?thesis
    by (auto simp: clearADBSecure_def intro!: valid_bind [OF perform_so_far] confirm_sure)
qed

lemma proved_then_opened:
  assumes "valid (so_far m) prog (\<lambda>e sh. so_far m sh \<and> (case e of None \<Rightarrow> sure_now m sh | Some x \<Rightarrow> True))"
    and "valid (sure_now m) k (\<lambda>e. sure_now m)"
  shows "valid (so_far m) (if_good prog k) (\<lambda>e. so_far m)"
  by (rule valid_if_good [where R = "sure_now m"])
    (auto intro: valid_weaken [OF assms(1)] valid_weaken [OF assms(2)] sure_so_far split: option.splits)

text \<open>
  C24. Whatever the system answers, each call of \<open>SetADBMode\<close> that opens the port, the property that makes adbd listen and the
  rule that lets it be reached, comes while the security property is known to be as the mode wants it: read, after its
  last change, as 1 for \<open>ADBSecure\<close> and as something else for \<open>ADBInsecure\<close>.  \<open>ADBOff\<close> makes no such call at all.
\<close>

theorem adb_opens_as_asked:
  "opened_as_asked m (snd (snd (run_state (SetADBMode (recorded W) m) (s, []))))"
proof -
  have "valid (so_far m) (SetADBMode (recorded W) m) (\<lambda>e. so_far m)"
  proof (cases "m = ADBOff")
    case True
    then show ?thesis
      by (auto simp: SetADBMode_def setProp_def restartADBD_def DenyTCP_def clearADBSecure_def
          intro!: if_good_keeps must_so_far deny_so_far valid_bind [OF perform_so_far] confirm_so_far)
  next
    case False
    from proved_then_opened [OF proved_sure [OF False, of W] opened_sure [of m W]] show ?thesis by (simp add: SetADBMode_def False)
  qed
  then show ?thesis
    by (auto simp: valid_def opened_as_asked_def so_far_def watched_port_def)
qed

section \<open>What was set is what is found once adbd has restarted\<close>

text \<open>
  What the code relies on of the system, over what can be seen of it: its properties, how often each rule stands in the
  firewall, the tables of sockets, and whether a restart of adbd that was asked for is still to come.  Every call
  succeeds; \<open>resetprop\<close> sets and deletes; \<open>iptables\<close> checks, adds and deletes one copy of a rule; setting \<open>ctl.restart\<close>
  only asks: init restarts adbd later (\<open>docs/device.md\<close>), the old one may be up until then, and once it has restarted
  adbd listens exactly when its port property says so.  Until then the tables may show anything.
\<close>

record adb_view =
  av_prop :: "string \<Rightarrow> string"
  av_rules :: "string list \<Rightarrow> nat"
  av_table :: "string \<Rightarrow> string"
  av_due :: bool

definition view_listens :: "adb_view \<Rightarrow> bool" where
  "view_listens v \<longleftrightarrow> list_ex (\<lambda>p. hasListener (av_table v p) adbPortHex) [''/proc/net/tcp'', ''/proc/net/tcp6'']"

text \<open>What the system does by itself, between any two calls.\<close>

definition moves :: "adb_view \<Rightarrow> adb_view \<Rightarrow> bool" where
  "moves v u \<longleftrightarrow>
     (if av_due v then av_prop u = av_prop v \<and> av_rules u = av_rules v
        \<and> (av_due u \<or> view_listens u = (av_prop v ''service.adb.tcp.port'' = ''5555''))
      else u = v)"

definition does :: "adb_view \<Rightarrow> call \<Rightarrow> call_answer \<Rightarrow> adb_view \<Rightarrow> bool" where
  "does v c a v' =
     (case c of
        GetProp k \<Rightarrow> a = Fine (av_prop v k) \<and> v' = v
      | SetProp k x \<Rightarrow> a = Fine '''' \<and>
          v' = (if k = ''ctl.restart'' then v\<lparr>av_due := True\<rparr> else v\<lparr>av_prop := (av_prop v)(k := x)\<rparr>)
      | ResetProp args \<Rightarrow> a = Fine '''' \<and>
          (if length args = 2 then
             v' = v\<lparr>av_prop := (if hd args = ''--delete'' then (av_prop v)(args ! 1 := '''') else (av_prop v)(hd args := args ! 1))\<rparr>
           else True)
      | Iptables args \<Rightarrow>
          (let r = tl args; n = av_rules v r
           in if hd args = ''-A'' then a = Fine '''' \<and> v' = v\<lparr>av_rules := (av_rules v)(r := n + 1)\<rparr>
              else if n = 0 then a = ExitOne \<and> v' = v
              else a = Fine '''' \<and> v' = (if hd args = ''-D'' then v\<lparr>av_rules := (av_rules v)(r := n - 1)\<rparr> else v))
      | ReadFile p \<Rightarrow> a = Fine (av_table v p) \<and> v' = v
      | _ \<Rightarrow> a = Fine '''' \<and> v' = v)"

definition adb_system :: "'s world \<Rightarrow> ('s \<Rightarrow> adb_view) \<Rightarrow> bool" where
  "adb_system W see \<longleftrightarrow> (\<forall>s c. \<exists>u. moves (see s) u \<and> does u c (fst (W s c)) (see (snd (W s c))))"

text \<open>What the system's own moves leave true.\<close>

definition stable :: "(adb_view \<Rightarrow> bool) \<Rightarrow> bool" where
  "stable P \<longleftrightarrow> (\<forall>v u. P v \<longrightarrow> moves v u \<longrightarrow> P u)"

definition port_told :: "string \<Rightarrow> adb_view \<Rightarrow> bool" where
  "port_told p v \<longleftrightarrow> av_prop v ''service.adb.tcp.port'' = p \<and> (av_due v \<or> view_listens v = (p = ''5555''))"

lemma moves_keeps: "moves v u \<Longrightarrow> av_prop u = av_prop v \<and> av_rules u = av_rules v \<and> (port_told p v \<longrightarrow> port_told p u)"
  by (auto simp: moves_def port_told_def split: if_splits)

lemma stable_facts:
  "stable (\<lambda>v. Q (av_prop v) (av_rules v))" "stable (port_told p)" "stable P \<Longrightarrow> stable R \<Longrightarrow> stable (\<lambda>v. P v \<and> R v)"
  "stable (\<lambda>v. \<not> av_due v \<and> view_listens v = b)"
  unfolding stable_def
     apply (metis moves_keeps)
    apply (metis moves_keeps)
   apply blast
  by (auto simp: moves_def)

lemma stableD: "stable P \<Longrightarrow> P v \<Longrightarrow> moves v u \<Longrightarrow> P u"
  by (auto simp: stable_def)

lemma system_perform:
  assumes "adb_system W see" "stable P"
  shows "valid (\<lambda>s. P (see s)) (perform W c) (\<lambda>a s. \<exists>v. P v \<and> does v c a (see s))"
  using assms stableD [OF assms(2)] unfolding valid_def perform_def adb_system_def by simp blast

lemma system_must:
  assumes sys: "adb_system W see" "stable P" and d: "\<And>v a v'. P v \<Longrightarrow> does v c a v' \<Longrightarrow> (\<exists>out. a = Fine out) \<and> R v'"
  shows "valid (\<lambda>s. P (see s)) (must W c e) (\<lambda>x s. x = None \<and> R (see s))"
  unfolding must_def
  by (rule valid_bind [OF system_perform [OF sys]], rule valid_pre [OF valid_return])
    (use d in \<open>fastforce split: call_answer.splits\<close>)

lemma then_good:
  assumes "valid P m (\<lambda>e s. e = None \<and> R s)" "valid R k Q"
  shows "valid P (if_good m k) Q"
  by (rule valid_if_good [OF valid_weaken [OF assms(1)] assms(2)]) auto

lemma system_present:
  assumes "adb_system W see" "stable P"
  shows "valid (\<lambda>s. P (see s)) (present W r) (\<lambda>f s. P (see s) \<and> f = Some (0 < av_rules (see s) r))"
  unfolding present_def
  by (rule valid_bind [OF system_perform [OF assms]], rule valid_pre [OF valid_return])
    (auto simp: does_def Let_def split: if_splits)

lemma system_read:
  assumes "adb_system W see" "stable P"
  shows "valid (\<lambda>s. P (see s)) (readProp W k) (\<lambda>r s. P (see s) \<and> r = Some (trim_space (av_prop (see s) k)))"
  unfolding readProp_def
  by (rule valid_bind [OF system_perform [OF assms]], rule valid_pre [OF valid_return]) (auto simp: does_def)

lemma system_secure:
  assumes "adb_system W see" "stable P"
  shows "valid (\<lambda>s. P (see s)) (adbSecureEnforced W)
    (\<lambda>r s. P (see s) \<and> r = (trim_space (av_prop (see s) ''ro.adb.secure'') = ''1'', True))"
  unfolding adbSecureEnforced_def
  by (rule valid_bind [OF system_read [OF assms]], rule valid_pre [OF valid_return]) auto

lemma system_confirm:
  assumes "adb_system W see" "stable P" "\<And>v. P v \<Longrightarrow> (trim_space (av_prop v ''ro.adb.secure'') = ''1'') = want"
  shows "valid (\<lambda>s. P (see s)) (confirm_secure W want) (\<lambda>e s. e = None \<and> P (see s))"
  unfolding confirm_secure_def
  by (rule valid_bind [OF system_secure [OF assms(1,2)]], unfold split_beta, rule valid_pre [OF valid_return])
    (auto simp: assms(3))

text \<open>The states a change of mode goes through.\<close>

definition told :: "adb_mode \<Rightarrow> adb_view \<Rightarrow> bool" where
  "told m v \<longleftrightarrow> (trim_space (av_prop v ''ro.adb.secure'') = ''1'') = (m = ADBSecure)"

lemma stable_told [simp]: "stable (told m)" "stable (port_told p)"
  "stable (\<lambda>v. told m v \<and> 0 < av_rules v r)" "stable (\<lambda>v. told m v \<and> port_told p v)"
  "stable (\<lambda>v. av_rules v r < n)" "stable (\<lambda>v. port_told p v \<and> av_rules v r < n)" "stable (\<lambda>v. av_rules v r = 0)"
  "stable (\<lambda>v. port_told p v \<and> av_rules v r = 0)"
  using stable_facts(1) [of "\<lambda>q n. (trim_space (q ''ro.adb.secure'') = ''1'') = (m = ADBSecure)"]
    stable_facts(1) [of "\<lambda>q f. ((trim_space (q ''ro.adb.secure'') = ''1'') = (m = ADBSecure)) \<and> 0 < f r"]
    stable_facts(1) [of "\<lambda>q f. f r < n"] stable_facts(1) [of "\<lambda>q f. f r = 0"]
  by (auto intro!: stable_facts(2,3) simp: told_def [abs_def])

lemma trim_one: "trim_space ''1'' = ''1''" "trim_space [] = []"
  by code_simp+

lemma system_clear:
  assumes sys: "adb_system W see" "stable P" and keep: "\<And>v x. P v \<Longrightarrow> P (v\<lparr>av_prop := (av_prop v)(''ro.adb.secure'' := x)\<rparr>)"
  shows "valid (\<lambda>s. P (see s)) (clearADBSecure W) (\<lambda>e s. e = None \<and> P (see s) \<and> (m \<noteq> ADBSecure \<longrightarrow> told m (see s)))"
  unfolding clearADBSecure_def
proof -
  define Q where "Q = (\<lambda>v. P v \<and> told ADBInsecure v)"
  have "valid (\<lambda>s. P (see s)) (perform W (ResetProp [''--delete'', ''ro.adb.secure''])) (\<lambda>a s. Q (see s))"
    by (rule valid_weaken [OF system_perform [OF sys]]) (auto simp: does_def keep trim_one Q_def told_def)
  moreover have "valid (\<lambda>s. Q (see s)) (confirm_secure W False) (\<lambda>e s. e = None \<and> Q (see s))"
    unfolding Q_def
    by (rule system_confirm [OF sys(1) stable_facts(3) [OF sys(2) stable_told(1)]]) (simp add: told_def)
  ultimately have "valid (\<lambda>s. P (see s))
      (do { a \<leftarrow> perform W (ResetProp [''--delete'', ''ro.adb.secure'']); confirm_secure W False }) (\<lambda>e s. e = None \<and> Q (see s))"
    by (rule valid_bind)
  then show "valid (\<lambda>s. P (see s))
      (do { a \<leftarrow> perform W (ResetProp [''--delete'', ''ro.adb.secure'']); confirm_secure W False })
      (\<lambda>e s. e = None \<and> P (see s) \<and> (m \<noteq> ADBSecure \<longrightarrow> told m (see s)))"
    by (rule valid_weaken) (auto simp: Q_def told_def)
qed

lemma system_deny:
  assumes sys: "adb_system W see" "stable P" and keep: "\<And>v n. P v \<Longrightarrow> P (v\<lparr>av_rules := (av_rules v)(inputRule port := n)\<rparr>)"
  shows "valid (\<lambda>s. P (see s) \<and> av_rules (see s) (inputRule port) < n) (deny_rounds n W port)
    (\<lambda>e s. e = None \<and> P (see s) \<and> av_rules (see s) (inputRule port) = 0)"
proof (induction n)
  case 0
  show ?case by (simp add: valid_def)
next
  case (Suc n)
  have go: "valid (\<lambda>s. \<exists>v. (P v \<and> av_rules v (inputRule port) < Suc n) \<and> does v (Iptables (''-D'' # inputRule port)) a (see s))
      (case a of Fine out \<Rightarrow> deny_rounds n W port | ExitOne \<Rightarrow> State_Monad.return None
       | Broken \<Rightarrow> State_Monad.return (Some (RuleNotRemoved port)))
      (\<lambda>e s. e = None \<and> P (see s) \<and> av_rules (see s) (inputRule port) = 0)" for a
  proof (cases a)
    case (Fine out)
    then show ?thesis
      by simp (rule valid_pre [OF Suc.IH], auto simp: does_def Let_def keep split: if_splits)
  next
    case ExitOne
    then show ?thesis
      by simp (rule valid_pre [OF valid_return], auto simp: does_def Let_def split: if_splits)
  next
    case Broken
    then show ?thesis by (auto simp: valid_def does_def Let_def split: if_splits)
  qed
  show ?case
    unfolding deny_rounds.simps
    by (rule valid_bind [OF system_perform [OF sys(1) stable_facts(3) [OF sys(2) stable_told(5)]] go])
qed

lemma system_allow:
  assumes sys: "adb_system W see" "stable P" and keep: "\<And>v n. P v \<Longrightarrow> P (v\<lparr>av_rules := (av_rules v)(inputRule port := n)\<rparr>)"
  shows "valid (\<lambda>s. P (see s)) (AllowTCP W port)
    (\<lambda>e s. e = None \<and> P (see s) \<and> 0 < av_rules (see s) (inputRule port))"
  unfolding AllowTCP_def
proof (rule valid_bind [OF system_present [OF sys]])
  fix f
  show "valid (\<lambda>s. P (see s) \<and> f = Some (0 < av_rules (see s) (inputRule port)))
      (case f of None \<Rightarrow> State_Monad.return (Some (RuleUnchecked port)) | Some True \<Rightarrow> State_Monad.return None
       | Some False \<Rightarrow> must W (Iptables (''-A'' # inputRule port)) (RuleNotAdded port))
      (\<lambda>e s. e = None \<and> P (see s) \<and> 0 < av_rules (see s) (inputRule port))"
  proof (cases "f = Some False")
    case True
    have "valid (\<lambda>s. P (see s)) (must W (Iptables (''-A'' # inputRule port)) (RuleNotAdded port))
        (\<lambda>e s. e = None \<and> (P (see s) \<and> 0 < av_rules (see s) (inputRule port)))"
      by (rule system_must [OF sys, where R = "\<lambda>v. P v \<and> 0 < av_rules v (inputRule port)"])
        (auto simp: does_def Let_def keep)
    with True show ?thesis by (auto intro: valid_pre)
  next
    case False
    then show ?thesis
      by (auto simp: valid_def State_Monad.return_def split: option.split bool.split)
  qed
qed

text \<open>The tables may move while adbd is still to restart; otherwise both are read as they are.\<close>

lemma system_listening:
  assumes sys: "adb_system W see" "stable P"
  shows "valid (\<lambda>s. P (see s)) (ADBListening W) (\<lambda>l s. P (see s) \<and> True)"
proof -
  have "valid (\<lambda>s. P (see s)) (listening W ps) (\<lambda>l s. P (see s))" for ps
  proof (induction ps)
    case (Cons p ps)
    have "valid (\<lambda>s. \<exists>v. P v \<and> does v (ReadFile p) a (see s))
      (case a of Fine out \<Rightarrow> if hasListener out adbPortHex then State_Monad.return True else listening W ps
       | ExitOne \<Rightarrow> listening W ps | Broken \<Rightarrow> listening W ps) (\<lambda>l s. P (see s))" for a
      by (cases a) (auto simp: does_def intro: valid_pre [OF Cons.IH] valid_pre [OF valid_return])
    then show ?case unfolding listening.simps by (rule valid_bind [OF system_perform [OF sys]])
  qed (simp add: valid_def State_Monad.return_def)
  then show ?thesis unfolding ADBListening_def simp_thms .
qed

lemma system_heard:
  assumes sys: "adb_system W see" "stable P" and still: "\<And>v. P v \<Longrightarrow> \<not> av_due v \<and> view_listens v = b"
  shows "valid (\<lambda>s. P (see s)) (ADBListening W) (\<lambda>l s. P (see s) \<and> l = b)"
proof -
  have "valid (\<lambda>s. P (see s)) (listening W ps)
    (\<lambda>l s. P (see s) \<and> l = list_ex (\<lambda>p. hasListener (av_table (see s) p) adbPortHex) ps)"
    if "stable P" "\<And>v. P v \<Longrightarrow> \<not> av_due v" for P ps
    using that
  proof (induction ps arbitrary: P)
    case (Cons p ps)
    have go: "valid (\<lambda>s. \<exists>v. P v \<and> does v (ReadFile p) a (see s))
      (case a of Fine out \<Rightarrow> if hasListener out adbPortHex then State_Monad.return True else listening W ps
       | ExitOne \<Rightarrow> listening W ps | Broken \<Rightarrow> listening W ps)
      (\<lambda>l s. P (see s) \<and> l = list_ex (\<lambda>p. hasListener (av_table (see s) p) adbPortHex) (p # ps))" for a
    proof (cases a)
      case (Fine out)
      show ?thesis
      proof (cases "hasListener out adbPortHex")
        case True
        with Fine show ?thesis by (auto simp: valid_def State_Monad.return_def does_def)
      next
        case False
        have "stable (\<lambda>v. P v \<and> out = av_table v p)"
          using Cons.prems by (auto simp: stable_def moves_def)
        then have "valid (\<lambda>s. \<exists>v. P v \<and> does v (ReadFile p) a (see s)) (listening W ps)
          (\<lambda>l s. P (see s) \<and> l = list_ex (\<lambda>p. hasListener (av_table (see s) p) adbPortHex) (p # ps))"
          using Cons.prems False
          by (intro valid_weaken [OF Cons.IH [of "\<lambda>v. P v \<and> out = av_table v p"]]) (auto simp: does_def Fine)
        with Fine False show ?thesis by simp
      qed
    qed (auto simp: valid_def does_def)
    show ?case unfolding listening.simps by (rule valid_bind [OF system_perform [OF sys(1) Cons.prems(1)] go])
  qed (simp add: valid_def State_Monad.return_def)
  from this [OF sys(2), of "[''/proc/net/tcp'', ''/proc/net/tcp6'']", folded view_listens_def ADBListening_def]
  have "valid (\<lambda>s. P (see s)) (ADBListening W) (\<lambda>l s. P (see s) \<and> l = view_listens (see s))" using still by blast
  then show ?thesis by (rule valid_weaken) (use still in auto)
qed

text \<open>The mode that is found, given what the look at the tables can say.\<close>

lemma system_mode:
  assumes sys: "adb_system W see" "stable P"
    and heard: "valid (\<lambda>s. P (see s)) (ADBListening W) (\<lambda>l s. P (see s) \<and> L l)"
    and rules: "\<And>v. P v \<Longrightarrow> (0 < av_rules v (inputRule ADBPort)) = permitted"
    and sec: "\<And>v. P v \<Longrightarrow> permitted \<Longrightarrow> (trim_space (av_prop v ''ro.adb.secure'') = ''1'') = secured"
  shows "valid (\<lambda>s. P (see s)) (CurrentADBMode W)
    (\<lambda>r s. \<exists>l. L l \<and> r = (if l \<and> permitted then (if secured then ADBSecure else ADBInsecure) else ADBOff, True))"
proof -
  have reach: "valid (\<lambda>s. P (see s)) (adbReachable W) (\<lambda>r s. P (see s) \<and> (\<exists>l. L l \<and> r = (l \<and> permitted, True)))"
    unfolding adbReachable_def
  proof (rule valid_bind [OF heard])
    fix l
    show "valid (\<lambda>s. P (see s) \<and> L l)
        (if \<not> l then State_Monad.return (False, True)
         else do { p \<leftarrow> present W (inputRule ADBPort);
           State_Monad.return (case p of None \<Rightarrow> (False, False) | Some permitted \<Rightarrow> (permitted, True)) })
        (\<lambda>r s. P (see s) \<and> (\<exists>l. L l \<and> r = (l \<and> permitted, True)))"
    proof (cases "l \<and> L l")
      case True
      then have l: "l = True" "L True" by auto
      have "valid (\<lambda>s. P (see s)) (do { p \<leftarrow> present W (inputRule ADBPort);
           State_Monad.return (case p of None \<Rightarrow> (False, False) | Some permitted \<Rightarrow> (permitted, True)) })
        (\<lambda>r s. P (see s) \<and> (\<exists>l. L l \<and> r = (l \<and> permitted, True)))"
        by (rule valid_bind [OF system_present [OF sys]], rule valid_pre [OF valid_return]) (use rules l(2) in force)
      then show ?thesis unfolding l(1) by (simp add: l(2))
    qed (auto simp: valid_def State_Monad.return_def)
  qed
  show ?thesis
    unfolding CurrentADBMode_def
  proof (rule valid_bind [OF reach])
    fix r :: "bool \<times> bool"
    show "valid (\<lambda>s. P (see s) \<and> (\<exists>l. L l \<and> r = (l \<and> permitted, True)))
        (case r of (opened, known) \<Rightarrow>
           if \<not> known then State_Monad.return (ADBOff, False)
           else if \<not> opened then State_Monad.return (ADBOff, True)
           else do { e \<leftarrow> adbSecureEnforced W;
             case e of (secure, known') \<Rightarrow> State_Monad.return
               (if \<not> known' then (ADBOff, False) else if secure then (ADBSecure, True) else (ADBInsecure, True)) })
        (\<lambda>r s. \<exists>l. L l \<and> r = (if l \<and> permitted then (if secured then ADBSecure else ADBInsecure) else ADBOff, True))"
    proof (cases "r = (True, True) \<and> permitted \<and> L True")
      case True
      then have t: "r = (True, True)" "permitted" "L True" by simp_all
      have "valid (\<lambda>s. P (see s))
          (do { e \<leftarrow> adbSecureEnforced W;
             case e of (secure, known') \<Rightarrow> State_Monad.return
               (if \<not> known' then (ADBOff, False) else if secure then (ADBSecure, True) else (ADBInsecure, True)) })
          (\<lambda>r s. \<exists>l. L l \<and> r = (if l \<and> permitted then (if secured then ADBSecure else ADBInsecure) else ADBOff, True))"
        by (rule valid_bind [OF system_secure [OF sys]], unfold split_beta, rule valid_pre [OF valid_return])
          (use t(2,3) sec in force)
      then show ?thesis unfolding t(1) prod.case not_True_eq_False if_False by (rule valid_pre) (elim conjE)
    next
      case False
      show ?thesis
      proof (cases "r = (False, True)")
        case True
        then show ?thesis by (auto simp: valid_def State_Monad.return_def)
      next
        case False
        then have "\<not> (P (see s) \<and> (\<exists>l. L l \<and> r = (l \<and> permitted, True)))" for s
          using \<open>\<not> (r = (True, True) \<and> permitted \<and> L True)\<close> by auto
        then show ?thesis unfolding valid_def by blast
      qed
    qed
  qed
qed

lemma system_set:
  assumes sys: "adb_system W see" "stable P"
    and k: "k \<noteq> ''ctl.restart''" and set: "\<And>v. P v \<Longrightarrow> R (v\<lparr>av_prop := (av_prop v)(k := x)\<rparr>)"
  shows "valid (\<lambda>s. P (see s)) (setProp W k x) (\<lambda>e s. e = None \<and> R (see s))"
  unfolding setProp_def by (rule system_must [OF sys]) (auto simp: does_def k set)

lemma system_restart:
  assumes sys: "adb_system W see" "stable P" and set: "\<And>v. P v \<Longrightarrow> R (v\<lparr>av_due := True\<rparr>)"
  shows "valid (\<lambda>s. P (see s)) (restartADBD W) (\<lambda>e s. e = None \<and> R (see s))"
  unfolding restartADBD_def setProp_def by (rule system_must [OF sys]) (auto simp: does_def intro: set)

lemma system_install:
  assumes sys: "adb_system W see" "stable P"
  shows "valid (\<lambda>s. P (see s)) (installADBKey W) (\<lambda>e s. e = None \<and> P (see s))"
proof -
  have step: "valid (\<lambda>s. P (see s)) (must W c e) (\<lambda>e s. e = None \<and> P (see s))"
    if "\<And>v a v'. does v c a v' \<Longrightarrow> a = Fine '''' \<and> v' = v" for c e
    by (rule system_must [OF sys]) (use that in blast)
  show ?thesis
    unfolding installADBKey_def
  proof (rule valid_bind [OF system_perform [OF sys]])
    fix a
    show "valid (\<lambda>s. \<exists>v. P v \<and> does v (ReadFile ADBKeySource) a (see s))
      (case a of Fine secret \<Rightarrow>
         if_good (must W (MkdirAll adbKeyDir 488) (KeyNotPlaced adbKeyDir))
         (if_good (must W (WriteFile adbKeyFile secret 416) (KeyNotPlaced adbKeyFile))
         (if_good (must W (Chmod adbKeyDir 488) (KeyNotPlaced adbKeyDir))
         (if_good (must W (Chmod adbKeyFile 416) (KeyNotPlaced adbKeyFile))
         (if_good (must W (Chown adbKeyDir aidSystem aidShell) (KeyNotPlaced adbKeyDir))
         (must W (Chown adbKeyFile aidSystem aidShell) (KeyNotPlaced adbKeyFile))))))
       | ExitOne \<Rightarrow> State_Monad.return (Some KeyUnread) | Broken \<Rightarrow> State_Monad.return (Some KeyUnread))
      (\<lambda>e s. e = None \<and> P (see s))"
    proof (cases a)
      case (Fine secret)
      have "valid (\<lambda>s. P (see s))
         (if_good (must W (MkdirAll adbKeyDir 488) (KeyNotPlaced adbKeyDir))
         (if_good (must W (WriteFile adbKeyFile secret 416) (KeyNotPlaced adbKeyFile))
         (if_good (must W (Chmod adbKeyDir 488) (KeyNotPlaced adbKeyDir))
         (if_good (must W (Chmod adbKeyFile 416) (KeyNotPlaced adbKeyFile))
         (if_good (must W (Chown adbKeyDir aidSystem aidShell) (KeyNotPlaced adbKeyDir))
         (must W (Chown adbKeyFile aidSystem aidShell) (KeyNotPlaced adbKeyFile)))))))
        (\<lambda>e s. e = None \<and> P (see s))"
        by (intro then_good [OF step] step) (simp_all add: does_def)
      with Fine show ?thesis by (auto intro: valid_pre simp: does_def)
    qed (auto simp: valid_def does_def)
  qed
qed

text \<open>
  What a change of mode leaves: whatever restart is still to come, the rule and the properties are those of the mode.
\<close>

definition left_by :: "adb_mode \<Rightarrow> adb_view \<Rightarrow> bool" where
  "left_by m v \<longleftrightarrow>
     (if m = ADBOff then port_told ''-1'' v \<and> av_rules v (inputRule ADBPort) = 0
      else (told m v \<and> port_told ''5555'' v) \<and> 0 < av_rules v (inputRule ADBPort))"

lemma stable_left [simp]: "stable (left_by m)"
proof (cases "m = ADBOff")
  case False
  have "stable (\<lambda>v. (told m v \<and> port_told ''5555'' v) \<and> 0 < av_rules v (inputRule ADBPort))"
    using stable_facts(1) [of "\<lambda>q f. 0 < f (inputRule ADBPort)"] by (intro stable_facts(3)) simp_all
  then show ?thesis using False by (simp add: left_by_def [abs_def])
qed (simp add: left_by_def [abs_def])

definition few_rules :: "adb_view \<Rightarrow> bool" where
  "few_rules v \<longleftrightarrow> av_rules v (inputRule ADBPort) < 16"

lemma stable_few [simp]: "stable few_rules"
  using stable_told(5) by (simp add: few_rules_def [abs_def])

lemma view_listens_keeps [simp]:
  "view_listens (v\<lparr>av_prop := q\<rparr>) = view_listens v" "view_listens (v\<lparr>av_rules := f\<rparr>) = view_listens v"
  by (simp_all add: view_listens_def)

lemma off_set:
  assumes sys: "adb_system W see"
  shows "valid (\<lambda>s. few_rules (see s)) (SetADBMode W ADBOff) (\<lambda>e s. e = None \<and> left_by ADBOff (see s))"
proof -
  let ?set = "\<lambda>v. few_rules v \<and> av_prop v ''service.adb.tcp.port'' = ''-1''"
  let ?shut = "\<lambda>v. port_told ''-1'' v \<and> av_rules v (inputRule ADBPort) < 16"
  let ?gone = "\<lambda>v. port_told ''-1'' v \<and> av_rules v (inputRule ADBPort) = 0"
  have set: "stable ?set"
    using stable_facts(1) [of "\<lambda>q f. f (inputRule ADBPort) < 16 \<and> q ''service.adb.tcp.port'' = ''-1''"]
    by (simp add: few_rules_def)
  have deny: "valid (\<lambda>s. ?shut (see s)) (DenyTCP W ADBPort) (\<lambda>e s. e = None \<and> ?gone (see s))"
    unfolding DenyTCP_def by (rule system_deny [OF sys stable_told(2)]) (auto simp: port_told_def)
  have clear: "valid (\<lambda>s. ?gone (see s)) (clearADBSecure W) (\<lambda>e s. e = None \<and> left_by ADBOff (see s))"
    by (rule valid_weaken [OF system_clear [OF sys stable_told(8), where m = ADBOff]])
      (auto simp: port_told_def left_by_def)
  have "valid (\<lambda>s. few_rules (see s)) (if_good (setProp W ''service.adb.tcp.port'' ''-1'')
      (if_good (restartADBD W) (if_good (DenyTCP W ADBPort) (clearADBSecure W))))
      (\<lambda>e s. e = None \<and> left_by ADBOff (see s))"
    by (rule then_good [OF system_set [OF sys stable_few, where R = ?set]
        then_good [OF system_restart [OF sys set, where R = ?shut] then_good [OF deny clear]]])
      (auto simp: few_rules_def port_told_def)
  then show ?thesis by (simp add: SetADBMode_def)
qed

lemma security_told:
  assumes sys: "adb_system W see"
  shows "valid (\<lambda>s. few_rules (see s)) (if m = ADBSecure then if_good (installADBKey W)
      (if_good (setResetprop W ''ro.adb.secure'' ''1'') (confirm_secure W True)) else clearADBSecure W)
      (\<lambda>e s. e = None \<and> told m (see s))"
proof (cases "m = ADBSecure")
  case True
  have reset: "valid (\<lambda>s. few_rules (see s)) (setResetprop W ''ro.adb.secure'' ''1'') (\<lambda>e s. e = None \<and> told m (see s))"
    unfolding setResetprop_def
    by (rule system_must [OF sys stable_few]) (auto simp: does_def told_def True trim_one)
  have conf: "valid (\<lambda>s. told m (see s)) (confirm_secure W True) (\<lambda>e s. e = None \<and> told m (see s))"
    by (rule system_confirm [OF sys stable_told(1)]) (simp add: told_def True)
  have "valid (\<lambda>s. few_rules (see s)) (if_good (installADBKey W)
    (if_good (setResetprop W ''ro.adb.secure'' ''1'') (confirm_secure W True))) (\<lambda>e s. e = None \<and> told m (see s))"
    by (rule then_good [OF system_install [OF sys stable_few] then_good [OF reset conf]])
  with True show ?thesis by simp
next
  case False
  have "stable (\<lambda>v. True)" by (simp add: stable_def)
  from system_clear [OF sys this, where m = m] False show ?thesis by simp (erule valid_weaken, auto)
qed

lemma open_set:
  assumes sys: "adb_system W see" and open': "m \<noteq> ADBOff"
  shows "valid (\<lambda>s. told m (see s)) (if_good (setProp W ''service.adb.tcp.port'' (nat_str ADBPort))
      (if_good (restartADBD W) (AllowTCP W ADBPort))) (\<lambda>e s. e = None \<and> left_by m (see s))"
proof -
  let ?set = "\<lambda>v. told m v \<and> av_prop v ''service.adb.tcp.port'' = ''5555''"
  let ?asked = "\<lambda>v. told m v \<and> port_told ''5555'' v"
  have set: "stable ?set"
    using stable_facts(1) [of "\<lambda>q f. q ''service.adb.tcp.port'' = ''5555''"] by (intro stable_facts(3)) simp_all
  have "char_of (53 :: nat) = CHR ''5''" by (simp add: char_of_def bit_0)
  then have port: "nat_str ADBPort = ''5555''" by (simp add: ADBPort_def nat_str.simps)
  have allow: "valid (\<lambda>s. ?asked (see s)) (AllowTCP W ADBPort) (\<lambda>e s. e = None \<and> left_by m (see s))"
    by (rule valid_weaken [OF system_allow [OF sys stable_told(4)]])
      (use open' in \<open>auto simp: told_def port_told_def left_by_def\<close>)
  show ?thesis
    unfolding port
    by (rule then_good [OF system_set [OF sys stable_told(1), where R = ?set]
        then_good [OF system_restart [OF sys set, where R = ?asked] allow]]) (auto simp: told_def port_told_def)
qed

lemma mode_set:
  assumes sys: "adb_system W see"
  shows "valid (\<lambda>s. few_rules (see s)) (SetADBMode W m) (\<lambda>e s. e = None \<and> left_by m (see s))"
proof (cases "m = ADBOff")
  case False
  from then_good [OF security_told [OF sys] open_set [OF sys False]] show ?thesis by (simp add: SetADBMode_def False)
qed (use off_set [OF sys] in simp)

text \<open>What is found at once, and what is found when adbd has restarted.\<close>

lemma left_found:
  assumes sys: "adb_system W see" and left: "left_by m (see s)"
  shows "fst (run_state (CurrentADBMode W) s) \<in> {(m, True), (ADBOff, True)}"
    and "\<not> av_due (see s) \<Longrightarrow> fst (run_state (CurrentADBMode W) s) = (m, True)"
proof -
  let ?open = "m \<noteq> ADBOff"
  have rules: "\<And>v. left_by m v \<Longrightarrow> (0 < av_rules v (inputRule ADBPort)) = ?open"
    and sec: "\<And>v. left_by m v \<Longrightarrow> ?open \<Longrightarrow> (trim_space (av_prop v ''ro.adb.secure'') = ''1'') = (m = ADBSecure)"
    by (auto simp: left_by_def told_def split: if_splits)
  have mode: "(if l \<and> ?open then if m = ADBSecure then ADBSecure else ADBInsecure else ADBOff, True)
      = (if l then m else ADBOff, True)" for l
    by (cases m) simp_all
  from system_mode [OF sys stable_left system_listening [OF sys stable_left] rules sec] left
  show "fst (run_state (CurrentADBMode W) s) \<in> {(m, True), (ADBOff, True)}"
    unfolding mode valid_def by force
  assume "\<not> av_due (see s)"
  let ?P = "\<lambda>v. left_by m v \<and> \<not> av_due v \<and> view_listens v = ?open"
  have st: "stable ?P" by (intro stable_facts(3,4) stable_left)
  have "?P (see s)" using left \<open>\<not> av_due (see s)\<close> by (auto simp: left_by_def port_told_def split: if_splits)
  with system_mode [OF sys st system_heard [OF sys st, where b = ?open], of ?open "m = ADBSecure"] rules sec
  show "fst (run_state (CurrentADBMode W) s) = (m, True)"
    unfolding mode valid_def by fastforce
qed

text \<open>
  C25. Over such a system, whatever its state with at most 15 copies of the rule, changing the mode makes no error. The
  restart it asks for comes later: until then \<open>CurrentADBMode\<close> finds the mode that was set or, where the old adbd is not
  listening, that the port is closed; once the restart has happened it finds the mode that was set, and adbd listens
  exactly when the mode is not \<open>Off\<close>. Nothing else touches the firewall's chain or the two properties meanwhile: netd,
  when it rebuilds the chain, takes the rule with it, and the daemon's poll puts it back.
\<close>

theorem adb_mode_found:
  assumes sys: "adb_system W see" and few: "av_rules (see s) (inputRule ADBPort) \<le> 15"
    and set: "run_state (SetADBMode W m) s = (e, s')"
    and later: "moves (see s') (see s'')" "\<not> av_due (see s'')"
  shows "e = None \<and> fst (run_state (CurrentADBMode W) s') \<in> {(m, True), (ADBOff, True)}
    \<and> fst (run_state (CurrentADBMode W) s'') = (m, True) \<and> view_listens (see s'') = (m \<noteq> ADBOff)"
proof -
  have "few_rules (see s)" using few by (simp add: few_rules_def)
  then have "fst (run_state (SetADBMode W m) s) = None \<and> left_by m (see (snd (run_state (SetADBMode W m) s)))"
    using mode_set [OF sys, of m] unfolding valid_def by blast
  then have e: "e = None" and left: "left_by m (see s')" by (simp_all add: set)
  have left': "left_by m (see s'')" by (rule stableD [OF stable_left left later(1)])
  then have "view_listens (see s'') = (m \<noteq> ADBOff)" using later(2) by (auto simp: left_by_def port_told_def split: if_splits)
  then show ?thesis using e left_found(1) [OF sys left] left_found(2) [OF sys left' later(2)] by blast
qed

text \<open>A system that behaves so: a restart that was asked for comes at the third call after it.\<close>

definition table_line :: string where
  "table_line = ''   0: 00000000:15B3 00000000:0000 0A''"

definition settled :: "adb_view \<Rightarrow> adb_view" where
  "settled v = (if av_due v then v\<lparr>av_due := False,
     av_table := (\<lambda>p. if av_prop v ''service.adb.tcp.port'' = ''5555'' then table_line else '''')\<rparr> else v)"

definition tame_does :: "adb_view \<Rightarrow> call \<Rightarrow> call_answer \<times> adb_view" where
  "tame_does v c =
     (case c of
        GetProp k \<Rightarrow> (Fine (av_prop v k), v)
      | SetProp k x \<Rightarrow> (Fine '''', if k = ''ctl.restart'' then v\<lparr>av_due := True\<rparr> else v\<lparr>av_prop := (av_prop v)(k := x)\<rparr>)
      | ResetProp args \<Rightarrow> (Fine '''',
          v\<lparr>av_prop := (if hd args = ''--delete'' then (av_prop v)(args ! 1 := '''') else (av_prop v)(hd args := args ! 1))\<rparr>)
      | Iptables args \<Rightarrow>
          (if hd args = ''-A'' then (Fine '''', v\<lparr>av_rules := (av_rules v)(tl args := av_rules v (tl args) + 1)\<rparr>)
           else if av_rules v (tl args) = 0 then (ExitOne, v)
           else (Fine '''', if hd args = ''-D'' then v\<lparr>av_rules := (av_rules v)(tl args := av_rules v (tl args) - 1)\<rparr> else v))
      | ReadFile p \<Rightarrow> (Fine (av_table v p), v)
      | _ \<Rightarrow> (Fine '''', v))"

definition tame :: "(adb_view \<times> nat) world" where
  "tame s c =
     (let u = (if snd s = 0 then settled (fst s) else fst s); r = tame_does u c
      in (fst r, (snd r, if c = SetProp ''ctl.restart'' ''adbd'' then 3 else snd s - 1)))"

lemma table_line_heard: "hasListener table_line adbPortHex" "\<not> hasListener [] adbPortHex"
  by code_simp+

lemma moves_settled: "moves v v" "moves v (settled v)" "\<not> av_due (settled v)"
  by (auto simp: moves_def settled_def view_listens_def table_line_heard)

lemma tame_does: "does v c (fst (tame_does v c)) (snd (tame_does v c))"
  by (auto simp: tame_does_def does_def Let_def split: call.split)

lemma tame_system: "adb_system tame fst"
  unfolding adb_system_def
proof (intro allI)
  fix s c
  show "\<exists>u. moves (fst s) u \<and> does u c (fst (tame s c)) (fst (snd (tame s c)))"
    by (rule exI [of _ "if snd s = 0 then settled (fst s) else fst s"]) (simp add: tame_def Let_def moves_settled tame_does)
qed

theorem adb_mode_found_witness:
  "case run_state (SetADBMode tame ADBSecure)
      (\<lparr>av_prop = (\<lambda>k. ''''), av_rules = (\<lambda>r. 2), av_table = (\<lambda>p. ''''), av_due = False\<rparr>, 0) of (e, s') \<Rightarrow>
    e = None \<and> fst (run_state (CurrentADBMode tame) (settled (fst s'), 0)) = (ADBSecure, True)"
proof -
  let ?s = "(\<lparr>av_prop = (\<lambda>k. ''''), av_rules = (\<lambda>r. 2), av_table = (\<lambda>p. ''''), av_due = False\<rparr>, 0) :: adb_view \<times> nat"
  obtain e s' where r: "run_state (SetADBMode tame ADBSecure) ?s = (e, s')" by (rule prod.exhaust)
  have "av_rules (fst ?s) (inputRule ADBPort) \<le> 15" by simp
  from adb_mode_found [OF tame_system this r, of "(settled (fst s'), 0)"] show ?thesis
    by (simp add: r moves_settled)
qed

end
