(* ===== verification/Serve_Main.thy ===== *)
theory Serve_Main
  imports Serve_Switch Serve_Mute Button_Gesture Esp_Sync Alexa_Watch Alexa_Command Device_Adb
begin

text \<open>
  The command itself, \<open>main.go\<close>, and the rest of \<open>serve.go\<close>: the name it is given, the buttons and what their gestures are
  called, what each part is told of the others, and the order in which the daemon is put together.  What the parts
  answer comes as arguments; what the daemon does is a list of actions in the order of the code.
\<close>

section \<open>The command line\<close>

definition versionLine :: "string \<Rightarrow> string" where
  "versionLine v = (if v = '''' then ''overdub (unversioned build)'' else ''overdub '' @ v)"

datatype label_error = LabelTooLong nat | LabelEndsInDash | LabelCharacter string

definition label_char :: "char \<Rightarrow> bool" where
  "label_char c \<longleftrightarrow> (97 \<le> chr_code c \<and> chr_code c \<le> 122) \<or> (48 \<le> chr_code c \<and> chr_code c \<le> 57) \<or> c = CHR ''-'' \<or> c = CHR ''_''"

text \<open>A rune that is no byte of its own is outside every range, and so is each of its bytes.\<close>

definition checkName :: "string \<Rightarrow> label_error option" where
  "checkName name =
     (if 63 < length name then Some (LabelTooLong (length name))
      else if has_prefix name ''-'' \<or> has_suffix name ''-'' then Some LabelEndsInDash
      else if \<not> list_all label_char name then Some (LabelCharacter name)
      else None)"

datatype main_end = PrintedVersion | Refused (refused: "label_error option") | Served | ServeFailed

text \<open>How the command ends and with which exit code; \<open>fails\<close> is whether \<open>serve\<close> returns an error.\<close>

definition main_run :: "bool \<Rightarrow> string \<Rightarrow> bool \<Rightarrow> main_end \<times> int" where
  "main_run showVersion name fails =
     (if showVersion then (PrintedVersion, 0)
      else if name = '''' then (Refused None, 2)
      else (case checkName name of
          Some e \<Rightarrow> (Refused (Some e), 2)
        | None \<Rightarrow> if fails then (ServeFailed, 1) else (Served, 0)))"

section \<open>The buttons\<close>

definition actionKey :: "16 word" where "actionKey = 138"
definition muteKey :: "16 word" where "muteKey = 113"

record button_entry =
  be_object :: string
  be_start :: mode
  be_chime :: bool

definition buttons :: "(16 word \<times> button_entry) list" where
  "buttons =
     [(actionKey, \<lparr>be_object = ''action_button'', be_start = ModeIntercept, be_chime = True\<rparr>),
      (muteKey, \<lparr>be_object = ''mute_button'', be_start = ModeMonitor, be_chime = False\<rparr>)]"

definition buttonStart :: "16 word \<Rightarrow> mode option" where
  "buttonStart code = map_option be_start (map_of buttons code)"

definition chimes :: "16 word \<Rightarrow> mode \<Rightarrow> bool" where
  "chimes code m \<longleftrightarrow> m = ModeIntercept \<and> (case map_of buttons code of None \<Rightarrow> False | Some b \<Rightarrow> be_chime b)"

definition parseButtonMode :: "string \<Rightarrow> mode \<times> bool" where
  "parseButtonMode choice =
     (case find (\<lambda>m. mode_string m = choice) [ModeIntercept, ModeMonitor, ModePassThrough] of
        Some m \<Rightarrow> (m, True) | None \<Rightarrow> (ModeIntercept, False))"

text \<open>What the api calls a gesture.\<close>

fun pressEvent :: "gesture \<Rightarrow> string option" where
  "pressEvent GesturePressEnd = Some ''press_end''"
| "pressEvent GestureMultiEnd = Some ''multi_press_end''"
| "pressEvent GestureLongStart = Some ''long_press_start''"
| "pressEvent GestureLongEnd = Some ''long_press_end''"

datatype press_log = Unnamed string gesture | HeldFor string string duration | Counted string string nat | Plainly string string

text \<open>\<open>Duration.Round(time.Millisecond)\<close>, half away from zero.\<close>

definition round_ms :: "duration \<Rightarrow> duration" where
  "round_ms d =
     (let r = go_mod d millisecond
      in if d < 0 then (if - r + - r < millisecond then d - r else d - r - millisecond)
         else if r + r < millisecond then d - r else d - r + millisecond)"

text \<open>What a chain of presses does with a gesture: what is logged, and the connections the api drops in sending it.\<close>

definition on_gesture ::
  "string \<Rightarrow> fired \<Rightarrow> esp_server option \<Rightarrow> press_log \<times> nat list \<times> esp_server option" where
  "on_gesture objectID f api =
     (case pressEvent (what f) of
        None \<Rightarrow> (Unnamed objectID (what f), [], api)
      | Some ev \<Rightarrow>
          (if 0 < holdFor f then HeldFor objectID ev (round_ms (holdFor f))
           else if 0 < times f then Counted objectID ev (times f)
           else Plainly objectID ev,
           case api of None \<Rightarrow> [] | Some s \<Rightarrow> fst (FirePress objectID ev (int (times f)) (holdFor f) s),
           map_option (\<lambda>s. snd (FirePress objectID ev (int (times f)) (holdFor f) s)) api))"

section \<open>Alexa\<close>

definition commandReady :: "bool \<times> bool \<times> bool \<Rightarrow> bool" where
  "commandReady st = (case st of (jar, registered, known) \<Rightarrow> if \<not> jar then False else registered \<or> \<not> known)"

definition commandState :: "bool \<Rightarrow> bool \<times> bool \<Rightarrow> bool \<times> bool \<times> bool" where
  "commandState jar account = (if \<not> jar then (False, False, False) else (True, fst account, snd account))"

text \<open>\<open>waitForCommand\<close>: the asking, five minutes apart, at which the box is offered, if one of those given is.\<close>

fun waitForCommand :: "(bool \<times> bool \<times> bool) list \<Rightarrow> nat option" where
  "waitForCommand [] = None"
| "waitForCommand (st # sts) = (if commandReady st then Some 0 else map_option Suc (waitForCommand sts))"

definition alexaTries :: nat where "alexaTries = 10"

datatype alexa_wait = AlexaUsed nat | AlexaNever

text \<open>\<open>installed n\<close> is the answer of the \<open>n\<close>-th asking; the attempts are what is asked, in order.\<close>

function alexa_attempts :: "(nat \<Rightarrow> bool) \<Rightarrow> nat \<Rightarrow> nat list \<times> alexa_wait" where
  "alexa_attempts installed n =
     (if installed n then ([n], AlexaUsed n)
      else if alexaTries \<le> n then ([n], AlexaNever)
      else (case alexa_attempts installed (Suc n) of (as, r) \<Rightarrow> (n # as, r)))"
  by pat_completeness auto
termination
  by (relation "measure (\<lambda>(_, n). alexaTries - n)") auto

declare alexa_attempts.simps [simp del]

definition waitForAlexa :: "(nat \<Rightarrow> bool) \<Rightarrow> nat list \<times> alexa_wait" where
  "waitForAlexa installed = alexa_attempts installed 1"

definition playbackWait :: duration where "playbackWait = 30 * second"

text \<open>The closure \<open>usePlayback\<close> gives the api: \<open>t0\<close> and \<open>t1\<close> are the times before and after speaking.\<close>

definition play_url ::
  "time \<Rightarrow> time \<Rightarrow> (string \<Rightarrow> speak_error option) \<Rightarrow> string \<Rightarrow> playback_watcher \<Rightarrow> speak_error option \<times> playback_watcher" where
  "play_url t0 t1 speak url w =
     (let w1 = Expect t0 playbackWait w
      in case speak url of Some e \<Rightarrow> (Some e, Cancel w1) | None \<Rightarrow> (None, Extend t1 playbackWait w1))"

text \<open>What the watcher's calls tell the api.\<close>

datatype played = Playing bool | PlayFailed string

fun on_playback :: "playback_call \<Rightarrow> played" where
  "on_playback OnStart = Playing True"
| "on_playback (OnEnd good detail) = (if good then Playing False else PlayFailed detail)"

section \<open>The audio server\<close>

definition sendspin_service :: string where "sendspin_service = ''_sendspin._tcp.local.''"
definition sendspin_port :: "16 word" where "sendspin_port = 8928"
definition sendspin_path :: string where "sendspin_path = ''/sendspin''"

text \<open>\<open>sha\<close> is SHA-256.\<close>

definition hex_char :: "nat \<Rightarrow> char" where
  "hex_char n = (if n < 10 then char_of (48 + n) else char_of (87 + n))"

definition hex_bytes :: "bytes \<Rightarrow> string" where
  "hex_bytes b = concat (map (\<lambda>x. [hex_char (unat x div 16), hex_char (unat x mod 16)]) b)"

definition bootToken :: "(bytes \<Rightarrow> bytes) \<Rightarrow> string option \<Rightarrow> string" where
  "bootToken sha file =
     (case file of None \<Rightarrow> ''''
      | Some raw \<Rightarrow> (let id' = trim_space raw in if id' = '''' then '''' else hex_bytes (take 4 (sha (str_bytes id')))))"

definition sendspin_advert :: "string \<Rightarrow> string \<Rightarrow> advert" where
  "sendspin_advert inst name =
     \<lparr>Service = sendspin_service, Port = sendspin_port,
      Records = [''path='' @ sendspin_path, ''name='' @ name] @ (if inst = '''' then [] else [''overdub_boot='' @ inst])\<rparr>"

definition deviceModel :: string where "deviceModel = ''Echo Dot (2nd Generation)''"
definition sendspinBuffer :: int where "sendspinBuffer = 500"
definition sendspinBluetoothBuffer :: int where "sendspinBluetoothBuffer = 900"
definition sendspinLead :: int where "sendspinLead = 350"
definition sendspinBluetoothLead :: int where "sendspinBluetoothLead = 1100"

text \<open>\<open>api\<close> is what the server, when it is there, can do: set the volume, and mute. The rest are Go's zero values.\<close>

definition sendspinClient :: "string \<Rightarrow> string \<Rightarrow> bool \<Rightarrow> (bool \<times> bool) option \<Rightarrow> int \<Rightarrow> sp_client" where
  "sendspinClient name mac player api delay =
     (let vol = (case api of None \<Rightarrow> False | Some (can_vol, can_mute') \<Rightarrow> can_vol);
          mut = (case api of None \<Rightarrow> False | Some (can_vol, can_mute') \<Rightarrow> can_vol \<and> can_mute')
      in \<lparr>Config = \<lparr>Name = name, ProductName = deviceModel, Manufacturer = ''Amazon'', MACAddress = to_lower mac,
            UnpairedAccess = True, BufferCapacity = BufferCapacityBytes, has_level = vol, has_set_volume = vol,
            has_set_mute = mut\<rparr>,
          HasPlayer = player, MinBufferMS = sendspinBuffer, BluetoothMinBufferMS = sendspinBluetoothBuffer,
          RequiredLeadMS = sendspinLead, BluetoothLeadMS = sendspinBluetoothLead, DelayMS = delay, SavesDelay = True,
          firstDelay = False, cdelay = 0, bluetooth = False, toldVolume = 0, toldMute = 0, onDisk = 0, keepWake = None,
          held = None, heldReady = False, live = [], cclosed = False\<rparr>)"

section \<open>Putting the daemon together\<close>

datatype psk_result = PSKUnread | PSKBad psk_error | PSK bytes

definition loadPSK :: "string option \<Rightarrow> psk_result" where
  "loadPSK file =
     (case file of None \<Rightarrow> PSKUnread
      | Some raw \<Rightarrow> (case DecodeNoisePSK raw of Inl e \<Rightarrow> PSKBad e | Inr psk \<Rightarrow> PSK psk))"

datatype start_act =
    OpenedButtons | WatchSignals | ChimeMissing | ChimeMade | FocusWatched | ApiStarted bool | SaidWatching
  | ChainMade "16 word" | ButtonsRun | ChimeClosed | ButtonsClosed

datatype serve_error = KeyError psk_result | ButtonError | RunError

text \<open>\<open>ended\<close> is how the loop over the buttons comes back.\<close>

definition serve :: "string option \<Rightarrow> bool \<Rightarrow> bool \<Rightarrow> bool \<Rightarrow> start_act list \<times> serve_error option" where
  "serve keyfile buttons_open chime fails =
     (case loadPSK keyfile of
        PSKUnread \<Rightarrow> ([], Some (KeyError PSKUnread))
      | PSKBad e \<Rightarrow> ([], Some (KeyError (PSKBad e)))
      | PSK psk \<Rightarrow>
          if \<not> buttons_open then ([], Some ButtonError)
          else ([OpenedButtons, WatchSignals] @ (if chime then [ChimeMade, FocusWatched] else [ChimeMissing])
             @ [ApiStarted chime, SaidWatching] @ map (\<lambda>(code, b). ChainMade code) buttons @ [ButtonsRun]
             @ (if chime then [ChimeClosed] else []) @ [ButtonsClosed],
             if fails then Some RunError else None))"

datatype api_act =
    AddressMissing | AddressAppeared | ServerMade string string | ButtonUsed string | MicMuteUsed | VolumeUsed | MuteUsed
  | MuteLevelUsed | KeysHeldIfMuted | CommandUsed | CommandAwaited bool | AlexaAwaited | ServerStored
  | ResponderMade "advert list" | ResponderRun | SwitchTook int bool | SwitchStored | SwitchRun | SwitchEnabled | SwitchStaysOff
  | SendspinUsed | DelayUsed int | RuleSwept | PortAllowed | PortHeld | Polling | ApiListens | Stopping | Exits int

text \<open>
  \<open>wantSendspin\<close> from the flag: an error keeps it off, and a flag that was never set means on.
\<close>

definition want_sendspin :: "(flag_error + bool \<times> bool) \<Rightarrow> bool" where
  "want_sendspin r = (case r of Inl e \<Rightarrow> False | Inr (on, known) \<Rightarrow> if \<not> known then True else on)"

record api_env =
  ae_mac :: "string list"
  ae_command :: "bool \<times> bool \<times> bool"
  ae_keys :: bool
  ae_flag :: "flag_error + bool \<times> bool"
  ae_delay :: "int \<times> bool"
  ae_enables :: bool

text \<open>The address asked for again until there is one: \<open>None\<close> while the readings given are all empty.\<close>

fun first_mac :: "string list \<Rightarrow> string option" where
  "first_mac [] = None"
| "first_mac (m # ms) = (if m = '''' then first_mac ms else Some m)"

definition use_command :: "bool \<times> bool \<times> bool \<Rightarrow> api_act list" where
  "use_command st = (if commandReady st then [CommandUsed] else [CommandAwaited (fst st)])"

definition use_switch :: "api_env \<Rightarrow> api_act list" where
  "use_switch E =
     (if \<not> ae_keys E then [RuleSwept]
      else [SwitchTook (fst (ae_delay E)) (snd (ae_delay E)), SwitchStored, SwitchRun]
        @ (if want_sendspin (ae_flag E) then [SwitchEnabled]
           else (case ae_flag E of Inr (on, True) \<Rightarrow> [SwitchStaysOff] | _ \<Rightarrow> []))
        @ [SendspinUsed, DelayUsed MaxStaticDelayMS]
        @ (if want_sendspin (ae_flag E) \<and> ae_enables E then [] else [RuleSwept]))"

definition serveAPI :: "string \<Rightarrow> api_env \<Rightarrow> api_act list" where
  "serveAPI name E =
     (case ae_mac E of
        [] \<Rightarrow> []
      | m # ms \<Rightarrow>
          (case first_mac (m # ms) of
             None \<Rightarrow> [AddressMissing]
           | Some mac \<Rightarrow>
               (if m = '''' then [AddressMissing, AddressAppeared] else [])
               @ [ServerMade name mac] @ map (\<lambda>(code, b). ButtonUsed (be_object b)) buttons
               @ [MicMuteUsed, VolumeUsed, MuteUsed, MuteLevelUsed, KeysHeldIfMuted] @ use_command (ae_command E)
               @ [AlexaAwaited, ServerStored, ResponderMade [esphome_advert name mac 6053], ResponderRun]
               @ use_switch E
               @ [PortAllowed, PortHeld, Polling, ApiListens, Stopping, Exits 1]))"

datatype stop_act = Withdrawn | SwitchFlushed

definition stopping :: "bool \<Rightarrow> bool \<Rightarrow> stop_act list" where
  "stopping advertised switched = (if advertised then [Withdrawn] else []) @ (if switched then [SwitchFlushed] else [])"

section \<open>The name reaches the network\<close>

lemma split_on_append: "c \<notin> set a \<Longrightarrow> split_on c (a @ c # b) = a # split_on c b"
  by (induction a) auto

lemma checkName_label:
  assumes "checkName name = None"
  shows "length name \<le> 63" "CHR ''.'' \<notin> set name"
  using assms by (auto simp: checkName_def label_char_def list_all_iff split: if_splits)

text \<open>A valid name followed by a service's labels is a valid name.\<close>

lemma validName_label:
  assumes "CHR ''.'' \<notin> set l" "0 < length l" "length l \<le> 63" "validName s = None" "length l + length s < 255"
  shows "validName (l @ ''.'' @ s) = None"
proof -
  from assms(4) obtain r where s: "s = r @ ''.''"
    by (auto simp: validName_def has_suffix_iff split: if_splits)
  from assms(4) have r: "check_labels (split_on CHR ''.'' r) = None"
    by (simp add: validName_def s has_suffix_iff trim_suffix_def split: if_splits)
  have "validName (l @ ''.'' @ s) = check_labels (split_on CHR ''.'' (l @ CHR ''.'' # r))"
    using assms(5) by (simp add: validName_def s has_suffix_iff trim_suffix_def maxName_def)
  also have "\<dots> = None"
    using assms(1-3) r by (auto simp: split_on_append maxLabel_def)
  finally show ?thesis .
qed

lemma service_names:
  "validName ''local.'' = None" "validName esphome_service = None" "validName sendspin_service = None"
  by code_simp+

lemma length_to_lower: "length (to_lower s) \<le> length s"
  by (induction s rule: to_lower.induct) auto

lemma records_short:
  assumes "length name \<le> 63" "length mac \<le> 200" "length inst \<le> 200"
  shows "find (\<lambda>r. maxTXTString < length r) (Records (esphome_advert name mac p)) = None"
    and "find (\<lambda>r. maxTXTString < length r) (Records (sendspin_advert inst name)) = None"
proof -
  have mac: "length (to_lower (filter (\<lambda>c. c \<noteq> CHR '':'') mac)) \<le> 200"
    using length_to_lower [of "filter (\<lambda>c. c \<noteq> CHR '':'') mac"] length_filter_le [of "\<lambda>c. c \<noteq> CHR '':''" mac] assms(2) by linarith
  have fixed: "length noiseCipherName \<le> 60" "length esphomeVersion \<le> 60" "length sendspin_path \<le> 60"
    by (simp_all add: noiseCipherName_def esphomeVersion_def sendspin_path_def)
  show "find (\<lambda>r. maxTXTString < length r) (Records (esphome_advert name mac p)) = None"
    using mac fixed assms(1) by (simp add: esphome_advert_def maxTXTString_def)
  show "find (\<lambda>r. maxTXTString < length r) (Records (sendspin_advert inst name)) = None"
    using fixed assms(1,3) by (simp add: sendspin_advert_def maxTXTString_def)
qed

lemma services_differ: "to_lower esphome_service \<noteq> to_lower sendspin_service"
  by code_simp

text \<open>
  A name the command accepts is one the network takes: for each of the two lists of services the daemon advertises under
  it, the audio server off and on, the responder finds nothing wrong, provided the records themselves can be packed.
  So neither turning the switch nor starting up is ever refused for the name the device was given.
\<close>

theorem names_advertise:
  assumes "checkName name = None" and "0 < length name" and "length mac \<le> 200" and "length inst \<le> 200"
    and "Instance m = name" and "recordsFor D ttlShared (dry_answer l) m \<noteq> None"
    and "l = [esphome_advert name mac 6053] \<or> l = [esphome_advert name mac 6053, sendspin_advert inst name]"
  shows "checkAdverts D l m = None"
proof -
  note label = checkName_label [OF assms(1)]
  have host: "validName (hostName m) = None"
    using validName_label [OF label(2) assms(2) label(1) service_names(1)] label(1) assms(5) by (simp add: hostName_def)
  have inst: "validName (instanceFor m esphome_service) = None" "validName (instanceFor m sendspin_service) = None"
    using validName_label [OF label(2) assms(2) label(1) service_names(2)]
      validName_label [OF label(2) assms(2) label(1) service_names(3)] label(1) assms(5)
    by (simp_all add: instanceFor_def esphome_service_def sendspin_service_def)
  have serv: "Service (esphome_advert name mac 6053) = esphome_service" "Service (sendspin_advert inst name) = sendspin_service"
    by (simp_all add: esphome_advert_def sendspin_advert_def)
  have "\<not> bare (esphome_advert name mac 6053)" "\<not> bare (sendspin_advert inst name)"
    by (simp_all add: bare_def esphome_advert_def sendspin_advert_def esphome_service_def sendspin_service_def sendspin_port_def)
  with assms(6,7) host inst services_differ records_short [OF label(1) assms(3,4)] show ?thesis
    by (auto simp: checkAdverts_def serv service_names)
qed

theorem names_advertise_witness:
  "checkAdverts demo_lib [esphome_advert ''kitchen'' ''00:11:22:33:44:55'' 6053, sendspin_advert ''0a1b2c3d'' ''kitchen'']
     (demo_responder\<lparr>Instance := ''kitchen''\<rparr>) = None"
  by (rule names_advertise [where name = "''kitchen''" and mac = "''00:11:22:33:44:55''" and inst = "''0a1b2c3d''"])
    (simp_all add: checkName_def label_char_def has_prefix_def recordsFor_def demo_lib_def demo_responder_def hostName_def instanceFor_def
      dry_answer_def esphome_advert_def sendspin_advert_def esphome_service_def sendspin_service_def has_suffix_def)

section \<open>Waiting for Alexa\<close>

lemma alexa_attempts_eq:
  assumes "n + k = alexaTries"
  shows "alexa_attempts installed n =
    (case find installed [n..<Suc alexaTries] of
       Some m \<Rightarrow> ([n..<Suc m], AlexaUsed m) | None \<Rightarrow> ([n..<Suc alexaTries], AlexaNever))"
  using assms
proof (induction k arbitrary: n)
  case 0
  then show ?case by (subst alexa_attempts.simps) auto
next
  case (Suc k)
  then have n: "n < alexaTries" "[n..<Suc alexaTries] = n # [Suc n..<Suc alexaTries]"
    by (simp_all add: upt_conv_Cons)
  show ?case
  proof (cases "installed n")
    case True
    with n show ?thesis by (subst alexa_attempts.simps) simp
  next
    case False
    have ih: "alexa_attempts installed (Suc n) =
      (case find installed [Suc n..<Suc alexaTries] of
         Some m \<Rightarrow> ([Suc n..<Suc m], AlexaUsed m) | None \<Rightarrow> ([Suc n..<Suc alexaTries], AlexaNever))"
      by (rule Suc.IH) (use Suc.prems in simp)
    have rec: "alexa_attempts installed n = (case alexa_attempts installed (Suc n) of (as, r) \<Rightarrow> (n # as, r))"
      using False n(1) by (subst alexa_attempts.simps) simp
    have first: "find installed [n..<Suc alexaTries] = find installed [Suc n..<Suc alexaTries]"
      unfolding n(2) using False by simp
    show ?thesis
    proof (cases "find installed [Suc n..<Suc alexaTries]")
      case None
      then show ?thesis unfolding rec ih first by (simp only: option.case prod.case n(2))
    next
      case (Some m)
      then have "m \<in> set [Suc n..<Suc alexaTries]"
        unfolding find_Some_iff using nth_mem by metis
      then have "n < Suc m" by auto
      from upt_conv_Cons [OF this] have "n # [Suc n..<Suc m] = [n..<Suc m]" by simp
      then show ?thesis unfolding rec ih first Some by (simp only: option.case prod.case)
    qed
  qed
qed

text \<open>
  Waiting for Alexa ends whatever the answers are: it asks once an attempt, in order, until the first that finds Alexa or
  the tenth, and the media player is given its playing exactly when one of the ten found it.
\<close>

theorem alexa_waited_for:
  "waitForAlexa installed =
     (case find installed [1..<11] of Some m \<Rightarrow> ([1..<Suc m], AlexaUsed m) | None \<Rightarrow> ([1..<11], AlexaNever))"
proof -
  have "(11 :: nat) = Suc alexaTries" by (simp add: alexaTries_def)
  moreover have "1 + 9 = alexaTries" by (simp add: alexaTries_def)
  ultimately show ?thesis
    unfolding waitForAlexa_def by (simp only: alexa_attempts_eq)
qed

text \<open>The ways a gesture is named, to the log and to the api, agree, and are what the entity declares.\<close>

lemma pressEvent_declared: "\<exists>ev. pressEvent g = Some ev \<and> ev = gesture_string g \<and> ev \<in> set actionEvents"
  by (cases g) (simp_all add: actionEvents_def)

lemma parseButtonMode_string: "parseButtonMode (mode_string m) = (m, True)"
  by (cases m) (simp_all add: parseButtonMode_def)

end
