(* ===== verification/Serve_Glue.thy ===== *)
theory Serve_Glue
  imports Serve_Main Esp_Media Alexa_Follow
begin

text \<open>
  What \<open>serve.go\<close> hands from one part to another: the watcher of Alexa's playback to the api's media player, the api's
  speaker to the audio client and to the mute, and the wait of a withdrawal for the connections to end.  The playing of a
  clip is composed here from the api's worker, the synthesizer and the watcher's two goroutines.
\<close>

section \<open>The clip that plays\<close>

text \<open>
  Three goroutines are at it: the worker that takes a clip and has it spoken, the reader of logcat and the sweep.  The
  watcher's mutex is not held while it calls back, so a call of the reader (\<open>cs_line\<close>) or of the sweep (\<open>cs_sweep\<close>) is
  made a step later than it is decided, and others may come between.
\<close>

datatype clip_work = WIdle | WTaken string | WSpeaking string | WFailed

record clip_state =
  cs_watch :: playback_watcher
  cs_api :: esp_server
  cs_work :: clip_work
  cs_line :: "playback_call option"
  cs_sweep :: "playback_call option"

definition worker_take :: "clip_state \<Rightarrow> clip_state" where
  "worker_take s =
     (case play_take_turn (cs_api s) of
        (a, None) \<Rightarrow> s\<lparr>cs_api := a\<rparr>
      | (a, Some (url, can)) \<Rightarrow> s\<lparr>cs_api := a, cs_work := (if can then WTaken url else WIdle)\<rparr>)"

fun note_played :: "played \<Rightarrow> esp_server \<Rightarrow> esp_server" where
  "note_played (Playing b) a = NotePlayback b a"
| "note_played (PlayFailed detail) a = snd (NotePlaybackFailed detail a)"

definition hear :: "playback_call option \<Rightarrow> esp_server \<Rightarrow> esp_server" where
  "hear c a = (case c of None \<Rightarrow> a | Some p \<Rightarrow> note_played (on_playback p) a)"

definition first_call :: "playback_call list \<Rightarrow> playback_call option" where
  "first_call cs = (case cs of [] \<Rightarrow> None | c # _ \<Rightarrow> Some c)"

text \<open>\<open>ClipSpoken\<close> is the return of the synthesizer with its answer. A step whose goroutine is elsewhere changes nothing.\<close>

datatype clip_event = ClipAsked string bool | ClipTake | ClipExpect time | ClipSpoken time "speak_error option" | ClipFailed
  | ClipLine time string | ClipLineSaid | ClipSweep time | ClipSweepSaid

fun clip_step :: "clip_state \<Rightarrow> clip_event \<Rightarrow> clip_state" where
  "clip_step s (ClipAsked url ann) = s\<lparr>cs_api := fst (snd (playLocked url ann (cs_api s)))\<rparr>"
| "clip_step s ClipTake = (if playWorking (cs_api s) \<and> cs_work s = WIdle then worker_take s else s)"
| "clip_step s (ClipExpect now) =
     (case cs_work s of
        WTaken url \<Rightarrow> s\<lparr>cs_watch := Expect now playbackWait (cs_watch s), cs_work := WSpeaking url\<rparr>
      | _ \<Rightarrow> s)"
| "clip_step s (ClipSpoken now err) =
     (case cs_work s of
        WSpeaking url \<Rightarrow>
          (case err of
             Some e \<Rightarrow> s\<lparr>cs_watch := Cancel (cs_watch s), cs_work := WFailed\<rparr>
           | None \<Rightarrow> s\<lparr>cs_watch := Extend now playbackWait (cs_watch s), cs_work := WIdle\<rparr>)
      | _ \<Rightarrow> s)"
| "clip_step s ClipFailed = (if cs_work s = WFailed then s\<lparr>cs_api := NotePlayback False (cs_api s), cs_work := WIdle\<rparr> else s)"
| "clip_step s (ClipLine now line) =
     (if cs_line s \<noteq> None then s
      else (case playback_line now line (cs_watch s) of (w, calls) \<Rightarrow> s\<lparr>cs_watch := w, cs_line := first_call calls\<rparr>))"
| "clip_step s ClipLineSaid = s\<lparr>cs_api := hear (cs_line s) (cs_api s), cs_line := None\<rparr>"
| "clip_step s (ClipSweep now) =
     (if cs_sweep s \<noteq> None then s
      else (case playback_expire now (cs_watch s) of (w, calls) \<Rightarrow> s\<lparr>cs_watch := w, cs_sweep := first_call calls\<rparr>))"
| "clip_step s ClipSweepSaid = s\<lparr>cs_api := hear (cs_sweep s) (cs_api s), cs_sweep := None\<rparr>"

definition clip_start :: "esp_server \<Rightarrow> clip_state" where
  "clip_start a =
     \<lparr>cs_watch = new_playback, cs_api = a\<lparr>mpPlaying := False\<rparr>, cs_work = WIdle, cs_line = None, cs_sweep = None\<rparr>"

text \<open>Something is there to say that the clip ended: the wait for its end, or a call or a failure still to be passed on.\<close>

definition is_over :: "playback_call option \<Rightarrow> bool" where
  "is_over c = (case c of Some (OnEnd good detail) \<Rightarrow> True | _ \<Rightarrow> False)"

definition watched_over :: "clip_state \<Rightarrow> bool" where
  "watched_over s \<longleftrightarrow> pw_expecting (cs_watch s) \<or> is_over (cs_line s) \<or> is_over (cs_sweep s) \<or> cs_work s = WFailed"

text \<open>How often the reader says that a clip started when what it waited for has been given up in the meantime.\<close>

fun overtaken :: "clip_state \<Rightarrow> clip_event list \<Rightarrow> nat" where
  "overtaken s [] = 0"
| "overtaken s (e # es) =
     (if e = ClipLineSaid \<and> cs_line s = Some OnStart \<and> \<not> watched_over s then 1 else 0) + overtaken (clip_step s e) es"

definition clip_inv :: "clip_state \<Rightarrow> bool" where
  "clip_inv s \<longleftrightarrow> (mpPlaying (cs_api s) \<longrightarrow> watched_over s) \<and> (cs_sweep s \<noteq> None \<longrightarrow> is_over (cs_sweep s))"

named_theorems clip_defs

declare clip_inv_def [clip_defs] watched_over_def [clip_defs] is_over_def [clip_defs] first_call_def [clip_defs]
  worker_take_def [clip_defs] Expect_def [clip_defs] Extend_def [clip_defs] Cancel_def [clip_defs]

lemma note_playing [simp]:
  "mpPlaying (NotePlayback b a) = b" "mpPlaying (snd (NotePlaybackFailed d a)) = False"
  by (simp_all add: NotePlayback_def NotePlaybackFailed_def Let_def)

lemma hear_playing [simp]:
  "mpPlaying (hear c a) = (case c of None \<Rightarrow> mpPlaying a | Some p \<Rightarrow> p = OnStart)"
proof (cases c)
  case (Some p)
  then show ?thesis by (cases p) (simp_all add: hear_def)
qed (simp add: hear_def)

lemma ask_playing: "mpPlaying (fst (snd (playLocked url ann a))) = mpPlaying a"
  by (simp add: playLocked_def queuePlay_def Let_def)

lemma take_playing: "play_take_turn a = (b, x) \<Longrightarrow> mpPlaying b = mpPlaying a"
  by (auto simp: play_take_turn_def split: if_splits)

lemma line_keeps:
  "clip_inv s \<Longrightarrow> clip_inv (clip_step s (ClipLine now line))"
  by (auto simp: clip_defs playback_line_def Let_def split: if_splits playback_call.splits option.splits)

lemma sweep_keeps:
  "clip_inv s \<Longrightarrow> clip_inv (clip_step s (ClipSweep now))"
  by (auto simp: clip_defs playback_expire_def split: if_splits playback_call.splits option.splits)

lemma line_said_keeps:
  assumes "clip_inv s" "\<not> (cs_line s = Some OnStart \<and> \<not> watched_over s)"
  shows "clip_inv (clip_step s ClipLineSaid)"
  using assms by (auto simp: clip_defs split: if_splits playback_call.splits option.splits)

lemma worker_keeps:
  "clip_inv s \<Longrightarrow> clip_inv (clip_step s ClipTake)"
  "clip_inv s \<Longrightarrow> clip_inv (clip_step s (ClipExpect now))"
  "clip_inv s \<Longrightarrow> clip_inv (clip_step s (ClipSpoken now err))"
  "clip_inv s \<Longrightarrow> clip_inv (clip_step s ClipFailed)"
  "clip_inv s \<Longrightarrow> clip_inv (clip_step s (ClipAsked url ann))"
  "clip_inv s \<Longrightarrow> clip_inv (clip_step s ClipSweepSaid)"
  using take_playing [of "cs_api s"]
  by (auto simp: clip_defs ask_playing split: prod.splits option.splits clip_work.splits if_splits playback_call.splits)

lemma clip_keeps:
  "clip_inv s \<Longrightarrow> \<not> (e = ClipLineSaid \<and> cs_line s = Some OnStart \<and> \<not> watched_over s) \<Longrightarrow> clip_inv (clip_step s e)"
  by (cases e) (auto intro: worker_keeps line_keeps sweep_keeps line_said_keeps simp del: clip_step.simps)

lemma clip_run: "clip_inv s \<Longrightarrow> overtaken s es = 0 \<Longrightarrow> clip_inv (foldl clip_step s es)"
proof (induction es arbitrary: s)
  case (Cons e es)
  then have "clip_inv (clip_step s e)" by (intro clip_keeps) (auto split: if_splits)
  then show ?case using Cons by auto
qed simp

text \<open>
  The exception is there in the code. Alexa starts to speak of something else while the synthesizer is being asked; the
  reader has seen it and not yet said it when the synthesizer refuses the clip and the worker says that nothing plays.
  Then the reader says that a clip plays, and no sweep ends it any more.
\<close>

definition overtaking :: "speak_error \<Rightarrow> string \<Rightarrow> clip_event list" where
  "overtaking e url =
     [ClipAsked url False, ClipTake, ClipExpect 0, ClipLine 1 ''Playback started: SpeechSynthesizer'', ClipSpoken 2 (Some e),
      ClipFailed, ClipLineSaid]"

lemma other_speech_reads:
  "contains_str ''Playback started: SpeechSynthesizer'' ''Playback started:''"
  "contains_str ''Playback started: SpeechSynthesizer'' ''SpeechSynthesizer''"
  "\<not> contains_str ''Playback started: SpeechSynthesizer'' ''cannot estimate length''"
  "\<not> contains_str ''Playback started: SpeechSynthesizer'' ''Exception''"
  by code_simp+

lemma other_speech:
  "pw_expecting w \<Longrightarrow>
     playback_line now ''Playback started: SpeechSynthesizer'' w = (w\<lparr>pw_deadline := now + playingFor\<rparr>, [OnStart])"
  by (simp only: playback_line_def Let_def other_speech_reads if_True if_False simp_thms)

lemma start_left_behind:
  "(let s = foldl clip_step (clip_start (a\<lparr>can_play := True, playWorking := False\<rparr>)) (overtaking e url)
    in mpPlaying (cs_api (foldl clip_step s (concat (map (\<lambda>t. [ClipSweep t, ClipSweepSaid]) ts)))))"
proof -
  define s where "s = foldl clip_step (clip_start (a\<lparr>can_play := True, playWorking := False\<rparr>)) (overtaking e url)"
  have st: "mpPlaying (cs_api s) \<and> \<not> pw_expecting (cs_watch s) \<and> cs_sweep s = None"
    by (simp add: s_def overtaking_def clip_start_def playLocked_def queuePlay_def play_take_turn_def other_speech clip_defs Let_def)
  then have idle: "clip_step (clip_step s (ClipSweep t)) ClipSweepSaid = s" for t
    by (cases s) (simp add: playback_expire_def first_call_def hear_def)
  have "foldl clip_step s (concat (map (\<lambda>t. [ClipSweep t, ClipSweepSaid]) ts)) = s"
    by (induction ts) (simp_all add: idle del: clip_step.simps)
  then show ?thesis using st by (simp add: s_def [symmetric] Let_def)
qed

text \<open>
  C40. However the worker, the reader of logcat and the sweep take turns, and whatever each is told, the api says that a
  clip plays only while something is there that will say it ended: the wait for its end, which the first sweep past its
  deadline gives up, or a call on its way. The one exception is counted: a start that logcat's reader passes on only
  after the wait it belongs to was given up. It can happen (\<open>overtaking\<close>), and then no number of sweeps ends the clip.
\<close>

theorem playing_is_watched:
  "(let s = foldl clip_step (clip_start a) es; s' = clip_step (clip_step s (ClipSweep now)) ClipSweepSaid
    in if 0 < overtaken (clip_start a) es then True
       else (if mpPlaying (cs_api s) then watched_over s else True)
            \<and> (if pw_expecting (cs_watch s) \<and> pw_deadline (cs_watch s) < now then \<not> mpPlaying (cs_api s') else True))
   \<and> (let s = foldl clip_step (clip_start (a\<lparr>can_play := True, playWorking := False\<rparr>)) (overtaking e url)
      in mpPlaying (cs_api (foldl clip_step s (concat (map (\<lambda>t. [ClipSweep t, ClipSweepSaid]) ts)))))"
proof -
  define s where "s = foldl clip_step (clip_start a) es"
  have "clip_inv (clip_start a)" by (simp add: clip_inv_def clip_start_def)
  then have "clip_inv s" if "overtaken (clip_start a) es = 0" using that unfolding s_def by (rule clip_run)
  then have "if 0 < overtaken (clip_start a) es then True
      else (if mpPlaying (cs_api s) then watched_over s else True)
           \<and> (if pw_expecting (cs_watch s) \<and> pw_deadline (cs_watch s) < now
               then \<not> mpPlaying (cs_api (clip_step (clip_step s (ClipSweep now)) ClipSweepSaid)) else True)"
    by (auto simp: clip_defs playback_expire_def split: option.splits playback_call.splits)
  then show ?thesis using start_left_behind [of a e url ts] by (simp only: Let_def s_def [symmetric] simp_thms)
qed

section \<open>The speaker\<close>

text \<open>What the audio client and the mute are given of the api's speaker, before there is an api and after.\<close>

definition speakerLevel :: "esp_server option \<Rightarrow> music_volume \<Rightarrow> bool \<times> bool \<Rightarrow> (int \<times> bool) option" where
  "speakerLevel api v jack = (case api of None \<Rightarrow> None | Some a \<Rightarrow> SpeakerLevel v jack)"

definition setSpeakerVolume :: "int \<Rightarrow> esp_server option \<Rightarrow> esp_server option \<times> bool" where
  "setSpeakerVolume percent api =
     (case api of None \<Rightarrow> (None, False) | Some a \<Rightarrow> (case SetSpeakerVolume percent a of (b, sp) \<Rightarrow> (Some b, sp)))"

section \<open>Withdrawing\<close>

definition sendspinFlush :: duration where "sendspinFlush = 2 * second"

text \<open>How long the daemon waits for the audio server to end: \<open>ends\<close> is when it does, if it ever does.\<close>

definition settle :: "duration \<Rightarrow> duration option option \<Rightarrow> duration" where
  "settle flushFor served =
     (case served of
        None \<Rightarrow> 0
      | Some ends \<Rightarrow>
          (let wait = (if flushFor \<le> 0 then sendspinFlush else flushFor)
           in case ends of None \<Rightarrow> wait | Some t \<Rightarrow> min t wait))"

lemma settle_bounded: "flushFor \<le> 0 \<Longrightarrow> settle flushFor served \<le> sendspinFlush"
  by (auto simp: settle_def sendspinFlush_def Let_def split: option.splits)

end
