(* ===== verification/Spec2Isabelle.thy ===== *)
theory Spec2Isabelle
  imports Untrusted_Log Alexa_Follow Alexa_Request Audio_Player Sp_Workers Sp_Json Esp_Types Esp_Conn Evdev_Uinput Mdns_Socket Device_Run Audio_Chime Serve_Glue
begin

text \<open>
  \<^bold>\<open>overdub\<close>: a daemon for a rooted Echo Dot that makes its buttons, its speaker and its state a device of Home Assistant and a
  player of Music Assistant, and leaves Alexa running.  This library models the Go program under \<open>src/\<close> and proves what
  makes it correct.

  \<^bold>\<open>The program and its parts.\<close>  \<open>main.go\<close> reads the command line and calls \<open>serve\<close> in \<open>serve.go\<close>, which puts the parts
  together and stays as the place they meet:

  \<^item> \<open>internal/button\<close> grabs the Dot's buttons through \<open>internal/evdev\<close>, routes their events to a clone of the input device
    or keeps them, by the mode of each button, and counts presses into gestures; gestures become events of the api.
  \<^item> \<open>internal/esphome\<close> is the api of an ESPHome device: encrypted frames, protobuf messages, a list of entities, and states
    that are sent to every subscriber when they change.  What a client asks is left to worker goroutines.
  \<^item> \<open>internal/sendspin\<close> is the audio client: a websocket, a Noise handshake, JSON messages and audio chunks in typed frames,
    a filter that follows the server's clock, a player that is given the chunks with the moment they belong to.
  \<^item> \<open>internal/audio\<close> sounds them: a stream that places each chunk on the frame the player says it belongs on, a mixer, the
    chime, a player that shares one OpenSL ES output.
  \<^item> \<open>internal/mdns\<close> announces both services and answers queries; \<open>internal/alexa\<close> watches Alexa in logcat, has her speak a
    clip and sends her commands over the account's web api; \<open>internal/device\<close> reads the Dot and switches network ADB.
  \<^item> \<open>internal/untrustedlog\<close> bounds what any peer of these can make the daemon log.

  \<^bold>\<open>How the code is modelled.\<close>  A struct is a record with its fields, an error is a value, a method is a function from the
  state to the state and what it did.  What the method reads outside (the clock, the kernel, a program, a peer, a library
  not under \<open>src/\<close>) is an argument: a value, a function of the call, or of the number of the call.  Goroutines are
  transition systems whose steps are what happens under one hold of a mutex or between two calls to the outside, and a
  property of them holds for every sequence of steps.  Times and durations are nanoseconds in \<open>int\<close>; integers are words
  where the code packs, wraps or compares them as such.  The target is 32-bit ARM without fused multiply-add.

  \<^bold>\<open>The Go library.\<close>  \<^theory_text>\<open>Overdub_Prelude\<close> has bytes, byte orders, truncated division, and the two interfaces most parts meet:
  \<open>machine\<close> (a step with an invariant, extended by \<open>emitter\<close>) and \<open>codec\<close>.  \<^theory_text>\<open>Go_Strings\<close>, \<^theory_text>\<open>Go_Utf8\<close>, \<^theory_text>\<open>Go_Base64\<close>,
  \<^theory_text>\<open>Go_Encode\<close> (\<open>net/url\<close>, JSON string literals) and \<^theory_text>\<open>Go_Json\<close> (\<open>encoding/json\<close> with the decoding of structures) give the
  functions the code calls, with their round trips.  \<^theory_text>\<open>Go_Float\<close> and \<^theory_text>\<open>Go_Float64\<close> are \<open>float32\<close> and \<open>float64\<close> bit for bit,
  with the operators of the type classes.  \<^theory_text>\<open>Go_Sys\<close> is a program of calls on the kernel, with the interface \<open>opener\<close> of what
  must not leak a descriptor.  \<^theory_text>\<open>Window_Limiter\<close> and \<^theory_text>\<open>Latest_Worker\<close> are the interfaces of a rate limiter and of a worker
  that exists only while there is work.

  \<^bold>\<open>The parts, and what is shown of them.\<close>

  \<^item> Buttons: \<^theory_text>\<open>Evdev\<close> (events as bytes), \<^theory_text>\<open>Evdev_Uinput\<close> (the ioctls and the clone), \<^theory_text>\<open>Button\<close> (the routing loop and the modes),
    \<^theory_text>\<open>Button_Gesture\<close> (presses and timers).  No key stays down on the clone, no press is lost, long presses are bracketed,
    nothing leaks when opening fails, and a clone that is grabbed for declares every key and the identity of its node.
  \<^item> The log: \<^theory_text>\<open>Untrusted_Log\<close>.  Lines and their length are bounded over a whole run.
  \<^item> The api: \<^theory_text>\<open>Esp_Proto\<close> (\<open>proto.go\<close>), \<^theory_text>\<open>Esp_Noise\<close> (\<open>noise.go\<close>), \<^theory_text>\<open>Esp_State\<close> (\<open>state.go\<close>), \<^theory_text>\<open>Esp_Media\<close> (\<open>media.go\<close> and the
    workers), \<^theory_text>\<open>Esp_Server\<close> (messages and entities of \<open>server.go\<close> and \<open>entities.go\<close>), \<^theory_text>\<open>Esp_Sync\<close> (the server as a transition
    system), \<^theory_text>\<open>Esp_Types\<close> (states against the list of entities), \<^theory_text>\<open>Esp_Conn\<close> (one connection with its reader and writer).
    Every subscriber has last been told what was last published, what a client decrypts is the beginning of its queue,
    states have the type their entity was listed with, one worker runs whenever there is work for it.
  \<^item> The audio client: \<^theory_text>\<open>Sp_Ws\<close> (\<open>ws.go\<close>), \<^theory_text>\<open>Sp_Transport\<close>, \<^theory_text>\<open>Sp_Keys\<close> (\<open>keys.go\<close>, \<open>identity.go\<close>), \<^theory_text>\<open>Sp_Handshake\<close>, \<^theory_text>\<open>Sp_Flac\<close>,
    \<^theory_text>\<open>Sp_Session\<close> (\<open>hello.go\<close>, \<open>stream.go\<close>, \<open>command.go\<close>), \<^theory_text>\<open>Sp_Clock\<close> (\<open>time.go\<close>), \<^theory_text>\<open>Sp_Play\<close> (\<open>chunk.go\<close>, \<open>play.go\<close>), \<^theory_text>\<open>Sp_Client\<close> and
    \<^theory_text>\<open>Sp_Run\<close> (\<open>client.go\<close>: what connections share, and the loop of one), \<^theory_text>\<open>Sp_Filter\<close> (\<open>timefilter.go\<close>), \<^theory_text>\<open>Sp_Workers\<close> (the
    goroutines beside the loop, and the serving of a connection from its first deadline to its end), \<^theory_text>\<open>Sp_Json\<close> (every message
    as JSON, both ways).  JSON is a parameter of the handshake, the session and the loop; \<open>Sp_Json\<close> instantiates it with
    what \<open>encoding/json\<close> makes of the structures' tags.  A session comes only out of a completed handshake, is
    the session of what was read and written in it, and a peer that keeps to the protocol gets one on the key that fits;
    a message of up to \<open>maxWSFrames\<close> frames is put together and a longer one refused; typed messages up to \<open>maxMessage\<close>
    survive their fragments; a stream is open only while the
    session may play and is closed wherever the connection ends; one session plays at a time; a stamp is placed at its
    moment through the whole filter; questions, reports and writes to the disk are rationed; a level that changed is
    written to the server.
  \<^item> Sound: \<^theory_text>\<open>Audio_Pcm\<close> (samples, the output's state), \<^theory_text>\<open>Audio_Stream\<close> (\<open>stream.go\<close>), \<^theory_text>\<open>Audio_Player\<close> (\<open>mixer.go\<close>,
    \<open>chime_android.go\<close>), \<^theory_text>\<open>Audio_Chime\<close> (\<open>chime.go\<close>).  Every frame is accounted for, a chunk is placed near where the clock
    puts it, one stream is heard at the output's rate, no sample of the chime is out of range.
  \<^item> The responder: \<^theory_text>\<open>Mdns\<close>, \<^theory_text>\<open>Mdns_Socket\<close>.  An announcement is of the services carried when it was last checked, and that check fails
    once the responder is withdrawn; the mutex is free between the check and the write (\<open>docs/mdns.md\<close>), so what happens
    there comes too late, and the model has that gap.  A query is answered with what it asks for, answers are rationed, a cycle gives its socket back.
  \<^item> Alexa: \<^theory_text>\<open>Alexa_Watch\<close> (the watchers), \<^theory_text>\<open>Alexa_Follow\<close> (\<open>logcat.go\<close>), \<^theory_text>\<open>Alexa_Command\<close> (\<open>speak.go\<close>, \<open>command.go\<close>: what is decided),
    \<^theory_text>\<open>Alexa_Request\<close> (what is put on the wire).  A command goes once to the Dot's own device and carries the text asked for,
    the token never reaches an error of the cookie exchange, whatever the server echoes.
  \<^item> The Dot: \<^theory_text>\<open>Device_Facts\<close> (everything read of it), \<^theory_text>\<open>Device_Run\<close> (programs under a deadline), \<^theory_text>\<open>Device_Adb\<close> (the debugging port).
    The port opens only with its security known to be as asked, and what was set is what is found once adbd has restarted;
    readings are over before the next of their kind is due.
  \<^item> The daemon: \<^theory_text>\<open>Serve_Delay\<close>, \<^theory_text>\<open>Serve_Switch\<close> (the audio server switched on and off), \<^theory_text>\<open>Serve_Mute\<close> (the mute and the volume
    keys), \<^theory_text>\<open>Serve_Main\<close> (the command line, gestures, the order of starting), \<^theory_text>\<open>Serve_Glue\<close> (a clip played by three goroutines).
    The switch says what is so, switching off ends, the keys are held by one guard, a clip that plays will be said to
    have ended but for one race, which \<open>start_left_behind\<close> exhibits.

  \<^bold>\<open>Bounds and fuel.\<close>  Loops are recursions with a termination proof, but for four with fuel.  \<open>ws_loop\<close> counts the frames of a
  message as the code does, to \<open>maxWSFrames\<close>, and so does \<open>sp_loop\<close> the fragments; running out is the code's own error.
  \<open>flac_loop\<close> has one turn for each byte of input, which \<open>decodeFLAC_ends\<close> shows to be enough for a parser that consumes
  something.  The JSON reader has two turns for each byte and one, which \<open>read_fuel_all\<close> shows to be all that is used.
  Loops of a goroutine that never ends are transition systems.  Counters the code keeps in 64 bits (generations, frames,
  bytes) are unbounded where they cannot come round in the life of the device; stamps, delays, sequence numbers and
  everything that is read from a peer keep their width.

  \<^bold>\<open>Parameters.\<close>  The Noise library (\<open>noise_kk\<close>, \<open>noise_nn\<close>, the ciphers of a session), SHA-1, SHA-256 and X25519, the DNS
  message library (\<open>dns_lib\<close>), the FLAC frame parser, \<open>math.Sin\<close>, \<open>html.UnescapeString\<close>, \<open>strconv.ParseFloat\<close>, the cookie jar
  and \<open>net/http\<close>'s connection.  A law one of these must keep is a hypothesis of the theorem that needs it, and its witness has
  a function that keeps it.

  \<^bold>\<open>Not modelled.\<close>  The C code on OpenSL ES (\<open>audio_android.c\<close>) and the stub for other platforms; the installer and the other
  programs under \<open>deploy/\<close>, which are not Go; tests.  The wording of log lines and errors, where the code only prints it:
  their number, their length and what must not be in them are modelled where the code cares.  The texts of
  \<open>encoding/json\<close>'s errors.  The hooks that tests set in place of the system's functions are the arguments of the model.
  The scheduler and the memory model: a step is atomic where the code holds a mutex or makes one call, and data the code
  shares without one (atomics) is read and written in single steps.  An mDNS query is handled in one step, though the code
  takes the mutex for it several times; an announcement and a change of the services are not.  Real time: how long a step takes is an argument,
  except in \<open>Device_Run\<close>, where deadlines are the subject.
\<close>

end
